(* ===== verification/Prelude.thy ===== *)
theory Prelude
  imports Main "HOL-Library.Word"
begin

unbundle bit_operations_syntax

text \<open>
  Shared vocabulary of the development: the widths of the C integer types, the fault
  values of code that asserts or touches memory out of bounds, the pieces of the C string
  library the sources use, and the collections and generic lemmas the component theories
  build on.
\<close>

named_theorems res_simps "unfolding rules for the fault monad"
named_theorems layout_simps "size and layout constants"

section \<open>Integer widths\<close>

type_synonym u8 = "8 word"
type_synonym u16 = "16 word"
type_synonym u32 = "32 word"
type_synonym u64 = "64 word"

section \<open>Faults\<close>

text \<open>
  \<open>rhs_assert\<close> and \<open>rhs_crash\<close> (core/check.h) never return: they log and reset the
  controller. A modelled function returns \<open>Inl\<close> of a fault there. \<open>OutOfBounds\<close> and
  \<open>DivisionByZero\<close> are not raised by the code: they mark a memory access outside an object
  and a division by zero, where C has no defined behaviour, so that a theorem \<open>f x = Inr y\<close> also says that \<open>f\<close> stays in bounds.
  \<open>Blocked\<close> marks a call that waits without limit for an event which does not come.
\<close>

datatype fault = AssertFailed | Crash string | OutOfBounds | DivisionByZero | Blocked

type_synonym 'a res = "fault + 'a"

definition rbind :: "'a res \<Rightarrow> ('a \<Rightarrow> 'b res) \<Rightarrow> 'b res" where
  "rbind m f = (case m of Inl e \<Rightarrow> Inl e | Inr x \<Rightarrow> f x)"

definition rhs_assert :: "bool \<Rightarrow> 'a res \<Rightarrow> 'a res" where
  "rhs_assert b k = (if b then k else Inl AssertFailed)"

lemma rbind_simps [simp, res_simps]:
  "rbind (Inl e) f = Inl e"
  "rbind (Inr x) f = f x"
  by (simp_all add: rbind_def)

lemma rbind_eq_Inr:
  "rbind m f = Inr y \<longleftrightarrow> (\<exists>x. m = Inr x \<and> f x = Inr y)"
  by (cases m) auto

lemma rhs_assert_simps [simp, res_simps]:
  "rhs_assert True k = k"
  "rhs_assert False k = Inl AssertFailed"
  by (simp_all add: rhs_assert_def)

lemma rhs_assert_eq_Inr [simp]:
  "rhs_assert b k = Inr y \<longleftrightarrow> b \<and> k = Inr y"
  by (simp add: rhs_assert_def)

lemma rhs_assert_split_asm:
  "P (rhs_assert b k) \<longleftrightarrow> \<not> (b \<and> \<not> P k \<or> \<not> b \<and> \<not> P (Inl AssertFailed))"
  by (simp add: rhs_assert_def)

section \<open>Arrays\<close>

text \<open>A read or write of \<open>a[i]\<close>, which C defines only inside the array.\<close>

definition aget :: "'a list \<Rightarrow> nat \<Rightarrow> 'a res" where
  "aget xs i = (if i < length xs then Inr (xs ! i) else Inl OutOfBounds)"

definition aset :: "'a list \<Rightarrow> nat \<Rightarrow> 'a \<Rightarrow> 'a list res" where
  "aset xs i v = (if i < length xs then Inr (xs[i := v]) else Inl OutOfBounds)"

lemma aget_in [simp, res_simps]: "i < length xs \<Longrightarrow> aget xs i = Inr (xs ! i)"
  by (simp add: aget_def)

lemma aset_in [simp, res_simps]: "i < length xs \<Longrightarrow> aset xs i v = Inr (xs[i := v])"
  by (simp add: aset_def)

lemma aget_out: "length xs \<le> i \<Longrightarrow> aget xs i = Inl OutOfBounds"
  by (simp add: aget_def)

lemma aset_out: "length xs \<le> i \<Longrightarrow> aset xs i v = Inl OutOfBounds"
  by (simp add: aset_def)

lemma list_update_split:
  assumes "0 < p" and "p \<le> length xs"
  shows "xs[p - 1 := x] = take (p - 1) xs @ x # drop p xs"
  using assms upd_conv_take_nth_drop [of "p - 1" xs x] by simp

lemma drop_list_update_pred:
  assumes "0 < p" and "p \<le> length xs"
  shows "drop (p - 1) (xs[p - 1 := x]) = x # drop p xs"
  unfolding list_update_split [OF assms] using assms by simp

section \<open>Word bounds\<close>

lemma unat_u8_less: "unat (w :: u8) < 256"
  using unsigned_less [of w] by simp

lemma unat_u16_less: "unat (w :: u16) < 65536"
  using unsigned_less [of w] by simp

lemma unat_u32_less: "unat (w :: u32) < 4294967296"
  using unsigned_less [of w] by simp

lemma unat_u64_less: "unat (w :: u64) < 18446744073709551616"
  using unsigned_less [of w] by simp

text \<open>The counter of a loop \<open>for (i = 0; i < n; i++)\<close> does not wrap.\<close>

lemma unat_loop_Suc: "i < n \<Longrightarrow> unat (i + 1 :: 'a::len word) = Suc (unat i)"
proof -
  assume "i < n"
  then have "unat i < unat n" by (simp add: word_less_nat_alt)
  then have "Suc (unat i) < 2 ^ LENGTH('a)" using unsigned_less [of n] by (rule le_less_trans [OF Suc_leI])
  then have "unat i + unat (1 :: 'a word) < 2 ^ LENGTH('a)" by simp
  then show ?thesis by (simp only: unat_add_lem) simp
qed

lemma loop_measure: "i < n \<Longrightarrow> unat n - unat (i + 1 :: 'a::len word) < unat n - unat i"
  by (simp add: unat_loop_Suc word_less_nat_alt)

lemma unat_ucast_mod: "unat (ucast w :: 'b::len word) = unat w mod 2 ^ LENGTH('b)"
  by (simp add: unsigned_ucast_eq take_bit_eq_mod)

lemma unat_ucast_up [simp]:
  "unat (ucast (a :: u8) :: u16) = unat a"
  "unat (ucast (a :: u8) :: u32) = unat a"
  "unat (ucast (b :: u16) :: u32) = unat b"
  "unat (ucast (c :: u32) :: u64) = unat c"
  using unat_u8_less [of a] unat_u16_less [of b] unat_u32_less [of c]
  by (simp_all add: unat_ucast_mod)

lemmas unat_width_less = unat_u8_less unat_u16_less unat_u32_less unat_u64_less

section \<open>C strings\<close>

text \<open>
  A \<open>char*\<close> argument is the list of its characters before the terminating NUL; reading
  at the end of the list reads that NUL.
\<close>

definition nul :: char where
  "nul = CHR 0x00"

definition deref :: "string \<Rightarrow> char" where
  "deref s = (case s of [] \<Rightarrow> nul | c # _ \<Rightarrow> c)"

definition c_string :: "string \<Rightarrow> bool" where
  "c_string s \<longleftrightarrow> nul \<notin> set s"

lemma deref_simps [simp]: "deref [] = nul" "deref (c # s) = c"
  by (simp_all add: deref_def)

lemma c_string_simps [simp]:
  "c_string []" "c_string (c # s) \<longleftrightarrow> c \<noteq> nul \<and> c_string s"
  "c_string (s @ t) \<longleftrightarrow> c_string s \<and> c_string t"
  by (auto simp: c_string_def)

definition char_nat :: "char \<Rightarrow> nat" where
  "char_nat c = of_char c"

lemma char_nat_of_char [simp]: "char_nat (char_of n) = n mod 256"
  by (simp add: char_nat_def)

lemma char_nat_less: "char_nat c < 256"
  using of_char_mod_256 [of c] unfolding char_nat_def by (metis mod_less_divisor zero_less_numeral)

lemma char_nat_inject [simp]: "char_nat c = char_nat d \<longleftrightarrow> c = d"
  by (simp add: char_nat_def)

subsection \<open>Decimal digits\<close>

definition is_digit :: "char \<Rightarrow> bool" where
  "is_digit c \<longleftrightarrow> 48 \<le> char_nat c \<and> char_nat c \<le> 57"

definition digit_char :: "nat \<Rightarrow> char" where
  "digit_char d = char_of (48 + d)"

definition digit_val :: "char \<Rightarrow> nat" where
  "digit_val c = char_nat c - 48"

lemma digit_char_props [simp]:
  assumes "d < 10"
  shows "is_digit (digit_char d)" and "digit_val (digit_char d) = d"
  using assms by (simp_all add: is_digit_def digit_char_def digit_val_def)

lemma is_digit_val_less: "is_digit c \<Longrightarrow> digit_val c < 10"
  by (auto simp: is_digit_def digit_val_def)

lemma not_is_digit_nul [simp]: "\<not> is_digit nul"
  by (simp add: is_digit_def nul_def char_nat_def)

lemma is_digit_not_nul: "is_digit c \<Longrightarrow> c \<noteq> nul"
  by auto

text \<open>\<open>printf ("%u")\<close>: the decimal representation without leading zeros.\<close>

fun dec_string :: "nat \<Rightarrow> string" where
  "dec_string n = (if n < 10 then [digit_char n] else dec_string (n div 10) @ [digit_char (n mod 10)])"

declare dec_string.simps [simp del]

fun dec_value :: "string \<Rightarrow> nat \<Rightarrow> nat" where
  "dec_value [] acc = acc"
| "dec_value (c # s) acc = dec_value s (acc * 10 + digit_val c)"

lemma dec_value_append [simp]: "dec_value (s @ t) acc = dec_value t (dec_value s acc)"
  by (induction s arbitrary: acc) auto

lemma dec_value_mono: "acc \<le> dec_value s acc"
proof (induction s arbitrary: acc)
  case (Cons c s)
  have "acc \<le> acc * 10 + digit_val c" by simp
  also have "\<dots> \<le> dec_value s (acc * 10 + digit_val c)" by (rule Cons.IH)
  finally show ?case by simp
qed simp

lemma dec_string_digits: "\<forall>c \<in> set (dec_string n). is_digit c"
proof (induction n rule: dec_string.induct)
  case (1 n)
  then show ?case
    by (subst dec_string.simps) (auto simp del: char_nat_of_char)
qed

lemma dec_string_nonempty [simp]: "dec_string n \<noteq> []"
  by (subst dec_string.simps) simp

lemma dec_value_dec_string [simp]: "dec_value (dec_string n) 0 = n"
proof (induction n rule: dec_string.induct)
  case (1 n)
  then show ?case
    by (cases "n < 10") (simp_all add: dec_string.simps [of n])
qed

lemma dec_string_length:
  "n < 10 ^ Suc k \<Longrightarrow> length (dec_string n) \<le> Suc k"
proof (induction k arbitrary: n)
  case 0
  then show ?case by (simp add: dec_string.simps [of n])
next
  case (Suc k)
  show ?case
  proof (cases "n < 10")
    case True
    then show ?thesis by (simp add: dec_string.simps [of n])
  next
    case False
    from Suc.prems have "n div 10 < 10 ^ Suc k"
      by (simp add: less_mult_imp_div_less mult.commute)
    then have "length (dec_string (n div 10)) \<le> Suc k" by (rule Suc.IH)
    with False show ?thesis by (simp add: dec_string.simps [of n])
  qed
qed

lemma dec_string_c_string [simp]: "c_string (dec_string n)"
  using dec_string_digits [of n] by (auto simp: c_string_def)

end
