(* ===== verification/Net_Utils.thy ===== *)
theory Net_Utils
  imports Prelude
begin

text \<open>
  The IPv4 text conversions of applications/services/net/net_utils/net_utils.c and the
  decimal printer of core/common.h: the parser \<open>string_to_ip\<close>, the printer
  \<open>ip_to_string\<close>, the validity test, and \<open>uint64_to_str\<close>. The lemmas give the language
  the parser accepts, the bounds of its results, and the round trips.
\<close>

section \<open>Parsing\<close>

text \<open>
  The loop of \<open>parse_octet\<close>: the state is the pointer \<open>p\<close>, \<open>*value\<close> and
  \<open>digit_count\<close>; \<open>None\<close> for the \<open>return -1\<close> inside the loop, with \<open>*value\<close> as it was
  left.
\<close>

fun parse_octet_loop :: "string \<Rightarrow> u32 \<Rightarrow> nat \<Rightarrow> u32 + (string \<times> u32 \<times> nat)" where
  "parse_octet_loop [] v n = Inr ([], v, n)"
| "parse_octet_loop (c # p) v n =
     (if is_digit c then
        let v' = v * 10 + of_nat (digit_val c)
        in if v' > 255 then Inl v' else parse_octet_loop p v' (Suc n)
      else Inr (c # p, v, n))"

text \<open>Returns the code, the updated \<open>*str\<close> and the updated \<open>*value\<close>.\<close>

definition parse_octet :: "string \<Rightarrow> int \<times> string \<times> u32" where
  "parse_octet str =
     (case parse_octet_loop str 0 0 of
        Inl v \<Rightarrow> (-1, str, v)
      | Inr (p, v, n) \<Rightarrow> if n = 0 then (-1, str, v) else (0, p, v))"

fun skip_ws :: "string \<Rightarrow> string" where
  "skip_ws [] = []"
| "skip_ws (c # s) = (if c = CHR '' '' \<or> c = CHR 0x09 then skip_ws s else c # s)"

definition ends_address :: "char \<Rightarrow> bool" where
  "ends_address c \<longleftrightarrow> c = nul \<or> c = CHR '' '' \<or> c = CHR 0x09 \<or> c = CHR 0x0D \<or> c = CHR 0x0A"

type_synonym octets = "u32 \<times> u32 \<times> u32 \<times> u32"

text \<open>
  \<open>ip_str\<close> and the four result pointers may be NULL (\<open>None\<close>; one \<open>None\<close> stands for any
  NULL result pointer). The results are the code and the four variables, of which those
  not yet reached keep their old value.
\<close>

definition string_to_ip :: "string option \<Rightarrow> octets option \<Rightarrow> int \<times> octets option" where
  "string_to_ip ip_str out =
     (case (ip_str, out) of
        (Some s, Some (a0, b0, c0, d0)) \<Rightarrow>
          (let s0 = skip_ws s; (ra, s1, a) = parse_octet s0 in
           if ra \<noteq> 0 then (-1, Some (a, b0, c0, d0))
           else if deref s1 \<noteq> CHR ''.'' then (-1, Some (a, b0, c0, d0))
           else let (rb, s2, b) = parse_octet (tl s1) in
           if rb \<noteq> 0 then (-1, Some (a, b, c0, d0))
           else if deref s2 \<noteq> CHR ''.'' then (-1, Some (a, b, c0, d0))
           else let (rc, s3, c) = parse_octet (tl s2) in
           if rc \<noteq> 0 then (-1, Some (a, b, c, d0))
           else if deref s3 \<noteq> CHR ''.'' then (-1, Some (a, b, c, d0))
           else let (rd, s4, d) = parse_octet (tl s3) in
           if rd \<noteq> 0 then (-1, Some (a, b, c, d))
           else if \<not> ends_address (deref s4) then (-1, Some (a, b, c, d))
           else (0, Some (a, b, c, d)))
      | _ \<Rightarrow> (-1, out))"

definition ip_string_is_valid :: "string option \<Rightarrow> int" where
  "ip_string_is_valid ip_str = (if fst (string_to_ip ip_str (Some (0, 0, 0, 0))) = 0 then 1 else 0)"

section \<open>Printing\<close>

definition ip_text :: "u32 \<Rightarrow> u32 \<Rightarrow> u32 \<Rightarrow> u32 \<Rightarrow> string" where
  "ip_text a b c d =
     dec_string (unat a) @ ''.'' @ dec_string (unat b) @ ''.'' @ dec_string (unat c) @ ''.'' @
     dec_string (unat d)"

text \<open>The result buffer, when there is one, holds the printed text; it is untouched on error.\<close>

definition ip_to_string :: "u32 \<Rightarrow> u32 \<Rightarrow> u32 \<Rightarrow> u32 \<Rightarrow> string option \<Rightarrow> int \<times> string option" where
  "ip_to_string a b c d str_buf =
     (case str_buf of
        None \<Rightarrow> (-1, None)
      | Some old \<Rightarrow>
          if a > 255 \<or> b > 255 \<or> c > 255 \<or> d > 255 then (-1, Some old)
          else (0, Some (ip_text a b c d)))"

section \<open>Printing 64-bit numbers\<close>

text \<open>
  \<open>uint64_to_str\<close> of core/common.h fills its buffer from the end. The loop state is the
  number, the buffer and the index of \<open>p\<close> in it; \<open>*--p\<close> at index 0 is out of bounds.
\<close>

function uint64_digits :: "u64 \<Rightarrow> char list \<Rightarrow> nat \<Rightarrow> (char list \<times> nat) res" where
  "uint64_digits num buf p =
     (if num > 0 then
        (if p = 0 then Inl OutOfBounds
         else rbind (aset buf (p - 1) (char_of (48 + unat (num mod 10))))
                (\<lambda>buf'. uint64_digits (num div 10) buf' (p - 1)))
      else Inr (buf, p))"
  by pat_completeness auto
termination
  by (relation "measure (\<lambda>(num, buf, p). unat num)")
     (auto simp: word_less_nat_alt unat_div_distrib)

definition uint64_to_str :: "u64 \<Rightarrow> char list \<Rightarrow> u16 \<Rightarrow> (char list \<times> nat) option res" where
  "uint64_to_str num buf sz =
     (if sz < 21 then Inr None
      else let p = unat sz - 1 in
           rbind (aset buf p nul)
             (\<lambda>buf. if num = 0
                    then rbind (aset buf (p - 1) (CHR ''0'')) (\<lambda>buf. Inr (Some (buf, p - 1)))
                    else rbind (uint64_digits num buf p) (\<lambda>r. Inr (Some r))))"

section \<open>What the parser accepts\<close>

definition octet_text :: "string \<Rightarrow> u32 \<Rightarrow> bool" where
  "octet_text s v \<longleftrightarrow> s \<noteq> [] \<and> (\<forall>c \<in> set s. is_digit c) \<and> dec_value s 0 = unat v \<and> v \<le> 255"

lemma dot_not_digit [simp]: "\<not> is_digit (CHR ''.'')"
  by (simp add: is_digit_def char_nat_def)

lemma ends_not_digit: "ends_address c \<Longrightarrow> \<not> is_digit c"
  by (auto simp: ends_address_def is_digit_def char_nat_def nul_def)

lemma octet_step_unat:
  assumes "v \<le> (255 :: u32)" and "d < 10"
  shows "unat (v * 10 + of_nat d) = unat v * 10 + d"
proof -
  from assms(1) have "unat v \<le> 255" by (simp add: word_le_nat_alt)
  with assms(2) show ?thesis
    by (simp add: unat_word_ariths unat_of_nat)
qed

lemma parse_octet_loop_digits:
  assumes "\<forall>c \<in> set s. is_digit c" and "dec_value s (unat v) \<le> 255" and "\<not> is_digit (deref t)"
  shows "parse_octet_loop (s @ t) v n = Inr (t, of_nat (dec_value s (unat v)), n + length s)"
  using assms
proof (induction s arbitrary: v n)
  case Nil
  then show ?case by (cases t) auto
next
  case (Cons c s)
  let ?v' = "v * 10 + of_nat (digit_val c)"
  from Cons.prems have dc: "digit_val c < 10" by (simp add: is_digit_val_less)
  have "unat v \<le> unat v * 10 + digit_val c" by simp
  also have "\<dots> \<le> dec_value s (unat v * 10 + digit_val c)" by (rule dec_value_mono)
  also have "\<dots> \<le> 255" using Cons.prems by simp
  finally have v: "v \<le> 255" by (simp add: word_le_nat_alt)
  have uv: "unat ?v' = unat v * 10 + digit_val c" by (rule octet_step_unat [OF v dc])
  have "unat v * 10 + digit_val c \<le> 255"
    using dec_value_mono [of "unat v * 10 + digit_val c" s] Cons.prems by simp
  then have "\<not> ?v' > 255" by (simp add: word_less_nat_alt uv)
  moreover have "parse_octet_loop (s @ t) ?v' (Suc n) =
      Inr (t, of_nat (dec_value s (unat ?v')), Suc n + length s)"
    using Cons.prems uv by (intro Cons.IH) simp_all
  ultimately show ?case using Cons.prems uv by (simp add: Let_def)
qed

lemma parse_octet_digits:
  assumes "octet_text s v" and "\<not> is_digit (deref t)"
  shows "parse_octet (s @ t) = (0, t, v)"
  using assms parse_octet_loop_digits [of s 0 t 0]
  by (simp add: parse_octet_def octet_text_def word_le_nat_alt)

lemma parse_octet_loop_sound:
  assumes "parse_octet_loop s v n = Inr (t, w, m)" and "v \<le> 255"
  shows "\<exists>u. s = u @ t \<and> (\<forall>c \<in> set u. is_digit c) \<and> \<not> is_digit (deref t) \<and>
             m = n + length u \<and> w \<le> 255 \<and> dec_value u (unat v) = unat w"
  using assms
proof (induction s v n rule: parse_octet_loop.induct)
  case (1 v n)
  then show ?case by auto
next
  case (2 c p v n)
  let ?v' = "v * 10 + of_nat (digit_val c)"
  show ?case
  proof (cases "is_digit c")
    case False
    with 2 show ?thesis by auto
  next
    case True
    with "2.prems" have le: "\<not> ?v' > 255" and rec: "parse_octet_loop p ?v' (Suc n) = Inr (t, w, m)"
      by (auto simp: Let_def split: if_splits)
    from "2.IH" [OF True refl le rec] le
    obtain u where u: "p = u @ t" "\<forall>c \<in> set u. is_digit c" "\<not> is_digit (deref t)"
      "m = Suc n + length u" "w \<le> 255" "dec_value u (unat ?v') = unat w"
      by (auto simp: not_less)
    have "unat ?v' = unat v * 10 + digit_val c"
      using "2.prems"(2) is_digit_val_less [OF True] by (rule octet_step_unat)
    with u True show ?thesis by (intro exI [of _ "c # u"]) auto
  qed
qed

lemma parse_octet_sound:
  assumes "parse_octet s = (0, t, v)"
  shows "\<exists>u. s = u @ t \<and> octet_text u v \<and> \<not> is_digit (deref t)"
proof -
  from assms obtain n where n: "parse_octet_loop s 0 0 = Inr (t, v, n)" "n \<noteq> 0"
    by (auto simp: parse_octet_def split: sum.splits prod.splits if_splits)
  from parse_octet_loop_sound [OF n(1)] n(2) show ?thesis
    by (auto simp: octet_text_def)
qed

text \<open>The text form of an address: leading blanks, four dotted octets, a terminator.\<close>

definition address_text :: "string \<Rightarrow> octets \<Rightarrow> bool" where
  "address_text s q \<longleftrightarrow>
     (\<exists>ws a b c d rest. s = ws @ a @ ''.'' @ b @ ''.'' @ c @ ''.'' @ d @ rest \<and>
        (\<forall>x \<in> set ws. x = CHR '' '' \<or> x = CHR 0x09) \<and>
        octet_text a (fst q) \<and> octet_text b (fst (snd q)) \<and> octet_text c (fst (snd (snd q))) \<and>
        octet_text d (snd (snd (snd q))) \<and> ends_address (deref rest))"

lemma skip_ws_split:
  "\<exists>ws. s = ws @ skip_ws s \<and> (\<forall>x \<in> set ws. x = CHR '' '' \<or> x = CHR 0x09)"
proof (induction s)
  case (Cons c s)
  then obtain ws where ws: "s = ws @ skip_ws s" "\<forall>x \<in> set ws. x = CHR '' '' \<or> x = CHR 0x09"
    by blast
  show ?case
  proof (cases "c = CHR '' '' \<or> c = CHR 0x09")
    case True
    then have "c # s = (c # ws) @ skip_ws (c # s)" using arg_cong [OF ws(1), of "Cons c"] by auto
    with True ws(2) show ?thesis by (intro exI [of _ "c # ws"]) auto
  next
    case False
    then show ?thesis by (intro exI [of _ "[]"]) auto
  qed
qed simp

lemma skip_ws_digits:
  assumes "\<forall>x \<in> set ws. x = CHR '' '' \<or> x = CHR 0x09" and "octet_text a v"
  shows "skip_ws (ws @ a @ t) = a @ t"
  using assms
proof (induction ws)
  case Nil
  then obtain c a' where "a = c # a'" and "is_digit c" by (cases a) (auto simp: octet_text_def)
  then have "\<not> (c = CHR '' '' \<or> c = CHR 0x09)" by (auto simp: is_digit_def char_nat_def)
  with \<open>a = c # a'\<close> show ?case by simp
qed auto

lemma string_to_ip_complete:
  assumes "address_text s (a, b, c, d)"
  shows "string_to_ip (Some s) (Some out) = (0, Some (a, b, c, d))"
proof -
  from assms obtain ws ta tb tc td rest where
    s: "s = ws @ ta @ ''.'' @ tb @ ''.'' @ tc @ ''.'' @ td @ rest"
    and ws: "\<forall>x \<in> set ws. x = CHR '' '' \<or> x = CHR 0x09"
    and t: "octet_text ta a" "octet_text tb b" "octet_text tc c" "octet_text td d"
    and r: "ends_address (deref rest)"
    unfolding address_text_def by auto
  have "skip_ws s = ta @ ''.'' @ tb @ ''.'' @ tc @ ''.'' @ td @ rest"
    unfolding s by (rule skip_ws_digits [OF ws t(1)])
  moreover have "parse_octet (ta @ CHR ''.'' # x) = (0, CHR ''.'' # x, a)" for x
    by (rule parse_octet_digits [OF t(1)]) simp
  moreover have "parse_octet (tb @ CHR ''.'' # x) = (0, CHR ''.'' # x, b)" for x
    by (rule parse_octet_digits [OF t(2)]) simp
  moreover have "parse_octet (tc @ CHR ''.'' # x) = (0, CHR ''.'' # x, c)" for x
    by (rule parse_octet_digits [OF t(3)]) simp
  moreover have "parse_octet (td @ rest) = (0, rest, d)"
    by (rule parse_octet_digits [OF t(4)]) (rule ends_not_digit [OF r])
  ultimately show ?thesis
    using r by (cases out) (simp add: string_to_ip_def Let_def)
qed

lemma deref_dot: "deref s = CHR ''.'' \<Longrightarrow> s = CHR ''.'' # tl s"
  by (cases s) (auto simp: nul_def)

lemma string_to_ip_sound:
  assumes "string_to_ip (Some s) (Some out) = (0, r)"
  shows "\<exists>q. r = Some q \<and> address_text s q"
proof -
  obtain a0 b0 c0 d0 where out: "out = (a0, b0, c0, d0)" by (cases out)
  obtain ra s1 a where pa: "parse_octet (skip_ws s) = (ra, s1, a)" by (metis prod_cases3)
  obtain rb s2 b where pb: "parse_octet (tl s1) = (rb, s2, b)" by (metis prod_cases3)
  obtain rc s3 c where pc: "parse_octet (tl s2) = (rc, s3, c)" by (metis prod_cases3)
  obtain rd s4 d where pd: "parse_octet (tl s3) = (rd, s4, d)" by (metis prod_cases3)
  from assms have c: "ra = 0" "deref s1 = CHR ''.''" "rb = 0" "deref s2 = CHR ''.''"
      "rc = 0" "deref s3 = CHR ''.''" "rd = 0" "ends_address (deref s4)" "r = Some (a, b, c, d)"
    by (auto simp: string_to_ip_def out pa pb pc pd split: if_splits)
  from pa pb pc pd c
  have "parse_octet (skip_ws s) = (0, s1, a)" "parse_octet (tl s1) = (0, s2, b)"
    "parse_octet (tl s2) = (0, s3, c)" "parse_octet (tl s3) = (0, s4, d)" by simp_all
  then obtain ta tb tc td where t:
    "skip_ws s = ta @ s1" "octet_text ta a" "tl s1 = tb @ s2" "octet_text tb b"
    "tl s2 = tc @ s3" "octet_text tc c" "tl s3 = td @ s4" "octet_text td d"
    by (meson parse_octet_sound)
  obtain ws where ws: "s = ws @ skip_ws s" "\<forall>x \<in> set ws. x = CHR '' '' \<or> x = CHR 0x09"
    using skip_ws_split by blast
  have "s1 = ''.'' @ tb @ s2" "s2 = ''.'' @ tc @ s3" "s3 = ''.'' @ td @ s4"
    using c(2,4,6) [THEN deref_dot] t(3,5,7) by simp_all
  then have "s = ws @ ta @ ''.'' @ tb @ ''.'' @ tc @ ''.'' @ td @ s4"
    using ws(1) t(1) by simp
  then have "address_text s (a, b, c, d)"
    unfolding address_text_def fst_conv snd_conv using ws(2) t(2,4,6,8) c(8) by blast
  with c(9) show ?thesis by blast
qed

lemma octet_text_dec_string: "v \<le> 255 \<Longrightarrow> octet_text (dec_string (unat v)) v"
  by (simp add: octet_text_def dec_string_digits)

lemma ip_text_address:
  assumes "a \<le> 255" "b \<le> 255" "c \<le> 255" "d \<le> 255"
  shows "address_text (ip_text a b c d) (a, b, c, d)"
  unfolding address_text_def ip_text_def using assms
  by (intro exI [of _ "[]"] exI [of _ "dec_string (unat a)"] exI [of _ "dec_string (unat b)"]
        exI [of _ "dec_string (unat c)"] exI [of _ "dec_string (unat d)"])
     (simp add: octet_text_dec_string ends_address_def)

lemma dec_string_octet_length:
  assumes "v \<le> (255 :: u32)"
  shows "length (dec_string (unat v)) \<le> 3"
proof -
  from assms have "unat v < 10 ^ Suc 2" by (simp add: word_le_nat_alt)
  from dec_string_length [OF this] show ?thesis by simp
qed

section \<open>The decimal printer\<close>

declare uint64_digits.simps [simp del]

lemma unat_div_10 [simp]: "unat (num div 10 :: u64) = unat num div 10"
  by (simp add: unat_div_distrib)

lemma unat_mod_10 [simp]: "unat (num mod 10 :: u64) = unat num mod 10"
  by (simp add: unat_mod_distrib)

lemma uint64_digits_correct:
  assumes "num \<noteq> 0" and "length (dec_string (unat num)) \<le> p" and "p \<le> length buf"
  shows "uint64_digits num buf p =
     (let k = length (dec_string (unat num))
      in Inr (take (p - k) buf @ dec_string (unat num) @ drop p buf, p - k))"
  using assms
proof (induction num buf p rule: uint64_digits.induct)
  case (1 num buf p)
  let ?n = "unat num" and ?d = "char_of (48 + unat num mod 10) :: char"
  let ?buf' = "buf[p - 1 := ?d]"
  from "1.prems" have p: "0 < p" by (cases "dec_string ?n") auto
  have buf': "?buf' = take (p - 1) buf @ ?d # drop p buf"
    using p "1.prems"(3) by (rule list_update_split)
  have step: "uint64_digits num buf p = uint64_digits (num div 10) ?buf' (p - 1)"
    using "1.prems" p by (subst uint64_digits.simps) (simp add: word_gt_0)
  show ?case
  proof (cases "?n < 10")
    case True
    then have "unat (num div 10) = 0" by simp
    then have "num div 10 = 0" by (simp only: unat_eq_zero)
    then have "uint64_digits (num div 10) ?buf' (p - 1) = Inr (?buf', p - 1)"
      by (subst uint64_digits.simps) simp
    with True step buf' show ?thesis
      by (simp add: dec_string.simps [of ?n] digit_char_def)
  next
    case False
    let ?k = "length (dec_string (?n div 10))"
    have dn: "dec_string ?n = dec_string (?n div 10) @ [?d]"
      using False by (simp add: dec_string.simps [of ?n] digit_char_def)
    have "unat (num div 10) \<noteq> 0" using False by simp
    then have nz: "num div 10 \<noteq> 0" by (metis unat_0)
    have "uint64_digits (num div 10) ?buf' (p - 1) =
        Inr (take (p - 1 - ?k) ?buf' @ dec_string (?n div 10) @ drop (p - 1) ?buf', p - 1 - ?k)"
      using "1.IH" [of ?buf'] "1.prems" p nz dn
      by (simp add: word_gt_0 Let_def aset_def)
    moreover have "take (p - 1 - ?k) ?buf' = take (p - 1 - ?k) buf"
      unfolding buf' using p "1.prems"(3) by simp
    moreover have "drop (p - 1) ?buf' = ?d # drop p buf"
      using p "1.prems"(3) by (rule drop_list_update_pred)
    ultimately show ?thesis using step dn by (simp add: Let_def)
  qed
qed

lemma u64_dec_length: "length (dec_string (unat (num :: u64))) \<le> 20"
proof -
  have "unat num < 18446744073709551616" by (rule unat_u64_less)
  also have "(18446744073709551616 :: nat) < 10 ^ Suc 19" by simp
  finally show ?thesis using dec_string_length [of "unat num" 19] by simp
qed

section \<open>Properties\<close>

text \<open>\<open>string_to_ip\<close> succeeds exactly on optional blanks, four decimal octets of value at
  most 255 separated by dots, and then the end of the string or white space, and it then
  returns those four octets.
\<close>

theorem string_to_ip_iff:
  "string_to_ip (Some s) (Some out) = (0, Some q) \<longleftrightarrow> address_text s q"
proof
  show "address_text s q" if "string_to_ip (Some s) (Some out) = (0, Some q)"
    using string_to_ip_sound [OF that] by simp
  show "string_to_ip (Some s) (Some out) = (0, Some q)" if "address_text s q"
    using that string_to_ip_complete by (cases q) simp
qed

text \<open>Every address that \<open>ip_to_string\<close> prints fits, with its NUL, into the 16 bytes the
  callers provide (\<open>NetConfig.ip\<close>), and \<open>string_to_ip\<close> reads the same four octets back;
  an octet above 255 or a NULL buffer is refused and nothing is written.
\<close>

theorem ip_to_string_roundtrip:
  "if a \<le> 255 \<and> b \<le> 255 \<and> c \<le> 255 \<and> d \<le> 255
   then (\<exists>t. ip_to_string a b c d (Some old) = (0, Some t) \<and> length t + 1 \<le> 16 \<and> c_string t \<and>
             string_to_ip (Some t) (Some out) = (0, Some (a, b, c, d)))
   else ip_to_string a b c d (Some old) = (-1, Some old)"
proof (cases "a \<le> 255 \<and> b \<le> 255 \<and> c \<le> 255 \<and> d \<le> 255")
  case True
  then have le: "length (dec_string (unat a)) \<le> 3" "length (dec_string (unat b)) \<le> 3"
    "length (dec_string (unat c)) \<le> 3" "length (dec_string (unat d)) \<le> 3"
    by (simp_all add: dec_string_octet_length)
  then have "length (ip_text a b c d) + 1 \<le> 16" by (simp add: ip_text_def)
  moreover have "c_string (ip_text a b c d)" by (simp add: ip_text_def nul_def)
  moreover have "string_to_ip (Some (ip_text a b c d)) (Some out) = (0, Some (a, b, c, d))"
    using True by (intro string_to_ip_complete ip_text_address) auto
  moreover have "ip_to_string a b c d (Some old) = (0, Some (ip_text a b c d))"
    using True by (simp add: ip_to_string_def not_less)
  ultimately show ?thesis using True by auto
next
  case False
  then show ?thesis by (auto simp: ip_to_string_def not_le)
qed

text \<open>On a buffer of the stated size \<open>uint64_to_str\<close> stays in bounds for every 64-bit
  number and the returned pointer addresses the NUL-terminated decimal representation at
  the end of the buffer; a buffer of less than 21 bytes gives NULL.
\<close>

theorem uint64_to_str_correct:
  assumes "length buf = unat sz"
  shows "if sz < 21 then uint64_to_str num buf sz = Inr None
         else \<exists>buf' p. uint64_to_str num buf sz = Inr (Some (buf', p)) \<and>
                       length buf' = length buf \<and> drop p buf' = dec_string (unat num) @ [nul]"
proof (cases "sz < 21")
  case True
  then show ?thesis by (simp add: uint64_to_str_def)
next
  case False
  then have len: "21 \<le> length buf" by (simp add: assms word_less_nat_alt)
  let ?p = "length buf - 1"
  let ?b = "buf[?p := nul]"
  let ?k = "length (dec_string (unat num))"
  from len have "buf \<noteq> []" by auto
  then have last: "drop ?p ?b = [nul]" by (simp add: Cons_nth_drop_Suc [symmetric])
  show ?thesis
  proof (cases "num = 0")
    case True
    have "drop (?p - 1) (?b[?p - 1 := CHR ''0'']) = CHR ''0'' # drop ?p ?b"
      using len by (intro drop_list_update_pred) auto
    moreover have "dec_string 0 = ''0''" by (simp add: dec_string.simps digit_char_def char_of_def bit_simps)
    ultimately show ?thesis
      using False True len last by (simp add: uint64_to_str_def assms [symmetric] Let_def)
  next
    case nz: False
    have k: "?k \<le> ?p" using u64_dec_length [of num] len by simp
    have "uint64_digits num ?b ?p = Inr (take (?p - ?k) ?b @ dec_string (unat num) @ [nul], ?p - ?k)"
      using uint64_digits_correct [OF nz k, of ?b] last by (simp add: Let_def)
    then show ?thesis
      using False nz len k by (simp add: uint64_to_str_def assms [symmetric] Let_def)
  qed
qed

theorem uint64_to_str_correct_witness:
  "length (replicate 21 nul) = unat (21 :: u16) \<and>
   (\<exists>buf' p. uint64_to_str 1234 (replicate 21 nul) 21 = Inr (Some (buf', p)) \<and>
             length buf' = length (replicate 21 nul) \<and> drop p buf' = dec_string (unat (1234 :: u64)) @ [nul])"
  using uint64_to_str_correct [of "replicate 21 nul" 21 1234] by simp

end
