(* ===== verification/Unixtime.thy ===== *)
theory Unixtime
  imports Prelude
begin

text \<open>
  The calendar conversions of hal/rhs_hal_rtc/unixtime/unixtime.c, at the widths of the C
  types, against a reference calendar: the proleptic Gregorian calendar counted in days
  from 1970-01-01. The lemmas show that \<open>convert_date_2_unix_time\<close> computes that count for
  every valid date, and say on which dates \<open>convert_unix_time_2_date\<close> inverts it: the last
  days of a leap year come out one day early.
\<close>

section \<open>Data\<close>

record datetime_t =
  hours :: u32
  minutes :: u32
  seconds :: u32
  mseconds :: u32
  day :: u32
  month :: u32
  year :: u32
  weekday :: u32

definition leap_year :: "nat \<Rightarrow> bool" where
  "leap_year y \<longleftrightarrow> (y mod 4 = 0 \<and> y mod 100 \<noteq> 0) \<or> y mod 400 = 0"

definition month_days :: "nat \<Rightarrow> u8 list" where
  "month_days y = [31, if leap_year y then 29 else 28, 31, 30, 31, 30, 31, 31, 30, 31, 30, 31]"

definition week_days :: "u8 list" where
  "week_days = [4, 5, 6, 0, 1, 2, 3]"

section \<open>Operations\<close>

text \<open>The loop that counts leap days in an \<open>unsigned char\<close>.\<close>

function leap_days_loop :: "nat \<Rightarrow> u32 \<Rightarrow> u8 \<Rightarrow> u8" where
  "leap_days_loop i y leap_days =
     (if i < unat y
      then leap_days_loop (i + 4) y (if leap_year i then leap_days + 1 else leap_days)
      else leap_days)"
  by pat_completeness auto
termination
  by (relation "measure (\<lambda>(i, y, _). unat y - i)") auto

declare leap_days_loop.simps [simp del]

text \<open>
  The loop over the months: it walks the rest of \<open>month_days\<close>, with the index \<open>m\<close> and the
  \<open>unsigned short\<close> sum \<open>temp_days\<close>.
\<close>

fun month_loop :: "u32 \<Rightarrow> u8 list \<Rightarrow> nat \<Rightarrow> u16 \<Rightarrow> nat \<times> u16" where
  "month_loop day_of_year [] m temp_days = (m, temp_days)"
| "month_loop day_of_year (d # ds) m temp_days =
     (if day_of_year \<le> ucast temp_days then (m, temp_days)
      else month_loop day_of_year ds (Suc m) (temp_days + ucast d))"

text \<open>
  The function leaves \<open>mseconds\<close> unset; \<open>junk\<close> is the indeterminate value of that field.
\<close>

definition convert_unix_time_2_date :: "u32 \<Rightarrow> u64 \<Rightarrow> datetime_t res" where
  "convert_unix_time_2_date junk secs =
     (let epoch0 = secs;
          sec = ucast (epoch0 mod 60) :: u32;
          epoch1 = epoch0 div 60;
          mins = ucast (epoch1 mod 60) :: u32;
          epoch2 = epoch1 div 60;
          hrs = ucast (epoch2 mod 24) :: u32;
          epoch3 = epoch2 div 24;
          days_since_epoch = ucast epoch3 :: u32;
          year0 = 1970 + days_since_epoch div 365;
          leap_days = leap_days_loop 1972 year0 0;
          yr = 1970 + (days_since_epoch - ucast leap_days) div 365;
          day_of_year = (days_since_epoch - ucast leap_days) mod 365 + 1;
          mdays = month_days (unat yr);
          (m, temp_days) = month_loop day_of_year mdays 0 0
      in rbind (aget week_days (unat (days_since_epoch mod 7)))
           (\<lambda>wd. rbind (if m = 0 then Inl OutOfBounds else aget mdays (m - 1))
             (\<lambda>md. let temp_days = temp_days - ucast md
                   in Inr \<lparr>hours = hrs, minutes = mins, seconds = sec, mseconds = junk,
                           day = day_of_year - ucast temp_days, month = of_nat m, year = yr,
                           weekday = ucast wd\<rparr>)))"

definition convert_date_2_unix_time :: "datetime_t \<Rightarrow> u32" where
  "convert_date_2_unix_time date =
     (let m0 = month date; y0 = year date; d = day date;
          m = (if m0 \<le> 2 then m0 + 12 else m0);
          y = (if m0 \<le> 2 then y0 - 1 else y0);
          t1 = 365 * y + y div 4 - y div 100 + y div 400;
          t2 = t1 + (30 * m + 3 * (m + 1) div 5 + d);
          t3 = t2 - 719561;
          t4 = t3 * 86400
      in t4 + (3600 * hours date + 60 * minutes date + seconds date))"

section \<open>The reference calendar\<close>

lemma mod_400_100: "(n::nat) mod 400 = 0 \<Longrightarrow> n mod 100 = 0"
  using mod_mod_cancel [of 100 400 n] by simp

lemma mod_100_4: "(n::nat) mod 100 = 0 \<Longrightarrow> n mod 4 = 0"
  using mod_mod_cancel [of 4 100 n] by simp

lemma leap_year_mod_4: "leap_year n \<Longrightarrow> n mod 4 = 0"
  by (auto simp: leap_year_def dest: mod_400_100 mod_100_4)

definition month_lengths :: "nat \<Rightarrow> nat list" where
  "month_lengths y = map unat (month_days y)"

definition year_length :: "nat \<Rightarrow> nat" where
  "year_length y = (if leap_year y then 366 else 365)"

definition leaps_before :: "nat \<Rightarrow> nat" where
  "leaps_before y = length (filter leap_year [1970..<y])"

definition days_before_year :: "nat \<Rightarrow> nat" where
  "days_before_year y = sum_list (map year_length [1970..<y])"

definition days_before_month :: "nat \<Rightarrow> nat \<Rightarrow> nat" where
  "days_before_month y m = sum_list (take (m - 1) (month_lengths y))"

definition valid_date :: "nat \<Rightarrow> nat \<Rightarrow> nat \<Rightarrow> bool" where
  "valid_date y m d \<longleftrightarrow> 1970 \<le> y \<and> 1 \<le> m \<and> m \<le> 12 \<and> 1 \<le> d \<and> d \<le> month_lengths y ! (m - 1)"

definition valid_time :: "nat \<Rightarrow> nat \<Rightarrow> nat \<Rightarrow> bool" where
  "valid_time h mi s \<longleftrightarrow> h < 24 \<and> mi < 60 \<and> s < 60"

definition day_index :: "nat \<Rightarrow> nat \<Rightarrow> nat \<Rightarrow> nat" where
  "day_index y m d = days_before_month y m + d - 1"

definition day_number :: "nat \<Rightarrow> nat \<Rightarrow> nat \<Rightarrow> nat" where
  "day_number y m d = days_before_year y + day_index y m d"

definition unix_seconds :: "nat \<Rightarrow> nat \<Rightarrow> nat \<Rightarrow> nat \<Rightarrow> nat \<Rightarrow> nat \<Rightarrow> nat" where
  "unix_seconds y m d h mi s = day_number y m d * 86400 + (h * 3600 + mi * 60 + s)"

text \<open>The days on which the year estimate of \<open>convert_unix_time_2_date\<close> is one too high.\<close>

definition late_in_leap_year :: "nat \<Rightarrow> nat \<Rightarrow> bool" where
  "late_in_leap_year y idx \<longleftrightarrow> leap_year y \<and> 365 \<le> idx + leaps_before y"

lemma month_lengths_simp:
  "month_lengths y = [31, if leap_year y then 29 else 28, 31, 30, 31, 30, 31, 31, 30, 31, 30, 31]"
  by (simp add: month_lengths_def month_days_def)

lemma sum_month_lengths: "sum_list (month_lengths y) = year_length y"
  by (simp add: month_lengths_simp year_length_def)

lemma length_month_lengths [simp]: "length (month_lengths y) = 12"
  by (simp add: month_lengths_simp)

lemma leaps_before_Suc: "1970 \<le> y \<Longrightarrow> leaps_before (Suc y) = leaps_before y + (if leap_year y then 1 else 0)"
  by (simp add: leaps_before_def)

lemma days_before_year_Suc: "1970 \<le> y \<Longrightarrow> days_before_year (Suc y) = days_before_year y + year_length y"
  by (simp add: days_before_year_def)

lemma days_before_year_leaps: "1970 \<le> y \<Longrightarrow> days_before_year y = 365 * (y - 1970) + leaps_before y"
proof (induction rule: dec_induct)
  case base
  show ?case by (simp add: days_before_year_def leaps_before_def)
next
  case (step n)
  obtain k where "n = 1970 + k" using step.hyps(1) by (auto simp: le_iff_add)
  with step days_before_year_Suc [of n] leaps_before_Suc [of n] show ?case
    by (simp add: year_length_def)
qed

text \<open>Every day number lies in one year.\<close>

lemma day_number_year: "\<exists>y idx. 1970 \<le> y \<and> n = days_before_year y + idx \<and> idx < year_length y"
proof (induction n)
  case 0
  show ?case
    by (intro exI [of _ 1970] exI [of _ 0]) (simp add: days_before_year_def year_length_def)
next
  case (Suc n)
  then obtain y idx where h: "1970 \<le> y" "n = days_before_year y + idx" "idx < year_length y" by blast
  show ?case
  proof (cases "Suc idx < year_length y")
    case True
    with h show ?thesis by (intro exI [of _ y] exI [of _ "Suc idx"]) simp
  next
    case False
    with h have "Suc n = days_before_year (Suc y) + 0" by (simp add: days_before_year_Suc)
    moreover have "0 < year_length (Suc y)" by (simp add: year_length_def)
    ultimately show ?thesis using h(1) by (intro exI [of _ "Suc y"] exI [of _ 0]) simp
  qed
qed

text \<open>Every day of a year lies in one month.\<close>

lemma day_index_month:
  assumes "idx < year_length y"
  shows "\<exists>m d. 1 \<le> m \<and> m \<le> 12 \<and> 1 \<le> d \<and> d \<le> month_lengths y ! (m - 1) \<and> idx = day_index y m d"
proof -
  have "\<exists>k < length ls. \<exists>d. 1 \<le> d \<and> d \<le> ls ! k \<and> idx = sum_list (take k ls) + d - 1"
    if "idx < sum_list ls" for idx and ls :: "nat list"
    using that
  proof (induction ls arbitrary: idx)
    case (Cons l ls)
    show ?case
    proof (cases "idx < l")
      case True
      then show ?thesis by (intro exI [of _ 0]) (auto intro!: exI [of _ "Suc idx"])
    next
      case False
      with Cons.prems have "idx - l < sum_list ls" by simp
      then obtain k d where "k < length ls" "1 \<le> d" "d \<le> ls ! k" "idx - l = sum_list (take k ls) + d - 1"
        using Cons.IH by blast
      with False show ?thesis by (intro exI [of _ "Suc k"]) (auto intro!: exI [of _ d])
    qed
  qed simp
  from this [of idx "month_lengths y"] assms obtain k d where
    "k < 12" "1 \<le> d" "d \<le> month_lengths y ! k" "idx = sum_list (take k (month_lengths y)) + d - 1"
    by (auto simp: sum_month_lengths)
  then show ?thesis
    by (intro exI [of _ "Suc k"] exI [of _ d]) (simp add: day_index_def days_before_month_def)
qed

section \<open>From a date to seconds\<close>

text \<open>
  The code's day count, on naturals: years from March, so that the leap day is the last
  day of the year, and the month lengths as \<open>30 m + 3 (m + 1) / 5\<close>.
\<close>

definition code_days :: "nat \<Rightarrow> nat \<Rightarrow> nat \<Rightarrow> nat" where
  "code_days y m d = 365 * y + y div 4 - y div 100 + y div 400 + (30 * m + 3 * (m + 1) div 5 + d)"

lemma leaps_before_closed:
  "1970 \<le> y \<Longrightarrow> leaps_before y + 477 + (y - 1) div 100 = (y - 1) div 4 + (y - 1) div 400"
proof (induction rule: dec_induct)
  case base
  show ?case by (simp add: leaps_before_def)
next
  case (step n)
  then obtain k where n: "n = Suc k" by (cases n) auto
  have "leap_year n \<longleftrightarrow> (n mod 4 = 0 \<and> n mod 100 \<noteq> 0) \<or> n mod 400 = 0"
    by (simp add: leap_year_def)
  moreover note mod_400_100 [of n] mod_100_4 [of n]
  ultimately show ?case
    using step by (auto simp: leaps_before_Suc n div_Suc)
qed

lemma days_before_year_closed:
  assumes "1970 \<le> y"
  shows "days_before_year y + 719527 + (y - 1) div 100 = 365 * y + (y - 1) div 4 + (y - 1) div 400"
  using leaps_before_closed [OF assms] days_before_year_leaps [OF assms] assms by arith

lemma leap_divs:
  assumes "1 \<le> y"
  shows "y div 4 + y div 400 + (y - 1) div 100 + (if leap_year y then 0 else 1) =
         (y - 1) div 4 + (y - 1) div 400 + y div 100 + 1"
proof -
  from assms obtain k where k: "y = Suc k" by (cases y) auto
  note mod_400_100 [of y] mod_100_4 [of y]
  then show ?thesis by (auto simp: leap_year_def k div_Suc)
qed

lemma month_cases:
  assumes "1 \<le> m" and "m \<le> (12::nat)"
  shows "m = 1 \<or> m = 2 \<or> m = 3 \<or> m = 4 \<or> m = 5 \<or> m = 6 \<or>
         m = 7 \<or> m = 8 \<or> m = 9 \<or> m = 10 \<or> m = 11 \<or> m = 12"
  using assms by presburger

lemma days_before_month_closed:
  assumes "1 \<le> m" and "m \<le> 12"
  shows "if m \<le> 2 then days_before_month y m + 398 = 30 * (m + 12) + 3 * (m + 13) div 5
         else days_before_month y m + 32 + (if leap_year y then 0 else 1) = 30 * m + 3 * (m + 1) div 5"
  using month_cases [OF assms]
  by (elim disjE) (simp_all add: days_before_month_def month_lengths_simp)

lemma code_days_correct:
  assumes "1970 \<le> y" and "1 \<le> m" and "m \<le> 12" and "1 \<le> d"
  shows "(if m \<le> 2 then code_days (y - 1) (m + 12) d else code_days y m d) = day_number y m d + 719561"
proof -
  have le: "z div 100 \<le> z div 4" for z :: nat by (rule div_le_mono2) simp_all
  have dm: "day_number y m d + 1 = days_before_year y + days_before_month y m + d"
    using assms(4) by (simp add: day_number_def day_index_def)
  note facts = days_before_year_closed [OF assms(1)] days_before_month_closed [OF assms(2,3), of y]
  show ?thesis
  proof (cases "m \<le> 2")
    case True
    have gen: "365 * (y - 1) + a - b + c + (e + d) = n + 719561"
      if "A + 719527 + b = 365 * y + a + c" "b \<le> a" "M + 398 = e" "n + 1 = A + M + d"
      for a b c e A M n :: nat
      using that assms(1) by linarith
    have "days_before_month y m + 398 = 30 * (m + 12) + 3 * ((m + 12) + 1) div 5"
      using facts(2) True by simp
    from gen [OF facts(1) le this dm] True show ?thesis
      by (simp only: code_days_def if_True)
  next
    case False
    have gen: "365 * y + a' - b' + c' + (e + d) = n + 719561"
      if "A + 719527 + b = 365 * y + a + c" "b' \<le> a'" "M + 32 + l = e" "n + 1 = A + M + d"
         "a' + c' + b + l = a + c + b' + 1"
      for a b c a' b' c' l e A M n :: nat
      using that by linarith
    have "days_before_month y m + 32 + (if leap_year y then 0 else 1) = 30 * m + 3 * (m + 1) div 5"
      using facts(2) False by simp
    from gen [OF facts(1) le this dm leap_divs] assms(1) False show ?thesis
      by (simp add: code_days_def)
  qed
qed

lemma word_year_days:
  "365 * y + y div 4 - y div 100 + y div 400 =
     (of_nat (365 * unat y + unat y div 4 - unat y div 100 + unat y div 400) :: u32)"
proof -
  have "unat y div 100 \<le> unat y div 4" by (rule div_le_mono2) simp_all
  then have "unat y div 100 \<le> 365 * unat y + unat y div 4" by linarith
  moreover have "y div 4 = of_nat (unat y div 4)" "y div 100 = of_nat (unat y div 100)"
    "y div 400 = of_nat (unat y div 400)"
    by (simp_all add: word_arith_nat_div [of y])
  ultimately show ?thesis by (simp add: of_nat_diff)
qed

lemma word_month_days:
  assumes "unat m \<le> 14"
  shows "30 * m + 3 * (m + 1) div 5 + d = (of_nat (30 * unat m + 3 * (unat m + 1) div 5 + unat d) :: u32)"
proof -
  from assms have "unat (3 * (m + 1)) = 3 * (unat m + 1)"
    by (simp add: unat_word_ariths)
  then have "3 * (m + 1) div 5 = of_nat (3 * (unat m + 1) div 5)"
    by (simp only: word_arith_nat_div [of "3 * (m + 1)"]) simp
  then show ?thesis by simp
qed

lemma convert_date_2_unix_time_valid:
  assumes v: "valid_date (unat (year date)) (unat (month date)) (unat (day date))"
  shows "convert_date_2_unix_time date =
     of_nat (unix_seconds (unat (year date)) (unat (month date)) (unat (day date))
               (unat (hours date)) (unat (minutes date)) (unat (seconds date)))"
proof -
  let ?y = "unat (year date)" and ?m = "unat (month date)" and ?d = "unat (day date)"
  define m y where "m = (if month date \<le> 2 then month date + 12 else month date)"
    and "y = (if month date \<le> 2 then year date - 1 else year date)"
  from v have b: "1970 \<le> ?y" "1 \<le> ?m" "?m \<le> 12" "1 \<le> ?d" by (simp_all add: valid_date_def)
  have m2: "month date \<le> 2 \<longleftrightarrow> ?m \<le> 2" by (simp add: word_le_nat_alt)
  have um: "unat m = (if ?m \<le> 2 then ?m + 12 else ?m)"
    using b by (simp add: m_def m2 unat_word_ariths)
  have "(1 :: u32) \<le> year date" using b by (simp add: word_le_nat_alt)
  then have uy: "unat y = (if ?m \<le> 2 then ?y - 1 else ?y)"
    by (simp add: y_def m2 unat_sub)
  have "unat m \<le> 14" using um b by simp
  then have "365 * y + y div 4 - y div 100 + y div 400 + (30 * m + 3 * (m + 1) div 5 + day date) =
      of_nat (code_days (unat y) (unat m) ?d)"
    unfolding word_year_days by (simp only: word_month_days code_days_def of_nat_add)
  also have "code_days (unat y) (unat m) ?d = day_number ?y ?m ?d + 719561"
    using code_days_correct [OF b] by (auto simp: um uy)
  finally have "365 * y + y div 4 - y div 100 + y div 400 + (30 * m + 3 * (m + 1) div 5 + day date) - 719561 =
      of_nat (day_number ?y ?m ?d)"
    by simp
  then show ?thesis
    unfolding convert_date_2_unix_time_def unix_seconds_def Let_def m_def [symmetric] y_def [symmetric]
    by (simp add: mult.commute)
qed

section \<open>From seconds to a date\<close>

lemma filter_leap_skip: "\<not> leap_year i \<Longrightarrow> filter leap_year [i..<n] = filter leap_year [Suc i..<n]"
  by (cases "i < n") (simp_all add: upt_conv_Cons)

lemma leap_days_loop_correct:
  assumes "i mod 4 = 0"
  shows "leap_days_loop i y a = a + of_nat (length (filter leap_year [i..<unat y]))"
  using assms
proof (induction i y a rule: leap_days_loop.induct)
  case (1 i y a)
  have "\<not> leap_year (Suc i)" "\<not> leap_year (Suc (Suc i))" "\<not> leap_year (Suc (Suc (Suc i)))"
    using "1.prems" leap_year_mod_4 [of "Suc i"] leap_year_mod_4 [of "Suc (Suc i)"]
      leap_year_mod_4 [of "Suc (Suc (Suc i))"] by (auto simp: mod_Suc)
  then have "filter leap_year [Suc i..<unat y] = filter leap_year [i + 4..<unat y]"
    by (simp add: filter_leap_skip numeral_eq_Suc)
  then have skip: "i < unat y \<Longrightarrow> filter leap_year [i..<unat y] =
      (if leap_year i then i # filter leap_year [i + 4..<unat y] else filter leap_year [i + 4..<unat y])"
    using upt_conv_Cons [of i "unat y"] by simp
  show ?case
  proof (cases "i < unat y")
    case True
    then have "leap_days_loop i y a = leap_days_loop (i + 4) y (if leap_year i then a + 1 else a)"
      by (simp add: leap_days_loop.simps [of i y a])
    also have "\<dots> = (if leap_year i then a + 1 else a) + of_nat (length (filter leap_year [i + 4..<unat y]))"
      using "1.prems" by (intro "1.IH" [OF True]) simp
    finally show ?thesis by (simp add: skip [OF True])
  next
    case False
    then show ?thesis by (simp add: leap_days_loop.simps [of i y a])
  qed
qed

lemma leaps_before_1972: "leaps_before y = length (filter leap_year [1972..<y])"
proof -
  have "\<not> leap_year 1970" "\<not> leap_year 1971" by (simp_all add: leap_year_def)
  then have "filter leap_year [1970..<y] = filter leap_year [Suc (Suc 1970)..<y]"
    by (simp add: filter_leap_skip del: upt_Suc)
  then show ?thesis by (simp add: leaps_before_def)
qed

lemma leaps_before_bound: "1970 \<le> y \<Longrightarrow> y \<le> 2107 \<Longrightarrow> leaps_before y \<le> 35"
proof -
  assume y: "1970 \<le> y" "y \<le> 2107"
  then have "(y - 1) div 4 \<le> 526" "(y - 1) div 400 \<le> 5" "19 \<le> (y - 1) div 100"
    by (simp_all add: div_le_mono less_eq_div_iff_mult_less_eq)
  with leaps_before_closed [OF y(1)] show ?thesis by linarith
qed

text \<open>The code's two-step estimate of the year, on naturals.\<close>

definition shown_index :: "nat \<Rightarrow> nat \<Rightarrow> nat" where
  "shown_index y idx = (if late_in_leap_year y idx then idx - 1 else idx)"

lemma year_estimate:
  assumes y: "1970 \<le> y" "y \<le> 2106" and idx: "idx < year_length y"
  defines "D \<equiv> days_before_year y + idx"
  defines "e \<equiv> D - leaps_before (1970 + D div 365)"
  shows "1970 + e div 365 = y" and "e mod 365 = shown_index y idx" and
    "1970 + D div 365 \<le> 2107" and "leaps_before (1970 + D div 365) \<le> D"
proof -
  let ?L = "leaps_before y" and ?k = "y - 1970"
  have L: "?L \<le> 35" using leaps_before_bound y by simp
  have D: "D = 365 * ?k + (?L + idx)" using days_before_year_leaps [OF y(1)] by (simp add: D_def)
  have idx': "idx \<le> 365" using idx by (simp add: year_length_def split: if_splits)
  have div: "D div 365 = ?k + (if ?L + idx < 365 then 0 else 1)"
  proof -
    have "(?L + idx) div 365 = (if ?L + idx < 365 then 0 else 1)" using L idx' by auto
    then show ?thesis unfolding D by simp
  qed
  have y0: "1970 + D div 365 = (if ?L + idx < 365 then y else Suc y)" using div y by simp
  then show "1970 + D div 365 \<le> 2107" using y by simp
  have e: "e = 365 * ?k + shown_index y idx \<and> shown_index y idx < 365 \<and>
      leaps_before (1970 + D div 365) \<le> D"
  proof (cases "?L + idx < 365")
    case True
    then have "shown_index y idx = idx" by (simp add: shown_index_def late_in_leap_year_def)
    with True y0 show ?thesis by (simp add: e_def D)
  next
    case False
    then have "1970 + D div 365 = Suc y" using y0 by simp
    then have l: "leaps_before (1970 + D div 365) = ?L + (if leap_year y then 1 else 0)"
      using leaps_before_Suc [OF y(1)] by (simp only:)
    from False L have "30 \<le> idx" by simp
    with False l idx show ?thesis
      by (auto simp: e_def D shown_index_def late_in_leap_year_def year_length_def)
  qed
  then show "1970 + e div 365 = y" "e mod 365 = shown_index y idx"
    "leaps_before (1970 + D div 365) \<le> D" using y by simp_all
qed

lemma month_loop_correct:
  assumes "unat temp < unat doy" and "unat doy \<le> unat temp + sum_list (map unat ds)"
    and "unat temp + sum_list (map unat ds) < 65536"
  shows "\<exists>k temp'. 1 \<le> k \<and> k \<le> length ds \<and> month_loop doy ds m temp = (m + k, temp') \<and>
     unat temp' = unat temp + sum_list (map unat (take k ds)) \<and>
     unat temp + sum_list (map unat (take (k - 1) ds)) < unat doy \<and> unat doy \<le> unat temp'"
  using assms
proof (induction ds arbitrary: m temp)
  case (Cons d ds)
  let ?t = "temp + ucast d"
  have ut: "unat ?t = unat temp + unat d"
    using Cons.prems(3) by (simp add: unat_word_ariths)
  have go: "month_loop doy (d # ds) m temp = month_loop doy ds (Suc m) ?t"
    using Cons.prems(1) by (simp add: word_le_nat_alt)
  show ?case
  proof (cases "unat doy \<le> unat ?t")
    case True
    then have "doy \<le> ucast ?t" by (simp add: word_le_nat_alt)
    then have "month_loop doy ds (Suc m) ?t = (m + 1, ?t)" by (cases ds) simp_all
    with go True ut Cons.prems(1) show ?thesis
      by (intro exI [of _ 1] exI [of _ ?t]) simp
  next
    case False
    from Cons.IH [of ?t "Suc m"] False Cons.prems ut
    obtain k temp' where "1 \<le> k" "k \<le> length ds" "month_loop doy ds (Suc m) ?t = (Suc m + k, temp')"
      "unat temp' = unat ?t + sum_list (map unat (take k ds))"
      "unat ?t + sum_list (map unat (take (k - 1) ds)) < unat doy" "unat doy \<le> unat temp'"
      by (auto simp: not_le)
    with go ut show ?thesis
      by (intro exI [of _ "Suc k"] exI [of _ temp']) (cases k, auto)
  qed
qed simp

lemma sum_take_mono: "i \<le> j \<Longrightarrow> sum_list (take i ls) \<le> sum_list (take j (ls :: nat list))"
proof (induction ls arbitrary: i j)
  case (Cons l ls)
  then show ?case by (cases i; cases j) auto
qed simp

lemma sum_take_bracket_unique:
  assumes "sum_list (take (k - 1) ls) < v" "v \<le> sum_list (take k ls)"
    and "sum_list (take (j - 1) ls) < v" "v \<le> sum_list (take j (ls :: nat list))"
  shows "k = j"
proof (rule ccontr)
  assume "k \<noteq> j"
  then consider "k \<le> j - 1" | "j \<le> k - 1" by linarith
  then show False
    using assms sum_take_mono [of k "j - 1" ls] sum_take_mono [of j "k - 1" ls] by cases linarith+
qed

lemma valid_day_index:
  assumes "valid_date y m d"
  shows "sum_list (take (m - 1) (month_lengths y)) < day_index y m d + 1"
    and "day_index y m d + 1 \<le> sum_list (take m (month_lengths y))"
    and "day_index y m d < year_length y"
proof -
  from assms have m: "1 \<le> m" "m \<le> 12" and d: "1 \<le> d" "d \<le> month_lengths y ! (m - 1)"
    by (simp_all add: valid_date_def)
  obtain k where k: "m = Suc k" "k < length (month_lengths y)" using m by (cases m) auto
  show "sum_list (take (m - 1) (month_lengths y)) < day_index y m d + 1"
    using d by (simp add: day_index_def days_before_month_def)
  show *: "day_index y m d + 1 \<le> sum_list (take m (month_lengths y))"
    using d k by (simp add: day_index_def days_before_month_def take_Suc_conv_app_nth)
  have "sum_list (take m (month_lengths y)) \<le> sum_list (take 12 (month_lengths y))"
    using m(2) by (rule sum_take_mono)
  also have "\<dots> = year_length y" by (simp add: sum_month_lengths)
  finally show "day_index y m d < year_length y" using * by simp
qed

lemma month_loop_date:
  assumes v: "valid_date y m d" and doy: "unat doy = day_index y m d + 1"
  shows "\<exists>temp. month_loop doy (month_days y) 0 0 = (m, temp) \<and>
     unat temp = days_before_month y m + month_lengths y ! (m - 1)"
proof -
  note idx = valid_day_index [OF v]
  have len: "length (month_days y) = 12" by (simp add: month_days_def)
  have s: "sum_list (map unat (month_days y)) = year_length y"
    by (simp add: sum_month_lengths [symmetric] month_lengths_def)
  have "unat doy \<le> unat (0 :: u16) + sum_list (map unat (month_days y))"
    using idx(3) doy s by simp
  moreover have "unat (0 :: u16) + sum_list (map unat (month_days y)) < 65536"
    by (simp add: s year_length_def)
  ultimately obtain k temp where k: "1 \<le> k" "month_loop doy (month_days y) 0 0 = (k, temp)"
    "unat temp = sum_list (take k (month_lengths y))"
    "sum_list (take (k - 1) (month_lengths y)) < unat doy" "unat doy \<le> unat temp"
    using month_loop_correct [of 0 doy "month_days y" 0] doy
    by (auto simp: month_lengths_def take_map)
  then have "k = m"
    using idx doy by (intro sum_take_bracket_unique [of k "month_lengths y" "unat doy"]) simp_all
  moreover obtain j where "m = Suc j" "j < 12" using v by (cases m) (auto simp: valid_date_def)
  ultimately show ?thesis using k
    by (simp add: days_before_month_def take_Suc_conv_app_nth)
qed

lemma aget_week_days:
  "aget week_days (n mod 7) = Inr (of_nat ((n + 4) mod 7))"
proof -
  have "aget week_days x = Inr (of_nat ((x + 4) mod 7))" if "x < 7" for x
  proof -
    from that consider "x = 0" | "x = 1" | "x = 2" | "x = 3" | "x = 4" | "x = 5" | "x = 6"
      by linarith
    then show ?thesis by cases (simp_all add: week_days_def)
  qed
  from this [of "n mod 7"] show ?thesis by (simp add: mod_add_left_eq)
qed

text \<open>The time of day and the day number, split off the seconds as the code does.\<close>

lemma split_seconds:
  assumes N: "unat (secs :: u64) = D * 86400 + (h * 3600 + mi * 60 + s)"
    and t: "valid_time h mi s" and D: "D < 4294967296"
  shows "ucast (secs mod 60) = (of_nat s :: u32)"
    and "ucast (secs div 60 mod 60) = (of_nat mi :: u32)"
    and "ucast (secs div 60 div 60 mod 24) = (of_nat h :: u32)"
    and "ucast (secs div 60 div 60 div 24) = (of_nat D :: u32)"
proof -
  from t have b: "h < 24" "mi < 60" "s < 60" by (simp_all add: valid_time_def)
  have 1: "unat (secs div 60) = (D * 24 + h) * 60 + mi"
    using N b by (simp add: unat_div_distrib)
  have 2: "unat (secs div 60 div 60) = D * 24 + h"
    using 1 b by (simp add: unat_div_distrib)
  have 3: "unat (secs div 60 div 60 div 24) = D"
    using 2 b by (simp add: unat_div_distrib)
  have "unat secs = s + 60 * (D * 1440 + h * 60 + mi)" using N by simp
  then have "unat secs mod 60 = s" using b(3) by (simp only: mod_mult_self2 mod_less)
  then have "unat (secs mod 60) = s" by (simp add: unat_mod_distrib)
  moreover have "unat (secs div 60 mod 60) = mi" "unat (secs div 60 div 60 mod 24) = h"
    using b by (simp_all add: unat_mod_distrib 1 2 del: distrib_right_numeral distrib_right)
  ultimately have "unat (secs mod 60) = s" "unat (secs div 60 mod 60) = mi"
    "unat (secs div 60 div 60 mod 24) = h" by simp_all
  with 3 b D show "ucast (secs mod 60) = (of_nat s :: u32)"
    "ucast (secs div 60 mod 60) = (of_nat mi :: u32)"
    "ucast (secs div 60 div 60 mod 24) = (of_nat h :: u32)"
    "ucast (secs div 60 div 60 div 24) = (of_nat D :: u32)"
    by (simp_all add: word_unat_eq_iff unat_ucast_mod unat_of_nat)
qed

lemma convert_unix_time_2_date_shown:
  assumes v: "valid_date y m d" and y: "y \<le> 2106" and t: "valid_time h mi s"
    and v': "valid_date y m' d'" and idx: "day_index y m' d' = shown_index y (day_index y m d)"
    and N: "unat secs = unix_seconds y m d h mi s"
  shows "convert_unix_time_2_date junk secs =
     Inr \<lparr>hours = of_nat h, minutes = of_nat mi, seconds = of_nat s, mseconds = junk,
          day = of_nat d', month = of_nat m', year = of_nat y,
          weekday = of_nat ((day_number y m d + 4) mod 7)\<rparr>"
proof -
  let ?D = "day_number y m d" and ?i = "day_index y m d"
  from v have y1970: "1970 \<le> y" by (simp add: valid_date_def)
  note est = year_estimate [OF y1970 y valid_day_index(3) [OF v], folded day_number_def]
  have L: "leaps_before (1970 + ?D div 365) \<le> 35" using est(3) by (intro leaps_before_bound) simp_all
  have "?i \<le> 365" using valid_day_index(3) [OF v] by (simp add: year_length_def split: if_splits)
  then have Dsmall: "?D < 60000"
    using days_before_year_leaps [OF y1970] leaps_before_bound [of y] y1970 y
    by (simp add: day_number_def)
  have D32: "?D < 4294967296" using Dsmall by simp
  note split = split_seconds [OF N [unfolded unix_seconds_def] t D32]
  define days :: u32 where "days = of_nat ?D"
  have ud: "unat days = ?D" using Dsmall by (simp add: days_def unat_of_nat)
  define leap where "leap = leap_days_loop 1972 (1970 + days div 365) 0"
  have uy0: "unat (1970 + days div 365) = 1970 + ?D div 365"
    using Dsmall by (simp add: unat_word_ariths unat_div_distrib ud)
  have ul: "unat leap = leaps_before (1970 + ?D div 365)"
    using L by (simp add: leap_def leap_days_loop_correct uy0 leaps_before_1972 [symmetric] unat_of_nat)
  define e where "e = days - ucast leap"
  have ue: "unat e = ?D - leaps_before (1970 + ?D div 365)"
    using est(4) by (simp add: e_def unat_sub word_le_nat_alt ul ud)
  have yr: "1970 + e div 365 = of_nat y" and uyr: "unat (1970 + e div 365) = y"
    using est(1) Dsmall by (simp_all add: word_unat_eq_iff unat_word_ariths unat_div_distrib ue unat_of_nat)
  have udoy: "unat (e mod 365 + 1) = day_index y m' d' + 1"
  proof -
    have "unat (e mod 365) = day_index y m' d'"
      using est(2) idx by (simp add: unat_mod_distrib ue)
    moreover have "day_index y m' d' < 366"
      using valid_day_index(3) [OF v'] by (simp add: year_length_def split: if_splits)
    ultimately show ?thesis by (simp add: unat_word_ariths)
  qed
  obtain temp where ml: "month_loop (e mod 365 + 1) (month_days y) 0 0 = (m', temp)"
    and ut: "unat temp = days_before_month y m' + month_lengths y ! (m' - 1)"
    using month_loop_date [OF v' udoy] by blast
  from v' have m': "m' \<noteq> 0" "m' - 1 < 12" by (auto simp: valid_date_def)
  have len: "length (month_days y) = 12" by (simp add: month_days_def)
  let ?md = "month_days y ! (m' - 1)"
  have umd: "unat ?md = month_lengths y ! (m' - 1)" using m' len by (simp add: month_lengths_def)
  have "unat (temp - ucast ?md) = days_before_month y m'"
    using ut umd by (simp add: unat_sub word_le_nat_alt)
  then have "e mod 365 + 1 - ucast (temp - ucast ?md) = of_nat d'"
    using udoy v' valid_day_index(3) [OF v']
    by (simp add: word_unat_eq_iff unat_sub word_le_nat_alt day_index_def valid_date_def unat_of_nat
        year_length_def split: if_splits)
  moreover have "aget week_days (unat (days mod 7)) = Inr (of_nat ((?D + 4) mod 7))"
    by (simp only: unat_mod_distrib ud) (simp add: aget_week_days)
  moreover have "ucast (of_nat ((?D + 4) mod 7) :: u8) = (of_nat ((?D + 4) mod 7) :: u32)"
    by (simp add: word_unat_eq_iff unat_of_nat)
  ultimately show ?thesis
    using Dsmall m' len ml uyr yr
    unfolding convert_unix_time_2_date_def Let_def split
    by (simp add: days_def [symmetric] leap_def [symmetric] e_def [symmetric])
qed

section \<open>Properties\<close>

lemma leaps_before_positive: "1973 \<le> y \<Longrightarrow> 1 \<le> leaps_before y"
proof -
  assume "1973 \<le> y"
  then have "leaps_before 1973 \<le> leaps_before y"
    unfolding leaps_before_def by (induction rule: dec_induct) simp_all
  moreover have "leaps_before 1973 = 1" by (simp add: leaps_before_def leap_year_def)
  ultimately show ?thesis by simp
qed

lemma late_index_bounds:
  assumes "late_in_leap_year y idx" and "1970 \<le> y" and "y \<le> 2106"
  shows "330 \<le> idx"
  using assms leaps_before_bound [of y] by (simp add: late_in_leap_year_def)

lemma unat_unix_seconds:
  assumes v: "valid_date y m d" and y: "y \<le> 2106" and t: "valid_time h mi s"
  shows "unat (of_nat (unix_seconds y m d h mi s) :: u64) = unix_seconds y m d h mi s"
proof -
  have "1970 \<le> y" using v by (simp add: valid_date_def)
  then have "days_before_year y \<le> 365 * 136 + 35"
    using days_before_year_leaps [of y] leaps_before_bound [of y] y by simp
  moreover have "day_index y m d \<le> 365"
    using valid_day_index(3) [OF v] by (simp add: year_length_def split: if_splits)
  ultimately have "unix_seconds y m d h mi s < 2 ^ 64"
    using t by (simp add: unix_seconds_def day_number_def valid_time_def)
  then show ?thesis by (simp only: unat_of_nat) simp
qed

lemma unix_seconds_split:
  "\<exists>y m d h mi s. valid_date y m d \<and> valid_time h mi s \<and> n = unix_seconds y m d h mi s"
proof -
  obtain y idx where y: "1970 \<le> y" "n div 86400 = days_before_year y + idx" "idx < year_length y"
    using day_number_year by blast
  obtain m d where m: "1 \<le> m" "m \<le> 12" "1 \<le> d" "d \<le> month_lengths y ! (m - 1)" "idx = day_index y m d"
    using day_index_month [OF y(3)] by blast
  let ?t = "n mod 86400"
  have "?t div 3600 * 3600 + (?t mod 3600 div 60 * 60 + ?t mod 3600 mod 60) = ?t"
    by (simp only: div_mult_mod_eq)
  moreover have "?t div 3600 < 24" by (simp add: less_mult_imp_div_less)
  moreover have "?t mod 3600 div 60 < 60" by (simp add: less_mult_imp_div_less)
  moreover have "n div 86400 * 86400 + ?t = n" by (simp only: div_mult_mod_eq)
  ultimately have "n = unix_seconds y m d (?t div 3600) (?t mod 3600 div 60) (?t mod 3600 mod 60)"
    unfolding unix_seconds_def day_number_def y(2) [symmetric] m(5) [symmetric] by linarith
  moreover have "valid_time (?t div 3600) (?t mod 3600 div 60) (?t mod 3600 mod 60)"
    by (simp add: valid_time_def less_mult_imp_div_less)
  ultimately show ?thesis using m y(1) unfolding valid_date_def by blast
qed

text \<open>For every valid date whose Unix time fits 32 bits, \<open>convert_date_2_unix_time\<close> returns the
  number of seconds of the Gregorian calendar since 1970-01-01 00:00:00.\<close>

theorem convert_date_2_unix_time_correct:
  assumes "valid_date (unat (year date)) (unat (month date)) (unat (day date))"
    and "unix_seconds (unat (year date)) (unat (month date)) (unat (day date))
           (unat (hours date)) (unat (minutes date)) (unat (seconds date)) < 2 ^ 32"
  shows "unat (convert_date_2_unix_time date) =
     unix_seconds (unat (year date)) (unat (month date)) (unat (day date))
       (unat (hours date)) (unat (minutes date)) (unat (seconds date))"
  using assms(2) by (simp add: convert_date_2_unix_time_valid [OF assms(1)] unat_of_nat)

text \<open>C3: \<open>convert_unix_time_2_date\<close> returns the calendar date, the time of day and the weekday
  (0 for Sunday) of every second up to the end of 2106, except on the days that are late in a leap year.\<close>

theorem convert_unix_time_2_date_correct:
  assumes "valid_date y m d" and "y \<le> 2106" and "valid_time h mi s"
    and "\<not> late_in_leap_year y (day_index y m d)"
  shows "convert_unix_time_2_date junk (of_nat (unix_seconds y m d h mi s)) =
     Inr \<lparr>hours = of_nat h, minutes = of_nat mi, seconds = of_nat s, mseconds = junk,
          day = of_nat d, month = of_nat m, year = of_nat y,
          weekday = of_nat ((day_number y m d + 4) mod 7)\<rparr>"
  using assms unat_unix_seconds [OF assms(1-3)]
  by (intro convert_unix_time_2_date_shown [OF assms(1-3)]) (simp_all add: shown_index_def)

text \<open>On the days that are late in a leap year, that is whose index in the year plus the number of earlier
  leap days reaches 365, the day returned is one too small, and the weekday is right.\<close>

theorem convert_unix_time_2_date_late:
  assumes "valid_date y m d" and "y \<le> 2106" and "valid_time h mi s"
    and "late_in_leap_year y (day_index y m d)" and "1 < d"
  shows "convert_unix_time_2_date junk (of_nat (unix_seconds y m d h mi s)) =
     Inr \<lparr>hours = of_nat h, minutes = of_nat mi, seconds = of_nat s, mseconds = junk,
          day = of_nat (d - 1), month = of_nat m, year = of_nat y,
          weekday = of_nat ((day_number y m d + 4) mod 7)\<rparr>"
proof (rule convert_unix_time_2_date_shown [OF assms(1-3)])
  show "valid_date y m (d - 1)" using assms(1,5) unfolding valid_date_def by linarith
  show "day_index y m (d - 1) = shown_index y (day_index y m d)"
    using assms(4,5) by (simp add: shown_index_def day_index_def)
qed (rule unat_unix_seconds [OF assms(1-3)])

lemma unix_seconds_year_bound:
  assumes "valid_date y m d" and "unix_seconds y m d h mi s < 2 ^ 32"
  shows "y \<le> 2106"
proof -
  have y: "1970 \<le> y" using assms(1) by (simp add: valid_date_def)
  have "days_before_year y * 86400 \<le> unix_seconds y m d h mi s"
    by (simp add: unix_seconds_def day_number_def)
  with assms(2) have "days_before_year y \<le> 49710" by simp
  then show ?thesis using days_before_year_leaps [OF y] by simp
qed

lemma shown_date:
  assumes "valid_date y m d"
  obtains m' d' where "valid_date y m' d'" and "day_index y m' d' = shown_index y (day_index y m d)"
proof -
  have "shown_index y (day_index y m d) < year_length y"
    using valid_day_index(3) [OF assms] by (auto simp: shown_index_def)
  from day_index_month [OF this] show thesis
    using assms that unfolding valid_date_def by metis
qed

lemma small_date:
  assumes "valid_date y m d" and "y \<le> 2106"
  shows "unat (of_nat y :: u32) = y" and "unat (of_nat m :: u32) = m" and "unat (of_nat d :: u32) = d"
proof -
  have "d \<le> day_index y m d + 1" by (simp add: day_index_def)
  also have "\<dots> \<le> 366" using valid_day_index(3) [OF assms(1)] by (simp add: year_length_def split: if_splits)
  finally show "unat (of_nat y :: u32) = y" and "unat (of_nat m :: u32) = m" and "unat (of_nat d :: u32) = d"
    using assms by (simp_all add: valid_date_def unat_of_nat)
qed

lemma small_time:
  assumes "valid_time h mi s"
  shows "unat (of_nat h :: u32) = h" and "unat (of_nat mi :: u32) = mi" and "unat (of_nat s :: u32) = s"
  using assms by (simp_all add: valid_time_def unat_of_nat)

text \<open>The date shown for a 32-bit time: a valid date whose own time is the given one or a day earlier.\<close>

lemma unix_date_shown:
  assumes "unat secs < 2 ^ 32"
  obtains y m d h mi s wd late where
    "convert_unix_time_2_date junk secs = Inr \<lparr>hours = of_nat h, minutes = of_nat mi, seconds = of_nat s, mseconds = junk,
       day = of_nat d, month = of_nat m, year = of_nat y, weekday = of_nat wd\<rparr>"
    "valid_date y m d" "valid_time h mi s" "y \<le> 2106" "wd < 7"
    "unix_seconds y m d h mi s + (if late then 86400 else 0) = unat secs"
    "late \<longrightarrow> leap_year y \<and> 11 \<le> m"
proof -
  obtain y m d h mi s where v: "valid_date y m d" and t: "valid_time h mi s"
    and N: "unat secs = unix_seconds y m d h mi s" using unix_seconds_split by metis
  have y: "y \<le> 2106" using unix_seconds_year_bound [OF v] assms N by metis
  let ?i = "day_index y m d" and ?late = "late_in_leap_year y (day_index y m d)"
  obtain m' d' where v': "valid_date y m' d'" and i': "day_index y m' d' = shown_index y ?i"
    using shown_date [OF v] by metis
  have "unix_seconds y m' d' h mi s + (if ?late then 86400 else 0) = unat secs"
    using late_index_bounds [OF _ _ y, of ?i] v
    by (auto simp: N unix_seconds_def day_number_def i' shown_index_def valid_date_def algebra_simps)
  moreover have "?late \<longrightarrow> leap_year y \<and> 11 \<le> m'"
  proof
    assume l: ?late
    have "329 \<le> day_index y m' d'"
      using late_index_bounds [OF l _ y] v i' l by (simp add: valid_date_def shown_index_def)
    moreover from v' have "1 \<le> m'" "m' \<le> 12" "d' \<le> month_lengths y ! (m' - 1)"
      by (simp_all add: valid_date_def)
    ultimately show "leap_year y \<and> 11 \<le> m'"
      using l month_cases [of m']
      by (auto simp: late_in_leap_year_def day_index_def days_before_month_def month_lengths_simp)
  qed
  ultimately show thesis
    by (intro that [OF convert_unix_time_2_date_shown [OF v y t v' i' N] v' t y, of ?late]) simp_all
qed

lemma shown_time_back:
  assumes "valid_date y m d" and "valid_time h mi s" and "y \<le> 2106"
  shows "convert_date_2_unix_time \<lparr>hours = of_nat h, minutes = of_nat mi, seconds = of_nat s, mseconds = junk,
       day = of_nat d, month = of_nat m, year = of_nat y, weekday = wd\<rparr> = of_nat (unix_seconds y m d h mi s)"
  using convert_date_2_unix_time_valid [of "\<lparr>hours = of_nat h, minutes = of_nat mi, seconds = of_nat s, mseconds = junk,
       day = of_nat d, month = of_nat m, year = of_nat y, weekday = wd\<rparr>"] assms(1)
    small_date [OF assms(1,3)] small_time [OF assms(2)] by simp

text \<open>Every 32-bit Unix time is converted to a valid date, and converting that date back returns the
  time itself, or the time a day earlier when it is late in a leap year.\<close>

theorem unix_time_roundtrip:
  assumes "unat secs < 2 ^ 32"
  shows "\<exists>date late. convert_unix_time_2_date junk secs = Inr date \<and>
     valid_date (unat (year date)) (unat (month date)) (unat (day date)) \<and>
     unat (convert_date_2_unix_time date) + (if late then 86400 else 0) = unat secs \<and>
     (late \<longrightarrow> leap_year (unat (year date)) \<and> 11 \<le> unat (month date))"
proof -
  obtain y m d h mi s wd late where 1:
    "convert_unix_time_2_date junk secs = Inr \<lparr>hours = of_nat h, minutes = of_nat mi, seconds = of_nat s, mseconds = junk,
       day = of_nat d, month = of_nat m, year = of_nat y, weekday = of_nat wd\<rparr>" (is "_ = Inr ?date")
    "valid_date y m d" "valid_time h mi s" "y \<le> 2106"
    "unix_seconds y m d h mi s + (if late then 86400 else 0) = unat secs" "late \<longrightarrow> leap_year y \<and> 11 \<le> m"
    by (rule unix_date_shown [OF assms])
  have "unat (convert_date_2_unix_time ?date) = unix_seconds y m d h mi s"
    using shown_time_back [OF 1(2,3,4)] 1(5) assms by (simp add: unat_of_nat)
  then show ?thesis using 1 small_date [OF 1(2,4)]
    by (intro exI [of _ ?date] exI [of _ late]) simp
qed

text \<open>The year 2024, for the examples.\<close>

lemma year_2024:
  "leap_year 2024" "leaps_before 2024 = 13" "days_before_year 2024 = 19723"
proof -
  show "leap_year 2024" by (simp add: leap_year_def)
  show l: "leaps_before 2024 = 13" using leaps_before_closed [of 2024] by simp
  show "days_before_year 2024 = 19723" using days_before_year_leaps [of 2024] l by simp
qed

lemmas calendar_eval = valid_date_def valid_time_def unix_seconds_def day_number_def day_index_def
  days_before_month_def month_lengths_simp year_2024 late_in_leap_year_def

lemma convert_date_2_unix_time_correct_witness:
  "unat (convert_date_2_unix_time \<lparr>hours = 12, minutes = 34, seconds = 56, mseconds = 0, day = 29, month = 2,
     year = 2024, weekday = 4\<rparr>) = 1709210096"
proof -
  let ?date = "\<lparr>hours = 12, minutes = 34, seconds = 56, mseconds = 0, day = 29, month = 2,
     year = 2024, weekday = 4\<rparr> :: datetime_t"
  have "valid_date 2024 2 29" "unix_seconds 2024 2 29 12 34 56 = 1709210096" by (simp_all add: calendar_eval)
  with convert_date_2_unix_time_correct [of ?date] show ?thesis by simp
qed

lemma convert_unix_time_2_date_correct_witness:
  "convert_unix_time_2_date 0 1709210096 = Inr \<lparr>hours = 12, minutes = 34, seconds = 56, mseconds = 0,
     day = 29, month = 2, year = 2024, weekday = 4\<rparr>"
proof -
  have "valid_date 2024 2 29" "unix_seconds 2024 2 29 12 34 56 = 1709210096" "valid_time 12 34 56"
    "\<not> late_in_leap_year 2024 (day_index 2024 2 29)" "(day_number 2024 2 29 + 4) mod 7 = 4"
    by (simp_all add: calendar_eval)
  with convert_unix_time_2_date_correct [of 2024 2 29 12 34 56 0] show ?thesis by simp
qed

text \<open>The last day of 2024 is shown as the 30th of December.\<close>

lemma convert_unix_time_2_date_late_witness:
  "convert_unix_time_2_date 0 1735603200 = Inr \<lparr>hours = 0, minutes = 0, seconds = 0, mseconds = 0,
     day = 30, month = 12, year = 2024, weekday = 2\<rparr>"
proof -
  have "valid_date 2024 12 31" "unix_seconds 2024 12 31 0 0 0 = 1735603200" "valid_time 0 0 0"
    "late_in_leap_year 2024 (day_index 2024 12 31)" "(day_number 2024 12 31 + 4) mod 7 = 2"
    by (simp_all add: calendar_eval)
  with convert_unix_time_2_date_late [of 2024 12 31 0 0 0 0] show ?thesis by simp
qed

lemma unix_time_roundtrip_witness:
  "\<exists>date late. convert_unix_time_2_date 0 1709210096 = Inr date \<and>
     valid_date (unat (year date)) (unat (month date)) (unat (day date)) \<and>
     unat (convert_date_2_unix_time date) + (if late then 86400 else 0) = 1709210096 \<and>
     (late \<longrightarrow> leap_year (unat (year date)) \<and> 11 \<le> unat (month date))"
  using unix_time_roundtrip [of 1709210096 0] by simp

end
