(* ===== verification/Modbus_Tcp.thy ===== *)
theory Modbus_Tcp
  imports Prelude
begin

text \<open>
  The Modbus TCP server of applications/services/net/modbus_tcp/modbus_tcp.c: the request
  handler \<open>handle_modbus_pdu\<close>, one definition per function code, the framing in
  \<open>modbus_ev_handler\<close> and the restart logic of \<open>modbus_tcp_start\<close>. The byte order
  functions \<open>mg_ntohs\<close> and \<open>mg_htons\<close> belong to the network library and are parameters;
  the locale \<open>net_order\<close> states what they do on the little-endian targets. The
  application's data arrays and callbacks are the fields of \<open>modbus_api\<close>.
\<close>

section \<open>Data\<close>

text \<open>
  A callback receives the start address, a pointer into a data array (the array and the
  offset), the count and its context, and may change the array and the context.
\<close>

type_synonym ('a, 'c) data_cb = "u16 \<Rightarrow> 'a list \<Rightarrow> nat \<Rightarrow> u16 \<Rightarrow> 'c \<Rightarrow> 'a list \<times> 'c"

record 'c modbus_api =
  coils_data :: "u8 list option"
  coils_size :: u16
  coils_read_cb :: "(u8, 'c) data_cb option"
  coils_write_cb :: "(u8, 'c) data_cb option"
  coils_context :: 'c
  holdings_data :: "u16 list option"
  holdings_size :: u16
  holdings_cb :: "(u16, 'c) data_cb option"
  holdings_context :: 'c
  discrete_inputs_data :: "u8 list option"
  discrete_inputs_size :: u16
  discrete_inputs_cb :: "(u8, 'c) data_cb option"
  discrete_inputs_context :: 'c

definition run_cb :: "('a, 'c) data_cb option \<Rightarrow> u16 \<Rightarrow> 'a list \<Rightarrow> nat \<Rightarrow> u16 \<Rightarrow> 'c \<Rightarrow> 'a list \<times> 'c" where
  "run_cb cb start data off num ctx = (case cb of None \<Rightarrow> (data, ctx) | Some f \<Rightarrow> f start data off num ctx)"

text \<open>The response buffer on the stack, and the 16-bit accesses of a little-endian target.\<close>

definition response_size :: nat where
  "response_size = 260"

definition load16 :: "u8 list \<Rightarrow> nat \<Rightarrow> u16 res" where
  "load16 buf i = rbind (aget buf i) (\<lambda>lo. rbind (aget buf (i + 1)) (\<lambda>hi. Inr (ucast lo OR push_bit 8 (ucast hi))))"

definition store16 :: "u8 list \<Rightarrow> nat \<Rightarrow> u16 \<Rightarrow> u8 list res" where
  "store16 buf i w = rbind (aset buf i (ucast w)) (\<lambda>b. aset b (i + 1) (ucast (drop_bit 8 w)))"

text \<open>The variables at the end of the branch of a function code.\<close>

type_synonym 'c outcome = "'c modbus_api \<times> u8 list \<times> nat \<times> bool"

section \<open>The loops\<close>

text \<open>
  \<open>(uint8_t) ((num + 7) / 8)\<close>, computed in \<open>int\<close> and truncated.
\<close>

definition byte_count_of :: "u16 \<Rightarrow> u8" where
  "byte_count_of num = of_nat ((unat num + 7) div 8)"

definition clear_bytes :: "nat \<Rightarrow> u8 list \<Rightarrow> u8 list" where
  "clear_bytes n response = map (\<lambda>k. if 9 \<le> k \<and> k < 9 + n then 0 else response ! k) [0..<length response]"

function pack_bits :: "u8 list \<Rightarrow> u16 \<Rightarrow> u16 \<Rightarrow> u16 \<Rightarrow> u8 list \<Rightarrow> u8 list res" where
  "pack_bits data start num i response =
     (if i < num then
        let addr = start + i; byte_index = ucast (i div 8) :: u8; bit_index = ucast (i mod 8) :: u8
        in rbind (aget data (unat addr)) (\<lambda>v.
             let b = (if v \<noteq> 0 then 1 else 0) :: u8
             in rbind (aget response (9 + unat byte_index)) (\<lambda>r.
                  rbind (aset response (9 + unat byte_index) (r OR push_bit (unat bit_index) b)) (\<lambda>response'.
                    pack_bits data start num (i + 1) response')))
      else Inr response)"
  by pat_completeness auto
termination
  by (relation "measure (\<lambda>(_, _, num, i, _). unat num - unat i)")
     (auto simp: loop_measure)

declare pack_bits.simps [simp del]

function unpack_bits :: "u8 list \<Rightarrow> u16 \<Rightarrow> u16 \<Rightarrow> u16 \<Rightarrow> u8 list \<Rightarrow> u8 list res" where
  "unpack_bits buf start num i coils =
     (if i < num then
        let addr = start + i; byte_index = ucast (i div 8) :: u8; bit_index = ucast (i mod 8) :: u8
        in rbind (aget buf (13 + unat byte_index)) (\<lambda>d.
             rbind (aset coils (unat addr) (drop_bit (unat bit_index) d AND 1)) (\<lambda>coils'.
               unpack_bits buf start num (i + 1) coils'))
      else Inr coils)"
  by pat_completeness auto
termination
  by (relation "measure (\<lambda>(_, _, num, i, _). unat num - unat i)")
     (auto simp: loop_measure)

declare unpack_bits.simps [simp del]

text \<open>The loop of function 3 stores each register in network order at \<open>&response[9]\<close>.\<close>

function copy_registers :: "(u16 \<Rightarrow> u16) \<Rightarrow> u16 list \<Rightarrow> u16 \<Rightarrow> u16 \<Rightarrow> u16 \<Rightarrow> u8 list \<Rightarrow> u8 list res" where
  "copy_registers htons data start num i response =
     (if i < num then
        rbind (aget data (unat (start + i))) (\<lambda>val.
          rbind (store16 response (9 + 2 * unat i) (htons val)) (\<lambda>response'.
            copy_registers htons data start num (i + 1) response'))
      else Inr response)"
  by pat_completeness auto
termination
  by (relation "measure (\<lambda>(_, _, _, num, i, _). unat num - unat i)")
     (auto simp: loop_measure)

declare copy_registers.simps [simp del]

section \<open>The function codes\<close>

text \<open>
  Each branch gets the request, its length and the response buffer that already holds the
  first eight bytes. \<open>fail\<close> is the outcome of a branch that leaves \<open>success\<close> false and
  \<open>response_len\<close> zero.
\<close>

definition fail :: "'c modbus_api \<Rightarrow> u8 list \<Rightarrow> 'c outcome res" where
  "fail api response = Inr (api, response, 0, False)"

text \<open>The echo of two words that answers a write.\<close>

definition echo_words :: "(u16 \<Rightarrow> u16) \<Rightarrow> u16 \<Rightarrow> u16 \<Rightarrow> u8 list \<Rightarrow> u8 list res" where
  "echo_words htons w1 w2 response =
     rbind (store16 response 8 (htons w1)) (\<lambda>r. store16 r 10 (htons w2))"

definition in_range :: "u16 \<Rightarrow> u16 \<Rightarrow> u16 \<Rightarrow> bool" where
  "in_range start num sz \<longleftrightarrow> start < sz \<and> unat start + unat num \<le> unat sz"

definition read_bits :: "u8 list \<Rightarrow> u16 \<Rightarrow> u16 \<Rightarrow> u8 list \<Rightarrow> (u8 list \<times> nat) res" where
  "read_bits data start num response =
     (let bytes_count = byte_count_of num
      in rbind (pack_bits data start num 0 (clear_bytes (unat bytes_count) response)) (\<lambda>r.
           rbind (aset r 8 bytes_count) (\<lambda>r'. Inr (r', 9 + unat bytes_count))))"

definition read_discrete_inputs :: "'c modbus_api \<Rightarrow> u16 \<Rightarrow> u16 \<Rightarrow> u8 list \<Rightarrow> 'c outcome res" where
  "read_discrete_inputs api start num response =
     (case discrete_inputs_data api of
        None \<Rightarrow> fail api response
      | Some input_data \<Rightarrow>
          if in_range start num (discrete_inputs_size api) then
            if unat (byte_count_of num) + 9 < response_size then
              let (input_data', ctx') =
                    run_cb (discrete_inputs_cb api) start input_data 0 num (discrete_inputs_context api)
              in rbind (read_bits input_data' start num response) (\<lambda>(r, n).
                   Inr (api\<lparr>discrete_inputs_data := Some input_data', discrete_inputs_context := ctx'\<rparr>,
                        r, n, True))
            else fail api response
          else fail api response)"

definition read_coils :: "'c modbus_api \<Rightarrow> u16 \<Rightarrow> u16 \<Rightarrow> u8 list \<Rightarrow> 'c outcome res" where
  "read_coils api start num response =
     (case coils_data api of
        None \<Rightarrow> fail api response
      | Some coils \<Rightarrow>
          if in_range start num (coils_size api) then
            if unat (byte_count_of num) + 9 < response_size then
              let (coils', ctx') = run_cb (coils_read_cb api) start coils (unat start) num (coils_context api)
              in rbind (read_bits coils' start num response) (\<lambda>(r, n).
                   Inr (api\<lparr>coils_data := Some coils', coils_context := ctx'\<rparr>, r, n, True))
            else fail api response
          else fail api response)"

definition write_single_coil :: "(u16 \<Rightarrow> u16) \<Rightarrow> 'c modbus_api \<Rightarrow> u16 \<Rightarrow> u16 \<Rightarrow> u8 list \<Rightarrow> 'c outcome res" where
  "write_single_coil htons api start val response =
     (case coils_data api of
        None \<Rightarrow> fail api response
      | Some coils \<Rightarrow>
          if start < coils_size api then
            if val = 0x0000 \<or> val = 0xFF00 then
              rbind (aset coils (unat start) (if val = 0xFF00 then 1 else 0)) (\<lambda>coils1.
                let (coils', ctx') = run_cb (coils_write_cb api) start coils1 (unat start) 1 (coils_context api)
                in rbind (echo_words htons start val response) (\<lambda>r.
                     Inr (api\<lparr>coils_data := Some coils', coils_context := ctx'\<rparr>, r, 12, True)))
            else fail api response
          else fail api response)"

definition write_multiple_coils ::
  "(u16 \<Rightarrow> u16) \<Rightarrow> 'c modbus_api \<Rightarrow> u8 list \<Rightarrow> nat \<Rightarrow> u16 \<Rightarrow> u16 \<Rightarrow> u8 list \<Rightarrow> 'c outcome res" where
  "write_multiple_coils htons api buf len start num response =
     (case coils_data api of
        None \<Rightarrow> fail api response
      | Some coils \<Rightarrow>
          if in_range start num (coils_size api) then
            rbind (aget buf 12) (\<lambda>byte_count.
              if byte_count = byte_count_of num \<and> unat byte_count + 13 \<le> len then
                rbind (unpack_bits buf start num 0 coils) (\<lambda>coils1.
                  let (coils', ctx') =
                        run_cb (coils_write_cb api) start coils1 (unat start) num (coils_context api)
                  in rbind (echo_words htons start num response) (\<lambda>r.
                       Inr (api\<lparr>coils_data := Some coils', coils_context := ctx'\<rparr>, r, 12, True)))
              else fail api response)
          else fail api response)"

text \<open>
  Function 3 stores the registers before it runs the callback. The count byte is
  \<open>(uint8_t) (num * 2)\<close>.
\<close>

definition read_holding_registers :: "(u16 \<Rightarrow> u16) \<Rightarrow> 'c modbus_api \<Rightarrow> u16 \<Rightarrow> u16 \<Rightarrow> u8 list \<Rightarrow> 'c outcome res" where
  "read_holding_registers htons api start num response =
     (case holdings_data api of
        None \<Rightarrow> fail api response
      | Some regs \<Rightarrow>
          if in_range start num (holdings_size api) then
            if unat num * 2 + 9 < response_size then
              rbind (copy_registers htons regs start num 0 response) (\<lambda>r.
                let (regs', ctx') = run_cb (holdings_cb api) start regs (unat start) num (holdings_context api);
                    count = of_nat (unat num * 2) :: u8
                in rbind (aset r 8 count) (\<lambda>r'.
                     Inr (api\<lparr>holdings_data := Some regs', holdings_context := ctx'\<rparr>, r', 9 + unat count, True)))
            else fail api response
          else fail api response)"

text \<open>
  The functions that are not implemented: their loops break at the first element because
  \<open>success\<close> is false.
\<close>

definition write_single_register :: "(u16 \<Rightarrow> u16) \<Rightarrow> 'c modbus_api \<Rightarrow> u16 \<Rightarrow> u16 \<Rightarrow> u8 list \<Rightarrow> 'c outcome res" where
  "write_single_register htons api start val response =
     rbind (echo_words htons start val response) (\<lambda>r. Inr (api, r, 12, False))"

definition write_multiple_registers :: "(u16 \<Rightarrow> u16) \<Rightarrow> 'c modbus_api \<Rightarrow> u16 \<Rightarrow> u16 \<Rightarrow> u8 list \<Rightarrow> 'c outcome res" where
  "write_multiple_registers htons api start num response =
     (if unat num * 2 + 10 < response_size
      then rbind (echo_words htons start num response) (\<lambda>r. Inr (api, r, 12, False))
      else fail api response)"

definition read_input_registers :: "'c modbus_api \<Rightarrow> u16 \<Rightarrow> u8 list \<Rightarrow> 'c outcome res" where
  "read_input_registers api num response =
     (if unat num * 2 + 9 < response_size
      then let count = of_nat (unat num * 2) :: u8
           in rbind (aset response 8 count) (\<lambda>r. Inr (api, r, 9 + unat count, False))
      else fail api response)"

section \<open>The request handler\<close>

text \<open>
  \<open>context = None\<close> is a NULL context. \<open>junk\<close> is the initial content of the response
  buffer. The result is the changed application data and the bytes given to \<open>mg_send\<close>,
  \<open>None\<close> when nothing is sent.
\<close>

definition dispatch ::
  "(u16 \<Rightarrow> u16) \<Rightarrow> 'c modbus_api \<Rightarrow> u8 \<Rightarrow> u8 list \<Rightarrow> nat \<Rightarrow> u16 \<Rightarrow> u16 \<Rightarrow> u8 list \<Rightarrow> 'c outcome res" where
  "dispatch htons api func buf len w1 w2 response =
     (if func = 2 then read_discrete_inputs api w1 w2 response
      else if func = 1 then read_coils api w1 w2 response
      else if func = 5 then write_single_coil htons api w1 w2 response
      else if func = 6 then write_single_register htons api w1 w2 response
      else if func = 15 then write_multiple_coils htons api buf len w1 w2 response
      else if func = 16 then write_multiple_registers htons api w1 w2 response
      else if func = 3 then read_holding_registers htons api w1 w2 response
      else if func = 4 then read_input_registers api w2 response
      else fail api response)"

definition finish_response ::
  "(u16 \<Rightarrow> u16) \<Rightarrow> 'c outcome \<Rightarrow> ('c modbus_api option \<times> u8 list option) res" where
  "finish_response htons out =
     (case out of (api, response, response_len, success) \<Rightarrow>
        rbind (if \<not> success \<and> response_len \<noteq> 9 then
                 rbind (aget response 7) (\<lambda>f.
                   rbind (aset response 7 (f OR 0x80)) (\<lambda>r.
                     rbind (aset r 8 4) (\<lambda>r'. Inr (r', 9))))
               else Inr (response, response_len))
          (\<lambda>(r, n). rbind (store16 r 4 (htons (of_nat (n - 6)))) (\<lambda>r'.
             if n \<le> length r' then Inr (Some api, Some (take n r')) else Inl OutOfBounds)))"

definition handle_modbus_pdu ::
  "(u16 \<Rightarrow> u16) \<Rightarrow> (u16 \<Rightarrow> u16) \<Rightarrow> u8 list \<Rightarrow> u8 list \<Rightarrow> nat \<Rightarrow> 'c modbus_api option \<Rightarrow>
   ('c modbus_api option \<times> u8 list option) res" where
  "handle_modbus_pdu ntohs htons junk buf len context =
     (case context of
        None \<Rightarrow> Inr (None, None)
      | Some api \<Rightarrow>
          if len < 12 then Inr (Some api, None)
          else if length buf < 12 then Inl OutOfBounds
          else let response = take 8 buf @ drop 8 junk
               in rbind (load16 buf 8) (\<lambda>w1. rbind (load16 buf 10) (\<lambda>w2.
                    rbind (dispatch htons api (buf ! 7) buf len (ntohs w1) (ntohs w2) response)
                      (finish_response htons))))"

text \<open>
  The read event: \<open>recv\<close> is the content of the receive buffer, and a handled frame is
  deleted from its front. The frame handed on is the buffer itself.
\<close>

definition modbus_ev_read ::
  "(u16 \<Rightarrow> u16) \<Rightarrow> (u16 \<Rightarrow> u16) \<Rightarrow> u8 list \<Rightarrow> u8 list \<Rightarrow> 'c modbus_api option \<Rightarrow>
   (u8 list \<times> 'c modbus_api option \<times> u8 list option) res" where
  "modbus_ev_read ntohs htons junk recv fn_data =
     (if length recv < 7 then Inr (recv, fn_data, None)
      else rbind (load16 recv 4) (\<lambda>w.
        let len = unat (ntohs w)
        in if length recv < len + 6 then Inr (recv, fn_data, None)
           else rbind (handle_modbus_pdu ntohs htons junk recv (len + 6) fn_data) (\<lambda>(fn_data', sent).
                  Inr (drop (len + 6) recv, fn_data', sent))))"

datatype ev = MG_EV_READ | MG_EV_OTHER

definition modbus_ev_handler ::
  "(u16 \<Rightarrow> u16) \<Rightarrow> (u16 \<Rightarrow> u16) \<Rightarrow> u8 list \<Rightarrow> u8 list \<Rightarrow> ev \<Rightarrow> 'c modbus_api option \<Rightarrow>
   (u8 list \<times> 'c modbus_api option \<times> u8 list option) res" where
  "modbus_ev_handler ntohs htons junk recv ev fn_data =
     (if ev = MG_EV_READ then modbus_ev_read ntohs htons junk recv fn_data
      else Inr (recv, fn_data, None))"

section \<open>Starting the server\<close>

text \<open>
  \<open>current_port\<close> is the static variable; the result is the new port and the calls made to
  the network service, in order.
\<close>

datatype net_call = NetStopListener string | NetStartListener string

definition tcp_uri :: "u16 \<Rightarrow> string" where
  "tcp_uri port = ''tcp://0.0.0.0:'' @ dec_string (unat port)"

definition modbus_tcp_start :: "u16 \<Rightarrow> 'c modbus_api option \<Rightarrow> u16 \<Rightarrow> (u16 \<times> net_call list) res" where
  "modbus_tcp_start current_port api port =
     rhs_assert (api \<noteq> None) (rhs_assert (0 < port)
       (Inr (port,
             (if current_port \<noteq> 0 then [NetStopListener (take 31 (tcp_uri current_port))] else []) @
             [NetStartListener (take 31 (tcp_uri port))])))"

section \<open>The loops\<close>

lemma unat_add_bound:
  "unat a + unat b < 2 ^ LENGTH('a) \<Longrightarrow> unat (a + b :: 'a::len word) = unat a + unat b"
  by (simp only: unat_add_lem)

lemma byte_bit_index:
  fixes i :: u16
  assumes "unat i < 2048"
  shows "unat (ucast (i div 8) :: u8) = unat i div 8" and "unat (ucast (i mod 8) :: u8) = unat i mod 8"
  using assms by (simp_all add: unat_ucast_mod unat_div_distrib unat_mod_distrib less_mult_imp_div_less)

lemma byte_bit_split: "b < (8::nat) \<Longrightarrow> 8 * q + b = n \<longleftrightarrow> q = n div 8 \<and> b = n mod 8"
  by auto

lemma byte_count_small:
  assumes "unat num \<le> 2040"
  shows "unat (byte_count_of num) = (unat num + 7) div 8"
proof -
  have "(unat num + 7) div 8 \<le> 2047 div 8" using assms by (intro div_le_mono) simp
  then show ?thesis by (simp add: byte_count_of_def unat_of_nat)
qed

lemma clear_bytes_simps [simp]:
  "length (clear_bytes n r) = length r"
  "k < length r \<Longrightarrow> clear_bytes n r ! k = (if 9 \<le> k \<and> k < 9 + n then 0 else r ! k)"
  by (simp_all add: clear_bytes_def)

lemma bit_set_bit_u8:
  "bit ((r :: u8) OR push_bit n (if v then 1 else 0)) b \<longleftrightarrow> bit r b \<or> (v \<and> b = n \<and> n < 8)"
  by (auto simp: bit_or_iff bit_push_bit_iff bit_simps)

text \<open>The bytes after packing the bits \<open>i..<num\<close>.\<close>

lemma pack_bits_correct:
  assumes "unat start + unat num \<le> length data" and "unat start + unat num < 65536"
    and "unat num \<le> 2040" and "9 + (unat num + 7) div 8 \<le> length response" and "i \<le> num"
  shows "\<exists>r. pack_bits data start num i response = Inr r \<and> length r = length response \<and>
     (\<forall>k < length response. \<forall>b < 8. bit (r ! k) b \<longleftrightarrow>
        bit (response ! k) b \<or>
        (9 \<le> k \<and> unat i \<le> 8 * (k - 9) + b \<and> 8 * (k - 9) + b < unat num \<and>
         data ! (unat start + (8 * (k - 9) + b)) \<noteq> 0))"
  using assms
proof (induction "unat num - unat i" arbitrary: i response rule: less_induct)
  case less
  note prems = less.prems
  show ?case
  proof (cases "i < num")
    case False
    then have "i = num" using prems(5) by simp
    then show ?thesis by (subst pack_bits.simps) auto
  next
    case True
    then have i: "unat i < unat num" by (simp add: word_less_nat_alt)
    let ?B = "9 + unat i div 8" and ?v = "data ! (unat start + unat i) \<noteq> 0"
    let ?r' = "response[?B := response ! ?B OR push_bit (unat i mod 8) (if ?v then 1 else 0)]"
    have addr: "unat (start + i) = unat start + unat i"
      using prems(2) i by (intro unat_add_bound) simp
    have idx: "unat (ucast (i div 8) :: u8) = unat i div 8" "unat (ucast (i mod 8) :: u8) = unat i mod 8"
      using i prems(3) by (simp_all add: byte_bit_index)
    have B: "?B < length response" using i prems(4) by simp
    have step: "pack_bits data start num i response = pack_bits data start num (i + 1) ?r'"
      using True B prems(1) i by (subst pack_bits.simps) (simp add: Let_def addr idx)
    have "i + 1 \<le> num" using True by (metis inc_le)
    then obtain r where r: "pack_bits data start num (i + 1) ?r' = Inr r" "length r = length response"
      "\<forall>k < length response. \<forall>b < 8. bit (r ! k) b \<longleftrightarrow> bit (?r' ! k) b \<or>
        (9 \<le> k \<and> unat (i + 1) \<le> 8 * (k - 9) + b \<and> 8 * (k - 9) + b < unat num \<and>
         data ! (unat start + (8 * (k - 9) + b)) \<noteq> 0)"
      using less.hyps [OF loop_measure [OF True], of ?r'] prems by auto
    have r': "bit (?r' ! k) b \<longleftrightarrow> bit (response ! k) b \<or> (?v \<and> k = ?B \<and> b = unat i mod 8)" for k b
    proof (cases "k = ?B")
      case True
      have "unat i mod 8 < 8" by simp
      with True show ?thesis unfolding True nth_list_update_eq [OF B] bit_set_bit_u8 by blast
    next
      case False
      then show ?thesis by simp
    qed
    have split: "8 * (k - 9) + b = unat i \<longleftrightarrow> k = ?B \<and> b = unat i mod 8" if "9 \<le> k" "b < 8" for k b
      using that by (auto simp: byte_bit_split)
    have "bit (r ! k) b \<longleftrightarrow> bit (response ! k) b \<or>
        (9 \<le> k \<and> unat i \<le> 8 * (k - 9) + b \<and> 8 * (k - 9) + b < unat num \<and>
         data ! (unat start + (8 * (k - 9) + b)) \<noteq> 0)" if k: "k < length response" and b: "b < 8" for k b
    proof (cases "k = ?B \<and> b = unat i mod 8")
      case True
      then have "8 * (k - 9) + b = unat i" and "9 \<le> k" by simp_all
      with True i show ?thesis
        unfolding r(3) [rule_format, OF k b] r' unat_loop_Suc [OF \<open>i < num\<close>] by auto
    next
      case False
      then have "9 \<le> k \<Longrightarrow> 8 * (k - 9) + b \<noteq> unat i" using split b by metis
      then have "9 \<le> k \<Longrightarrow> Suc (unat i) \<le> 8 * (k - 9) + b \<longleftrightarrow> unat i \<le> 8 * (k - 9) + b" by linarith
      with False show ?thesis
        unfolding r(3) [rule_format, OF k b] r' unat_loop_Suc [OF \<open>i < num\<close>] by blast
    qed
    with r(1,2) step show ?thesis by auto
  qed
qed

text \<open>A count above 2040 wraps the byte count; the loop then runs past the response buffer.\<close>

lemma pack_bits_overflow:
  assumes "unat start + unat num \<le> length data" and "unat start + unat num < 65536"
    and "length response = 260" and "2008 < unat num" and "unat i \<le> 2008"
  shows "pack_bits data start num i response = Inl OutOfBounds"
  using assms
proof (induction "unat num - unat i" arbitrary: i response rule: less_induct)
  case less
  note prems = less.prems
  then have i: "unat i < unat num" and lt: "i < num" by (simp_all add: word_less_nat_alt)
  let ?B = "9 + unat i div 8"
  have addr: "unat (start + i) = unat start + unat i"
    using prems(2) i by (intro unat_add_bound) simp
  have idx: "unat (ucast (i div 8) :: u8) = unat i div 8" using prems(5) by (simp add: byte_bit_index)
  show ?case
  proof (cases "unat i = 2008")
    case True
    with lt prems(1,3) i show ?thesis
      by (subst pack_bits.simps) (simp add: Let_def addr idx aget_out)
  next
    case False
    with prems(5) have i': "unat i < 2008" by simp
    then have "?B < length response" using prems(3) by auto
    moreover have "unat (i + 1) \<le> 2008" using i' by (simp add: unat_loop_Suc [OF lt])
    then have "pack_bits data start num (i + 1) r = Inl OutOfBounds" if "length r = 260" for r
      using less.hyps [OF loop_measure [OF lt], of r] prems that by simp
    ultimately show ?thesis using lt prems(1,3) i
      by (subst pack_bits.simps) (simp add: Let_def addr idx)
  qed
qed

text \<open>The coils after unpacking the bits \<open>i..<num\<close>.\<close>

definition payload_bit :: "u8 list \<Rightarrow> nat \<Rightarrow> u8" where
  "payload_bit buf j = (if bit (buf ! (13 + j div 8)) (j mod 8) then 1 else 0)"

lemma drop_bit_and_1: "(drop_bit n (d :: u8) AND 1) = (if bit d n then 1 else 0)"
  by (simp only: and_one_eq mod_2_eq_odd bit_iff_odd_drop_bit of_bool_def)

lemma unpack_bits_correct:
  assumes "unat start + unat num \<le> length coils" and "unat start + unat num < 65536"
    and "unat num \<le> 2040" and "13 + (unat num + 7) div 8 \<le> length buf" and "i \<le> num"
  shows "unpack_bits buf start num i coils = Inr
     (map (\<lambda>k. if unat start + unat i \<le> k \<and> k < unat start + unat num
               then payload_bit buf (k - unat start) else coils ! k) [0..<length coils])"
  using assms
proof (induction "unat num - unat i" arbitrary: i coils rule: less_induct)
  case less
  note prems = less.prems
  show ?case
  proof (cases "i < num")
    case False
    then have "i = num" using prems(5) by simp
    moreover have "map (\<lambda>k. if unat start + unat num \<le> k \<and> k < unat start + unat num
        then payload_bit buf (k - unat start) else coils ! k) [0..<length coils] = coils"
      by (rule nth_equalityI) auto
    ultimately show ?thesis by (subst unpack_bits.simps) simp
  next
    case True
    then have i: "unat i < unat num" by (simp add: word_less_nat_alt)
    have addr: "unat (start + i) = unat start + unat i"
      using prems(2) i by (intro unat_add_bound) simp
    have idx: "unat (ucast (i div 8) :: u8) = unat i div 8" "unat (ucast (i mod 8) :: u8) = unat i mod 8"
      using i prems(3) by (simp_all add: byte_bit_index)
    let ?c = "coils[unat start + unat i := payload_bit buf (unat i)]"
    have B: "13 + unat i div 8 < length buf" using i prems(4) by simp
    have "unpack_bits buf start num i coils = unpack_bits buf start num (i + 1) ?c"
      using True B prems(1) i
      by (subst unpack_bits.simps) (simp add: Let_def addr idx drop_bit_and_1 payload_bit_def)
    also have "\<dots> = Inr (map (\<lambda>k. if unat start + unat (i + 1) \<le> k \<and> k < unat start + unat num
               then payload_bit buf (k - unat start) else ?c ! k) [0..<length coils])"
      using less.hyps [OF loop_measure [OF True], of ?c] prems inc_le [OF True] by simp
    also have "\<dots> = Inr (map (\<lambda>k. if unat start + unat i \<le> k \<and> k < unat start + unat num
               then payload_bit buf (k - unat start) else coils ! k) [0..<length coils])"
      using i by (auto simp: unat_loop_Suc [OF True] nth_list_update intro: arg_cong [where f = "payload_bit buf"])
    finally show ?thesis .
  qed
qed

lemma store16_Inr:
  "k + 1 < length r \<Longrightarrow> store16 r k w = Inr (r[k := ucast w, k + 1 := ucast (drop_bit 8 w)])"
  by (simp add: store16_def)

lemma copy_registers_correct:
  assumes "unat start + unat num \<le> length regs" and "unat start + unat num < 65536"
    and "9 + 2 * unat num \<le> length response" and "i \<le> num"
  shows "\<exists>r. copy_registers htons regs start num i response = Inr r \<and> length r = length response \<and>
     (\<forall>j. unat i \<le> j \<and> j < unat num \<longrightarrow>
        r ! (9 + 2 * j) = ucast (htons (regs ! (unat start + j))) \<and>
        r ! (10 + 2 * j) = ucast (drop_bit 8 (htons (regs ! (unat start + j))))) \<and>
     (\<forall>k < 9 + 2 * unat i. r ! k = response ! k)"
  using assms
proof (induction "unat num - unat i" arbitrary: i response rule: less_induct)
  case less
  note prems = less.prems
  show ?case
  proof (cases "i < num")
    case False
    then have "i = num" using prems(4) by simp
    then show ?thesis by (subst copy_registers.simps) auto
  next
    case True
    then have i: "unat i < unat num" by (simp add: word_less_nat_alt)
    have addr: "unat (start + i) = unat start + unat i"
      using prems(2) i by (intro unat_add_bound) simp
    let ?w = "htons (regs ! (unat start + unat i))"
    let ?r' = "response[9 + 2 * unat i := ucast ?w, 9 + 2 * unat i + 1 := ucast (drop_bit 8 ?w)]"
    have step: "copy_registers htons regs start num i response = copy_registers htons regs start num (i + 1) ?r'"
      using True prems(1,3) i by (subst copy_registers.simps) (simp add: addr store16_Inr)
    obtain r where r: "copy_registers htons regs start num (i + 1) ?r' = Inr r" "length r = length response"
      "\<forall>j. unat (i + 1) \<le> j \<and> j < unat num \<longrightarrow>
        r ! (9 + 2 * j) = ucast (htons (regs ! (unat start + j))) \<and>
        r ! (10 + 2 * j) = ucast (drop_bit 8 (htons (regs ! (unat start + j))))"
      "\<forall>k < 9 + 2 * unat (i + 1). r ! k = ?r' ! k"
      using less.hyps [OF loop_measure [OF True], of ?r'] prems inc_le [OF True] by auto
    have S: "unat (i + 1) = Suc (unat i)" by (rule unat_loop_Suc [OF True])
    have "r ! (9 + 2 * unat i) = ucast ?w" "r ! (10 + 2 * unat i) = ucast (drop_bit 8 ?w)"
      using r(4) prems(3) i by (simp_all add: S nth_list_update)
    moreover have "\<forall>k < 9 + 2 * unat i. r ! k = response ! k" using r(4) by (simp add: S)
    ultimately have "\<forall>j. unat i \<le> j \<and> j < unat num \<longrightarrow>
        r ! (9 + 2 * j) = ucast (htons (regs ! (unat start + j))) \<and>
        r ! (10 + 2 * j) = ucast (drop_bit 8 (htons (regs ! (unat start + j))))"
      using r(3) unfolding S Suc_le_eq by (metis le_neq_implies_less)
    with r(1,2) \<open>\<forall>k < 9 + 2 * unat i. r ! k = response ! k\<close> step show ?thesis by auto
  qed
qed

section \<open>Safety\<close>

definition keeps_length :: "('a, 'c) data_cb option \<Rightarrow> bool" where
  "keeps_length cb \<longleftrightarrow> (\<forall>start data off num ctx. length (fst (run_cb cb start data off num ctx)) = length data)"

definition data_ok :: "'a list option \<Rightarrow> u16 \<Rightarrow> bool" where
  "data_ok data sz \<longleftrightarrow> (\<forall>d. data = Some d \<longrightarrow> length d = unat sz)"

definition wf_api :: "'c modbus_api \<Rightarrow> bool" where
  "wf_api api \<longleftrightarrow>
     data_ok (coils_data api) (coils_size api) \<and> data_ok (holdings_data api) (holdings_size api) \<and>
     data_ok (discrete_inputs_data api) (discrete_inputs_size api) \<and>
     keeps_length (coils_read_cb api) \<and> keeps_length (coils_write_cb api) \<and>
     keeps_length (holdings_cb api) \<and> keeps_length (discrete_inputs_cb api)"

lemma keeps_length_None [simp]: "keeps_length None"
  by (simp add: keeps_length_def run_cb_def)

text \<open>A branch ended well: within the buffer, and without effects when it failed.\<close>

definition outcome_ok :: "'c modbus_api \<Rightarrow> 'c outcome \<Rightarrow> bool" where
  "outcome_ok api out \<longleftrightarrow> (case out of (api', r, n, ok) \<Rightarrow>
     length r = response_size \<and> n < response_size \<and> wf_api api' \<and> (ok \<longrightarrow> 9 \<le> n) \<and> (\<not> ok \<longrightarrow> api' = api))"

lemma in_range_bounds:
  assumes "in_range start num sz" and "data_ok (Some d) sz"
  shows "unat start + unat num \<le> length d" and "unat start + unat num < 65536"
    and "unat start < length d" and "unat num \<le> unat sz"
  using assms unat_u16_less [of sz] by (auto simp: in_range_def data_ok_def word_less_nat_alt)

lemma fail_ok: "wf_api api \<Longrightarrow> length r = response_size \<Longrightarrow> \<exists>out. fail api r = Inr out \<and> outcome_ok api out"
  by (simp add: fail_def outcome_ok_def response_size_def)

lemma echo_words_length:
  "length r = response_size \<Longrightarrow> \<exists>r'. echo_words htons a b r = Inr r' \<and> length r' = response_size"
  by (simp add: echo_words_def store16_Inr response_size_def)

lemma read_bits_ok:
  assumes "unat start + unat num \<le> length data" and "unat start + unat num < 65536"
    and "unat num \<le> 2040" and "unat (byte_count_of num) + 9 < response_size" and "length r = response_size"
  shows "\<exists>r' n. read_bits data start num r = Inr (r', n) \<and> length r' = response_size \<and>
     n = 9 + unat (byte_count_of num)"
proof -
  have "9 + (unat num + 7) div 8 \<le> length (clear_bytes (unat (byte_count_of num)) r)"
    using assms(4,5) byte_count_small [OF assms(3)] by (simp add: response_size_def)
  from pack_bits_correct [OF assms(1,2,3) this, of 0] assms(5) show ?thesis
    by (auto simp: read_bits_def response_size_def Let_def)
qed

lemma run_cb_length:
  "keeps_length cb \<Longrightarrow> run_cb cb start data off num ctx = (data', ctx') \<Longrightarrow> length data' = length data"
  unfolding keeps_length_def by (metis fst_conv)

lemma read_discrete_inputs_ok:
  assumes "wf_api api" and "length r = response_size" and "discrete_inputs_size api \<le> 2040"
  shows "\<exists>out. read_discrete_inputs api start num r = Inr out \<and> outcome_ok api out"
proof (cases "discrete_inputs_data api")
  case None
  with fail_ok [OF assms(1,2)] show ?thesis by (simp add: read_discrete_inputs_def)
next
  case (Some d)
  obtain d' c' where cb: "run_cb (discrete_inputs_cb api) start d 0 num (discrete_inputs_context api) = (d', c')"
    by fastforce
  with assms(1) Some have d': "length d' = length d" "length d = unat (discrete_inputs_size api)"
    by (auto simp: wf_api_def data_ok_def dest: run_cb_length)
  show ?thesis
  proof (cases "in_range start num (discrete_inputs_size api) \<and> unat (byte_count_of num) + 9 < response_size")
    case False
    with fail_ok [OF assms(1,2)] Some show ?thesis by (auto simp: read_discrete_inputs_def)
  next
    case True
    then have "unat start + unat num \<le> length d'" "unat start + unat num < 65536" "unat num \<le> 2040"
      using in_range_bounds [of start num "discrete_inputs_size api" d'] d' assms(3)
      by (auto simp: data_ok_def word_le_nat_alt)
    from read_bits_ok [OF this, of r] True assms(1,2) Some cb d' show ?thesis
      by (auto simp: read_discrete_inputs_def outcome_ok_def wf_api_def data_ok_def)
  qed
qed

lemma read_coils_ok:
  assumes "wf_api api" and "length r = response_size" and "coils_size api \<le> 2040"
  shows "\<exists>out. read_coils api start num r = Inr out \<and> outcome_ok api out"
proof (cases "coils_data api")
  case None
  with fail_ok [OF assms(1,2)] show ?thesis by (simp add: read_coils_def)
next
  case (Some d)
  obtain d' c' where cb: "run_cb (coils_read_cb api) start d (unat start) num (coils_context api) = (d', c')"
    by fastforce
  with assms(1) Some have d': "length d' = length d" "length d = unat (coils_size api)"
    by (auto simp: wf_api_def data_ok_def dest: run_cb_length)
  show ?thesis
  proof (cases "in_range start num (coils_size api) \<and> unat (byte_count_of num) + 9 < response_size")
    case False
    with fail_ok [OF assms(1,2)] Some show ?thesis by (auto simp: read_coils_def)
  next
    case True
    then have "unat start + unat num \<le> length d'" "unat start + unat num < 65536" "unat num \<le> 2040"
      using in_range_bounds [of start num "coils_size api" d'] d' assms(3)
      by (auto simp: data_ok_def word_le_nat_alt)
    from read_bits_ok [OF this, of r] True assms(1,2) Some cb d' show ?thesis
      by (auto simp: read_coils_def outcome_ok_def wf_api_def data_ok_def)
  qed
qed

lemma write_single_coil_ok:
  assumes "wf_api api" and "length r = response_size"
  shows "\<exists>out. write_single_coil htons api start val r = Inr out \<and> outcome_ok api out"
proof (cases "coils_data api")
  case None
  with fail_ok [OF assms] show ?thesis by (simp add: write_single_coil_def)
next
  case (Some d)
  let ?d1 = "d[unat start := if val = 0xFF00 then 1 else 0]"
  obtain d' c' where cb: "run_cb (coils_write_cb api) start ?d1 (unat start) 1 (coils_context api) = (d', c')"
    by fastforce
  with assms(1) Some have d': "length d' = length d" "length d = unat (coils_size api)"
    by (auto simp: wf_api_def data_ok_def dest: run_cb_length)
  show ?thesis
  proof (cases "start < coils_size api \<and> (val = 0 \<or> val = 0xFF00)")
    case False
    with fail_ok [OF assms] Some show ?thesis by (auto simp: write_single_coil_def)
  next
    case True
    then have "unat start < length d" using d' by (simp add: word_less_nat_alt)
    with True echo_words_length [OF assms(2), of htons start val] assms(1) Some cb d' show ?thesis
      by (auto simp: write_single_coil_def outcome_ok_def wf_api_def data_ok_def response_size_def split: prod.splits)
  qed
qed

lemma write_multiple_coils_ok:
  assumes "wf_api api" and "length r = response_size" and "coils_size api \<le> 2040"
    and "13 \<le> length buf" and "len \<le> length buf"
  shows "\<exists>out. write_multiple_coils htons api buf len start num r = Inr out \<and> outcome_ok api out"
proof (cases "coils_data api")
  case None
  with fail_ok [OF assms(1,2)] show ?thesis by (simp add: write_multiple_coils_def)
next
  case (Some d)
  show ?thesis
  proof (cases "in_range start num (coils_size api) \<and> buf ! 12 = byte_count_of num \<and> unat (buf ! 12) + 13 \<le> len")
    case False
    with fail_ok [OF assms(1,2)] Some assms(4) show ?thesis by (auto simp: write_multiple_coils_def)
  next
    case True
    then have b: "unat start + unat num \<le> length d" "unat start + unat num < 65536" "unat num \<le> 2040"
      using in_range_bounds [of start num "coils_size api" d] assms(1,3) Some
      by (auto simp: wf_api_def word_le_nat_alt)
    have "unat (byte_count_of num) + 13 \<le> length buf" using True assms(5) by (metis le_trans)
    then have "13 + (unat num + 7) div 8 \<le> length buf" by (simp only: byte_count_small [OF b(3)] add.commute)
    from unpack_bits_correct [OF b this, of 0] obtain d1
      where d1: "unpack_bits buf start num 0 d = Inr d1" "length d1 = length d" by simp
    obtain d' c' where cb: "run_cb (coils_write_cb api) start d1 (unat start) num (coils_context api) = (d', c')"
      by fastforce
    with assms(1) Some have d': "length d' = length d1" "length d = unat (coils_size api)"
      by (auto simp: wf_api_def data_ok_def dest: run_cb_length)
    with True echo_words_length [OF assms(2), of htons start num] assms(1,4) Some cb d1 show ?thesis
      by (auto simp: write_multiple_coils_def outcome_ok_def wf_api_def data_ok_def response_size_def)
  qed
qed

lemma read_holding_registers_ok:
  assumes "wf_api api" and "length r = response_size"
  shows "\<exists>out. read_holding_registers htons api start num r = Inr out \<and> outcome_ok api out"
proof (cases "holdings_data api")
  case None
  with fail_ok [OF assms(1,2)] show ?thesis by (simp add: read_holding_registers_def)
next
  case (Some d)
  obtain d' c' where cb: "run_cb (holdings_cb api) start d (unat start) num (holdings_context api) = (d', c')"
    by fastforce
  with assms(1) Some have d': "length d' = length d" "length d = unat (holdings_size api)"
    by (auto simp: wf_api_def data_ok_def dest: run_cb_length)
  show ?thesis
  proof (cases "in_range start num (holdings_size api) \<and> unat num * 2 + 9 < response_size")
    case False
    with fail_ok [OF assms(1,2)] Some show ?thesis by (auto simp: read_holding_registers_def)
  next
    case True
    then have b: "unat start + unat num \<le> length d" "unat start + unat num < 65536"
      using in_range_bounds [of start num "holdings_size api" d] d' by (auto simp: data_ok_def)
    have n: "9 + 2 * unat num \<le> length r" "unat num * 2 < 256" using True assms(2) by (simp_all add: response_size_def)
    from copy_registers_correct [OF b n(1), of 0 htons] True assms(1,2) Some cb d' n(2) show ?thesis
      by (auto simp: read_holding_registers_def outcome_ok_def wf_api_def data_ok_def unat_of_nat response_size_def
          simp del: of_nat_mult)
  qed
qed

lemma dispatch_ok:
  assumes "wf_api api" and "length r = response_size" and "coils_size api \<le> 2040"
    and "discrete_inputs_size api \<le> 2040" and "13 \<le> length buf" and "len \<le> length buf"
  shows "\<exists>out. dispatch htons api func buf len w1 w2 r = Inr out \<and> outcome_ok api out"
proof -
  have "\<exists>out. write_single_register htons api w1 w2 r = Inr out \<and> outcome_ok api out"
    using echo_words_length [OF assms(2), of htons w1 w2] assms(1)
    by (auto simp: write_single_register_def outcome_ok_def response_size_def)
  moreover have "\<exists>out. write_multiple_registers htons api w1 w2 r = Inr out \<and> outcome_ok api out"
    using echo_words_length [OF assms(2), of htons w1 w2] assms(1) fail_ok [OF assms(1,2)]
    by (auto simp: write_multiple_registers_def outcome_ok_def response_size_def)
  moreover have "\<exists>out. read_input_registers api w2 r = Inr out \<and> outcome_ok api out"
  proof (cases "unat w2 * 2 + 9 < response_size")
    case True
    then have "unat (of_nat (unat w2 * 2) :: u8) = unat w2 * 2"
      by (simp add: response_size_def unat_of_nat del: of_nat_mult)
    with True assms(1,2) show ?thesis
      by (simp add: read_input_registers_def outcome_ok_def response_size_def Let_def)
  next
    case False
    with fail_ok [OF assms(1,2)] show ?thesis by (simp add: read_input_registers_def)
  qed
  ultimately show ?thesis
    unfolding dispatch_def
    using read_discrete_inputs_ok [OF assms(1,2,4)] read_coils_ok [OF assms(1-3)] fail_ok [OF assms(1,2)]
      write_single_coil_ok [OF assms(1,2)] write_multiple_coils_ok [OF assms(1-3,5,6)]
      read_holding_registers_ok [OF assms(1,2)]
    by simp
qed

text \<open>The exception response: the function code with its top bit set, and the code 4.\<close>

lemma finish_response_ok:
  assumes "outcome_ok api (api', r, n, ok)"
  shows "\<exists>bytes. finish_response htons (api', r, n, ok) = Inr (Some api', Some bytes) \<and>
     length bytes = (if ok then n else 9) \<and> 9 \<le> length bytes \<and> length bytes < response_size \<and>
     (\<forall>k < length bytes. k \<noteq> 4 \<longrightarrow> k \<noteq> 5 \<longrightarrow>
        bytes ! k = (if \<not> ok \<and> n \<noteq> 9 \<and> k = 7 then r ! 7 OR 0x80 else if \<not> ok \<and> n \<noteq> 9 \<and> k = 8 then 4 else r ! k)) \<and>
     bytes ! 4 = ucast (htons (of_nat (length bytes - 6))) \<and>
     bytes ! 5 = ucast (drop_bit 8 (htons (of_nat (length bytes - 6))))"
  using assms
  by (cases ok; cases "n = 9")
    (auto simp: outcome_ok_def response_size_def finish_response_def store16_Inr nth_list_update numeral_2_eq_2)

lemma handle_modbus_pdu_unfold:
  assumes "12 \<le> len" and "12 \<le> length buf"
  shows "handle_modbus_pdu ntohs htons junk buf len (Some api) =
     rbind (dispatch htons api (buf ! 7) buf len
              (ntohs (ucast (buf ! 8) OR push_bit 8 (ucast (buf ! 9))))
              (ntohs (ucast (buf ! 10) OR push_bit 8 (ucast (buf ! 11)))) (take 8 buf @ drop 8 junk))
       (finish_response htons)"
  using assms by (simp add: handle_modbus_pdu_def load16_def)

lemma handle_safe:
  assumes "wf_api api" and "coils_size api \<le> 2040" and "discrete_inputs_size api \<le> 2040"
    and "length junk = response_size" and "13 \<le> length buf" and "len \<le> length buf"
  shows "\<exists>api' sent. handle_modbus_pdu ntohs htons junk buf len (Some api) = Inr (Some api', sent) \<and>
     wf_api api' \<and> (sent = None \<longleftrightarrow> len < 12) \<and>
     (\<forall>bytes. sent = Some bytes \<longrightarrow> 9 \<le> length bytes \<and> length bytes < response_size)"
proof (cases "len < 12")
  case True
  with assms(1) show ?thesis by (simp add: handle_modbus_pdu_def)
next
  case False
  have len: "length (take 8 buf @ drop 8 junk) = response_size"
    using assms(4,5) by (simp add: response_size_def)
  let ?w1 = "ntohs (ucast (buf ! 8) OR push_bit 8 (ucast (buf ! 9)))"
  let ?w2 = "ntohs (ucast (buf ! 10) OR push_bit 8 (ucast (buf ! 11)))"
  obtain api' r n ok where out: "dispatch htons api (buf ! 7) buf len ?w1 ?w2 (take 8 buf @ drop 8 junk) = Inr (api', r, n, ok)"
    and o: "outcome_ok api (api', r, n, ok)"
    using dispatch_ok [OF assms(1) len assms(2,3,5,6)] by (metis surj_pair)
  from finish_response_ok [OF o, of htons] obtain bytes
    where "finish_response htons (api', r, n, ok) = Inr (Some api', Some bytes)"
      "9 \<le> length bytes" "length bytes < response_size" by blast
  moreover have "wf_api api'" using o by (simp add: outcome_ok_def)
  ultimately show ?thesis using False assms(5) out
    by (simp add: handle_modbus_pdu_unfold)
qed

section \<open>Network byte order\<close>

definition swap16 :: "u16 \<Rightarrow> u16" where
  "swap16 w = push_bit 8 w OR drop_bit 8 w"

definition be16 :: "u8 \<Rightarrow> u8 \<Rightarrow> u16" where
  "be16 hi lo = push_bit 8 (ucast hi) OR ucast lo"

text \<open>What the network library promises of its conversions on a little-endian controller.\<close>

locale net_order =
  fixes ntohs :: "u16 \<Rightarrow> u16" and htons :: "u16 \<Rightarrow> u16"
  assumes ntohs_swaps: "ntohs w = swap16 w"
    and htons_swaps: "htons w = swap16 w"
begin

lemma ntohs_load: "ntohs (ucast lo OR push_bit 8 (ucast hi)) = be16 lo hi"
  unfolding ntohs_swaps swap16_def be16_def
  by (rule bit_word_eqI) (auto simp: bit_simps dest: bit_imp_le_length)

lemma htons_low: "(ucast (htons w) :: u8) = ucast (drop_bit 8 w)"
  unfolding htons_swaps swap16_def by (rule bit_word_eqI) (auto simp: bit_simps)

lemma htons_high: "(ucast (drop_bit 8 (htons w)) :: u8) = ucast w"
  unfolding htons_swaps swap16_def
  by (rule bit_word_eqI) (auto simp: bit_simps dest: bit_imp_le_length)

lemma ntohs_htons: "ntohs (htons w) = w"
  unfolding ntohs_swaps htons_swaps swap16_def
  by (rule bit_word_eqI) (auto simp: bit_simps dest: bit_imp_le_length)

end

interpretation le_target: net_order swap16 swap16
  by unfold_locales simp_all

lemma be16_bytes: "be16 (ucast (drop_bit 8 w)) (ucast (w :: u16)) = w"
  unfolding be16_def by (rule bit_word_eqI) (auto simp: bit_simps dest: bit_imp_le_length)

lemma be16_parts:
  "(ucast (drop_bit 8 (be16 hi lo)) :: u8) = hi" "(ucast (be16 hi lo) :: u8) = lo"
  unfolding be16_def by (rule bit_word_eqI; auto simp: bit_simps dest: bit_imp_le_length)+

text \<open>The request header: the function code and the two words after it.\<close>

definition request :: "u8 list \<Rightarrow> u8 \<Rightarrow> u16 \<Rightarrow> u16 \<Rightarrow> bool" where
  "request buf func w1 w2 \<longleftrightarrow> 12 \<le> length buf \<and> buf ! 7 = func \<and> be16 (buf ! 8) (buf ! 9) = w1 \<and>
     be16 (buf ! 10) (buf ! 11) = w2"

context net_order begin

lemma handle_request:
  assumes "request buf func w1 w2" and "12 \<le> len"
  shows "handle_modbus_pdu ntohs htons junk buf len (Some api) =
     rbind (dispatch htons api func buf len w1 w2 (take 8 buf @ drop 8 junk)) (finish_response htons)"
  using assms by (simp add: request_def handle_modbus_pdu_unfold ntohs_load)

lemma response_length_word:
  assumes "bytes ! 4 = ucast (htons n)" and "bytes ! 5 = ucast (drop_bit 8 (htons n))"
  shows "be16 (bytes ! 4) (bytes ! 5) = n"
  using assms by (simp add: htons_low htons_high be16_bytes)

lemma echo_request:
  assumes "request buf func w1 w2" and "length r = response_size"
  shows "echo_words htons w1 w2 r = Inr (r[8 := buf ! 8, 9 := buf ! 9, 10 := buf ! 10, 11 := buf ! 11])"
proof -
  have "buf ! 8 = ucast (drop_bit 8 w1)" "buf ! 9 = ucast w1" "buf ! 10 = ucast (drop_bit 8 w2)" "buf ! 11 = ucast w2"
    using assms(1) by (auto simp: request_def be16_parts)
  then show ?thesis using assms(2)
    by (simp add: echo_words_def store16_Inr response_size_def htons_low htons_high)
qed

end

section \<open>The bits read and written\<close>

lemma read_bits_correct:
  assumes "unat start + unat num \<le> length data" and "unat start + unat num < 65536"
    and "unat num \<le> 2000" and "length r = response_size"
  shows "\<exists>r'. read_bits data start num r = Inr (r', 9 + (unat num + 7) div 8) \<and> length r' = response_size \<and>
     (\<forall>k < 8. r' ! k = r ! k) \<and> r' ! 8 = of_nat ((unat num + 7) div 8) \<and>
     (\<forall>k < (unat num + 7) div 8. \<forall>b < 8.
        bit (r' ! (9 + k)) b \<longleftrightarrow> 8 * k + b < unat num \<and> data ! (unat start + (8 * k + b)) \<noteq> 0)"
proof -
  let ?n = "(unat num + 7) div 8" and ?c = "clear_bytes (unat (byte_count_of num)) r"
  have n: "?n \<le> 250" using assms(3) by simp
  have bc: "unat (byte_count_of num) = ?n" using assms(3) by (intro byte_count_small) simp
  have "9 + ?n \<le> length ?c" using n assms(4) by (simp add: response_size_def)
  moreover have "unat num \<le> 2040" using assms(3) by simp
  ultimately obtain r1 where r1: "pack_bits data start num 0 ?c = Inr r1" "length r1 = length ?c"
    "\<forall>k < length ?c. \<forall>b < 8. bit (r1 ! k) b \<longleftrightarrow> bit (?c ! k) b \<or>
        (9 \<le> k \<and> unat (0 :: u16) \<le> 8 * (k - 9) + b \<and> 8 * (k - 9) + b < unat num \<and>
         data ! (unat start + (8 * (k - 9) + b)) \<noteq> 0)"
    using pack_bits_correct [OF assms(1,2), of ?c 0] by auto
  have len: "length ?c = 260" using assms(4) by (simp add: response_size_def)
  have "r1 ! k = r ! k" if "k < 8" for k
  proof (rule bit_word_eqI)
    fix b assume "b < LENGTH(8)"
    then show "bit (r1 ! k) b = bit (r ! k) b" using r1(3) that len assms(4) by (simp add: response_size_def)
  qed
  moreover have "bit (r1 ! (9 + k)) b \<longleftrightarrow> 8 * k + b < unat num \<and> data ! (unat start + (8 * k + b)) \<noteq> 0"
    if "k < ?n" "b < 8" for k b
  proof -
    have "9 + k < length ?c" using that n len by linarith
    with r1(3) that bc show ?thesis by (simp add: response_size_def)
  qed
  ultimately show ?thesis using r1(1,2) bc len
    by (intro exI [of _ "r1[8 := byte_count_of num]"])
      (auto simp: read_bits_def Let_def response_size_def nth_list_update byte_count_of_def)
qed

text \<open>The contents of a frame, as the bits from the address \<open>start\<close> on.\<close>

definition bits_frame :: "u8 list \<Rightarrow> nat \<Rightarrow> u8 list \<Rightarrow> u16 \<Rightarrow> u16 \<Rightarrow> bool" where
  "bits_frame bytes off data start num \<longleftrightarrow>
     (\<forall>k < (unat num + 7) div 8. \<forall>b < 8. 8 * k + b < unat num \<longrightarrow>
        (bit (bytes ! (off + k)) b \<longleftrightarrow> data ! (unat start + (8 * k + b)) \<noteq> 0))"

definition padding_clear :: "u8 list \<Rightarrow> nat \<Rightarrow> u16 \<Rightarrow> bool" where
  "padding_clear bytes off num \<longleftrightarrow>
     (\<forall>k < (unat num + 7) div 8. \<forall>b < 8. unat num \<le> 8 * k + b \<longrightarrow> \<not> bit (bytes ! (off + k)) b)"

text \<open>The header of a response of the function \<open>func\<close> to the request \<open>buf\<close>.\<close>

definition response_header :: "u8 list \<Rightarrow> u8 list \<Rightarrow> u8 \<Rightarrow> bool" where
  "response_header buf bytes func \<longleftrightarrow> (\<forall>k < 4. bytes ! k = buf ! k) \<and>
     be16 (bytes ! 4) (bytes ! 5) = of_nat (length bytes - 6) \<and> bytes ! 6 = buf ! 6 \<and> bytes ! 7 = func"

lemma all_less_8: "(\<forall>k < 8. P k) \<longleftrightarrow> P 0 \<and> P 1 \<and> P 2 \<and> P 3 \<and> P 4 \<and> P 5 \<and> P 6 \<and> P (7::nat)"
  by (simp add: All_less_Suc eval_nat_numeral conj_ac)

context net_order begin

lemma read_coils_handled:
  assumes api: "wf_api api" "coils_data api = Some coils" "coils_read_cb api = None"
    and req: "request buf 1 start num" and "length junk = response_size"
    and range: "in_range start num (coils_size api)" "unat num \<le> 2000"
  shows "\<exists>bytes. handle_modbus_pdu ntohs htons junk buf (length buf) (Some api) = Inr (Some api, Some bytes) \<and>
     length bytes = 9 + (unat num + 7) div 8 \<and> response_header buf bytes 1 \<and>
     bytes ! 8 = of_nat ((unat num + 7) div 8) \<and> bits_frame bytes 9 coils start num \<and> padding_clear bytes 9 num"
proof -
  let ?r = "take 8 buf @ drop 8 junk" and ?n = "(unat num + 7) div 8"
  have len: "12 \<le> length buf" and func: "buf ! 7 = 1" using req by (simp_all add: request_def)
  have r: "length ?r = response_size" using assms(5) len by (simp add: response_size_def)
  have b: "unat start + unat num \<le> length coils" "unat start + unat num < 65536"
    using in_range_bounds [OF range(1), of coils] api(1,2) by (simp_all add: wf_api_def)
  from read_bits_correct [OF b range(2) r] obtain r' where
    r': "read_bits coils start num ?r = Inr (r', 9 + ?n)" "length r' = response_size"
    "\<forall>k < 8. r' ! k = ?r ! k" "r' ! 8 = of_nat ?n"
    "\<forall>k < ?n. \<forall>b < 8. bit (r' ! (9 + k)) b \<longleftrightarrow> 8 * k + b < unat num \<and> coils ! (unat start + (8 * k + b)) \<noteq> 0"
    by blast
  have n: "?n \<le> 250" "unat (byte_count_of num) = ?n"
    using range(2) by (simp, intro byte_count_small, simp)
  have api': "api\<lparr>coils_data := Some coils, coils_context := coils_context api\<rparr> = api"
    using api(2) by simp
  have disp: "dispatch htons api 1 buf (length buf) start num ?r = Inr (api, r', 9 + ?n, True)"
    using api range n r'(1) api' by (simp add: dispatch_def read_coils_def run_cb_def response_size_def)
  have "outcome_ok api (api, r', 9 + ?n, True)" using r'(2) n api(1) by (simp add: outcome_ok_def response_size_def)
  from finish_response_ok [OF this, of htons] obtain bytes where
    resp: "finish_response htons (api, r', 9 + ?n, True) = Inr (Some api, Some bytes)" "length bytes = 9 + ?n"
    "\<forall>k < length bytes. k \<noteq> 4 \<longrightarrow> k \<noteq> 5 \<longrightarrow> bytes ! k = r' ! k"
    "bytes ! 4 = ucast (htons (of_nat (length bytes - 6)))"
    "bytes ! 5 = ucast (drop_bit 8 (htons (of_nat (length bytes - 6))))" by auto
  have "response_header buf bytes 1"
    using resp(2,3) r'(3) len func response_length_word [OF resp(4,5)]
    by (simp add: response_header_def nth_append)
  moreover have "bits_frame bytes 9 coils start num" "padding_clear bytes 9 num"
    using resp(2,3) r'(5) by (simp_all add: bits_frame_def padding_clear_def)
  ultimately show ?thesis
    using resp(1-3) disp r'(4) handle_request [OF req len, of junk api]
    by (intro exI [of _ bytes]) simp
qed

lemma write_multiple_coils_handled:
  assumes api: "wf_api api" "coils_data api = Some coils" "coils_write_cb api = None"
    and req: "request buf 15 start num" and "length junk = response_size"
    and range: "in_range start num (coils_size api)" "unat num \<le> 2000"
    and payload: "buf ! 12 = of_nat ((unat num + 7) div 8)" "13 + (unat num + 7) div 8 \<le> length buf"
  shows "\<exists>coils' bytes. handle_modbus_pdu ntohs htons junk buf (length buf) (Some api) =
       Inr (Some (api\<lparr>coils_data := Some coils'\<rparr>), Some bytes) \<and>
     length coils' = length coils \<and> bits_frame buf 13 coils' start num \<and>
     (\<forall>k < length coils. k < unat start \<or> unat start + unat num \<le> k \<longrightarrow> coils' ! k = coils ! k) \<and>
     length bytes = 12 \<and> response_header buf bytes 15 \<and> drop 8 bytes = take 4 (drop 8 buf)"
proof -
  let ?r = "take 8 buf @ drop 8 junk"
  have len: "12 \<le> length buf" and func: "buf ! 7 = 15" using req by (simp_all add: request_def)
  have r: "length ?r = response_size" using assms(5) len by (simp add: response_size_def)
  have b: "unat start + unat num \<le> length coils" "unat start + unat num < 65536" "unat num \<le> 2040"
    using in_range_bounds [OF range(1), of coils] api(1,2) range(2) by (simp_all add: wf_api_def)
  define coils' where "coils' = map (\<lambda>k. if unat start + unat (0 :: u16) \<le> k \<and> k < unat start + unat num
      then payload_bit buf (k - unat start) else coils ! k) [0..<length coils]"
  have up: "unpack_bits buf start num 0 coils = Inr coils'"
    unfolding coils'_def by (rule unpack_bits_correct [OF b payload(2)]) simp
  have bc: "unat (byte_count_of num) = (unat num + 7) div 8" by (rule byte_count_small [OF b(3)])
  define r' where "r' = ?r[8 := buf ! 8, 9 := buf ! 9, 10 := buf ! 10, 11 := buf ! 11]"
  have "aget buf 12 = Inr (byte_count_of num)" using payload len by (simp add: byte_count_of_def)
  then have disp: "dispatch htons api 15 buf (length buf) start num ?r =
      Inr (api\<lparr>coils_data := Some coils', coils_context := coils_context api\<rparr>, r', 12, True)"
    using api range up bc payload(2) echo_request [OF req r]
    by (simp add: dispatch_def write_multiple_coils_def run_cb_def r'_def)
  have api': "api\<lparr>coils_data := Some coils', coils_context := coils_context api\<rparr> = api\<lparr>coils_data := Some coils'\<rparr>"
    by simp
  have "outcome_ok api (api\<lparr>coils_data := Some coils'\<rparr>, r', 12, True)"
    using r api by (simp add: outcome_ok_def response_size_def r'_def wf_api_def data_ok_def coils'_def)
  from finish_response_ok [OF this, of htons] obtain bytes where
    resp: "finish_response htons (api\<lparr>coils_data := Some coils'\<rparr>, r', 12, True) =
           Inr (Some (api\<lparr>coils_data := Some coils'\<rparr>), Some bytes)" "length bytes = 12"
    "\<forall>k < 12. k \<noteq> 4 \<longrightarrow> k \<noteq> 5 \<longrightarrow> bytes ! k = r' ! k"
    "bytes ! 4 = ucast (htons (of_nat (length bytes - 6)))"
    "bytes ! 5 = ucast (drop_bit 8 (htons (of_nat (length bytes - 6))))" by auto
  have r'_nth: "r' ! k = buf ! k" if "k < 12" for k
    using that len assms(5) by (auto simp: r'_def nth_list_update nth_append response_size_def)
  have "response_header buf bytes 15"
    using resp(2,3) func response_length_word [OF resp(4,5)] by (simp add: response_header_def r'_nth)
  moreover have "drop 8 bytes = take 4 (drop 8 buf)"
    using resp(2,3) len by (intro nth_equalityI) (simp_all add: r'_nth)
  moreover have "bits_frame buf 13 coils' start num"
    using b(1) by (simp add: bits_frame_def coils'_def payload_bit_def)
  moreover have "length coils' = length coils"
    "\<forall>k < length coils. k < unat start \<or> unat start + unat num \<le> k \<longrightarrow> coils' ! k = coils ! k"
    by (auto simp: coils'_def)
  ultimately show ?thesis
    using resp(1,2) disp handle_request [OF req len, of junk api] unfolding api'
    by (intro exI [of _ coils'] exI [of _ bytes]) simp
qed

end

section \<open>Properties\<close>



text \<open>A Write Multiple Coils request with the right byte count stores exactly the bits of its payload at the
  requested coils, leaves the others, and echoes the address and the count.\<close>

theorem write_multiple_coils_effect:
  assumes "net_order ntohs htons"
    and "wf_api api" and "coils_data api = Some coils" and "coils_write_cb api = None"
    and "request buf 15 start num" and "length junk = response_size"
    and "in_range start num (coils_size api)" and "unat num \<le> 2000"
    and "buf ! 12 = of_nat ((unat num + 7) div 8)" and "13 + (unat num + 7) div 8 \<le> length buf"
  shows "\<exists>coils' bytes. handle_modbus_pdu ntohs htons junk buf (length buf) (Some api) =
       Inr (Some (api\<lparr>coils_data := Some coils'\<rparr>), Some bytes) \<and>
     length coils' = length coils \<and> bits_frame buf 13 coils' start num \<and>
     (\<forall>k < length coils. k < unat start \<or> unat start + unat num \<le> k \<longrightarrow> coils' ! k = coils ! k) \<and>
     length bytes = 12 \<and> response_header buf bytes 15 \<and> drop 8 bytes = take 4 (drop 8 buf)"
  by (rule net_order.write_multiple_coils_handled [OF assms])

text \<open>Reading back the coils just written by Write Multiple Coils returns the payload bits.\<close>

theorem coils_write_read_roundtrip:
  assumes "net_order ntohs htons"
    and "wf_api api" and "coils_data api = Some coils" and "coils_write_cb api = None" and "coils_read_cb api = None"
    and "request buf 15 start num" and "request buf' 1 start num" and "length junk = response_size"
    and "in_range start num (coils_size api)" and "unat num \<le> 2000"
    and "buf ! 12 = of_nat ((unat num + 7) div 8)" and "13 + (unat num + 7) div 8 \<le> length buf"
  shows "\<exists>api' r bytes.
     handle_modbus_pdu ntohs htons junk buf (length buf) (Some api) = Inr (Some api', Some r) \<and>
     handle_modbus_pdu ntohs htons junk buf' (length buf') (Some api') = Inr (Some api', Some bytes) \<and>
     (\<forall>k < (unat num + 7) div 8. \<forall>b < 8. 8 * k + b < unat num \<longrightarrow>
        bit (bytes ! (9 + k)) b = bit (buf ! (13 + k)) b)"
proof -
  obtain coils' r where w: "handle_modbus_pdu ntohs htons junk buf (length buf) (Some api) =
       Inr (Some (api\<lparr>coils_data := Some coils'\<rparr>), Some r)" "length coils' = length coils"
     "bits_frame buf 13 coils' start num"
    using net_order.write_multiple_coils_handled [OF assms(1-4,6,8-12)] by blast
  let ?api = "api\<lparr>coils_data := Some coils'\<rparr>"
  have "wf_api ?api" "coils_data ?api = Some coils'" "coils_read_cb ?api = None"
    "in_range start num (coils_size ?api)"
    using assms(2,3,5,9) w(2) by (simp_all add: wf_api_def data_ok_def)
  from net_order.read_coils_handled [OF assms(1) this(1-3) assms(7,8) this(4) assms(10)]
  obtain bytes where "handle_modbus_pdu ntohs htons junk buf' (length buf') (Some ?api) = Inr (Some ?api, Some bytes)"
    "bits_frame bytes 9 coils' start num" by blast
  with w(1,3) show ?thesis
    by (intro exI [of _ ?api] exI [of _ r] exI [of _ bytes]) (auto simp: bits_frame_def)
qed

text \<open>When a coil table has room for it, a Read Coils request for more than 2040 coils whose wrapped byte
  count passes the size check makes the packing loop write past the 260-byte response buffer.\<close>

theorem read_coils_overflow:
  assumes "net_order ntohs htons"
    and "wf_api api" and "coils_data api = Some coils" and "coils_read_cb api = None"
    and "request buf 1 start num" and "length junk = response_size"
    and "in_range start num (coils_size api)" and "2040 < unat num" and "unat num \<le> 4040"
  shows "handle_modbus_pdu ntohs htons junk buf (length buf) (Some api) = Inl OutOfBounds"
proof -
  let ?r = "take 8 buf @ drop 8 junk" and ?q = "(unat num + 7) div 8"
  have len: "12 \<le> length buf" using assms(5) by (simp add: request_def)
  have q: "256 \<le> ?q" "?q \<le> 505" using assms(8,9) by simp_all
  have "unat (byte_count_of num) = ?q mod 256" by (simp add: byte_count_of_def unat_of_nat)
  also have "\<dots> = ?q - 256" using q by (simp add: mod_if)
  finally have bc: "unat (byte_count_of num) + 9 < response_size" using q by (simp add: response_size_def)
  have b: "unat start + unat num \<le> length coils" "unat start + unat num < 65536"
    using in_range_bounds [OF assms(7), of coils] assms(2,3) by (simp_all add: wf_api_def)
  have "length (clear_bytes (unat (byte_count_of num)) ?r) = 260"
    using assms(6) len by (simp add: response_size_def)
  then have "read_bits coils start num ?r = Inl OutOfBounds"
    using pack_bits_overflow [OF b, of _ 0] assms(8) by (simp add: read_bits_def Let_def)
  then have "dispatch htons api 1 buf (length buf) start num ?r = Inl OutOfBounds"
    using assms(3,4,7) bc by (simp add: dispatch_def read_coils_def run_cb_def)
  then show ?thesis
    using net_order.handle_request [OF assms(1,5) len, of junk api] by simp
qed

text \<open>A request for an unknown function, or for coils outside the table, changes nothing and is answered with
  the function code with its top bit set and the code 4.\<close>

theorem exception_response:
  assumes "net_order ntohs htons" and "wf_api api" and "request buf func w1 w2" and "length junk = response_size"
    and "func \<notin> {1, 2, 3, 4, 5, 6, 15, 16} \<or> func \<in> {1, 15} \<and> \<not> in_range w1 w2 (coils_size api)"
  shows "\<exists>bytes. handle_modbus_pdu ntohs htons junk buf (length buf) (Some api) = Inr (Some api, Some bytes) \<and>
     length bytes = 9 \<and> response_header buf bytes (func OR 0x80) \<and> bytes ! 8 = 4"
proof -
  let ?r = "take 8 buf @ drop 8 junk"
  have len: "12 \<le> length buf" and func: "buf ! 7 = func" using assms(3) by (simp_all add: request_def)
  have r: "length ?r = response_size" using assms(4) len by (simp add: response_size_def)
  have disp: "dispatch htons api func buf (length buf) w1 w2 ?r = Inr (api, ?r, 0, False)"
    using assms(5) by (auto simp: dispatch_def fail_def read_coils_def write_multiple_coils_def split: option.split)
  have "outcome_ok api (api, ?r, 0, False)" using r assms(2) by (simp add: outcome_ok_def response_size_def)
  from finish_response_ok [OF this, of htons] obtain bytes where
    resp: "finish_response htons (api, ?r, 0, False) = Inr (Some api, Some bytes)" "length bytes = 9"
    "\<forall>k < 9. k \<noteq> 4 \<longrightarrow> k \<noteq> 5 \<longrightarrow> bytes ! k = (if k = 7 then ?r ! 7 OR 0x80 else if k = 8 then 4 else ?r ! k)"
    "bytes ! 4 = ucast (htons (of_nat (length bytes - 6)))"
    "bytes ! 5 = ucast (drop_bit 8 (htons (of_nat (length bytes - 6))))" by auto
  have "response_header buf bytes (func OR 0x80)"
    using resp(2,3) func len net_order.response_length_word [OF assms(1) resp(4,5)]
    by (simp add: response_header_def nth_append)
  with resp(1-3) disp net_order.handle_request [OF assms(1,3) len, of junk api] show ?thesis
    by (intro exI [of _ bytes]) simp
qed

text \<open>The read event acts exactly when the buffer holds a whole frame, whose length is its six bytes of header
  plus the length word; then it handles the frame once and removes it, and nothing else, from the buffer.\<close>

theorem modbus_ev_handler_framing:
  assumes "net_order ntohs htons"
    and "length junk = response_size" and "wf_api api" and "coils_size api \<le> 2040"
    and "discrete_inputs_size api \<le> 2040" and "13 \<le> length recv"
  defines "frame \<equiv> unat (be16 (recv ! 4) (recv ! 5)) + 6"
  shows "\<exists>api' sent. modbus_ev_handler ntohs htons junk recv MG_EV_READ (Some api) =
     Inr (if length recv < frame then recv else drop frame recv, Some api', sent) \<and> wf_api api' \<and>
     (sent \<noteq> None \<longleftrightarrow> 12 \<le> frame \<and> frame \<le> length recv) \<and> (length recv < frame \<longrightarrow> api' = api)"
proof -
  have l: "load16 recv 4 = Inr (ucast (recv ! 4) OR push_bit 8 (ucast (recv ! 5)))"
    using assms(6) by (simp add: load16_def)
  have h: "unat (ntohs (ucast (recv ! 4) OR push_bit 8 (ucast (recv ! 5)))) + 6 = frame"
    using net_order.ntohs_load [OF assms(1)] by (simp add: frame_def)
  show ?thesis
  proof (cases "length recv < frame")
    case True
    with assms(3,6) l h show ?thesis by (simp add: modbus_ev_handler_def modbus_ev_read_def Let_def)
  next
    case False
    have "\<exists>api' sent. handle_modbus_pdu ntohs htons junk recv frame (Some api) = Inr (Some api', sent) \<and>
        wf_api api' \<and> (sent = None \<longleftrightarrow> frame < 12)"
      using handle_safe [OF assms(3,4,5,2,6), of frame ntohs htons] False by auto
    with False assms(6) l h show ?thesis
      by (auto simp: modbus_ev_handler_def modbus_ev_read_def Let_def)
  qed
qed

section \<open>Examples\<close>

text \<open>Ten coils, no registers, no callbacks.\<close>

definition sample_api :: "unit modbus_api" where
  "sample_api = \<lparr>coils_data = Some [1, 0, 1, 0, 0, 1, 1, 0, 0, 1], coils_size = 10, coils_read_cb = None,
     coils_write_cb = None, coils_context = (), holdings_data = None, holdings_size = 0, holdings_cb = None,
     holdings_context = (), discrete_inputs_data = None, discrete_inputs_size = 0, discrete_inputs_cb = None,
     discrete_inputs_context = ()\<rparr>"

definition sample_read :: "u8 list" where
  "sample_read = [0, 7, 0, 0, 0, 6, 1, 1, 0, 2, 0, 5]"

definition sample_write :: "u8 list" where
  "sample_write = [0, 7, 0, 0, 0, 8, 1, 15, 0, 2, 0, 5, 1, 22]"

lemma sample_api_ok: "wf_api sample_api"
  by (simp add: sample_api_def wf_api_def data_ok_def)

lemma sample_requests:
  "request sample_read 1 2 5" "request sample_write 15 2 5" "in_range 2 5 10"
  by (simp_all add: request_def sample_read_def sample_write_def be16_def in_range_def)

lemma sample_fields:
  "coils_data sample_api = Some [1, 0, 1, 0, 0, 1, 1, 0, 0, 1]" "coils_size sample_api = 10"
  "coils_read_cb sample_api = None" "coils_write_cb sample_api = None" "discrete_inputs_size sample_api = 0"
  "length sample_read = 12" "length sample_write = 14" "sample_write ! 12 = 1" "sample_write ! 13 = 22"
  by (simp_all add: sample_api_def sample_read_def sample_write_def)

lemma length_junk: "length (replicate 260 (0 :: u8)) = response_size"
  by (simp add: response_size_def)

lemmas sample_facts = sample_api_ok sample_requests le_target.net_order_axioms sample_fields



lemma write_multiple_coils_effect_witness:
  "\<exists>coils' bytes. handle_modbus_pdu swap16 swap16 (replicate 260 0) sample_write (length sample_write) (Some sample_api) =
       Inr (Some (sample_api\<lparr>coils_data := Some coils'\<rparr>), Some bytes) \<and>
     length coils' = length [1, 0, 1, 0, 0, 1, 1, 0, 0, 1 :: u8] \<and> bits_frame sample_write 13 coils' 2 5 \<and>
     (\<forall>k < length [1, 0, 1, 0, 0, 1, 1, 0, 0, 1 :: u8]. k < unat (2 :: u16) \<or> unat (2 :: u16) + unat (5 :: u16) \<le> k \<longrightarrow>
        coils' ! k = [1, 0, 1, 0, 0, 1, 1, 0, 0, 1] ! k) \<and>
     length bytes = 12 \<and> response_header sample_write bytes 15 \<and> drop 8 bytes = take 4 (drop 8 sample_write)"
  by (rule write_multiple_coils_effect) (simp_all add: sample_facts response_size_def)

lemma coils_write_read_roundtrip_witness:
  "\<exists>api' r bytes.
     handle_modbus_pdu swap16 swap16 (replicate 260 0) sample_write (length sample_write) (Some sample_api) =
       Inr (Some api', Some r) \<and>
     handle_modbus_pdu swap16 swap16 (replicate 260 0) sample_read (length sample_read) (Some api') =
       Inr (Some api', Some bytes) \<and>
     (\<forall>k < (unat (5 :: u16) + 7) div 8. \<forall>b < 8. 8 * k + b < unat (5 :: u16) \<longrightarrow>
        bit (bytes ! (9 + k)) b = bit (sample_write ! (13 + k)) b)"
  by (rule coils_write_read_roundtrip [where start = 2 and num = 5]) (simp_all add: sample_facts response_size_def)

text \<open>A table of 2048 coils, read as a whole.\<close>

definition big_api :: "unit modbus_api" where
  "big_api = sample_api\<lparr>coils_data := Some (replicate 2048 0), coils_size := 2048\<rparr>"

definition big_read :: "u8 list" where
  "big_read = [0, 7, 0, 0, 0, 6, 1, 1, 0, 0, 8, 0]"

lemma big_facts:
  "wf_api big_api" "coils_data big_api = Some (replicate 2048 0)" "coils_size big_api = 2048"
  "coils_read_cb big_api = None" "request big_read 1 0 2048" "in_range 0 2048 2048"
  by (simp_all add: big_api_def big_read_def sample_api_def wf_api_def data_ok_def request_def be16_def in_range_def)

lemma read_coils_overflow_witness:
  "handle_modbus_pdu swap16 swap16 (replicate 260 0) big_read (length big_read) (Some big_api) = Inl OutOfBounds"
  by (rule read_coils_overflow [OF le_target.net_order_axioms big_facts(1,2,4,5) length_junk])
    (simp_all add: big_facts)

lemma exception_response_witness:
  "\<exists>bytes. handle_modbus_pdu swap16 swap16 (replicate 260 0) big_read (length big_read) (Some sample_api) =
       Inr (Some sample_api, Some bytes) \<and> length bytes = 9 \<and> response_header big_read bytes (1 OR 0x80) \<and> bytes ! 8 = 4"
  by (rule exception_response [OF le_target.net_order_axioms sample_api_ok big_facts(5) length_junk])
    (simp add: sample_facts in_range_def)

lemma modbus_ev_handler_framing_witness:
  "\<exists>api' sent. modbus_ev_handler swap16 swap16 (replicate 260 0) (sample_write @ [0, 8]) MG_EV_READ (Some sample_api) =
     Inr ([0, 8], Some api', sent) \<and> wf_api api' \<and> sent \<noteq> None"
proof -
  have "be16 ((sample_write @ [0, 8]) ! 4) ((sample_write @ [0, 8]) ! 5) = 8"
    by (simp add: sample_write_def be16_def)
  then show ?thesis
    using modbus_ev_handler_framing [of swap16 swap16 "replicate 260 0" sample_api "sample_write @ [0, 8]"]
    by (simp add: sample_facts response_size_def)
qed

end
