(* ===== verification/Kernel.thy ===== *)
theory Kernel
  imports Prelude
begin

text \<open>
  The kernel layer: status and flag codes (core/base.h), the context tests and scheduler
  calls of core/kernel.c and the critical sections of core/critical.c. The FreeRTOS calls
  and the interrupt primitives of the port are parameters; the locales \<open>scheduler\<close> and
  \<open>critical_port\<close> state what FreeRTOS documents of them. The lemmas show that a delay until
  a tick compares ticks across the wrap of the counter, that lock and restore bracket only
  an unlocked kernel, and that critical sections nest.
\<close>

section \<open>Status codes\<close>

datatype rhs_status = RHSStatusOk | RHSStatusError | RHSStatusErrorTimeout | RHSStatusErrorResource
  | RHSStatusErrorParameter | RHSStatusErrorNoMemory | RHSStatusErrorISR | RHSStatusReserved

definition status_code :: "rhs_status \<Rightarrow> u32" where
  "status_code s = (case s of
     RHSStatusOk \<Rightarrow> 0x00000000 | RHSStatusError \<Rightarrow> 0xFFFFFFFF | RHSStatusErrorTimeout \<Rightarrow> 0xFFFFFFFE
   | RHSStatusErrorResource \<Rightarrow> 0xFFFFFFFD | RHSStatusErrorParameter \<Rightarrow> 0xFFFFFFFC
   | RHSStatusErrorNoMemory \<Rightarrow> 0xFFFFFFFB | RHSStatusErrorISR \<Rightarrow> 0xFFFFFFFA | RHSStatusReserved \<Rightarrow> 0x7FFFFFFF)"

definition RHSWaitForever :: u32 where "RHSWaitForever = 0xFFFFFFFF"

definition RHSFlagWaitAny :: u32 where "RHSFlagWaitAny = 0"
definition RHSFlagWaitAll :: u32 where "RHSFlagWaitAll = 1"
definition RHSFlagNoClear :: u32 where "RHSFlagNoClear = 2"
definition RHSFlagErrorResource :: u32 where "RHSFlagErrorResource = 0xFFFFFFFD"

section \<open>The execution context\<close>

text \<open>
  The values a call reads from the processor and the scheduler: the IPSR and PRIMASK
  registers and the scheduler state.
\<close>

datatype sched_state = SCHEDULER_SUSPENDED | SCHEDULER_NOT_STARTED | SCHEDULER_RUNNING

record ctx =
  ipsr :: u32
  primask :: u32
  sched :: sched_state

definition RHS_IS_IRQ_MODE :: "ctx \<Rightarrow> bool" where
  "RHS_IS_IRQ_MODE c \<longleftrightarrow> ipsr c \<noteq> 0"

definition RHS_IS_IRQ_MASKED :: "ctx \<Rightarrow> bool" where
  "RHS_IS_IRQ_MASKED c \<longleftrightarrow> primask c \<noteq> 0"

definition RHS_IS_ISR :: "ctx \<Rightarrow> bool" where
  "RHS_IS_ISR c \<longleftrightarrow> RHS_IS_IRQ_MODE c \<or> RHS_IS_IRQ_MASKED c"

definition rhs_kernel_is_irq_or_masked :: "ctx \<Rightarrow> bool" where
  "rhs_kernel_is_irq_or_masked c =
     (if RHS_IS_IRQ_MODE c then True
      else if sched c \<noteq> SCHEDULER_NOT_STARTED then (if RHS_IS_IRQ_MASKED c then True else False)
      else False)"

definition rhs_kernel_is_running :: "ctx \<Rightarrow> bool" where
  "rhs_kernel_is_running c \<longleftrightarrow> sched c = SCHEDULER_RUNNING"

text \<open>A context of a plain task: not in an interrupt, nothing masked, the scheduler running.\<close>

definition task_ctx :: ctx where
  "task_ctx = \<lparr>ipsr = 0, primask = 0, sched = SCHEDULER_RUNNING\<rparr>"

definition isr_ctx :: ctx where
  "isr_ctx = \<lparr>ipsr = 16, primask = 0, sched = SCHEDULER_RUNNING\<rparr>"

lemma ctx_simps [simp]:
  "\<not> rhs_kernel_is_irq_or_masked task_ctx" "\<not> RHS_IS_IRQ_MODE task_ctx"
  "rhs_kernel_is_irq_or_masked isr_ctx" "RHS_IS_IRQ_MODE isr_ctx"
  by (simp_all add: rhs_kernel_is_irq_or_masked_def RHS_IS_IRQ_MODE_def RHS_IS_IRQ_MASKED_def task_ctx_def isr_ctx_def)

section \<open>Scheduler lock\<close>

text \<open>
  The FreeRTOS calls on a kernel state \<open>'k\<close>. \<open>xTaskResumeAll\<close> returns whether resuming
  switched the context.
\<close>

record 'k sched_api =
  xTaskGetSchedulerState :: "'k \<Rightarrow> sched_state"
  vTaskSuspendAll :: "'k \<Rightarrow> 'k"
  xTaskResumeAll :: "'k \<Rightarrow> bool \<times> 'k"

text \<open>
  \<open>c\<close> is the interrupt state of the caller; \<open>configASSERT\<close> stops like \<open>rhs_assert\<close>. The
  results are signed; \<open>RHSStatusError\<close> is \<open>-1\<close>.
\<close>

definition ctx_of :: "'k sched_api \<Rightarrow> ctx \<Rightarrow> 'k \<Rightarrow> ctx" where
  "ctx_of A c k = c\<lparr>sched := xTaskGetSchedulerState A k\<rparr>"

definition rhs_kernel_lock :: "'k sched_api \<Rightarrow> ctx \<Rightarrow> 'k \<Rightarrow> (int \<times> 'k) res" where
  "rhs_kernel_lock A c k =
     rhs_assert (\<not> rhs_kernel_is_irq_or_masked (ctx_of A c k))
       (case xTaskGetSchedulerState A k of
          SCHEDULER_SUSPENDED \<Rightarrow> Inr (1, k)
        | SCHEDULER_RUNNING \<Rightarrow> Inr (0, vTaskSuspendAll A k)
        | SCHEDULER_NOT_STARTED \<Rightarrow> Inr (-1, k))"

definition rhs_kernel_unlock :: "'k sched_api \<Rightarrow> ctx \<Rightarrow> 'k \<Rightarrow> (int \<times> 'k) res" where
  "rhs_kernel_unlock A c k =
     rhs_assert (\<not> rhs_kernel_is_irq_or_masked (ctx_of A c k))
       (case xTaskGetSchedulerState A k of
          SCHEDULER_SUSPENDED \<Rightarrow>
            (let (switched, k') = xTaskResumeAll A k
             in Inr (if \<not> switched \<and> xTaskGetSchedulerState A k' = SCHEDULER_SUSPENDED then -1 else 1, k'))
        | SCHEDULER_RUNNING \<Rightarrow> Inr (0, k)
        | SCHEDULER_NOT_STARTED \<Rightarrow> Inr (-1, k))"

definition rhs_kernel_restore_lock :: "'k sched_api \<Rightarrow> ctx \<Rightarrow> int \<Rightarrow> 'k \<Rightarrow> (int \<times> 'k) res" where
  "rhs_kernel_restore_lock A c lock k =
     rhs_assert (\<not> rhs_kernel_is_irq_or_masked (ctx_of A c k))
       (case xTaskGetSchedulerState A k of
          SCHEDULER_NOT_STARTED \<Rightarrow> Inr (-1, k)
        | _ \<Rightarrow>
            if lock = 1 then Inr (lock, vTaskSuspendAll A k)
            else if lock \<noteq> 0 then Inr (-1, k)
            else let (switched, k') = xTaskResumeAll A k
                 in Inr (if \<not> switched \<and> xTaskGetSchedulerState A k' \<noteq> SCHEDULER_RUNNING then -1 else lock, k'))"

text \<open>
  The documented behaviour: suspensions are counted, and \<open>xTaskResumeAll\<close> undoes one of
  them and can switch the context only when none is left.
\<close>

locale scheduler =
  fixes A :: "'k sched_api" and depth :: "'k \<Rightarrow> nat" and started :: "'k \<Rightarrow> bool"
  assumes state_of: "xTaskGetSchedulerState A k =
      (if \<not> started k then SCHEDULER_NOT_STARTED
       else if depth k = 0 then SCHEDULER_RUNNING else SCHEDULER_SUSPENDED)"
    and suspend: "depth (vTaskSuspendAll A k) = Suc (depth k)" "started (vTaskSuspendAll A k) = started k"
    and resume: "started (snd (xTaskResumeAll A k)) = started k"
      "0 < depth k \<Longrightarrow> depth (snd (xTaskResumeAll A k)) = depth k - 1"
      "fst (xTaskResumeAll A k) \<Longrightarrow> depth k = 1"
begin

lemma lock_restore_depth:
  assumes "started k" and "ipsr c = 0" and "primask c = 0"
  shows "\<exists>l k1 l' k2. rhs_kernel_lock A c k = Inr (l, k1) \<and> 0 < depth k1 \<and>
     rhs_kernel_restore_lock A c l k1 = Inr (l', k2) \<and> started k2 \<and>
     depth k2 = (if depth k = 0 then 0 else Suc (depth k))"
proof -
  have irq: "\<not> rhs_kernel_is_irq_or_masked (ctx_of A c k')" for k'
    using assms(2,3) by (simp add: rhs_kernel_is_irq_or_masked_def RHS_IS_IRQ_MODE_def RHS_IS_IRQ_MASKED_def ctx_of_def)
  show ?thesis
  proof (cases "depth k")
    case 0
    obtain sw k2 where k2: "xTaskResumeAll A (vTaskSuspendAll A k) = (sw, k2)" by fastforce
    then have "started k2" "depth k2 = 0"
      using resume(1,2) [of "vTaskSuspendAll A k"] assms(1) 0 by (simp_all add: suspend)
    with 0 k2 assms(1) show ?thesis
      by (simp add: rhs_kernel_lock_def rhs_kernel_restore_lock_def irq state_of suspend)
  next
    case (Suc n)
    then show ?thesis using assms(1)
      by (auto simp: rhs_kernel_lock_def rhs_kernel_restore_lock_def irq state_of suspend)
  qed
qed

lemma lock_unlock_depth:
  assumes "started k" and "ipsr c = 0" and "primask c = 0" and "depth k = 0"
  shows "\<exists>k1 k2. rhs_kernel_lock A c k = Inr (0, k1) \<and> xTaskGetSchedulerState A k1 = SCHEDULER_SUSPENDED \<and>
     rhs_kernel_unlock A c k1 = Inr (1, k2) \<and> xTaskGetSchedulerState A k2 = SCHEDULER_RUNNING"
proof -
  have irq: "\<not> rhs_kernel_is_irq_or_masked (ctx_of A c k')" for k'
    using assms(2,3) by (simp add: rhs_kernel_is_irq_or_masked_def RHS_IS_IRQ_MODE_def RHS_IS_IRQ_MASKED_def ctx_of_def)
  obtain sw k2 where k2: "xTaskResumeAll A (vTaskSuspendAll A k) = (sw, k2)" by fastforce
  then have "started k2" "depth k2 = 0"
    using resume(1,2) [of "vTaskSuspendAll A k"] assms(1,4) by (simp_all add: suspend)
  with k2 assms(1,4) show ?thesis
    by (simp add: rhs_kernel_lock_def rhs_kernel_unlock_def irq state_of suspend)
qed

end

text \<open>A scheduler that counts its suspensions, as an instance.\<close>

definition counting_sched :: "(bool \<times> nat) sched_api" where
  "counting_sched = \<lparr>
     xTaskGetSchedulerState = (\<lambda>(on, d). if \<not> on then SCHEDULER_NOT_STARTED
        else if d = 0 then SCHEDULER_RUNNING else SCHEDULER_SUSPENDED),
     vTaskSuspendAll = (\<lambda>(on, d). (on, Suc d)),
     xTaskResumeAll = (\<lambda>(on, d). (False, (on, d - 1)))\<rparr>"

interpretation counting: scheduler counting_sched snd fst
  by unfold_locales (auto simp: counting_sched_def split: prod.splits)

section \<open>Delays\<close>

text \<open>What a delay asks of the kernel.\<close>

datatype delay_call = TaskYIELD | TaskDelay u32 | TaskDelayUntil u32 u32 | DelayUs u32

definition rhs_delay_tick :: "ctx \<Rightarrow> u32 \<Rightarrow> delay_call res" where
  "rhs_delay_tick c ticks =
     rhs_assert (\<not> rhs_kernel_is_irq_or_masked c)
       (if ticks = 0 then Inr TaskYIELD else Inr (TaskDelay ticks))"

text \<open>\<open>now\<close> is the tick counter.\<close>

definition rhs_delay_until_tick :: "ctx \<Rightarrow> u32 \<Rightarrow> u32 \<Rightarrow> (rhs_status \<times> delay_call option) res" where
  "rhs_delay_until_tick c now tick =
     rhs_assert (\<not> rhs_kernel_is_irq_or_masked c)
       (let delay = tick - now
        in if delay \<noteq> 0 \<and> drop_bit 31 delay = 0 then Inr (RHSStatusOk, Some (TaskDelayUntil now delay))
           else Inr (RHSStatusErrorParameter, None))"

text \<open>
  \<open>now\<close> and \<open>now_isr\<close> are the answers of \<open>xTaskGetTickCount\<close> and its interrupt variant.
\<close>

definition rhs_get_tick :: "ctx \<Rightarrow> u32 \<Rightarrow> u32 \<Rightarrow> u32" where
  "rhs_get_tick c now now_isr = (if rhs_kernel_is_irq_or_masked c then now_isr else now)"

text \<open>\<open>hz\<close> is \<open>configTICK_RATE_HZ\<close>; \<open>scale\<close> stands for the conversion in single precision.\<close>

definition rhs_ms_to_ticks :: "(u32 \<Rightarrow> u32 \<Rightarrow> u32) \<Rightarrow> u32 \<Rightarrow> u32 \<Rightarrow> u32" where
  "rhs_ms_to_ticks scale hz ms = (if hz = 1000 then ms else scale hz ms)"

definition rhs_delay_ms :: "(u32 \<Rightarrow> u32 \<Rightarrow> u32) \<Rightarrow> u32 \<Rightarrow> ctx \<Rightarrow> u32 \<Rightarrow> delay_call option res" where
  "rhs_delay_ms scale hz c ms =
     (if \<not> RHS_IS_ISR c \<and> sched c = SCHEDULER_RUNNING then
        let ms' = (if ms > 0 \<and> ms < 0xFFFFFFFF - 1 then ms + 1 else ms)
        in rbind (rhs_delay_tick c (rhs_ms_to_ticks scale hz ms')) (\<lambda>d. Inr (Some d))
      else if ms > 0 then Inr (Some (DelayUs (ms * 1000)))
      else Inr None)"

section \<open>Critical sections\<close>

text \<open>
  The interrupt state of the processor: PRIMASK, the priority mask BASEPRI and the nesting
  counter of the port. \<open>ipsr\<close> and the scheduler state do not change inside a section.
\<close>

record cpu =
  cpu_primask :: u32
  cpu_basepri :: u32
  cpu_nesting :: nat

record port_api =
  taskENTER_CRITICAL_FROM_ISR :: "cpu \<Rightarrow> u32 \<times> cpu"
  taskEXIT_CRITICAL_FROM_ISR :: "u32 \<Rightarrow> cpu \<Rightarrow> cpu"
  taskENTER_CRITICAL :: "cpu \<Rightarrow> cpu"
  taskEXIT_CRITICAL :: "cpu \<Rightarrow> cpu"

record critical_info =
  isrm :: u32
  from_isr :: bool
  kernel_running :: bool

definition disable_irq :: "cpu \<Rightarrow> cpu" where "disable_irq p = p\<lparr>cpu_primask := 1\<rparr>"
definition enable_irq :: "cpu \<Rightarrow> cpu" where "enable_irq p = p\<lparr>cpu_primask := 0\<rparr>"

text \<open>\<open>c\<close> gives IPSR and the scheduler state; PRIMASK is read from the processor state.\<close>

definition rhs_critical_enter :: "port_api \<Rightarrow> ctx \<Rightarrow> cpu \<Rightarrow> critical_info \<times> cpu" where
  "rhs_critical_enter P c p =
     (let isr = RHS_IS_ISR (c\<lparr>primask := cpu_primask p\<rparr>); running = (sched c = SCHEDULER_RUNNING)
      in if isr then
           let (m, p') = taskENTER_CRITICAL_FROM_ISR P p
           in (\<lparr>isrm = m, from_isr = isr, kernel_running = running\<rparr>, p')
         else if running then
           (\<lparr>isrm = 0, from_isr = isr, kernel_running = running\<rparr>, taskENTER_CRITICAL P p)
         else (\<lparr>isrm = 0, from_isr = isr, kernel_running = running\<rparr>, disable_irq p))"

definition rhs_critical_exit :: "port_api \<Rightarrow> critical_info \<Rightarrow> cpu \<Rightarrow> cpu" where
  "rhs_critical_exit P info p =
     (if from_isr info then taskEXIT_CRITICAL_FROM_ISR P (isrm info) p
      else if kernel_running info then taskEXIT_CRITICAL P p
      else enable_irq p)"

text \<open>
  The Cortex-M port: entering raises BASEPRI; the interrupt variant returns the old mask
  and its exit restores it; the task variant counts, and its last exit clears the mask.
\<close>

locale critical_port =
  fixes P :: port_api and max_mask :: u32
  assumes mask_nonzero: "max_mask \<noteq> 0"
    and enter_isr: "taskENTER_CRITICAL_FROM_ISR P p = (cpu_basepri p, p\<lparr>cpu_basepri := max_mask\<rparr>)"
    and exit_isr: "taskEXIT_CRITICAL_FROM_ISR P m p = p\<lparr>cpu_basepri := m\<rparr>"
    and enter_task: "taskENTER_CRITICAL P p = p\<lparr>cpu_basepri := max_mask, cpu_nesting := Suc (cpu_nesting p)\<rparr>"
    and exit_task: "0 < cpu_nesting p \<Longrightarrow> taskEXIT_CRITICAL P p =
      p\<lparr>cpu_nesting := cpu_nesting p - 1, cpu_basepri := (if cpu_nesting p = 1 then 0 else cpu_basepri p)\<rparr>"

definition port_cm4 :: port_api where
  "port_cm4 = \<lparr>
     taskENTER_CRITICAL_FROM_ISR = (\<lambda>p. (cpu_basepri p, p\<lparr>cpu_basepri := 0x50\<rparr>)),
     taskEXIT_CRITICAL_FROM_ISR = (\<lambda>m p. p\<lparr>cpu_basepri := m\<rparr>),
     taskENTER_CRITICAL = (\<lambda>p. p\<lparr>cpu_basepri := 0x50, cpu_nesting := Suc (cpu_nesting p)\<rparr>),
     taskEXIT_CRITICAL = (\<lambda>p. p\<lparr>cpu_nesting := cpu_nesting p - 1,
        cpu_basepri := (if cpu_nesting p = 1 then 0 else cpu_basepri p)\<rparr>)\<rparr>"

interpretation cm4: critical_port port_cm4 "0x50"
  by unfold_locales (simp_all add: port_cm4_def)

text \<open>A tree of nested sections, run in the order of the calls.\<close>

datatype sections = Sections "sections list"

fun run_sections :: "port_api \<Rightarrow> ctx \<Rightarrow> sections \<Rightarrow> cpu \<Rightarrow> cpu"
  and run_section_list :: "port_api \<Rightarrow> ctx \<Rightarrow> sections list \<Rightarrow> cpu \<Rightarrow> cpu" where
  "run_sections P c (Sections ss) p =
     (let (info, p') = rhs_critical_enter P c p in rhs_critical_exit P info (run_section_list P c ss p'))"
| "run_section_list P c [] p = p"
| "run_section_list P c (s # ss) p = run_section_list P c ss (run_sections P c s p)"

text \<open>Outside the nesting of the port the mask is clear; inside it is raised.\<close>

definition balanced :: "u32 \<Rightarrow> cpu \<Rightarrow> bool" where
  "balanced max_mask p \<longleftrightarrow> cpu_nesting p \<noteq> 0 \<longrightarrow> cpu_basepri p = max_mask"

definition irq_open :: "cpu \<Rightarrow> bool" where
  "irq_open p \<longleftrightarrow> cpu_primask p = 0 \<and> cpu_basepri p = 0"

definition entry_ok :: "u32 \<Rightarrow> ctx \<Rightarrow> cpu \<Rightarrow> bool" where
  "entry_ok max_mask c p \<longleftrightarrow> balanced max_mask p \<and>
     (cpu_nesting p = 0 \<longrightarrow> cpu_basepri p = 0 \<or> ipsr c \<noteq> 0 \<or> cpu_primask p \<noteq> 0)"

context critical_port begin

lemma enter_exit:
  assumes "entry_ok max_mask c p"
  shows "rhs_critical_exit P (fst (rhs_critical_enter P c p)) (snd (rhs_critical_enter P c p)) = p"
    and "entry_ok max_mask c (snd (rhs_critical_enter P c p))"
    and "\<not> irq_open (snd (rhs_critical_enter P c p))"
  using assms mask_nonzero
  by (auto simp: rhs_critical_enter_def rhs_critical_exit_def Let_def enter_isr exit_isr enter_task exit_task
      RHS_IS_ISR_def RHS_IS_IRQ_MODE_def RHS_IS_IRQ_MASKED_def disable_irq_def enable_irq_def balanced_def
      irq_open_def entry_ok_def)

lemma run_section_list_id:
  assumes "\<And>s p. s \<in> set ss \<Longrightarrow> entry_ok max_mask c p \<Longrightarrow> run_sections P c s p = p"
    and "entry_ok max_mask c p"
  shows "run_section_list P c ss p = p"
  using assms by (induction ss) auto

lemma run_sections_id:
  "entry_ok max_mask c p \<Longrightarrow> run_sections P c s p = p"
proof (induction s arbitrary: p)
  case (Sections ss)
  note e = enter_exit [OF Sections.prems]
  have "run_section_list P c ss (snd (rhs_critical_enter P c p)) = snd (rhs_critical_enter P c p)"
    by (rule run_section_list_id [OF Sections.IH e(2)])
  with e(1) show ?case by (simp add: case_prod_beta)
qed

end

section \<open>Properties\<close>

text \<open>C4: \<open>rhs_delay_until_tick\<close> delays by exactly the distance to the target tick when the target lies ahead in
  the signed sense, also across the wrap of the tick counter, and reports a parameter error otherwise.\<close>

theorem rhs_delay_until_tick_signed:
  assumes "\<not> rhs_kernel_is_irq_or_masked c"
  shows "rhs_delay_until_tick c now tick =
     Inr (if 0 < sint (tick - now) then (RHSStatusOk, Some (TaskDelayUntil now (tick - now)))
          else (RHSStatusErrorParameter, None))"
proof -
  let ?d = "tick - now"
  have "bit ?d (31 + n) \<longleftrightarrow> n = 0 \<and> bit ?d 31" for n
    using bit_imp_le_length [of ?d "31 + n"] by (cases n) auto
  then have "(\<forall>n. \<not> bit ?d (31 + n)) \<longleftrightarrow> \<not> bit ?d 31" by auto
  moreover have "drop_bit 31 ?d = 0 \<longleftrightarrow> (\<forall>n. \<not> bit ?d (31 + n))"
  proof -
    have "bit ?d (31 + n) \<Longrightarrow> n < 32" for n using bit_imp_le_length [of ?d "31 + n"] by simp
    then show ?thesis by (auto simp: bit_eq_iff [where 'a = "32 word"] bit_drop_bit_eq)
  qed
  ultimately have "drop_bit 31 ?d = 0 \<longleftrightarrow> \<not> bit ?d 31" by simp
  moreover have "bit ?d 31 \<longleftrightarrow> sint ?d < 0"
    using bit_last_iff [of ?d] by simp
  moreover have "?d = 0 \<longleftrightarrow> sint ?d = 0" by (metis signed_0 signed_word_eqI)
  ultimately show ?thesis using assms
    by (auto simp: rhs_delay_until_tick_def Let_def)
qed

text \<open>Locking and unlocking a running kernel suspends the scheduler in between and leaves it running.\<close>

theorem kernel_lock_unlock:
  assumes "scheduler A depth started" and "started k" and "depth k = 0" and "ipsr c = 0" and "primask c = 0"
  shows "\<exists>k1 k2. rhs_kernel_lock A c k = Inr (0, k1) \<and> xTaskGetSchedulerState A k1 = SCHEDULER_SUSPENDED \<and>
     rhs_kernel_unlock A c k1 = Inr (1, k2) \<and> xTaskGetSchedulerState A k2 = SCHEDULER_RUNNING"
  by (rule scheduler.lock_unlock_depth [OF assms(1,2,4,5,3)])

text \<open>\<open>rhs_kernel_restore_lock\<close> with the state that \<open>rhs_kernel_lock\<close> returned undoes the lock of a running
  kernel, but adds a suspension when the kernel was already locked: nested pairs leave the scheduler suspended.\<close>

theorem kernel_lock_restore_nested:
  assumes "scheduler A depth started" and "started k" and "ipsr c = 0" and "primask c = 0"
  shows "\<exists>l k1 l' k2. rhs_kernel_lock A c k = Inr (l, k1) \<and> 0 < depth k1 \<and>
     rhs_kernel_restore_lock A c l k1 = Inr (l', k2) \<and>
     depth k2 = (if depth k = 0 then 0 else Suc (depth k))"
  using scheduler.lock_restore_depth [OF assms] by blast

text \<open>Nested critical sections, from a task, an interrupt or before the scheduler runs, keep interrupts blocked
  and restore the interrupt state of the entry when the outermost one exits.\<close>

theorem critical_sections_nest:
  assumes "critical_port P max_mask" and "entry_ok max_mask c p"
  shows "run_sections P c s p = p \<and> \<not> irq_open (snd (rhs_critical_enter P c p))"
  using critical_port.run_sections_id [OF assms] critical_port.enter_exit(3) [OF assms] by blast

lemma rhs_delay_until_tick_signed_witness:
  "rhs_delay_until_tick task_ctx 0xFFFFFFF0 0x10 = Inr (RHSStatusOk, Some (TaskDelayUntil 0xFFFFFFF0 0x20))"
  using rhs_delay_until_tick_signed [of task_ctx "0xFFFFFFF0" "0x10"] by simp

lemma kernel_lock_unlock_witness:
  "\<exists>k1 k2. rhs_kernel_lock counting_sched task_ctx (True, 0) = Inr (0, k1) \<and>
     xTaskGetSchedulerState counting_sched k1 = SCHEDULER_SUSPENDED \<and>
     rhs_kernel_unlock counting_sched task_ctx k1 = Inr (1, k2) \<and>
     xTaskGetSchedulerState counting_sched k2 = SCHEDULER_RUNNING"
  by (rule kernel_lock_unlock [OF counting.scheduler_axioms]) (simp_all add: task_ctx_def)

lemma kernel_lock_restore_nested_witness:
  "\<exists>l k1 l' k2. rhs_kernel_lock counting_sched task_ctx (True, 1) = Inr (l, k1) \<and> 0 < snd k1 \<and>
     rhs_kernel_restore_lock counting_sched task_ctx l k1 = Inr (l', k2) \<and>
     snd k2 = (if snd (True, 1 :: nat) = 0 then 0 else Suc (snd (True, 1)))"
  by (rule kernel_lock_restore_nested [OF counting.scheduler_axioms]) (simp_all add: task_ctx_def)

lemma critical_sections_nest_witness:
  "run_sections port_cm4 task_ctx (Sections [Sections [], Sections [Sections []]]) \<lparr>cpu_primask = 0, cpu_basepri = 0, cpu_nesting = 0\<rparr> =
     \<lparr>cpu_primask = 0, cpu_basepri = 0, cpu_nesting = 0\<rparr> \<and>
   \<not> irq_open (snd (rhs_critical_enter port_cm4 task_ctx \<lparr>cpu_primask = 0, cpu_basepri = 0, cpu_nesting = 0\<rparr>))"
  by (rule critical_sections_nest [OF cm4.critical_port_axioms]) (simp add: entry_ok_def balanced_def)

end
