(* ===== verification/Semaphore.thy ===== *)
theory Semaphore
  imports Kernel
begin

text \<open>
  The counting semaphore of core/semaphore.c over FreeRTOS. A semaphore object is the two
  fields the code reads: the count (\<open>uxMessagesWaiting\<close>) and the limit (\<open>uxLength\<close>). The
  FreeRTOS calls are parameters under the locale \<open>rtos_semaphore\<close>. The lemmas show that
  the operations from tasks and interrupts implement a bounded counter.
\<close>

section \<open>The semaphore object and the calls\<close>

record sem_obj =
  sem_count :: u32
  sem_max :: u32

record sem_api =
  xSemaphoreCreateBinaryStatic :: sem_obj
  xSemaphoreCreateCountingStatic :: "u32 \<Rightarrow> u32 \<Rightarrow> sem_obj"
  xSemaphoreTake :: "sem_obj \<Rightarrow> u32 \<Rightarrow> (bool \<times> sem_obj) option"
  xSemaphoreTakeFromISR :: "sem_obj \<Rightarrow> bool \<times> bool \<times> sem_obj"
  xSemaphoreGive :: "sem_obj \<Rightarrow> bool \<times> sem_obj"
  xSemaphoreGiveFromISR :: "sem_obj \<Rightarrow> bool \<times> bool \<times> sem_obj"
  uxSemaphoreGetCount :: "sem_obj \<Rightarrow> u32"
  uxSemaphoreGetCountFromISR :: "sem_obj \<Rightarrow> u32"
  sem_spaces_available :: "sem_obj \<Rightarrow> u32"

section \<open>Operations\<close>

definition rhs_semaphore_alloc :: "sem_api \<Rightarrow> ctx \<Rightarrow> u32 \<Rightarrow> u32 \<Rightarrow> sem_obj res" where
  "rhs_semaphore_alloc A c max_count initial_count =
     rhs_assert (\<not> RHS_IS_IRQ_MODE c)
       (rhs_assert (max_count > 0 \<and> initial_count \<le> max_count)
         (let s = (if max_count = 1 then xSemaphoreCreateBinaryStatic A
                   else xSemaphoreCreateCountingStatic A max_count initial_count)
          in if max_count = 1 \<and> initial_count \<noteq> 0 then
               (case xSemaphoreGive A s of (ok, s') \<Rightarrow> rhs_assert ok (Inr s'))
             else Inr s))"

definition rhs_semaphore_free :: "ctx \<Rightarrow> sem_obj option \<Rightarrow> unit res" where
  "rhs_semaphore_free c inst = rhs_assert (inst \<noteq> None) (rhs_assert (\<not> RHS_IS_IRQ_MODE c) (Inr ()))"

definition rhs_semaphore_acquire :: "sem_api \<Rightarrow> ctx \<Rightarrow> sem_obj \<Rightarrow> u32 \<Rightarrow> (rhs_status \<times> bool \<times> sem_obj) res" where
  "rhs_semaphore_acquire A c s timeout =
     (if RHS_IS_IRQ_MODE c then
        if timeout \<noteq> 0 then Inr (RHSStatusErrorParameter, False, s)
        else (case xSemaphoreTakeFromISR A s of (ok, yield, s') \<Rightarrow>
                if \<not> ok then Inr (RHSStatusErrorResource, False, s') else Inr (RHSStatusOk, yield, s'))
      else
        (case xSemaphoreTake A s timeout of
           None \<Rightarrow> Inl Blocked
         | Some (ok, s') \<Rightarrow>
             if \<not> ok then
               (if timeout \<noteq> 0 then Inr (RHSStatusErrorTimeout, False, s')
                else Inr (RHSStatusErrorResource, False, s'))
             else Inr (RHSStatusOk, False, s')))"

definition rhs_semaphore_release :: "sem_api \<Rightarrow> ctx \<Rightarrow> sem_obj \<Rightarrow> rhs_status \<times> bool \<times> sem_obj" where
  "rhs_semaphore_release A c s =
     (if RHS_IS_IRQ_MODE c then
        (case xSemaphoreGiveFromISR A s of (ok, yield, s') \<Rightarrow>
           if \<not> ok then (RHSStatusErrorResource, False, s') else (RHSStatusOk, yield, s'))
      else
        (case xSemaphoreGive A s of (ok, s') \<Rightarrow>
           if \<not> ok then (RHSStatusErrorResource, False, s') else (RHSStatusOk, False, s')))"

definition rhs_semaphore_get_count :: "sem_api \<Rightarrow> ctx \<Rightarrow> sem_obj \<Rightarrow> u32" where
  "rhs_semaphore_get_count A c s =
     (if RHS_IS_IRQ_MODE c then uxSemaphoreGetCountFromISR A s else uxSemaphoreGetCount A s)"

definition rhs_semaphore_get_space :: "sem_api \<Rightarrow> ctx \<Rightarrow> sem_obj \<Rightarrow> u32" where
  "rhs_semaphore_get_space A c s =
     (if rhs_kernel_is_irq_or_masked c then sem_max s - sem_count s else sem_spaces_available A s)"

section \<open>The FreeRTOS contract\<close>

locale rtos_semaphore =
  fixes A :: sem_api
  assumes create_binary: "xSemaphoreCreateBinaryStatic A = \<lparr>sem_count = 0, sem_max = 1\<rparr>"
    and create_counting: "n \<le> m \<Longrightarrow> xSemaphoreCreateCountingStatic A m n = \<lparr>sem_count = n, sem_max = m\<rparr>"
    and take_some: "sem_count s \<noteq> 0 \<Longrightarrow> xSemaphoreTake A s t = Some (True, s\<lparr>sem_count := sem_count s - 1\<rparr>)"
    and take_none: "sem_count s = 0 \<Longrightarrow> xSemaphoreTake A s 0 = Some (False, s)"
    and take_isr: "\<exists>y. xSemaphoreTakeFromISR A s =
      (if sem_count s = 0 then (False, y, s) else (True, y, s\<lparr>sem_count := sem_count s - 1\<rparr>))"
    and give: "xSemaphoreGive A s =
      (if sem_count s = sem_max s then (False, s) else (True, s\<lparr>sem_count := sem_count s + 1\<rparr>))"
    and give_isr: "\<exists>y. xSemaphoreGiveFromISR A s =
      (if sem_count s = sem_max s then (False, y, s) else (True, y, s\<lparr>sem_count := sem_count s + 1\<rparr>))"
    and count: "uxSemaphoreGetCount A s = sem_count s" "uxSemaphoreGetCountFromISR A s = sem_count s"
    and spaces: "sem_spaces_available A s = sem_max s - sem_count s"

definition counter_sem :: sem_api where
  "counter_sem = \<lparr>
     xSemaphoreCreateBinaryStatic = \<lparr>sem_count = 0, sem_max = 1\<rparr>,
     xSemaphoreCreateCountingStatic = (\<lambda>m n. \<lparr>sem_count = n, sem_max = m\<rparr>),
     xSemaphoreTake = (\<lambda>s t. if sem_count s = 0 then (if t = RHSWaitForever then None else Some (False, s))
        else Some (True, s\<lparr>sem_count := sem_count s - 1\<rparr>)),
     xSemaphoreTakeFromISR = (\<lambda>s. if sem_count s = 0 then (False, False, s) else (True, False, s\<lparr>sem_count := sem_count s - 1\<rparr>)),
     xSemaphoreGive = (\<lambda>s. if sem_count s = sem_max s then (False, s) else (True, s\<lparr>sem_count := sem_count s + 1\<rparr>)),
     xSemaphoreGiveFromISR = (\<lambda>s. if sem_count s = sem_max s then (False, False, s) else (True, False, s\<lparr>sem_count := sem_count s + 1\<rparr>)),
     uxSemaphoreGetCount = sem_count,
     uxSemaphoreGetCountFromISR = sem_count,
     sem_spaces_available = (\<lambda>s. sem_max s - sem_count s)\<rparr>"

interpretation counter_sem: rtos_semaphore counter_sem
  by unfold_locales (auto simp: counter_sem_def RHSWaitForever_def)

section \<open>The bounded counter\<close>

datatype sem_op = Acquire | Release | GetCount | GetSpace

datatype sem_reply = SemStatus rhs_status | SemNumber nat

fun counter_step :: "nat \<Rightarrow> sem_op \<Rightarrow> nat \<Rightarrow> sem_reply \<times> nat" where
  "counter_step limit Acquire n =
     (if n = 0 then (SemStatus RHSStatusErrorResource, n) else (SemStatus RHSStatusOk, n - 1))"
| "counter_step limit Release n =
     (if n = limit then (SemStatus RHSStatusErrorResource, n) else (SemStatus RHSStatusOk, n + 1))"
| "counter_step limit GetCount n = (SemNumber n, n)"
| "counter_step limit GetSpace n = (SemNumber (limit - n), n)"

fun sem_step :: "sem_api \<Rightarrow> ctx \<Rightarrow> sem_op \<Rightarrow> sem_obj \<Rightarrow> (sem_reply \<times> sem_obj) res" where
  "sem_step A c Acquire s = rbind (rhs_semaphore_acquire A c s 0) (\<lambda>(r, _, s'). Inr (SemStatus r, s'))"
| "sem_step A c Release s = (case rhs_semaphore_release A c s of (r, _, s') \<Rightarrow> Inr (SemStatus r, s'))"
| "sem_step A c GetCount s = Inr (SemNumber (unat (rhs_semaphore_get_count A c s)), s)"
| "sem_step A c GetSpace s = Inr (SemNumber (unat (rhs_semaphore_get_space A c s)), s)"

fun counter_run :: "nat \<Rightarrow> (ctx \<times> sem_op) list \<Rightarrow> nat \<Rightarrow> sem_reply list \<times> nat" where
  "counter_run limit [] n = ([], n)"
| "counter_run limit ((c, op) # ops) n =
     (let (r, n') = counter_step limit op n; (rs, n'') = counter_run limit ops n' in (r # rs, n''))"

fun sem_run :: "sem_api \<Rightarrow> (ctx \<times> sem_op) list \<Rightarrow> sem_obj \<Rightarrow> (sem_reply list \<times> sem_obj) res" where
  "sem_run A [] s = Inr ([], s)"
| "sem_run A ((c, op) # ops) s =
     rbind (sem_step A c op s) (\<lambda>(r, s'). rbind (sem_run A ops s') (\<lambda>(rs, s''). Inr (r # rs, s'')))"

context rtos_semaphore begin

lemma sem_step_refines:
  assumes "sem_count s \<le> sem_max s"
  shows "\<exists>s'. sem_step A c op s = Inr (fst (counter_step (unat (sem_max s)) op (unat (sem_count s))), s') \<and>
     unat (sem_count s') = snd (counter_step (unat (sem_max s)) op (unat (sem_count s))) \<and>
     sem_max s' = sem_max s \<and> sem_count s' \<le> sem_max s'"
proof -
  have ne: "sem_count s \<noteq> 0 \<Longrightarrow> unat (sem_count s - 1) = unat (sem_count s) - 1" by (simp add: unat_sub_if_size unat_gt_0 [symmetric] Suc_le_eq)
  have lt: "sem_count s \<noteq> sem_max s \<Longrightarrow> unat (sem_count s + 1) = Suc (unat (sem_count s))"
    using assms by (intro unat_loop_Suc) (simp add: order_less_le)
  have eq: "unat (sem_count s) = unat (sem_max s) \<longleftrightarrow> sem_count s = sem_max s" by (simp add: word_unat_eq_iff)
  show ?thesis
  proof (cases op)
    case Acquire
    obtain y where "xSemaphoreTakeFromISR A s =
      (if sem_count s = 0 then (False, y, s) else (True, y, s\<lparr>sem_count := sem_count s - 1\<rparr>))" using take_isr by blast
    moreover have "sem_count s \<noteq> 0 \<Longrightarrow> sem_count s - 1 \<le> sem_max s"
      using assms ne by (simp add: word_le_nat_alt)
    ultimately show ?thesis using assms Acquire take_some [of s 0] take_none [of s] ne
      by (cases "sem_count s = 0"; cases "RHS_IS_IRQ_MODE c") (auto simp: rhs_semaphore_acquire_def unat_eq_0)
  next
    case Release
    obtain y where "xSemaphoreGiveFromISR A s =
      (if sem_count s = sem_max s then (False, y, s) else (True, y, s\<lparr>sem_count := sem_count s + 1\<rparr>))" using give_isr by blast
    moreover have "sem_count s \<noteq> sem_max s \<Longrightarrow> sem_count s + 1 \<le> sem_max s"
      using assms by (intro inc_le) (simp add: order_less_le)
    ultimately show ?thesis using assms Release give [of s] lt
      by (cases "sem_count s = sem_max s"; cases "RHS_IS_IRQ_MODE c")
        (auto simp: rhs_semaphore_release_def eq)
  next
    case GetSpace
    have "unat (sem_max s - sem_count s) = unat (sem_max s) - unat (sem_count s)"
      using assms by (simp add: unat_sub)
    with GetSpace assms show ?thesis by (simp add: rhs_semaphore_get_space_def spaces)
  qed (use assms in \<open>simp add: rhs_semaphore_get_count_def count\<close>)
qed

lemma sem_run_refines:
  assumes "sem_count s \<le> sem_max s"
  shows "\<exists>s'. sem_run A ops s = Inr (fst (counter_run (unat (sem_max s)) ops (unat (sem_count s))), s') \<and>
     unat (sem_count s') = snd (counter_run (unat (sem_max s)) ops (unat (sem_count s)))"
  using assms
proof (induction ops arbitrary: s)
  case (Cons a ops)
  obtain c op where a: "a = (c, op)" by fastforce
  obtain s1 where s1: "sem_step A c op s = Inr (fst (counter_step (unat (sem_max s)) op (unat (sem_count s))), s1)"
     "unat (sem_count s1) = snd (counter_step (unat (sem_max s)) op (unat (sem_count s)))"
     "sem_max s1 = sem_max s" "sem_count s1 \<le> sem_max s1"
    using sem_step_refines [OF Cons.prems] by blast
  with Cons.IH [OF s1(4)] show ?case by (auto simp: a split: prod.split)
qed simp

lemma alloc_count:
  assumes "\<not> RHS_IS_IRQ_MODE c" and "0 < m" and "n \<le> m"
  shows "rhs_semaphore_alloc A c m n = Inr \<lparr>sem_count = n, sem_max = m\<rparr>"
proof (cases "m = 1")
  case True
  then have "n = 0 \<or> n = 1" using assms(3) by (simp add: word_le_nat_alt word_unat_eq_iff) linarith
  with True assms show ?thesis
    by (auto simp: rhs_semaphore_alloc_def create_binary give)
next
  case False
  with assms show ?thesis by (simp add: rhs_semaphore_alloc_def create_counting)
qed

end

section \<open>Properties\<close>

text \<open>A semaphore is allocated with its initial count, also when it is binary, and any sequence of non-waiting
  operations from tasks and interrupts returns what a counter between 0 and the limit returns.\<close>

theorem semaphore_is_counter:
  assumes "rtos_semaphore A" and "\<not> RHS_IS_IRQ_MODE c" and "0 < max_count" and "initial_count \<le> max_count"
  shows "\<exists>s s'. rhs_semaphore_alloc A c max_count initial_count = Inr s \<and>
     sem_run A ops s = Inr (fst (counter_run (unat max_count) ops (unat initial_count)), s') \<and>
     unat (sem_count s') = snd (counter_run (unat max_count) ops (unat initial_count))"
  using rtos_semaphore.alloc_count [OF assms]
    rtos_semaphore.sem_run_refines [OF assms(1), of "\<lparr>sem_count = initial_count, sem_max = max_count\<rparr>" ops] assms(4)
  by simp

lemma semaphore_is_counter_witness:
  "\<exists>s s'. rhs_semaphore_alloc counter_sem task_ctx 1 1 = Inr s \<and>
     sem_run counter_sem [(task_ctx, Acquire), (isr_ctx, Acquire), (isr_ctx, Release), (task_ctx, Release)] s =
       Inr (fst (counter_run (unat (1 :: u32))
         [(task_ctx, Acquire), (isr_ctx, Acquire), (isr_ctx, Release), (task_ctx, Release)] (unat (1 :: u32))), s') \<and>
     unat (sem_count s') = snd (counter_run (unat (1 :: u32))
         [(task_ctx, Acquire), (isr_ctx, Acquire), (isr_ctx, Release), (task_ctx, Release)] (unat (1 :: u32)))"
  by (rule semaphore_is_counter [OF counter_sem.rtos_semaphore_axioms]) simp_all

end
