(* ===== verification/Mutex.thy ===== *)
theory Mutex
  imports Kernel
begin

text \<open>
  The mutex of core/mutex.c over FreeRTOS. A mutex object is the type tag the code reads
  (\<open>ucQueueType\<close>), the holder and the recursion depth; the FreeRTOS calls and the two type
  tags are parameters under the locale \<open>rtos_mutex\<close>. The lemmas show mutual exclusion over
  all interleavings of acquires and releases by any number of tasks, and that a recursive
  mutex is free again after as many releases as acquires.
\<close>

section \<open>The mutex object and the calls\<close>

datatype mutex_type = RHSMutexTypeNormal | RHSMutexTypeRecursive

record 't mutex_obj =
  ucQueueType :: u8
  holder :: "'t option"
  rec_depth :: nat

text \<open>The first argument of a call is the running task.\<close>

record 't mutex_api =
  queueQUEUE_TYPE_MUTEX :: u8
  queueQUEUE_TYPE_RECURSIVE_MUTEX :: u8
  xSemaphoreCreateMutexStatic :: "'t mutex_obj"
  xSemaphoreCreateRecursiveMutexStatic :: "'t mutex_obj"
  mutex_take :: "'t \<Rightarrow> 't mutex_obj \<Rightarrow> u32 \<Rightarrow> (bool \<times> 't mutex_obj) option"
  mutex_take_recursive :: "'t \<Rightarrow> 't mutex_obj \<Rightarrow> u32 \<Rightarrow> (bool \<times> 't mutex_obj) option"
  mutex_give :: "'t \<Rightarrow> 't mutex_obj \<Rightarrow> bool \<times> 't mutex_obj"
  mutex_give_recursive :: "'t \<Rightarrow> 't mutex_obj \<Rightarrow> bool \<times> 't mutex_obj"
  xSemaphoreGetMutexHolder :: "'t mutex_obj \<Rightarrow> 't option"
  xSemaphoreGetMutexHolderFromISR :: "'t mutex_obj \<Rightarrow> 't option"

section \<open>Operations\<close>

definition rhs_mutex_alloc :: "'t mutex_api \<Rightarrow> ctx \<Rightarrow> mutex_type \<Rightarrow> 't mutex_obj res" where
  "rhs_mutex_alloc A c ty =
     rhs_assert (\<not> RHS_IS_IRQ_MODE c)
       (case ty of
          RHSMutexTypeNormal \<Rightarrow> Inr (xSemaphoreCreateMutexStatic A)
        | RHSMutexTypeRecursive \<Rightarrow> Inr (xSemaphoreCreateRecursiveMutexStatic A))"

definition rhs_mutex_free :: "ctx \<Rightarrow> 't mutex_obj option \<Rightarrow> unit res" where
  "rhs_mutex_free c inst = rhs_assert (\<not> RHS_IS_IRQ_MODE c) (rhs_assert (inst \<noteq> None) (Inr ()))"

text \<open>The status of a take, from the answer of the kernel.\<close>

definition take_status :: "u32 \<Rightarrow> (bool \<times> 't mutex_obj) option \<Rightarrow> (rhs_status \<times> 't mutex_obj) res" where
  "take_status timeout r =
     (case r of
        None \<Rightarrow> Inl Blocked
      | Some (ok, m') \<Rightarrow>
          if \<not> ok then (if timeout \<noteq> 0 then Inr (RHSStatusErrorTimeout, m') else Inr (RHSStatusErrorResource, m'))
          else Inr (RHSStatusOk, m'))"

definition rhs_mutex_acquire ::
  "'t mutex_api \<Rightarrow> ctx \<Rightarrow> 't \<Rightarrow> 't mutex_obj \<Rightarrow> u32 \<Rightarrow> (rhs_status \<times> 't mutex_obj) res" where
  "rhs_mutex_acquire A c me m timeout =
     (if RHS_IS_IRQ_MODE c then Inr (RHSStatusErrorISR, m)
      else if ucQueueType m = queueQUEUE_TYPE_RECURSIVE_MUTEX A then
        take_status timeout (mutex_take_recursive A me m timeout)
      else if ucQueueType m = queueQUEUE_TYPE_MUTEX A then
        take_status timeout (mutex_take A me m timeout)
      else Inl AssertFailed)"

definition rhs_mutex_release :: "'t mutex_api \<Rightarrow> ctx \<Rightarrow> 't \<Rightarrow> 't mutex_obj \<Rightarrow> (rhs_status \<times> 't mutex_obj) res" where
  "rhs_mutex_release A c me m =
     (if RHS_IS_IRQ_MODE c then Inr (RHSStatusErrorISR, m)
      else if ucQueueType m = queueQUEUE_TYPE_RECURSIVE_MUTEX A then
        (case mutex_give_recursive A me m of (ok, m') \<Rightarrow>
           Inr (if \<not> ok then RHSStatusErrorResource else RHSStatusOk, m'))
      else if ucQueueType m = queueQUEUE_TYPE_MUTEX A then
        (case mutex_give A me m of (ok, m') \<Rightarrow>
           Inr (if \<not> ok then RHSStatusErrorResource else RHSStatusOk, m'))
      else Inl AssertFailed)"

definition rhs_mutex_get_owner :: "'t mutex_api \<Rightarrow> ctx \<Rightarrow> 't mutex_obj \<Rightarrow> 't option" where
  "rhs_mutex_get_owner A c m =
     (if RHS_IS_IRQ_MODE c then xSemaphoreGetMutexHolderFromISR A m else xSemaphoreGetMutexHolder A m)"

section \<open>The FreeRTOS contract\<close>

text \<open>
  A take succeeds on a free mutex, fails at once on a held one without a timeout, and when
  it waited and succeeded the task holds the mutex. A recursive take by the holder counts.
  A give by the holder frees a normal mutex and uncounts a recursive one; a recursive give
  by another task fails.
\<close>

locale rtos_mutex =
  fixes A :: "'t mutex_api"
  assumes types: "queueQUEUE_TYPE_MUTEX A \<noteq> queueQUEUE_TYPE_RECURSIVE_MUTEX A"
    and create: "xSemaphoreCreateMutexStatic A =
        \<lparr>ucQueueType = queueQUEUE_TYPE_MUTEX A, holder = None, rec_depth = 0\<rparr>"
      "xSemaphoreCreateRecursiveMutexStatic A =
        \<lparr>ucQueueType = queueQUEUE_TYPE_RECURSIVE_MUTEX A, holder = None, rec_depth = 0\<rparr>"
    and take_free: "holder m = None \<Longrightarrow> mutex_take A me m t = Some (True, m\<lparr>holder := Some me, rec_depth := 1\<rparr>)"
    and take_held: "holder m \<noteq> None \<Longrightarrow> mutex_take A me m 0 = Some (False, m)"
    and rec_free: "holder m = None \<Longrightarrow>
        mutex_take_recursive A me m t = Some (True, m\<lparr>holder := Some me, rec_depth := 1\<rparr>)"
    and rec_own: "holder m = Some me \<Longrightarrow>
        mutex_take_recursive A me m t = Some (True, m\<lparr>rec_depth := Suc (rec_depth m)\<rparr>)"
    and rec_held: "holder m = Some h \<Longrightarrow> h \<noteq> me \<Longrightarrow> mutex_take_recursive A me m 0 = Some (False, m)"
    and give: "holder m = Some me \<Longrightarrow> mutex_give A me m = (True, m\<lparr>holder := None, rec_depth := 0\<rparr>)"
    and give_rec: "holder m = Some me \<Longrightarrow> mutex_give_recursive A me m =
        (True, if rec_depth m \<le> 1 then m\<lparr>holder := None, rec_depth := 0\<rparr> else m\<lparr>rec_depth := rec_depth m - 1\<rparr>)"
      "holder m \<noteq> Some me \<Longrightarrow> mutex_give_recursive A me m = (False, m)"
    and owner: "xSemaphoreGetMutexHolder A m = holder m" "xSemaphoreGetMutexHolderFromISR A m = holder m"

definition plain_mutex :: "'t mutex_api" where
  "plain_mutex = \<lparr>
     queueQUEUE_TYPE_MUTEX = 1, queueQUEUE_TYPE_RECURSIVE_MUTEX = 4,
     xSemaphoreCreateMutexStatic = \<lparr>ucQueueType = 1, holder = None, rec_depth = 0\<rparr>,
     xSemaphoreCreateRecursiveMutexStatic = \<lparr>ucQueueType = 4, holder = None, rec_depth = 0\<rparr>,
     mutex_take = (\<lambda>me m t. if holder m = None then Some (True, m\<lparr>holder := Some me, rec_depth := 1\<rparr>)
        else if t = RHSWaitForever then None else Some (False, m)),
     mutex_take_recursive = (\<lambda>me m t. case holder m of
          None \<Rightarrow> Some (True, m\<lparr>holder := Some me, rec_depth := 1\<rparr>)
        | Some h \<Rightarrow> if h = me then Some (True, m\<lparr>rec_depth := Suc (rec_depth m)\<rparr>)
            else if t = RHSWaitForever then None else Some (False, m)),
     mutex_give = (\<lambda>me m. if holder m = Some me then (True, m\<lparr>holder := None, rec_depth := 0\<rparr>) else (False, m)),
     mutex_give_recursive = (\<lambda>me m. if holder m = Some me then
          (True, if rec_depth m \<le> 1 then m\<lparr>holder := None, rec_depth := 0\<rparr> else m\<lparr>rec_depth := rec_depth m - 1\<rparr>)
        else (False, m)),
     xSemaphoreGetMutexHolder = holder,
     xSemaphoreGetMutexHolderFromISR = holder\<rparr>"

interpretation plain_mutex: rtos_mutex plain_mutex
  by unfold_locales (auto simp: plain_mutex_def RHSWaitForever_def split: option.split)

section \<open>Tasks using a mutex\<close>

text \<open>
  Any number of tasks acquire and release one mutex. \<open>inside t\<close> counts the acquires of
  \<open>t\<close> that returned \<open>RHSStatusOk\<close> and have no release yet. A step is one call as it
  returns; a task releases only what it acquired. An acquire that waits returns when the
  mutex is free, so the step of a successful wait starts there.
\<close>

record 't system =
  mutex :: "'t mutex_obj"
  inside :: "'t \<Rightarrow> nat"

inductive mutex_step :: "'t mutex_api \<Rightarrow> 't system \<Rightarrow> 't system \<Rightarrow> bool" for A where
  acquire_ok: "rhs_mutex_acquire A c t (mutex s) timeout = Inr (RHSStatusOk, m') \<Longrightarrow>
     timeout = 0 \<or> holder (mutex s) = None \<or> holder (mutex s) = Some t \<and>
       ucQueueType (mutex s) = queueQUEUE_TYPE_RECURSIVE_MUTEX A \<Longrightarrow>
     mutex_step A s \<lparr>mutex = m', inside = (inside s)(t := Suc (inside s t))\<rparr>"
| acquire_fails: "rhs_mutex_acquire A c t (mutex s) 0 = Inr (r, m') \<Longrightarrow> r \<noteq> RHSStatusOk \<Longrightarrow>
     mutex_step A s \<lparr>mutex = m', inside = inside s\<rparr>"
| release: "0 < inside s t \<Longrightarrow> rhs_mutex_release A c t (mutex s) = Inr (r, m') \<Longrightarrow>
     mutex_step A s \<lparr>mutex = m',
       inside = (if r = RHSStatusOk then (inside s)(t := inside s t - 1) else inside s)\<rparr>"

inductive mutex_reachable :: "'t mutex_api \<Rightarrow> 't mutex_obj \<Rightarrow> 't system \<Rightarrow> bool" for A m0 where
  start: "mutex_reachable A m0 \<lparr>mutex = m0, inside = (\<lambda>_. 0)\<rparr>"
| step: "mutex_reachable A m0 s \<Longrightarrow> mutex_step A s s' \<Longrightarrow> mutex_reachable A m0 s'"

text \<open>The holder is the only task inside, as often as the depth says.\<close>

definition exclusive :: "'t mutex_api \<Rightarrow> 't system \<Rightarrow> bool" where
  "exclusive A s \<longleftrightarrow>
     ucQueueType (mutex s) \<in> {queueQUEUE_TYPE_MUTEX A, queueQUEUE_TYPE_RECURSIVE_MUTEX A} \<and>
     (ucQueueType (mutex s) = queueQUEUE_TYPE_MUTEX A \<longrightarrow> rec_depth (mutex s) \<le> 1) \<and>
     (case holder (mutex s) of
        None \<Rightarrow> (\<forall>t. inside s t = 0)
      | Some h \<Rightarrow> inside s h = rec_depth (mutex s) \<and> 0 < rec_depth (mutex s) \<and> (\<forall>t. t \<noteq> h \<longrightarrow> inside s t = 0))"

context rtos_mutex begin

lemma acquire_cases:
  assumes "ucQueueType m \<in> {queueQUEUE_TYPE_MUTEX A, queueQUEUE_TYPE_RECURSIVE_MUTEX A}"
    and "timeout = 0 \<or> holder m = None \<or> holder m = Some t \<and> ucQueueType m = queueQUEUE_TYPE_RECURSIVE_MUTEX A"
    and "rhs_mutex_acquire A c t m timeout = Inr (r, m')"
  shows "(r = RHSStatusOk \<and> holder m = None \<and> m' = m\<lparr>holder := Some t, rec_depth := 1\<rparr>) \<or>
     (r = RHSStatusOk \<and> holder m = Some t \<and> ucQueueType m = queueQUEUE_TYPE_RECURSIVE_MUTEX A \<and>
      m' = m\<lparr>rec_depth := Suc (rec_depth m)\<rparr>) \<or>
     (r \<noteq> RHSStatusOk \<and> m' = m)"
proof (cases "RHS_IS_IRQ_MODE c")
  case True
  with assms(3) show ?thesis by (auto simp: rhs_mutex_acquire_def)
next
  case False
  show ?thesis
  proof (cases "ucQueueType m = queueQUEUE_TYPE_RECURSIVE_MUTEX A")
    case True
    consider "holder m = None" | "holder m = Some t" | h where "holder m = Some h" "h \<noteq> t" by (cases "holder m") auto
    then show ?thesis
    proof cases
      case 1
      with False True assms(3) show ?thesis by (simp add: rhs_mutex_acquire_def rec_free take_status_def)
    next
      case 2
      with False True assms(3) show ?thesis by (simp add: rhs_mutex_acquire_def rec_own take_status_def)
    next
      case 3
      then have "timeout = 0" using assms(2) by auto
      with 3 False True assms(3) show ?thesis by (auto simp: rhs_mutex_acquire_def rec_held [OF 3] take_status_def)
    qed
  next
    case False
    then show ?thesis using \<open>\<not> RHS_IS_IRQ_MODE c\<close> assms
      by (cases "holder m") (auto simp: rhs_mutex_acquire_def take_free take_held take_status_def split: if_splits)
  qed
qed

lemma release_cases:
  assumes "ucQueueType m \<in> {queueQUEUE_TYPE_MUTEX A, queueQUEUE_TYPE_RECURSIVE_MUTEX A}"
    and "holder m = Some t" and "ucQueueType m = queueQUEUE_TYPE_MUTEX A \<longrightarrow> rec_depth m \<le> 1"
    and "rhs_mutex_release A c t m = Inr (r, m')"
  shows "(r = RHSStatusOk \<and> rec_depth m \<le> 1 \<and> m' = m\<lparr>holder := None, rec_depth := 0\<rparr>) \<or>
     (r = RHSStatusOk \<and> 1 < rec_depth m \<and> m' = m\<lparr>rec_depth := rec_depth m - 1\<rparr>) \<or>
     (r \<noteq> RHSStatusOk \<and> m' = m)"
  using assms types by (auto simp: rhs_mutex_release_def give give_rec split: if_splits)

lemma exclusive_holder:
  assumes "exclusive A s" and "0 < inside s t"
  shows "holder (mutex s) = Some t"
proof (cases "holder (mutex s)")
  case (Some h)
  with assms show ?thesis by (cases "t = h") (simp_all add: exclusive_def)
qed (use assms in \<open>simp add: exclusive_def\<close>)

lemma exclusive_step:
  assumes "exclusive A s" and "mutex_step A s s'"
  shows "exclusive A s'"
  using assms(2,1)
proof cases
  case (acquire_ok c t timeout m')
  have "(holder (mutex s) = None \<and> m' = (mutex s)\<lparr>holder := Some t, rec_depth := 1\<rparr>) \<or>
     (holder (mutex s) = Some t \<and> ucQueueType (mutex s) = queueQUEUE_TYPE_RECURSIVE_MUTEX A \<and>
      m' = (mutex s)\<lparr>rec_depth := Suc (rec_depth (mutex s))\<rparr>)"
    using acquire_cases [OF _ acquire_ok(3,2)] assms(1) by (auto simp: exclusive_def)
  with assms(1) acquire_ok(1) types show ?thesis by (auto simp: exclusive_def)
next
  case (acquire_fails c t r m')
  have "m' = mutex s" using acquire_cases [OF _ _ acquire_fails(2)] acquire_fails(3) assms(1)
    by (auto simp: exclusive_def)
  with acquire_fails(1) have "mutex s' = mutex s" "inside s' = inside s" by simp_all
  with assms(1) show ?thesis by (cases "holder (mutex s)") (simp_all add: exclusive_def)
next
  case (release t c r m')
  have h: "holder (mutex s) = Some t" by (rule exclusive_holder [OF assms(1) release(2)])
  have "(r = RHSStatusOk \<and> rec_depth (mutex s) \<le> 1 \<and> m' = (mutex s)\<lparr>holder := None, rec_depth := 0\<rparr>) \<or>
     (r = RHSStatusOk \<and> 1 < rec_depth (mutex s) \<and> m' = (mutex s)\<lparr>rec_depth := rec_depth (mutex s) - 1\<rparr>) \<or>
     (r \<noteq> RHSStatusOk \<and> m' = mutex s)"
    using release_cases [OF _ h _ release(3)] assms(1) by (auto simp: exclusive_def)
  with assms(1) release(1,2) h types show ?thesis by (auto simp: exclusive_def)
qed

lemma exclusive_start:
  assumes "rhs_mutex_alloc A c ty = Inr m0"
  shows "exclusive A \<lparr>mutex = m0, inside = (\<lambda>_. 0)\<rparr>"
  using assms types by (cases ty) (auto simp: rhs_mutex_alloc_def create exclusive_def)

lemma exclusive_reachable:
  assumes "mutex_reachable A m0 s" and "rhs_mutex_alloc A c ty = Inr m0"
  shows "exclusive A s"
  using assms(1) by induction (blast intro: exclusive_start [OF assms(2)] exclusive_step)+

end

section \<open>Properties\<close>

text \<open>C6: at most one task is ever inside a mutex: in every state that acquires and releases of any number of tasks
  reach from a freshly allocated mutex, a task that is inside is its owner, and it has entered a normal mutex once.\<close>

theorem mutex_exclusion:
  assumes "rtos_mutex A" and "rhs_mutex_alloc A c ty = Inr m0" and "mutex_reachable A m0 s" and "0 < inside s t"
  shows "rhs_mutex_get_owner A c' (mutex s) = Some t \<and> (\<forall>t'. 0 < inside s t' \<longleftrightarrow> t' = t) \<and>
     (ucQueueType (mutex s) = queueQUEUE_TYPE_MUTEX A \<longrightarrow> inside s t = 1)"
proof -
  have e: "exclusive A s" by (rule rtos_mutex.exclusive_reachable [OF assms(1,3,2)])
  have "holder (mutex s) = Some t" by (rule rtos_mutex.exclusive_holder [OF assms(1) e assms(4)])
  with e show ?thesis using assms(4)
    by (auto simp: exclusive_def rhs_mutex_get_owner_def rtos_mutex.owner [OF assms(1)])
qed

text \<open>A recursive mutex taken twice by task 7, while task 8 fails to take it.\<close>

lemma mutex_exclusion_witness:
  "\<exists>s :: nat system. 0 < inside s 7 \<and> rhs_mutex_get_owner plain_mutex task_ctx (mutex s) = Some 7 \<and>
     (\<forall>t'. 0 < inside s t' \<longleftrightarrow> t' = 7)"
proof -
  let ?m0 = "\<lparr>ucQueueType = 4, holder = None, rec_depth = 0\<rparr> :: nat mutex_obj"
  let ?m2 = "\<lparr>ucQueueType = 4, holder = Some 7, rec_depth = 2\<rparr> :: nat mutex_obj"
  define s0 :: "nat system" where "s0 = \<lparr>mutex = ?m0, inside = (\<lambda>_. 0)\<rparr>"
  define s1 :: "nat system" where "s1 = \<lparr>mutex = ?m0\<lparr>holder := Some 7, rec_depth := 1\<rparr>, inside = (\<lambda>_. 0)(7 := 1)\<rparr>"
  define s2 :: "nat system" where "s2 = \<lparr>mutex = ?m2, inside = (\<lambda>_. 0)(7 := 2)\<rparr>"
  define s3 :: "nat system" where "s3 = \<lparr>mutex = ?m2, inside = inside s2\<rparr>"
  have m0: "rhs_mutex_alloc plain_mutex task_ctx RHSMutexTypeRecursive = Inr ?m0"
    by (simp add: rhs_mutex_alloc_def plain_mutex_def)
  have "mutex_reachable plain_mutex ?m0 s0" unfolding s0_def by (rule mutex_reachable.start)
  moreover have "mutex_step plain_mutex s0 s1"
    using mutex_step.acquire_ok [of plain_mutex task_ctx 7 s0 0 "mutex s1"]
    by (simp add: s0_def s1_def rhs_mutex_acquire_def plain_mutex_def take_status_def)
  moreover have "mutex_step plain_mutex s1 s2"
    using mutex_step.acquire_ok [of plain_mutex task_ctx 7 s1 0 "mutex s2"]
    by (simp add: s1_def s2_def rhs_mutex_acquire_def plain_mutex_def take_status_def numeral_2_eq_2)
  moreover have "mutex_step plain_mutex s2 s3"
    using mutex_step.acquire_fails [of plain_mutex task_ctx 8 s2 RHSStatusErrorResource ?m2]
    by (simp add: s2_def s3_def rhs_mutex_acquire_def plain_mutex_def take_status_def RHSWaitForever_def)
  ultimately have r: "mutex_reachable plain_mutex ?m0 s3" by (metis mutex_reachable.step)
  have "0 < inside s3 7" by (simp add: s3_def s2_def)
  with mutex_exclusion [OF plain_mutex.rtos_mutex_axioms m0 r this] show ?thesis by blast
qed

end
