(* ===== verification/Event_Flag.thy ===== *)
theory Event_Flag
  imports Kernel
begin

text \<open>
  The event flags of core/event_flag.c over FreeRTOS event groups, and the API lock of
  core/api_lock.h built on them. An event group is its 24 bits, the commands that interrupt
  calls left for the timer task, and whether a task waits in a way that clears bits. The
  FreeRTOS calls are parameters under the locale \<open>rtos_event_group\<close>. The lemmas relate the
  value a wait returns to the condition it waited for, and show the API lock's protocol.
\<close>

section \<open>The event group and the calls\<close>

datatype timer_cmd = SetBits u32 | ClearBits u32

record event_group =
  event_bits :: u32
  deferred :: "timer_cmd list"
  clearing_waiter :: bool

text \<open>
  \<open>xEventGroupWaitBits\<close> takes the bits, clear on exit, wait for all and the timeout; it
  returns \<open>None\<close> when it never returns.
\<close>

record event_api =
  xEventGroupCreateStatic :: event_group
  xEventGroupSetBits :: "event_group \<Rightarrow> u32 \<Rightarrow> u32 \<times> event_group"
  xEventGroupSetBitsFromISR :: "event_group \<Rightarrow> u32 \<Rightarrow> bool \<times> bool \<times> event_group"
  xEventGroupClearBits :: "event_group \<Rightarrow> u32 \<Rightarrow> u32 \<times> event_group"
  xEventGroupClearBitsFromISR :: "event_group \<Rightarrow> u32 \<Rightarrow> bool \<times> event_group"
  xEventGroupGetBits :: "event_group \<Rightarrow> u32"
  xEventGroupGetBitsFromISR :: "event_group \<Rightarrow> u32"
  xEventGroupWaitBits :: "event_group \<Rightarrow> u32 \<Rightarrow> bool \<Rightarrow> bool \<Rightarrow> u32 \<Rightarrow> (u32 \<times> event_group) option"

section \<open>Operations\<close>

definition RHS_EVENT_FLAG_INVALID_BITS :: u32 where
  "RHS_EVENT_FLAG_INVALID_BITS = NOT (push_bit 24 1 - 1)"

definition valid_flags :: "u32 \<Rightarrow> bool" where
  "valid_flags flags \<longleftrightarrow> flags AND RHS_EVENT_FLAG_INVALID_BITS = 0"

definition rhs_event_flag_alloc :: "event_api \<Rightarrow> ctx \<Rightarrow> event_group res" where
  "rhs_event_flag_alloc A c = rhs_assert (\<not> RHS_IS_IRQ_MODE c) (Inr (xEventGroupCreateStatic A))"

definition rhs_event_flag_free :: "ctx \<Rightarrow> unit res" where
  "rhs_event_flag_free c = rhs_assert (\<not> RHS_IS_IRQ_MODE c) (Inr ())"

text \<open>The results: the flags returned, whether the call yields from an interrupt, the group.\<close>

definition rhs_event_flag_set :: "event_api \<Rightarrow> ctx \<Rightarrow> event_group \<Rightarrow> u32 \<Rightarrow> (u32 \<times> bool \<times> event_group) res" where
  "rhs_event_flag_set A c g flags =
     rhs_assert (valid_flags flags)
       (if RHS_IS_IRQ_MODE c then
          (case xEventGroupSetBitsFromISR A g flags of (ok, yield, g') \<Rightarrow>
             if \<not> ok then Inr (RHSFlagErrorResource, False, g') else Inr (flags, yield, g'))
        else (case xEventGroupSetBits A g flags of (rflags, g') \<Rightarrow> Inr (rflags, False, g')))"

definition rhs_event_flag_clear :: "event_api \<Rightarrow> ctx \<Rightarrow> event_group \<Rightarrow> u32 \<Rightarrow> (u32 \<times> bool \<times> event_group) res" where
  "rhs_event_flag_clear A c g flags =
     rhs_assert (valid_flags flags)
       (if RHS_IS_IRQ_MODE c then
          (let rflags = xEventGroupGetBitsFromISR A g
           in case xEventGroupClearBitsFromISR A g flags of (ok, g') \<Rightarrow>
                if \<not> ok then Inr (status_code RHSStatusErrorResource, False, g') else Inr (rflags, True, g'))
        else (case xEventGroupClearBits A g flags of (rflags, g') \<Rightarrow> Inr (rflags, False, g')))"

definition rhs_event_flag_get :: "event_api \<Rightarrow> ctx \<Rightarrow> event_group \<Rightarrow> u32" where
  "rhs_event_flag_get A c g =
     (if RHS_IS_IRQ_MODE c then xEventGroupGetBitsFromISR A g else xEventGroupGetBits A g)"

definition rhs_event_flag_wait ::
  "event_api \<Rightarrow> ctx \<Rightarrow> event_group \<Rightarrow> u32 \<Rightarrow> u32 \<Rightarrow> u32 \<Rightarrow> (u32 \<times> event_group) res" where
  "rhs_event_flag_wait A c g flags options timeout =
     rhs_assert (\<not> RHS_IS_IRQ_MODE c)
       (rhs_assert (valid_flags flags)
         (let wait_all = (options AND RHSFlagWaitAll \<noteq> 0);
              exit_clr = (if options AND RHSFlagNoClear \<noteq> 0 then False else True)
          in case xEventGroupWaitBits A g flags exit_clr wait_all timeout of
               None \<Rightarrow> Inl Blocked
             | Some (rflags, g') \<Rightarrow>
                 if options AND RHSFlagWaitAll \<noteq> 0 then
                   if flags AND rflags \<noteq> flags then
                     Inr (if timeout > 0 then status_code RHSStatusErrorTimeout else status_code RHSStatusErrorResource, g')
                   else Inr (rflags, g')
                 else
                   if flags AND rflags = 0 then
                     Inr (if timeout > 0 then status_code RHSStatusErrorTimeout else status_code RHSStatusErrorResource, g')
                   else Inr (rflags, g')))"

section \<open>The API lock\<close>

definition API_LOCK_EVENT :: u32 where "API_LOCK_EVENT = 1"

definition api_lock_alloc_locked :: "event_api \<Rightarrow> ctx \<Rightarrow> event_group res" where
  "api_lock_alloc_locked A c = rhs_event_flag_alloc A c"

definition api_lock_wait_unlock :: "event_api \<Rightarrow> ctx \<Rightarrow> event_group \<Rightarrow> (u32 \<times> event_group) res" where
  "api_lock_wait_unlock A c lock = rhs_event_flag_wait A c lock API_LOCK_EVENT RHSFlagWaitAny RHSWaitForever"

definition api_lock_free :: "ctx \<Rightarrow> unit res" where
  "api_lock_free c = rhs_event_flag_free c"

definition api_lock_unlock :: "event_api \<Rightarrow> ctx \<Rightarrow> event_group \<Rightarrow> (u32 \<times> bool \<times> event_group) res" where
  "api_lock_unlock A c lock = rhs_event_flag_set A c lock API_LOCK_EVENT"

definition api_lock_wait_unlock_and_free :: "event_api \<Rightarrow> ctx \<Rightarrow> event_group \<Rightarrow> unit res" where
  "api_lock_wait_unlock_and_free A c lock = rbind (api_lock_wait_unlock A c lock) (\<lambda>_. api_lock_free c)"

definition api_lock_is_locked :: "event_api \<Rightarrow> ctx \<Rightarrow> event_group \<Rightarrow> bool" where
  "api_lock_is_locked A c lock \<longleftrightarrow> rhs_event_flag_get A c lock AND API_LOCK_EVENT = 0"

definition api_lock_relock :: "event_api \<Rightarrow> ctx \<Rightarrow> event_group \<Rightarrow> (u32 \<times> bool \<times> event_group) res" where
  "api_lock_relock A c lock = rhs_event_flag_clear A c lock API_LOCK_EVENT"

section \<open>The FreeRTOS contract\<close>

definition group_ok :: "event_group \<Rightarrow> bool" where
  "group_ok g \<longleftrightarrow> unat (event_bits g) < 2 ^ 24"

definition condition :: "bool \<Rightarrow> u32 \<Rightarrow> u32 \<Rightarrow> bool" where
  "condition wait_all flags bits \<longleftrightarrow> (if wait_all then flags AND bits = flags else flags AND bits \<noteq> 0)"

text \<open>
  A wait whose condition holds returns the bits at once and clears the flags when asked;
  without a timeout it returns the bits as they are; otherwise it waits for other tasks and
  returns bits that meet the condition, or times out, but never with the longest timeout.
\<close>

locale rtos_event_group =
  fixes A :: event_api
  assumes create: "xEventGroupCreateStatic A = \<lparr>event_bits = 0, deferred = [], clearing_waiter = False\<rparr>"
    and set_bits: "\<not> clearing_waiter g \<Longrightarrow>
        xEventGroupSetBits A g f = (event_bits g OR f, g\<lparr>event_bits := event_bits g OR f\<rparr>)"
    and set_isr: "\<exists>ok y. xEventGroupSetBitsFromISR A g f =
        (ok, y, if ok then g\<lparr>deferred := deferred g @ [SetBits f]\<rparr> else g)"
    and clear_bits: "xEventGroupClearBits A g f = (event_bits g, g\<lparr>event_bits := event_bits g AND NOT f\<rparr>)"
    and clear_isr: "\<exists>ok. xEventGroupClearBitsFromISR A g f =
        (ok, if ok then g\<lparr>deferred := deferred g @ [ClearBits f]\<rparr> else g)"
    and get_bits: "xEventGroupGetBits A g = event_bits g" "xEventGroupGetBitsFromISR A g = event_bits g"
    and wait_met: "condition all f (event_bits g) \<Longrightarrow> xEventGroupWaitBits A g f clr all t =
        Some (event_bits g, if clr then g\<lparr>event_bits := event_bits g AND NOT f\<rparr> else g)"
    and wait_none: "\<not> condition all f (event_bits g) \<Longrightarrow> xEventGroupWaitBits A g f clr all 0 = Some (event_bits g, g)"
    and wait_more: "group_ok g \<Longrightarrow> \<not> condition all f (event_bits g) \<Longrightarrow> xEventGroupWaitBits A g f clr all t = Some (r, g') \<Longrightarrow>
        unat r < 2 ^ 24 \<and> (condition all f r \<or> t \<noteq> RHSWaitForever)"

definition plain_events :: event_api where
  "plain_events = \<lparr>
     xEventGroupCreateStatic = \<lparr>event_bits = 0, deferred = [], clearing_waiter = False\<rparr>,
     xEventGroupSetBits = (\<lambda>g f. (event_bits g OR f, g\<lparr>event_bits := event_bits g OR f\<rparr>)),
     xEventGroupSetBitsFromISR = (\<lambda>g f. (True, False, g\<lparr>deferred := deferred g @ [SetBits f]\<rparr>)),
     xEventGroupClearBits = (\<lambda>g f. (event_bits g, g\<lparr>event_bits := event_bits g AND NOT f\<rparr>)),
     xEventGroupClearBitsFromISR = (\<lambda>g f. (True, g\<lparr>deferred := deferred g @ [ClearBits f]\<rparr>)),
     xEventGroupGetBits = event_bits,
     xEventGroupGetBitsFromISR = event_bits,
     xEventGroupWaitBits = (\<lambda>g f clr all t.
        if condition all f (event_bits g) then
          Some (event_bits g, if clr then g\<lparr>event_bits := event_bits g AND NOT f\<rparr> else g)
        else if t = RHSWaitForever then None else Some (event_bits g, g))\<rparr>"

interpretation plain_events: rtos_event_group plain_events
  by unfold_locales (auto simp: plain_events_def RHSWaitForever_def group_ok_def split: if_splits)

lemma small_not_error:
  assumes "unat r < 2 ^ 24"
  shows "r \<noteq> status_code RHSStatusErrorTimeout" and "r \<noteq> status_code RHSStatusErrorResource"
  using assms by (auto simp: status_code_def)

lemma valid_flags_API_LOCK [simp]: "valid_flags API_LOCK_EVENT"
  by (simp add: valid_flags_def API_LOCK_EVENT_def RHS_EVENT_FLAG_INVALID_BITS_def)

context rtos_event_group begin

lemma wait_result:
  assumes "group_ok g" and "rhs_event_flag_wait A c g flags options timeout = Inr (r, g')"
  defines "all \<equiv> options AND RHSFlagWaitAll \<noteq> 0"
  shows "(unat r < 2 ^ 24 \<and> condition all flags r) \<or>
     (r = status_code RHSStatusErrorResource \<and> timeout = 0 \<and> \<not> condition all flags (event_bits g)) \<or>
     (r = status_code RHSStatusErrorTimeout \<and> timeout \<noteq> 0 \<and> timeout \<noteq> RHSWaitForever \<and>
      \<not> condition all flags (event_bits g))"
proof -
  let ?clr = "if options AND RHSFlagNoClear \<noteq> 0 then False else True"
  obtain rf g1 where w: "xEventGroupWaitBits A g flags ?clr all timeout = Some (rf, g1)"
    using assms(2) by (auto simp: rhs_event_flag_wait_def all_def Let_def split: option.splits)
  have r: "r = (if condition all flags rf then rf
      else if timeout > 0 then status_code RHSStatusErrorTimeout else status_code RHSStatusErrorResource)"
    using assms(2) w by (auto simp: rhs_event_flag_wait_def all_def condition_def Let_def split: if_splits)
  show ?thesis
  proof (cases "condition all flags (event_bits g)")
    case True
    with wait_met [OF True, of ?clr timeout] w have "rf = event_bits g" by simp
    with True r assms(1) show ?thesis by (simp add: group_ok_def)
  next
    case False
    have "unat rf < 2 ^ 24 \<and> (condition all flags rf \<or> timeout \<noteq> RHSWaitForever)"
      by (rule wait_more [OF assms(1) False w])
    moreover have "timeout = 0 \<Longrightarrow> rf = event_bits g" using wait_none [OF False, of ?clr] w by fastforce
    ultimately show ?thesis using False r by (auto simp: word_gt_0)
  qed
qed

end

section \<open>Properties\<close>

text \<open>C7: what an event flag wait returns says how it ended: flags with the top bit clear exactly when the condition
  (any or all of the flags) held, otherwise the resource code without and the timeout code with a timeout; waiting
  forever returns only with the condition met.\<close>

theorem event_flag_wait_result:
  assumes "rtos_event_group A" and "group_ok g"
    and "rhs_event_flag_wait A c g flags options timeout = Inr (r, g')"
  defines "all \<equiv> options AND RHSFlagWaitAll \<noteq> 0"
  shows "(\<not> bit r 31 \<and> condition all flags r) \<or>
     (r = status_code RHSStatusErrorResource \<and> timeout = 0 \<and> \<not> condition all flags (event_bits g)) \<or>
     (r = status_code RHSStatusErrorTimeout \<and> timeout \<noteq> 0 \<and> timeout \<noteq> RHSWaitForever \<and>
      \<not> condition all flags (event_bits g))"
proof -
  have "\<not> bit r 31" if "unat r < 2 ^ 24"
  proof
    assume "bit r 31"
    then have "bit (unat r) 31" by (simp add: bit_unsigned_iff)
    with that show False by (simp add: bit_iff_odd)
  qed
  with rtos_event_group.wait_result [OF assms(1-3)] show ?thesis unfolding all_def by blast
qed

text \<open>An API lock starts locked, so that waiting for it does not get through; an unlock from a task lets one wait
  through at once, which locks it again.\<close>

theorem api_lock_protocol:
  assumes "rtos_event_group A" and "\<not> RHS_IS_IRQ_MODE c"
  shows "\<exists>lock0 lock1 lock2 r.
     api_lock_alloc_locked A c = Inr lock0 \<and> api_lock_is_locked A c lock0 \<and>
     api_lock_unlock A c lock0 = Inr (r, False, lock1) \<and> \<not> api_lock_is_locked A c lock1 \<and>
     api_lock_wait_unlock A c lock1 = Inr (API_LOCK_EVENT, lock2) \<and> api_lock_is_locked A c lock2"
proof -
  note L = assms(1)
  let ?l0 = "\<lparr>event_bits = 0, deferred = [], clearing_waiter = False\<rparr>"
  let ?l1 = "?l0\<lparr>event_bits := 1\<rparr>"
  have 0: "api_lock_alloc_locked A c = Inr ?l0" "api_lock_is_locked A c ?l0"
    using assms(2) by (simp_all add: api_lock_alloc_locked_def rhs_event_flag_alloc_def rtos_event_group.create [OF L]
        api_lock_is_locked_def rhs_event_flag_get_def rtos_event_group.get_bits [OF L])
  have 1: "api_lock_unlock A c ?l0 = Inr (1, False, ?l1)" "\<not> api_lock_is_locked A c ?l1"
    using assms(2) rtos_event_group.set_bits [OF L, of ?l0 1]
    by (simp_all add: api_lock_unlock_def rhs_event_flag_set_def
        api_lock_is_locked_def rhs_event_flag_get_def rtos_event_group.get_bits [OF L] API_LOCK_EVENT_def [symmetric])
      (simp_all add: API_LOCK_EVENT_def)
  have 2: "api_lock_wait_unlock A c ?l1 = Inr (API_LOCK_EVENT, ?l0)"
    using assms(2) rtos_event_group.wait_met [OF L, of False 1 ?l1 True RHSWaitForever] valid_flags_API_LOCK
    by (simp add: api_lock_wait_unlock_def rhs_event_flag_wait_def condition_def RHSFlagWaitAny_def API_LOCK_EVENT_def
        RHSFlagNoClear_def RHSFlagWaitAll_def)
  show ?thesis using 0 1 2 by blast
qed

lemma event_flag_wait_result_witness:
  "(\<not> bit (5 :: u32) 31 \<and> condition (1 AND RHSFlagWaitAll \<noteq> 0) 4 5) \<or>
     ((5 :: u32) = status_code RHSStatusErrorResource \<and> (0 :: u32) = 0 \<and> \<not> condition (1 AND RHSFlagWaitAll \<noteq> 0) 4 5) \<or>
     ((5 :: u32) = status_code RHSStatusErrorTimeout \<and> (0 :: u32) \<noteq> 0)"
  using event_flag_wait_result [OF plain_events.rtos_event_group_axioms,
      of "\<lparr>event_bits = 5, deferred = [], clearing_waiter = False\<rparr>" task_ctx 4 1 0 5
         "\<lparr>event_bits = 1, deferred = [], clearing_waiter = False\<rparr>"]
  by (simp add: group_ok_def rhs_event_flag_wait_def plain_events_def condition_def RHSFlagWaitAll_def
      RHSFlagNoClear_def valid_flags_def RHS_EVENT_FLAG_INVALID_BITS_def)

lemma api_lock_protocol_witness:
  "\<exists>lock0 lock1 lock2 r.
     api_lock_alloc_locked plain_events task_ctx = Inr lock0 \<and> api_lock_is_locked plain_events task_ctx lock0 \<and>
     api_lock_unlock plain_events task_ctx lock0 = Inr (r, False, lock1) \<and>
     \<not> api_lock_is_locked plain_events task_ctx lock1 \<and>
     api_lock_wait_unlock plain_events task_ctx lock1 = Inr (API_LOCK_EVENT, lock2) \<and>
     api_lock_is_locked plain_events task_ctx lock2"
  by (rule api_lock_protocol [OF plain_events.rtos_event_group_axioms]) simp

end
