(* ===== verification/Record_Registry.thy ===== *)
theory Record_Registry
  imports Mutex Event_Flag
begin

text \<open>
  The registry of core/record.c: named pointers that services publish and others open by
  name, waiting until they are published, with a count of the holders. The dictionary of
  the M*LIB library is a parameter under the locale \<open>mlib_dict\<close>; the mutex and the event
  flags are the modelled ones of core/mutex.c and core/event_flag.c. A system of tasks
  creates, opens, closes and destroys records in any order; the invariant of its reachable
  states says that the holder counts are exact, so that no record in use is ever removed
  or changed.
\<close>

section \<open>State\<close>

definition RHS_RECORD_FLAG_READY :: u32 where
  "RHS_RECORD_FLAG_READY = 1"

text \<open>A NULL \<open>data\<close> is \<open>None\<close>; \<open>size_t\<close> has 32 bits.\<close>

record 'p record_data =
  flags :: event_group
  data :: "'p option"
  holders_count :: u32

text \<open>A write through the pointer that \<open>get\<close> returned is a \<open>set_at\<close> of the changed entry.\<close>

record ('p, 'd) dict_api =
  dict_init :: 'd
  dict_get :: "'d \<Rightarrow> string \<Rightarrow> 'p record_data option"
  dict_set_at :: "'d \<Rightarrow> string \<Rightarrow> 'p record_data \<Rightarrow> 'd"
  dict_erase :: "'d \<Rightarrow> string \<Rightarrow> 'd"

text \<open>The libraries under the registry.\<close>

record ('t, 'p, 'd) libs =
  mutexes :: "'t mutex_api"
  events :: event_api
  dicts :: "('p, 'd) dict_api"

record ('t, 'd) registry =
  rec_mutex :: "'t mutex_obj"
  records :: 'd

section \<open>Operations\<close>

definition rhs_record_get :: "('t, 'p, 'd) libs \<Rightarrow> ('t, 'd) registry \<Rightarrow> string \<Rightarrow> 'p record_data option" where
  "rhs_record_get E R name = dict_get (dicts E) (records R) name"

definition rhs_record_put ::
  "('t, 'p, 'd) libs \<Rightarrow> ('t, 'd) registry \<Rightarrow> string \<Rightarrow> 'p record_data \<Rightarrow> ('t, 'd) registry" where
  "rhs_record_put E R name r = R\<lparr>records := dict_set_at (dicts E) (records R) name r\<rparr>"

definition rhs_record_erase ::
  "('t, 'p, 'd) libs \<Rightarrow> ctx \<Rightarrow> ('t, 'd) registry \<Rightarrow> string \<Rightarrow> ('t, 'd) registry res" where
  "rhs_record_erase E c R name =
     rbind (rhs_event_flag_free c) (\<lambda>_. Inr (R\<lparr>records := dict_erase (dicts E) (records R) name\<rparr>))"

definition rhs_record_init :: "('t, 'p, 'd) libs \<Rightarrow> ctx \<Rightarrow> ('t, 'd) registry res" where
  "rhs_record_init E c =
     rbind (rhs_mutex_alloc (mutexes E) c RHSMutexTypeNormal) (\<lambda>m.
       Inr \<lparr>rec_mutex = m, records = dict_init (dicts E)\<rparr>)"

definition rhs_record_data_get_or_create ::
  "('t, 'p, 'd) libs \<Rightarrow> ctx \<Rightarrow> ('t, 'd) registry \<Rightarrow> string \<Rightarrow> ('p record_data \<times> ('t, 'd) registry) res" where
  "rhs_record_data_get_or_create E c R name =
     (case rhs_record_get E R name of
        Some r \<Rightarrow> Inr (r, R)
      | None \<Rightarrow>
          rbind (rhs_event_flag_alloc (events E) c) (\<lambda>g.
            let R' = rhs_record_put E R name \<lparr>flags = g, data = None, holders_count = 0\<rparr>
            in case rhs_record_get E R' name of Some r \<Rightarrow> Inr (r, R') | None \<Rightarrow> Inl OutOfBounds))"

definition rhs_record_lock :: "('t, 'p, 'd) libs \<Rightarrow> ctx \<Rightarrow> 't \<Rightarrow> ('t, 'd) registry \<Rightarrow> ('t, 'd) registry res" where
  "rhs_record_lock E c me R =
     rbind (rhs_mutex_acquire (mutexes E) c me (rec_mutex R) RHSWaitForever) (\<lambda>(st, m).
       rhs_assert (st = RHSStatusOk) (Inr (R\<lparr>rec_mutex := m\<rparr>)))"

definition rhs_record_unlock :: "('t, 'p, 'd) libs \<Rightarrow> ctx \<Rightarrow> 't \<Rightarrow> ('t, 'd) registry \<Rightarrow> ('t, 'd) registry res" where
  "rhs_record_unlock E c me R =
     rbind (rhs_mutex_release (mutexes E) c me (rec_mutex R)) (\<lambda>(st, m).
       rhs_assert (st = RHSStatusOk) (Inr (R\<lparr>rec_mutex := m\<rparr>)))"

definition rhs_record_exists ::
  "('t, 'p, 'd) libs \<Rightarrow> ctx \<Rightarrow> 't \<Rightarrow> ('t, 'd) registry \<Rightarrow> string \<Rightarrow> (bool \<times> ('t, 'd) registry) res" where
  "rhs_record_exists E c me R name =
     rbind (rhs_record_lock E c me R) (\<lambda>R.
       let ret = (rhs_record_get E R name \<noteq> None)
       in rbind (rhs_record_unlock E c me R) (\<lambda>R. Inr (ret, R)))"

text \<open>\<open>p = None\<close> is a NULL pointer.\<close>

definition rhs_record_create ::
  "('t, 'p, 'd) libs \<Rightarrow> ctx \<Rightarrow> 't \<Rightarrow> ('t, 'd) registry \<Rightarrow> string \<Rightarrow> 'p option \<Rightarrow> ('t, 'd) registry res" where
  "rhs_record_create E c me R name p =
     rhs_assert (p \<noteq> None)
       (rbind (rhs_record_lock E c me R) (\<lambda>R.
         rbind (rhs_record_data_get_or_create E c R name) (\<lambda>(r, R).
           rhs_assert (data r = None)
             (rbind (rhs_event_flag_set (events E) c (flags r) RHS_RECORD_FLAG_READY) (\<lambda>(_, _, g).
               rhs_record_unlock E c me (rhs_record_put E R name (r\<lparr>data := p, flags := g\<rparr>)))))))"

definition rhs_record_destroy ::
  "('t, 'p, 'd) libs \<Rightarrow> ctx \<Rightarrow> 't \<Rightarrow> ('t, 'd) registry \<Rightarrow> string \<Rightarrow> (bool \<times> ('t, 'd) registry) res" where
  "rhs_record_destroy E c me R name =
     rbind (rhs_record_lock E c me R) (\<lambda>R.
       (case rhs_record_get E R name of
          None \<Rightarrow> Inl AssertFailed
        | Some r \<Rightarrow>
            rbind (if holders_count r = 0 then rbind (rhs_record_erase E c R name) (\<lambda>R. Inr (True, R))
                   else Inr (False, R))
              (\<lambda>(ret, R). rbind (rhs_record_unlock E c me R) (\<lambda>R. Inr (ret, R)))))"

text \<open>\<open>rhs_record_open\<close> up to its \<open>rhs_record_unlock\<close>, and the wait after it.\<close>

definition rhs_record_open_begin ::
  "('t, 'p, 'd) libs \<Rightarrow> ctx \<Rightarrow> 't \<Rightarrow> ('t, 'd) registry \<Rightarrow> string \<Rightarrow> ('t, 'd) registry res" where
  "rhs_record_open_begin E c me R name =
     rbind (rhs_record_lock E c me R) (\<lambda>R.
       rbind (rhs_record_data_get_or_create E c R name) (\<lambda>(r, R).
         rhs_record_unlock E c me (rhs_record_put E R name (r\<lparr>holders_count := holders_count r + 1\<rparr>))))"

definition rhs_record_open_wait ::
  "('t, 'p, 'd) libs \<Rightarrow> ctx \<Rightarrow> ('t, 'd) registry \<Rightarrow> string \<Rightarrow> ('p option \<times> ('t, 'd) registry) res" where
  "rhs_record_open_wait E c R name =
     (case rhs_record_get E R name of
        None \<Rightarrow> Inl OutOfBounds
      | Some r \<Rightarrow>
          rbind (rhs_event_flag_wait (events E) c (flags r) RHS_RECORD_FLAG_READY
                   (RHSFlagWaitAny OR RHSFlagNoClear) RHSWaitForever)
            (\<lambda>(f, g). rhs_assert (f = RHS_RECORD_FLAG_READY)
               (Inr (data r, rhs_record_put E R name (r\<lparr>flags := g\<rparr>)))))"

definition rhs_record_open ::
  "('t, 'p, 'd) libs \<Rightarrow> ctx \<Rightarrow> 't \<Rightarrow> ('t, 'd) registry \<Rightarrow> string \<Rightarrow> ('p option \<times> ('t, 'd) registry) res" where
  "rhs_record_open E c me R name =
     rbind (rhs_record_open_begin E c me R name) (\<lambda>R. rhs_record_open_wait E c R name)"

definition rhs_record_close ::
  "('t, 'p, 'd) libs \<Rightarrow> ctx \<Rightarrow> 't \<Rightarrow> ('t, 'd) registry \<Rightarrow> string \<Rightarrow> ('t, 'd) registry res" where
  "rhs_record_close E c me R name =
     rbind (rhs_record_lock E c me R) (\<lambda>R.
       (case rhs_record_get E R name of
          None \<Rightarrow> Inl AssertFailed
        | Some r \<Rightarrow>
            rhs_record_unlock E c me (rhs_record_put E R name (r\<lparr>holders_count := holders_count r - 1\<rparr>))))"

section \<open>The dictionary contract\<close>

locale mlib_dict =
  fixes D :: "('p, 'd) dict_api"
  assumes get_init [simp]: "dict_get D (dict_init D) n = None"
    and get_set [simp]: "dict_get D (dict_set_at D d n r) n' = (if n' = n then Some r else dict_get D d n')"
    and get_erase [simp]: "dict_get D (dict_erase D d n) n' = (if n' = n then None else dict_get D d n')"

definition map_dict :: "('p, string \<rightharpoonup> 'p record_data) dict_api" where
  "map_dict = \<lparr>dict_init = Map.empty, dict_get = (\<lambda>m. m), dict_set_at = (\<lambda>m n r. m(n \<mapsto> r)),
     dict_erase = (\<lambda>m n. m(n := None))\<rparr>"

interpretation map_dict: mlib_dict map_dict
  by unfold_locales (simp_all add: map_dict_def)

section \<open>Tasks using the registry\<close>

text \<open>
  \<open>pending n\<close> counts the tasks that incremented the count of \<open>n\<close> and wait for it;
  \<open>held n\<close> the opens that returned and are not closed. A step is one critical section, or
  the end of a wait, which is where the record is ready. Fewer than \<open>2 ^ 32\<close> opens of a record are outstanding, and only an
  open record is closed.
\<close>

record ('t, 'd) rec_system =
  registry :: "('t, 'd) registry"
  pending :: "string \<Rightarrow> nat"
  held :: "string \<Rightarrow> nat"

definition users :: "('t, 'd) rec_system \<Rightarrow> string \<Rightarrow> nat" where
  "users s n = pending s n + held s n"

definition ready :: "('t, 'p, 'd) libs \<Rightarrow> ('t, 'd) registry \<Rightarrow> string \<Rightarrow> bool" where
  "ready E R n \<longleftrightarrow> (\<exists>r. rhs_record_get E R n = Some r \<and> event_bits (flags r) \<noteq> 0)"

inductive rec_step :: "('t, 'p, 'd) libs \<Rightarrow> ('t, 'd) rec_system \<Rightarrow> ('t, 'd) rec_system \<Rightarrow> bool" for E where
  create: "rhs_record_create E c t (registry s) n p = Inr R \<Longrightarrow>
     rec_step E s (s\<lparr>registry := R\<rparr>)"
| destroy: "rhs_record_destroy E c t (registry s) n = Inr (b, R) \<Longrightarrow>
     rec_step E s (s\<lparr>registry := R\<rparr>)"
| lookup: "rhs_record_exists E c t (registry s) n = Inr (b, R) \<Longrightarrow>
     rec_step E s (s\<lparr>registry := R\<rparr>)"
| open_begin: "users s n < 2 ^ 32 - 1 \<Longrightarrow> rhs_record_open_begin E c t (registry s) n = Inr R \<Longrightarrow>
     rec_step E s (s\<lparr>registry := R, pending := (pending s)(n := Suc (pending s n))\<rparr>)"
| open_end: "0 < pending s n \<Longrightarrow> ready E (registry s) n \<Longrightarrow> rhs_record_open_wait E c (registry s) n = Inr (p, R) \<Longrightarrow>
     rec_step E s (s\<lparr>registry := R, pending := (pending s)(n := pending s n - 1),
                     held := (held s)(n := Suc (held s n))\<rparr>)"
| close: "0 < held s n \<Longrightarrow> rhs_record_close E c t (registry s) n = Inr R \<Longrightarrow>
     rec_step E s (s\<lparr>registry := R, held := (held s)(n := held s n - 1)\<rparr>)"

inductive rec_reachable :: "('t, 'p, 'd) libs \<Rightarrow> ('t, 'd) registry \<Rightarrow> ('t, 'd) rec_system \<Rightarrow> bool" for E R0 where
  start: "rec_reachable E R0 \<lparr>registry = R0, pending = (\<lambda>_. 0), held = (\<lambda>_. 0)\<rparr>"
| step: "rec_reachable E R0 s \<Longrightarrow> rec_step E s s' \<Longrightarrow> rec_reachable E R0 s'"

text \<open>The entry of a name, when it has \<open>k\<close> users of which \<open>h\<close> hold it.\<close>

definition slot_ok :: "nat \<Rightarrow> nat \<Rightarrow> 'p record_data option \<Rightarrow> bool" where
  "slot_ok k h e \<longleftrightarrow>
     (case e of
        None \<Rightarrow> k = 0
      | Some r \<Rightarrow> unat (holders_count r) = k \<and> \<not> clearing_waiter (flags r) \<and>
          event_bits (flags r) = (if data r = None then 0 else RHS_RECORD_FLAG_READY) \<and>
          (0 < h \<longrightarrow> data r \<noteq> None))"

definition rec_ok :: "('t, 'p, 'd) libs \<Rightarrow> ('t, 'd) rec_system \<Rightarrow> bool" where
  "rec_ok E s \<longleftrightarrow>
     holder (rec_mutex (registry s)) = None \<and>
     ucQueueType (rec_mutex (registry s)) = queueQUEUE_TYPE_MUTEX (mutexes E) \<and>
     (\<forall>n. slot_ok (users s n) (held s n) (rhs_record_get E (registry s) n))"

locale registry_libs =
  fixes E :: "('t, 'p, 'd) libs"
  assumes mutex_laws: "rtos_mutex (mutexes E)"
    and event_laws: "rtos_event_group (events E)"
    and dict_laws: "mlib_dict (dicts E)"

sublocale registry_libs \<subseteq> m: rtos_mutex "mutexes E" by (rule mutex_laws)

sublocale registry_libs \<subseteq> ev: rtos_event_group "events E" by (rule event_laws)

sublocale registry_libs \<subseteq> d: mlib_dict "dicts E" by (rule dict_laws)

definition plain_libs :: "('t, 'p, string \<rightharpoonup> 'p record_data) libs" where
  "plain_libs = \<lparr>mutexes = plain_mutex, events = plain_events, dicts = map_dict\<rparr>"

interpretation plain_libs: registry_libs plain_libs
  by (rule registry_libs.intro) (simp_all add: plain_libs_def plain_mutex.rtos_mutex_axioms
      plain_events.rtos_event_group_axioms map_dict.mlib_dict_axioms)

definition free_mutex :: "('t, 'p, 'd) libs \<Rightarrow> ('t, 'd) registry \<Rightarrow> bool" where
  "free_mutex E R \<longleftrightarrow> holder (rec_mutex R) = None \<and> ucQueueType (rec_mutex R) = queueQUEUE_TYPE_MUTEX (mutexes E)"

definition owned_mutex :: "('t, 'p, 'd) libs \<Rightarrow> 't \<Rightarrow> ('t, 'd) registry \<Rightarrow> bool" where
  "owned_mutex E me R \<longleftrightarrow> holder (rec_mutex R) = Some me \<and> ucQueueType (rec_mutex R) = queueQUEUE_TYPE_MUTEX (mutexes E)"

lemma put_simps [simp]:
  "rec_mutex (rhs_record_put E R n r) = rec_mutex R"
  "owned_mutex E me (rhs_record_put E R n r) = owned_mutex E me R"
  "free_mutex E (rhs_record_put E R n r) = free_mutex E R"
  by (simp_all add: rhs_record_put_def owned_mutex_def free_mutex_def)

lemma get_of_records: "records R' = records R \<Longrightarrow> rhs_record_get E R' n = rhs_record_get E R n"
  by (simp add: rhs_record_get_def)

lemma valid_ready [simp]: "valid_flags RHS_RECORD_FLAG_READY"
  by (simp add: valid_flags_def RHS_RECORD_FLAG_READY_def RHS_EVENT_FLAG_INVALID_BITS_def)

context registry_libs begin

lemma get_put [simp]: "rhs_record_get E (rhs_record_put E R n r) n' = (if n' = n then Some r else rhs_record_get E R n')"
  by (simp add: rhs_record_get_def rhs_record_put_def)

lemma lock_Inr:
  assumes "free_mutex E R" and "rhs_record_lock E c me R = Inr R1"
  shows "\<not> RHS_IS_IRQ_MODE c" and "owned_mutex E me R1" and "records R1 = records R"
  using assms m.types
  by (auto simp: rhs_record_lock_def rhs_mutex_acquire_def free_mutex_def owned_mutex_def m.take_free
      take_status_def split: if_splits)

lemma lock_task:
  assumes "free_mutex E R" and "\<not> RHS_IS_IRQ_MODE c"
  shows "\<exists>R1. rhs_record_lock E c me R = Inr R1 \<and> owned_mutex E me R1 \<and> records R1 = records R"
  using assms m.types
  by (auto simp: rhs_record_lock_def rhs_mutex_acquire_def free_mutex_def owned_mutex_def m.take_free
      take_status_def split: if_splits)

lemma unlock_owned:
  assumes "owned_mutex E me R" and "\<not> RHS_IS_IRQ_MODE c"
  shows "\<exists>R1. rhs_record_unlock E c me R = Inr R1 \<and> free_mutex E R1 \<and> records R1 = records R"
  using assms m.types
  by (auto simp: rhs_record_unlock_def rhs_mutex_release_def free_mutex_def owned_mutex_def m.give split: if_splits)

text \<open>The effect of a critical section on the entries.\<close>

lemma get_or_create_Inr:
  assumes "\<not> RHS_IS_IRQ_MODE c"
  shows "\<exists>r R1. rhs_record_data_get_or_create E c R name = Inr (r, R1) \<and>
     rec_mutex R1 = rec_mutex R \<and> rhs_record_get E R1 name = Some r \<and>
     (\<forall>n. n \<noteq> name \<longrightarrow> rhs_record_get E R1 n = rhs_record_get E R n) \<and>
     (case rhs_record_get E R name of Some r' \<Rightarrow> r = r'
      | None \<Rightarrow> r = \<lparr>flags = xEventGroupCreateStatic (events E), data = None, holders_count = 0\<rparr>)"
  using assms
  by (cases "rhs_record_get E R name")
    (auto simp: rhs_record_data_get_or_create_def rhs_event_flag_alloc_def Let_def)

lemma create_effect:
  assumes "free_mutex E R" and "rhs_record_create E c me R name p = Inr R'"
  shows "\<exists>r. free_mutex E R' \<and> p \<noteq> None \<and> data r = None \<and>
     (case rhs_record_get E R name of Some r' \<Rightarrow> r = r'
      | None \<Rightarrow> r = \<lparr>flags = xEventGroupCreateStatic (events E), data = None, holders_count = 0\<rparr>) \<and>
     (\<exists>g. (\<not> clearing_waiter (flags r) \<longrightarrow> g = (flags r)\<lparr>event_bits := event_bits (flags r) OR RHS_RECORD_FLAG_READY\<rparr>) \<and>
        (\<forall>n. rhs_record_get E R' n = (if n = name then Some (r\<lparr>data := p, flags := g\<rparr>) else rhs_record_get E R n)))"
proof -
  obtain R1 where R1: "rhs_record_lock E c me R = Inr R1" "\<not> RHS_IS_IRQ_MODE c" "owned_mutex E me R1" "records R1 = records R"
    using assms lock_Inr [OF assms(1), of c me] by (auto simp: rhs_record_create_def rbind_eq_Inr)
  obtain r R2 where R2: "rhs_record_data_get_or_create E c R1 name = Inr (r, R2)"
     "rec_mutex R2 = rec_mutex R1"
     "\<forall>n. n \<noteq> name \<longrightarrow> rhs_record_get E R2 n = rhs_record_get E R1 n"
     "case rhs_record_get E R1 name of Some r' \<Rightarrow> r = r'
      | None \<Rightarrow> r = \<lparr>flags = xEventGroupCreateStatic (events E), data = None, holders_count = 0\<rparr>"
    using get_or_create_Inr [OF R1(2)] by blast
  obtain b g where g: "xEventGroupSetBits (events E) (flags r) RHS_RECORD_FLAG_READY = (b, g)" by fastforce
  let ?R3 = "rhs_record_put E R2 name (r\<lparr>data := p, flags := g\<rparr>)"
  have "owned_mutex E me ?R3" using R1(3) R2(2) by (simp add: owned_mutex_def)
  then obtain R4 where R4: "rhs_record_unlock E c me ?R3 = Inr R4" "free_mutex E R4" "records R4 = records ?R3"
    using unlock_owned R1(2) by blast
  have R': "R' = R4" "p \<noteq> None" "data r = None"
    using assms(2) R1(1,2) R2(1) R4(1) g by (auto simp: rhs_record_create_def rhs_event_flag_set_def)
  have "rhs_record_get E R' n = (if n = name then Some (r\<lparr>data := p, flags := g\<rparr>) else rhs_record_get E R n)" for n
    using get_of_records [OF R4(3), of E] R2(3) get_of_records [OF R1(4), of E] by (simp add: R'(1))
  moreover have "\<not> clearing_waiter (flags r) \<Longrightarrow>
      g = (flags r)\<lparr>event_bits := event_bits (flags r) OR RHS_RECORD_FLAG_READY\<rparr>"
    using g ev.set_bits [of "flags r" RHS_RECORD_FLAG_READY] by auto
  ultimately show ?thesis
    using R' R4(2) R2(4) get_of_records [OF R1(4), of E] by (intro exI [of _ r]) auto
qed

lemma destroy_effect:
  assumes "free_mutex E R" and "rhs_record_destroy E c me R name = Inr (b, R')"
  shows "\<exists>r. rhs_record_get E R name = Some r \<and> free_mutex E R' \<and> (b \<longleftrightarrow> holders_count r = 0) \<and>
     (\<forall>n. rhs_record_get E R' n = (if b \<and> n = name then None else rhs_record_get E R n))"
proof -
  obtain R1 where R1: "rhs_record_lock E c me R = Inr R1" "\<not> RHS_IS_IRQ_MODE c" "owned_mutex E me R1" "records R1 = records R"
    using assms lock_Inr [OF assms(1), of c me] by (auto simp: rhs_record_destroy_def rbind_eq_Inr)
  from assms(2) R1(1) obtain r where r: "rhs_record_get E R1 name = Some r"
    by (cases "rhs_record_get E R1 name") (auto simp: rhs_record_destroy_def)
  define R2 where "R2 = (if holders_count r = 0 then R1\<lparr>records := dict_erase (dicts E) (records R1) name\<rparr> else R1)"
  have "owned_mutex E me R2" using R1(3) by (simp add: R2_def owned_mutex_def)
  then obtain R3 where R3: "rhs_record_unlock E c me R2 = Inr R3" "free_mutex E R3" "records R3 = records R2"
    using unlock_owned R1(2) by blast
  have "b \<longleftrightarrow> holders_count r = 0" "R' = R3"
    using assms(2) R1(1,2) r R3(1)
    by (auto simp: rhs_record_destroy_def rhs_record_erase_def rhs_event_flag_free_def R2_def split: if_splits)
  moreover have "rhs_record_get E R2 n = (if holders_count r = 0 \<and> n = name then None else rhs_record_get E R1 n)" for n
    by (simp add: R2_def rhs_record_get_def)
  ultimately show ?thesis
    using r R3(2) get_of_records [OF R3(3), of E] get_of_records [OF R1(4), of E] by auto
qed

lemma open_begin_effect:
  assumes "free_mutex E R" and "rhs_record_open_begin E c me R name = Inr R'"
  shows "\<exists>r. free_mutex E R' \<and>
     (case rhs_record_get E R name of Some r' \<Rightarrow> r = r'
      | None \<Rightarrow> r = \<lparr>flags = xEventGroupCreateStatic (events E), data = None, holders_count = 0\<rparr>) \<and>
     (\<forall>n. rhs_record_get E R' n =
        (if n = name then Some (r\<lparr>holders_count := holders_count r + 1\<rparr>) else rhs_record_get E R n))"
proof -
  obtain R1 where R1: "rhs_record_lock E c me R = Inr R1" "\<not> RHS_IS_IRQ_MODE c" "owned_mutex E me R1" "records R1 = records R"
    using assms lock_Inr [OF assms(1), of c me] by (auto simp: rhs_record_open_begin_def rbind_eq_Inr)
  obtain r R2 where R2: "rhs_record_data_get_or_create E c R1 name = Inr (r, R2)"
     "rec_mutex R2 = rec_mutex R1"
     "\<forall>n. n \<noteq> name \<longrightarrow> rhs_record_get E R2 n = rhs_record_get E R1 n"
     "case rhs_record_get E R1 name of Some r' \<Rightarrow> r = r'
      | None \<Rightarrow> r = \<lparr>flags = xEventGroupCreateStatic (events E), data = None, holders_count = 0\<rparr>"
    using get_or_create_Inr [OF R1(2)] by blast
  let ?R3 = "rhs_record_put E R2 name (r\<lparr>holders_count := holders_count r + 1\<rparr>)"
  have "owned_mutex E me ?R3" using R1(3) R2(2) by (simp add: owned_mutex_def)
  then obtain R4 where R4: "rhs_record_unlock E c me ?R3 = Inr R4" "free_mutex E R4" "records R4 = records ?R3"
    using unlock_owned R1(2) by blast
  have R': "R' = R4" using assms(2) R1(1) R2(1) R4(1) by (auto simp: rhs_record_open_begin_def)
  have "rhs_record_get E R' n =
      (if n = name then Some (r\<lparr>holders_count := holders_count r + 1\<rparr>) else rhs_record_get E R n)" for n
    using get_of_records [OF R4(3), of E] R2(3) get_of_records [OF R1(4), of E] by (simp add: R')
  then show ?thesis
    using R' R4(2) R2(4) get_of_records [OF R1(4), of E] by (intro exI [of _ r]) auto
qed

lemma close_effect:
  assumes "free_mutex E R" and "rhs_record_close E c me R name = Inr R'"
  shows "\<exists>r. rhs_record_get E R name = Some r \<and> free_mutex E R' \<and>
     (\<forall>n. rhs_record_get E R' n =
        (if n = name then Some (r\<lparr>holders_count := holders_count r - 1\<rparr>) else rhs_record_get E R n))"
proof -
  obtain R1 where R1: "rhs_record_lock E c me R = Inr R1" "\<not> RHS_IS_IRQ_MODE c" "owned_mutex E me R1" "records R1 = records R"
    using assms lock_Inr [OF assms(1), of c me] by (auto simp: rhs_record_close_def rbind_eq_Inr)
  from assms(2) R1(1) obtain r where r: "rhs_record_get E R1 name = Some r"
    by (cases "rhs_record_get E R1 name") (auto simp: rhs_record_close_def)
  let ?R2 = "rhs_record_put E R1 name (r\<lparr>holders_count := holders_count r - 1\<rparr>)"
  have "owned_mutex E me ?R2" using R1(3) by simp
  then obtain R3 where R3: "rhs_record_unlock E c me ?R2 = Inr R3" "free_mutex E R3" "records R3 = records ?R2"
    using unlock_owned R1(2) by blast
  have "R' = R3" using assms(2) R1(1) r R3(1) by (auto simp: rhs_record_close_def)
  then show ?thesis
    using r R3(2) get_of_records [OF R3(3), of E] get_of_records [OF R1(4), of E] by auto
qed

lemma exists_effect:
  assumes "free_mutex E R" and "rhs_record_exists E c me R name = Inr (b, R')"
  shows "free_mutex E R'" and "records R' = records R" and "b \<longleftrightarrow> rhs_record_get E R name \<noteq> None"
proof -
  obtain R1 where R1: "rhs_record_lock E c me R = Inr R1" "\<not> RHS_IS_IRQ_MODE c" "owned_mutex E me R1" "records R1 = records R"
    using assms lock_Inr [OF assms(1), of c me] by (auto simp: rhs_record_exists_def rbind_eq_Inr)
  obtain R2 where R2: "rhs_record_unlock E c me R1 = Inr R2" "free_mutex E R2" "records R2 = records R1"
    using unlock_owned R1(2,3) by blast
  have "b \<longleftrightarrow> rhs_record_get E R1 name \<noteq> None" "R' = R2"
    using assms(2) R1(1) R2(1) by (auto simp: rhs_record_exists_def Let_def)
  with R1 R2 show "free_mutex E R'" and "records R' = records R" and "b \<longleftrightarrow> rhs_record_get E R name \<noteq> None"
    using get_of_records [OF R1(4), of E] by simp_all
qed

text \<open>The wait of an open: it returns the data when it is there and never returns otherwise.\<close>

lemma open_wait_effect:
  assumes "rhs_record_get E R name = Some r" and "slot_ok k h (Some r)"
    and "rhs_record_open_wait E c R name = Inr (p, R')"
  shows "p = data r" and "rec_mutex R' = rec_mutex R"
    and "data r \<noteq> None \<Longrightarrow> rhs_record_get E R' n = rhs_record_get E R n"
proof -
  have opts: "(RHSFlagWaitAny OR RHSFlagNoClear) AND RHSFlagWaitAll = 0" "(RHSFlagWaitAny OR RHSFlagNoClear) AND RHSFlagNoClear \<noteq> 0"
    by (simp_all add: RHSFlagWaitAny_def RHSFlagNoClear_def RHSFlagWaitAll_def)
  show "p = data r" "rec_mutex R' = rec_mutex R"
    using assms(1,3) by (auto simp: rhs_record_open_wait_def rbind_eq_Inr)
  assume "data r \<noteq> None"
  then have "condition False RHS_RECORD_FLAG_READY (event_bits (flags r))"
    using assms(2) by (simp add: slot_ok_def condition_def RHS_RECORD_FLAG_READY_def)
  from ev.wait_met [OF this, of False RHSWaitForever] assms(1,3) opts
  have "R' = rhs_record_put E R name (r\<lparr>flags := flags r\<rparr>)"
    by (auto simp: rhs_record_open_wait_def rhs_event_flag_wait_def rbind_eq_Inr Let_def split: if_splits)
  then show "rhs_record_get E R' n = rhs_record_get E R n" using assms(1) by simp
qed

lemma rec_ok_get: "rec_ok E s \<Longrightarrow> slot_ok (users s n) (held s n) (rhs_record_get E (registry s) n)"
  by (simp add: rec_ok_def)

lemma rec_ok_slot:
  "rec_ok E s \<Longrightarrow> rhs_record_get E (registry s) n = Some r \<Longrightarrow> slot_ok (users s n) (held s n) (Some r)"
  using rec_ok_get [of s n] by simp

lemma rec_ok_used:
  assumes "rec_ok E s" and "0 < users s n"
  obtains r where "rhs_record_get E (registry s) n = Some r" and "unat (holders_count r) = users s n"
proof (cases "rhs_record_get E (registry s) n")
  case None
  with rec_ok_get [OF assms(1), of n] assms(2) show thesis by (simp add: slot_ok_def)
next
  case (Some r)
  with rec_ok_slot [OF assms(1) Some] that show thesis by (simp add: slot_ok_def)
qed

text \<open>The invariant is kept by every step.\<close>

lemma slot_ok_created:
  "slot_ok 0 0 (Some \<lparr>flags = xEventGroupCreateStatic (events E), data = None, holders_count = 0\<rparr>)"
  by (simp add: slot_ok_def ev.create)

lemma rec_ok_step:
  assumes "rec_step E s s'" and ok: "rec_ok E s"
  shows "rec_ok E s'"
proof -
  have free: "free_mutex E (registry s)" using ok by (simp add: rec_ok_def free_mutex_def)
  have entry: "slot_ok (users s n) (held s n) (rhs_record_get E (registry s) n)" for n
    using ok by (simp add: rec_ok_def)
  have heldle: "held s n \<le> users s n" for n by (simp add: users_def)
  have mk: "rec_ok E s'" if "free_mutex E (registry s')"
    and "\<And>n. slot_ok (users s' n) (held s' n) (rhs_record_get E (registry s') n)" for s'
    using that by (simp add: rec_ok_def free_mutex_def)
  have found: "slot_ok (users s n) (held s n) (Some r)"
    if "case rhs_record_get E (registry s) n of Some r' \<Rightarrow> r = r'
      | None \<Rightarrow> r = \<lparr>flags = xEventGroupCreateStatic (events E), data = None, holders_count = 0\<rparr>" for n r
    using that entry [of n] heldle [of n] slot_ok_created
    by (cases "rhs_record_get E (registry s) n") (auto simp: slot_ok_def)
  from assms(1) show ?thesis
  proof cases
    case (create c t n p R)
    from create_effect [OF free create(2)] obtain r g where
      e: "free_mutex E R" "p \<noteq> None" "data r = None"
        "case rhs_record_get E (registry s) n of Some r' \<Rightarrow> r = r'
         | None \<Rightarrow> r = \<lparr>flags = xEventGroupCreateStatic (events E), data = None, holders_count = 0\<rparr>"
        "\<not> clearing_waiter (flags r) \<longrightarrow> g = (flags r)\<lparr>event_bits := event_bits (flags r) OR RHS_RECORD_FLAG_READY\<rparr>"
        "\<forall>m. rhs_record_get E R m = (if m = n then Some (r\<lparr>data := p, flags := g\<rparr>) else rhs_record_get E (registry s) m)"
      by blast
    have "slot_ok (users s n) (held s n) (Some (r\<lparr>data := p, flags := g\<rparr>))"
      using found [OF e(4)] e(2,3,5) by (auto simp: slot_ok_def)
    with create(1) e(1,6) entry show ?thesis by (intro mk) (auto simp: users_def)
  next
    case (destroy c t n b R)
    from destroy_effect [OF free destroy(2)] obtain r where
      e: "rhs_record_get E (registry s) n = Some r" "free_mutex E R" "b \<longleftrightarrow> holders_count r = 0"
        "\<forall>m. rhs_record_get E R m = (if b \<and> m = n then None else rhs_record_get E (registry s) m)" by blast
    have "b \<Longrightarrow> slot_ok (users s n) (held s n) None"
      using entry [of n] e(1,3) by (simp add: slot_ok_def)
    with destroy(1) e(2,4) entry show ?thesis by (intro mk) (auto simp: users_def)
  next
    case (lookup c t n b R)
    from exists_effect [OF free lookup(2)] lookup(1) entry show ?thesis
      by (intro mk) (auto simp: users_def rhs_record_get_def)
  next
    case (open_begin n c t R)
    from open_begin_effect [OF free open_begin(3)] obtain r where
      e: "free_mutex E R"
        "case rhs_record_get E (registry s) n of Some r' \<Rightarrow> r = r'
         | None \<Rightarrow> r = \<lparr>flags = xEventGroupCreateStatic (events E), data = None, holders_count = 0\<rparr>"
        "\<forall>m. rhs_record_get E R m =
          (if m = n then Some (r\<lparr>holders_count := holders_count r + 1\<rparr>) else rhs_record_get E (registry s) m)" by blast
    have "unat (holders_count r) = users s n" using found [OF e(2)] by (simp add: slot_ok_def)
    moreover from this have "unat (holders_count r + 1) = Suc (users s n)"
      using open_begin(2) by (simp add: unat_word_ariths)
    ultimately have "slot_ok (Suc (users s n)) (held s n) (Some (r\<lparr>holders_count := holders_count r + 1\<rparr>))"
      using found [OF e(2)] by (auto simp: slot_ok_def)
    with open_begin(1) e(1,3) entry show ?thesis by (intro mk) (auto simp: users_def)
  next
    case (open_end n c p R)
    obtain r where r: "rhs_record_get E (registry s) n = Some r" "event_bits (flags r) \<noteq> 0"
      using open_end(3) by (auto simp: ready_def)
    have d: "data r \<noteq> None" using entry [of n] r by (auto simp: slot_ok_def split: if_splits)
    have o: "slot_ok (users s n) (held s n) (Some r)" using entry [of n] r by simp
    have get: "rhs_record_get E R m = rhs_record_get E (registry s) m" for m
      by (rule open_wait_effect(3) [OF r(1) o open_end(4) d])
    have "free_mutex E R" using open_wait_effect(2) [OF r(1) o open_end(4)] free by (simp add: free_mutex_def)
    moreover have "slot_ok (users s' m) (held s' m) (rhs_record_get E (registry s) m)" for m
      using entry [of m] o d r(1) open_end(1,2) by (cases "m = n") (auto simp: users_def slot_ok_def)
    ultimately show ?thesis using open_end(1) get by (intro mk) simp_all
  next
    case (close n c t R)
    from close_effect [OF free close(3)] obtain r where
      e: "rhs_record_get E (registry s) n = Some r" "free_mutex E R"
        "\<forall>m. rhs_record_get E R m =
          (if m = n then Some (r\<lparr>holders_count := holders_count r - 1\<rparr>) else rhs_record_get E (registry s) m)" by blast
    have c: "unat (holders_count r) = users s n" "0 < users s n"
      using entry [of n] e(1) close(2) by (simp_all add: slot_ok_def users_def)
    then have "unat (holders_count r - 1) = users s n - 1"
      by (simp add: unat_sub word_le_nat_alt)
    then have "slot_ok (users s n - 1) (held s n - 1) (Some (r\<lparr>holders_count := holders_count r - 1\<rparr>))"
      using entry [of n] e(1) by (auto simp: slot_ok_def)
    moreover have "users s n - 1 = pending s n + (held s n - 1)" using close(2) by (simp add: users_def)
    ultimately show ?thesis using close(1) e(2,3) entry by (intro mk) (auto simp: users_def)
  qed
qed

lemma rec_ok_init:
  assumes "rhs_record_init E c = Inr R0"
  shows "rec_ok E \<lparr>registry = R0, pending = (\<lambda>_. 0), held = (\<lambda>_. 0)\<rparr>"
  using assms m.create
  by (auto simp: rhs_record_init_def rhs_mutex_alloc_def rec_ok_def users_def rhs_record_get_def slot_ok_def rbind_eq_Inr)

lemma rec_ok_reachable:
  assumes "rec_reachable E R0 s" and "rhs_record_init E c = Inr R0"
  shows "rec_ok E s"
  using assms(1) by induction (blast intro: rec_ok_init [OF assms(2)] rec_ok_step)+

text \<open>The entries that a step keeps.\<close>

lemma kept_step:
  assumes "rec_ok E s" and "rec_step E s s'" and "0 < users s n"
  shows "\<exists>r r'. rhs_record_get E (registry s) n = Some r \<and> unat (holders_count r) = users s n \<and>
     rhs_record_get E (registry s') n = Some r' \<and> (data r \<noteq> None \<longrightarrow> data r' = data r)"
proof -
  have free: "free_mutex E (registry s)" using assms(1) by (simp add: rec_ok_def free_mutex_def)
  obtain r where r: "rhs_record_get E (registry s) n = Some r" "unat (holders_count r) = users s n"
    using rec_ok_used [OF assms(1,3)] by metis
  have "\<exists>r'. rhs_record_get E (registry s') n = Some r' \<and> (data r \<noteq> None \<longrightarrow> data r' = data r)"
    using assms(2)
  proof cases
    case (create c t m p R)
    from create_effect [OF free create(2)] r(1) create(1) show ?thesis by (cases "m = n") auto
  next
    case (destroy c t m b R)
    from destroy_effect [OF free destroy(2)] r assms(3) destroy(1) show ?thesis by auto
  next
    case (lookup c t m b R)
    from exists_effect(2) [OF free lookup(2)] r(1) lookup(1) show ?thesis by (simp add: rhs_record_get_def)
  next
    case (open_begin m c t R)
    from open_begin_effect [OF free open_begin(3)] r(1) open_begin(1) show ?thesis by (cases "m = n") auto
  next
    case (open_end m c p R)
    obtain rm where rm: "rhs_record_get E (registry s) m = Some rm" "event_bits (flags rm) \<noteq> 0"
      using open_end(3) by (auto simp: ready_def)
    have om: "slot_ok (users s m) (held s m) (Some rm)" by (rule rec_ok_slot [OF assms(1) rm(1)])
    then have "data rm \<noteq> None" using rm(2) by (auto simp: slot_ok_def split: if_splits)
    from open_wait_effect(3) [OF rm(1) om open_end(4) this] r(1) open_end(1) show ?thesis by simp
  next
    case (close m c t R)
    from close_effect [OF free close(3)] r(1) close(1) show ?thesis by (cases "m = n") auto
  qed
  with r show ?thesis by blast
qed

end

section \<open>Properties\<close>

text \<open>C9: a record in use is never removed nor its data replaced: in every state that tasks reach by creating,
  opening, closing and destroying records, the holder count of a record is the number of its outstanding opens, and
  whatever step follows, a record with an outstanding open stays registered with the data it has.\<close>

theorem record_in_use_is_kept:
  assumes "registry_libs E" and "rhs_record_init E c = Inr R0" and "rec_reachable E R0 s"
    and "rec_step E s s'" and "0 < users s n"
  shows "\<exists>r r'. rhs_record_get E (registry s) n = Some r \<and> unat (holders_count r) = users s n \<and>
     rhs_record_get E (registry s') n = Some r' \<and> (data r \<noteq> None \<longrightarrow> data r' = data r)"
  by (rule registry_libs.kept_step [OF assms(1) registry_libs.rec_ok_reachable [OF assms(1,3,2)] assms(4,5)])

text \<open>In every reachable state, destroying a record reports success exactly when nobody has it open, and then the
  record is gone.\<close>

theorem record_destroy_iff_unused:
  assumes "registry_libs E" and "rhs_record_init E c = Inr R0" and "rec_reachable E R0 s"
    and "rhs_record_destroy E c' me (registry s) n = Inr (b, R)"
  shows "(b \<longleftrightarrow> users s n = 0) \<and> (b \<longleftrightarrow> rhs_record_get E R n = None)"
proof -
  note ok = registry_libs.rec_ok_reachable [OF assms(1,3,2)]
  then have "free_mutex E (registry s)" by (simp add: rec_ok_def free_mutex_def)
  from registry_libs.destroy_effect [OF assms(1) this assms(4)] obtain r where
    r: "rhs_record_get E (registry s) n = Some r" "b \<longleftrightarrow> holders_count r = 0"
      "\<forall>m. rhs_record_get E R m = (if b \<and> m = n then None else rhs_record_get E (registry s) m)" by blast
  have "slot_ok (users s n) (held s n) (Some r)" by (rule registry_libs.rec_ok_slot [OF assms(1) ok r(1)])
  then have "holders_count r = 0 \<longleftrightarrow> users s n = 0" by (auto simp: slot_ok_def unat_eq_0)
  with r show ?thesis by auto
qed

text \<open>In every reachable state, an open that returns gives the published pointer, never NULL.\<close>

theorem record_open_returns_data:
  assumes "registry_libs E" and "rhs_record_init E c = Inr R0" and "rec_reachable E R0 s"
    and "ready E (registry s) n" and "rhs_record_open_wait E c' (registry s) n = Inr (p, R)"
  shows "p \<noteq> None \<and> (\<exists>r. rhs_record_get E (registry s) n = Some r \<and> p = data r)"
proof -
  obtain r where r: "rhs_record_get E (registry s) n = Some r" "event_bits (flags r) \<noteq> 0"
    using assms(4) by (auto simp: ready_def)
  have o: "slot_ok (users s n) (held s n) (Some r)"
    by (rule registry_libs.rec_ok_slot [OF assms(1) registry_libs.rec_ok_reachable [OF assms(1,3,2)] r(1)])
  then have "data r \<noteq> None" using r(2) by (auto simp: slot_ok_def split: if_splits)
  with registry_libs.open_wait_effect(1) [OF assms(1) r(1) o assms(5)] r(1) show ?thesis by auto
qed

section \<open>Examples\<close>

text \<open>A task opens a record before another one creates it.\<close>

type_synonym demo_registry = "(nat, string \<rightharpoonup> nat record_data) registry"

definition demo0 :: demo_registry where
  "demo0 = \<lparr>rec_mutex = \<lparr>ucQueueType = 1, holder = None, rec_depth = 0\<rparr>, records = Map.empty\<rparr>"

definition demo_entry :: "nat option \<Rightarrow> u32 \<Rightarrow> nat record_data" where
  "demo_entry p k = \<lparr>flags = \<lparr>event_bits = (if p = None then 0 else 1), deferred = [], clearing_waiter = False\<rparr>,
     data = p, holders_count = k\<rparr>"

definition demo1 :: demo_registry where
  "demo1 = demo0\<lparr>records := [''cli'' \<mapsto> demo_entry None 1]\<rparr>"

definition demo2 :: demo_registry where
  "demo2 = demo0\<lparr>records := [''cli'' \<mapsto> demo_entry (Some 42) 1]\<rparr>"

lemmas demo_defs = demo0_def demo1_def demo2_def demo_entry_def plain_libs_def map_dict_def plain_mutex_def
  plain_events_def take_status_def rhs_record_lock_def rhs_record_unlock_def rhs_mutex_acquire_def
  rhs_mutex_release_def rhs_record_get_def rhs_record_put_def rhs_record_data_get_or_create_def
  rhs_event_flag_alloc_def rhs_event_flag_set_def RHS_RECORD_FLAG_READY_def

abbreviation demo_libs :: "(nat, nat, string \<rightharpoonup> nat record_data) libs" where
  "demo_libs \<equiv> plain_libs"

lemma valid_flags_1 [simp]: "valid_flags 1"
  using valid_ready by (simp add: RHS_RECORD_FLAG_READY_def)

lemma demo_steps:
  "rhs_record_init demo_libs task_ctx = Inr demo0"
  "rhs_record_open_begin demo_libs task_ctx 1 demo0 ''cli'' = Inr demo1"
  "rhs_record_create demo_libs task_ctx 2 demo1 ''cli'' (Some 42) = Inr demo2"
  "rhs_record_open_wait demo_libs task_ctx demo2 ''cli'' = Inr (Some 42, demo2)"
  "rhs_record_destroy demo_libs task_ctx 2 demo2 ''cli'' = Inr (False, demo2)"
  by (simp_all add: demo_defs rhs_record_init_def rhs_mutex_alloc_def rhs_record_open_begin_def rhs_record_create_def
      rhs_record_open_wait_def rhs_event_flag_wait_def rhs_record_destroy_def condition_def RHSFlagWaitAny_def
      RHSFlagNoClear_def RHSFlagWaitAll_def)

lemma demo_reachable:
  "rec_reachable demo_libs demo0 \<lparr>registry = demo2, pending = (\<lambda>_. 0)(''cli'' := 1), held = (\<lambda>_. 0)\<rparr>"
proof -
  let ?s0 = "\<lparr>registry = demo0, pending = (\<lambda>_. 0), held = (\<lambda>_. 0)\<rparr> :: (nat, string \<rightharpoonup> nat record_data) rec_system"
  let ?s1 = "\<lparr>registry = demo1, pending = (\<lambda>_. 0)(''cli'' := 1), held = (\<lambda>_. 0)\<rparr>"
  have "rec_step demo_libs ?s0 ?s1"
    using rec_step.open_begin [of ?s0 "''cli''" demo_libs task_ctx 1 demo1] demo_steps(2)
    by (simp add: users_def)
  moreover have "rec_step demo_libs ?s1 (?s1\<lparr>registry := demo2\<rparr>)"
    by (rule rec_step.create [of _ task_ctx 2 _ "''cli''" "Some 42"]) (simp add: demo_steps(3))
  ultimately show ?thesis using rec_reachable.start [of demo_libs demo0]
    by (auto intro: rec_reachable.step)
qed

lemma record_in_use_is_kept_witness:
  "\<exists>r r'. demo_entry (Some 42) 1 = r \<and> rhs_record_get demo_libs demo2 ''cli'' = Some r' \<and> data r' = data r"
  using record_in_use_is_kept [OF plain_libs.registry_libs_axioms demo_steps(1) demo_reachable
      rec_step.destroy [of demo_libs task_ctx 2 _ "''cli''" False demo2], of "''cli''"] demo_steps(5)
  by (simp add: users_def demo2_def demo_entry_def rhs_record_get_def plain_libs_def map_dict_def)

lemma record_destroy_iff_unused_witness:
  "(False \<longleftrightarrow> (1 :: nat) = 0) \<and> (False \<longleftrightarrow> rhs_record_get demo_libs demo2 ''cli'' = None)"
  using record_destroy_iff_unused [OF plain_libs.registry_libs_axioms demo_steps(1) demo_reachable,
      of task_ctx 2 "''cli''" False demo2] demo_steps(5)
  by (simp add: users_def)

lemma record_open_returns_data_witness:
  "Some 42 \<noteq> (None :: nat option) \<and> (\<exists>r. rhs_record_get demo_libs demo2 ''cli'' = Some r \<and> Some 42 = data r)"
proof -
  have "ready demo_libs demo2 ''cli''"
    by (simp add: ready_def demo2_def demo_entry_def rhs_record_get_def plain_libs_def map_dict_def)
  then show ?thesis
    using record_open_returns_data [OF plain_libs.registry_libs_axioms demo_steps(1) demo_reachable,
        of "''cli''" task_ctx "Some 42" demo2] demo_steps(4) by simp
qed

end
