(* ===== verification/Stream_Buffer.thy ===== *)
theory Stream_Buffer
  imports Kernel
begin

text \<open>
  The byte stream of core/stream_buf.c over FreeRTOS stream buffers. A stream object is its
  bytes in order, the size of its storage (of which FreeRTOS uses one byte less) and the
  trigger level the code reads. The FreeRTOS calls are parameters under the locale
  \<open>rtos_stream\<close>. The lemmas show that sends and receives form a byte FIFO.
\<close>

section \<open>The stream object and the calls\<close>

record stream_obj =
  bytes :: "u8 list"
  storage :: nat
  xTriggerLevelBytes :: u32

text \<open>
  An interrupt call may set the flag that asks for a context switch: it returns the new
  value of that flag for the old one.
\<close>

record stream_api =
  xStreamBufferCreateStatic :: "nat \<Rightarrow> u32 \<Rightarrow> stream_obj"
  xStreamBufferSetTriggerLevel :: "stream_obj \<Rightarrow> u32 \<Rightarrow> bool \<times> stream_obj"
  xStreamBufferSend :: "stream_obj \<Rightarrow> u8 list \<Rightarrow> u32 \<Rightarrow> (nat \<times> stream_obj) option"
  xStreamBufferSendFromISR :: "stream_obj \<Rightarrow> u8 list \<Rightarrow> bool \<Rightarrow> nat \<times> bool \<times> stream_obj"
  xStreamBufferReceive :: "stream_obj \<Rightarrow> nat \<Rightarrow> u32 \<Rightarrow> (u8 list \<times> stream_obj) option"
  xStreamBufferReceiveFromISR :: "stream_obj \<Rightarrow> nat \<Rightarrow> bool \<Rightarrow> u8 list \<times> bool \<times> stream_obj"
  xStreamBufferBytesAvailable :: "stream_obj \<Rightarrow> nat"
  xStreamBufferSpacesAvailable :: "stream_obj \<Rightarrow> nat"
  xStreamBufferIsFull :: "stream_obj \<Rightarrow> bool"
  xStreamBufferIsEmpty :: "stream_obj \<Rightarrow> bool"
  xStreamBufferReset :: "stream_obj \<Rightarrow> bool \<times> stream_obj"

section \<open>Operations\<close>

text \<open>\<open>buffer_size\<close> is a \<open>uint16_t\<close>, so \<open>size + 1\<close> wraps at the largest size.\<close>

definition rhs_stream_buffer_alloc :: "stream_api \<Rightarrow> u16 \<Rightarrow> u16 \<Rightarrow> stream_obj res" where
  "rhs_stream_buffer_alloc A sz trigger_level =
     rhs_assert (sz \<noteq> 0)
       (let buffer_size = sz + 1
        in Inr (xStreamBufferCreateStatic A (unat buffer_size) (ucast trigger_level)))"

definition rhs_stream_buffer_free :: "stream_obj option \<Rightarrow> unit res" where
  "rhs_stream_buffer_free inst = rhs_assert (inst \<noteq> None) (Inr ())"

definition rhs_stream_set_trigger_level :: "stream_api \<Rightarrow> stream_obj \<Rightarrow> u16 \<Rightarrow> bool \<times> stream_obj" where
  "rhs_stream_set_trigger_level A b trigger_level = xStreamBufferSetTriggerLevel A b (ucast trigger_level)"

definition rhs_stream_get_trigger_level :: "stream_obj \<Rightarrow> u16" where
  "rhs_stream_get_trigger_level b = ucast (xTriggerLevelBytes b)"

text \<open>
  \<open>junk\<close> is the value of the variable \<open>yield\<close>, which the interrupt branches pass on
  without setting it. The results are the count, whether to yield, and the stream.
\<close>

definition rhs_stream_buffer_send ::
  "stream_api \<Rightarrow> ctx \<Rightarrow> bool \<Rightarrow> stream_obj \<Rightarrow> u8 list \<Rightarrow> u32 \<Rightarrow> (u16 \<times> bool \<times> stream_obj) res" where
  "rhs_stream_buffer_send A c junk b data timeout =
     (if RHS_IS_IRQ_MODE c then
        (case xStreamBufferSendFromISR A b data junk of (n, yield, b') \<Rightarrow> Inr (of_nat n, yield, b'))
      else
        (case xStreamBufferSend A b data timeout of
           None \<Rightarrow> Inl Blocked
         | Some (n, b') \<Rightarrow> Inr (of_nat n, False, b')))"

definition rhs_stream_buffer_receive ::
  "stream_api \<Rightarrow> ctx \<Rightarrow> bool \<Rightarrow> stream_obj \<Rightarrow> u16 \<Rightarrow> u32 \<Rightarrow> (u16 \<times> u8 list \<times> bool \<times> stream_obj) res" where
  "rhs_stream_buffer_receive A c junk b len timeout =
     (if RHS_IS_IRQ_MODE c then
        (case xStreamBufferReceiveFromISR A b (unat len) junk of (d, yield, b') \<Rightarrow>
           Inr (of_nat (length d), d, yield, b'))
      else
        (case xStreamBufferReceive A b (unat len) timeout of
           None \<Rightarrow> Inl Blocked
         | Some (d, b') \<Rightarrow> Inr (of_nat (length d), d, False, b')))"

definition rhs_stream_buffer_bytes_available :: "stream_api \<Rightarrow> stream_obj \<Rightarrow> u16" where
  "rhs_stream_buffer_bytes_available A b = of_nat (xStreamBufferBytesAvailable A b)"

definition rhs_stream_buffer_spaces_available :: "stream_api \<Rightarrow> stream_obj \<Rightarrow> u16" where
  "rhs_stream_buffer_spaces_available A b = of_nat (xStreamBufferSpacesAvailable A b)"

definition rhs_stream_buffer_is_full :: "stream_api \<Rightarrow> stream_obj \<Rightarrow> bool" where
  "rhs_stream_buffer_is_full A b = xStreamBufferIsFull A b"

definition rhs_stream_buffer_is_empty :: "stream_api \<Rightarrow> stream_obj \<Rightarrow> bool" where
  "rhs_stream_buffer_is_empty A b = xStreamBufferIsEmpty A b"

definition rhs_stream_buffer_reset :: "stream_api \<Rightarrow> stream_obj \<Rightarrow> rhs_status \<times> stream_obj" where
  "rhs_stream_buffer_reset A b =
     (case xStreamBufferReset A b of (ok, b') \<Rightarrow> (if ok then RHSStatusOk else RHSStatusError, b'))"

section \<open>The FreeRTOS contract\<close>

definition capacity :: "stream_obj \<Rightarrow> nat" where
  "capacity b = storage b - 1"

text \<open>Without waiting, a send stores what fits and a receive takes what is there.\<close>

definition store_bytes :: "stream_obj \<Rightarrow> u8 list \<Rightarrow> stream_obj" where
  "store_bytes b d = b\<lparr>bytes := bytes b @ take (capacity b - length (bytes b)) d\<rparr>"

definition stored :: "stream_obj \<Rightarrow> u8 list \<Rightarrow> nat" where
  "stored b d = min (length d) (capacity b - length (bytes b))"

locale rtos_stream =
  fixes A :: stream_api
  assumes create: "1 < n \<Longrightarrow> xStreamBufferCreateStatic A n t = \<lparr>bytes = [], storage = n, xTriggerLevelBytes = (if t = 0 then 1 else t)\<rparr>"
    and send: "xStreamBufferSend A b d 0 = Some (stored b d, store_bytes b d)"
    and send_isr: "\<exists>y'. xStreamBufferSendFromISR A b d y = (stored b d, y', store_bytes b d)"
    and receive: "xStreamBufferReceive A b n 0 = Some (take n (bytes b), b\<lparr>bytes := drop n (bytes b)\<rparr>)"
    and receive_isr: "\<exists>y'. xStreamBufferReceiveFromISR A b n y = (take n (bytes b), y', b\<lparr>bytes := drop n (bytes b)\<rparr>)"
    and available: "xStreamBufferBytesAvailable A b = length (bytes b)"
    and spaces: "xStreamBufferSpacesAvailable A b = capacity b - length (bytes b)"

definition plain_stream :: stream_api where
  "plain_stream = \<lparr>
     xStreamBufferCreateStatic = (\<lambda>n t. \<lparr>bytes = [], storage = n, xTriggerLevelBytes = (if t = 0 then 1 else t)\<rparr>),
     xStreamBufferSetTriggerLevel = (\<lambda>b t. if unat t \<le> storage b then (True, b\<lparr>xTriggerLevelBytes := t\<rparr>) else (False, b)),
     xStreamBufferSend = (\<lambda>b d t. Some (stored b d, store_bytes b d)),
     xStreamBufferSendFromISR = (\<lambda>b d y. (stored b d, y, store_bytes b d)),
     xStreamBufferReceive = (\<lambda>b n t. Some (take n (bytes b), b\<lparr>bytes := drop n (bytes b)\<rparr>)),
     xStreamBufferReceiveFromISR = (\<lambda>b n y. (take n (bytes b), y, b\<lparr>bytes := drop n (bytes b)\<rparr>)),
     xStreamBufferBytesAvailable = (\<lambda>b. length (bytes b)),
     xStreamBufferSpacesAvailable = (\<lambda>b. capacity b - length (bytes b)),
     xStreamBufferIsFull = (\<lambda>b. length (bytes b) = capacity b),
     xStreamBufferIsEmpty = (\<lambda>b. bytes b = []),
     xStreamBufferReset = (\<lambda>b. (True, b\<lparr>bytes := []\<rparr>))\<rparr>"

interpretation plain_stream: rtos_stream plain_stream
  by unfold_locales (simp_all add: plain_stream_def)

section \<open>Streams of sends and receives\<close>

datatype stream_op = Send "u8 list" | Receive u16

text \<open>
  Runs a list of operations without waiting; the results are the bytes the sends accepted
  and the bytes the receives returned, in order, and the stream. A send of more than
  65535 bytes cannot be written: its length is a \<open>uint16_t\<close>.
\<close>

fun stream_run ::
  "stream_api \<Rightarrow> (ctx \<times> bool \<times> stream_op) list \<Rightarrow> stream_obj \<Rightarrow> (u8 list \<times> u8 list \<times> stream_obj) res" where
  "stream_run A [] b = Inr ([], [], b)"
| "stream_run A ((c, junk, Send d) # ops) b =
     rbind (rhs_stream_buffer_send A c junk b d 0) (\<lambda>(n, _, b').
       rbind (stream_run A ops b') (\<lambda>(i, out, b''). Inr (take (unat n) d @ i, out, b'')))"
| "stream_run A ((c, junk, Receive len) # ops) b =
     rbind (rhs_stream_buffer_receive A c junk b len 0) (\<lambda>(n, d, _, b').
       rbind (stream_run A ops b') (\<lambda>(i, out, b''). Inr (i, take (unat n) d @ out, b'')))"

definition sends_fit :: "(ctx \<times> bool \<times> stream_op) list \<Rightarrow> bool" where
  "sends_fit ops \<longleftrightarrow> (\<forall>(_, _, op) \<in> set ops. case op of Send d \<Rightarrow> length d < 65536 | Receive _ \<Rightarrow> True)"

context rtos_stream begin

lemma send_step:
  assumes "length d < 65536"
  shows "\<exists>n y. rhs_stream_buffer_send A c junk b d 0 = Inr (n, y, store_bytes b d) \<and>
     unat n = stored b d \<and> bytes (store_bytes b d) = bytes b @ take (unat n) d"
proof -
  have u: "unat (of_nat (stored b d) :: u16) = stored b d"
    using assms by (simp add: stored_def unat_of_nat)
  have t: "take (stored b d) d = take (capacity b - length (bytes b)) d" by (simp add: stored_def min_def)
  obtain y' where "xStreamBufferSendFromISR A b d junk = (stored b d, y', store_bytes b d)" using send_isr by blast
  with u t show ?thesis by (cases "RHS_IS_IRQ_MODE c") (auto simp: rhs_stream_buffer_send_def send store_bytes_def)
qed

lemma receive_step:
  "\<exists>n y. rhs_stream_buffer_receive A c junk b len 0 = Inr (n, take (unat len) (bytes b), y, b\<lparr>bytes := drop (unat len) (bytes b)\<rparr>) \<and>
     take (unat n) (take (unat len) (bytes b)) = take (unat len) (bytes b)"
proof -
  have "length (take (unat len) (bytes b)) < 65536" using unat_u16_less [of len] by simp
  then have u: "unat (of_nat (length (take (unat len) (bytes b))) :: u16) = length (take (unat len) (bytes b))"
    by (simp only: unat_of_nat) simp
  obtain y' where "xStreamBufferReceiveFromISR A b (unat len) junk =
      (take (unat len) (bytes b), y', b\<lparr>bytes := drop (unat len) (bytes b)\<rparr>)" using receive_isr by blast
  then have "\<exists>y. rhs_stream_buffer_receive A c junk b len 0 =
      Inr (of_nat (length (take (unat len) (bytes b))), take (unat len) (bytes b), y, b\<lparr>bytes := drop (unat len) (bytes b)\<rparr>)"
    by (cases "RHS_IS_IRQ_MODE c") (auto simp: rhs_stream_buffer_receive_def receive simp del: length_take)
  moreover have "take (unat (of_nat (length (take (unat len) (bytes b))) :: u16)) (take (unat len) (bytes b)) =
      take (unat len) (bytes b)" unfolding u by (rule take_all) simp
  ultimately show ?thesis by blast
qed

lemma stream_run_fifo:
  assumes "sends_fit ops" and "length (bytes b) \<le> capacity b"
  shows "\<exists>i out b'. stream_run A ops b = Inr (i, out, b') \<and> bytes b @ i = out @ bytes b' \<and>
     length (bytes b') \<le> capacity b \<and> storage b' = storage b"
  using assms
proof (induction ops arbitrary: b)
  case (Cons a ops)
  obtain c junk op where a: "a = (c, junk, op)" by (metis surj_pair)
  have fit: "sends_fit ops" using Cons.prems(1) by (simp add: sends_fit_def)
  show ?case
  proof (cases op)
    case (Send d)
    then have "length d < 65536" using Cons.prems(1) by (simp add: sends_fit_def a)
    from send_step [OF this, of c junk b] obtain n y where
      n: "rhs_stream_buffer_send A c junk b d 0 = Inr (n, y, store_bytes b d)"
        "unat n = stored b d" "bytes (store_bytes b d) = bytes b @ take (unat n) d" by blast
    have "length (bytes (store_bytes b d)) \<le> capacity (store_bytes b d)"
      "capacity (store_bytes b d) = capacity b" "storage (store_bytes b d) = storage b"
      using Cons.prems(2) by (simp_all add: store_bytes_def capacity_def)
    with Cons.IH [OF fit, of "store_bytes b d"] n show ?thesis by (auto simp: a Send)
  next
    case (Receive len)
    let ?b = "b\<lparr>bytes := drop (unat len) (bytes b)\<rparr>"
    from receive_step [of c junk b len] obtain n y where
      n: "rhs_stream_buffer_receive A c junk b len 0 = Inr (n, take (unat len) (bytes b), y, ?b)"
        "take (unat n) (take (unat len) (bytes b)) = take (unat len) (bytes b)" by blast
    have "length (bytes ?b) \<le> capacity ?b" "capacity ?b = capacity b" "storage ?b = storage b"
      using Cons.prems(2) by (simp_all add: capacity_def)
    from Cons.IH [OF fit this(1)] obtain i out b' where
      h: "stream_run A ops ?b = Inr (i, out, b')" "bytes ?b @ i = out @ bytes b'"
        "length (bytes b') \<le> capacity b" "storage b' = storage b"
      using \<open>capacity ?b = capacity b\<close> by auto
    have "bytes b @ i = take (unat len) (bytes b) @ (out @ bytes b')"
      using h(2) by (metis append.assoc append_take_drop_id stream_obj.select_convs(1) stream_obj.surjective
          stream_obj.update_convs(1))
    with h n show ?thesis by (simp add: a Receive del: take_take)
  qed
qed simp

end

section \<open>Properties\<close>

text \<open>A stream of size n holds n bytes, and over any sequence of non-waiting sends and receives from tasks and
  interrupts the bytes received followed by the bytes left are exactly the bytes accepted, in order, and never more
  than n bytes are stored.\<close>

theorem stream_buffer_is_byte_fifo:
  assumes "rtos_stream A" and "sz \<noteq> 0" and "sz \<noteq> 0xFFFF" and "sends_fit ops"
  shows "\<exists>b sent got b'. rhs_stream_buffer_alloc A sz t = Inr b \<and> stream_run A ops b = Inr (sent, got, b') \<and>
     sent = got @ bytes b' \<and> length (bytes b') \<le> unat sz"
proof -
  have "sz < 0xFFFF" using assms(3) by (simp add: order_less_le word_le_nat_alt) (use unat_u16_less [of sz] in simp)
  then have "unat (sz + 1) = Suc (unat sz)" by (rule unat_loop_Suc)
  moreover have "0 < unat sz" using assms(2) by (simp add: unat_gt_0)
  ultimately obtain b where b: "rhs_stream_buffer_alloc A sz t = Inr b" "bytes b = []" "capacity b = unat sz"
    using assms(2) rtos_stream.create [OF assms(1), of "unat (sz + 1)"]
    by (auto simp: rhs_stream_buffer_alloc_def capacity_def)
  with rtos_stream.stream_run_fifo [OF assms(1,4), of b] show ?thesis by auto
qed

lemma stream_buffer_is_byte_fifo_witness:
  "\<exists>b sent got b'. rhs_stream_buffer_alloc plain_stream 4 1 = Inr b \<and>
     stream_run plain_stream [(task_ctx, False, Send [1, 2, 3]), (isr_ctx, True, Receive 2), (isr_ctx, False, Send [4, 5, 6, 7])] b =
       Inr (sent, got, b') \<and>
     sent = got @ bytes b' \<and> length (bytes b') \<le> unat (4 :: u16)"
  by (rule stream_buffer_is_byte_fifo [OF plain_stream.rtos_stream_axioms]) (simp_all add: sends_fit_def)

end
