(* ===== verification/Timer.thy ===== *)
theory Timer
  imports Kernel
begin

text \<open>
  The software timers of core/timer.c over the FreeRTOS timer task. Every call that acts on
  a timer posts a command to the queue of the timer task; the task executes them in order
  and runs the callbacks of active timers. The calls are parameters: an operation gets the
  answer of the queue (posted or not). The lemmas give the status of every operation, and
  show that \<open>rhs_timer_free\<close> releases the instance only when the timer task can no longer
  touch it.
\<close>

section \<open>Commands of the timer task\<close>

datatype timer_type = RHSTimerTypeOnce | RHSTimerTypePeriodic

datatype timer_cmd = ChangePeriod u32 | ResetTimer | StopTimer | DeleteTimer | Epilogue

record ('cb, 'x) timer_obj =
  cb_func :: 'cb
  cb_context :: 'x
  auto_reload :: bool
  period :: u32

definition portMAX_DELAY :: u32 where "portMAX_DELAY = 0xFFFFFFFF"

section \<open>Operations\<close>

text \<open>
  \<open>post cmd\<close> is the answer of the command queue to a command posted with the longest
  timeout; the results list the commands that were posted.
\<close>

definition rhs_timer_alloc :: "ctx \<Rightarrow> 'cb option \<Rightarrow> timer_type \<Rightarrow> 'x \<Rightarrow> ('cb, 'x) timer_obj res" where
  "rhs_timer_alloc c func ty context =
     (case func of
        None \<Rightarrow> Inl AssertFailed
      | Some f \<Rightarrow>
          rhs_assert (\<not> rhs_kernel_is_irq_or_masked c)
            (Inr \<lparr>cb_func = f, cb_context = context,
                  auto_reload = (if ty = RHSTimerTypeOnce then False else True), period = portMAX_DELAY\<rparr>))"

definition TimerCallback :: "('cb, 'x) timer_obj option \<Rightarrow> ('cb \<times> 'x) res" where
  "TimerCallback inst =
     (case inst of None \<Rightarrow> Inl AssertFailed | Some t \<Rightarrow> Inr (cb_func t, cb_context t))"

definition rhs_timer_start :: "ctx \<Rightarrow> (timer_cmd \<Rightarrow> bool) \<Rightarrow> u32 \<Rightarrow> (rhs_status \<times> timer_cmd list) res" where
  "rhs_timer_start c post ticks =
     rhs_assert (\<not> rhs_kernel_is_irq_or_masked c)
       (rhs_assert (ticks < portMAX_DELAY)
         (if post (ChangePeriod ticks) then Inr (RHSStatusOk, [ChangePeriod ticks])
          else Inr (RHSStatusErrorResource, [])))"

definition rhs_timer_restart :: "ctx \<Rightarrow> (timer_cmd \<Rightarrow> bool) \<Rightarrow> u32 \<Rightarrow> (rhs_status \<times> timer_cmd list) res" where
  "rhs_timer_restart c post ticks =
     rhs_assert (\<not> rhs_kernel_is_irq_or_masked c)
       (rhs_assert (ticks < portMAX_DELAY)
         (if post (ChangePeriod ticks) then
            (if post ResetTimer then Inr (RHSStatusOk, [ChangePeriod ticks, ResetTimer])
             else Inr (RHSStatusErrorResource, [ChangePeriod ticks]))
          else Inr (RHSStatusErrorResource, [])))"

definition rhs_timer_stop :: "ctx \<Rightarrow> (timer_cmd \<Rightarrow> bool) \<Rightarrow> (rhs_status \<times> timer_cmd list) res" where
  "rhs_timer_stop c post =
     rhs_assert (\<not> rhs_kernel_is_irq_or_masked c)
       (rhs_assert (post StopTimer) (Inr (RHSStatusOk, [StopTimer])))"

definition rhs_timer_is_running :: "ctx \<Rightarrow> bool \<Rightarrow> u32 res" where
  "rhs_timer_is_running c is_active =
     rhs_assert (\<not> rhs_kernel_is_irq_or_masked c) (Inr (if is_active then 1 else 0))"

definition rhs_timer_get_expire_time :: "ctx \<Rightarrow> u32 \<Rightarrow> u32 res" where
  "rhs_timer_get_expire_time c expiry = rhs_assert (\<not> rhs_kernel_is_irq_or_masked c) (Inr expiry)"

text \<open>\<open>post\<close> and \<open>post_isr\<close> are the answers of the two variants of the pend call.\<close>

definition rhs_timer_pending_callback :: "ctx \<Rightarrow> bool \<Rightarrow> bool \<Rightarrow> bool \<Rightarrow> unit res" where
  "rhs_timer_pending_callback c callback post post_isr =
     rhs_assert callback
       (rhs_assert (if rhs_kernel_is_irq_or_masked c then post_isr else post) (Inr ()))"

datatype timer_priority = RHSTimerThreadPriorityNormal | RHSTimerThreadPriorityElevated

text \<open>The new priority of the timer task, from the two configuration constants.\<close>

definition rhs_timer_set_thread_priority :: "ctx \<Rightarrow> bool \<Rightarrow> u32 \<Rightarrow> u32 \<Rightarrow> timer_priority \<Rightarrow> u32 res" where
  "rhs_timer_set_thread_priority c has_task configTIMER_TASK_PRIORITY configMAX_PRIORITIES p =
     rhs_assert (\<not> rhs_kernel_is_irq_or_masked c)
       (rhs_assert has_task
         (case p of
            RHSTimerThreadPriorityNormal \<Rightarrow> Inr configTIMER_TASK_PRIORITY
          | RHSTimerThreadPriorityElevated \<Rightarrow> Inr (configMAX_PRIORITIES - 1)))"

section \<open>Freeing a timer\<close>

text \<open>
  \<open>rhs_timer_free\<close> call by call: it posts the delete, posts \<open>rhs_timer_epilogue\<close>, waits for
  the event the epilogue sets, and frees the instance. \<open>pc\<close> is where it is.
\<close>

datatype free_pc = InUse | DeletePosted | EpiloguePosted | Freed

record timer_sys =
  commands :: "timer_cmd list"
  is_active :: bool
  event_set :: bool
  pc :: free_pc

text \<open>The bit \<open>TIMER_DELETED_EVENT\<close> set by the pended function.\<close>

definition rhs_timer_epilogue :: "timer_sys \<Rightarrow> timer_sys" where
  "rhs_timer_epilogue s = s\<lparr>event_set := True\<rparr>"

text \<open>Executing a command in the timer task, as FreeRTOS documents it.\<close>

definition execute :: "timer_cmd \<Rightarrow> timer_sys \<Rightarrow> timer_sys" where
  "execute cmd s = (case cmd of
     ChangePeriod _ \<Rightarrow> s\<lparr>is_active := True\<rparr>
   | ResetTimer \<Rightarrow> s\<lparr>is_active := True\<rparr>
   | StopTimer \<Rightarrow> s\<lparr>is_active := False\<rparr>
   | DeleteTimer \<Rightarrow> s\<lparr>is_active := False\<rparr>
   | Epilogue \<Rightarrow> rhs_timer_epilogue s)"

text \<open>The steps of \<open>rhs_timer_free\<close>; \<open>None\<close> when it has to wait.\<close>

definition rhs_timer_free_step :: "ctx \<Rightarrow> timer_sys \<Rightarrow> timer_sys option" where
  "rhs_timer_free_step c s = (case pc s of
     InUse \<Rightarrow> if rhs_kernel_is_irq_or_masked c then None
              else Some (s\<lparr>commands := commands s @ [DeleteTimer], pc := DeletePosted\<rparr>)
   | DeletePosted \<Rightarrow> Some (s\<lparr>commands := commands s @ [Epilogue], pc := EpiloguePosted\<rparr>)
   | EpiloguePosted \<Rightarrow> if event_set s then Some (s\<lparr>pc := Freed\<rparr>) else None
   | Freed \<Rightarrow> None)"

text \<open>
  A step of the system: the owner posts a start, restart or stop while it has not begun to
  free the timer; the timer task executes the oldest command, or fires an active timer,
  after which a one-shot timer is dormant; \<open>rhs_timer_free\<close> advances.
\<close>

inductive timer_step :: "timer_sys \<Rightarrow> timer_sys \<Rightarrow> bool" where
  start: "pc s = InUse \<Longrightarrow> rhs_timer_start c post ticks = Inr (r, cmds) \<Longrightarrow>
     timer_step s (s\<lparr>commands := commands s @ cmds\<rparr>)"
| restart: "pc s = InUse \<Longrightarrow> rhs_timer_restart c post ticks = Inr (r, cmds) \<Longrightarrow>
     timer_step s (s\<lparr>commands := commands s @ cmds\<rparr>)"
| stop: "pc s = InUse \<Longrightarrow> rhs_timer_stop c post = Inr (r, cmds) \<Longrightarrow>
     timer_step s (s\<lparr>commands := commands s @ cmds\<rparr>)"
| daemon: "commands s = cmd # cmds \<Longrightarrow> timer_step s (execute cmd (s\<lparr>commands := cmds\<rparr>))"
| fire: "is_active s \<Longrightarrow> timer_step s (s\<lparr>is_active := reload\<rparr>)"
| free: "rhs_timer_free_step c s = Some s' \<Longrightarrow> timer_step s s'"

inductive timer_reachable :: "timer_sys \<Rightarrow> bool" where
  init: "timer_reachable \<lparr>commands = [], is_active = False, event_set = False, pc = InUse\<rparr>"
| step: "timer_reachable s \<Longrightarrow> timer_step s s' \<Longrightarrow> timer_reachable s'"

text \<open>The timer task would touch the instance: it is active, or a command for it is queued.\<close>

definition touches_instance :: "timer_sys \<Rightarrow> bool" where
  "touches_instance s \<longleftrightarrow> is_active s \<or> (\<exists>cmd \<in> set (commands s). cmd \<noteq> Epilogue)"

definition own_cmds :: "timer_cmd list \<Rightarrow> bool" where
  "own_cmds cmds \<longleftrightarrow> set cmds \<inter> {DeleteTimer, Epilogue} = {}"

lemma own_cmds_simps [simp]:
  "own_cmds []" "own_cmds (x # xs) \<longleftrightarrow> x \<noteq> DeleteTimer \<and> x \<noteq> Epilogue \<and> own_cmds xs"
  "own_cmds (xs @ ys) \<longleftrightarrow> own_cmds xs \<and> own_cmds ys"
  by (auto simp: own_cmds_def)

text \<open>The commands still queued, by where the free is.\<close>

definition timer_ok :: "timer_sys \<Rightarrow> bool" where
  "timer_ok s \<longleftrightarrow> (case pc s of
     InUse \<Rightarrow> own_cmds (commands s) \<and> \<not> event_set s
   | DeletePosted \<Rightarrow> \<not> event_set s \<and>
       ((\<exists>pre. own_cmds pre \<and> commands s = pre @ [DeleteTimer]) \<or> commands s = [] \<and> \<not> is_active s)
   | EpiloguePosted \<Rightarrow>
       (\<exists>pre. own_cmds pre \<and> commands s = pre @ [DeleteTimer, Epilogue]) \<and> \<not> event_set s \<or>
       commands s = [Epilogue] \<and> \<not> is_active s \<and> \<not> event_set s \<or>
       commands s = [] \<and> \<not> is_active s \<and> event_set s
   | Freed \<Rightarrow> commands s = [] \<and> \<not> is_active s)"

lemma own_start: "rhs_timer_start c post t = Inr (r, cmds) \<Longrightarrow> own_cmds cmds"
  by (auto simp: rhs_timer_start_def split: if_splits)

lemma own_restart: "rhs_timer_restart c post t = Inr (r, cmds) \<Longrightarrow> own_cmds cmds"
  by (auto simp: rhs_timer_restart_def split: if_splits)

lemma own_stop: "rhs_timer_stop c post = Inr (r, cmds) \<Longrightarrow> own_cmds cmds"
  by (auto simp: rhs_timer_stop_def split: if_splits)

lemma execute_simps [simp]:
  "pc (execute cmd s) = pc s" "commands (execute cmd s) = commands s"
  "event_set (execute cmd s) = (cmd = Epilogue \<or> event_set s)"
  "is_active (execute cmd s) =
     (case cmd of ChangePeriod _ \<Rightarrow> True | ResetTimer \<Rightarrow> True | StopTimer \<Rightarrow> False | DeleteTimer \<Rightarrow> False
      | Epilogue \<Rightarrow> is_active s)"
  by (cases cmd; simp add: execute_def rhs_timer_epilogue_def)+

lemma timer_ok_step: "timer_step s s' \<Longrightarrow> timer_ok s \<Longrightarrow> timer_ok s'"
proof (induction rule: timer_step.induct)
  case (daemon s cmd cmds)
  have split: "(\<exists>pre. own_cmds pre \<and> cmd # cmds = pre @ DeleteTimer # tl) \<longleftrightarrow>
      (cmd = DeleteTimer \<and> cmds = tl) \<or> (cmd \<noteq> DeleteTimer \<and> cmd \<noteq> Epilogue \<and>
       (\<exists>pre. own_cmds pre \<and> cmds = pre @ DeleteTimer # tl))" for tl
    by (auto simp: Cons_eq_append_conv)
  show ?case
  proof (cases "pc s")
    case InUse
    with daemon show ?thesis by (auto simp: timer_ok_def)
  next
    case DeletePosted
    with daemon split [of "[]"] show ?thesis by (auto simp: timer_ok_def)
  next
    case EpiloguePosted
    with daemon split [of "[Epilogue]"] show ?thesis by (auto simp: timer_ok_def)
  next
    case Freed
    with daemon show ?thesis by (auto simp: timer_ok_def)
  qed
next
  case (free c s s')
  then show ?case
    by (cases "pc s") (auto simp: rhs_timer_free_step_def timer_ok_def split: if_splits)
qed (auto simp: timer_ok_def own_start own_restart own_stop split: free_pc.splits)

lemma timer_ok_reachable: "timer_reachable s \<Longrightarrow> timer_ok s"
proof (induction rule: timer_reachable.induct)
  case init
  show ?case by (simp add: timer_ok_def)
qed (rule timer_ok_step)

section \<open>Properties\<close>


text \<open>The wait of \<open>rhs_timer_free\<close> ends: once the timer task has executed the commands queued when the wait
  began, the event it waits for is set.\<close>

theorem timer_free_wait_ends:
  assumes "timer_reachable s" and "pc s = EpiloguePosted"
  shows "event_set (fold execute (commands s) s)"
proof -
  have "event_set (fold execute cmds s) \<longleftrightarrow> Epilogue \<in> set cmds \<or> event_set s" for cmds s
    by (induction cmds arbitrary: s) auto
  moreover have "Epilogue \<in> set (commands s) \<or> event_set s"
    using timer_ok_reachable [OF assms(1)] assms(2) by (auto simp: timer_ok_def)
  ultimately show ?thesis by blast
qed

definition demo_posted :: timer_sys where
  "demo_posted = \<lparr>commands = [ChangePeriod 10, DeleteTimer, Epilogue], is_active = False, event_set = False,
     pc = EpiloguePosted\<rparr>"

lemma demo_posted_reachable: "timer_reachable demo_posted"
proof -
  let ?s0 = "\<lparr>commands = [], is_active = False, event_set = False, pc = InUse\<rparr>"
  let ?s1 = "?s0\<lparr>commands := [ChangePeriod 10]\<rparr>"
  let ?s2 = "?s0\<lparr>commands := [ChangePeriod 10, DeleteTimer], pc := DeletePosted\<rparr>"
  have "timer_step ?s0 ?s1"
    using timer_step.start [of ?s0 task_ctx "\<lambda>_. True" 10 RHSStatusOk "[ChangePeriod 10]"]
    by (simp add: rhs_timer_start_def portMAX_DELAY_def)
  moreover have "timer_step ?s1 ?s2"
    by (rule timer_step.free [of task_ctx]) (simp add: rhs_timer_free_step_def)
  moreover have "timer_step ?s2 demo_posted"
    by (rule timer_step.free [of task_ctx]) (simp add: rhs_timer_free_step_def demo_posted_def)
  ultimately show ?thesis using timer_reachable.init by (metis timer_reachable.step)
qed

lemma demo_freed_reachable:
  "timer_reachable \<lparr>commands = [], is_active = False, event_set = True, pc = Freed\<rparr>"
proof -
  let ?d1 = "demo_posted\<lparr>commands := [DeleteTimer, Epilogue], is_active := True\<rparr>"
  let ?d2 = "demo_posted\<lparr>commands := [Epilogue]\<rparr>"
  let ?d3 = "demo_posted\<lparr>commands := [], event_set := True\<rparr>"
  have "timer_step demo_posted ?d1"
    using timer_step.daemon [of demo_posted "ChangePeriod 10" "[DeleteTimer, Epilogue]"]
    by (simp add: demo_posted_def execute_def)
  moreover have "timer_step ?d1 ?d2"
    using timer_step.daemon [of ?d1 DeleteTimer "[Epilogue]"] by (simp add: demo_posted_def execute_def)
  moreover have "timer_step ?d2 ?d3"
    using timer_step.daemon [of ?d2 Epilogue "[]"]
    by (simp add: demo_posted_def execute_def rhs_timer_epilogue_def)
  moreover have "timer_step ?d3 \<lparr>commands = [], is_active = False, event_set = True, pc = Freed\<rparr>"
    by (rule timer_step.free [of task_ctx]) (simp add: rhs_timer_free_step_def demo_posted_def)
  ultimately show ?thesis using demo_posted_reachable by (metis timer_reachable.step)
qed


lemma timer_free_wait_ends_witness:
  "event_set (fold execute (commands demo_posted) demo_posted)"
  using timer_free_wait_ends [OF demo_posted_reachable] by (simp add: demo_posted_def)

end
