(* ===== verification/Message_Queue.thy ===== *)
theory Message_Queue
  imports Kernel
begin

text \<open>
  The message queue of core/message_queue.c over FreeRTOS queues. A queue object is its
  messages in order and the two fields the code reads, \<open>uxLength\<close> and \<open>uxItemSize\<close>
  (\<open>uxMessagesWaiting\<close> is the number of messages). The FreeRTOS calls are parameters and
  the locale \<open>rtos_queue\<close> states their documented behaviour. The lemmas give the status of
  every call in every context, and that the calls together implement a bounded FIFO.
\<close>

section \<open>The queue object and the calls\<close>

record 'm queue_obj =
  items :: "'m list"
  uxLength :: u32
  uxItemSize :: u32

definition uxMessagesWaiting :: "'m queue_obj \<Rightarrow> u32" where
  "uxMessagesWaiting q = of_nat (length (items q))"

text \<open>
  A blocking call returns \<open>None\<close> when it never returns. An interrupt call also returns
  whether a context switch is wanted.
\<close>

record 'm queue_api =
  xQueueCreateStatic :: "u32 \<Rightarrow> u32 \<Rightarrow> 'm queue_obj"
  xQueueSendToBack :: "'m queue_obj \<Rightarrow> 'm \<Rightarrow> u32 \<Rightarrow> (bool \<times> 'm queue_obj) option"
  xQueueSendToBackFromISR :: "'m queue_obj \<Rightarrow> 'm \<Rightarrow> bool \<times> bool \<times> 'm queue_obj"
  xQueueReceive :: "'m queue_obj \<Rightarrow> u32 \<Rightarrow> ('m option \<times> 'm queue_obj) option"
  xQueueReceiveFromISR :: "'m queue_obj \<Rightarrow> 'm option \<times> bool \<times> 'm queue_obj"
  uxQueueMessagesWaiting :: "'m queue_obj \<Rightarrow> u32"
  uxQueueMessagesWaitingFromISR :: "'m queue_obj \<Rightarrow> u32"
  uxQueueSpacesAvailable :: "'m queue_obj \<Rightarrow> u32"
  xQueueReset :: "'m queue_obj \<Rightarrow> 'm queue_obj"

text \<open>
  The result of an operation: its status, whether it yields from an interrupt, and the
  queue; a receive also has the message written to \<open>msg_ptr\<close>.
\<close>

section \<open>Operations\<close>

text \<open>
  \<open>header\<close> is \<open>sizeof (RHSMessageQueue)\<close>. The result is the size given to \<open>malloc\<close>, which
  is taken to return a block, and the queue in it.
\<close>

definition rhs_message_queue_alloc :: "'m queue_api \<Rightarrow> ctx \<Rightarrow> u32 \<Rightarrow> u32 \<Rightarrow> u32 \<Rightarrow> (u32 \<times> 'm queue_obj) res" where
  "rhs_message_queue_alloc A c header msg_count msg_size =
     rhs_assert (\<not> rhs_kernel_is_irq_or_masked c \<and> msg_count > 0 \<and> msg_size > 0)
       (Inr (header + msg_count * msg_size, xQueueCreateStatic A msg_count msg_size))"

text \<open>The queue object is gone afterwards.\<close>

definition rhs_message_queue_free :: "ctx \<Rightarrow> 'm queue_obj option \<Rightarrow> unit res" where
  "rhs_message_queue_free c inst =
     rhs_assert (\<not> rhs_kernel_is_irq_or_masked c) (rhs_assert (inst \<noteq> None) (Inr ()))"

definition rhs_message_queue_put ::
  "'m queue_api \<Rightarrow> ctx \<Rightarrow> 'm queue_obj \<Rightarrow> 'm option \<Rightarrow> u32 \<Rightarrow> (rhs_status \<times> bool \<times> 'm queue_obj) res" where
  "rhs_message_queue_put A c q msg timeout =
     (if rhs_kernel_is_irq_or_masked c then
        (case msg of
           None \<Rightarrow> Inr (RHSStatusErrorParameter, False, q)
         | Some m \<Rightarrow>
             if timeout \<noteq> 0 then Inr (RHSStatusErrorParameter, False, q)
             else (case xQueueSendToBackFromISR A q m of (ok, yield, q') \<Rightarrow>
                     if \<not> ok then Inr (RHSStatusErrorResource, False, q') else Inr (RHSStatusOk, yield, q')))
      else
        (case msg of
           None \<Rightarrow> Inr (RHSStatusErrorParameter, False, q)
         | Some m \<Rightarrow>
             (case xQueueSendToBack A q m timeout of
                None \<Rightarrow> Inl Blocked
              | Some (ok, q') \<Rightarrow>
                  if \<not> ok then
                    (if timeout \<noteq> 0 then Inr (RHSStatusErrorTimeout, False, q')
                     else Inr (RHSStatusErrorResource, False, q'))
                  else Inr (RHSStatusOk, False, q'))))"

text \<open>\<open>dst\<close> says whether \<open>msg_ptr\<close> is not NULL.\<close>

definition rhs_message_queue_get ::
  "'m queue_api \<Rightarrow> ctx \<Rightarrow> 'm queue_obj \<Rightarrow> bool \<Rightarrow> u32 \<Rightarrow> (rhs_status \<times> 'm option \<times> bool \<times> 'm queue_obj) res" where
  "rhs_message_queue_get A c q dst timeout =
     (if rhs_kernel_is_irq_or_masked c then
        (if \<not> dst \<or> timeout \<noteq> 0 then Inr (RHSStatusErrorParameter, None, False, q)
         else (case xQueueReceiveFromISR A q of (m, yield, q') \<Rightarrow>
                 if m = None then Inr (RHSStatusErrorResource, None, False, q')
                 else Inr (RHSStatusOk, m, yield, q')))
      else
        (if \<not> dst then Inr (RHSStatusErrorParameter, None, False, q)
         else (case xQueueReceive A q timeout of
                 None \<Rightarrow> Inl Blocked
               | Some (m, q') \<Rightarrow>
                   if m = None then
                     (if timeout \<noteq> 0 then Inr (RHSStatusErrorTimeout, None, False, q')
                      else Inr (RHSStatusErrorResource, None, False, q'))
                   else Inr (RHSStatusOk, m, False, q'))))"

definition rhs_message_queue_get_capacity :: "'m queue_obj \<Rightarrow> u32" where
  "rhs_message_queue_get_capacity q = uxLength q"

definition rhs_message_queue_get_message_size :: "'m queue_obj \<Rightarrow> u32" where
  "rhs_message_queue_get_message_size q = uxItemSize q"

definition rhs_message_queue_get_count :: "'m queue_api \<Rightarrow> ctx \<Rightarrow> 'm queue_obj \<Rightarrow> u32" where
  "rhs_message_queue_get_count A c q =
     (if rhs_kernel_is_irq_or_masked c then uxQueueMessagesWaitingFromISR A q else uxQueueMessagesWaiting A q)"

definition rhs_message_queue_get_space :: "'m queue_api \<Rightarrow> ctx \<Rightarrow> 'm queue_obj \<Rightarrow> u32" where
  "rhs_message_queue_get_space A c q =
     (if rhs_kernel_is_irq_or_masked c then uxLength q - uxMessagesWaiting q else uxQueueSpacesAvailable A q)"

definition rhs_message_queue_reset :: "'m queue_api \<Rightarrow> ctx \<Rightarrow> 'm queue_obj \<Rightarrow> rhs_status \<times> 'm queue_obj" where
  "rhs_message_queue_reset A c q =
     (if rhs_kernel_is_irq_or_masked c then (RHSStatusErrorISR, q) else (RHSStatusOk, xQueueReset A q))"

section \<open>The FreeRTOS contract\<close>

definition queue_ok :: "'m queue_obj \<Rightarrow> bool" where
  "queue_ok q \<longleftrightarrow> length (items q) \<le> unat (uxLength q)"

definition full :: "'m queue_obj \<Rightarrow> bool" where
  "full q \<longleftrightarrow> length (items q) = unat (uxLength q)"

definition same_shape :: "'m queue_obj \<Rightarrow> 'm queue_obj \<Rightarrow> bool" where
  "same_shape q q' \<longleftrightarrow> uxLength q' = uxLength q \<and> uxItemSize q' = uxItemSize q \<and> queue_ok q'"

text \<open>
  A send goes to the back when there is room. Without room it fails at once when the
  timeout is zero; otherwise it waits, other tasks change the queue meanwhile, and it
  either posts or times out on a full queue, the latter never with the longest timeout.
  A receive is the mirror image.
\<close>

locale rtos_queue =
  fixes A :: "'m queue_api"
  assumes create: "xQueueCreateStatic A n s = \<lparr>items = [], uxLength = n, uxItemSize = s\<rparr>"
    and send_room: "\<not> full q \<Longrightarrow> xQueueSendToBack A q m t = Some (True, q\<lparr>items := items q @ [m]\<rparr>)"
    and send_full: "full q \<Longrightarrow> xQueueSendToBack A q m 0 = Some (False, q)"
    and send_wait: "full q \<Longrightarrow> xQueueSendToBack A q m t = Some (ok, q') \<Longrightarrow> same_shape q q' \<and>
      (if ok then \<exists>others. items q' = others @ [m] else full q' \<and> t \<noteq> RHSWaitForever)"
    and send_isr: "\<exists>y. xQueueSendToBackFromISR A q m =
      (if full q then (False, y, q) else (True, y, q\<lparr>items := items q @ [m]\<rparr>))"
    and receive_some: "items q = m # ms \<Longrightarrow> xQueueReceive A q t = Some (Some m, q\<lparr>items := ms\<rparr>)"
    and receive_none: "items q = [] \<Longrightarrow> xQueueReceive A q 0 = Some (None, q)"
    and receive_wait: "items q = [] \<Longrightarrow> xQueueReceive A q t = Some (r, q') \<Longrightarrow> same_shape q q' \<and>
      (r = None \<longrightarrow> items q' = [] \<and> t \<noteq> RHSWaitForever)"
    and receive_isr: "\<exists>y. xQueueReceiveFromISR A q =
      (case items q of [] \<Rightarrow> (None, y, q) | m # ms \<Rightarrow> (Some m, y, q\<lparr>items := ms\<rparr>))"
    and waiting: "uxQueueMessagesWaiting A q = of_nat (length (items q))"
      "uxQueueMessagesWaitingFromISR A q = of_nat (length (items q))"
    and spaces: "uxQueueSpacesAvailable A q = uxLength q - of_nat (length (items q))"
    and reset: "xQueueReset A q = q\<lparr>items := []\<rparr>"

text \<open>A queue without other tasks: a wait that nobody ends times out, the longest one never returns.\<close>

definition alone :: "u32 \<Rightarrow> 'a \<Rightarrow> 'a option" where
  "alone t r = (if t = RHSWaitForever then None else Some r)"

definition list_queue :: "'m queue_api" where
  "list_queue = \<lparr>
     xQueueCreateStatic = (\<lambda>n s. \<lparr>items = [], uxLength = n, uxItemSize = s\<rparr>),
     xQueueSendToBack = (\<lambda>q m t. if full q then alone t (False, q) else Some (True, q\<lparr>items := items q @ [m]\<rparr>)),
     xQueueSendToBackFromISR = (\<lambda>q m. if full q then (False, False, q) else (True, False, q\<lparr>items := items q @ [m]\<rparr>)),
     xQueueReceive = (\<lambda>q t. case items q of [] \<Rightarrow> alone t (None, q) | m # ms \<Rightarrow> Some (Some m, q\<lparr>items := ms\<rparr>)),
     xQueueReceiveFromISR = (\<lambda>q. case items q of [] \<Rightarrow> (None, False, q) | m # ms \<Rightarrow> (Some m, False, q\<lparr>items := ms\<rparr>)),
     uxQueueMessagesWaiting = (\<lambda>q. of_nat (length (items q))),
     uxQueueMessagesWaitingFromISR = (\<lambda>q. of_nat (length (items q))),
     uxQueueSpacesAvailable = (\<lambda>q. uxLength q - of_nat (length (items q))),
     xQueueReset = (\<lambda>q. q\<lparr>items := []\<rparr>)\<rparr>"

interpretation list_queue: rtos_queue list_queue
proof
  fix q :: "'m queue_obj" and m :: 'm and t ok q'
  assume "full q" and "xQueueSendToBack list_queue q m t = Some (ok, q')"
  then show "same_shape q q' \<and> (if ok then \<exists>others. items q' = others @ [m] else full q' \<and> t \<noteq> RHSWaitForever)"
    by (auto simp: list_queue_def alone_def same_shape_def queue_ok_def full_def split: if_splits)
next
  fix q :: "'m queue_obj" and t r q'
  assume "items q = []" and "xQueueReceive list_queue q t = Some (r, q')"
  then show "same_shape q q' \<and> (r = None \<longrightarrow> items q' = [] \<and> t \<noteq> RHSWaitForever)"
    by (auto simp: list_queue_def alone_def same_shape_def queue_ok_def split: if_splits)
qed (auto simp: list_queue_def alone_def RHSWaitForever_def split: list.split)

section \<open>The bounded FIFO\<close>

datatype 'm queue_op = Put 'm | Get | Count | Space | Capacity | Reset

datatype 'm reply = Status rhs_status | Received rhs_status "'m option" | Number u32

text \<open>The specification: a list of at most \<open>cap\<close> messages.\<close>

fun fifo_step :: "u32 \<Rightarrow> bool \<Rightarrow> 'm queue_op \<Rightarrow> 'm list \<Rightarrow> 'm reply \<times> 'm list" where
  "fifo_step cap irq (Put m) xs =
     (if length xs < unat cap then (Status RHSStatusOk, xs @ [m]) else (Status RHSStatusErrorResource, xs))"
| "fifo_step cap irq Get [] = (Received RHSStatusErrorResource None, [])"
| "fifo_step cap irq Get (x # xs) = (Received RHSStatusOk (Some x), xs)"
| "fifo_step cap irq Count xs = (Number (of_nat (length xs)), xs)"
| "fifo_step cap irq Space xs = (Number (of_nat (unat cap - length xs)), xs)"
| "fifo_step cap irq Capacity xs = (Number cap, xs)"
| "fifo_step cap irq Reset xs = (if irq then (Status RHSStatusErrorISR, xs) else (Status RHSStatusOk, []))"

text \<open>The code: each operation without waiting, in the context \<open>c\<close>.\<close>

fun queue_step :: "'m queue_api \<Rightarrow> ctx \<Rightarrow> 'm queue_op \<Rightarrow> 'm queue_obj \<Rightarrow> ('m reply \<times> 'm queue_obj) res" where
  "queue_step A c (Put m) q = rbind (rhs_message_queue_put A c q (Some m) 0) (\<lambda>(s, _, q'). Inr (Status s, q'))"
| "queue_step A c Get q = rbind (rhs_message_queue_get A c q True 0) (\<lambda>(s, m, _, q'). Inr (Received s m, q'))"
| "queue_step A c Count q = Inr (Number (rhs_message_queue_get_count A c q), q)"
| "queue_step A c Space q = Inr (Number (rhs_message_queue_get_space A c q), q)"
| "queue_step A c Capacity q = Inr (Number (rhs_message_queue_get_capacity q), q)"
| "queue_step A c Reset q = (case rhs_message_queue_reset A c q of (s, q') \<Rightarrow> Inr (Status s, q'))"

fun fifo_run :: "u32 \<Rightarrow> (ctx \<times> 'm queue_op) list \<Rightarrow> 'm list \<Rightarrow> 'm reply list \<times> 'm list" where
  "fifo_run cap [] xs = ([], xs)"
| "fifo_run cap ((c, op) # ops) xs =
     (let (r, xs') = fifo_step cap (rhs_kernel_is_irq_or_masked c) op xs; (rs, xs'') = fifo_run cap ops xs'
      in (r # rs, xs''))"

fun queue_run :: "'m queue_api \<Rightarrow> (ctx \<times> 'm queue_op) list \<Rightarrow> 'm queue_obj \<Rightarrow> ('m reply list \<times> 'm queue_obj) res" where
  "queue_run A [] q = Inr ([], q)"
| "queue_run A ((c, op) # ops) q =
     rbind (queue_step A c op q) (\<lambda>(r, q'). rbind (queue_run A ops q') (\<lambda>(rs, q''). Inr (r # rs, q'')))"

context rtos_queue begin

lemma queue_step_refines:
  assumes "queue_ok q"
  shows "\<exists>q'. queue_step A c op q =
       Inr (fst (fifo_step (uxLength q) (rhs_kernel_is_irq_or_masked c) op (items q)), q') \<and>
     items q' = snd (fifo_step (uxLength q) (rhs_kernel_is_irq_or_masked c) op (items q)) \<and>
     uxLength q' = uxLength q \<and> queue_ok q'"
proof (cases op)
  case (Put m)
  obtain y where y: "xQueueSendToBackFromISR A q m =
      (if full q then (False, y, q) else (True, y, q\<lparr>items := items q @ [m]\<rparr>))" using send_isr by blast
  show ?thesis using assms Put y send_room [of q m 0] send_full [of q m]
    by (cases "full q"; cases "rhs_kernel_is_irq_or_masked c")
      (auto simp: rhs_message_queue_put_def full_def queue_ok_def)
next
  case Get
  obtain y where y: "xQueueReceiveFromISR A q =
      (case items q of [] \<Rightarrow> (None, y, q) | m # ms \<Rightarrow> (Some m, y, q\<lparr>items := ms\<rparr>))" using receive_isr by blast
  show ?thesis using assms Get y receive_some [of q] receive_none [of q]
    by (cases "items q"; cases "rhs_kernel_is_irq_or_masked c")
      (auto simp: rhs_message_queue_get_def queue_ok_def)
next
  case Space
  have "uxLength q - of_nat (length (items q)) = of_nat (unat (uxLength q) - length (items q))"
    using assms by (simp add: queue_ok_def of_nat_diff)
  with Space assms show ?thesis
    by (simp add: rhs_message_queue_get_space_def spaces uxMessagesWaiting_def)
qed (use assms in \<open>auto simp: rhs_message_queue_get_count_def rhs_message_queue_get_capacity_def waiting
      rhs_message_queue_reset_def reset queue_ok_def\<close>)

lemma queue_run_refines:
  assumes "queue_ok q"
  shows "\<exists>q'. queue_run A ops q = Inr (fst (fifo_run (uxLength q) ops (items q)), q') \<and>
     items q' = snd (fifo_run (uxLength q) ops (items q)) \<and> queue_ok q'"
  using assms
proof (induction ops arbitrary: q)
  case (Cons a ops)
  obtain c op where a: "a = (c, op)" by fastforce
  obtain q1 where q1: "queue_step A c op q =
       Inr (fst (fifo_step (uxLength q) (rhs_kernel_is_irq_or_masked c) op (items q)), q1)"
     "items q1 = snd (fifo_step (uxLength q) (rhs_kernel_is_irq_or_masked c) op (items q))"
     "uxLength q1 = uxLength q" "queue_ok q1"
    using queue_step_refines [OF Cons.prems] by blast
  with Cons.IH [OF q1(4)] show ?case by (auto simp: a split: prod.split)
qed simp

lemma put_status:
  assumes "rhs_message_queue_put A c q msg timeout = Inr (s, y, q')"
  shows "case s of
     RHSStatusErrorParameter \<Rightarrow> q' = q \<and> (msg = None \<or> rhs_kernel_is_irq_or_masked c \<and> timeout \<noteq> 0)
   | RHSStatusOk \<Rightarrow> (\<exists>m others. msg = Some m \<and> items q' = others @ [m] \<and> (\<not> full q \<longrightarrow> others = items q))
   | RHSStatusErrorResource \<Rightarrow> q' = q \<and> full q \<and> timeout = 0
   | RHSStatusErrorTimeout \<Rightarrow> full q \<and> full q' \<and> timeout \<noteq> 0 \<and> timeout \<noteq> RHSWaitForever \<and> \<not> rhs_kernel_is_irq_or_masked c
   | _ \<Rightarrow> False"
proof (cases msg)
  case None
  with assms show ?thesis by (auto simp: rhs_message_queue_put_def split: if_splits)
next
  case (Some m)
  obtain yi where yi: "xQueueSendToBackFromISR A q m =
      (if full q then (False, yi, q) else (True, yi, q\<lparr>items := items q @ [m]\<rparr>))" using send_isr by blast
  consider "rhs_kernel_is_irq_or_masked c" | "\<not> rhs_kernel_is_irq_or_masked c" "\<not> full q"
    | "\<not> rhs_kernel_is_irq_or_masked c" "full q" "timeout = 0"
    | (wait) "\<not> rhs_kernel_is_irq_or_masked c" "full q" "timeout \<noteq> 0" by blast
  then show ?thesis
  proof cases
    case 1
    with assms Some yi show ?thesis by (auto simp: rhs_message_queue_put_def split: if_splits)
  next
    case 2
    then have "s = RHSStatusOk" "q' = q\<lparr>items := items q @ [m]\<rparr>"
      using assms Some by (simp_all add: rhs_message_queue_put_def send_room)
    with 2 Some show ?thesis by simp
  next
    case 3
    then have "s = RHSStatusErrorResource" "q' = q"
      using assms Some by (simp_all add: rhs_message_queue_put_def send_full)
    with 3 Some show ?thesis by simp
  next
    case wait
    show ?thesis
    proof (cases "xQueueSendToBack A q m timeout")
      case None
      with assms Some wait(1) show ?thesis by (simp add: rhs_message_queue_put_def)
    next
      case (Some r)
      obtain ok q1 where r: "r = (ok, q1)" by fastforce
      with assms Some \<open>msg = Some m\<close> wait(1,3) have "q1 = q'" "s = (if ok then RHSStatusOk else RHSStatusErrorTimeout)"
        by (simp_all add: rhs_message_queue_put_def split: if_split_asm)
      with send_wait [OF wait(2), of m timeout ok q1] r Some wait \<open>msg = Some m\<close> show ?thesis
        by (cases ok) simp_all
    qed
  qed
qed

end

section \<open>Properties\<close>

text \<open>C5: from its allocation on, any sequence of non-waiting operations on a message queue, each from a task or an
  interrupt, returns what a FIFO list bounded by the message count returns, and no operation fails.\<close>

theorem message_queue_is_fifo:
  assumes "rtos_queue A" and "\<not> rhs_kernel_is_irq_or_masked c" and "0 < msg_count" and "0 < msg_size"
  shows "\<exists>block q q'. rhs_message_queue_alloc A c header msg_count msg_size = Inr (block, q) \<and>
     queue_run A ops q = Inr (fst (fifo_run msg_count ops []), q') \<and> items q' = snd (fifo_run msg_count ops [])"
  using rtos_queue.queue_run_refines [OF assms(1), of "\<lparr>items = [], uxLength = msg_count, uxItemSize = msg_size\<rparr>" ops]
    assms(2-4) by (auto simp: rhs_message_queue_alloc_def rtos_queue.create [OF assms(1)] queue_ok_def)

text \<open>The status of a put is exact: a parameter error without a change for a NULL message or a wait from an
  interrupt; success puts the message last; a resource error means full and no waiting, and a timeout means
  full after a wait; waiting forever never fails.\<close>

theorem message_queue_put_status:
  assumes "rtos_queue A" and "rhs_message_queue_put A c q msg timeout = Inr (s, y, q')"
  shows "case s of
     RHSStatusErrorParameter \<Rightarrow> q' = q \<and> (msg = None \<or> rhs_kernel_is_irq_or_masked c \<and> timeout \<noteq> 0)
   | RHSStatusOk \<Rightarrow> (\<exists>m others. msg = Some m \<and> items q' = others @ [m] \<and> (\<not> full q \<longrightarrow> others = items q))
   | RHSStatusErrorResource \<Rightarrow> q' = q \<and> full q \<and> timeout = 0
   | RHSStatusErrorTimeout \<Rightarrow> full q \<and> full q' \<and> timeout \<noteq> 0 \<and> timeout \<noteq> RHSWaitForever \<and> \<not> rhs_kernel_is_irq_or_masked c
   | _ \<Rightarrow> False"
  by (rule rtos_queue.put_status [OF assms])

text \<open>Without other tasks; an interrupt and a task share a queue of two.\<close>

lemma message_queue_is_fifo_witness:
  "\<exists>block q q'. rhs_message_queue_alloc list_queue task_ctx 80 2 4 = Inr (block, q) \<and>
     queue_run list_queue [(task_ctx, Put (1 :: u32)), (isr_ctx, Put 2), (task_ctx, Put 3), (isr_ctx, Get)] q =
       Inr (fst (fifo_run 2 [(task_ctx, Put 1), (isr_ctx, Put 2), (task_ctx, Put 3), (isr_ctx, Get)] []), q') \<and>
     items q' = snd (fifo_run 2 [(task_ctx, Put 1), (isr_ctx, Put 2), (task_ctx, Put 3), (isr_ctx, Get)] [])"
  by (rule message_queue_is_fifo [OF list_queue.rtos_queue_axioms]) simp_all

lemma message_queue_put_status_witness:
  "case RHSStatusErrorResource of
     RHSStatusErrorResource \<Rightarrow> full \<lparr>items = [7 :: u32], uxLength = 1, uxItemSize = 4\<rparr>
   | _ \<Rightarrow> False"
  using message_queue_put_status [OF list_queue.rtos_queue_axioms, of task_ctx
      "\<lparr>items = [7 :: u32], uxLength = 1, uxItemSize = 4\<rparr>" "Some 8" 0 RHSStatusErrorResource False
      "\<lparr>items = [7 :: u32], uxLength = 1, uxItemSize = 4\<rparr>"]
  by (simp add: rhs_message_queue_put_def list_queue_def full_def alone_def RHSWaitForever_def)

end
