(* ===== verification/Thread.thy ===== *)
theory Thread
  imports Message_Queue
begin

text \<open>
  The threads of core/thread.c: allocation, start, the body every task runs, join, the
  clean-up loop \<open>rhs_thread_scrub\<close> and the thread flags over task notifications. A system
  of threads, tasks and the clean-up queue steps through the pieces of these functions
  between the points where another task can run; its invariant shows that none of their
  assertions can fail and that a joined thread is out of the kernel's hands. The waiting
  loop of the flags runs over the sequence of notifications the kernel delivers.
\<close>

section \<open>Threads\<close>

datatype thread_state = RHSThreadStateStopped | RHSThreadStateStopping | RHSThreadStateStarting
  | RHSThreadStateRunning

text \<open>The callback is a number; \<open>None\<close> is NULL. The name is the text of the copied string.\<close>

record thread =
  stack_buffer :: bool
  state :: thread_state
  ret :: u32
  callback :: "nat option"
  thread_context :: nat
  thread_name :: "string option"
  priority :: u32
  stack_size :: u32
  is_service :: bool

definition RHSThreadPriorityNormal :: u32 where "RHSThreadPriorityNormal = 16"

definition rhs_thread_set_state :: "thread \<Rightarrow> thread_state \<Rightarrow> thread" where
  "rhs_thread_set_state th s = th\<lparr>state := s\<rparr>"

definition rhs_thread_set_name :: "thread \<Rightarrow> string option \<Rightarrow> thread" where
  "rhs_thread_set_name th name = th\<lparr>thread_name := name\<rparr>"

text \<open>
  \<open>calloc\<close> gives a zeroed structure, whose state is then \<open>Stopped\<close>; \<open>got_thread\<close> and
  \<open>got_stack\<close> say whether the allocations succeeded.
\<close>

definition zero_thread :: thread where
  "zero_thread = \<lparr>stack_buffer = False, state = RHSThreadStateStopped, ret = 0, callback = None, thread_context = 0,
     thread_name = None, priority = 0, stack_size = 0, is_service = False\<rparr>"

definition rhs_thread_alloc ::
  "bool \<Rightarrow> bool \<Rightarrow> string option \<Rightarrow> u32 \<Rightarrow> nat option \<Rightarrow> nat \<Rightarrow> thread res" where
  "rhs_thread_alloc got_thread got_stack name sz cb cx =
     rhs_assert got_thread
       (let th = zero_thread\<lparr>stack_buffer := got_stack, stack_size := sz, callback := cb, thread_context := cx,
              priority := RHSThreadPriorityNormal, is_service := False\<rparr>;
            th = rhs_thread_set_name th name
        in rhs_assert (stack_buffer th) (Inr th))"

definition rhs_thread_alloc_ex ::
  "bool \<Rightarrow> bool \<Rightarrow> string option \<Rightarrow> u32 \<Rightarrow> u32 \<Rightarrow> nat option \<Rightarrow> nat \<Rightarrow> thread res" where
  "rhs_thread_alloc_ex got_thread got_stack name sz prio cb cx =
     rbind (rhs_thread_alloc got_thread got_stack name sz cb cx) (\<lambda>th. Inr (th\<lparr>priority := prio\<rparr>))"

definition rhs_thread_alloc_service ::
  "bool \<Rightarrow> bool \<Rightarrow> string option \<Rightarrow> u32 \<Rightarrow> nat option \<Rightarrow> nat \<Rightarrow> thread res" where
  "rhs_thread_alloc_service got_thread got_stack name sz cb cx =
     rbind (rhs_thread_alloc got_thread got_stack name sz cb cx) (\<lambda>th. Inr (th\<lparr>is_service := True\<rparr>))"

definition rhs_thread_free :: "thread \<Rightarrow> unit res" where
  "rhs_thread_free th = rhs_assert (\<not> is_service th) (Inr ())"

text \<open>\<open>xTaskCreateStatic\<close> creates the task in the given memory, as its caller checks.\<close>

definition rhs_thread_start :: "thread \<Rightarrow> thread res" where
  "rhs_thread_start th =
     rhs_assert (callback th \<noteq> None)
       (rhs_assert (state th = RHSThreadStateStopped)
         (rhs_assert (stack_size th > 0) (Inr (rhs_thread_set_state th RHSThreadStateStarting))))"

text \<open>
  \<open>rhs_thread_body\<close> up to the call of the callback, and from its return to the put into
  the clean-up queue. \<open>tls\<close> is the first thread local storage pointer of the task.
\<close>

definition rhs_thread_body_enter :: "'i \<Rightarrow> thread \<Rightarrow> 'i option \<Rightarrow> (thread \<times> 'i option) res" where
  "rhs_thread_body_enter self th tls =
     rhs_assert (tls = None)
       (rhs_assert (state th = RHSThreadStateStarting)
         (Inr (rhs_thread_set_state th RHSThreadStateRunning, Some self)))"

definition rhs_thread_body_leave :: "thread \<Rightarrow> u32 \<Rightarrow> thread res" where
  "rhs_thread_body_leave th result =
     (let th = th\<lparr>ret := result\<rparr>
      in rhs_assert (\<not> is_service th)
           (rhs_assert (state th = RHSThreadStateRunning)
             (Inr (rhs_thread_set_state th RHSThreadStateStopping))))"

text \<open>One round of \<open>rhs_thread_scrub\<close> after it got \<open>self\<close> from the queue and deleted the task.\<close>

definition rhs_thread_scrub_finish :: "'i \<Rightarrow> thread \<Rightarrow> 'i option \<Rightarrow> (thread \<times> 'i option) res" where
  "rhs_thread_scrub_finish self th tls =
     rhs_assert (tls = Some self) (Inr (rhs_thread_set_state th RHSThreadStateStopped, None))"

text \<open>The check of \<open>rhs_thread_join\<close>: \<open>Inr True\<close> when it returns, \<open>Inr False\<close> when it delays.\<close>

definition rhs_thread_join :: "'i \<Rightarrow> 'i option \<Rightarrow> thread \<Rightarrow> bool res" where
  "rhs_thread_join self current th =
     rhs_assert (\<not> is_service th)
       (rhs_assert (current \<noteq> Some self) (Inr (state th = RHSThreadStateStopped)))"

definition rhs_thread_init :: "'i queue_api \<Rightarrow> ctx \<Rightarrow> u32 \<Rightarrow> (u32 \<times> 'i queue_obj) res" where
  "rhs_thread_init A c header = rhs_message_queue_alloc A c header 8 4"

section \<open>The system of threads\<close>

text \<open>Where the task of a thread is: there is none, it has not run yet, it runs the callback, it has to put
  itself into the queue, or it has done so and is suspended.\<close>

datatype task_pc = NoTask | Created | InCallback | Leaving | Suspended

record 'i threads =
  threads :: "'i \<Rightarrow> thread option"
  task :: "'i \<Rightarrow> task_pc"
  tls :: "'i \<Rightarrow> 'i option"
  scrub_queue :: "'i queue_obj"

inductive thread_step :: "'i queue_api \<Rightarrow> 'i threads \<Rightarrow> 'i threads \<Rightarrow> bool" for A where
  alloc: "threads s i = None \<Longrightarrow> rhs_thread_alloc True True name sz cb cx = Inr th \<or>
       rhs_thread_alloc_ex True True name sz prio cb cx = Inr th \<or>
       rhs_thread_alloc_service True True name sz cb cx = Inr th \<Longrightarrow>
     thread_step A s (s\<lparr>threads := (threads s)(i \<mapsto> th)\<rparr>)"
| start: "threads s i = Some th \<Longrightarrow> rhs_thread_start th = Inr th' \<Longrightarrow>
     thread_step A s (s\<lparr>threads := (threads s)(i \<mapsto> th'), task := (task s)(i := Created)\<rparr>)"
| enter: "task s i = Created \<Longrightarrow> threads s i = Some th \<Longrightarrow> rhs_thread_body_enter i th (tls s i) = Inr (th', l) \<Longrightarrow>
     thread_step A s (s\<lparr>threads := (threads s)(i \<mapsto> th'), task := (task s)(i := InCallback), tls := (tls s)(i := l)\<rparr>)"
| leave: "task s i = InCallback \<Longrightarrow> threads s i = Some th \<Longrightarrow> rhs_thread_body_leave th r = Inr th' \<Longrightarrow>
     thread_step A s (s\<lparr>threads := (threads s)(i \<mapsto> th'), task := (task s)(i := Leaving)\<rparr>)"
| put: "task s i = Leaving \<Longrightarrow> \<not> full (scrub_queue s) \<Longrightarrow>
     rhs_message_queue_put A c (scrub_queue s) (Some i) RHSWaitForever = Inr (RHSStatusOk, y, q) \<Longrightarrow>
     thread_step A s (s\<lparr>task := (task s)(i := Suspended), scrub_queue := q\<rparr>)"
| scrub: "items (scrub_queue s) \<noteq> [] \<Longrightarrow>
     rhs_message_queue_get A c (scrub_queue s) True RHSWaitForever = Inr (RHSStatusOk, Some i, y, q) \<Longrightarrow>
     threads s i = Some th \<Longrightarrow> rhs_thread_scrub_finish i th (tls s i) = Inr (th', l) \<Longrightarrow>
     thread_step A s (s\<lparr>threads := (threads s)(i \<mapsto> th'), task := (task s)(i := NoTask),
                        tls := (tls s)(i := l), scrub_queue := q\<rparr>)"
| join_free: "threads s i = Some th \<Longrightarrow> rhs_thread_join i cur th = Inr True \<Longrightarrow> rhs_thread_free th = Inr () \<Longrightarrow>
     thread_step A s (s\<lparr>threads := (threads s)(i := None)\<rparr>)"

inductive thread_reachable :: "'i queue_api \<Rightarrow> 'i queue_obj \<Rightarrow> 'i threads \<Rightarrow> bool" for A q0 where
  init: "thread_reachable A q0 \<lparr>threads = (\<lambda>_. None), task = (\<lambda>_. NoTask), tls = (\<lambda>_. None), scrub_queue = q0\<rparr>"
| step: "thread_reachable A q0 s \<Longrightarrow> thread_step A s s' \<Longrightarrow> thread_reachable A q0 s'"

text \<open>The state of a thread, its task, its storage pointer and the queue agree.\<close>

definition stage_ok :: "'i threads \<Rightarrow> 'i \<Rightarrow> bool" where
  "stage_ok s i \<longleftrightarrow>
     (case task s i of
        NoTask \<Rightarrow> tls s i = None \<and> i \<notin> set (items (scrub_queue s)) \<and>
          (\<forall>th. threads s i = Some th \<longrightarrow> state th = RHSThreadStateStopped)
      | Created \<Rightarrow> tls s i = None \<and> i \<notin> set (items (scrub_queue s)) \<and>
          (\<exists>th. threads s i = Some th \<and> state th = RHSThreadStateStarting)
      | InCallback \<Rightarrow> tls s i = Some i \<and> i \<notin> set (items (scrub_queue s)) \<and>
          (\<exists>th. threads s i = Some th \<and> state th = RHSThreadStateRunning)
      | Leaving \<Rightarrow> tls s i = Some i \<and> i \<notin> set (items (scrub_queue s)) \<and>
          (\<exists>th. threads s i = Some th \<and> state th = RHSThreadStateStopping)
      | Suspended \<Rightarrow> tls s i = Some i \<and> i \<in> set (items (scrub_queue s)) \<and>
          (\<exists>th. threads s i = Some th \<and> state th = RHSThreadStateStopping))"

definition threads_ok :: "'i threads \<Rightarrow> bool" where
  "threads_ok s \<longleftrightarrow> distinct (items (scrub_queue s)) \<and> (\<forall>i. stage_ok s i)"

lemma stage_ok_cong:
  assumes "stage_ok s i" and "threads s' i = threads s i" and "task s' i = task s i" and "tls s' i = tls s i"
    and "i \<in> set (items (scrub_queue s')) \<longleftrightarrow> i \<in> set (items (scrub_queue s))"
  shows "stage_ok s' i"
  using assms by (simp add: stage_ok_def split: task_pc.splits)

lemma stage_state:
  assumes "stage_ok s i" and "threads s i = Some th"
  shows "state th = (case task s i of NoTask \<Rightarrow> RHSThreadStateStopped | Created \<Rightarrow> RHSThreadStateStarting
     | InCallback \<Rightarrow> RHSThreadStateRunning | Leaving \<Rightarrow> RHSThreadStateStopping | Suspended \<Rightarrow> RHSThreadStateStopping)"
  using assms by (cases "task s i") (auto simp: stage_ok_def)

lemma alloc_stopped:
  "rhs_thread_alloc g1 g2 name sz cb cx = Inr th \<Longrightarrow> state th = RHSThreadStateStopped"
  "rhs_thread_alloc_ex g1 g2 name sz prio cb cx = Inr th \<Longrightarrow> state th = RHSThreadStateStopped"
  "rhs_thread_alloc_service g1 g2 name sz cb cx = Inr th \<Longrightarrow> state th = RHSThreadStateStopped"
  by (auto simp: rhs_thread_alloc_def rhs_thread_alloc_ex_def rhs_thread_alloc_service_def Let_def
      rhs_thread_set_name_def zero_thread_def rbind_eq_Inr)

text \<open>A step that concerns one thread.\<close>

lemma threads_ok_one:
  assumes ok: "threads_ok s" and i: "stage_ok s' i"
    and others: "\<And>j. j \<noteq> i \<Longrightarrow> threads s' j = threads s j \<and> task s' j = task s j \<and> tls s' j = tls s j \<and>
      (j \<in> set (items (scrub_queue s')) \<longleftrightarrow> j \<in> set (items (scrub_queue s)))"
    and dist: "distinct (items (scrub_queue s'))"
  shows "threads_ok s'"
  unfolding threads_ok_def
proof (intro conjI allI)
  fix j
  show "stage_ok s' j"
  proof (cases "j = i")
    case False
    have "stage_ok s j" using ok by (simp add: threads_ok_def)
    then show ?thesis by (rule stage_ok_cong) (use others [OF False] in simp_all)
  qed (use i in simp)
qed (rule dist)

context rtos_queue begin

lemma put_forever:
  assumes "\<not> full q" and "rhs_message_queue_put A c q (Some i) RHSWaitForever = Inr (RHSStatusOk, y, q')"
  shows "items q' = items q @ [i]"
  using put_status [OF assms(2)] assms(1) by auto

lemma get_forever:
  assumes "items q \<noteq> []" and "rhs_message_queue_get A c q True RHSWaitForever = Inr (RHSStatusOk, Some i, y, q')"
  shows "items q = i # items q'"
proof -
  obtain m ms where q: "items q = m # ms" using assms(1) by (cases "items q") auto
  have "\<not> rhs_kernel_is_irq_or_masked c"
    using assms(2) by (auto simp: rhs_message_queue_get_def RHSWaitForever_def split: if_splits)
  then show ?thesis
    using assms(2) by (simp add: rhs_message_queue_get_def receive_some [OF q] q) auto
qed

lemma threads_ok_step:
  assumes "thread_step A s s'" and ok: "threads_ok s"
  shows "threads_ok s'"
proof -
  have stage: "stage_ok s j" for j using ok by (simp add: threads_ok_def)
  have dist: "distinct (items (scrub_queue s))" using ok by (simp add: threads_ok_def)
  from assms(1) show ?thesis
  proof cases
    case (alloc i name sz cb cx th prio)
    have "task s i = NoTask" using stage [of i] alloc(2) by (cases "task s i") (auto simp: stage_ok_def)
    moreover have "state th = RHSThreadStateStopped" using alloc(3) by (elim disjE) (auto dest: alloc_stopped)
    ultimately have "stage_ok s' i" using stage [of i] alloc(1) by (simp add: stage_ok_def)
    then show ?thesis by (rule threads_ok_one [OF ok]) (use alloc(1) dist in auto)
  next
    case (start i th th')
    have st: "state th = RHSThreadStateStopped" "th' = rhs_thread_set_state th RHSThreadStateStarting"
      using start(3) by (simp_all add: rhs_thread_start_def)
    then have "task s i = NoTask" using stage_state [OF stage start(2)] by (cases "task s i") auto
    with st have "stage_ok s' i" using stage [of i] start(1)
      by (simp add: stage_ok_def rhs_thread_set_state_def)
    then show ?thesis by (rule threads_ok_one [OF ok]) (use start(1) dist in auto)
  next
    case (enter i th th' l)
    then have "stage_ok s' i" using stage [of i]
      by (auto simp: stage_ok_def rhs_thread_body_enter_def rhs_thread_set_state_def)
    then show ?thesis by (rule threads_ok_one [OF ok]) (use enter(1) dist in auto)
  next
    case (leave i th r th')
    then have "stage_ok s' i" using stage [of i]
      by (auto simp: stage_ok_def rhs_thread_body_leave_def rhs_thread_set_state_def Let_def)
    then show ?thesis by (rule threads_ok_one [OF ok]) (use leave(1) dist in auto)
  next
    case (put i c y q)
    have q: "items q = items (scrub_queue s) @ [i]" by (rule put_forever [OF put(3,4)])
    have new: "i \<notin> set (items (scrub_queue s))" using stage [of i] put(2) by (simp add: stage_ok_def)
    have "stage_ok s' i" using stage [of i] put(1,2) q by (simp add: stage_ok_def)
    then show ?thesis by (rule threads_ok_one [OF ok]) (use put(1) q new dist in auto)
  next
    case (scrub c i y q th th' l)
    have q: "items (scrub_queue s) = i # items q" by (rule get_forever [OF scrub(2,3)])
    have "stage_ok s' i" using scrub(1,5) q dist
      by (auto simp: stage_ok_def rhs_thread_scrub_finish_def rhs_thread_set_state_def)
    then show ?thesis by (rule threads_ok_one [OF ok]) (use scrub(1) q dist in auto)
  next
    case (join_free i th cur)
    have "state th = RHSThreadStateStopped" using join_free(3) by (simp add: rhs_thread_join_def)
    then have "task s i = NoTask" using stage_state [OF stage join_free(2)] by (cases "task s i") auto
    then have "stage_ok s' i" using stage [of i] join_free(1) by (simp add: stage_ok_def)
    then show ?thesis by (rule threads_ok_one [OF ok]) (use join_free(1) dist in auto)
  qed
qed

lemma threads_ok_reachable:
  assumes "thread_reachable A q0 s" and "items q0 = []"
  shows "threads_ok s"
  using assms(1)
proof induction
  case init
  show ?case using assms(2) by (simp add: threads_ok_def stage_ok_def)
qed (rule threads_ok_step)

end

section \<open>Properties of the life cycle\<close>


text \<open>When \<open>rhs_thread_join\<close> returns, the task of the thread is gone and the clean-up queue does not hold it, so
  that the thread can be freed or started again.\<close>

theorem joined_thread_is_gone:
  assumes "rtos_queue A" and "rhs_thread_init A c header = Inr (block, q0)" and "thread_reachable A q0 s"
    and "threads s i = Some th" and "rhs_thread_join i cur th = Inr True"
  shows "task s i = NoTask \<and> tls s i = None \<and> i \<notin> set (items (scrub_queue s))"
proof -
  have "items q0 = []"
    using assms(2) by (simp add: rhs_thread_init_def rhs_message_queue_alloc_def rtos_queue.create [OF assms(1)])
      (auto simp: rtos_queue.create [OF assms(1)])
  then have st: "stage_ok s i"
    using rtos_queue.threads_ok_reachable [OF assms(1,3)] by (simp add: threads_ok_def)
  moreover have "state th = RHSThreadStateStopped" using assms(5) by (simp add: rhs_thread_join_def)
  ultimately show ?thesis using stage_state [OF st assms(4)]
    by (cases "task s i") (auto simp: stage_ok_def)
qed

section \<open>Thread flags\<close>

text \<open>
  The flags of a thread are the value of a task notification. The FreeRTOS calls act on
  that value: setting bits, overwriting, and reading the value without an action.
\<close>

record notify_api =
  notify_set_bits :: "u32 \<Rightarrow> u32 \<Rightarrow> bool \<times> u32"
  notify_overwrite :: "u32 \<Rightarrow> u32 \<Rightarrow> bool \<times> u32"
  notify_query :: "u32 \<Rightarrow> bool \<times> u32"

definition THREAD_FLAGS_INVALID_BITS :: u32 where
  "THREAD_FLAGS_INVALID_BITS = NOT (push_bit 31 1 - 1)"

definition valid_thread_flags :: "u32 \<Rightarrow> bool" where
  "valid_thread_flags flags \<longleftrightarrow> flags AND THREAD_FLAGS_INVALID_BITS = 0"

text \<open>
  The value before the call is \<open>v\<close>; the results are the returned flags and the value. The
  interrupt branch makes the same calls in their interrupt variants.
\<close>

definition rhs_thread_flags_set :: "notify_api \<Rightarrow> bool \<Rightarrow> u32 \<Rightarrow> u32 \<Rightarrow> u32 \<times> u32" where
  "rhs_thread_flags_set N has_thread v flags =
     (if \<not> has_thread \<or> \<not> valid_thread_flags flags then (status_code RHSStatusErrorParameter, v)
      else let (_, v1) = notify_set_bits N v flags; (_, rflags) = notify_query N v1 in (rflags, v1))"

text \<open>\<open>between\<close> is what other contexts do to the value between the read and the overwrite.\<close>

definition rhs_thread_flags_clear :: "notify_api \<Rightarrow> ctx \<Rightarrow> (u32 \<Rightarrow> u32) \<Rightarrow> u32 \<Rightarrow> u32 \<Rightarrow> u32 \<times> u32" where
  "rhs_thread_flags_clear N c between v flags =
     (if RHS_IS_IRQ_MODE c then (status_code RHSStatusErrorISR, v)
      else if \<not> valid_thread_flags flags then (status_code RHSStatusErrorParameter, v)
      else (case notify_query N v of (ok, cflags) \<Rightarrow>
              if ok then
                (case notify_overwrite N (between v) (cflags AND NOT flags) of (ok', v') \<Rightarrow>
                   if \<not> ok' then (status_code RHSStatusError, v') else (cflags, v'))
              else (status_code RHSStatusError, v)))"

definition rhs_thread_flags_get :: "notify_api \<Rightarrow> ctx \<Rightarrow> u32 \<Rightarrow> u32" where
  "rhs_thread_flags_get N c v =
     (if RHS_IS_IRQ_MODE c then status_code RHSStatusErrorISR
      else case notify_query N v of (ok, rflags) \<Rightarrow> if \<not> ok then status_code RHSStatusError else rflags)"

text \<open>
  The waiting loop. An answer of the kernel is the result of one notification wait: whether
  a notification came, its value, and the tick count afterwards. The results are the
  returned flags and the timeouts given to the waits, in order; a wait with no answer left
  never returns.
\<close>

fun flags_wait_loop ::
  "u32 \<Rightarrow> u32 \<Rightarrow> u32 \<Rightarrow> u32 \<Rightarrow> u32 \<Rightarrow> u32 \<Rightarrow> (bool \<times> u32 \<times> u32) list \<Rightarrow> (u32 \<times> u32 list) res" where
  "flags_wait_loop flags options timeout t0 rflags tout [] = Inl Blocked"
| "flags_wait_loop flags options timeout t0 rflags tout ((rval, nval, now) # answers) =
     (if rval then
        let rflags = (rflags AND flags) OR nval;
            again = (let td = now - t0; tout' = (if td > tout then 0 else tout - td)
                     in rbind (flags_wait_loop flags options timeout t0 rflags tout' answers)
                          (\<lambda>(r, touts). Inr (r, tout # touts)))
        in if options AND RHSFlagWaitAll = RHSFlagWaitAll then
             (if flags AND rflags = flags then Inr (rflags, [tout])
              else if timeout = 0 then Inr (status_code RHSStatusErrorResource, [tout])
              else again)
           else
             (if flags AND rflags \<noteq> 0 then Inr (rflags, [tout])
              else if timeout = 0 then Inr (status_code RHSStatusErrorResource, [tout])
              else again)
      else Inr (if timeout = 0 then status_code RHSStatusErrorResource else status_code RHSStatusErrorTimeout, [tout]))"

text \<open>The mask of bits that every wait clears on exit.\<close>

definition flags_wait_clear :: "u32 \<Rightarrow> u32 \<Rightarrow> u32" where
  "flags_wait_clear flags options = (if options AND RHSFlagNoClear = RHSFlagNoClear then 0 else flags)"

definition rhs_thread_flags_wait ::
  "ctx \<Rightarrow> u32 \<Rightarrow> u32 \<Rightarrow> u32 \<Rightarrow> u32 \<Rightarrow> (bool \<times> u32 \<times> u32) list \<Rightarrow> (u32 \<times> u32 list) res" where
  "rhs_thread_flags_wait c flags options timeout t0 answers =
     (if RHS_IS_IRQ_MODE c then Inr (status_code RHSStatusErrorISR, [])
      else if \<not> valid_thread_flags flags then Inr (status_code RHSStatusErrorParameter, [])
      else flags_wait_loop flags options timeout t0 0 timeout answers)"

locale task_notify =
  fixes N :: notify_api
  assumes set_bits: "notify_set_bits N v f = (True, v OR f)"
    and overwrite: "notify_overwrite N v f = (True, f)"
    and query: "notify_query N v = (True, v)"

definition plain_notify :: notify_api where
  "plain_notify = \<lparr>notify_set_bits = (\<lambda>v f. (True, v OR f)), notify_overwrite = (\<lambda>v f. (True, f)),
     notify_query = (\<lambda>v. (True, v))\<rparr>"

interpretation plain_notify: task_notify plain_notify
  by unfold_locales (simp_all add: plain_notify_def)

text \<open>The values notified so far, together.\<close>

definition gathered :: "(bool \<times> u32 \<times> u32) list \<Rightarrow> u32" where
  "gathered answers = foldr (\<lambda>(_, nval, _) acc. nval OR acc) answers 0"

lemma gathered_simps [simp]:
  "gathered [] = 0" "gathered ((r, n, t) # answers) = n OR gathered answers"
  by (simp_all add: gathered_def)

definition wait_over :: "u32 \<Rightarrow> u32 \<Rightarrow> u32 \<Rightarrow> bool" where
  "wait_over flags options r \<longleftrightarrow>
     (if options AND RHSFlagWaitAll = RHSFlagWaitAll then flags AND r = flags else flags AND r \<noteq> 0)"

lemma flags_wait_loop_result:
  assumes "flags_wait_loop flags options timeout t0 rflags tout answers = Inr (r, touts)"
  shows "(\<exists>k < length answers. (\<forall>a \<in> set (take (Suc k) answers). fst a) \<and> wait_over flags options r \<and>
       r AND flags = (rflags OR gathered (take (Suc k) answers)) AND flags) \<or>
     (r = status_code RHSStatusErrorResource \<and> timeout = 0) \<or> (r = status_code RHSStatusErrorTimeout \<and> timeout \<noteq> 0)"
  using assms
proof (induction answers arbitrary: rflags tout touts)
  case (Cons a answers)
  obtain rval nval now where a: "a = (rval, nval, now)" by (metis surj_pair)
  let ?r = "(rflags AND flags) OR nval"
  let ?t = "if tout < now - t0 then 0 else tout - (now - t0)"
  have mask: "((rflags AND flags) OR nval) AND flags = (rflags OR nval) AND flags"
    by (rule bit_word_eqI) (auto simp: bit_simps)
  show ?case
  proof (cases "rval \<and> \<not> wait_over flags options ?r \<and> timeout \<noteq> 0")
    case True
    with Cons.prems obtain touts' where
      "flags_wait_loop flags options timeout t0 ?r ?t answers = Inr (r, touts')"
      by (auto simp: a wait_over_def Let_def rbind_eq_Inr split: if_splits)
    from Cons.IH [OF this] show ?thesis
    proof (elim disjE exE conjE)
      fix k assume k: "k < length answers" "\<forall>a \<in> set (take (Suc k) answers). fst a" "wait_over flags options r"
        "r AND flags = (?r OR gathered (take (Suc k) answers)) AND flags"
      have "(?r OR gathered (take (Suc k) answers)) AND flags =
          (rflags OR gathered (take (Suc (Suc k)) (a # answers))) AND flags"
        by (rule bit_word_eqI) (auto simp: bit_simps a)
      with k True show ?thesis by (intro disjI1 exI [of _ "Suc k"]) (simp add: a)
    qed blast+
  next
    case False
    with Cons.prems mask show ?thesis
      by (auto simp: a wait_over_def Let_def split: if_splits)
  qed
qed simp

text \<open>What \<open>rhs_thread_flags_wait\<close> returns from a task with valid flags: either, after some notifications, flags that
  meet the condition (all or any of the awaited ones) and agree on the awaited ones with everything notified so far;
  or the resource code without, and the timeout code with a timeout.\<close>

theorem thread_flags_wait_result:
  assumes "\<not> RHS_IS_IRQ_MODE c" and "valid_thread_flags flags"
    and "rhs_thread_flags_wait c flags options timeout t0 answers = Inr (r, touts)"
  shows "(\<exists>k < length answers. (\<forall>a \<in> set (take (Suc k) answers). fst a) \<and> wait_over flags options r \<and>
       r AND flags = gathered (take (Suc k) answers) AND flags) \<or>
     (r = status_code RHSStatusErrorResource \<and> timeout = 0) \<or> (r = status_code RHSStatusErrorTimeout \<and> timeout \<noteq> 0)"
  using flags_wait_loop_result [of flags options timeout t0 0 timeout answers r touts] assms
  by (simp add: rhs_thread_flags_wait_def)

text \<open>A wait for two flags does not wait for its timeout: every notification that is not enough takes the whole
  time elapsed since the start off the remaining timeout, so that after notifications at the times d1 and d2 the
  next wait gets the timeout less d1 and less d2, although only d2 has passed.\<close>

theorem thread_flags_wait_early_timeout:
  assumes "d1 \<le> timeout" and "d2 \<le> timeout - d1" and "timeout \<noteq> 0" and "\<not> RHS_IS_IRQ_MODE c"
  shows "rhs_thread_flags_wait c 3 RHSFlagWaitAll timeout t0 [(True, 1, t0 + d1), (True, 1, t0 + d2), (False, 0, t0)] =
     Inr (status_code RHSStatusErrorTimeout, [timeout, timeout - d1, timeout - d1 - d2])"
proof -
  have "valid_thread_flags 3" by (simp add: valid_thread_flags_def THREAD_FLAGS_INVALID_BITS_def)
  moreover have "\<not> timeout < d1" "\<not> timeout - d1 < d2" using assms(1,2) by (simp_all add: not_less)
  ultimately show ?thesis using assms(3,4)
    by (simp add: rhs_thread_flags_wait_def RHSFlagWaitAll_def Let_def)
qed

text \<open>Clearing thread flags removes exactly those flags when nothing interferes, but a flag that an interrupt sets
  between the read and the overwrite is lost.\<close>

theorem thread_flags_clear_race:
  assumes "task_notify N" and "\<not> RHS_IS_IRQ_MODE c" and "valid_thread_flags flags" and "v AND f = 0"
  shows "rhs_thread_flags_clear N c (\<lambda>v. v) v flags = (v, v AND NOT flags) \<and>
     snd (rhs_thread_flags_clear N c (\<lambda>v. snd (rhs_thread_flags_set N True v f)) v flags) AND f = (0 :: u32)"
proof -
  have "(v AND NOT flags) AND f = (v AND f) AND NOT flags" by (rule bit_word_eqI) (auto simp: bit_simps)
  with assms(2-4) show ?thesis
    by (simp add: rhs_thread_flags_clear_def task_notify.query [OF assms(1)] task_notify.overwrite [OF assms(1)])
qed

section \<open>Examples\<close>

definition demo_queue :: "nat queue_obj" where
  "demo_queue = \<lparr>items = [], uxLength = 8, uxItemSize = 4\<rparr>"

definition demo_thread :: thread where
  "demo_thread = zero_thread\<lparr>stack_buffer := True, stack_size := 256, callback := Some 5, thread_context := 0,
     priority := RHSThreadPriorityNormal, is_service := False, thread_name := None\<rparr>"

lemma demo_init: "rhs_thread_init list_queue task_ctx 80 = Inr (112, demo_queue)"
  by (simp add: rhs_thread_init_def rhs_message_queue_alloc_def list_queue_def demo_queue_def)

lemma demo_alloc: "rhs_thread_alloc True True None 256 (Some 5) 0 = Inr demo_thread"
  by (simp add: rhs_thread_alloc_def demo_thread_def rhs_thread_set_name_def)

definition demo_threads :: "nat threads" where
  "demo_threads = \<lparr>threads = (\<lambda>_. None), task = (\<lambda>_. NoTask), tls = (\<lambda>_. None), scrub_queue = demo_queue\<rparr>"

lemma demo_threads_reachable:
  "thread_reachable list_queue demo_queue (demo_threads\<lparr>threads := (threads demo_threads)(7 \<mapsto> demo_thread)\<rparr>)"
proof -
  have "thread_reachable list_queue demo_queue demo_threads"
    unfolding demo_threads_def by (rule thread_reachable.init)
  moreover have "thread_step list_queue demo_threads (demo_threads\<lparr>threads := (threads demo_threads)(7 \<mapsto> demo_thread)\<rparr>)"
    by (rule thread_step.alloc) (use demo_alloc in \<open>auto simp: demo_threads_def\<close>)
  ultimately show ?thesis by (rule thread_reachable.step)
qed

lemma demo_started_reachable:
  "thread_reachable list_queue demo_queue (demo_threads\<lparr>threads := (\<lambda>_. None)(7 \<mapsto> demo_thread\<lparr>state := RHSThreadStateStarting\<rparr>),
     task := (\<lambda>_. NoTask)(7 := Created)\<rparr>)"
  (is "thread_reachable _ _ ?s")
proof -
  let ?before = "demo_threads\<lparr>threads := (threads demo_threads)(7 \<mapsto> demo_thread)\<rparr>"
  have "thread_step list_queue ?before (?before\<lparr>threads := (threads ?before)(7 \<mapsto> demo_thread\<lparr>state := RHSThreadStateStarting\<rparr>),
      task := (task ?before)(7 := Created)\<rparr>)"
    by (rule thread_step.start [where th = demo_thread])
      (simp_all add: demo_thread_def zero_thread_def rhs_thread_start_def rhs_thread_set_state_def)
  then have "thread_step list_queue ?before ?s" by (simp add: demo_threads_def)
  with demo_threads_reachable show ?thesis by (rule thread_reachable.step)
qed


lemma joined_thread_is_gone_witness:
  "task (demo_threads\<lparr>threads := (threads demo_threads)(7 \<mapsto> demo_thread)\<rparr>) 7 = NoTask \<and> tls demo_threads 7 = None"
  using joined_thread_is_gone [OF list_queue.rtos_queue_axioms demo_init demo_threads_reachable, of 7 demo_thread None]
  by (simp add: demo_thread_def zero_thread_def rhs_thread_join_def)

lemma thread_flags_wait_result_witness:
  "\<exists>k < length [(True, 1, 10), (True, 2 :: u32, 20 :: u32)]. (\<forall>a \<in> set (take (Suc k) [(True, 1, 10), (True, 2 :: u32, 20 :: u32)]). fst a) \<and> wait_over 3 1 3 \<and>
       3 AND 3 = gathered (take (Suc k) [(True, 1, 10), (True, 2, 20)]) AND 3"
proof -
  have "valid_thread_flags 3" by (simp add: valid_thread_flags_def THREAD_FLAGS_INVALID_BITS_def)
  then show ?thesis
    using thread_flags_wait_result [of task_ctx 3 1 100 0 "[(True, 1, 10), (True, 2, 20)]" 3 "[100, 90]"]
    by (simp add: rhs_thread_flags_wait_def RHSFlagWaitAll_def Let_def status_code_def)
qed

lemma thread_flags_wait_early_timeout_witness:
  "rhs_thread_flags_wait task_ctx 3 RHSFlagWaitAll 100 0 [(True, 1, 0 + 40), (True, 1, 0 + 50), (False, 0, 0)] =
     Inr (status_code RHSStatusErrorTimeout, [100, 100 - 40, 100 - 40 - 50])"
  by (rule thread_flags_wait_early_timeout) simp_all

lemma thread_flags_clear_race_witness:
  "rhs_thread_flags_clear plain_notify task_ctx (\<lambda>v. v) 5 1 = (5, 5 AND NOT 1) \<and>
   snd (rhs_thread_flags_clear plain_notify task_ctx (\<lambda>v. snd (rhs_thread_flags_set plain_notify True v 2)) 5 1) AND 2 = 0"
  by (rule thread_flags_clear_race [OF plain_notify.task_notify_axioms])
    (simp_all add: valid_thread_flags_def THREAD_FLAGS_INVALID_BITS_def)

end
