(* ===== verification/Paged_Memory.thy ===== *)
theory Paged_Memory
  imports Prelude
begin

text \<open>
  Memories that are written page by page: what a write of a run of bytes means, what a chip
  does with a run that crosses the end of a page (it wraps inside the page), and the lemmas
  by which a driver that splits a run at the page ends writes the whole run. The flash and
  the EEPROM driver share them: a flash cell combines the old and the new byte by AND, an
  EEPROM cell takes the new one.
\<close>

definition store :: "('b \<Rightarrow> 'b \<Rightarrow> 'b) \<Rightarrow> (nat \<Rightarrow> 'b) \<Rightarrow> nat \<Rightarrow> 'b list \<Rightarrow> nat \<Rightarrow> 'b" where
  "store put m a xs = (\<lambda>i. if a \<le> i \<and> i < a + length xs then put (m i) (xs ! (i - a)) else m i)"

text \<open>Byte number \<open>k\<close> of the run goes to offset \<open>(a + k) mod P\<close> of the page of \<open>a\<close>.\<close>

definition page_store :: "('b \<Rightarrow> 'b \<Rightarrow> 'b) \<Rightarrow> nat \<Rightarrow> (nat \<Rightarrow> 'b) \<Rightarrow> nat \<Rightarrow> 'b list \<Rightarrow> nat \<Rightarrow> 'b" where
  "page_store put P m a xs =
     (\<lambda>i. let k = (i mod P + P - a mod P) mod P in
           if i div P = a div P \<and> k < length xs then put (m i) (xs ! k) else m i)"

lemma store_Nil [simp]: "store put m a [] = m"
  by (auto simp: store_def fun_eq_iff)

lemma page_store_Nil [simp]: "page_store put P m a [] = m"
  by (auto simp: page_store_def fun_eq_iff)

lemma store_outside: "i < a \<or> a + length xs \<le> i \<Longrightarrow> store put m a xs i = m i"
  by (auto simp: store_def)

lemma store_inside: "k < length xs \<Longrightarrow> store put m a xs (a + k) = put (m (a + k)) (xs ! k)"
  by (simp add: store_def)

lemma store_append: "store put (store put m a xs) (a + length xs) ys = store put m a (xs @ ys)"
proof
  fix i
  show "store put (store put m a xs) (a + length xs) ys i = store put m a (xs @ ys) i"
    by (cases "i < a + length xs") (auto simp: store_def nth_append diff_diff_left)
qed

lemma page_offset_below:
  assumes "0 < (P :: nat)" and "i div P = a div P" and "i < a"
  shows "(i mod P + P - a mod P) mod P = i + P - a" and "i < a + P" and "P - a mod P \<le> i + P - a"
proof -
  have i: "i = P * (a div P) + i mod P" using mult_div_mod_eq [of P i] assms(2) by simp
  have a: "a = P * (a div P) + a mod P" by simp
  have less: "i mod P < a mod P" using i a assms(3) by linarith
  moreover have "a mod P < P" using assms(1) by simp
  ultimately have "i mod P + P - a mod P < P" "i mod P + P - a mod P = i + P - a" using i a by linarith+
  then show "(i mod P + P - a mod P) mod P = i + P - a" by simp
  show "i < a + P" using assms(1,3) by simp
  show "P - a mod P \<le> i + P - a" using i a less \<open>a mod P < P\<close> by linarith
qed

lemma page_offset_above:
  assumes "0 < (P :: nat)" and "i div P = a div P" and "a \<le> i"
  shows "(i mod P + P - a mod P) mod P = i - a"
proof -
  have a: "a = P * (a div P) + a mod P" by simp
  have i: "i = P * (a div P) + i mod P" using mult_div_mod_eq [of P i] assms(2) by simp
  moreover have "i mod P < P" using assms(1) by simp
  ultimately have "i mod P + P - a mod P = (i - a) + P" "i - a < P" using a assms(3) by linarith+
  then show ?thesis by simp
qed

text \<open>A run that ends inside its page is written as it is.\<close>

lemma page_store_fits:
  assumes "0 < P" and "a mod P + length xs \<le> P"
  shows "page_store put P m a xs = store put m a xs"
proof
  fix i
  show "page_store put P m a xs i = store put m a xs i"
  proof (cases "i div P = a div P")
    case same: True
    show ?thesis
    proof (cases "a \<le> i")
      case True
      show ?thesis using page_offset_above [OF assms(1) same True] True same
        by (auto simp: page_store_def store_def Let_def)
    next
      case False
      then have k: "(i mod P + P - a mod P) mod P = i + P - a" "P - a mod P \<le> i + P - a"
        using page_offset_below [OF assms(1) same] by simp_all
      then have "length xs \<le> i + P - a" using assms(2) by linarith
      with k False show ?thesis by (simp add: page_store_def store_def Let_def)
    qed
  next
    case other: False
    have "\<not> (a \<le> i \<and> i < a + length xs)"
    proof
      assume b: "a \<le> i \<and> i < a + length xs"
      have a: "a = P * (a div P) + a mod P" by simp
      then have "P * (a div P) \<le> i" "i < P * (a div P) + P" using b assms(2) by linarith+
      then have "i div P = a div P" using assms(1) by (metis div_nat_eqI mult.commute mult_Suc_right add.commute)
      with other show False by simp
    qed
    with other show ?thesis by (auto simp: page_store_def store_def)
  qed
qed

text \<open>The room between an address and the end of its page.\<close>

lemma room_in_page:
  assumes "0 < (P :: nat)" and "n \<le> P - a mod P"
  shows "a mod P + n \<le> P"
  using assms mod_less_divisor [of P a] by linarith

lemma page_end_aligned: "0 < (P :: nat) \<Longrightarrow> (a + (P - a mod P)) mod P = 0"
proof -
  assume "0 < P"
  then have "a + (P - a mod P) = P * (a div P) + P"
    using mod_less_divisor [of P a] mult_div_mod_eq [of P a] by linarith
  then show ?thesis by simp
qed

end
