(* ===== verification/Mt25ql128aba.thy ===== *)
theory Mt25ql128aba
  imports Paged_Memory "HOL-Library.State_Monad"
begin

text \<open>
  The driver of the serial NOR flash, hal/rhs_hal_flash_ex/mt25ql128aba: every function
  builds the QSPI command of its operation and hands it to the vendor's QSPI driver. Those
  calls and the registers of the peripheral are parameters on a state \<open>'s\<close> that holds the
  peripheral and the chip; the locale \<open>qspi_nor\<close> states what the data sheet promises of the
  commands, in terms of the cells and the status register of the chip. The lemmas carry that
  over to the driver's functions. The handle \<open>Ctx\<close> is always \<open>hqspi\<close>, a part of \<open>'s\<close>.
\<close>

section \<open>Commands\<close>

datatype qspi_lines = LINES_NONE | LINE_1 | LINES_2 | LINES_4
datatype qspi_address_size = ADDRESS_8_BITS | ADDRESS_16_BITS | ADDRESS_24_BITS | ADDRESS_32_BITS
datatype qspi_ddr = DDR_MODE_DISABLE | DDR_MODE_ENABLE
datatype qspi_hhc = DDR_HHC_ANALOG_DELAY | DDR_HHC_HALF_CLK_DELAY
datatype qspi_sioo = SIOO_INST_EVERY_CMD | SIOO_INST_ONLY_FIRST_CMD
datatype qspi_match = MATCH_MODE_AND | MATCH_MODE_OR
datatype qspi_shift = SAMPLE_SHIFTING_NONE | SAMPLE_SHIFTING_HALFCYCLE
datatype hal_status = HAL_OK | HAL_ERROR | HAL_BUSY | HAL_TIMEOUT

record qspi_command =
  InstructionMode :: qspi_lines
  Instruction :: u32
  AddressMode :: qspi_lines
  AddressSize :: qspi_address_size
  Address :: u32
  AlternateByteMode :: qspi_lines
  DataMode :: qspi_lines
  NbData :: u32
  DummyCycles :: u32
  DdrMode :: qspi_ddr
  DdrHoldHalfCycle :: qspi_hhc
  SIOOMode :: qspi_sioo

record qspi_auto_polling =
  Match :: u32
  Mask :: u32
  MatchMode :: qspi_match
  StatusBytesSize :: u32
  Interval :: u32
  AutomaticStop :: bool

record qspi_init =
  ClockPrescaler :: u32
  FifoThreshold :: u32
  SampleShifting :: qspi_shift
  FlashSize :: u32
  ChipSelectHighTime :: nat
  ClockMode :: nat
  FlashID :: nat
  DualFlash :: bool

datatype mt25ql128aba_interface = MT25QL128ABA_SPI_MODE | MT25QL128ABA_SPI_1I2O_MODE | MT25QL128ABA_SPI_2IO_MODE
  | MT25QL128ABA_SPI_1I4O_MODE | MT25QL128ABA_SPI_4IO_MODE | MT25QL128ABA_DPI_MODE | MT25QL128ABA_QPI_MODE

datatype mt25ql128aba_transfer = MT25QL128ABA_STR_TRANSFER | MT25QL128ABA_DTR_TRANSFER

datatype mt25ql128aba_erase = MT25QL128ABA_ERASE_4K | MT25QL128ABA_ERASE_32K | MT25QL128ABA_ERASE_SECTOR
  | MT25QL128ABA_ERASE_BULK

definition MT25QL128ABA_SUBSECTOR_4K :: u32 where "MT25QL128ABA_SUBSECTOR_4K = 4 * 1024"
definition MT25QL128ABA_FLASH_SIZE :: u32 where "MT25QL128ABA_FLASH_SIZE = 128 * 1024 * 1024 div 8"
definition MT25QL128ABA_PAGE_SIZE :: u32 where "MT25QL128ABA_PAGE_SIZE = 256"
definition MT25QL128ABA_BULK_ERASE_MAX_TIME :: u32 where "MT25QL128ABA_BULK_ERASE_MAX_TIME = 460000"
definition MT25QL128ABA_SUBSECTOR_4K_ERASE_MAX_TIME :: u32 where "MT25QL128ABA_SUBSECTOR_4K_ERASE_MAX_TIME = 400"
definition MT25QL128ABA_RESET_MAX_TIME :: u32 where "MT25QL128ABA_RESET_MAX_TIME = 1000"
definition MT25QL128ABA_SR_WIP :: u8 where "MT25QL128ABA_SR_WIP = 0x01"
definition MT25QL128ABA_SR_WREN :: u8 where "MT25QL128ABA_SR_WREN = 0x02"
definition MT25QL128ABA_DUMMY_CYCLES_READ :: u32 where "MT25QL128ABA_DUMMY_CYCLES_READ = 8"
definition MT25QL128ABA_DUMMY_CYCLES_READ_QUAD :: u32 where "MT25QL128ABA_DUMMY_CYCLES_READ_QUAD = 8"

text \<open>
  The vendor's driver and the registers. \<open>uninit\<close> is what an uninitialised command on the
  stack holds. A transmit reads its bytes from the given memory on; a receive gives the bytes
  it stored. \<open>SR\<close> and the register operations are those of the emergency abort, and
  \<open>polls\<close> is how many rounds of a polling loop the model follows.
\<close>

record 's qspi_hal =
  uninit :: qspi_command
  HAL_QPSI_TIMEOUT_DEFAULT_VALUE :: u32
  HAL_QSPI_Init :: "qspi_init \<Rightarrow> 's \<Rightarrow> hal_status \<times> 's"
  HAL_QSPI_Command :: "qspi_command \<Rightarrow> u32 \<Rightarrow> 's \<Rightarrow> hal_status \<times> 's"
  HAL_QSPI_Transmit :: "u8 list \<Rightarrow> u32 \<Rightarrow> 's \<Rightarrow> hal_status \<times> 's"
  HAL_QSPI_Receive :: "u32 \<Rightarrow> 's \<Rightarrow> (hal_status \<times> u8 list) \<times> 's"
  HAL_QSPI_AutoPolling :: "qspi_command \<Rightarrow> qspi_auto_polling \<Rightarrow> u32 \<Rightarrow> 's \<Rightarrow> hal_status \<times> 's"
  set_SampleShifting :: "qspi_shift \<Rightarrow> 's \<Rightarrow> 's"
  SR :: "'s \<Rightarrow> u32 \<times> 's"
  SR_BUSY :: u32
  SR_TCF :: u32
  set_CR_ABORT :: "'s \<Rightarrow> 's"
  write_FCR_all :: "'s \<Rightarrow> 's"
  clear_CCR_FMODE :: "'s \<Rightarrow> 's"
  set_State_READY :: "'s \<Rightarrow> 's"
  HAL_GetTick :: "'s \<Rightarrow> u32 \<times> 's"
  polls :: nat

section \<open>The driver\<close>

definition mt25ql128aba_qspi_command :: "'s qspi_hal \<Rightarrow> qspi_command \<Rightarrow> u32 \<Rightarrow> ('s, hal_status) state" where
  "mt25ql128aba_qspi_command H cmd timeout = State (HAL_QSPI_Command H cmd timeout)"

definition mt25ql128aba_qspi_transmit :: "'s qspi_hal \<Rightarrow> u8 list \<Rightarrow> u32 \<Rightarrow> ('s, hal_status) state" where
  "mt25ql128aba_qspi_transmit H pData timeout = State (HAL_QSPI_Transmit H pData timeout)"

definition mt25ql128aba_qspi_receive :: "'s qspi_hal \<Rightarrow> u32 \<Rightarrow> ('s, hal_status \<times> u8 list) state" where
  "mt25ql128aba_qspi_receive H timeout = State (HAL_QSPI_Receive H timeout)"

definition mt25ql128aba_qspi_auto_polling ::
  "'s qspi_hal \<Rightarrow> qspi_command \<Rightarrow> qspi_auto_polling \<Rightarrow> u32 \<Rightarrow> ('s, hal_status) state" where
  "mt25ql128aba_qspi_auto_polling H cmd cfg timeout = State (HAL_QSPI_AutoPolling H cmd cfg timeout)"

text \<open>The result of a function whose last call gave a status, and of a failed step.\<close>

definition int_of :: "hal_status \<Rightarrow> int" where
  "int_of r = (if r \<noteq> HAL_OK then -1 else 0)"

abbreviation fails :: "('s, int) state" where
  "fails \<equiv> State_Monad.return (-1)"

text \<open>The nine assignments of a command without address and data.\<close>

definition bare_command :: "'s qspi_hal \<Rightarrow> qspi_lines \<Rightarrow> u32 \<Rightarrow> qspi_command" where
  "bare_command H lines instr = (uninit H)\<lparr>InstructionMode := lines, Instruction := instr,
     AddressMode := LINES_NONE, AlternateByteMode := LINES_NONE, DataMode := LINES_NONE, DummyCycles := 0,
     DdrMode := DDR_MODE_DISABLE, DdrHoldHalfCycle := DDR_HHC_ANALOG_DELAY, SIOOMode := SIOO_INST_EVERY_CMD\<rparr>"

definition send_bare :: "'s qspi_hal \<Rightarrow> qspi_lines \<Rightarrow> u32 \<Rightarrow> ('s, int) state" where
  "send_bare H lines instr = do {
     r \<leftarrow> mt25ql128aba_qspi_command H (bare_command H lines instr) (HAL_QPSI_TIMEOUT_DEFAULT_VALUE H);
     State_Monad.return (int_of r) }"

definition instruction_lines :: "mt25ql128aba_interface \<Rightarrow> qspi_lines" where
  "instruction_lines Mode = (if Mode = MT25QL128ABA_QPI_MODE then LINES_4 else LINE_1)"

definition mt25ql128aba_ResetEnable :: "'s qspi_hal \<Rightarrow> mt25ql128aba_interface \<Rightarrow> ('s, int) state" where
  "mt25ql128aba_ResetEnable H Mode = send_bare H (instruction_lines Mode) 0x66"

definition mt25ql128aba_ResetMemory :: "'s qspi_hal \<Rightarrow> mt25ql128aba_interface \<Rightarrow> ('s, int) state" where
  "mt25ql128aba_ResetMemory H Mode = send_bare H (instruction_lines Mode) 0x99"

definition mt25ql128aba_write_enable :: "'s qspi_hal \<Rightarrow> mt25ql128aba_interface \<Rightarrow> ('s, int) state" where
  "mt25ql128aba_write_enable H Mode = (
     let s_command = bare_command H LINE_1 0x06;
         wren = push_bit 8 (ucast MT25QL128ABA_SR_WREN) OR ucast MT25QL128ABA_SR_WREN;
         s_config = \<lparr>Match = wren, Mask = wren, MatchMode = MATCH_MODE_AND, StatusBytesSize = 2,
           Interval = 0x10, AutomaticStop = True\<rparr> in
     do {
       r \<leftarrow> mt25ql128aba_qspi_command H s_command (HAL_QPSI_TIMEOUT_DEFAULT_VALUE H);
       if r \<noteq> HAL_OK then fails
       else do {
         r' \<leftarrow> mt25ql128aba_qspi_auto_polling H (s_command\<lparr>Instruction := 0x05, DataMode := LINE_1\<rparr>) s_config
                (HAL_QPSI_TIMEOUT_DEFAULT_VALUE H);
         State_Monad.return (int_of r') } })"

definition mt25ql128aba_write_disable :: "'s qspi_hal \<Rightarrow> mt25ql128aba_interface \<Rightarrow> ('s, int) state" where
  "mt25ql128aba_write_disable H Mode = send_bare H LINE_1 0x04"

definition mt25ql128aba_auto_polling_mem_ready ::
  "'s qspi_hal \<Rightarrow> mt25ql128aba_interface \<Rightarrow> u32 \<Rightarrow> ('s, int) state" where
  "mt25ql128aba_auto_polling_mem_ready H Mode Timeout = (
     let s_command = (bare_command H LINE_1 0x05)\<lparr>DataMode := LINE_1\<rparr>;
         s_config = \<lparr>Match = 0, Mask = ucast MT25QL128ABA_SR_WIP OR push_bit 8 (ucast MT25QL128ABA_SR_WIP),
           MatchMode = MATCH_MODE_AND, StatusBytesSize = 2, Interval = 0x10, AutomaticStop = True\<rparr> in
     do {
       r \<leftarrow> mt25ql128aba_qspi_auto_polling H s_command s_config Timeout;
       State_Monad.return (int_of r) })"

definition mt25ql128aba_Enter4BytesAddressMode :: "'s qspi_hal \<Rightarrow> mt25ql128aba_interface \<Rightarrow> ('s, int) state" where
  "mt25ql128aba_Enter4BytesAddressMode H Mode = do {
     e \<leftarrow> mt25ql128aba_write_enable H Mode;
     if e \<noteq> 0 then fails
     else do {
       r \<leftarrow> mt25ql128aba_qspi_command H (bare_command H (instruction_lines Mode) 0xB7) (HAL_QPSI_TIMEOUT_DEFAULT_VALUE H);
       if r \<noteq> HAL_OK then fails
       else do {
         p \<leftarrow> mt25ql128aba_auto_polling_mem_ready H Mode (HAL_QPSI_TIMEOUT_DEFAULT_VALUE H);
         State_Monad.return (if p \<noteq> 0 then -1 else 0) } } }"

text \<open>
  The configuration register is received and sent as two bytes, low byte first; \<open>MODIFY_REG\<close>
  clears the mask and sets the new bits.
\<close>

definition dummy_cycles_reg :: "u16 \<Rightarrow> u16" where
  "dummy_cycles_reg r = (r AND NOT 0xF0F0) OR ucast
     (push_bit 4 MT25QL128ABA_DUMMY_CYCLES_READ_QUAD OR push_bit 12 MT25QL128ABA_DUMMY_CYCLES_READ_QUAD)"

definition QSPI_DummyCyclesCfg :: "'s qspi_hal \<Rightarrow> mt25ql128aba_interface \<Rightarrow> ('s, hal_status) state" where
  "QSPI_DummyCyclesCfg H Mode = (
     let s_command = (bare_command H (instruction_lines Mode) 0x85)\<lparr>
           DataMode := (if Mode = MT25QL128ABA_QPI_MODE then LINES_4 else LINE_1), NbData := 2\<rparr>;
         t = HAL_QPSI_TIMEOUT_DEFAULT_VALUE H in
     do {
       r \<leftarrow> mt25ql128aba_qspi_command H s_command t;
       if r \<noteq> HAL_OK then State_Monad.return HAL_ERROR
       else do {
         (r, d) \<leftarrow> mt25ql128aba_qspi_receive H t;
         if r \<noteq> HAL_OK then State_Monad.return HAL_ERROR
         else do {
           e \<leftarrow> mt25ql128aba_write_enable H Mode;
           if e \<noteq> 0 then State_Monad.return HAL_ERROR
           else (
             let reg = dummy_cycles_reg (ucast (d ! 0) OR push_bit 8 (ucast (d ! 1))) in
             do {
               r \<leftarrow> mt25ql128aba_qspi_command H (s_command\<lparr>Instruction := 0x81\<rparr>) t;
               if r \<noteq> HAL_OK then State_Monad.return HAL_ERROR
               else do {
                 r \<leftarrow> mt25ql128aba_qspi_transmit H [ucast reg, ucast (drop_bit 8 reg)] t;
                 State_Monad.return (if r \<noteq> HAL_OK then HAL_ERROR else HAL_OK) } }) } } })"

definition MT25QL128ABA_EnterQPIMode :: "'s qspi_hal \<Rightarrow> ('s, int) state" where
  "MT25QL128ABA_EnterQPIMode H = send_bare H LINE_1 0x35"

definition MT25QL128ABA_ExitQPIMode :: "'s qspi_hal \<Rightarrow> ('s, int) state" where
  "MT25QL128ABA_ExitQPIMode H = send_bare H LINE_1 0xF5"

definition QSPI_ConfigFlash ::
  "'s qspi_hal \<Rightarrow> mt25ql128aba_interface \<Rightarrow> mt25ql128aba_transfer \<Rightarrow> ('s, int) state" where
  "QSPI_ConfigFlash H Mode Rate = do {
     _ \<leftarrow> State (\<lambda>s. ((), set_SampleShifting H
            (if Rate = MT25QL128ABA_STR_TRANSFER then SAMPLE_SHIFTING_HALFCYCLE else SAMPLE_SHIFTING_NONE) s));
     if Mode \<noteq> MT25QL128ABA_QPI_MODE
     then do { r \<leftarrow> MT25QL128ABA_ExitQPIMode H; State_Monad.return (if r \<noteq> 0 then -1 else 0) }
     else State_Monad.return 0 }"

definition mt25ql128aba_init :: "'s qspi_hal \<Rightarrow> ('s, int) state" where
  "mt25ql128aba_init H = do {
     r \<leftarrow> mt25ql128aba_ResetEnable H MT25QL128ABA_QPI_MODE;
     if r \<noteq> 0 then fails else do {
     r \<leftarrow> mt25ql128aba_ResetMemory H MT25QL128ABA_QPI_MODE;
     if r \<noteq> 0 then fails else do {
     r \<leftarrow> mt25ql128aba_auto_polling_mem_ready H MT25QL128ABA_QPI_MODE MT25QL128ABA_RESET_MAX_TIME;
     if r \<noteq> 0 then fails else do {
     r \<leftarrow> mt25ql128aba_Enter4BytesAddressMode H MT25QL128ABA_QPI_MODE;
     if r \<noteq> 0 then fails else do {
     r \<leftarrow> mt25ql128aba_auto_polling_mem_ready H MT25QL128ABA_QPI_MODE (HAL_QPSI_TIMEOUT_DEFAULT_VALUE H);
     if r \<noteq> 0 then fails else do {
     r \<leftarrow> QSPI_DummyCyclesCfg H MT25QL128ABA_QPI_MODE;
     if r \<noteq> HAL_OK then fails else do {
     r \<leftarrow> QSPI_ConfigFlash H MT25QL128ABA_QPI_MODE MT25QL128ABA_STR_TRANSFER;
     State_Monad.return (if r \<noteq> 0 then -1 else 0) } } } } } } }"

text \<open>The commands of the interface modes; a mode without a case leaves the fields as they were.\<close>

definition read_mode :: "mt25ql128aba_interface \<Rightarrow> qspi_command \<Rightarrow> qspi_command" where
  "read_mode Mode c = (case Mode of
     MT25QL128ABA_SPI_MODE \<Rightarrow>
       c\<lparr>InstructionMode := LINE_1, Instruction := 0x0B, AddressMode := LINE_1, DataMode := LINE_1\<rparr>
   | MT25QL128ABA_SPI_2IO_MODE \<Rightarrow>
       c\<lparr>InstructionMode := LINE_1, Instruction := 0xBB, AddressMode := LINES_2, DataMode := LINES_2\<rparr>
   | MT25QL128ABA_SPI_4IO_MODE \<Rightarrow>
       c\<lparr>InstructionMode := LINE_1, Instruction := 0xEB, AddressMode := LINES_4, DataMode := LINES_4\<rparr>
   | MT25QL128ABA_QPI_MODE \<Rightarrow>
       c\<lparr>InstructionMode := LINE_1, Instruction := 0x6B, AddressMode := LINE_1, DataMode := LINES_4\<rparr>
   | _ \<Rightarrow> c)"

definition mt25ql128aba_read ::
  "'s qspi_hal \<Rightarrow> mt25ql128aba_interface \<Rightarrow> u32 \<Rightarrow> u32 \<Rightarrow> ('s, int \<times> u8 list) state" where
  "mt25ql128aba_read H Mode ReadAddr Size = (
     let s_command = (read_mode Mode (uninit H))\<lparr>DummyCycles := MT25QL128ABA_DUMMY_CYCLES_READ,
           AddressSize := ADDRESS_24_BITS, Address := ReadAddr, AlternateByteMode := LINES_NONE, NbData := Size,
           DdrMode := DDR_MODE_DISABLE, DdrHoldHalfCycle := DDR_HHC_ANALOG_DELAY, SIOOMode := SIOO_INST_EVERY_CMD\<rparr> in
     do {
       r \<leftarrow> mt25ql128aba_qspi_command H s_command (HAL_QPSI_TIMEOUT_DEFAULT_VALUE H);
       if r \<noteq> HAL_OK then State_Monad.return (-1, [])
       else do {
         (r, d) \<leftarrow> mt25ql128aba_qspi_receive H (HAL_QPSI_TIMEOUT_DEFAULT_VALUE H);
         State_Monad.return (int_of r, d) } })"

definition program_mode :: "mt25ql128aba_interface \<Rightarrow> qspi_command \<Rightarrow> qspi_command" where
  "program_mode Mode c = (case Mode of
     MT25QL128ABA_SPI_MODE \<Rightarrow>
       c\<lparr>InstructionMode := LINE_1, Instruction := 0x02, AddressMode := LINE_1, DataMode := LINE_1\<rparr>
   | MT25QL128ABA_SPI_2IO_MODE \<Rightarrow>
       c\<lparr>InstructionMode := LINE_1, Instruction := 0xD2, AddressMode := LINES_2, DataMode := LINES_2\<rparr>
   | MT25QL128ABA_SPI_4IO_MODE \<Rightarrow>
       c\<lparr>InstructionMode := LINE_1, Instruction := 0x38, AddressMode := LINES_4, DataMode := LINES_4\<rparr>
   | MT25QL128ABA_QPI_MODE \<Rightarrow>
       c\<lparr>InstructionMode := LINE_1, Instruction := 0x32, AddressMode := LINE_1, DataMode := LINES_4\<rparr>
   | _ \<Rightarrow> c)"

definition mt25ql128aba_page_program ::
  "'s qspi_hal \<Rightarrow> mt25ql128aba_interface \<Rightarrow> u8 list \<Rightarrow> u32 \<Rightarrow> u32 \<Rightarrow> ('s, int) state" where
  "mt25ql128aba_page_program H Mode pData WriteAddr Size = (
     let s_command = (program_mode Mode (uninit H))\<lparr>AddressSize := ADDRESS_24_BITS, Address := WriteAddr,
           NbData := Size, AlternateByteMode := LINES_NONE, DummyCycles := 0,
           DdrMode := DDR_MODE_DISABLE, DdrHoldHalfCycle := DDR_HHC_ANALOG_DELAY, SIOOMode := SIOO_INST_EVERY_CMD\<rparr> in
     do {
       r \<leftarrow> mt25ql128aba_qspi_command H s_command (HAL_QPSI_TIMEOUT_DEFAULT_VALUE H);
       if r \<noteq> HAL_OK then fails
       else do {
         r \<leftarrow> mt25ql128aba_qspi_transmit H pData (HAL_QPSI_TIMEOUT_DEFAULT_VALUE H);
         State_Monad.return (int_of r) } })"

definition mt25ql128aba_chip_erase :: "'s qspi_hal \<Rightarrow> mt25ql128aba_interface \<Rightarrow> ('s, int) state" where
  "mt25ql128aba_chip_erase H Mode = send_bare H LINE_1 0xC7"

definition erase_command :: "'s qspi_hal \<Rightarrow> u32 \<Rightarrow> u32 \<Rightarrow> qspi_command" where
  "erase_command H instr BlockAddress = (uninit H)\<lparr>Instruction := instr, InstructionMode := LINE_1,
     AddressMode := LINE_1, AddressSize := ADDRESS_24_BITS, Address := BlockAddress, AlternateByteMode := LINES_NONE,
     DataMode := LINES_NONE, DummyCycles := 0, DdrMode := DDR_MODE_DISABLE,
     DdrHoldHalfCycle := DDR_HHC_ANALOG_DELAY, SIOOMode := SIOO_INST_EVERY_CMD\<rparr>"

definition mt25ql128aba_block_erase ::
  "'s qspi_hal \<Rightarrow> mt25ql128aba_interface \<Rightarrow> u32 \<Rightarrow> mt25ql128aba_erase \<Rightarrow> ('s, int) state" where
  "mt25ql128aba_block_erase H Mode BlockAddress BlockSize = (
     let send = (\<lambda>instr. do {
           r \<leftarrow> mt25ql128aba_qspi_command H (erase_command H instr BlockAddress) (HAL_QPSI_TIMEOUT_DEFAULT_VALUE H);
           State_Monad.return (int_of r) }) in
     case BlockSize of
       MT25QL128ABA_ERASE_4K \<Rightarrow> send 0x20
     | MT25QL128ABA_ERASE_32K \<Rightarrow> send 0x52
     | MT25QL128ABA_ERASE_SECTOR \<Rightarrow> send 0xD8
     | MT25QL128ABA_ERASE_BULK \<Rightarrow> mt25ql128aba_chip_erase H Mode)"

section \<open>What the data sheet promises\<close>

definition is_read :: "qspi_command \<Rightarrow> bool" where
  "is_read c \<longleftrightarrow> InstructionMode c = LINE_1 \<and> AddressSize c = ADDRESS_24_BITS \<and> AlternateByteMode c = LINES_NONE \<and>
     DummyCycles c = 8 \<and> (Instruction c, AddressMode c, DataMode c) \<in>
       {(0x0B, LINE_1, LINE_1), (0xBB, LINES_2, LINES_2), (0xEB, LINES_4, LINES_4), (0x6B, LINE_1, LINES_4)}"

definition is_program :: "qspi_command \<Rightarrow> bool" where
  "is_program c \<longleftrightarrow> InstructionMode c = LINE_1 \<and> AddressSize c = ADDRESS_24_BITS \<and> AlternateByteMode c = LINES_NONE \<and>
     DummyCycles c = 0 \<and> (Instruction c, AddressMode c, DataMode c) \<in>
       {(0x02, LINE_1, LINE_1), (0xD2, LINES_2, LINES_2), (0x38, LINES_4, LINES_4), (0x32, LINE_1, LINES_4)}"

text \<open>The chip has \<open>2 ^ 24\<close> bytes and takes three address bytes.\<close>

definition chip_address :: "qspi_command \<Rightarrow> nat" where
  "chip_address c = unat (Address c) mod 2 ^ 24"

definition block_of :: "nat \<Rightarrow> nat \<Rightarrow> nat set" where
  "block_of len a = {a div len * len ..< a div len * len + len}"

definition erase_range :: "qspi_command \<Rightarrow> nat set" where
  "erase_range c =
     (if DataMode c \<noteq> LINES_NONE then {}
      else if Instruction c = 0xC7 then {..<2 ^ 24}
      else if AddressMode c \<noteq> LINE_1 \<or> AddressSize c \<noteq> ADDRESS_24_BITS then {}
      else if Instruction c = 0x20 then block_of 4096 (chip_address c)
      else if Instruction c = 0x52 then block_of 32768 (chip_address c)
      else if Instruction c = 0xD8 then block_of 65536 (chip_address c)
      else {})"

definition program_range :: "qspi_command \<Rightarrow> nat set" where
  "program_range c =
     (let a = chip_address c; n = unat (NbData c) in
      if \<not> is_program c then {} else if a mod 256 + n \<le> 256 then {a ..< a + n} else block_of 256 a)"

text \<open>The value two reads of the status register give, and when a poll of it matches.\<close>

definition status_word :: "u8 \<Rightarrow> u32" where
  "status_word st = ucast st OR push_bit 8 (ucast st)"

definition polls_status :: "qspi_command \<Rightarrow> qspi_auto_polling \<Rightarrow> bool" where
  "polls_status c cfg \<longleftrightarrow> Instruction c = 0x05 \<and> DataMode c = LINE_1 \<and> MatchMode cfg = MATCH_MODE_AND \<and>
     StatusBytesSize cfg = 2 \<and> AutomaticStop cfg"

text \<open>
  \<open>cells\<close> is the array of the chip, \<open>status\<close> its status register (bit 0: a program or erase
  is going on, bit 1: the write enable latch), \<open>pending\<close> the command whose data phase is to
  come. A command that failed may have reached the chip, so the frame laws hold for every
  status, the effects only for \<open>HAL_OK\<close>.
\<close>

locale qspi_nor =
  fixes H :: "'s qspi_hal" and cells :: "'s \<Rightarrow> nat \<Rightarrow> u8" and status :: "'s \<Rightarrow> u8"
    and pending :: "'s \<Rightarrow> qspi_command option"
  assumes command_frame: "HAL_QSPI_Command H c t s = (r, s') \<Longrightarrow> i \<notin> erase_range c \<Longrightarrow> cells s' i = cells s i"
    and command_data: "HAL_QSPI_Command H c t s = (HAL_OK, s') \<Longrightarrow> DataMode c \<noteq> LINES_NONE \<Longrightarrow>
        pending s' = Some c \<and> status s' = status s"
    and command_enable: "HAL_QSPI_Command H c t s = (HAL_OK, s') \<Longrightarrow> Instruction c = 0x06 \<Longrightarrow> DataMode c = LINES_NONE \<Longrightarrow>
        bit (status s') 0 = bit (status s) 0"
    and command_erase: "HAL_QSPI_Command H c t s = (HAL_OK, s') \<Longrightarrow> bit (status s) 1 \<Longrightarrow> \<not> bit (status s) 0 \<Longrightarrow>
        i \<in> erase_range c \<Longrightarrow> cells s' i = 0xFF"
    and transmit_frame: "HAL_QSPI_Transmit H d t s = (r, s') \<Longrightarrow> pending s = Some c \<Longrightarrow> i \<notin> program_range c \<Longrightarrow>
        cells s' i = cells s i"
    and transmit_program: "HAL_QSPI_Transmit H d t s = (HAL_OK, s') \<Longrightarrow> pending s = Some c \<Longrightarrow> is_program c \<Longrightarrow>
        bit (status s) 1 \<Longrightarrow> \<not> bit (status s) 0 \<Longrightarrow> 0 < NbData c \<Longrightarrow> unat (NbData c) \<le> 256 \<Longrightarrow>
        unat (NbData c) \<le> length d \<Longrightarrow>
        cells s' = page_store (AND) 256 (cells s) (chip_address c) (take (unat (NbData c)) d)"
    and receive_frame: "HAL_QSPI_Receive H t s = (rd, s') \<Longrightarrow> cells s' = cells s"
    and receive_read: "HAL_QSPI_Receive H t s = ((HAL_OK, d), s') \<Longrightarrow> pending s = Some c \<Longrightarrow> is_read c \<Longrightarrow>
        \<not> bit (status s) 0 \<Longrightarrow> 0 < NbData c \<Longrightarrow> chip_address c + unat (NbData c) \<le> 2 ^ 24 \<Longrightarrow>
        d = map (\<lambda>k. cells s (chip_address c + k)) [0..<unat (NbData c)]"
    and polling_frame: "HAL_QSPI_AutoPolling H c cfg t s = (r, s') \<Longrightarrow> cells s' = cells s"
    and polling_match: "HAL_QSPI_AutoPolling H c cfg t s = (HAL_OK, s') \<Longrightarrow> polls_status c cfg \<Longrightarrow>
        status_word (status s') AND Mask cfg = Match cfg"
    and polling_wip: "HAL_QSPI_AutoPolling H c cfg t s = (r, s') \<Longrightarrow> bit (status s') 0 \<Longrightarrow> bit (status s) 0"

lemma wren_match:
  assumes "status_word st AND 0x202 = 0x202"
  shows "bit st 1"
proof -
  have "bit (status_word st AND 0x202) 1" unfolding assms by simp
  then show ?thesis by (simp add: status_word_def bit_simps)
qed

lemma wip_match:
  assumes "status_word st AND 0x101 = 0"
  shows "\<not> bit st 0"
proof
  assume "bit st 0"
  then have "bit (status_word st AND 0x101) 0" by (simp add: status_word_def bit_simps)
  with assms show False by simp
qed

lemma bare_fields [simp]:
  "Instruction (bare_command H l n) = n" "DataMode (bare_command H l n) = LINES_NONE"
  "AddressMode (bare_command H l n) = LINES_NONE"
  by (simp_all add: bare_command_def)

section \<open>The driver keeps the promises\<close>

lemmas driver_defs = mt25ql128aba_qspi_command_def mt25ql128aba_qspi_transmit_def mt25ql128aba_qspi_receive_def
  mt25ql128aba_qspi_auto_polling_def

lemma int_of_eq_0 [simp]: "int_of r = 0 \<longleftrightarrow> r = HAL_OK"
  by (simp add: int_of_def)

lemma run_simps [simp]:
  "run_state (State_Monad.return x) s = (x, s)"
  "run_state (State_Monad.bind m f) s = (case run_state m s of (x, s') \<Rightarrow> run_state (f x) s')"
  "run_state (if b then m else m') s = (if b then run_state m s else run_state m' s)"
  by (simp_all add: State_Monad.return_def State_Monad.bind_def split: prod.split)

context qspi_nor begin

lemma write_enable_spec:
  assumes "run_state (mt25ql128aba_write_enable H Mode) s = (e, s')"
  shows "cells s' = cells s" and "e = 0 \<Longrightarrow> bit (status s') 1"
    and "e = 0 \<Longrightarrow> \<not> bit (status s) 0 \<Longrightarrow> \<not> bit (status s') 0"
proof -
  let ?c = "bare_command H LINE_1 0x06" and ?t = "HAL_QPSI_TIMEOUT_DEFAULT_VALUE H"
  obtain r s1 where 1: "HAL_QSPI_Command H ?c ?t s = (r, s1)" by (cases "HAL_QSPI_Command H ?c ?t s")
  have f1: "cells s1 = cells s" using command_frame [OF 1] by (simp add: erase_range_def fun_eq_iff)
  let ?w = "0x202 :: u32" and ?c' = "?c\<lparr>Instruction := 0x05, DataMode := LINE_1\<rparr>"
  let ?cfg = "\<lparr>Match = ?w, Mask = ?w, MatchMode = MATCH_MODE_AND, StatusBytesSize = 2, Interval = 0x10, AutomaticStop = True\<rparr>"
  have w: "push_bit 8 (ucast MT25QL128ABA_SR_WREN) OR ucast MT25QL128ABA_SR_WREN = ?w"
    by (simp add: MT25QL128ABA_SR_WREN_def)
  obtain r' s2 where 2: "HAL_QSPI_AutoPolling H ?c' ?cfg ?t s1 = (r', s2)" by (cases "HAL_QSPI_AutoPolling H ?c' ?cfg ?t s1")
  have run: "(e, s') = (if r \<noteq> HAL_OK then (-1, s1) else (int_of r', s2))"
    using assms 1 2 by (simp add: mt25ql128aba_write_enable_def driver_defs Let_def w split: if_splits)
  then show "cells s' = cells s" using f1 polling_frame [OF 2] by (simp split: if_splits)
  assume e: "e = 0"
  then have ok: "r = HAL_OK" "r' = HAL_OK" "s' = s2" using run by (auto split: if_splits)
  show "bit (status s') 1"
    using polling_match [OF 2 [unfolded ok(2)]] wren_match [of "status s2"] ok(3) by (simp add: polls_status_def)
  show "\<not> bit (status s') 0" if "\<not> bit (status s) 0"
    using that command_enable [OF 1 [unfolded ok(1)]] polling_wip [OF 2] ok(3) by auto
qed

lemma mem_ready_spec:
  assumes "run_state (mt25ql128aba_auto_polling_mem_ready H Mode timeout) s = (e, s')"
  shows "cells s' = cells s" and "e = 0 \<Longrightarrow> \<not> bit (status s') 0"
proof -
  let ?c = "(bare_command H LINE_1 0x05)\<lparr>DataMode := LINE_1\<rparr>"
  let ?cfg = "\<lparr>Match = 0, Mask = 0x101 :: u32, MatchMode = MATCH_MODE_AND, StatusBytesSize = 2, Interval = 0x10,
    AutomaticStop = True\<rparr>"
  have w: "ucast MT25QL128ABA_SR_WIP OR push_bit 8 (ucast MT25QL128ABA_SR_WIP) = (0x101 :: u32)"
    by (simp add: MT25QL128ABA_SR_WIP_def)
  obtain r s1 where 1: "HAL_QSPI_AutoPolling H ?c ?cfg timeout s = (r, s1)" by (cases "HAL_QSPI_AutoPolling H ?c ?cfg timeout s")
  have run: "e = int_of r" "s' = s1"
    using assms 1 by (simp_all add: mt25ql128aba_auto_polling_mem_ready_def driver_defs Let_def w)
  then show "cells s' = cells s" using polling_frame [OF 1] by simp
  show "\<not> bit (status s') 0" if "e = 0"
    using that run polling_match [of ?c ?cfg timeout s s1] 1 wip_match [of "status s1"] by (simp add: polls_status_def)
qed

text \<open>The data of a page goes to the cells if it ends inside the page; nothing else changes, whatever happened.\<close>

lemma page_program_spec:
  assumes "run_state (mt25ql128aba_page_program H MT25QL128ABA_QPI_MODE d a n) s = (e, s')"
    and "unat a mod 2 ^ 24 mod 256 + unat n \<le> 256"
  shows "i < unat a mod 2 ^ 24 \<or> unat a mod 2 ^ 24 + unat n \<le> i \<Longrightarrow> cells s' i = cells s i"
    and "e = 0 \<Longrightarrow> bit (status s) 1 \<Longrightarrow> \<not> bit (status s) 0 \<Longrightarrow> 0 < n \<Longrightarrow> unat n \<le> length d \<Longrightarrow>
      cells s' = store (AND) (cells s) (unat a mod 2 ^ 24) (take (unat n) d)"
proof -
  let ?t = "HAL_QPSI_TIMEOUT_DEFAULT_VALUE H"
  let ?c = "(program_mode MT25QL128ABA_QPI_MODE (uninit H))\<lparr>AddressSize := ADDRESS_24_BITS, Address := a, NbData := n,
    AlternateByteMode := LINES_NONE, DummyCycles := 0, DdrMode := DDR_MODE_DISABLE,
    DdrHoldHalfCycle := DDR_HHC_ANALOG_DELAY, SIOOMode := SIOO_INST_EVERY_CMD\<rparr>"
  have c: "is_program ?c" "DataMode ?c \<noteq> LINES_NONE" "chip_address ?c = unat a mod 2 ^ 24" "NbData ?c = n"
    by (simp_all add: is_program_def program_mode_def chip_address_def)
  obtain r s1 where 1: "HAL_QSPI_Command H ?c ?t s = (r, s1)" by (cases "HAL_QSPI_Command H ?c ?t s")
  have f1: "cells s1 = cells s" using command_frame [OF 1] c(2) by (simp add: erase_range_def fun_eq_iff)
  obtain r' s2 where 2: "HAL_QSPI_Transmit H d ?t s1 = (r', s2)" by (cases "HAL_QSPI_Transmit H d ?t s1")
  have run: "(e, s') = (if r \<noteq> HAL_OK then (-1, s1) else (int_of r', s2))"
    using assms(1) 1 2 by (simp add: mt25ql128aba_page_program_def driver_defs Let_def split: if_splits)
  have range: "program_range ?c = {unat a mod 2 ^ 24 ..< unat a mod 2 ^ 24 + unat n}"
    unfolding program_range_def Let_def c(3,4) using c(1) assms(2) by (simp only: not_True_eq_False if_False if_True)
  show "cells s' i = cells s i" if "i < unat a mod 2 ^ 24 \<or> unat a mod 2 ^ 24 + unat n \<le> i"
  proof (cases "r = HAL_OK")
    case True
    have "pending s1 = Some ?c" using command_data [OF 1 [unfolded True] c(2)] by simp
    moreover have "i \<notin> program_range ?c" unfolding range using that by auto
    ultimately have "cells s2 i = cells s1 i" by (rule transmit_frame [OF 2])
    with run True f1 show ?thesis by simp
  qed (use run f1 in simp)
  assume e: "e = 0" and st: "bit (status s) 1" "\<not> bit (status s) 0" and n: "0 < n" "unat n \<le> length d"
  have ok: "r = HAL_OK" "r' = HAL_OK" "s' = s2" using run e by (auto split: if_splits)
  have s1: "pending s1 = Some ?c" "status s1 = status s" using command_data [OF 1 [unfolded ok(1)] c(2)] by simp_all
  have "unat n \<le> 256" using assms(2) by simp
  then have "cells s2 = page_store (AND) 256 (cells s1) (chip_address ?c) (take (unat n) d)"
    using transmit_program [OF 2 [unfolded ok(2)] s1(1) c(1)] st n unfolding s1(2) c(4) by simp
  moreover have "page_store (AND) 256 (cells s1) (chip_address ?c) (take (unat n) d) =
      store (AND) (cells s1) (chip_address ?c) (take (unat n) d)"
    by (rule page_store_fits) (use assms(2) in \<open>simp_all add: c(3)\<close>)
  ultimately show "cells s' = store (AND) (cells s) (unat a mod 2 ^ 24) (take (unat n) d)"
    unfolding ok(3) f1 c(3) by simp
qed

lemma erase_4k_spec:
  assumes "run_state (mt25ql128aba_block_erase H Mode a MT25QL128ABA_ERASE_4K) s = (e, s')"
  shows "i \<notin> block_of 4096 (unat a mod 2 ^ 24) \<Longrightarrow> cells s' i = cells s i"
    and "e = 0 \<Longrightarrow> bit (status s) 1 \<Longrightarrow> \<not> bit (status s) 0 \<Longrightarrow> i \<in> block_of 4096 (unat a mod 2 ^ 24) \<Longrightarrow> cells s' i = 0xFF"
proof -
  let ?c = "erase_command H 0x20 a" and ?t = "HAL_QPSI_TIMEOUT_DEFAULT_VALUE H"
  obtain r s1 where 1: "HAL_QSPI_Command H ?c ?t s = (r, s1)" by (cases "HAL_QSPI_Command H ?c ?t s")
  have run: "e = int_of r" "s' = s1"
    using assms 1 by (simp_all add: mt25ql128aba_block_erase_def driver_defs Let_def)
  have range: "erase_range ?c = block_of 4096 (unat a mod 2 ^ 24)"
    by (simp add: erase_range_def erase_command_def chip_address_def)
  show "i \<notin> block_of 4096 (unat a mod 2 ^ 24) \<Longrightarrow> cells s' i = cells s i"
    using command_frame [OF 1] run(2) by (simp add: range)
  show "e = 0 \<Longrightarrow> bit (status s) 1 \<Longrightarrow> \<not> bit (status s) 0 \<Longrightarrow> i \<in> block_of 4096 (unat a mod 2 ^ 24) \<Longrightarrow> cells s' i = 0xFF"
    using command_erase [of ?c ?t s s1 i] 1 run by (simp add: range)
qed

lemma chip_erase_spec:
  assumes "run_state (mt25ql128aba_chip_erase H Mode) s = (e, s')"
  shows "e = 0 \<Longrightarrow> bit (status s) 1 \<Longrightarrow> \<not> bit (status s) 0 \<Longrightarrow> i < 2 ^ 24 \<Longrightarrow> cells s' i = 0xFF"
proof -
  let ?c = "bare_command H LINE_1 0xC7" and ?t = "HAL_QPSI_TIMEOUT_DEFAULT_VALUE H"
  obtain r s1 where 1: "HAL_QSPI_Command H ?c ?t s = (r, s1)" by (cases "HAL_QSPI_Command H ?c ?t s")
  have run: "e = int_of r" "s' = s1"
    using assms 1 by (simp_all add: mt25ql128aba_chip_erase_def send_bare_def driver_defs)
  show "e = 0 \<Longrightarrow> bit (status s) 1 \<Longrightarrow> \<not> bit (status s) 0 \<Longrightarrow> i < 2 ^ 24 \<Longrightarrow> cells s' i = 0xFF"
    using command_erase [of ?c ?t s s1 i] 1 run by (simp add: erase_range_def)
qed

lemma read_spec:
  assumes "run_state (mt25ql128aba_read H MT25QL128ABA_QPI_MODE a n) s = ((e, d), s')"
  shows "cells s' = cells s"
    and "e = 0 \<Longrightarrow> \<not> bit (status s) 0 \<Longrightarrow> 0 < n \<Longrightarrow> unat a mod 2 ^ 24 + unat n \<le> 2 ^ 24 \<Longrightarrow>
      d = map (\<lambda>k. cells s (unat a mod 2 ^ 24 + k)) [0..<unat n]"
proof -
  let ?t = "HAL_QPSI_TIMEOUT_DEFAULT_VALUE H"
  let ?c = "(read_mode MT25QL128ABA_QPI_MODE (uninit H))\<lparr>DummyCycles := MT25QL128ABA_DUMMY_CYCLES_READ,
    AddressSize := ADDRESS_24_BITS, Address := a, AlternateByteMode := LINES_NONE, NbData := n,
    DdrMode := DDR_MODE_DISABLE, DdrHoldHalfCycle := DDR_HHC_ANALOG_DELAY, SIOOMode := SIOO_INST_EVERY_CMD\<rparr>"
  have c: "is_read ?c" "DataMode ?c \<noteq> LINES_NONE" "chip_address ?c = unat a mod 2 ^ 24" "NbData ?c = n"
    by (simp_all add: is_read_def read_mode_def chip_address_def MT25QL128ABA_DUMMY_CYCLES_READ_def)
  obtain r s1 where 1: "HAL_QSPI_Command H ?c ?t s = (r, s1)" by (cases "HAL_QSPI_Command H ?c ?t s")
  have f1: "cells s1 = cells s" using command_frame [OF 1] c(2) by (simp add: erase_range_def fun_eq_iff)
  obtain r' d' s2 where 2: "HAL_QSPI_Receive H ?t s1 = ((r', d'), s2)" by (cases "HAL_QSPI_Receive H ?t s1") auto
  have run: "((e, d), s') = (if r \<noteq> HAL_OK then ((-1, []), s1) else ((int_of r', d'), s2))"
    using assms 1 2 by (simp add: mt25ql128aba_read_def driver_defs Let_def split: if_splits)
  then show "cells s' = cells s" using f1 receive_frame [OF 2] by (simp split: if_splits)
  assume e: "e = 0" and st: "\<not> bit (status s) 0" and n: "0 < n" "unat a mod 2 ^ 24 + unat n \<le> 2 ^ 24"
  have ok: "r = HAL_OK" "r' = HAL_OK" "d = d'" using run e by (auto split: if_splits)
  have s1: "pending s1 = Some ?c" "status s1 = status s" using command_data [OF 1 [unfolded ok(1)] c(2)] by simp_all
  show "d = map (\<lambda>k. cells s (unat a mod 2 ^ 24 + k)) [0..<unat n]"
    using receive_read [OF 2 [unfolded ok(2)] s1(1) c(1)] st n unfolding s1(2) c(3,4) f1 ok(3) by blast
qed

end

section \<open>A chip that keeps the promises\<close>

text \<open>
  A concrete peripheral and chip. \<open>script\<close> lists the statuses the next calls are made to
  return, so that failing calls can be played too; an exhausted script lets every call do its work.
\<close>

record nor =
  arr :: "nat \<Rightarrow> u8"
  sreg :: u8
  pend :: "qspi_command option"
  clock :: u32
  script :: "hal_status list"

definition scripted :: "(nor \<Rightarrow> hal_status \<times> nor) \<Rightarrow> nor \<Rightarrow> hal_status \<times> nor" where
  "scripted f s = (case script s of
     [] \<Rightarrow> f s
   | r # rs \<Rightarrow> if r = HAL_OK then f (s\<lparr>script := rs\<rparr>) else (r, s\<lparr>script := rs\<rparr>))"

definition nor_command :: "qspi_command \<Rightarrow> nor \<Rightarrow> hal_status \<times> nor" where
  "nor_command c s =
     (if DataMode c \<noteq> LINES_NONE then (HAL_OK, s\<lparr>pend := Some c\<rparr>)
      else if Instruction c = 0x06 then (HAL_OK, s\<lparr>sreg := sreg s OR 2\<rparr>)
      else if bit (sreg s) 1 \<and> \<not> bit (sreg s) 0 then
        (HAL_OK, s\<lparr>arr := (\<lambda>i. if i \<in> erase_range c then 0xFF else arr s i), sreg := 1\<rparr>)
      else (HAL_OK, s))"

definition nor_transmit :: "u8 list \<Rightarrow> nor \<Rightarrow> hal_status \<times> nor" where
  "nor_transmit d s = (case pend s of
     None \<Rightarrow> (HAL_ERROR, s)
   | Some c \<Rightarrow>
       let n = unat (NbData c) in
       if \<not> is_program c \<or> \<not> bit (sreg s) 1 \<or> bit (sreg s) 0 then (HAL_OK, s)
       else if n = 0 \<or> 256 < n \<or> length d < n then (HAL_ERROR, s)
       else (HAL_OK, s\<lparr>arr := page_store (AND) 256 (arr s) (chip_address c) (take n d), sreg := 1\<rparr>))"

definition nor_poll :: "qspi_auto_polling \<Rightarrow> nor \<Rightarrow> hal_status \<times> nor" where
  "nor_poll cfg s =
     (let s' = s\<lparr>sreg := sreg s AND NOT 1\<rparr> in
      if status_word (sreg s') AND Mask cfg = Match cfg then (HAL_OK, s') else (HAL_TIMEOUT, s'))"

definition nor_receive :: "nor \<Rightarrow> (hal_status \<times> u8 list) \<times> nor" where
  "nor_receive s = (case pend s of
     None \<Rightarrow> ((HAL_ERROR, []), s)
   | Some c \<Rightarrow> ((HAL_OK, map (\<lambda>k. arr s (chip_address c + k)) [0..<unat (NbData c)]), s))"

definition plain_nor :: "nor qspi_hal" where
  "plain_nor = \<lparr>
     uninit = \<lparr>InstructionMode = LINES_4, Instruction = 0x77, AddressMode = LINES_4, AddressSize = ADDRESS_8_BITS,
       Address = 0x123, AlternateByteMode = LINES_2, DataMode = LINES_NONE, NbData = 99, DummyCycles = 5,
       DdrMode = DDR_MODE_ENABLE, DdrHoldHalfCycle = DDR_HHC_HALF_CLK_DELAY, SIOOMode = SIOO_INST_ONLY_FIRST_CMD\<rparr>,
     HAL_QPSI_TIMEOUT_DEFAULT_VALUE = 5000,
     HAL_QSPI_Init = (\<lambda>_ s. (HAL_OK, s)),
     HAL_QSPI_Command = (\<lambda>c t. scripted (nor_command c)),
     HAL_QSPI_Transmit = (\<lambda>d t. scripted (nor_transmit d)),
     HAL_QSPI_Receive = (\<lambda>t. nor_receive),
     HAL_QSPI_AutoPolling = (\<lambda>c cfg t. scripted (nor_poll cfg)),
     set_SampleShifting = (\<lambda>_ s. s),
     SR = (\<lambda>s. (if bit (sreg s) 0 then 0x20 else 0, s)), SR_BUSY = 0x20, SR_TCF = 0x02,
     set_CR_ABORT = id, write_FCR_all = id, clear_CCR_FMODE = id, set_State_READY = id,
     HAL_GetTick = (\<lambda>s. (clock s, s\<lparr>clock := clock s + 1\<rparr>)),
     polls = 102\<rparr>"

lemma scripted_cases:
  assumes "scripted f s = (r, s')"
  obtains (call) rs where "f (s\<lparr>script := rs\<rparr>) = (r, s')"
    | (failed) rs where "r \<noteq> HAL_OK" "s' = s\<lparr>script := rs\<rparr>"
proof (cases "script s")
  case Nil
  then have "f (s\<lparr>script := []\<rparr>) = (r, s')" using assms by (cases s) (simp add: scripted_def)
  then show thesis by (rule call)
next
  case (Cons r' rs)
  with assms show thesis by (cases "r' = HAL_OK") (auto simp: scripted_def intro: call failed)
qed

lemma page_store_block:
  assumes "i \<notin> block_of P a" and "0 < P"
  shows "page_store put P m a xs i = m i"
proof -
  have "i div P \<noteq> a div P"
  proof
    assume e: "i div P = a div P"
    have "i div P * P \<le> i" "i < i div P * P + P" using assms(2) div_mult_mod_eq [of i P] mod_less_divisor [of P i] by linarith+
    with e assms(1) show False by (simp add: block_of_def)
  qed
  then show ?thesis by (simp add: page_store_def)
qed

lemma nor_command_frame:
  assumes "scripted (nor_command c) s = (r, s')" and "i \<notin> erase_range c"
  shows "arr s' i = arr s i"
  using assms by (auto elim!: scripted_cases simp: nor_command_def split: if_splits)

lemma nor_transmit_frame:
  assumes "scripted (nor_transmit d) s = (r, s')" and "pend s = Some c" and "i \<notin> program_range c"
  shows "arr s' i = arr s i"
  using assms(1)
proof (cases rule: scripted_cases)
  case (call rs)
  show ?thesis
  proof (cases "is_program c \<and> chip_address c mod 256 + unat (NbData c) \<le> 256")
    case True
    then have "page_store (AND) 256 (arr s) (chip_address c) (take (unat (NbData c)) d) =
        store (AND) (arr s) (chip_address c) (take (unat (NbData c)) d)"
      by (intro page_store_fits) auto
    with call True assms(2,3) show ?thesis
      by (auto simp: nor_transmit_def program_range_def Let_def store_def split: if_splits)
  next
    case False
    then show ?thesis using call assms(2,3)
      by (auto simp: nor_transmit_def program_range_def Let_def page_store_block split: if_splits)
  qed
qed (use assms in simp)

lemma nor_poll_cases:
  assumes "scripted (nor_poll cfg) s = (r, s')"
  shows "arr s' = arr s" and "bit (sreg s') 0 \<Longrightarrow> bit (sreg s) 0"
    and "r = HAL_OK \<Longrightarrow> status_word (sreg s') AND Mask cfg = Match cfg"
  using assms by (auto elim!: scripted_cases simp: nor_poll_def Let_def bit_simps split: if_splits)

interpretation plain_nor: qspi_nor plain_nor arr sreg pend
proof (unfold_locales, goal_cases)
  case (1 c t s r s' i)
  then show ?case by (simp add: plain_nor_def nor_command_frame)
next
  case (2 c t s s')
  then show ?case by (auto simp: plain_nor_def nor_command_def elim!: scripted_cases)
next
  case (3 c t s s')
  then show ?case by (auto simp: plain_nor_def nor_command_def bit_simps elim!: scripted_cases split: if_splits)
next
  case (4 c t s s' i)
  then show ?case by (auto simp: plain_nor_def nor_command_def erase_range_def elim!: scripted_cases split: if_splits)
next
  case (5 d t s r s' c i)
  then show ?case by (simp add: plain_nor_def nor_transmit_frame)
next
  case (6 d t s s' c)
  then show ?case
    by (auto simp: plain_nor_def nor_transmit_def Let_def word_greater_zero_iff unat_eq_zero elim!: scripted_cases split: if_splits)
next
  case (7 t s rd s')
  then show ?case by (auto simp: plain_nor_def nor_receive_def split: option.splits)
next
  case (8 t s d s' c)
  then show ?case by (auto simp: plain_nor_def nor_receive_def)
next
  case (9 c cfg t s r s')
  then show ?case by (simp add: plain_nor_def nor_poll_cases(1))
next
  case (10 c cfg t s s')
  then show ?case using nor_poll_cases(3) [of cfg s HAL_OK s'] by (simp add: plain_nor_def)
next
  case (11 c cfg t s r s')
  then show ?case using nor_poll_cases(2) [of cfg s r s'] by (simp add: plain_nor_def)
qed

end
