(* ===== verification/Flash.thy ===== *)
theory Flash
  imports Mt25ql128aba Mutex
begin

text \<open>
  The external flash of hal/rhs_hal_flash_ex/rhs_hal_flash_ex.c over its chip driver and a
  mutex: reads, writes split into pages, erases in 4 KB subsectors, and the forced abort
  that frees a stuck peripheral. The locale \<open>qspi_flash\<close> adds to the chip's promises that the
  registers of the peripheral leave the cells alone and that the clock advances while the
  driver polls. The lemmas show what every operation does to the cells, byte by byte and on
  every result, that none of them hangs, and what an interrupt gets.
\<close>

definition RHS_FLASH_EX_OK :: int where "RHS_FLASH_EX_OK = 0"
definition RHS_FLASH_EX_ERROR :: int where "RHS_FLASH_EX_ERROR = -1"
definition RHS_FLASH_EX_BUSY :: int where "RHS_FLASH_EX_BUSY = -2"

lemmas flash_codes = RHS_FLASH_EX_OK_def RHS_FLASH_EX_ERROR_def RHS_FLASH_EX_BUSY_def

text \<open>What the operations use besides the state: the peripheral, FreeRTOS, the caller.\<close>

record ('s, 't) flash_env =
  hal :: "'s qspi_hal"
  mapi :: "'t mutex_api"
  me :: 't
  cx :: ctx

record ('s, 't) flash =
  flash_mutex :: "'t mutex_obj"
  dev :: 's

section \<open>The abort\<close>

text \<open>
  \<open>while (! stop (SR)) if (HAL_GetTick () - tickstart > 100) break;\<close> The loop ends by the
  clock; the model follows \<open>polls\<close> rounds of it and calls a longer wait \<open>Blocked\<close>.
\<close>

fun poll_loop :: "'s qspi_hal \<Rightarrow> nat \<Rightarrow> (u32 \<Rightarrow> bool) \<Rightarrow> u32 \<Rightarrow> 's \<Rightarrow> 's res" where
  "poll_loop H 0 stop tickstart s = Inl Blocked"
| "poll_loop H (Suc n) stop tickstart s =
     (let (sr, s1) = SR H s in
      if stop sr then Inr s1
      else let (now, s2) = HAL_GetTick H s1 in
        if now - tickstart > 100 then Inr s2 else poll_loop H n stop tickstart s2)"

definition flash_force_abort :: "'s qspi_hal \<Rightarrow> 's \<Rightarrow> 's res" where
  "flash_force_abort H s =
     (let (sr, s1) = SR H s in
      rbind
        (if sr AND SR_BUSY H \<noteq> 0 then
           let (t0, s2) = HAL_GetTick H (set_CR_ABORT H s1) in
           rbind (poll_loop H (polls H) (\<lambda>sr. sr AND SR_TCF H \<noteq> 0) t0 s2) (\<lambda>s3.
           let (t1, s4) = HAL_GetTick H s3 in
           rbind (poll_loop H (polls H) (\<lambda>sr. sr AND SR_BUSY H = 0) t1 s4) (\<lambda>s5.
           Inr (write_FCR_all H s5)))
         else Inr s1)
        (\<lambda>s6. Inr (set_State_READY H (clear_CCR_FMODE H s6))))"

definition flash_wait_ready :: "'s qspi_hal \<Rightarrow> u32 \<Rightarrow> 's \<Rightarrow> (int \<times> 's) res" where
  "flash_wait_ready H timeout s =
     (let (e, s1) = run_state (mt25ql128aba_auto_polling_mem_ready H MT25QL128ABA_QPI_MODE timeout) s in
      if e \<noteq> 0 then
        rbind (flash_force_abort H s1) (\<lambda>s2.
        Inr (run_state (mt25ql128aba_auto_polling_mem_ready H MT25QL128ABA_QPI_MODE timeout) s2))
      else Inr (0, s1))"

section \<open>Operations\<close>

text \<open>
  Every operation takes the mutex, works and gives the mutex back on every path; the
  statuses of the two mutex calls are ignored.
\<close>

definition locked :: "('s, 't) flash_env \<Rightarrow> ('s \<Rightarrow> ('a \<times> 's) res) \<Rightarrow> ('s, 't) flash \<Rightarrow> ('a \<times> ('s, 't) flash) res" where
  "locked E body f =
     rbind (rhs_mutex_acquire (mapi E) (cx E) (me E) (flash_mutex f) RHSWaitForever) (\<lambda>(_, m).
     rbind (body (dev f)) (\<lambda>(x, d).
     rbind (rhs_mutex_release (mapi E) (cx E) (me E) m) (\<lambda>(_, m').
     Inr (x, \<lparr>flash_mutex = m', dev = d\<rparr>))))"

definition quadspi_settings :: qspi_init where
  "quadspi_settings = \<lparr>ClockPrescaler = 2, FifoThreshold = 4, SampleShifting = SAMPLE_SHIFTING_NONE, FlashSize = 23,
     ChipSelectHighTime = 6, ClockMode = 0, FlashID = 1, DualFlash = False\<rparr>"

definition quadspi_init :: "'s qspi_hal \<Rightarrow> 's \<Rightarrow> 's res" where
  "quadspi_init H s =
     (let (r, s1) = HAL_QSPI_Init H quadspi_settings s in
      if r \<noteq> HAL_OK then Inl (Crash ''SystemClock_Config failed'') else Inr s1)"

definition rhs_hal_flash_ex_init :: "('s, 't) flash_env \<Rightarrow> 's \<Rightarrow> (int \<times> ('s, 't) flash) res" where
  "rhs_hal_flash_ex_init E s =
     rbind (rhs_mutex_alloc (mapi E) (cx E) RHSMutexTypeNormal) (\<lambda>m.
     locked E (\<lambda>s.
       rbind (quadspi_init (hal E) s) (\<lambda>s1.
       let (_, s2) = run_state (mt25ql128aba_init (hal E)) s1 in Inr (0, s2)))
       \<lparr>flash_mutex = m, dev = s\<rparr>)"

text \<open>A read gives the bytes it stored at \<open>p_data\<close> with the result.\<close>

definition rhs_hal_flash_ex_read ::
  "('s, 't) flash_env \<Rightarrow> u32 \<Rightarrow> u32 \<Rightarrow> ('s, 't) flash \<Rightarrow> ((int \<times> u8 list) \<times> ('s, 't) flash) res" where
  "rhs_hal_flash_ex_read E addr sz f =
     rhs_assert (addr + sz \<le> MT25QL128ABA_FLASH_SIZE)
       (locked E (\<lambda>s.
          rbind (flash_wait_ready (hal E) 10 s) (\<lambda>(w, s1).
          let ((error, d), s2) =
            (if w \<noteq> 0 then ((RHS_FLASH_EX_BUSY, []), s1)
             else let ((e, d), s2) = run_state (mt25ql128aba_read (hal E) MT25QL128ABA_QPI_MODE addr sz) s1 in
               ((if e \<noteq> 0 then RHS_FLASH_EX_ERROR else RHS_FLASH_EX_OK, d), s2)) in
          rbind (flash_force_abort (hal E) s2) (\<lambda>s3. Inr ((error, d), s3)))) f)"

definition rhs_hal_flash_ex_erase_chip :: "('s, 't) flash_env \<Rightarrow> ('s, 't) flash \<Rightarrow> (int \<times> ('s, 't) flash) res" where
  "rhs_hal_flash_ex_erase_chip E f =
     locked E (\<lambda>s.
       rbind (flash_wait_ready (hal E) 10 s) (\<lambda>(w, s1).
       rbind
         (if w \<noteq> 0 then Inr (RHS_FLASH_EX_BUSY, s1)
          else let (e, s2) = run_state (mt25ql128aba_write_enable (hal E) MT25QL128ABA_QPI_MODE) s1 in
            if e \<noteq> 0 then rbind (flash_force_abort (hal E) s2) (\<lambda>s3. Inr (RHS_FLASH_EX_ERROR, s3))
            else let (e, s3) = run_state (mt25ql128aba_chip_erase (hal E) MT25QL128ABA_QPI_MODE) s2 in
              if e \<noteq> 0 then rbind (flash_force_abort (hal E) s3) (\<lambda>s4. Inr (RHS_FLASH_EX_ERROR, s4))
              else Inr (RHS_FLASH_EX_OK, s3))
         (\<lambda>(error, s5).
       rbind (flash_wait_ready (hal E) MT25QL128ABA_BULK_ERASE_MAX_TIME s5) (\<lambda>(w, s6).
       Inr (if w \<noteq> 0 then RHS_FLASH_EX_ERROR else error, s6))))) f"

text \<open>One round of the write loop, up to the update of the address; its error stops the loop.\<close>

definition write_page :: "'s qspi_hal \<Rightarrow> u8 list \<Rightarrow> u32 \<Rightarrow> u32 \<Rightarrow> 's \<Rightarrow> (int \<times> 's) res" where
  "write_page H write_data current_addr current_size s =
     rbind (flash_wait_ready H 10 s) (\<lambda>(w, s1).
     if w \<noteq> 0 then Inr (RHS_FLASH_EX_BUSY, s1)
     else let (e, s2) = run_state (mt25ql128aba_write_enable H MT25QL128ABA_QPI_MODE) s1 in
       if e \<noteq> 0 then rbind (flash_force_abort H s2) (\<lambda>s3. Inr (RHS_FLASH_EX_ERROR, s3))
       else let (e, s3) = run_state (mt25ql128aba_page_program H MT25QL128ABA_QPI_MODE write_data current_addr current_size) s2 in
         if e \<noteq> 0 then rbind (flash_force_abort H s3) (\<lambda>s4. Inr (RHS_FLASH_EX_ERROR, s4))
         else rbind (flash_wait_ready H 10 s3) (\<lambda>(w, s4).
           Inr (if w \<noteq> 0 then RHS_FLASH_EX_ERROR else RHS_FLASH_EX_OK, s4)))"

text \<open>The do-while loop; the fuel of the caller covers one round per byte, and one more.\<close>

fun write_loop :: "'s qspi_hal \<Rightarrow> nat \<Rightarrow> u32 \<Rightarrow> u8 list \<Rightarrow> u32 \<Rightarrow> u32 \<Rightarrow> 's \<Rightarrow> (int \<times> 's) res" where
  "write_loop H 0 end_addr write_data current_addr current_size s = Inl Blocked"
| "write_loop H (Suc n) end_addr write_data current_addr current_size s =
     rbind (write_page H write_data current_addr current_size s) (\<lambda>(error, s').
     if error \<noteq> RHS_FLASH_EX_OK then Inr (error, s')
     else
       let addr' = current_addr + current_size;
           data' = drop (unat current_size) write_data;
           size' = (if addr' + MT25QL128ABA_PAGE_SIZE > end_addr then end_addr - addr' else MT25QL128ABA_PAGE_SIZE) in
       if addr' < end_addr then write_loop H n end_addr data' addr' size' s' else Inr (RHS_FLASH_EX_OK, s'))"

definition rhs_hal_flash_ex_write ::
  "('s, 't) flash_env \<Rightarrow> u32 \<Rightarrow> u8 list \<Rightarrow> u32 \<Rightarrow> ('s, 't) flash \<Rightarrow> (int \<times> ('s, 't) flash) res" where
  "rhs_hal_flash_ex_write E addr p_data sz f =
     rhs_assert (addr + sz \<le> MT25QL128ABA_FLASH_SIZE)
       (locked E (\<lambda>s.
          let room = MT25QL128ABA_PAGE_SIZE - addr mod MT25QL128ABA_PAGE_SIZE;
              current_size = (if room > sz then sz else room) in
          write_loop (hal E) (Suc (unat sz)) (addr + sz) p_data addr current_size s) f)"

fun erase_loop :: "'s qspi_hal \<Rightarrow> nat \<Rightarrow> u32 \<Rightarrow> u32 \<Rightarrow> 's \<Rightarrow> (int \<times> 's) res" where
  "erase_loop H 0 current_addr current_size s = Inl Blocked"
| "erase_loop H (Suc n) current_addr current_size s =
     (let (e, s1) = run_state (mt25ql128aba_write_enable H MT25QL128ABA_QPI_MODE) s in
      if e \<noteq> 0 then rbind (flash_force_abort H s1) (\<lambda>s2. Inr (RHS_FLASH_EX_ERROR, s2))
      else let (e, s2) = run_state (mt25ql128aba_block_erase H MT25QL128ABA_QPI_MODE current_addr MT25QL128ABA_ERASE_4K) s1 in
        if e \<noteq> 0 then rbind (flash_force_abort H s2) (\<lambda>s3. Inr (RHS_FLASH_EX_ERROR, s3))
        else rbind (flash_wait_ready H MT25QL128ABA_SUBSECTOR_4K_ERASE_MAX_TIME s2) (\<lambda>(w, s3).
          if w \<noteq> 0 then Inr (RHS_FLASH_EX_ERROR, s3)
          else
            let size' = (if current_size > MT25QL128ABA_SUBSECTOR_4K then current_size - MT25QL128ABA_SUBSECTOR_4K else 0) in
            if size' \<noteq> 0 then erase_loop H n (current_addr + MT25QL128ABA_SUBSECTOR_4K) size' s3
            else Inr (RHS_FLASH_EX_OK, s3)))"

definition rhs_hal_flash_ex_block_erase ::
  "('s, 't) flash_env \<Rightarrow> u32 \<Rightarrow> u32 \<Rightarrow> ('s, 't) flash \<Rightarrow> (int \<times> ('s, 't) flash) res" where
  "rhs_hal_flash_ex_block_erase E addr sz f =
     rhs_assert (addr + sz \<le> MT25QL128ABA_FLASH_SIZE)
       (locked E (\<lambda>s.
          rbind (flash_wait_ready (hal E) 10 s) (\<lambda>(w, s1).
          if w \<noteq> 0 then Inr (RHS_FLASH_EX_BUSY, s1)
          else erase_loop (hal E) (Suc (unat sz)) (addr - addr mod MT25QL128ABA_SUBSECTOR_4K) sz s1)) f)"

section \<open>The peripheral's promises\<close>

text \<open>
  The registers do not touch the cells. Polling takes time: whatever the starting tick, one of
  the next \<open>polls\<close> readings of the clock is more than 100 ms past it.
\<close>

locale qspi_flash = qspi_nor H cells status pending
  for H :: "'s qspi_hal" and cells :: "'s \<Rightarrow> nat \<Rightarrow> u8" and status :: "'s \<Rightarrow> u8"
    and pending :: "'s \<Rightarrow> qspi_command option" +
  assumes register_frame: "cells (snd (SR H s)) = cells s" "cells (snd (HAL_GetTick H s)) = cells s"
      "cells (set_CR_ABORT H s) = cells s" "cells (write_FCR_all H s) = cells s"
      "cells (clear_CCR_FMODE H s) = cells s" "cells (set_State_READY H s) = cells s"
    and time_passes: "\<exists>k < polls H.
        100 < fst (HAL_GetTick H (snd (SR H (((\<lambda>s. snd (HAL_GetTick H (snd (SR H s)))) ^^ k) s)))) - t0"

definition is_flash_code :: "int \<Rightarrow> bool" where
  "is_flash_code r \<longleftrightarrow> r \<in> {RHS_FLASH_EX_OK, RHS_FLASH_EX_ERROR, RHS_FLASH_EX_BUSY}"

lemma flash_code_simps [simp]:
  "is_flash_code RHS_FLASH_EX_OK" "is_flash_code RHS_FLASH_EX_ERROR" "is_flash_code RHS_FLASH_EX_BUSY"
  "RHS_FLASH_EX_ERROR \<noteq> RHS_FLASH_EX_OK" "RHS_FLASH_EX_BUSY \<noteq> RHS_FLASH_EX_OK"
  by (simp_all add: is_flash_code_def flash_codes)

lemma poll_loop_ends:
  assumes "k < n"
    and "100 < fst (HAL_GetTick H (snd (SR H (((\<lambda>s. snd (HAL_GetTick H (snd (SR H s)))) ^^ k) s)))) - t0"
  shows "\<exists>s'. poll_loop H n stop t0 s = Inr s'"
  using assms
proof (induction n arbitrary: k s)
  case (Suc n)
  obtain sr s1 where 1: "SR H s = (sr, s1)" by (cases "SR H s")
  obtain now s2 where 2: "HAL_GetTick H s1 = (now, s2)" by (cases "HAL_GetTick H s1")
  show ?case
  proof (cases "stop sr \<or> now - t0 > 100")
    case False
    with Suc.prems 1 2 obtain k' where k: "k = Suc k'" by (cases k) auto
    let ?f = "\<lambda>s. snd (HAL_GetTick H (snd (SR H s)))"
    have "(?f ^^ k) s = (?f ^^ k') s2" unfolding k funpow_Suc_right using 1 2 by simp
    moreover have "k' < n" using Suc.prems(1) k by simp
    ultimately have "\<exists>s'. poll_loop H n stop t0 s2 = Inr s'"
      using Suc.IH [of k' s2] Suc.prems(2) by simp
    with False 1 2 show ?thesis by simp
  qed (use 1 2 in auto)
qed simp

context qspi_flash begin

lemma poll_loop_frame:
  "poll_loop H n stop t0 s = Inr s' \<Longrightarrow> cells s' = cells s"
proof (induction n arbitrary: s)
  case (Suc n)
  obtain sr s1 where 1: "SR H s = (sr, s1)" by (cases "SR H s")
  obtain now s2 where 2: "HAL_GetTick H s1 = (now, s2)" by (cases "HAL_GetTick H s1")
  have "cells s1 = cells s" "cells s2 = cells s"
    using register_frame(1) [of s] register_frame(2) [of s1] 1 2 by simp_all
  with Suc 1 2 show ?case by (auto split: if_splits)
qed simp

lemma poll_loop_spec: "\<exists>s'. poll_loop H (polls H) stop t0 s = Inr s' \<and> cells s' = cells s"
  using time_passes [of s t0] poll_loop_ends [of _ "polls H" H s t0 stop] poll_loop_frame [of "polls H" stop t0 s]
  by blast

text \<open>The abort always returns, whatever state the peripheral is in.\<close>

lemma force_abort_spec: "\<exists>s'. flash_force_abort H s = Inr s' \<and> cells s' = cells s"
proof -
  obtain sr s1 where 1: "SR H s = (sr, s1)" by (cases "SR H s")
  have c1: "cells s1 = cells s" using register_frame(1) [of s] 1 by simp
  obtain t0 s2 where 2: "HAL_GetTick H (set_CR_ABORT H s1) = (t0, s2)" by (cases "HAL_GetTick H (set_CR_ABORT H s1)")
  have c2: "cells s2 = cells s" using register_frame(2) [of "set_CR_ABORT H s1"] register_frame(3) [of s1] 2 c1 by simp
  obtain s3 where 3: "poll_loop H (polls H) (\<lambda>sr. sr AND SR_TCF H \<noteq> 0) t0 s2 = Inr s3" "cells s3 = cells s2"
    using poll_loop_spec by blast
  obtain t1 s4 where 4: "HAL_GetTick H s3 = (t1, s4)" by (cases "HAL_GetTick H s3")
  have c4: "cells s4 = cells s" using register_frame(2) [of s3] 4 3(2) c2 by simp
  obtain s5 where 5: "poll_loop H (polls H) (\<lambda>sr. sr AND SR_BUSY H = 0) t1 s4 = Inr s5" "cells s5 = cells s4"
    using poll_loop_spec by blast
  show ?thesis using 1 2 3 4 5 c1 c4 by (simp add: flash_force_abort_def register_frame)
qed

lemma wait_ready_spec:
  obtains e s' where "flash_wait_ready H t s = Inr (e, s')" "cells s' = cells s" "e = 0 \<Longrightarrow> \<not> bit (status s') 0"
proof -
  let ?p = "mt25ql128aba_auto_polling_mem_ready H MT25QL128ABA_QPI_MODE t"
  obtain e s1 where 1: "run_state ?p s = (e, s1)" by (cases "run_state ?p s")
  note p1 = mem_ready_spec [OF 1]
  obtain s2 where 2: "flash_force_abort H s1 = Inr s2" "cells s2 = cells s1" using force_abort_spec by blast
  obtain e' s3 where 3: "run_state ?p s2 = (e', s3)" by (cases "run_state ?p s2")
  note p3 = mem_ready_spec [OF 3]
  show thesis
  proof (cases "e = 0")
    case True
    then show thesis using 1 p1 by (intro that [of 0 s1]) (auto simp: flash_wait_ready_def)
  next
    case False
    then show thesis using 1 2 3 p1(1) p3 by (intro that [of e' s3]) (auto simp: flash_wait_ready_def)
  qed
qed

text \<open>After a successful wait and write enable the chip takes a program or an erase.\<close>

lemma write_page_spec:
  assumes "unat a < 2 ^ 24" and "unat a mod 256 + unat n \<le> 256" and "0 < n" and "unat n \<le> length d"
  obtains r s' where "write_page H d a n s = Inr (r, s')" "is_flash_code r"
    "\<And>i. i < unat a \<or> unat a + unat n \<le> i \<Longrightarrow> cells s' i = cells s i"
    "r = RHS_FLASH_EX_OK \<Longrightarrow> cells s' = store (AND) (cells s) (unat a) (take (unat n) d)"
proof -
  obtain w s1 where 1: "flash_wait_ready H 10 s = Inr (w, s1)" "cells s1 = cells s" "w = 0 \<Longrightarrow> \<not> bit (status s1) 0"
    using wait_ready_spec by blast
  obtain e s2 where 2: "run_state (mt25ql128aba_write_enable H MT25QL128ABA_QPI_MODE) s1 = (e, s2)"
    by (cases "run_state (mt25ql128aba_write_enable H MT25QL128ABA_QPI_MODE) s1")
  note p2 = write_enable_spec [OF 2]
  obtain p s3 where 3: "run_state (mt25ql128aba_page_program H MT25QL128ABA_QPI_MODE d a n) s2 = (p, s3)"
    by (cases "run_state (mt25ql128aba_page_program H MT25QL128ABA_QPI_MODE d a n) s2")
  have a: "unat a mod 2 ^ 24 = unat a" using assms(1) by simp
  note p3 = page_program_spec [OF 3, unfolded a, OF assms(2)]
  obtain s3' where ab3: "flash_force_abort H s3 = Inr s3'" "cells s3' = cells s3" using force_abort_spec by blast
  obtain s2' where ab2: "flash_force_abort H s2 = Inr s2'" "cells s2' = cells s2" using force_abort_spec by blast
  obtain w' s4 where 4: "flash_wait_ready H 10 s3 = Inr (w', s4)" "cells s4 = cells s3"
    using wait_ready_spec by blast
  consider (busy) "w \<noteq> 0" | (enable) "w = 0" "e \<noteq> 0" | (program) "w = 0" "e = 0" "p \<noteq> 0"
    | (late) "w = 0" "e = 0" "p = 0" "w' \<noteq> 0" | (finish) "w = 0" "e = 0" "p = 0" "w' = 0" by blast
  then show thesis
  proof cases
    case busy
    with 1 show thesis by (intro that [of RHS_FLASH_EX_BUSY s1]) (simp_all add: write_page_def)
  next
    case enable
    with 1 2 ab2 p2(1) show thesis by (intro that [of RHS_FLASH_EX_ERROR s2']) (simp_all add: write_page_def)
  next
    case program
    with 1 2 3 ab3 p2(1) p3(1) show thesis by (intro that [of RHS_FLASH_EX_ERROR s3']) (simp_all add: write_page_def)
  next
    case late
    with 1 2 3 4 p2(1) p3(1) show thesis by (intro that [of RHS_FLASH_EX_ERROR s4]) (simp_all add: write_page_def)
  next
    case finish
    have "cells s4 = store (AND) (cells s) (unat a) (take (unat n) d)"
      using finish p3(2) assms(3,4) p2 1(2,3) 4(2) by simp
    with finish 1 2 3 4 p2(1) p3(1) show thesis
      by (intro that [of RHS_FLASH_EX_OK s4]) (simp_all add: write_page_def)
  qed
qed

text \<open>The size of a round is right: it ends inside the page, and at the end of the page or of the data.\<close>

end

definition round_fits :: "u32 \<Rightarrow> u32 \<Rightarrow> u32 \<Rightarrow> bool" where
  "round_fits end_addr a n \<longleftrightarrow> unat end_addr \<le> 2 ^ 24 \<and> 0 < n \<and> unat a mod 256 + unat n \<le> 256 \<and>
     unat a + unat n \<le> unat end_addr \<and> (unat a + unat n = unat end_addr \<or> (unat a + unat n) mod 256 = 0)"

lemma round_sum:
  assumes "round_fits end_addr a n"
  shows "unat (a + n) = unat a + unat n" and "unat a < 2 ^ 24"
proof -
  have "0 < unat n" using assms by (simp add: round_fits_def word_greater_zero_iff unat_gt_0)
  then show "unat a < 2 ^ 24" using assms by (simp add: round_fits_def)
  have "unat a + unat n < 2 ^ LENGTH(32)" using assms by (simp add: round_fits_def)
  then show "unat (a + n) = unat a + unat n" by (simp add: unat_word_ariths)
qed

lemma next_round:
  assumes "round_fits end_addr a n" and "a + n < end_addr"
  shows "round_fits end_addr (a + n)
     (if a + n + MT25QL128ABA_PAGE_SIZE > end_addr then end_addr - (a + n) else MT25QL128ABA_PAGE_SIZE)"
proof -
  have u: "unat (a + n) < unat end_addr" using assms(2) by (simp add: word_less_nat_alt)
  then have al: "unat (a + n) mod 256 = 0" using assms(1) unfolding round_fits_def round_sum(1) [OF assms(1)] by linarith
  have e: "unat end_addr \<le> 2 ^ 24" using assms(1) by (simp add: round_fits_def)
  have "unat (a + n) + unat (256 :: u32) < 2 ^ LENGTH(32)" using u e by simp
  then have p: "unat (a + n + 256) = unat (a + n) + 256" by (simp only: unat_add_lem) simp
  have d: "unat (end_addr - (a + n)) = unat end_addr - unat (a + n)" using assms(2) by (simp add: unat_sub_if_size word_le_nat_alt word_less_nat_alt less_imp_le)
  show ?thesis
  proof (cases "a + n + MT25QL128ABA_PAGE_SIZE > end_addr")
    case True
    then have "unat end_addr < unat (a + n) + 256" using p by (simp add: word_less_nat_alt MT25QL128ABA_PAGE_SIZE_def)
    moreover have "0 < end_addr - (a + n)" using u by (auto simp: word_greater_zero_iff)
    ultimately show ?thesis using True u al e d by (simp add: round_fits_def)
  next
    case False
    then have "unat (a + n) + 256 \<le> unat end_addr"
      using p by (simp add: word_less_nat_alt not_less MT25QL128ABA_PAGE_SIZE_def)
    moreover have "(unat (a + n) + 256) mod 256 = 0" using al by presburger
    ultimately show ?thesis using False al e by (simp add: round_fits_def MT25QL128ABA_PAGE_SIZE_def)
  qed
qed

lemma first_round:
  assumes "unat addr + unat sz \<le> 2 ^ 24" and "0 < sz"
  defines "room \<equiv> MT25QL128ABA_PAGE_SIZE - addr mod MT25QL128ABA_PAGE_SIZE"
  shows "round_fits (addr + sz) addr (if room > sz then sz else room)" and "unat (addr + sz) = unat addr + unat sz"
proof -
  have "unat addr + unat sz < 2 ^ LENGTH(32)" using assms(1) by simp
  then show sum: "unat (addr + sz) = unat addr + unat sz" by (simp add: unat_word_ariths)
  have m: "unat (addr mod MT25QL128ABA_PAGE_SIZE) = unat addr mod 256" by (simp add: MT25QL128ABA_PAGE_SIZE_def unat_mod)
  then have "addr mod MT25QL128ABA_PAGE_SIZE \<le> MT25QL128ABA_PAGE_SIZE"
    by (simp add: word_le_nat_alt MT25QL128ABA_PAGE_SIZE_def)
  then have room: "unat room = 256 - unat addr mod 256"
    unfolding room_def by (simp add: unat_sub m) (simp add: MT25QL128ABA_PAGE_SIZE_def)
  have al: "(unat addr + (256 - unat addr mod 256)) mod 256 = 0" by (rule page_end_aligned) simp
  have r0: "0 < room" using room by (simp add: word_greater_zero_iff unat_gt_0 [symmetric])
  show "round_fits (addr + sz) addr (if room > sz then sz else room)"
    using assms(1,2) room r0 al unfolding round_fits_def sum by (auto simp: word_less_nat_alt)
qed

context qspi_flash begin

lemma write_loop_spec:
  assumes "round_fits end_addr a n" and "length d = unat end_addr - unat a" and "length d < fuel"
  shows "\<exists>r s'. write_loop H fuel end_addr d a n s = Inr (r, s') \<and> is_flash_code r \<and>
     (\<forall>i. i < unat a \<or> unat end_addr \<le> i \<longrightarrow> cells s' i = cells s i) \<and>
     (r = RHS_FLASH_EX_OK \<longrightarrow> cells s' = store (AND) (cells s) (unat a) d)"
  using assms
proof (induction fuel arbitrary: a n d s)
  case (Suc fuel)
  note fits = Suc.prems(1)
  note f = fits [unfolded round_fits_def] and sum = round_sum [OF fits]
  have len: "unat n \<le> length d" "0 < unat n"
    using f Suc.prems(2) by (simp_all add: word_greater_zero_iff unat_gt_0 le_diff_conv2)
  have inp: "unat a mod 256 + unat n \<le> 256" "0 < n" using f by simp_all
  obtain r s1 where 1: "write_page H d a n s = Inr (r, s1)" "is_flash_code r"
    "\<And>i. i < unat a \<or> unat a + unat n \<le> i \<Longrightarrow> cells s1 i = cells s i"
    "r = RHS_FLASH_EX_OK \<Longrightarrow> cells s1 = store (AND) (cells s) (unat a) (take (unat n) d)"
    by (rule write_page_spec [OF sum(2) inp len(1)]) blast
  show ?case
  proof (cases "r = RHS_FLASH_EX_OK \<and> a + n < end_addr")
    case True
    let ?n = "if a + n + MT25QL128ABA_PAGE_SIZE > end_addr then end_addr - (a + n) else MT25QL128ABA_PAGE_SIZE"
    have next_fits: "round_fits end_addr (a + n) ?n" by (rule next_round [OF fits conjunct2 [OF True]])
    have l: "length (drop (unat n) d) = unat end_addr - unat (a + n)" "length (drop (unat n) d) < fuel"
      using Suc.prems(2,3) len sum(1) by simp_all
    obtain r' s' where 2: "write_loop H fuel end_addr (drop (unat n) d) (a + n) ?n s1 = Inr (r', s')" "is_flash_code r'"
      "\<forall>i. i < unat (a + n) \<or> unat end_addr \<le> i \<longrightarrow> cells s' i = cells s1 i"
      "r' = RHS_FLASH_EX_OK \<longrightarrow> cells s' = store (AND) (cells s1) (unat (a + n)) (drop (unat n) d)"
      using Suc.IH [OF next_fits l] by blast
    have "write_loop H (Suc fuel) end_addr d a n s = Inr (r', s')" using 1(1) True 2(1) by (simp add: Let_def)
    moreover have "cells s' i = cells s i" if "i < unat a \<or> unat end_addr \<le> i" for i
      using that 1(3) [of i] 2(3) f sum(1) by auto
    moreover have "cells s' = store (AND) (cells s) (unat a) d" if "r' = RHS_FLASH_EX_OK"
    proof -
      have "length (take (unat n) d) = unat n" using len(1) by simp
      from store_append [of "(AND)" "cells s" "unat a" "take (unat n) d" "drop (unat n) d", unfolded this append_take_drop_id]
      show ?thesis using that 2(4) 1(4) True sum(1) by simp
    qed
    ultimately show ?thesis using 2(2) by blast
  next
    case False
    have "write_loop H (Suc fuel) end_addr d a n s = Inr (r, s1)" using 1(1) False by (auto simp: Let_def)
    moreover have "cells s1 i = cells s i" if "i < unat a \<or> unat end_addr \<le> i" for i
      using that 1(3) [of i] f by auto
    moreover have "cells s1 = store (AND) (cells s) (unat a) d" if "r = RHS_FLASH_EX_OK"
    proof -
      have "\<not> unat (a + n) < unat end_addr" using that False by (simp add: word_less_nat_alt)
      then have "length d \<le> unat n" using Suc.prems(2) sum(1) by simp
      with that 1(4) show ?thesis by simp
    qed
    ultimately show ?thesis using 1(2) by blast
  qed
qed simp

end

text \<open>The number of subsectors an erase of \<open>size\<close> bytes goes through.\<close>

definition subsectors :: "u32 \<Rightarrow> nat" where
  "subsectors sz = (unat sz + 4095) div 4096"

lemma subsectors_small: "0 < sz \<Longrightarrow> sz \<le> 4096 \<Longrightarrow> subsectors sz = 1"
proof -
  assume "0 < sz" "sz \<le> 4096"
  then have "0 < unat sz" "unat sz \<le> 4096" by (simp_all add: word_le_nat_alt word_greater_zero_iff unat_gt_0)
  then show ?thesis unfolding subsectors_def by (intro div_nat_eqI) simp_all
qed

lemma subsectors_large:
  assumes "sz > 4096"
  shows "subsectors sz = Suc (subsectors (sz - 4096))" and "unat (sz - 4096) = unat sz - 4096" and "0 < sz - 4096"
proof -
  have u: "4096 < unat sz" using assms by (simp add: word_less_nat_alt)
  have d: "unat (sz - 4096) = unat sz - unat (4096 :: u32)"
    using assms by (intro unat_sub) (simp add: word_le_nat_alt word_less_nat_alt)
  then show "unat (sz - 4096) = unat sz - 4096" by simp
  moreover have "unat sz + 4095 = (unat sz - 4096 + 4095) + 4096" using u by simp
  ultimately show "subsectors sz = Suc (subsectors (sz - 4096))" by (simp add: subsectors_def)
  show "0 < sz - 4096" using u by (auto simp: word_greater_zero_iff)
qed

lemma block_of_aligned: "a mod len = 0 \<Longrightarrow> block_of len a = {a ..< a + len}"
  unfolding block_of_def by (metis add.right_neutral div_mult_mod_eq)

context qspi_flash begin

text \<open>One round of the erase: on success the subsector is blank and the chip is idle again.\<close>

lemma erase_round_spec:
  assumes "unat a mod 4096 = 0" and "unat a < 2 ^ 24" and "\<not> bit (status s) 0"
  obtains (failed) s' where "\<And>n sz. erase_loop H (Suc n) a sz s = Inr (RHS_FLASH_EX_ERROR, s')"
      "\<And>i. i < unat a \<or> unat a + 4096 \<le> i \<Longrightarrow> cells s' i = cells s i"
    | (blank) s' where "\<And>n sz. erase_loop H (Suc n) a sz s =
        (if sz > 4096 then erase_loop H n (a + 4096) (sz - 4096) s' else Inr (RHS_FLASH_EX_OK, s'))"
      "\<And>i. i < unat a \<or> unat a + 4096 \<le> i \<Longrightarrow> cells s' i = cells s i"
      "\<And>i. unat a \<le> i \<Longrightarrow> i < unat a + 4096 \<Longrightarrow> cells s' i = 0xFF" "\<not> bit (status s') 0"
proof -
  let ?we = "mt25ql128aba_write_enable H MT25QL128ABA_QPI_MODE"
  let ?be = "mt25ql128aba_block_erase H MT25QL128ABA_QPI_MODE a MT25QL128ABA_ERASE_4K"
  obtain e s1 where 1: "run_state ?we s = (e, s1)" by (cases "run_state ?we s")
  note p1 = write_enable_spec [OF 1]
  obtain s1' where a1: "flash_force_abort H s1 = Inr s1'" "cells s1' = cells s1" using force_abort_spec by blast
  obtain e' s2 where 2: "run_state ?be s1 = (e', s2)" by (cases "run_state ?be s1")
  have blk: "block_of 4096 (unat a mod 2 ^ 24) = {unat a ..< unat a + 4096}" using assms(1,2) by (simp add: block_of_aligned)
  note p2 = erase_4k_spec [OF 2, unfolded blk]
  obtain s2' where a2: "flash_force_abort H s2 = Inr s2'" "cells s2' = cells s2" using force_abort_spec by blast
  obtain w s3 where 3: "flash_wait_ready H MT25QL128ABA_SUBSECTOR_4K_ERASE_MAX_TIME s2 = Inr (w, s3)"
    "cells s3 = cells s2" "w = 0 \<Longrightarrow> \<not> bit (status s3) 0" using wait_ready_spec by blast
  have out: "cells s2 i = cells s i" if "i < unat a \<or> unat a + 4096 \<le> i" for i using p2(1) p1(1) that by auto
  consider (enable) "e \<noteq> 0" | (erase) "e = 0" "e' \<noteq> 0" | (late) "e = 0" "e' = 0" "w \<noteq> 0" | (ok) "e = 0" "e' = 0" "w = 0"
    by blast
  then show thesis
  proof cases
    case enable
    then show thesis using 1 a1 p1(1) by (intro failed [of s1']) simp_all
  next
    case erase
    then show thesis using 1 2 a2 out by (intro failed [of s2']) simp_all
  next
    case late
    then show thesis using 1 2 3 out by (intro failed [of s3]) simp_all
  next
    case ok
    have "sz > 4096 \<Longrightarrow> sz - 4096 \<noteq> 0" for sz :: u32 using subsectors_large(3) [of sz] by auto
    then have run: "erase_loop H (Suc n) a sz s =
        (if sz > 4096 then erase_loop H n (a + 4096) (sz - 4096) s3 else Inr (RHS_FLASH_EX_OK, s3))" for n sz
      using ok 1 2 3(1) by (simp add: MT25QL128ABA_SUBSECTOR_4K_def Let_def)
    show thesis by (rule blank [OF run]) (use ok out p1 p2(2) 3 assms(3) in auto)
  qed
qed

lemma erase_loop_spec:
  assumes "unat a mod 4096 = 0" and "0 < sz" and "unat a + 4096 * subsectors sz \<le> 2 ^ 24" and "unat sz < fuel"
    and "\<not> bit (status s) 0"
  shows "\<exists>r s'. erase_loop H fuel a sz s = Inr (r, s') \<and> is_flash_code r \<and>
     (\<forall>i. i < unat a \<or> unat a + 4096 * subsectors sz \<le> i \<longrightarrow> cells s' i = cells s i) \<and>
     (r = RHS_FLASH_EX_OK \<longrightarrow> (\<forall>i. unat a \<le> i \<and> i < unat a + 4096 * subsectors sz \<longrightarrow> cells s' i = 0xFF))"
  using assms
proof (induction fuel arbitrary: a sz s)
  case (Suc fuel)
  have n0: "0 < subsectors sz"
    using subsectors_small [of sz] subsectors_large(1) [of sz] Suc.prems(2) by (cases "sz > 4096") (auto simp: not_less)
  then have a: "unat a < 2 ^ 24" using Suc.prems(3) by simp
  from Suc.prems(1) a Suc.prems(5) show ?case
  proof (cases rule: erase_round_spec)
    case (failed s')
    then show ?thesis using n0 by (intro exI [of _ RHS_FLASH_EX_ERROR] exI [of _ s']) auto
  next
    case (blank s1)
    show ?thesis
    proof (cases "sz > 4096")
      case True
      note big = subsectors_large [OF True]
      have "unat a + unat (4096 :: u32) < 2 ^ LENGTH(32)" using a by simp
      then have a': "unat (a + 4096) = unat a + 4096" by (simp only: unat_add_lem) simp
      have al: "unat (a + 4096) mod 4096 = 0" using Suc.prems(1) a' by simp
      have b: "unat (a + 4096) + 4096 * subsectors (sz - 4096) = unat a + 4096 * subsectors sz" using big(1) a' by simp
      have fu: "unat (sz - 4096) < fuel" using big(2) Suc.prems(2,4) True by (simp add: word_less_nat_alt)
      obtain r s' where 2: "erase_loop H fuel (a + 4096) (sz - 4096) s1 = Inr (r, s')" "is_flash_code r"
        "\<forall>i. i < unat (a + 4096) \<or> unat a + 4096 * subsectors sz \<le> i \<longrightarrow> cells s' i = cells s1 i"
        "r = RHS_FLASH_EX_OK \<longrightarrow> (\<forall>i. unat (a + 4096) \<le> i \<and> i < unat a + 4096 * subsectors sz \<longrightarrow> cells s' i = 0xFF)"
        using Suc.IH [OF al big(3) _ fu blank(4)] Suc.prems(3) unfolding b by blast
      have "erase_loop H (Suc fuel) a sz s = Inr (r, s')" unfolding blank(1) using 2(1) True by simp
      moreover have "cells s' i = cells s i" if "i < unat a \<or> unat a + 4096 * subsectors sz \<le> i" for i
        using that 2(3) blank(2) [of i] a' n0 by auto
      moreover have "cells s' i = 0xFF" if "r = RHS_FLASH_EX_OK" "unat a \<le> i" "i < unat a + 4096 * subsectors sz" for i
        using that 2(3,4) blank(3) [of i] a' by (cases "i < unat a + 4096") auto
      ultimately show ?thesis using 2(2) by blast
    next
      case False
      then have "subsectors sz = 1" using Suc.prems(2) subsectors_small by simp
      moreover have "erase_loop H (Suc fuel) a sz s = Inr (RHS_FLASH_EX_OK, s1)" unfolding blank(1) using False by simp
      ultimately show ?thesis using blank(2,3) by (intro exI [of _ RHS_FLASH_EX_OK] exI [of _ s1]) auto
    qed
  qed
qed simp

text \<open>The addresses of a request inside the chip do not wrap, and the sectors of an erase stay inside.\<close>

end

lemma request_fits:
  assumes "unat addr + unat sz \<le> 2 ^ 24"
  shows "addr + sz \<le> MT25QL128ABA_FLASH_SIZE" and "unat (addr + sz) = unat addr + unat sz"
proof -
  have "unat addr + unat sz < 2 ^ LENGTH(32)" using assms by simp
  then show s: "unat (addr + sz) = unat addr + unat sz" by (simp add: unat_word_ariths)
  have "unat MT25QL128ABA_FLASH_SIZE = 2 ^ 24" by (simp add: MT25QL128ABA_FLASH_SIZE_def)
  with assms show "addr + sz \<le> MT25QL128ABA_FLASH_SIZE" unfolding word_le_nat_alt s by simp
qed

lemma first_sector:
  assumes "unat addr + unat sz \<le> 2 ^ 24" and "0 < sz"
  defines "a \<equiv> addr - addr mod MT25QL128ABA_SUBSECTOR_4K"
  shows "unat a = unat addr div 4096 * 4096" and "unat a mod 4096 = 0"
    and "unat a + 4096 * subsectors sz \<le> 2 ^ 24"
proof -
  have m: "unat (addr mod MT25QL128ABA_SUBSECTOR_4K) = unat addr mod 4096"
    by (simp add: MT25QL128ABA_SUBSECTOR_4K_def unat_mod)
  then have "addr mod MT25QL128ABA_SUBSECTOR_4K \<le> addr" by (simp add: word_le_nat_alt)
  then have "unat a = unat addr - unat addr mod 4096" unfolding a_def by (simp add: unat_sub m)
  then show a: "unat a = unat addr div 4096 * 4096" by (simp add: minus_mod_eq_div_mult)
  then show "unat a mod 4096 = 0" by simp
  have "unat addr div 4096 * 4096 \<le> unat addr" by simp
  then have "unat addr div 4096 * 4096 + unat sz \<le> 4096 * 4096" using assms(1) by simp
  then have "unat sz \<le> (4096 - unat addr div 4096) * 4096" by (simp add: diff_mult_distrib)
  then have "unat sz + 4095 < (4096 - unat addr div 4096) * 4096 + 4096" by simp
  then have "(unat sz + 4095) div 4096 < Suc (4096 - unat addr div 4096)"
    by (intro less_mult_imp_div_less) simp
  then have "subsectors sz \<le> 4096 - unat addr div 4096" by (simp add: subsectors_def)
  moreover have "unat addr div 4096 \<le> 4096" using div_le_mono [of "unat addr" "4096 * 4096" 4096] assms(1) by simp
  ultimately have "unat addr div 4096 + subsectors sz \<le> 4096" by simp
  then show "unat a + 4096 * subsectors sz \<le> 2 ^ 24" unfolding a by simp
qed

section \<open>The mutex around an operation\<close>

text \<open>A task calls and the mutex is a free normal one.\<close>

definition available :: "('s, 't) flash_env \<Rightarrow> ('s, 't) flash \<Rightarrow> bool" where
  "available E f \<longleftrightarrow> \<not> RHS_IS_IRQ_MODE (cx E) \<and> ucQueueType (flash_mutex f) = queueQUEUE_TYPE_MUTEX (mapi E) \<and>
     holder (flash_mutex f) = None"

lemma locked_available:
  assumes "rtos_mutex (mapi E)" and "available E f"
  shows "locked E body f = rbind (body (dev f)) (\<lambda>(x, d).
     Inr (x, \<lparr>flash_mutex = (flash_mutex f)\<lparr>holder := None, rec_depth := 0\<rparr>, dev = d\<rparr>))"
proof -
  have acq: "rhs_mutex_acquire (mapi E) (cx E) (me E) (flash_mutex f) RHSWaitForever =
      Inr (RHSStatusOk, (flash_mutex f)\<lparr>holder := Some (me E), rec_depth := Suc 0\<rparr>)"
    using assms rtos_mutex.types [OF assms(1)] rtos_mutex.take_free [OF assms(1)]
    by (simp add: available_def rhs_mutex_acquire_def take_status_def)
  have rel: "rhs_mutex_release (mapi E) (cx E) (me E) ((flash_mutex f)\<lparr>holder := Some (me E), rec_depth := Suc 0\<rparr>) =
      Inr (RHSStatusOk, (flash_mutex f)\<lparr>holder := None, rec_depth := 0\<rparr>)"
    using assms rtos_mutex.types [OF assms(1)] rtos_mutex.give [OF assms(1)]
    by (simp add: available_def rhs_mutex_release_def)
  show ?thesis by (simp add: locked_def acq rel case_prod_beta)
qed

lemma locked_isr:
  assumes "RHS_IS_IRQ_MODE (cx E)"
  shows "locked E body f = rbind (body (dev f)) (\<lambda>(x, d). Inr (x, f\<lparr>dev := d\<rparr>))"
  using assms by (cases f) (simp add: locked_def rhs_mutex_acquire_def rhs_mutex_release_def case_prod_beta)

lemma locked_result:
  assumes "rtos_mutex (mapi E)" and "available E f" and "body (dev f) = Inr (x, d)"
  obtains f' where "locked E body f = Inr (x, f')" "dev f' = d" "available E f'"
  using locked_available [OF assms(1,2), of body] assms(2,3)
  by (intro that) (auto simp: available_def)

context qspi_flash begin

lemma write_body:
  assumes "unat addr + unat sz \<le> 2 ^ 24" and "0 < sz" and "length d = unat sz"
  defines "room \<equiv> MT25QL128ABA_PAGE_SIZE - addr mod MT25QL128ABA_PAGE_SIZE"
  obtains r s' where
    "write_loop H (Suc (unat sz)) (addr + sz) d addr (if room > sz then sz else room) s = Inr (r, s')" "is_flash_code r"
    "\<And>i. i < unat addr \<or> unat addr + unat sz \<le> i \<Longrightarrow> cells s' i = cells s i"
    "r = RHS_FLASH_EX_OK \<Longrightarrow> cells s' = store (AND) (cells s) (unat addr) d"
proof -
  note fr = first_round [OF assms(1,2), folded room_def]
  have "length d = unat (addr + sz) - unat addr" "length d < Suc (unat sz)" using assms(3) fr(2) by simp_all
  from write_loop_spec [OF fr(1) this, of s] show thesis using that unfolding fr(2) by blast
qed

lemma write_spec:
  assumes "H = hal E" and "rtos_mutex (mapi E)" and "available E f"
    and "unat addr + unat sz \<le> 2 ^ 24" and "0 < sz" and "length d = unat sz"
  obtains r f' where "rhs_hal_flash_ex_write E addr d sz f = Inr (r, f')" "is_flash_code r" "available E f'"
    "\<And>i. i < unat addr \<or> unat addr + unat sz \<le> i \<Longrightarrow> cells (dev f') i = cells (dev f) i"
    "r = RHS_FLASH_EX_OK \<Longrightarrow> cells (dev f') = store (AND) (cells (dev f)) (unat addr) d"
proof -
  let ?room = "MT25QL128ABA_PAGE_SIZE - addr mod MT25QL128ABA_PAGE_SIZE"
  let ?body = "\<lambda>s. write_loop H (Suc (unat sz)) (addr + sz) d addr (if ?room > sz then sz else ?room) s"
  obtain r s' where 1: "?body (dev f) = Inr (r, s')" "is_flash_code r"
    "\<And>i. i < unat addr \<or> unat addr + unat sz \<le> i \<Longrightarrow> cells s' i = cells (dev f) i"
    "r = RHS_FLASH_EX_OK \<Longrightarrow> cells s' = store (AND) (cells (dev f)) (unat addr) d"
    using write_body [OF assms(4,5,6), of "dev f"] by blast
  obtain f' where f': "locked E ?body f = Inr (r, f')" "dev f' = s'" "available E f'"
    by (rule locked_result [where body = ?body, OF assms(2,3) 1(1)])
  have run: "rhs_hal_flash_ex_write E addr d sz f = Inr (r, f')"
    using f'(1) request_fits(1) [OF assms(4)] assms(1) by (simp add: rhs_hal_flash_ex_write_def Let_def)
  show thesis by (rule that [OF run 1(2) f'(3)]) (use 1(3,4) f'(2) in simp_all)
qed

lemma block_erase_spec:
  assumes "H = hal E" and "rtos_mutex (mapi E)" and "available E f"
    and "unat addr + unat sz \<le> 2 ^ 24" and "0 < sz"
  defines "first \<equiv> unat addr div 4096 * 4096"
  obtains r f' where "rhs_hal_flash_ex_block_erase E addr sz f = Inr (r, f')" "is_flash_code r" "available E f'"
    "\<And>i. i < first \<or> first + 4096 * subsectors sz \<le> i \<Longrightarrow> cells (dev f') i = cells (dev f) i"
    "\<And>i. r = RHS_FLASH_EX_OK \<Longrightarrow> first \<le> i \<Longrightarrow> i < first + 4096 * subsectors sz \<Longrightarrow> cells (dev f') i = 0xFF"
proof -
  let ?a = "addr - addr mod MT25QL128ABA_SUBSECTOR_4K"
  note fs = first_sector [OF assms(4,5), folded first_def]
  obtain w s1 where 1: "flash_wait_ready H 10 (dev f) = Inr (w, s1)" "cells s1 = cells (dev f)"
    "w = 0 \<Longrightarrow> \<not> bit (status s1) 0" using wait_ready_spec by blast
  let ?body = "\<lambda>s. rbind (flash_wait_ready H 10 s) (\<lambda>(w, s1). if w \<noteq> 0 then Inr (RHS_FLASH_EX_BUSY, s1)
      else erase_loop H (Suc (unat sz)) ?a sz s1)"
  have "\<exists>r s'. ?body (dev f) = Inr (r, s') \<and> is_flash_code r \<and>
     (\<forall>i. i < first \<or> first + 4096 * subsectors sz \<le> i \<longrightarrow> cells s' i = cells (dev f) i) \<and>
     (r = RHS_FLASH_EX_OK \<longrightarrow> (\<forall>i. first \<le> i \<and> i < first + 4096 * subsectors sz \<longrightarrow> cells s' i = 0xFF))"
  proof (cases "w = 0")
    case True
    have "unat sz < Suc (unat sz)" by simp
    from erase_loop_spec [OF fs(2) assms(5) fs(3) this 1(3) [OF True]] show ?thesis
      using 1 True unfolding fs(1) by simp
  qed (use 1 in simp)
  then obtain r s' where 2: "?body (dev f) = Inr (r, s')" "is_flash_code r"
     "\<And>i. i < first \<or> first + 4096 * subsectors sz \<le> i \<Longrightarrow> cells s' i = cells (dev f) i"
     "\<And>i. r = RHS_FLASH_EX_OK \<Longrightarrow> first \<le> i \<Longrightarrow> i < first + 4096 * subsectors sz \<Longrightarrow> cells s' i = 0xFF" by blast
  obtain f' where f': "locked E ?body f = Inr (r, f')" "dev f' = s'" "available E f'"
    by (rule locked_result [where body = ?body, OF assms(2,3) 2(1)])
  have run: "rhs_hal_flash_ex_block_erase E addr sz f = Inr (r, f')"
    unfolding rhs_hal_flash_ex_block_erase_def assms(1) [symmetric]
    using f'(1) request_fits(1) [OF assms(4)] by (simp only: rhs_assert_simps)
  show thesis by (rule that [OF run 2(2) f'(3)]) (use 2(3,4) f'(2) in simp_all)
qed

lemma read_result:
  assumes "H = hal E" and "rtos_mutex (mapi E)" and "available E f"
    and "unat addr + unat sz \<le> 2 ^ 24" and "0 < sz"
  obtains r d f' where "rhs_hal_flash_ex_read E addr sz f = Inr ((r, d), f')" "is_flash_code r" "available E f'"
    "cells (dev f') = cells (dev f)"
    "r = RHS_FLASH_EX_OK \<Longrightarrow> d = map (\<lambda>k. cells (dev f) (unat addr + k)) [0..<unat sz]"
proof -
  obtain w s1 where 1: "flash_wait_ready H 10 (dev f) = Inr (w, s1)" "cells s1 = cells (dev f)"
    "w = 0 \<Longrightarrow> \<not> bit (status s1) 0" using wait_ready_spec by blast
  obtain e d s2 where 2: "run_state (mt25ql128aba_read H MT25QL128ABA_QPI_MODE addr sz) s1 = ((e, d), s2)"
    by (cases "run_state (mt25ql128aba_read H MT25QL128ABA_QPI_MODE addr sz) s1") auto
  have a: "unat addr mod 2 ^ 24 = unat addr"
  proof -
    have "0 < unat sz" using assms(5) by (simp add: word_greater_zero_iff unat_gt_0)
    then have "unat addr < 2 ^ 24" using assms(4) by linarith
    then show ?thesis by (rule mod_less)
  qed
  note p2 = read_spec [OF 2, unfolded a]
  let ?x = "if w \<noteq> 0 then ((RHS_FLASH_EX_BUSY, []), s1) else ((if e \<noteq> 0 then RHS_FLASH_EX_ERROR else RHS_FLASH_EX_OK, d), s2)"
  obtain s3 where 3: "flash_force_abort H (snd ?x) = Inr s3" "cells s3 = cells (snd ?x)" using force_abort_spec by blast
  let ?body = "\<lambda>s. rbind (flash_wait_ready H 10 s) (\<lambda>(w, s1).
      let ((error, d), s2) = (if w \<noteq> 0 then ((RHS_FLASH_EX_BUSY, []), s1)
             else let ((e, d), s2) = run_state (mt25ql128aba_read H MT25QL128ABA_QPI_MODE addr sz) s1 in
               ((if e \<noteq> 0 then RHS_FLASH_EX_ERROR else RHS_FLASH_EX_OK, d), s2)) in
      rbind (flash_force_abort H s2) (\<lambda>s3. Inr ((error, d), s3)))"
  have body: "?body (dev f) = Inr (fst ?x, s3)"
    using 1(1) 2 3(1) by (auto simp: Let_def)
  obtain f' where f': "locked E ?body f = Inr (fst ?x, f')" "dev f' = s3" "available E f'"
    by (rule locked_result [where body = ?body, OF assms(2,3) body])
  have run: "rhs_hal_flash_ex_read E addr sz f = Inr (fst ?x, f')"
    unfolding rhs_hal_flash_ex_read_def assms(1) [symmetric]
    using f'(1) request_fits(1) [OF assms(4)] by (simp only: rhs_assert_simps)
  have c: "cells s3 = cells (dev f)" using 3(2) 1(2) p2(1) by (simp split: if_splits)
  show thesis
  proof (rule that [of "fst (fst ?x)" "snd (fst ?x)" f'])
    show "fst (fst ?x) = RHS_FLASH_EX_OK \<Longrightarrow> snd (fst ?x) = map (\<lambda>k. cells (dev f) (unat addr + k)) [0..<unat sz]"
      using 1(2,3) p2(2) assms(4,5) by (auto split: if_splits)
  qed (use run f' c in auto)
qed

end

section \<open>The concrete chip\<close>

lemma plain_polls: "((\<lambda>s. snd (HAL_GetTick plain_nor (snd (SR plain_nor s)))) ^^ k) s = s\<lparr>clock := clock s + of_nat k\<rparr>"
  by (induction k) (simp_all add: plain_nor_def)

lemma clock_gets_past: "\<exists>k < 102. (100 :: u32) < c + of_nat k - t0"
proof (cases "100 < c - t0")
  case True
  then show ?thesis by (intro exI [of _ 0]) simp
next
  case False
  let ?k = "101 - unat (c - t0)"
  have "unat (c - t0) \<le> 100" using False by (simp add: word_less_nat_alt)
  then have k: "?k < 102" "unat (c - t0) + ?k = 101" by simp_all
  have "c + of_nat ?k - t0 = of_nat (unat (c - t0) + ?k)" by (simp add: algebra_simps)
  also have "\<dots> = 101" unfolding k(2) by simp
  finally show ?thesis using k(1) by (intro exI [of _ ?k]) simp
qed

interpretation plain_nor: qspi_flash plain_nor arr sreg pend
proof (rule qspi_flash.intro [OF plain_nor.qspi_nor_axioms], unfold_locales)
  fix s and t0 :: u32
  show "\<exists>k < polls plain_nor. 100 < fst (HAL_GetTick plain_nor
      (snd (SR plain_nor (((\<lambda>s. snd (HAL_GetTick plain_nor (snd (SR plain_nor s)))) ^^ k) s)))) - t0"
    unfolding plain_polls using clock_gets_past [of "clock s" t0] by (simp add: plain_nor_def)
qed (simp_all add: plain_nor_def)

section \<open>Properties\<close>

text \<open>C11: Writing to the flash programs exactly the requested bytes: the call returns with one of its three
  codes, no byte outside the request changes whatever the code, and on success every byte of the request is the AND
  of what was there and the data, however many pages the request crosses.\<close>

theorem flash_write_programs:
  assumes "qspi_flash (hal E) cells status pending" and "rtos_mutex (mapi E)" and "available E f"
    and "0 < sz" and "unat addr + unat sz \<le> 2 ^ 24" and "length d = unat sz"
  shows "\<exists>r f'. rhs_hal_flash_ex_write E addr d sz f = Inr (r, f') \<and> is_flash_code r \<and> available E f' \<and>
     (\<forall>i. i < unat addr \<or> unat addr + unat sz \<le> i \<longrightarrow> cells (dev f') i = cells (dev f) i) \<and>
     (r = RHS_FLASH_EX_OK \<longrightarrow> (\<forall>k < unat sz. cells (dev f') (unat addr + k) = cells (dev f) (unat addr + k) AND d ! k))"
proof -
  obtain r f' where "rhs_hal_flash_ex_write E addr d sz f = Inr (r, f')" "is_flash_code r" "available E f'"
    "\<And>i. i < unat addr \<or> unat addr + unat sz \<le> i \<Longrightarrow> cells (dev f') i = cells (dev f) i"
    "r = RHS_FLASH_EX_OK \<Longrightarrow> cells (dev f') = store (AND) (cells (dev f)) (unat addr) d"
    using qspi_flash.write_spec [OF assms(1) refl assms(2,3,5,4,6)] by blast
  then show ?thesis using assms(6) by (intro exI [of _ r] exI [of _ f']) (simp add: store_inside)
qed

text \<open>A blank chip and a task that uses it; three bytes across the end of the first page.\<close>

definition blank_nor :: nor where
  "blank_nor = \<lparr>arr = (\<lambda>_. 0xFF), sreg = 0, pend = None, clock = 0, script = []\<rparr>"

definition plain_env :: "ctx \<Rightarrow> (nor, nat) flash_env" where
  "plain_env c = \<lparr>hal = plain_nor, mapi = plain_mutex, me = 1, cx = c\<rparr>"

definition plain_flash :: "nat option \<Rightarrow> nor \<Rightarrow> (nor, nat) flash" where
  "plain_flash h s = \<lparr>flash_mutex = \<lparr>ucQueueType = 1, holder = h, rec_depth = 0\<rparr>, dev = s\<rparr>"

lemma plain_available: "available (plain_env task_ctx) (plain_flash None s)"
  by (simp add: available_def plain_env_def plain_flash_def plain_mutex_def)

lemma plain_env_simps [simp]: "hal (plain_env c) = plain_nor" "mapi (plain_env c) = plain_mutex" "cx (plain_env c) = c"
  "dev (plain_flash h s) = s" "flash_mutex (plain_flash h s) = \<lparr>ucQueueType = 1, holder = h, rec_depth = 0\<rparr>"
  by (simp_all add: plain_env_def plain_flash_def)

lemma plain_env_keeps: "qspi_flash (hal (plain_env c)) arr sreg pend" "rtos_mutex (mapi (plain_env c))"
  by (simp_all add: plain_nor.qspi_flash_axioms plain_mutex.rtos_mutex_axioms)

lemma flash_write_programs_witness:
  "\<exists>r f'. rhs_hal_flash_ex_write (plain_env task_ctx) 254 [1, 2, 3] 3 (plain_flash None blank_nor) = Inr (r, f') \<and>
     arr (dev f') 253 = 0xFF \<and> arr (dev f') 257 = 0xFF \<and>
     (r = RHS_FLASH_EX_OK \<longrightarrow> arr (dev f') 254 = 1 \<and> arr (dev f') 255 = 2 \<and> arr (dev f') 256 = 3)"
proof -
  obtain r f' where w: "rhs_hal_flash_ex_write (plain_env task_ctx) 254 [1, 2, 3] 3 (plain_flash None blank_nor) = Inr (r, f')"
    "\<And>i. i < 254 \<or> 257 \<le> i \<Longrightarrow> arr (dev f') i = arr blank_nor i"
    "\<And>k. r = RHS_FLASH_EX_OK \<Longrightarrow> k < 3 \<Longrightarrow> arr (dev f') (254 + k) = arr blank_nor (254 + k) AND [1, 2, 3] ! k"
    using flash_write_programs [OF plain_env_keeps plain_available, of 3 254 "[1, 2, 3]" blank_nor] by auto
  show ?thesis using w(1) w(2) [of 253] w(2) [of 257] w(3) [of 0] w(3) [of 1] w(3) [of 2]
    by (auto simp: blank_nor_def)
qed

text \<open>Erasing goes subsector by subsector: the call returns with one of its codes; on success the subsectors from
  the one of the address on, as many as the size makes alone, are blank, and nothing outside them changes whatever the
  code. An unaligned request can end beyond the last erased subsector.\<close>

theorem flash_block_erase_exact:
  assumes "qspi_flash (hal E) cells status pending" and "rtos_mutex (mapi E)" and "available E f"
    and "0 < sz" and "unat addr + unat sz \<le> 2 ^ 24"
  shows "\<exists>r f'. rhs_hal_flash_ex_block_erase E addr sz f = Inr (r, f') \<and> is_flash_code r \<and> available E f' \<and>
     (\<forall>i. (if unat addr div 4096 \<le> i div 4096 \<and> i div 4096 < unat addr div 4096 + (unat sz + 4095) div 4096
           then r = RHS_FLASH_EX_OK \<longrightarrow> cells (dev f') i = 0xFF
           else cells (dev f') i = cells (dev f) i))"
proof -
  let ?a = "unat addr div 4096 * 4096"
  obtain r f' where e: "rhs_hal_flash_ex_block_erase E addr sz f = Inr (r, f')" "is_flash_code r" "available E f'"
    "\<And>i. i < ?a \<or> ?a + 4096 * subsectors sz \<le> i \<Longrightarrow> cells (dev f') i = cells (dev f) i"
    "\<And>i. r = RHS_FLASH_EX_OK \<Longrightarrow> ?a \<le> i \<Longrightarrow> i < ?a + 4096 * subsectors sz \<Longrightarrow> cells (dev f') i = 0xFF"
    using qspi_flash.block_erase_spec [OF assms(1) refl assms(2,3,5,4)] by blast
  have "?a \<le> i \<longleftrightarrow> unat addr div 4096 \<le> i div 4096" for i by (simp add: less_eq_div_iff_mult_less_eq)
  moreover have "i < ?a + 4096 * subsectors sz \<longleftrightarrow> i div 4096 < unat addr div 4096 + subsectors sz" for i
    by (simp add: div_less_iff_less_mult algebra_simps)
  ultimately have "if unat addr div 4096 \<le> i div 4096 \<and> i div 4096 < unat addr div 4096 + subsectors sz
      then r = RHS_FLASH_EX_OK \<longrightarrow> cells (dev f') i = 0xFF else cells (dev f') i = cells (dev f) i" for i
    using e(4) [of i] e(5) [of i] by (metis not_le)
  then show ?thesis using e(1,2,3) unfolding subsectors_def by blast
qed

text \<open>A request for 4096 bytes from address 1 erases the first subsector only; byte 4096 is left.\<close>

lemma flash_block_erase_exact_witness:
  "\<exists>r f'. rhs_hal_flash_ex_block_erase (plain_env task_ctx) 1 4096 (plain_flash None (blank_nor\<lparr>arr := (\<lambda>_. 0)\<rparr>)) = Inr (r, f') \<and>
     (r = RHS_FLASH_EX_OK \<longrightarrow> arr (dev f') 0 = 0xFF \<and> arr (dev f') 4095 = 0xFF) \<and> arr (dev f') 4096 = 0"
proof -
  let ?f = "plain_flash None (blank_nor\<lparr>arr := (\<lambda>_. 0)\<rparr>)"
  obtain r f' where w: "rhs_hal_flash_ex_block_erase (plain_env task_ctx) 1 4096 ?f = Inr (r, f')"
    "\<And>i. if 0 \<le> i div 4096 \<and> i div 4096 < 0 + (4096 + 4095) div 4096
       then r = RHS_FLASH_EX_OK \<longrightarrow> arr (dev f') i = 0xFF else arr (dev f') i = arr (dev ?f) i"
    using flash_block_erase_exact [OF plain_env_keeps plain_available, of 4096 1 "blank_nor\<lparr>arr := (\<lambda>_. 0)\<rparr>"] by auto
  show ?thesis using w(1) w(2) [of 0] w(2) [of 4095] w(2) [of 4096] by auto
qed

lemma blank_and: "(0xFF :: u8) AND x = x"
proof -
  have "(0xFF :: u8) = - 1" by simp
  then show ?thesis by (simp only: and.left_neutral)
qed

text \<open>What is written to erased flash is read back: after an erase whose subsectors hold the range, a write and a
  read of the range, all successful, the bytes read are the bytes written.\<close>

theorem flash_erase_write_read:
  assumes "qspi_flash (hal E) cells status pending" and "rtos_mutex (mapi E)" and "available E f"
    and "0 < es" and "unat ea + unat es \<le> 2 ^ 24"
    and "0 < sz" and "unat addr + unat sz \<le> 2 ^ 24" and "length d = unat sz"
    and "unat ea div 4096 * 4096 \<le> unat addr"
    and "unat addr + unat sz \<le> (unat ea div 4096 + (unat es + 4095) div 4096) * 4096"
    and "rhs_hal_flash_ex_block_erase E ea es f = Inr (RHS_FLASH_EX_OK, f1)"
    and "rhs_hal_flash_ex_write E addr d sz f1 = Inr (RHS_FLASH_EX_OK, f2)"
    and "rhs_hal_flash_ex_read E addr sz f2 = Inr ((RHS_FLASH_EX_OK, back), f3)"
  shows "back = d"
proof -
  have 1: "available E f1 \<and> (\<forall>i. unat addr \<le> i \<and> i < unat addr + unat sz \<longrightarrow> cells (dev f1) i = 0xFF)"
    using qspi_flash.block_erase_spec [OF assms(1) refl assms(2,3,5,4)] assms(9,10,11)
    by (fastforce simp: subsectors_def algebra_simps)
  then have 2: "available E f2 \<and> cells (dev f2) = store (AND) (cells (dev f1)) (unat addr) d"
    using qspi_flash.write_spec [OF assms(1) refl assms(2) _ assms(7,6,8), of f1] assms(12) by fastforce
  then have 3: "back = map (\<lambda>k. cells (dev f2) (unat addr + k)) [0..<unat sz]"
    using qspi_flash.read_result [OF assms(1) refl assms(2) _ assms(7,6), of f2] assms(13) by fastforce
  have "back ! k = d ! k" if "k < unat sz" for k
  proof -
    have "cells (dev f2) (unat addr + k) = 0xFF AND d ! k"
      using 1 2 that store_inside [of k d "(AND)" "cells (dev f1)" "unat addr"] assms(8) by simp
    also have "\<dots> = d ! k" by (rule blank_and)
    finally show ?thesis using 3 that by simp
  qed
  with 3 assms(8) show ?thesis by (intro nth_equalityI) simp_all
qed

text \<open>The concrete chip is run call by call by rewriting; a loop takes its fuel as a numeral.\<close>

lemmas plain_run = locked_def rhs_mutex_acquire_def rhs_mutex_release_def take_status_def plain_mutex_def
  flash_wait_ready_def mt25ql128aba_auto_polling_mem_ready_def mt25ql128aba_write_enable_def driver_defs Let_def
  mt25ql128aba_page_program_def mt25ql128aba_block_erase_def mt25ql128aba_read_def plain_nor_def scripted_def
  nor_command_def nor_transmit_def nor_poll_def nor_receive_def bare_command_def erase_command_def program_mode_def
  read_mode_def is_program_def chip_address_def status_word_def int_of_def 
  MT25QL128ABA_FLASH_SIZE_def MT25QL128ABA_PAGE_SIZE_def MT25QL128ABA_SUBSECTOR_4K_def MT25QL128ABA_SR_WIP_def MT25QL128ABA_SR_WREN_def
  MT25QL128ABA_DUMMY_CYCLES_READ_def flash_codes write_page_def flash_force_abort_def bit_simps plain_env_def plain_flash_def

lemma write_loop_numeral: "write_loop H (numeral v) end_addr write_data current_addr current_size s =
     rbind (write_page H write_data current_addr current_size s) (\<lambda>(error, s').
     if error \<noteq> RHS_FLASH_EX_OK then Inr (error, s')
     else
       let addr' = current_addr + current_size;
           data' = drop (unat current_size) write_data;
           size' = (if addr' + MT25QL128ABA_PAGE_SIZE > end_addr then end_addr - addr' else MT25QL128ABA_PAGE_SIZE) in
       if addr' < end_addr then write_loop H (pred_numeral v) end_addr data' addr' size' s' else Inr (RHS_FLASH_EX_OK, s'))"
  unfolding numeral_eq_Suc by (rule write_loop.simps(2))

lemma flash_erase_write_read_witness:
  "\<exists>f1 f2 f3.
     rhs_hal_flash_ex_block_erase (plain_env task_ctx) 0 1 (plain_flash None blank_nor) = Inr (RHS_FLASH_EX_OK, f1) \<and>
     rhs_hal_flash_ex_write (plain_env task_ctx) 254 [1, 2, 3] 3 f1 = Inr (RHS_FLASH_EX_OK, f2) \<and>
     rhs_hal_flash_ex_read (plain_env task_ctx) 254 3 f2 = Inr ((RHS_FLASH_EX_OK, [1, 2, 3]), f3)"
proof -
  have 1: "rhs_hal_flash_ex_block_erase (plain_env task_ctx) 0 1 (plain_flash None blank_nor) =
      Inr (RHS_FLASH_EX_OK, plain_flash None blank_nor)"
    by (simp add: rhs_hal_flash_ex_block_erase_def plain_run blank_nor_def erase_range_def fun_eq_iff)
  have "\<exists>a p. rhs_hal_flash_ex_write (plain_env task_ctx) 254 [1, 2, 3] 3 (plain_flash None blank_nor) =
      Inr (RHS_FLASH_EX_OK, plain_flash None (blank_nor\<lparr>arr := a, pend := p\<rparr>))"
    by (simp add: rhs_hal_flash_ex_write_def plain_run blank_nor_def write_loop_numeral)
  then obtain a p where 2: "rhs_hal_flash_ex_write (plain_env task_ctx) 254 [1, 2, 3] 3 (plain_flash None blank_nor) =
      Inr (RHS_FLASH_EX_OK, plain_flash None (blank_nor\<lparr>arr := a, pend := p\<rparr>))" by blast
  have "\<exists>d f. rhs_hal_flash_ex_read (plain_env task_ctx) 254 3 (plain_flash None (blank_nor\<lparr>arr := a, pend := p\<rparr>)) =
      Inr ((RHS_FLASH_EX_OK, d), f)"
    by (simp add: rhs_hal_flash_ex_read_def plain_run blank_nor_def)
  then obtain d f3 where 3: "rhs_hal_flash_ex_read (plain_env task_ctx) 254 3 (plain_flash None (blank_nor\<lparr>arr := a, pend := p\<rparr>)) =
      Inr ((RHS_FLASH_EX_OK, d), f3)" by blast
  have "d = [1, 2, 3]"
    by (rule flash_erase_write_read [OF plain_env_keeps plain_available _ _ _ _ _ _ _ 1 2 3]) simp_all
  with 1 2 3 show ?thesis by blast
qed

text \<open>From an interrupt the mutex protects nothing: whoever holds it, a write in an interrupt goes ahead on the chip,
  programs its bytes and leaves the mutex as it was; it never answers that the flash is in use because of the mutex.\<close>

theorem flash_isr_ignores_mutex:
  assumes "qspi_flash (hal E) cells status pending" and "RHS_IS_IRQ_MODE (cx E)"
    and "0 < sz" and "unat addr + unat sz \<le> 2 ^ 24" and "length d = unat sz"
  shows "\<exists>r f'. rhs_hal_flash_ex_write E addr d sz f = Inr (r, f') \<and> flash_mutex f' = flash_mutex f \<and>
     (r = RHS_FLASH_EX_OK \<longrightarrow> (\<forall>k < unat sz. cells (dev f') (unat addr + k) = cells (dev f) (unat addr + k) AND d ! k)) \<and>
     (\<forall>m r' f''. rhs_hal_flash_ex_write E addr d sz (f\<lparr>flash_mutex := m\<rparr>) = Inr (r', f'') \<longrightarrow> r' = r \<and> dev f'' = dev f')"
proof -
  let ?room = "MT25QL128ABA_PAGE_SIZE - addr mod MT25QL128ABA_PAGE_SIZE"
  let ?body = "\<lambda>s. write_loop (hal E) (Suc (unat sz)) (addr + sz) d addr (if ?room > sz then sz else ?room) s"
  obtain r s' where 1: "?body (dev f) = Inr (r, s')"
    "r = RHS_FLASH_EX_OK \<Longrightarrow> cells s' = store (AND) (cells (dev f)) (unat addr) d"
    using qspi_flash.write_body [OF assms(1,4,3,5), of "dev f"] by blast
  have run: "rhs_hal_flash_ex_write E addr d sz g = Inr (r, g\<lparr>dev := s'\<rparr>)" if "dev g = dev f" for g
    using 1(1) that request_fits(1) [OF assms(4)]
    by (simp add: rhs_hal_flash_ex_write_def Let_def locked_isr [OF assms(2)])
  show ?thesis
    using run [of f] run [of "f\<lparr>flash_mutex := _\<rparr>"] 1(2) assms(5)
    by (intro exI [of _ r] exI [of _ "f\<lparr>dev := s'\<rparr>"]) (simp add: store_inside)
qed

text \<open>Task 9 holds the mutex.\<close>

lemma flash_isr_ignores_mutex_witness:
  "\<exists>r f'. rhs_hal_flash_ex_write (plain_env isr_ctx) 0 [5] 1 (plain_flash (Some 9) blank_nor) = Inr (r, f') \<and>
     holder (flash_mutex f') = Some 9 \<and> (r = RHS_FLASH_EX_OK \<longrightarrow> arr (dev f') 0 = 5)"
proof -
  have irq: "RHS_IS_IRQ_MODE (cx (plain_env isr_ctx))" by simp
  obtain r f' where w: "rhs_hal_flash_ex_write (plain_env isr_ctx) 0 [5] 1 (plain_flash (Some 9) blank_nor) = Inr (r, f')"
    "flash_mutex f' = flash_mutex (plain_flash (Some 9) blank_nor)"
    "\<And>k. r = RHS_FLASH_EX_OK \<Longrightarrow> k < 1 \<Longrightarrow> arr (dev f') (0 + k) = arr blank_nor (0 + k) AND [5] ! k"
    using flash_isr_ignores_mutex [OF plain_env_keeps(1) irq, of 1 0 "[5]" "plain_flash (Some 9) blank_nor"] by auto
  show ?thesis using w(1,2) w(3) [of 0] by (auto simp: blank_nor_def)
qed

end
