(* ===== verification/Cortex.thy ===== *)
theory Cortex
  imports Prelude
begin

text \<open>
  The cycle timers of hal/rhs_hal_cortex/rhs_hal_cortex.c (the branch with the DWT cycle
  counter). Reading the counter is a parameter on a state \<open>'s\<close>. The locale \<open>cycle_counter\<close>
  ties the 32-bit register to the cycles that have really passed; the lemmas show that a
  timer compares them exactly across the wrap of the register, as long as it is asked within
  one turn of the counter.
\<close>

record cortex_timer =
  start :: u32
  ticks :: u32

text \<open>\<open>CYCCNT\<close> reads the counter register; \<open>spins\<close> is how many rounds of a busy wait the model follows.\<close>

record 's cortex_api =
  CYCCNT :: "'s \<Rightarrow> u32 \<times> 's"
  SystemCoreClock :: u32
  spins :: nat

definition INSTRUCTIONS_PER_MICROSECOND :: "'s cortex_api \<Rightarrow> u32" where
  "INSTRUCTIONS_PER_MICROSECOND C = SystemCoreClock C div 1000000"

definition UINT32_MAX :: u32 where
  "UINT32_MAX = 0xFFFFFFFF"

definition rhs_hal_cortex_timer_get :: "'s cortex_api \<Rightarrow> u32 \<Rightarrow> 's \<Rightarrow> (cortex_timer \<times> 's) res" where
  "rhs_hal_cortex_timer_get C timeout_us s =
     rhs_assert (timeout_us < UINT32_MAX div INSTRUCTIONS_PER_MICROSECOND C)
       (let (now, s') = CYCCNT C s in
        Inr (\<lparr>start = now, ticks = INSTRUCTIONS_PER_MICROSECOND C * timeout_us\<rparr>, s'))"

definition rhs_hal_cortex_timer_is_expired :: "'s cortex_api \<Rightarrow> cortex_timer \<Rightarrow> 's \<Rightarrow> bool \<times> 's" where
  "rhs_hal_cortex_timer_is_expired C t s = (let (now, s') = CYCCNT C s in (\<not> (now - start t < ticks t), s'))"

text \<open>The busy waits; a wait longer than the rounds the model follows is \<open>Blocked\<close>.\<close>

fun spin_until :: "nat \<Rightarrow> ('s \<Rightarrow> bool \<times> 's) \<Rightarrow> 's \<Rightarrow> 's res" where
  "spin_until 0 stop s = Inl Blocked"
| "spin_until (Suc n) stop s = (let (b, s') = stop s in if b then Inr s' else spin_until n stop s')"

definition rhs_hal_cortex_timer_wait :: "'s cortex_api \<Rightarrow> cortex_timer \<Rightarrow> 's \<Rightarrow> 's res" where
  "rhs_hal_cortex_timer_wait C t s = spin_until (spins C) (rhs_hal_cortex_timer_is_expired C t) s"

definition rhs_hal_cortex_delay_us :: "'s cortex_api \<Rightarrow> u32 \<Rightarrow> 's \<Rightarrow> 's res" where
  "rhs_hal_cortex_delay_us C microseconds s =
     rhs_assert (microseconds < UINT32_MAX div INSTRUCTIONS_PER_MICROSECOND C)
       (let (start, s1) = CYCCNT C s;
            time_ticks = INSTRUCTIONS_PER_MICROSECOND C * microseconds in
        spin_until (spins C) (\<lambda>s. let (now, s') = CYCCNT C s in (\<not> (now - start < time_ticks), s')) s1)"

section \<open>The counter\<close>

text \<open>
  \<open>cycles\<close> is the number of cycles since the reset, which the register shows modulo
  \<open>2 ^ 32\<close>. A read takes time, and at most a quarter of a turn of the register.
\<close>

locale cycle_counter =
  fixes C :: "'s cortex_api" and cycles :: "'s \<Rightarrow> nat"
  assumes reads: "fst (CYCCNT C s) = of_nat (cycles s)"
    and advances: "cycles s < cycles (snd (CYCCNT C s))" "cycles (snd (CYCCNT C s)) \<le> cycles s + 2 ^ 30"
    and clocked: "0 < INSTRUCTIONS_PER_MICROSECOND C"

lemma word_elapsed:
  assumes "a \<le> b" and "b - a < 2 ^ 32"
  shows "unat (of_nat b - of_nat a :: u32) = b - a"
proof -
  have "of_nat b - of_nat a = (of_nat (b - a) :: u32)" using assms(1) by (simp add: of_nat_diff)
  then show ?thesis using assms(2) by (simp add: unat_of_nat)
qed

lemma ticks_exact:
  assumes "0 < (i :: u32)" and "us < UINT32_MAX div i"
  shows "unat (i * us) = unat i * unat us"
proof -
  have "unat us < unat (UINT32_MAX div i)" using assms(2) by (simp add: word_less_nat_alt)
  then have "unat us * unat i < unat (UINT32_MAX div i) * unat i" using assms(1)
    by (simp add: word_greater_zero_iff unat_gt_0)
  also have "\<dots> \<le> unat UINT32_MAX" by (simp add: unat_div)
  finally have "unat i * unat us < 2 ^ LENGTH(32)" by (simp add: UINT32_MAX_def mult.commute)
  then show ?thesis by (simp add: unat_word_ariths)
qed

context cycle_counter begin

text \<open>A timer says that it has expired exactly when its cycles have passed.\<close>

lemma timer_exact:
  assumes "rhs_hal_cortex_timer_get C us s0 = Inr (t, s1)"
    and "cycles s0 \<le> cycles s" and "cycles s - cycles s0 < 2 ^ 32"
  shows "fst (rhs_hal_cortex_timer_is_expired C t s) \<longleftrightarrow>
     unat (INSTRUCTIONS_PER_MICROSECOND C) * unat us \<le> cycles s - cycles s0"
proof -
  have us: "us < UINT32_MAX div INSTRUCTIONS_PER_MICROSECOND C" and
    t: "t = \<lparr>start = of_nat (cycles s0), ticks = INSTRUCTIONS_PER_MICROSECOND C * us\<rparr>"
    using assms(1) reads [of s0] by (auto simp: rhs_hal_cortex_timer_get_def case_prod_beta Let_def)
  have "fst (rhs_hal_cortex_timer_is_expired C t s) \<longleftrightarrow>
      \<not> unat (of_nat (cycles s) - of_nat (cycles s0) :: u32) < unat (INSTRUCTIONS_PER_MICROSECOND C * us)"
    using reads [of s] t by (simp add: rhs_hal_cortex_timer_is_expired_def case_prod_beta Let_def word_less_nat_alt)
  then show ?thesis using word_elapsed [OF assms(2,3)] ticks_exact [OF clocked us] by (simp add: not_less)
qed

end

definition tick_counter :: "nat cortex_api" where
  "tick_counter = \<lparr>CYCCNT = (\<lambda>n. (of_nat n, Suc n)), SystemCoreClock = 216000000, spins = 1000\<rparr>"

interpretation tick_counter: cycle_counter tick_counter "\<lambda>n. n"
  by unfold_locales (simp_all add: tick_counter_def INSTRUCTIONS_PER_MICROSECOND_def)

section \<open>Properties\<close>

text \<open>A cycle timer is exact across the wrap of the 32-bit counter: asked within one turn of the counter after it was
  set, it has expired if and only if at least the microseconds it was set for have passed.\<close>

theorem cortex_timer_exact:
  assumes "cycle_counter C cycles"
    and "rhs_hal_cortex_timer_get C us s0 = Inr (t, s1)"
    and "cycles s0 \<le> cycles s" and "cycles s - cycles s0 < 2 ^ 32"
  shows "fst (rhs_hal_cortex_timer_is_expired C t s) \<longleftrightarrow>
     unat (INSTRUCTIONS_PER_MICROSECOND C) * unat us \<le> cycles s - cycles s0"
  by (rule cycle_counter.timer_exact [OF assms])

text \<open>Ten microseconds at 216 MHz, set 1000 cycles before the wrap of the register: after 2159 and 2160 cycles.\<close>

lemma cortex_timer_exact_witness:
  "\<exists>t. rhs_hal_cortex_timer_get tick_counter 10 4294966296 = Inr (t, 4294966297) \<and>
     \<not> fst (rhs_hal_cortex_timer_is_expired tick_counter t 4294968455) \<and>
     fst (rhs_hal_cortex_timer_is_expired tick_counter t 4294968456)"
proof -
  let ?t = "\<lparr>start = 4294966296, ticks = 2160\<rparr>"
  have 1: "rhs_hal_cortex_timer_get tick_counter 10 4294966296 = Inr (?t, 4294966297)"
    by (simp add: rhs_hal_cortex_timer_get_def tick_counter_def INSTRUCTIONS_PER_MICROSECOND_def UINT32_MAX_def)
  show ?thesis
    using 1 cortex_timer_exact [OF tick_counter.cycle_counter_axioms 1, of 4294968455]
      cortex_timer_exact [OF tick_counter.cycle_counter_axioms 1, of 4294968456]
    by (simp add: tick_counter_def INSTRUCTIONS_PER_MICROSECOND_def)
qed

end
