(* ===== verification/I2c.thy ===== *)
theory I2c
  imports Cortex Mutex
begin

text \<open>
  The I2C master of hal/rhs_hal_i2c: the transfer loops over the peripheral's flags (the
  STM32F7/G0 branch of rhs_hal_i2c.c), the register access helpers, and the bus handling
  with its mutex (rhs_hal_i2c_config.c). The registers are parameters on a state \<open>'s\<close>; the
  locale \<open>i2c_line\<close> counts the bytes handed to and taken from them and says that a timer
  that is polled expires. The lemmas show that every transfer returns and stays inside its
  buffer whatever the peripheral does, and what its result says of the bytes transferred.
\<close>

section \<open>The peripheral\<close>

datatype i2c_begin = RHSHalI2cBeginStart | RHSHalI2cBeginRestart | RHSHalI2cBeginResume
datatype i2c_end = RHSHalI2cEndStop | RHSHalI2cEndAwaitRestart | RHSHalI2cEndPause

datatype i2c_request = GENERATE_NOSTARTSTOP | GENERATE_START_READ | GENERATE_START_WRITE
  | GENERATE_RESTART_7BIT_READ | GENERATE_RESTART_7BIT_WRITE
  | GENERATE_RESTART_10BIT_READ | GENERATE_RESTART_10BIT_WRITE

datatype i2c_mode = MODE_SOFTEND | MODE_RELOAD | MODE_AUTOEND

text \<open>The bits of the status register the code looks at; every \<open>LL_I2C_IsActiveFlag\<close> call reads it anew.\<close>

record i2c_flags =
  BUSY :: bool
  STOPF :: bool
  NACKF :: bool
  RXNE :: bool
  TXE :: bool
  TC :: bool
  TCR :: bool

record 's i2c_ll =
  cortex :: "'s cortex_api"
  ISR :: "'s \<Rightarrow> i2c_flags \<times> 's"
  LL_I2C_HandleTransfer :: "u32 \<Rightarrow> u32 \<Rightarrow> i2c_mode \<Rightarrow> i2c_request \<Rightarrow> 's \<Rightarrow> 's"
  LL_I2C_TransmitData8 :: "u8 \<Rightarrow> 's \<Rightarrow> 's"
  LL_I2C_ReceiveData8 :: "'s \<Rightarrow> u8 \<times> 's"
  LL_I2C_AcknowledgeNextData_NACK :: "'s \<Rightarrow> 's"
  LL_I2C_ClearFlag_NACK :: "'s \<Rightarrow> 's"
  LL_I2C_ClearFlag_STOP :: "'s \<Rightarrow> 's"
  rounds :: nat

definition flag :: "'s i2c_ll \<Rightarrow> (i2c_flags \<Rightarrow> bool) \<Rightarrow> 's \<Rightarrow> bool \<times> 's" where
  "flag I get s = (let (f, s') = ISR I s in (get f, s'))"

definition expired :: "'s i2c_ll \<Rightarrow> cortex_timer \<Rightarrow> 's \<Rightarrow> bool \<times> 's" where
  "expired I t s = rhs_hal_cortex_timer_is_expired (cortex I) t s"

text \<open>\<open>a || b\<close> of two readings: the second happens only when the first is false.\<close>

definition or_else :: "('s \<Rightarrow> bool \<times> 's) \<Rightarrow> ('s \<Rightarrow> bool \<times> 's) \<Rightarrow> 's \<Rightarrow> bool \<times> 's" where
  "or_else f g s = (let (b, s') = f s in if b then (True, s') else g s')"

section \<open>Transfers\<close>

fun rhs_hal_i2c_wait_for_idle :: "nat \<Rightarrow> 's i2c_ll \<Rightarrow> i2c_begin \<Rightarrow> cortex_timer \<Rightarrow> 's \<Rightarrow> (bool \<times> 's) res" where
  "rhs_hal_i2c_wait_for_idle 0 I begn timer s = Inl Blocked"
| "rhs_hal_i2c_wait_for_idle (Suc n) I begn timer s =
     (let (x, s1) = expired I timer s in
      if x then Inr (False, s1)
      else if begn \<noteq> RHSHalI2cBeginStart then Inr (True, s1)
      else let (busy, s2) = flag I BUSY s1 in
        if busy then rhs_hal_i2c_wait_for_idle n I begn timer s2 else Inr (True, s2))"

definition end_mask :: "i2c_end \<Rightarrow> i2c_flags \<Rightarrow> bool" where
  "end_mask endn f \<longleftrightarrow> (if endn = RHSHalI2cEndStop then STOPF f else TC f \<or> TCR f)"

fun rhs_hal_i2c_wait_for_end :: "nat \<Rightarrow> 's i2c_ll \<Rightarrow> i2c_end \<Rightarrow> cortex_timer \<Rightarrow> 's \<Rightarrow> (bool \<times> 's) res" where
  "rhs_hal_i2c_wait_for_end 0 I endn timer s = Inl Blocked"
| "rhs_hal_i2c_wait_for_end (Suc n) I endn timer s =
     (let (over, s1) = flag I (end_mask endn) s in
      if over then Inr (True, s1)
      else let (x, s2) = expired I timer s1 in
        if x then Inr (False, s2) else rhs_hal_i2c_wait_for_end n I endn timer s2)"

definition rhs_hal_i2c_get_start_signal :: "i2c_begin \<Rightarrow> bool \<Rightarrow> bool \<Rightarrow> i2c_request" where
  "rhs_hal_i2c_get_start_signal begn ten_bit_address read = (case begn of
     RHSHalI2cBeginRestart \<Rightarrow>
       if read then (if ten_bit_address then GENERATE_RESTART_10BIT_READ else GENERATE_RESTART_7BIT_READ)
       else (if ten_bit_address then GENERATE_RESTART_10BIT_WRITE else GENERATE_RESTART_7BIT_WRITE)
   | RHSHalI2cBeginResume \<Rightarrow> GENERATE_NOSTARTSTOP
   | RHSHalI2cBeginStart \<Rightarrow> if read then GENERATE_START_READ else GENERATE_START_WRITE)"

definition rhs_hal_i2c_get_end_signal :: "i2c_end \<Rightarrow> i2c_mode" where
  "rhs_hal_i2c_get_end_signal endn = (case endn of
     RHSHalI2cEndAwaitRestart \<Rightarrow> MODE_SOFTEND
   | RHSHalI2cEndPause \<Rightarrow> MODE_RELOAD
   | RHSHalI2cEndStop \<Rightarrow> MODE_AUTOEND)"

definition rhs_hal_i2c_transfer_is_aborted :: "'s i2c_ll \<Rightarrow> 's \<Rightarrow> bool \<times> 's" where
  "rhs_hal_i2c_transfer_is_aborted I = or_else (flag I STOPF) (flag I NACKF)"

definition stop_or_late :: "'s i2c_ll \<Rightarrow> cortex_timer \<Rightarrow> 's \<Rightarrow> bool \<times> 's" where
  "stop_or_late I timer = or_else (expired I timer) (rhs_hal_i2c_transfer_is_aborted I)"

text \<open>The wait for the transfer complete flags after the last byte was handed over.\<close>

fun drain :: "nat \<Rightarrow> 's i2c_ll \<Rightarrow> cortex_timer \<Rightarrow> 's \<Rightarrow> 's res" where
  "drain 0 I timer s = Inl Blocked"
| "drain (Suc n) I timer s =
     (let (complete, s1) = or_else (flag I TC) (flag I TCR) s in
      if complete then Inr s1
      else let (brk, s2) = stop_or_late I timer s1 in
        if brk then Inr s2 else drain n I timer s2)"

text \<open>
  One round of the transfer loop: the next byte of \<open>buf\<close> at \<open>pos\<close> is received or sent when
  the peripheral is ready for it.
\<close>

definition receive_round ::
  "'s i2c_ll \<Rightarrow> u8 list \<Rightarrow> nat \<Rightarrow> u32 \<Rightarrow> i2c_end \<Rightarrow> 's \<Rightarrow> ((u8 list \<times> nat \<times> u32) \<times> 's) res" where
  "receive_round I buf pos sz endn s =
     (let s1 = (if sz = 1 \<and> endn = RHSHalI2cEndStop then LL_I2C_AcknowledgeNextData_NACK I s else s);
          (ready, s2) = flag I RXNE s1 in
      if ready then
        let (b, s3) = LL_I2C_ReceiveData8 I s2 in
        rbind (aset buf pos b) (\<lambda>buf'. Inr ((buf', Suc pos, sz - 1), s3))
      else Inr ((buf, pos, sz), s2))"

definition send_round ::
  "'s i2c_ll \<Rightarrow> u8 list \<Rightarrow> nat \<Rightarrow> u32 \<Rightarrow> cortex_timer \<Rightarrow> 's \<Rightarrow> ((u8 list \<times> nat \<times> u32) \<times> 's) res" where
  "send_round I buf pos sz timer s =
     rbind
       (let (ready, s1) = flag I TXE s in
        if ready then rbind (aget buf pos) (\<lambda>b. Inr ((Suc pos, sz - 1), LL_I2C_TransmitData8 I b s1))
        else Inr ((pos, sz), s1))
       (\<lambda>((pos', sz'), s2).
     rbind (if sz' = 0 then drain (rounds I) I timer s2 else Inr s2) (\<lambda>s3.
     Inr ((buf, pos', sz'), s3)))"

fun transfer_loop ::
  "nat \<Rightarrow> 's i2c_ll \<Rightarrow> u8 list \<Rightarrow> nat \<Rightarrow> u32 \<Rightarrow> i2c_end \<Rightarrow> bool \<Rightarrow> cortex_timer \<Rightarrow> 's \<Rightarrow> ((bool \<times> u8 list) \<times> 's) res" where
  "transfer_loop 0 I buf pos sz endn read timer s = Inl Blocked"
| "transfer_loop (Suc n) I buf pos sz endn read timer s =
     (if sz = 0 then Inr ((True, buf), s)
      else let (should_stop, s1) = stop_or_late I timer s in
        rbind (if read then receive_round I buf pos sz endn s1 else send_round I buf pos sz timer s1)
          (\<lambda>((buf', pos', sz'), s2).
        if should_stop then Inr ((sz' = 0, buf'), s2)
        else transfer_loop n I buf' pos' sz' endn read timer s2))"

definition rhs_hal_i2c_transfer ::
  "'s i2c_ll \<Rightarrow> u8 list \<Rightarrow> u32 \<Rightarrow> i2c_end \<Rightarrow> bool \<Rightarrow> cortex_timer \<Rightarrow> 's \<Rightarrow> ((bool \<times> u8 list) \<times> 's) res" where
  "rhs_hal_i2c_transfer I buf sz endn read timer s =
     rbind (transfer_loop (Suc (rounds I)) I buf 0 sz endn read timer s) (\<lambda>((ret, buf'), s1).
     rbind (if ret then rhs_hal_i2c_wait_for_end (rounds I) I endn timer s1 else Inr (False, s1)) (\<lambda>(ret', s2).
     let s3 = LL_I2C_ClearFlag_NACK I s2;
         s4 = (if endn = RHSHalI2cEndStop then LL_I2C_ClearFlag_STOP I s3 else s3) in
     Inr ((ret', buf'), s4)))"

definition rhs_hal_i2c_transaction ::
  "'s i2c_ll \<Rightarrow> u16 \<Rightarrow> bool \<Rightarrow> u8 list \<Rightarrow> u32 \<Rightarrow> i2c_begin \<Rightarrow> i2c_end \<Rightarrow> bool \<Rightarrow> cortex_timer \<Rightarrow> 's \<Rightarrow>
     ((bool \<times> u8 list) \<times> 's) res" where
  "rhs_hal_i2c_transaction I address ten_bit buf sz begn endn read timer s =
     rbind (rhs_hal_i2c_wait_for_idle (rounds I) I begn timer s) (\<lambda>(idle, s1).
     if \<not> idle then Inr ((False, buf), s1)
     else
       let request = rhs_hal_i2c_get_start_signal begn ten_bit read;
           mode = rhs_hal_i2c_get_end_signal endn;
           s2 = LL_I2C_HandleTransfer I (push_bit 1 (ucast address)) sz mode request s1 in
       rhs_hal_i2c_transfer I buf sz endn read timer s2)"

section \<open>The bus\<close>

text \<open>
  A bus has the handle that uses it now and its mutex; \<open>ll\<close> is the peripheral behind it. The
  handle is named by a number. Clocks and pins are switched by register writes without a
  result: \<open>bus_clock\<close> and \<open>handle_event\<close>, with \<open>True\<close> for the activation.
\<close>

record ('s, 't) i2c_bus =
  current_handle :: "nat option"
  bus_mutex :: "'t mutex_obj option"
  ll :: 's

record ('s, 't) i2c_env =
  regs :: "'s i2c_ll"
  i2c_mapi :: "'t mutex_api"
  i2c_me :: 't
  i2c_cx :: ctx
  bus_clock :: "bool \<Rightarrow> 's \<Rightarrow> 's"
  handle_event :: "nat \<Rightarrow> bool \<Rightarrow> 's \<Rightarrow> 's"

datatype i2c_bus_event = RHSHalI2cBusEventInit | RHSHalI2cBusEventDeinit | RHSHalI2cBusEventLock
  | RHSHalI2cBusEventUnlock | RHSHalI2cBusEventActivate | RHSHalI2cBusEventDeactivate

text \<open>A null mutex is a fault in the mutex calls, which assert their instance.\<close>

definition with_mutex :: "'t mutex_obj option \<Rightarrow> ('t mutex_obj \<Rightarrow> 'a res) \<Rightarrow> 'a res" where
  "with_mutex m k = (case m of None \<Rightarrow> Inl AssertFailed | Some x \<Rightarrow> k x)"

definition rhs_hal_i2c_bus_external_event ::
  "('s, 't) i2c_env \<Rightarrow> i2c_bus_event \<Rightarrow> ('s, 't) i2c_bus \<Rightarrow> ('s, 't) i2c_bus res" where
  "rhs_hal_i2c_bus_external_event E event b = (case event of
     RHSHalI2cBusEventInit \<Rightarrow>
       rbind (if bus_mutex b \<noteq> None then rhs_mutex_free (i2c_cx E) (bus_mutex b) else Inr ()) (\<lambda>_.
       rbind (rhs_mutex_alloc (i2c_mapi E) (i2c_cx E) RHSMutexTypeNormal) (\<lambda>m.
       Inr (b\<lparr>bus_mutex := Some m, current_handle := None\<rparr>)))
   | RHSHalI2cBusEventDeinit \<Rightarrow> rbind (rhs_mutex_free (i2c_cx E) (bus_mutex b)) (\<lambda>_. Inr b)
   | RHSHalI2cBusEventLock \<Rightarrow>
       with_mutex (bus_mutex b) (\<lambda>m.
       rbind (rhs_mutex_acquire (i2c_mapi E) (i2c_cx E) (i2c_me E) m RHSWaitForever) (\<lambda>(r, m').
       rhs_assert (r = RHSStatusOk) (Inr (b\<lparr>bus_mutex := Some m'\<rparr>))))
   | RHSHalI2cBusEventUnlock \<Rightarrow>
       with_mutex (bus_mutex b) (\<lambda>m.
       rbind (rhs_mutex_release (i2c_mapi E) (i2c_cx E) (i2c_me E) m) (\<lambda>(r, m').
       rhs_assert (r = RHSStatusOk) (Inr (b\<lparr>bus_mutex := Some m'\<rparr>))))
   | RHSHalI2cBusEventActivate \<Rightarrow> Inr (b\<lparr>ll := bus_clock E True (ll b)\<rparr>)
   | RHSHalI2cBusEventDeactivate \<Rightarrow> Inr (b\<lparr>ll := bus_clock E False (ll b)\<rparr>))"

definition rhs_hal_i2c_init :: "('s, 't) i2c_env \<Rightarrow> ('s, 't) i2c_bus \<Rightarrow> ('s, 't) i2c_bus res" where
  "rhs_hal_i2c_init E b = rhs_hal_i2c_bus_external_event E RHSHalI2cBusEventInit b"

definition rhs_hal_i2c_deinit :: "('s, 't) i2c_env \<Rightarrow> ('s, 't) i2c_bus \<Rightarrow> ('s, 't) i2c_bus res" where
  "rhs_hal_i2c_deinit E b = rhs_hal_i2c_bus_external_event E RHSHalI2cBusEventDeinit b"

definition rhs_hal_i2c_acquire :: "('s, 't) i2c_env \<Rightarrow> nat \<Rightarrow> ('s, 't) i2c_bus \<Rightarrow> ('s, 't) i2c_bus res" where
  "rhs_hal_i2c_acquire E handle b =
     rbind (rhs_hal_i2c_bus_external_event E RHSHalI2cBusEventLock b) (\<lambda>b1.
     rhs_assert (current_handle b1 = None)
       (rbind (rhs_hal_i2c_bus_external_event E RHSHalI2cBusEventActivate (b1\<lparr>current_handle := Some handle\<rparr>)) (\<lambda>b2.
        Inr (b2\<lparr>ll := handle_event E handle True (ll b2)\<rparr>))))"

definition rhs_hal_i2c_release :: "('s, 't) i2c_env \<Rightarrow> nat \<Rightarrow> ('s, 't) i2c_bus \<Rightarrow> ('s, 't) i2c_bus res" where
  "rhs_hal_i2c_release E handle b =
     rhs_assert (current_handle b = Some handle)
       (rbind (rhs_hal_i2c_bus_external_event E RHSHalI2cBusEventDeactivate (b\<lparr>ll := handle_event E handle False (ll b)\<rparr>))
          (\<lambda>b1. rhs_hal_i2c_bus_external_event E RHSHalI2cBusEventUnlock (b1\<lparr>current_handle := None\<rparr>)))"

section \<open>Calls\<close>

definition transact ::
  "('s, 't) i2c_env \<Rightarrow> nat \<Rightarrow> u16 \<Rightarrow> bool \<Rightarrow> u8 list \<Rightarrow> u32 \<Rightarrow> i2c_begin \<Rightarrow> i2c_end \<Rightarrow> bool \<Rightarrow> u32 \<Rightarrow>
     ('s, 't) i2c_bus \<Rightarrow> ((bool \<times> u8 list) \<times> ('s, 't) i2c_bus) res" where
  "transact E handle address ten_bit buf sz begn endn read timeout b =
     rhs_assert (current_handle b = Some handle)
       (rbind (rhs_hal_cortex_timer_get (cortex (regs E)) (timeout * 1000) (ll b)) (\<lambda>(timer, s).
        rbind (rhs_hal_i2c_transaction (regs E) address ten_bit buf sz begn endn read timer s) (\<lambda>(r, s').
        Inr (r, b\<lparr>ll := s'\<rparr>))))"

definition rhs_hal_i2c_rx_ext ::
  "('s, 't) i2c_env \<Rightarrow> nat \<Rightarrow> u16 \<Rightarrow> bool \<Rightarrow> u8 list \<Rightarrow> u32 \<Rightarrow> i2c_begin \<Rightarrow> i2c_end \<Rightarrow> u32 \<Rightarrow>
     ('s, 't) i2c_bus \<Rightarrow> ((bool \<times> u8 list) \<times> ('s, 't) i2c_bus) res" where
  "rhs_hal_i2c_rx_ext E handle address ten_bit buf sz begn endn timeout b =
     transact E handle address ten_bit buf sz begn endn True timeout b"

definition rhs_hal_i2c_tx_ext ::
  "('s, 't) i2c_env \<Rightarrow> nat \<Rightarrow> u16 \<Rightarrow> bool \<Rightarrow> u8 list \<Rightarrow> u32 \<Rightarrow> i2c_begin \<Rightarrow> i2c_end \<Rightarrow> u32 \<Rightarrow>
     ('s, 't) i2c_bus \<Rightarrow> (bool \<times> ('s, 't) i2c_bus) res" where
  "rhs_hal_i2c_tx_ext E handle address ten_bit data sz begn endn timeout b =
     rbind (transact E handle address ten_bit data sz begn endn False timeout b) (\<lambda>((r, _), b'). Inr (r, b'))"

definition rhs_hal_i2c_tx ::
  "('s, 't) i2c_env \<Rightarrow> nat \<Rightarrow> u8 \<Rightarrow> u8 list \<Rightarrow> u32 \<Rightarrow> u32 \<Rightarrow> ('s, 't) i2c_bus \<Rightarrow> (bool \<times> ('s, 't) i2c_bus) res" where
  "rhs_hal_i2c_tx E handle address data sz timeout b =
     rhs_assert (timeout > 0)
       (rhs_hal_i2c_tx_ext E handle (ucast address) False data sz RHSHalI2cBeginStart RHSHalI2cEndStop timeout b)"

definition rhs_hal_i2c_rx ::
  "('s, 't) i2c_env \<Rightarrow> nat \<Rightarrow> u8 \<Rightarrow> u8 list \<Rightarrow> u32 \<Rightarrow> u32 \<Rightarrow> ('s, 't) i2c_bus \<Rightarrow>
     ((bool \<times> u8 list) \<times> ('s, 't) i2c_bus) res" where
  "rhs_hal_i2c_rx E handle address buf sz timeout b =
     rhs_assert (timeout > 0)
       (rhs_hal_i2c_rx_ext E handle (ucast address) False buf sz RHSHalI2cBeginStart RHSHalI2cEndStop timeout b)"

definition rhs_hal_i2c_trx ::
  "('s, 't) i2c_env \<Rightarrow> nat \<Rightarrow> u8 \<Rightarrow> u8 list \<Rightarrow> u32 \<Rightarrow> u8 list \<Rightarrow> u32 \<Rightarrow> u32 \<Rightarrow> ('s, 't) i2c_bus \<Rightarrow>
     ((bool \<times> u8 list) \<times> ('s, 't) i2c_bus) res" where
  "rhs_hal_i2c_trx E handle address tx_data tx_size rx_data rx_size timeout b =
     rbind (rhs_hal_i2c_tx_ext E handle (ucast address) False tx_data tx_size RHSHalI2cBeginStart RHSHalI2cEndStop timeout b)
       (\<lambda>(tx, b1).
     rbind (rhs_hal_i2c_rx_ext E handle (ucast address) False rx_data rx_size RHSHalI2cBeginStart RHSHalI2cEndStop timeout b1)
       (\<lambda>((rx, data), b2). Inr ((tx \<and> rx, data), b2)))"

text \<open>The wait for the answer to an address; the later waits for STOP are those of the end of a transfer.\<close>

fun wait_answer :: "nat \<Rightarrow> 's i2c_ll \<Rightarrow> cortex_timer \<Rightarrow> 's \<Rightarrow> (bool \<times> 's) res" where
  "wait_answer 0 I timer s = Inl Blocked"
| "wait_answer (Suc n) I timer s =
     (let (tmp1, s1) = flag I STOPF s; (tmp2, s2) = flag I NACKF s1 in
      if tmp1 \<or> tmp2 then Inr (True, s2)
      else let (x, s3) = expired I timer s2 in
        if x then Inr (False, s3) else wait_answer n I timer s3)"

definition device_answer :: "'s i2c_ll \<Rightarrow> u8 \<Rightarrow> cortex_timer \<Rightarrow> 's \<Rightarrow> (bool \<times> 's) res" where
  "device_answer I i2c_addr timer s =
     rbind (rhs_hal_i2c_wait_for_idle (rounds I) I RHSHalI2cBeginStart timer s) (\<lambda>(idle, s1).
     if \<not> idle then Inr (False, s1)
     else
     rbind (wait_answer (rounds I) I timer
         (LL_I2C_HandleTransfer I (push_bit 1 (ucast i2c_addr)) 0 MODE_AUTOEND GENERATE_START_WRITE s1)) (\<lambda>(answered, s2).
     if \<not> answered then Inr (False, s2)
     else
     let (nack, s3) = flag I NACKF s2 in
     rbind (rhs_hal_i2c_wait_for_end (rounds I) I RHSHalI2cEndStop timer s3) (\<lambda>(stop, s4).
     if \<not> stop then Inr (False, s4)
     else if \<not> nack then Inr (True, LL_I2C_ClearFlag_STOP I s4)
     else Inr (False, LL_I2C_ClearFlag_NACK I (LL_I2C_ClearFlag_STOP I s4)))))"

definition rhs_hal_i2c_is_device_ready ::
  "('s, 't) i2c_env \<Rightarrow> nat \<Rightarrow> u8 \<Rightarrow> u32 \<Rightarrow> ('s, 't) i2c_bus \<Rightarrow> (bool \<times> ('s, 't) i2c_bus) res" where
  "rhs_hal_i2c_is_device_ready E handle i2c_addr timeout b =
     rhs_assert (current_handle b = Some handle) (rhs_assert (timeout > 0)
       (rbind (rhs_hal_cortex_timer_get (cortex (regs E)) (timeout * 1000) (ll b)) (\<lambda>(timer, s).
        rbind (device_answer (regs E) i2c_addr timer s) (\<lambda>(r, s'). Inr (r, b\<lparr>ll := s'\<rparr>)))))"

text \<open>The buffers of the register reads live on the stack; \<open>junk\<close> is what they hold at first.\<close>

definition rhs_hal_i2c_read_reg_8 ::
  "('s, 't) i2c_env \<Rightarrow> nat \<Rightarrow> u8 \<Rightarrow> u8 \<Rightarrow> u8 \<Rightarrow> u32 \<Rightarrow> ('s, 't) i2c_bus \<Rightarrow> ((bool \<times> u8) \<times> ('s, 't) i2c_bus) res" where
  "rhs_hal_i2c_read_reg_8 E handle i2c_addr reg_addr data timeout b =
     rbind (rhs_hal_i2c_trx E handle i2c_addr [reg_addr] 1 [data] 1 timeout b) (\<lambda>((r, d), b'). Inr ((r, d ! 0), b'))"

definition rhs_hal_i2c_read_reg_16 ::
  "('s, 't) i2c_env \<Rightarrow> nat \<Rightarrow> u8 \<Rightarrow> u8 \<Rightarrow> u8 \<times> u8 \<Rightarrow> u32 \<Rightarrow> ('s, 't) i2c_bus \<Rightarrow> ((bool \<times> u16) \<times> ('s, 't) i2c_bus) res" where
  "rhs_hal_i2c_read_reg_16 E handle i2c_addr reg_addr junk timeout b =
     rbind (rhs_hal_i2c_trx E handle i2c_addr [reg_addr] 1 [fst junk, snd junk] 2 timeout b) (\<lambda>((r, d), b').
     Inr ((r, push_bit 8 (ucast (d ! 0)) OR ucast (d ! 1)), b'))"

definition rhs_hal_i2c_read_mem ::
  "('s, 't) i2c_env \<Rightarrow> nat \<Rightarrow> u8 \<Rightarrow> u8 \<Rightarrow> u8 list \<Rightarrow> u32 \<Rightarrow> u32 \<Rightarrow> ('s, 't) i2c_bus \<Rightarrow>
     ((bool \<times> u8 list) \<times> ('s, 't) i2c_bus) res" where
  "rhs_hal_i2c_read_mem E handle i2c_addr mem_addr data len timeout b =
     rhs_hal_i2c_trx E handle i2c_addr [mem_addr] 1 data len timeout b"

definition rhs_hal_i2c_write_reg_8 ::
  "('s, 't) i2c_env \<Rightarrow> nat \<Rightarrow> u8 \<Rightarrow> u8 \<Rightarrow> u8 \<Rightarrow> u32 \<Rightarrow> ('s, 't) i2c_bus \<Rightarrow> (bool \<times> ('s, 't) i2c_bus) res" where
  "rhs_hal_i2c_write_reg_8 E handle i2c_addr reg_addr data timeout b =
     rhs_hal_i2c_tx E handle i2c_addr [reg_addr, data] 2 timeout b"

definition rhs_hal_i2c_write_reg_16 ::
  "('s, 't) i2c_env \<Rightarrow> nat \<Rightarrow> u8 \<Rightarrow> u8 \<Rightarrow> u16 \<Rightarrow> u32 \<Rightarrow> ('s, 't) i2c_bus \<Rightarrow> (bool \<times> ('s, 't) i2c_bus) res" where
  "rhs_hal_i2c_write_reg_16 E handle i2c_addr reg_addr data timeout b =
     rhs_hal_i2c_tx E handle i2c_addr [reg_addr, ucast (drop_bit 8 data AND 0xFF), ucast (data AND 0xFF)] 3 timeout b"

definition rhs_hal_i2c_write_mem ::
  "('s, 't) i2c_env \<Rightarrow> nat \<Rightarrow> u8 \<Rightarrow> u8 \<Rightarrow> u8 list \<Rightarrow> u32 \<Rightarrow> u32 \<Rightarrow> ('s, 't) i2c_bus \<Rightarrow> (bool \<times> ('s, 't) i2c_bus) res" where
  "rhs_hal_i2c_write_mem E handle i2c_addr mem_addr data len timeout b =
     rhs_assert (current_handle b = Some handle) (rhs_assert (timeout > 0)
       (rbind (rhs_hal_i2c_tx_ext E handle (ucast i2c_addr) False [mem_addr] 1 RHSHalI2cBeginStart RHSHalI2cEndPause timeout b)
          (\<lambda>(tx1, b1).
        rbind (rhs_hal_i2c_tx_ext E handle (ucast i2c_addr) False data len RHSHalI2cBeginResume RHSHalI2cEndStop timeout b1)
          (\<lambda>(tx2, b2). Inr (tx1 \<and> tx2, b2)))))"

section \<open>The line\<close>

text \<open>
  \<open>sent\<close> and \<open>got\<close> are the bytes handed to and taken from the peripheral so far, \<open>left\<close> bounds
  how often a timer can still be asked before it says that it has expired, if that is less
  than the rounds the model follows. Only the two data registers move bytes, and nothing gives
  a timer more time. \<open>view\<close> is any part of the state that only a transfer request and the
  clearing of a flag change.
\<close>

locale i2c_line =
  fixes I :: "'s i2c_ll" and left :: "cortex_timer \<Rightarrow> 's \<Rightarrow> nat" and sent got :: "'s \<Rightarrow> u8 list"
    and view :: "'s \<Rightarrow> 'v" and source :: "'v \<Rightarrow> nat \<Rightarrow> u8"
  assumes timers: "left t s < rounds I \<Longrightarrow> expired I t s = (False, s') \<Longrightarrow> left t s' < left t s"
    and clock_quiet: "CYCCNT (cortex I) s = (c, s') \<Longrightarrow> left t s' \<le> left t s \<and> sent s' = sent s \<and> got s' = got s \<and> view s' = view s"
    and flags_quiet: "ISR I s = (f, s') \<Longrightarrow> left t s' \<le> left t s \<and> sent s' = sent s \<and> got s' = got s \<and> view s' = view s"
    and transmit: "left t (LL_I2C_TransmitData8 I b s) \<le> left t s" "sent (LL_I2C_TransmitData8 I b s) = sent s @ [b]"
      "got (LL_I2C_TransmitData8 I b s) = got s" "view (LL_I2C_TransmitData8 I b s) = view s"
    and receive: "LL_I2C_ReceiveData8 I s = (b, s') \<Longrightarrow> left t s' \<le> left t s \<and> sent s' = sent s \<and> got s' = got s @ [b] \<and> view s' = view s \<and>
      b = source (view s) (length (got s))"
    and handle: "left t (LL_I2C_HandleTransfer I a n m r s) \<le> left t s" "sent (LL_I2C_HandleTransfer I a n m r s) = sent s"
      "got (LL_I2C_HandleTransfer I a n m r s) = got s"
    and nack_next: "left t (LL_I2C_AcknowledgeNextData_NACK I s) \<le> left t s"
      "sent (LL_I2C_AcknowledgeNextData_NACK I s) = sent s" "got (LL_I2C_AcknowledgeNextData_NACK I s) = got s"
      "view (LL_I2C_AcknowledgeNextData_NACK I s) = view s"
    and clear: "sent (LL_I2C_ClearFlag_NACK I s) = sent s" "got (LL_I2C_ClearFlag_NACK I s) = got s"
      "sent (LL_I2C_ClearFlag_STOP I s) = sent s" "got (LL_I2C_ClearFlag_STOP I s) = got s"
begin

definition fed :: "'s \<Rightarrow> u8 list \<Rightarrow> bool" where
  "fed s xs \<longleftrightarrow> xs = map (source (view s)) [length (got s) ..< length (got s) + length xs]"

lemma fed_Nil [simp]: "fed s []"
  by (simp add: fed_def)

lemma fed_append:
  assumes "fed s xs" and "fed s' ys" and "view s' = view s" and "got s' = got s @ xs"
  shows "fed s (xs @ ys)"
  unfolding fed_def
proof -
  have "[length (got s) ..< length (got s) + length (xs @ ys)] =
      [length (got s) ..< length (got s) + length xs] @ [length (got s') ..< length (got s') + length ys]"
    using upt_add_eq_append [of "length (got s)" "length (got s) + length xs" "length ys"] assms(4) by (simp add: add.assoc)
  then show "xs @ ys = map (source (view s)) [length (got s) ..< length (got s) + length (xs @ ys)]"
    using assms(1-3) by (simp add: fed_def)
qed

definition quiet :: "'s \<Rightarrow> 's \<Rightarrow> bool" where
  "quiet s s' \<longleftrightarrow> (\<forall>t. left t s' \<le> left t s) \<and> sent s' = sent s \<and> got s' = got s \<and> view s' = view s"

lemma quiet_refl [simp]: "quiet s s"
  by (simp add: quiet_def)

lemma quiet_trans [trans]: "quiet s s1 \<Longrightarrow> quiet s1 s2 \<Longrightarrow> quiet s s2"
  by (fastforce simp: quiet_def intro: order_trans)

lemma quiet_left: "quiet s s' \<Longrightarrow> left t s' \<le> left t s"
  by (simp add: quiet_def)

lemma flag_quiet: "flag I g s = (b, s') \<Longrightarrow> quiet s s'"
  using flags_quiet by (fastforce simp: flag_def quiet_def split: prod.splits)

lemma expired_quiet: "expired I t s = (b, s') \<Longrightarrow> quiet s s'"
  using clock_quiet by (fastforce simp: expired_def rhs_hal_cortex_timer_is_expired_def quiet_def split: prod.splits)

lemma or_else_quiet:
  assumes "or_else f g s = (b, s')" and "\<And>s b s'. f s = (b, s') \<Longrightarrow> quiet s s'" and "\<And>s b s'. g s = (b, s') \<Longrightarrow> quiet s s'"
  shows "quiet s s'"
proof -
  obtain x s1 where 1: "f s = (x, s1)" by (cases "f s")
  then have q: "quiet s s1" by (rule assms(2))
  show ?thesis
  proof (cases x)
    case True
    then show ?thesis using assms(1) 1 q by (simp add: or_else_def)
  next
    case False
    then have "g s1 = (b, s')" using assms(1) 1 by (simp add: or_else_def)
    with q show ?thesis by (blast intro: quiet_trans assms(3))
  qed
qed

lemma stop_or_late_spec:
  assumes "stop_or_late I t s = (b, s')"
  shows "quiet s s'" and "\<not> b \<Longrightarrow> left t s < rounds I \<Longrightarrow> left t s' < left t s"
proof -
  have ab: "rhs_hal_i2c_transfer_is_aborted I u = (c, u') \<Longrightarrow> quiet u u'" for u c u'
    unfolding rhs_hal_i2c_transfer_is_aborted_def by (erule or_else_quiet) (auto intro: flag_quiet)
  show "quiet s s'" using assms unfolding stop_or_late_def
    by (rule or_else_quiet) (auto intro: expired_quiet ab)
  assume "\<not> b" and r: "left t s < rounds I"
  obtain x s1 where 1: "expired I t s = (x, s1)" by (cases "expired I t s")
  with assms \<open>\<not> b\<close> have x: "\<not> x" "rhs_hal_i2c_transfer_is_aborted I s1 = (b, s')"
    by (auto simp: stop_or_late_def or_else_def split: if_splits)
  then have "left t s1 < left t s" using timers [of t s s1] r 1 by simp
  with quiet_left [OF ab [OF x(2)], of t] show "left t s' < left t s" by simp
qed

text \<open>Every wait ends: a round that does not stop it has asked the timer.\<close>

lemma wait_for_idle_ends:
  "left t s < rounds I \<Longrightarrow> left t s < n \<Longrightarrow> \<exists>b s'. rhs_hal_i2c_wait_for_idle n I begn t s = Inr (b, s') \<and> quiet s s'"
proof (induction n arbitrary: s)
  case (Suc n)
  obtain x s1 where 1: "expired I t s = (x, s1)" by (cases "expired I t s")
  obtain y s2 where 2: "flag I BUSY s1 = (y, s2)" by (cases "flag I BUSY s1")
  have q: "quiet s s1" "quiet s1 s2" by (rule expired_quiet [OF 1], rule flag_quiet [OF 2])
  show ?case
  proof (cases "x \<or> begn \<noteq> RHSHalI2cBeginStart \<or> \<not> y")
    case True
    then show ?thesis using 1 2 q quiet_trans [OF q] by auto
  next
    case False
    then have "left t s2 < n" "left t s2 < rounds I"
      using timers [of t s s1] 1 quiet_left [OF q(2), of t] Suc.prems by simp_all
    with Suc.IH obtain b s' where "rhs_hal_i2c_wait_for_idle n I begn t s2 = Inr (b, s')" "quiet s2 s'" by blast
    with False 1 2 q show ?thesis by (auto intro: quiet_trans)
  qed
qed simp

lemma wait_for_end_ends:
  "left t s < rounds I \<Longrightarrow> left t s < n \<Longrightarrow> \<exists>b s'. rhs_hal_i2c_wait_for_end n I endn t s = Inr (b, s') \<and> quiet s s'"
proof (induction n arbitrary: s)
  case (Suc n)
  obtain x s1 where 1: "flag I (end_mask endn) s = (x, s1)" by (cases "flag I (end_mask endn) s")
  obtain y s2 where 2: "expired I t s1 = (y, s2)" by (cases "expired I t s1")
  have q: "quiet s s1" "quiet s1 s2" by (rule flag_quiet [OF 1], rule expired_quiet [OF 2])
  show ?case
  proof (cases "x \<or> y")
    case True
    then show ?thesis using 1 2 q quiet_trans [OF q] by auto
  next
    case False
    then have "left t s2 < n" "left t s2 < rounds I"
      using timers [of t s1 s2] 2 quiet_left [OF q(1), of t] Suc.prems by simp_all
    with Suc.IH obtain b s' where "rhs_hal_i2c_wait_for_end n I endn t s2 = Inr (b, s')" "quiet s2 s'" by blast
    with False 1 2 q show ?thesis by (auto intro: quiet_trans)
  qed
qed simp

lemma drain_ends: "left t s < rounds I \<Longrightarrow> left t s < n \<Longrightarrow> \<exists>s'. drain n I t s = Inr s' \<and> quiet s s'"
proof (induction n arbitrary: s)
  case (Suc n)
  obtain x s1 where 1: "or_else (flag I TC) (flag I TCR) s = (x, s1)" by (cases "or_else (flag I TC) (flag I TCR) s")
  obtain y s2 where 2: "stop_or_late I t s1 = (y, s2)" by (cases "stop_or_late I t s1")
  have q: "quiet s s1" "quiet s1 s2"
    by (rule or_else_quiet [OF 1]) (auto intro: flag_quiet stop_or_late_spec(1) [OF 2])
  show ?case
  proof (cases "x \<or> y")
    case True
    then show ?thesis using 1 2 q quiet_trans [OF q] by auto
  next
    case False
    then have "left t s2 < n" "left t s2 < rounds I"
      using stop_or_late_spec(2) [OF 2] quiet_left [OF q(1), of t] Suc.prems by simp_all
    with Suc.IH obtain s' where "drain n I t s2 = Inr s'" "quiet s2 s'" by blast
    with False 1 2 q show ?thesis by (auto intro: quiet_trans)
  qed
qed simp

text \<open>One round hands over at most one byte, the one at the cursor.\<close>

lemma send_round_spec:
  assumes "pos < length buf" and "left t s < rounds I"
  obtains k s' where "send_round I buf pos sz t s = Inr ((buf, pos + k, if k = 0 then sz else sz - 1), s')" "k \<le> 1"
    "sent s' = sent s @ take k (drop pos buf)" "got s' = got s" "view s' = view s" "left t s' \<le> left t s"
proof -
  obtain ready s1 where 1: "flag I TXE s = (ready, s1)" by (cases "flag I TXE s")
  have q: "quiet s s1" by (rule flag_quiet [OF 1])
  let ?k = "if ready then 1 :: nat else 0"
  let ?sz = "if ready then sz - 1 else sz"
  let ?s2 = "if ready then LL_I2C_TransmitData8 I (buf ! pos) s1 else s1"
  have s2: "sent ?s2 = sent s @ take ?k (drop pos buf)" "got ?s2 = got s" "view ?s2 = view s"
    using q assms(1) transmit(2,3,4) by (auto simp: quiet_def take_Suc_conv_app_nth [of 0, simplified])
  have s2_left: "left t ?s2 \<le> left t s"
    using quiet_left [OF q, of t] transmit(1) [of t "buf ! pos" s1] by simp
  obtain s3 where 3: "(if ?sz = 0 then drain (rounds I) I t ?s2 else Inr ?s2) = Inr s3" "quiet ?s2 s3"
    using drain_ends [of t ?s2 "rounds I"] le_less_trans [OF s2_left assms(2)] quiet_refl [of ?s2]
    by (cases "?sz = 0") auto
  have "send_round I buf pos sz t s = Inr ((buf, pos + ?k, if ?k = 0 then sz else sz - 1), s3)"
    using 1 3(1) assms(1) by (cases ready) (auto simp: send_round_def split: if_splits)
  moreover have "sent s3 = sent s @ take ?k (drop pos buf)" "got s3 = got s" "view s3 = view s"
    using s2 3(2) by (simp_all add: quiet_def)
  moreover have "left t s3 \<le> left t s" using quiet_left [OF 3(2)] s2_left by (rule order_trans)
  ultimately show thesis by (intro that [of ?k s3]) simp_all
qed

lemma receive_round_spec:
  assumes "pos < length buf"
  obtains xs s' where "receive_round I buf pos sz endn s =
      Inr ((take pos buf @ xs @ drop (pos + length xs) buf, pos + length xs, if xs = [] then sz else sz - 1), s')"
    "length xs \<le> 1" "got s' = got s @ xs" "sent s' = sent s" "view s' = view s" "fed s xs" "\<And>t. left t s' \<le> left t s"
proof -
  let ?s1 = "if sz = 1 \<and> endn = RHSHalI2cEndStop then LL_I2C_AcknowledgeNextData_NACK I s else s"
  have q1: "quiet s ?s1" using nack_next by (simp add: quiet_def)
  obtain ready s2 where 2: "flag I RXNE ?s1 = (ready, s2)" by (cases "flag I RXNE ?s1")
  have q2: "quiet s s2" by (rule quiet_trans [OF q1 flag_quiet [OF 2]])
  obtain b s3 where 3: "LL_I2C_ReceiveData8 I s2 = (b, s3)" by (cases "LL_I2C_ReceiveData8 I s2")
  show thesis
  proof (cases ready)
    case True
    have l: "left t s3 \<le> left t s" for t
      using receive [OF 3, of t] quiet_left [OF q2, of t] by simp
    have "buf[pos := b] = take pos buf @ [b] @ drop (pos + length [b]) buf"
      using assms by (simp add: upd_conv_take_nth_drop)
    then show thesis using True 2 3 assms receive [OF 3, of undefined] q2 l
      by (intro that [of "[b]" s3]) (simp_all add: receive_round_def quiet_def Let_def fed_def)
  next
    case False
    then show thesis using 2 q2 by (intro that [of "[]" s2]) (simp_all add: receive_round_def quiet_def Let_def)
  qed
qed

lemma unat_dec: "sz \<noteq> 0 \<Longrightarrow> unat (sz - 1) = unat sz - 1" for sz :: u32
  by (rule unat_minus_one)

text \<open>A transfer returns, whatever the peripheral does, and hands over a prefix of its data; all of it on success.\<close>

lemma send_loop:
  assumes "pos + unat sz \<le> length buf" and "left t s < n" and "left t s < rounds I"
  shows "\<exists>r s' k. transfer_loop n I buf pos sz endn False t s = Inr ((r, buf), s') \<and> k \<le> unat sz \<and>
     (r \<longrightarrow> k = unat sz) \<and> sent s' = sent s @ take k (drop pos buf) \<and> got s' = got s \<and> view s' = view s \<and> left t s' \<le> left t s"
  using assms
proof (induction n arbitrary: pos sz s)
  case (Suc n)
  show ?case
  proof (cases "sz = 0")
    case True
    then show ?thesis by (intro exI [of _ True] exI [of _ s] exI [of _ 0]) simp
  next
    case False
    then have u: "0 < unat sz" by (simp add: unat_gt_0)
    then have inside: "pos < length buf" using Suc.prems(1) by simp
    obtain st s1 where 1: "stop_or_late I t s = (st, s1)" by (cases "stop_or_late I t s")
    note p1 = stop_or_late_spec [OF 1]
    obtain k s2 where 2: "send_round I buf pos sz t s1 = Inr ((buf, pos + k, if k = 0 then sz else sz - 1), s2)" "k \<le> 1"
      "sent s2 = sent s1 @ take k (drop pos buf)" "got s2 = got s1" "view s2 = view s1" "left t s2 \<le> left t s1"
      by (rule send_round_spec [OF inside le_less_trans [OF quiet_left [OF p1(1)] Suc.prems(3)]]) blast
    let ?sz = "if k = 0 then sz else sz - 1"
    have sz: "unat ?sz = unat sz - k" using 2(2) False by (cases k) (simp_all add: unat_dec)
    have snt: "sent s2 = sent s @ take k (drop pos buf)" "got s2 = got s" "view s2 = view s" using 2(3,4,5) p1(1) by (simp_all add: quiet_def)
    have l2: "left t s2 \<le> left t s" using 2(6) quiet_left [OF p1(1), of t] by simp
    show ?thesis
    proof (cases st)
      case True
      have "?sz = 0 \<longrightarrow> k = unat sz" using sz 2(2) u by auto
      then show ?thesis using True False 1 2(1,2) snt u l2
        by (intro exI [of _ "?sz = 0"] exI [of _ s2] exI [of _ k]) simp
    next
      case go: False
      have "pos + k + unat ?sz \<le> length buf" using sz Suc.prems(1) 2(2) u by simp
      moreover have "left t s2 < n" "left t s2 < rounds I" using p1(2) go 2(6) Suc.prems(2,3) by simp_all
      ultimately obtain r s' k' where 3: "transfer_loop n I buf (pos + k) ?sz endn False t s2 = Inr ((r, buf), s')"
        "k' \<le> unat ?sz" "r \<longrightarrow> k' = unat ?sz" "sent s' = sent s2 @ take k' (drop (pos + k) buf)" "got s' = got s2"
        "view s' = view s2" "left t s' \<le> left t s2"
        using Suc.IH by blast
      have l3: "left t s' \<le> left t s" using 3(7) l2 by simp
      have "sent s' = sent s @ take (k + k') (drop pos buf)"
        using 3(4) snt(1) by (simp add: take_add add.commute [of k pos])
      then show ?thesis using False go 1 2(1,2) 3(1,2,3,5,6) snt(2,3) sz u l3
        by (intro exI [of _ r] exI [of _ s'] exI [of _ "k + k'"]) auto
    qed
  qed
qed simp

lemma receive_loop:
  assumes "pos + unat sz \<le> length buf" and "left t s < n" and "left t s < rounds I"
  shows "\<exists>r s' xs. transfer_loop n I buf pos sz endn True t s =
       Inr ((r, take pos buf @ xs @ drop (pos + length xs) buf), s') \<and> length xs \<le> unat sz \<and>
     (r \<longrightarrow> length xs = unat sz) \<and> got s' = got s @ xs \<and> sent s' = sent s \<and> view s' = view s \<and> fed s xs \<and>
     left t s' \<le> left t s"
  using assms
proof (induction n arbitrary: buf pos sz s)
  case (Suc n)
  show ?case
  proof (cases "sz = 0")
    case True
    then show ?thesis by (intro exI [of _ True] exI [of _ s] exI [of _ "[]"]) simp
  next
    case False
    then have u: "0 < unat sz" by (simp add: unat_gt_0)
    then have inside: "pos < length buf" using Suc.prems(1) by simp
    obtain st s1 where 1: "stop_or_late I t s = (st, s1)" by (cases "stop_or_late I t s")
    note p1 = stop_or_late_spec [OF 1]
    obtain xs s2 where 2: "receive_round I buf pos sz endn s1 =
        Inr ((take pos buf @ xs @ drop (pos + length xs) buf, pos + length xs, if xs = [] then sz else sz - 1), s2)"
      "length xs \<le> 1" "got s2 = got s1 @ xs" "sent s2 = sent s1" "view s2 = view s1" "fed s1 xs" "left t s2 \<le> left t s1"
      by (rule receive_round_spec [OF inside]) blast
    let ?sz = "if xs = [] then sz else sz - 1" and ?buf = "take pos buf @ xs @ drop (pos + length xs) buf"
    have sz: "unat ?sz = unat sz - length xs" using 2(2) False by (cases xs) (simp_all add: unat_dec)
    have g: "got s2 = got s @ xs" "sent s2 = sent s" "view s2 = view s" using 2(3,4,5) p1(1) by (simp_all add: quiet_def)
    have f: "fed s xs" using 2(6) p1(1) by (simp add: fed_def quiet_def)
    have l2: "left t s2 \<le> left t s" using 2(7) quiet_left [OF p1(1), of t] by simp
    show ?thesis
    proof (cases st)
      case True
      have "?sz = 0 \<longrightarrow> length xs = unat sz" using sz 2(2) u by auto
      then show ?thesis using True False 1 2(1,2) g f u l2
        by (intro exI [of _ "?sz = 0"] exI [of _ s2] exI [of _ xs]) simp
    next
      case go: False
      have fits: "pos + length xs \<le> length buf" using Suc.prems(1) 2(2) u by simp
      then have len: "length ?buf = length buf" by simp
      have "pos + length xs + unat ?sz \<le> length ?buf" unfolding len using sz Suc.prems(1) 2(2) u by simp
      moreover have "left t s2 < n" "left t s2 < rounds I" using p1(2) go 2(7) Suc.prems(2,3) by simp_all
      ultimately obtain r s' ys where 3: "transfer_loop n I ?buf (pos + length xs) ?sz endn True t s2 =
          Inr ((r, take (pos + length xs) ?buf @ ys @ drop (pos + length xs + length ys) ?buf), s')"
        "length ys \<le> unat ?sz" "r \<longrightarrow> length ys = unat ?sz" "got s' = got s2 @ ys" "sent s' = sent s2"
        "view s' = view s2" "fed s2 ys" "left t s' \<le> left t s2"
        using Suc.IH by blast
      have l3: "left t s' \<le> left t s" using 3(8) l2 by simp
      have f3: "fed s (xs @ ys)" using f 3(7) g(3,1) by (rule fed_append)
      have "take (pos + length xs) ?buf @ ys @ drop (pos + length xs + length ys) ?buf =
          take pos buf @ (xs @ ys) @ drop (pos + length (xs @ ys)) buf"
        using fits by (simp add: ac_simps)
      then show ?thesis using False go 1 2(1,2) 3(1,2,3,4,5,6) g f3 sz u l3
        by (intro exI [of _ r] exI [of _ s'] exI [of _ "xs @ ys"]) auto
    qed
  qed
qed simp

end

text \<open>What every transfer does at its end.\<close>

definition finish :: "'s i2c_ll \<Rightarrow> i2c_end \<Rightarrow> 's \<Rightarrow> 's" where
  "finish I endn s =
     (let s' = LL_I2C_ClearFlag_NACK I s in if endn = RHSHalI2cEndStop then LL_I2C_ClearFlag_STOP I s' else s')"

context i2c_line begin

lemma finish_keeps [simp]: "sent (finish I endn s) = sent s" "got (finish I endn s) = got s"
  using clear by (simp_all add: finish_def Let_def)

lemma transfer_end:
  assumes "left t s < rounds I"
  obtains r' s' where
    "rbind (if r then rhs_hal_i2c_wait_for_end (rounds I) I endn t s else Inr (False, s)) (\<lambda>(ret', s2).
       let s3 = LL_I2C_ClearFlag_NACK I s2;
           s4 = (if endn = RHSHalI2cEndStop then LL_I2C_ClearFlag_STOP I s3 else s3) in Inr ((ret', buf), s4)) =
     Inr ((r', buf), finish I endn s')" "r' \<longrightarrow> r" "quiet s s'"
proof -
  obtain b s2 where 1: "(if r then rhs_hal_i2c_wait_for_end (rounds I) I endn t s else Inr (False, s)) = Inr (b, s2)"
    "quiet s s2" "b \<longrightarrow> r"
    using wait_for_end_ends [OF assms assms, of endn] by (cases r) auto
  then show thesis by (intro that [of b s2]) (simp_all add: finish_def Let_def)
qed

lemma transmit_transfer:
  assumes "unat sz \<le> length buf" and "left t s < rounds I"
  obtains r s' k where "rhs_hal_i2c_transfer I buf sz endn False t s = Inr ((r, buf), finish I endn s')" "k \<le> unat sz"
    "r \<longrightarrow> k = unat sz" "sent s' = sent s @ take k buf" "got s' = got s" "view s' = view s"
proof -
  obtain r s1 k where 1: "transfer_loop (Suc (rounds I)) I buf 0 sz endn False t s = Inr ((r, buf), s1)" "k \<le> unat sz"
    "r \<longrightarrow> k = unat sz" "sent s1 = sent s @ take k buf" "got s1 = got s" "view s1 = view s" "left t s1 \<le> left t s"
    using send_loop [where pos = 0 and n = "Suc (rounds I)" and endn = endn and sz = sz and buf = buf and t = t and s = s] assms
    by (auto simp del: transfer_loop.simps)
  then have "left t s1 < rounds I" using assms(2) by simp
  then obtain r' s' where 2: "rbind (if r then rhs_hal_i2c_wait_for_end (rounds I) I endn t s1 else Inr (False, s1)) (\<lambda>(ret', s2).
       let s3 = LL_I2C_ClearFlag_NACK I s2;
           s4 = (if endn = RHSHalI2cEndStop then LL_I2C_ClearFlag_STOP I s3 else s3) in Inr ((ret', buf), s4)) =
     Inr ((r', buf), finish I endn s')" "r' \<longrightarrow> r" "quiet s1 s'"
    by (rule transfer_end)
  show thesis
    by (rule that [of r' s' k]) (use 1 2 in \<open>simp_all add: rhs_hal_i2c_transfer_def quiet_def\<close>)
qed

lemma receive_transfer:
  assumes "unat sz \<le> length buf" and "left t s < rounds I"
  obtains r s' xs where "rhs_hal_i2c_transfer I buf sz endn True t s = Inr ((r, xs @ drop (length xs) buf), finish I endn s')"
    "length xs \<le> unat sz" "r \<longrightarrow> length xs = unat sz" "got s' = got s @ xs" "sent s' = sent s" "view s' = view s" "fed s xs"
proof -
  obtain r s1 xs where 1: "transfer_loop (Suc (rounds I)) I buf 0 sz endn True t s = Inr ((r, xs @ drop (length xs) buf), s1)"
    "length xs \<le> unat sz" "r \<longrightarrow> length xs = unat sz" "got s1 = got s @ xs" "sent s1 = sent s" "view s1 = view s"
    "fed s xs" "left t s1 \<le> left t s"
    using receive_loop [where pos = 0 and n = "Suc (rounds I)" and endn = endn and sz = sz and buf = buf and t = t and s = s] assms
    by (auto simp del: transfer_loop.simps)
  then have "left t s1 < rounds I" using assms(2) by simp
  then obtain r' s' where 2: "rbind (if r then rhs_hal_i2c_wait_for_end (rounds I) I endn t s1 else Inr (False, s1)) (\<lambda>(ret', s2).
       let s3 = LL_I2C_ClearFlag_NACK I s2;
           s4 = (if endn = RHSHalI2cEndStop then LL_I2C_ClearFlag_STOP I s3 else s3) in
       Inr ((ret', xs @ drop (length xs) buf), s4)) =
     Inr ((r', xs @ drop (length xs) buf), finish I endn s')" "r' \<longrightarrow> r" "quiet s1 s'"
    by (rule transfer_end)
  show thesis
    by (rule that [of r' xs s']) (use 1 2 in \<open>simp_all add: rhs_hal_i2c_transfer_def quiet_def\<close>)
qed

lemma transaction_cases:
  assumes "left t s < rounds I"
  obtains (busy) s' where "rhs_hal_i2c_transaction I address ten_bit buf sz begn endn read t s = Inr ((False, buf), s')"
      "quiet s s'" "rhs_hal_i2c_wait_for_idle (rounds I) I begn t s = Inr (False, s')"
    | (go) s1 s' where "rhs_hal_i2c_transaction I address ten_bit buf sz begn endn read t s = rhs_hal_i2c_transfer I buf sz endn read t s'"
      "quiet s s1" "left t s' < rounds I"
      "s' = LL_I2C_HandleTransfer I (push_bit 1 (ucast address)) sz (rhs_hal_i2c_get_end_signal endn)
        (rhs_hal_i2c_get_start_signal begn ten_bit read) s1"
proof -
  obtain b s1 where 1: "rhs_hal_i2c_wait_for_idle (rounds I) I begn t s = Inr (b, s1)" "quiet s s1"
    using wait_for_idle_ends [OF assms assms] by blast
  show thesis
  proof (cases b)
    case False
    then show thesis using 1 by (intro busy [of s1]) (simp_all add: rhs_hal_i2c_transaction_def)
  next
    case True
    let ?s2 = "LL_I2C_HandleTransfer I (push_bit 1 (ucast address)) sz (rhs_hal_i2c_get_end_signal endn)
      (rhs_hal_i2c_get_start_signal begn ten_bit read) s1"
    have "left t ?s2 < rounds I" using handle(1) quiet_left [OF 1(2), of t] assms by (meson le_less_trans)
    then show thesis using True 1 by (intro go [of ?s2 s1]) (simp_all add: rhs_hal_i2c_transaction_def Let_def)
  qed
qed

end

text \<open>The timer of a call: its timeout is accepted and expires within the rounds the model follows.\<close>

definition timed :: "'s i2c_ll \<Rightarrow> (cortex_timer \<Rightarrow> 's \<Rightarrow> nat) \<Rightarrow> u32 \<Rightarrow> 's \<Rightarrow> bool" where
  "timed I left timeout s \<longleftrightarrow>
     (case rhs_hal_cortex_timer_get (cortex I) (timeout * 1000) s of
        Inl _ \<Rightarrow> False
      | Inr (t, s') \<Rightarrow> left t s' < rounds I)"

text \<open>The call that finds the bus busy until its timeout.\<close>

definition given_up :: "'s i2c_ll \<Rightarrow> u32 \<Rightarrow> i2c_begin \<Rightarrow> 's \<Rightarrow> 's \<Rightarrow> bool" where
  "given_up I timeout begn s s' \<longleftrightarrow>
     (\<exists>t s1. rhs_hal_cortex_timer_get (cortex I) (timeout * 1000) s = Inr (t, s1) \<and>
       rhs_hal_i2c_wait_for_idle (rounds I) I begn t s1 = Inr (False, s'))"

context i2c_line begin

lemma timed_get:
  assumes "timed I left timeout s"
  obtains t s' where "rhs_hal_cortex_timer_get (cortex I) (timeout * 1000) s = Inr (t, s')" "left t s' < rounds I" "quiet s s'"
proof -
  obtain t s' where 1: "rhs_hal_cortex_timer_get (cortex I) (timeout * 1000) s = Inr (t, s')" "left t s' < rounds I"
    using assms by (auto simp: timed_def split: sum.splits)
  have "s' = snd (CYCCNT (cortex I) s)"
    using 1(1) by (auto simp: rhs_hal_cortex_timer_get_def case_prod_beta Let_def)
  then have "quiet s s'" using clock_quiet [of s "fst (CYCCNT (cortex I) s)" s'] by (simp add: quiet_def)
  with 1 show thesis by (rule that)
qed

lemma tx_ext_spec:
  assumes "I = regs E" and "current_handle b = Some h" and "unat sz \<le> length data" and "timed I left timeout (ll b)"
  obtains r s' k where "rhs_hal_i2c_tx_ext E h a ten_bit data sz begn endn timeout b = Inr (r, b\<lparr>ll := s'\<rparr>)"
    "k \<le> unat sz" "r \<longrightarrow> k = unat sz" "sent s' = sent (ll b) @ take k data" "got s' = got (ll b)"
    "r \<longrightarrow> (\<exists>s1 s2. quiet (ll b) s1 \<and> s' = finish I endn s2 \<and> sent s2 = sent s' \<and> view s2 = view
       (LL_I2C_HandleTransfer I (push_bit 1 (ucast a)) sz (rhs_hal_i2c_get_end_signal endn)
         (rhs_hal_i2c_get_start_signal begn ten_bit False) s1))"
    "(\<exists>s2. s' = finish I endn s2) \<or> given_up I timeout begn (ll b) s'"
proof -
  obtain t s0 where 0: "rhs_hal_cortex_timer_get (cortex I) (timeout * 1000) (ll b) = Inr (t, s0)" "left t s0 < rounds I"
    "quiet (ll b) s0" using timed_get [OF assms(4)] by blast
  show thesis
  proof (rule transaction_cases [OF 0(2), of a ten_bit data sz begn endn False], goal_cases)
    case (1 s')
    moreover have "given_up I timeout begn (ll b) s'" using 0(1) 1(3) by (auto simp: given_up_def)
    ultimately show ?case using 0 assms(1,2)
      by (intro that [of False s' 0]) (auto simp: rhs_hal_i2c_tx_ext_def transact_def quiet_def)
  next
    case (2 s1 s2)
    obtain r s3 k where 3: "rhs_hal_i2c_transfer I data sz endn False t s2 = Inr ((r, data), finish I endn s3)" "k \<le> unat sz"
      "r \<longrightarrow> k = unat sz" "sent s3 = sent s2 @ take k data" "got s3 = got s2" "view s3 = view s2"
      by (rule transmit_transfer [OF assms(3) 2(3)])
    have q: "quiet (ll b) s1" using 0(3) 2(2) by (rule quiet_trans)
    show ?case
    proof (rule that [of r "finish I endn s3" k])
      show "rhs_hal_i2c_tx_ext E h a ten_bit data sz begn endn timeout b = Inr (r, b\<lparr>ll := finish I endn s3\<rparr>)"
        using 0(1) 2(1) 3(1) assms(1,2) by (simp add: rhs_hal_i2c_tx_ext_def transact_def)
      show "r \<longrightarrow> (\<exists>s1 s2. quiet (ll b) s1 \<and> finish I endn s3 = finish I endn s2 \<and> sent s2 = sent (finish I endn s3) \<and>
        view s2 = view (LL_I2C_HandleTransfer I (push_bit 1 (ucast a)) sz (rhs_hal_i2c_get_end_signal endn)
         (rhs_hal_i2c_get_start_signal begn ten_bit False) s1))"
        using q 2(4) 3(6) by (intro impI exI [of _ s1] exI [of _ s3]) simp
      show "(\<exists>s2. finish I endn s3 = finish I endn s2) \<or> given_up I timeout begn (ll b) (finish I endn s3)" by blast
    qed (use 2(4) 3 q handle in \<open>simp_all add: quiet_def\<close>)
  qed
qed

lemma rx_ext_spec:
  assumes "I = regs E" and "current_handle b = Some h" and "unat sz \<le> length buf" and "timed I left timeout (ll b)"
  obtains r s' xs where "rhs_hal_i2c_rx_ext E h a ten_bit buf sz begn endn timeout b =
      Inr ((r, xs @ drop (length xs) buf), b\<lparr>ll := s'\<rparr>)"
    "length xs \<le> unat sz" "r \<longrightarrow> length xs = unat sz" "got s' = got (ll b) @ xs" "sent s' = sent (ll b)"
    "r \<longrightarrow> (\<exists>s1 s2. quiet (ll b) s1 \<and> s' = finish I endn s2 \<and> sent s2 = sent s' \<and>
       view s2 = view (LL_I2C_HandleTransfer I (push_bit 1 (ucast a)) sz (rhs_hal_i2c_get_end_signal endn)
         (rhs_hal_i2c_get_start_signal begn ten_bit True) s1) \<and>
       xs = map (source (view s2)) [length (got (ll b)) ..< length (got (ll b)) + unat sz])"
proof -
  obtain t s0 where 0: "rhs_hal_cortex_timer_get (cortex I) (timeout * 1000) (ll b) = Inr (t, s0)" "left t s0 < rounds I"
    "quiet (ll b) s0" using timed_get [OF assms(4)] by blast
  show thesis
  proof (rule transaction_cases [OF 0(2), of a ten_bit buf sz begn endn True], goal_cases)
    case (1 s')
    then show ?case using 0 assms(1,2)
      by (intro that [of False "[]" s']) (auto simp: rhs_hal_i2c_rx_ext_def transact_def quiet_def)
  next
    case (2 s1 s2)
    obtain r s3 xs where 3: "rhs_hal_i2c_transfer I buf sz endn True t s2 = Inr ((r, xs @ drop (length xs) buf), finish I endn s3)"
      "length xs \<le> unat sz" "r \<longrightarrow> length xs = unat sz" "got s3 = got s2 @ xs" "sent s3 = sent s2" "view s3 = view s2" "fed s2 xs"
      by (rule receive_transfer [OF assms(3) 2(3)])
    have q: "quiet (ll b) s1" using 0(3) 2(2) by (rule quiet_trans)
    show ?case
    proof (rule that [of r xs "finish I endn s3"])
      show "rhs_hal_i2c_rx_ext E h a ten_bit buf sz begn endn timeout b =
          Inr ((r, xs @ drop (length xs) buf), b\<lparr>ll := finish I endn s3\<rparr>)"
        using 0(1) 2(1) 3(1) assms(1,2) by (simp add: rhs_hal_i2c_rx_ext_def transact_def)
      have "got s2 = got (ll b)" using 2(4) q handle(3) by (simp add: quiet_def)
      then show "r \<longrightarrow> (\<exists>s1 s2. quiet (ll b) s1 \<and> finish I endn s3 = finish I endn s2 \<and> sent s2 = sent (finish I endn s3) \<and>
        view s2 = view (LL_I2C_HandleTransfer I (push_bit 1 (ucast a)) sz (rhs_hal_i2c_get_end_signal endn)
         (rhs_hal_i2c_get_start_signal begn ten_bit True) s1) \<and>
        xs = map (source (view s2)) [length (got (ll b)) ..< length (got (ll b)) + unat sz])"
        using q 2(4) 3(3,6,7) by (intro impI exI [of _ s1] exI [of _ s3]) (simp add: fed_def)
    qed (use 2(4) 3 q handle in \<open>simp_all add: quiet_def\<close>)
  qed
qed

end

section \<open>A line with one device\<close>

text \<open>
  A peripheral with a device that is there and answers at once, or one that is missing: then
  the first byte stays in the data register until the address is not acknowledged. The clock
  goes one cycle further at every look; \<open>now\<close> counts them from the end of the last transfer, up
  to one turn of the register, which was at \<open>base\<close> then.
\<close>

record wire =
  base :: u32
  now :: nat
  present :: bool
  open_bytes :: nat
  open_mode :: "i2c_mode option"
  stuck :: bool
  written :: "u8 list"
  answers :: "u8 list"
  taken :: "u8 list"

definition wire_flags :: "'z wire_scheme \<Rightarrow> i2c_flags" where
  "wire_flags w = (let ready = present w \<and> open_bytes w = 0 in
     \<lparr>BUSY = False, STOPF = (if present w then ready \<and> open_mode w = Some MODE_AUTOEND else stuck w),
      NACKF = (\<not> present w \<and> stuck w), RXNE = (present w \<and> 0 < open_bytes w), TXE = (\<not> stuck w),
      TC = (ready \<and> open_mode w = Some MODE_SOFTEND), TCR = (ready \<and> open_mode w = Some MODE_RELOAD)\<rparr>)"

definition next_now :: "nat \<Rightarrow> nat" where
  "next_now n = (if n < 2 ^ 32 - 1 then Suc n else n)"

definition wire_cortex :: "'z wire_scheme cortex_api" where
  "wire_cortex = \<lparr>CYCCNT = (\<lambda>w. (base w + of_nat (now w), w\<lparr>now := next_now (now w)\<rparr>)),
     SystemCoreClock = 216000000, spins = 2 ^ 32\<rparr>"

text \<open>What the device answers; an idle line reads as ones.\<close>

definition answer :: "u8 list \<Rightarrow> nat \<Rightarrow> u8" where
  "answer xs k = (if k < length xs then xs ! k else 0xFF)"

definition wire_ll :: "'z wire_scheme i2c_ll" where
  "wire_ll = \<lparr>cortex = wire_cortex, ISR = (\<lambda>w. (wire_flags w, w)),
     LL_I2C_HandleTransfer = (\<lambda>a n m r w. w\<lparr>open_bytes := unat n, open_mode := Some m, stuck := False\<rparr>),
     LL_I2C_TransmitData8 = (\<lambda>b w. w\<lparr>written := written w @ [b], open_bytes := open_bytes w - 1, stuck := \<not> present w\<rparr>),
     LL_I2C_ReceiveData8 = (\<lambda>w. let b = answer (answers w) (length (taken w)) in
        (b, w\<lparr>taken := taken w @ [b], open_bytes := open_bytes w - 1\<rparr>)),
     LL_I2C_AcknowledgeNextData_NACK = id, LL_I2C_ClearFlag_NACK = (\<lambda>w. w\<lparr>base := base w + of_nat (now w), now := 0\<rparr>),
     LL_I2C_ClearFlag_STOP = (\<lambda>w. w\<lparr>open_mode := None\<rparr>), rounds = 2 ^ 32\<rparr>"

text \<open>The checks left until a timer of this clock expires; a timer that does not fit under its last value has none.\<close>

definition wire_left :: "cortex_timer \<Rightarrow> 'z wire_scheme \<Rightarrow> nat" where
  "wire_left t w =
     (let begun = unat (start t - base w) in
      if begun \<le> now w \<and> now w \<le> 2 ^ 32 - 1 \<and> begun + unat (ticks t) \<le> 2 ^ 32 - 1
      then unat (ticks t) - (now w - begun) else 2 ^ 32)"

lemma wire_left_same: "now w' = now w \<Longrightarrow> base w' = base w \<Longrightarrow> wire_left t w' = wire_left t w"
  by (simp add: wire_left_def Let_def)

lemma wire_left_next: "now w' = next_now (now w) \<Longrightarrow> base w' = base w \<Longrightarrow> wire_left t w' \<le> wire_left t w"
  using unat_u32_less [of "ticks t"] by (auto simp: wire_left_def next_now_def Let_def)

text \<open>A check that does not find the timer expired leaves one check less.\<close>

lemma wire_timer_step:
  assumes "wire_left t w < 2 ^ 32" and "expired I t w = (False, w')" and "cortex I = wire_cortex"
  shows "wire_left t w' < wire_left t w"
proof -
  let ?b = "unat (start t - base w)"
  have live: "?b \<le> now w" "now w \<le> 2 ^ 32 - 1" "?b + unat (ticks t) \<le> 2 ^ 32 - 1"
    using assms(1) by (auto simp: wire_left_def Let_def split: if_splits)
  have w': "w' = w\<lparr>now := next_now (now w)\<rparr>"
    and run: "base w + of_nat (now w) - start t < ticks t"
    using assms(2,3) by (auto simp: expired_def rhs_hal_cortex_timer_is_expired_def wire_cortex_def Let_def)
  show ?thesis
  proof (cases "now w < ?b + unat (ticks t)")
    case True
    then have "now w < 2 ^ 32 - 1" using live(3) by simp
    with w' True live show ?thesis by (simp add: wire_left_def next_now_def Let_def)
  next
    case False
    have m: "unat (ticks t) \<le> now w - ?b" using False live by simp
    have "base w + of_nat (now w) - start t = of_nat (now w) - of_nat ?b" by simp
    moreover have "unat (of_nat (now w) - of_nat ?b :: u32) = now w - ?b"
      using live(2) by (intro word_elapsed [OF live(1)]) simp
    ultimately have "unat (base w + of_nat (now w) - start t) = now w - ?b" by (simp only:)
    with run m show ?thesis by (simp add: word_less_nat_alt)
  qed
qed

interpretation wire: i2c_line "wire_ll :: 'z wire_scheme i2c_ll" wire_left written taken
  "\<lambda>w. (present w, answers w, wire.more w)" "\<lambda>(_, xs, _). answer xs"
proof (unfold_locales, goal_cases)
  case (1 t s s')
  then show ?case using wire_timer_step [OF _ 1(2)] by (simp add: wire_ll_def)
qed (auto simp: wire_ll_def wire_cortex_def Let_def intro: wire_left_next eq_refl [OF wire_left_same])

section \<open>Properties\<close>

text \<open>C12: A write on the bus always returns, whatever the peripheral and the device do: no wait of it outlives its timer,
  it stays inside its data, and the bytes it handed to the peripheral are the first bytes of the data in order, all of
  them when it reports success.\<close>

theorem i2c_tx_returns:
  assumes "i2c_line (regs E) left sent got view source" and "current_handle b = Some h"
    and "unat sz \<le> length data" and "timed (regs E) left timeout (ll b)"
  shows "\<exists>r b' k. rhs_hal_i2c_tx_ext E h a ten_bit data sz begn endn timeout b = Inr (r, b') \<and>
     current_handle b' = Some h \<and> k \<le> unat sz \<and> (r \<longrightarrow> k = unat sz) \<and> sent (ll b') = sent (ll b) @ take k data"
proof -
  obtain r s' k where "rhs_hal_i2c_tx_ext E h a ten_bit data sz begn endn timeout b = Inr (r, b\<lparr>ll := s'\<rparr>)"
    "k \<le> unat sz" "r \<longrightarrow> k = unat sz" "sent s' = sent (ll b) @ take k data"
    by (rule i2c_line.tx_ext_spec [OF assms(1) refl assms(2,3,4), of a ten_bit begn endn]) blast
  then show ?thesis using assms(2) by (intro exI [of _ r] exI [of _ "b\<lparr>ll := s'\<rparr>"] exI [of _ k]) simp
qed

definition wire_env :: "(wire, nat) i2c_env" where
  "wire_env = \<lparr>regs = wire_ll, i2c_mapi = plain_mutex, i2c_me = 1, i2c_cx = task_ctx,
     bus_clock = (\<lambda>_ s. s), handle_event = (\<lambda>_ _ s. s)\<rparr>"

definition wire_bus :: "bool \<Rightarrow> u8 list \<Rightarrow> (wire, nat) i2c_bus" where
  "wire_bus p xs = \<lparr>current_handle = Some 0, bus_mutex = None,
     ll = \<lparr>base = 0xFFFFFF00, now = 0, present = p, open_bytes = 0, open_mode = None, stuck = False, written = [], answers = xs, taken = []\<rparr>\<rparr>"

lemma wire_timed: "timed wire_ll wire_left 10 (ll (wire_bus p xs))"
  by (simp add: timed_def rhs_hal_cortex_timer_get_def wire_ll_def wire_cortex_def INSTRUCTIONS_PER_MICROSECOND_def
      UINT32_MAX_def wire_bus_def wire_left_def next_now_def)

lemma i2c_tx_returns_witness:
  "\<exists>r b' k. rhs_hal_i2c_tx_ext wire_env 0 0x50 False [1, 2, 3] 2 RHSHalI2cBeginStart RHSHalI2cEndStop 10 (wire_bus True []) = Inr (r, b') \<and>
     (r \<longrightarrow> written (ll b') = [1, 2])"
proof -
  have l: "i2c_line (regs wire_env) wire_left written taken (\<lambda>w. (present w, answers w, wire.more w)) (\<lambda>(_, xs, _). answer xs)"
    unfolding wire_env_def i2c_env.simps by (rule wire.i2c_line_axioms)
  have c: "current_handle (wire_bus True []) = Some 0" by (simp add: wire_bus_def)
  have t: "timed (regs wire_env) wire_left 10 (ll (wire_bus True []))" unfolding wire_env_def by (simp add: wire_timed)
  show ?thesis
    using i2c_tx_returns [OF l c _ t, where sz = 2 and data = "[1, 2, 3]" and a = "0x50" and ten_bit = False and begn = RHSHalI2cBeginStart and endn = RHSHalI2cEndStop]
    by (fastforce simp: wire_bus_def)
qed

text \<open>A read from the bus always returns; it writes nothing outside the first bytes of its buffer, and these are the
  bytes taken from the peripheral in order, as many as were asked for when it reports success.\<close>

theorem i2c_rx_in_bounds:
  assumes "i2c_line (regs E) left sent got view source" and "current_handle b = Some h"
    and "unat sz \<le> length buf" and "timed (regs E) left timeout (ll b)"
  shows "\<exists>r xs b'. rhs_hal_i2c_rx_ext E h a ten_bit buf sz begn endn timeout b = Inr ((r, xs @ drop (length xs) buf), b') \<and>
     current_handle b' = Some h \<and> length xs \<le> unat sz \<and> (r \<longrightarrow> length xs = unat sz) \<and> got (ll b') = got (ll b) @ xs"
proof -
  obtain r s' xs where "rhs_hal_i2c_rx_ext E h a ten_bit buf sz begn endn timeout b = Inr ((r, xs @ drop (length xs) buf), b\<lparr>ll := s'\<rparr>)"
    "length xs \<le> unat sz" "r \<longrightarrow> length xs = unat sz" "got s' = got (ll b) @ xs"
    by (rule i2c_line.rx_ext_spec [OF assms(1) refl assms(2,3,4), of a ten_bit begn endn]) blast
  then show ?thesis using assms(2) by (intro exI [of _ r] exI [of _ xs] exI [of _ "b\<lparr>ll := s'\<rparr>"]) simp
qed

lemma i2c_rx_in_bounds_witness:
  "\<exists>r xs b'. rhs_hal_i2c_rx_ext wire_env 0 0x50 False [0, 0, 9] 2 RHSHalI2cBeginStart RHSHalI2cEndStop 10 (wire_bus True [7, 8]) =
     Inr ((r, xs @ drop (length xs) [0, 0, 9]), b') \<and> (r \<longrightarrow> length xs = 2) \<and> taken (ll b') = xs"
proof -
  have l: "i2c_line (regs wire_env) wire_left written taken (\<lambda>w. (present w, answers w, wire.more w)) (\<lambda>(_, xs, _). answer xs)"
    unfolding wire_env_def i2c_env.simps by (rule wire.i2c_line_axioms)
  have c: "current_handle (wire_bus True [7, 8]) = Some 0" by (simp add: wire_bus_def)
  have t: "timed (regs wire_env) wire_left 10 (ll (wire_bus True [7, 8]))" unfolding wire_env_def by (simp add: wire_timed)
  show ?thesis
    using i2c_rx_in_bounds [OF l c _ t, where sz = 2 and buf = "[0, 0, 9]" and a = "0x50" and ten_bit = False and begn = RHSHalI2cBeginStart and endn = RHSHalI2cEndStop]
    by (fastforce simp: wire_bus_def)
qed

text \<open>The wait loops and the transfer loop, one round at a time for a numeral bound.\<close>

lemma loop_numerals:
  "rhs_hal_i2c_wait_for_idle (numeral v) I begn timer s =
     (let (x, s1) = expired I timer s in
      if x then Inr (False, s1)
      else if begn \<noteq> RHSHalI2cBeginStart then Inr (True, s1)
      else let (busy, s2) = flag I BUSY s1 in
        if busy then rhs_hal_i2c_wait_for_idle (pred_numeral v) I begn timer s2 else Inr (True, s2))"
  "rhs_hal_i2c_wait_for_end (numeral v) I endn timer s =
     (let (over, s1) = flag I (end_mask endn) s in
      if over then Inr (True, s1)
      else let (x, s2) = expired I timer s1 in
        if x then Inr (False, s2) else rhs_hal_i2c_wait_for_end (pred_numeral v) I endn timer s2)"
  "drain (numeral v) I timer s =
     (let (complete, s1) = or_else (flag I TC) (flag I TCR) s in
      if complete then Inr s1
      else let (brk, s2) = stop_or_late I timer s1 in
        if brk then Inr s2 else drain (pred_numeral v) I timer s2)"
  "transfer_loop (numeral v) I buf pos sz endn read timer s =
     (if sz = 0 then Inr ((True, buf), s)
      else let (should_stop, s1) = stop_or_late I timer s in
        rbind (if read then receive_round I buf pos sz endn s1 else send_round I buf pos sz timer s1)
          (\<lambda>((buf', pos', sz'), s2).
        if should_stop then Inr ((sz' = 0, buf'), s2)
        else transfer_loop (pred_numeral v) I buf' pos' sz' endn read timer s2))"
  unfolding numeral_eq_Suc
  by (rule rhs_hal_i2c_wait_for_idle.simps(2), rule rhs_hal_i2c_wait_for_end.simps(2), rule drain.simps(2),
      rule transfer_loop.simps(2))

text \<open>A write of one byte to an address where no device answers reports success: the byte goes into the empty data
  register before the address is refused, and neither the wait after the last byte nor the wait for the end look at
  the refusal.\<close>

theorem i2c_tx_hides_nack:
  "\<exists>b'. rhs_hal_i2c_tx wire_env 0 address [x] 1 10 (wire_bus False []) = Inr (True, b')"
  by (simp add: rhs_hal_i2c_tx_def rhs_hal_i2c_tx_ext_def transact_def rhs_hal_i2c_transaction_def rhs_hal_i2c_transfer_def
      loop_numerals expired_def rhs_hal_cortex_timer_is_expired_def rhs_hal_cortex_timer_get_def flag_def wire_flags_def
      wire_env_def wire_bus_def wire_ll_def wire_cortex_def next_now_def stop_or_late_def or_else_def
      rhs_hal_i2c_transfer_is_aborted_def send_round_def end_mask_def INSTRUCTIONS_PER_MICROSECOND_def UINT32_MAX_def Let_def)

end
