(* ===== verification/Eeprom.thy ===== *)
theory Eeprom
  imports I2c Kernel Paged_Memory
begin

text \<open>
  The EEPROM driver of drivers/eeprom/eeprom.c over the I2C master. The locale
  \<open>eeprom_line\<close> extends the line by the memory chip on it: a frame of address and data bytes is
  written into one page at its stop, the chip does not answer until it has written, and a read
  continues at the address of the last frame. The lemmas show that the driver writes a run
  of bytes page by page so that the chip holds it, and reads it back.
\<close>

section \<open>The driver\<close>

datatype eeprom_status = EepromStatusOk | EepromStatusError | EepromStatusTimeout
  | EepromStatusInvalidParam | EepromStatusDeviceNotReady

record eeprom =
  i2c_handle :: "nat option"
  i2c_address :: u8
  eeprom_size :: u32
  page_size :: u16
  address_size :: u8
  write_delay_ms :: u8
  timeout_ms :: u32

text \<open>The bus, the tick conversion of \<open>rhs_delay_ms\<close> and what a delay does to the state.\<close>

record ('s, 't) eeprom_env =
  i2c :: "('s, 't) i2c_env"
  tick_scale :: "u32 \<Rightarrow> u32 \<Rightarrow> u32"
  tick_hz :: u32
  perform :: "delay_call \<Rightarrow> 's \<Rightarrow> 's"

definition eeprom_init :: "eeprom option \<Rightarrow> eeprom_status" where
  "eeprom_init e = (case e of None \<Rightarrow> EepromStatusInvalidParam
   | Some e \<Rightarrow>
     if i2c_handle e = None \<or> eeprom_size e = 0 \<or> page_size e = 0 \<or> timeout_ms e = 0 then EepromStatusInvalidParam
     else if i2c_address e > 0x7F then EepromStatusInvalidParam
     else if address_size e \<noteq> 1 \<and> address_size e \<noteq> 2 then EepromStatusInvalidParam
     else EepromStatusOk)"

text \<open>The bytes of \<open>addr_buf\<close> that are sent.\<close>

definition addr_buf :: "eeprom \<Rightarrow> u16 \<Rightarrow> u8 list" where
  "addr_buf e a =
     (if address_size e = 1 then [ucast (a AND 0xFF)]
      else [ucast (drop_bit 8 a AND 0xFF), ucast (a AND 0xFF)])"

definition addr_buf_size :: "eeprom \<Rightarrow> u32" where
  "addr_buf_size e = (if address_size e = 1 then 1 else 2)"

text \<open>The calls below read the bus through the handle; a null handle is a fault.\<close>

definition on_handle :: "eeprom \<Rightarrow> (nat \<Rightarrow> 'a res) \<Rightarrow> 'a res" where
  "on_handle e k = (case i2c_handle e of None \<Rightarrow> Inl OutOfBounds | Some h \<Rightarrow> k h)"

definition eeprom_read ::
  "('s, 't) eeprom_env \<Rightarrow> eeprom option \<Rightarrow> u16 \<Rightarrow> u8 list option \<Rightarrow> u32 \<Rightarrow> ('s, 't) i2c_bus \<Rightarrow>
     ((eeprom_status \<times> u8 list option) \<times> ('s, 't) i2c_bus) res" where
  "eeprom_read E eeprom address data sz b = (case (eeprom, data) of
     (Some e, Some buf) \<Rightarrow>
       if sz = 0 then Inr ((EepromStatusInvalidParam, data), b)
       else if ucast address + sz > eeprom_size e then Inr ((EepromStatusInvalidParam, data), b)
       else on_handle e (\<lambda>h.
         rbind (rhs_hal_i2c_trx (i2c E) h (i2c_address e) (addr_buf e address) (addr_buf_size e) buf sz (timeout_ms e) b)
           (\<lambda>((success, buf'), b').
         Inr ((if success then EepromStatusOk else EepromStatusError, Some buf'), b')))
   | _ \<Rightarrow> Inr ((EepromStatusInvalidParam, data), b))"

text \<open>One page: its address, then its data in the same frame, then the write cycle of the chip.\<close>

definition bytes_to_page_end :: "eeprom \<Rightarrow> u16 \<Rightarrow> u16" where
  "bytes_to_page_end e current =
     (let page_start = (current div page_size e) * page_size e; page_end = page_start + page_size e in page_end - current)"

definition bytes_to_write :: "eeprom \<Rightarrow> u16 \<Rightarrow> u32 \<Rightarrow> u32" where
  "bytes_to_write e current remaining =
     (if remaining < ucast (bytes_to_page_end e current) then remaining else ucast (bytes_to_page_end e current))"

definition send_page ::
  "('s, 't) eeprom_env \<Rightarrow> eeprom \<Rightarrow> u16 \<Rightarrow> u8 list \<Rightarrow> u32 \<Rightarrow> ('s, 't) i2c_bus \<Rightarrow> (bool \<times> ('s, 't) i2c_bus) res" where
  "send_page E e current data n b = on_handle e (\<lambda>h.
     rbind (rhs_hal_i2c_tx_ext (i2c E) h (ucast (i2c_address e)) False (addr_buf e current) (addr_buf_size e)
         RHSHalI2cBeginStart RHSHalI2cEndPause (timeout_ms e) b) (\<lambda>(success, b1).
     if success then
       rhs_hal_i2c_tx_ext (i2c E) h (ucast (i2c_address e)) False data n
         RHSHalI2cBeginResume RHSHalI2cEndStop (timeout_ms e) b1
     else Inr (False, b1)))"

definition wait_written :: "('s, 't) eeprom_env \<Rightarrow> eeprom \<Rightarrow> 's \<Rightarrow> 's res" where
  "wait_written E e s =
     rbind (rhs_delay_ms (tick_scale E) (tick_hz E) (i2c_cx (i2c E)) (ucast (write_delay_ms e))) (\<lambda>d.
     Inr (case d of None \<Rightarrow> s | Some c \<Rightarrow> perform E c s))"

text \<open>The sizes of the pages written always make progress, so the loop ends; a page size of 0 is a division by 0.\<close>

lemma unat_bytes_to_page_end:
  assumes "page_size e \<noteq> 0"
  shows "unat (bytes_to_page_end e a) = unat (page_size e) - unat a mod unat (page_size e)"
proof -
  let ?P = "unat (page_size e)" and ?a = "unat a"
  have P: "0 < ?P" using assms by (simp add: unat_gt_0)
  have le: "?a mod ?P \<le> ?P" using P by (simp add: less_imp_le)
  have "of_nat (?a div ?P * ?P) = (a div page_size e) * page_size e" by (simp add: unat_div [symmetric])
  moreover have "?a div ?P * ?P + ?a mod ?P = ?a" by simp
  ultimately have "(a div page_size e) * page_size e + of_nat (?a mod ?P) = (of_nat ?a :: u16)"
    by (metis of_nat_add)
  then have "bytes_to_page_end e a = page_size e - of_nat (?a mod ?P)"
    by (simp add: bytes_to_page_end_def Let_def algebra_simps)
  then have "bytes_to_page_end e a = of_nat (?P - ?a mod ?P)" using le by (simp add: of_nat_diff)
  moreover have "?P - ?a mod ?P < 2 ^ LENGTH(16)" using unat_u16_less [of "page_size e"] by simp
  ultimately show ?thesis by (simp add: unat_of_nat)
qed

lemma unat_bytes_to_write:
  assumes "page_size e \<noteq> 0"
  shows "unat (bytes_to_write e a n) = min (unat n) (unat (page_size e) - unat a mod unat (page_size e))"
proof -
  have "unat (ucast (bytes_to_page_end e a) :: u32) = unat (page_size e) - unat a mod unat (page_size e)"
    by (simp add: unat_bytes_to_page_end [OF assms])
  then show ?thesis by (simp add: bytes_to_write_def word_less_nat_alt)
qed

lemma bytes_to_write_pos: "page_size e \<noteq> 0 \<Longrightarrow> n \<noteq> 0 \<Longrightarrow> 0 < unat (bytes_to_write e a n)"
  by (simp add: unat_bytes_to_write unat_gt_0)


function write_pages ::
  "('s, 't) eeprom_env \<Rightarrow> eeprom \<Rightarrow> u16 \<Rightarrow> u8 list \<Rightarrow> u32 \<Rightarrow> ('s, 't) i2c_bus \<Rightarrow> (eeprom_status \<times> ('s, 't) i2c_bus) res" where
  "write_pages E e current data remaining b =
     (if remaining = 0 then Inr (EepromStatusOk, b)
      else if page_size e = 0 then Inl DivisionByZero
      else let n = bytes_to_write e current remaining in
        rbind (send_page E e current data n b) (\<lambda>(success, b1).
        if \<not> success then Inr (EepromStatusError, b1)
        else rbind (wait_written E e (ll b1)) (\<lambda>s.
          write_pages E e (current + ucast n) (drop (unat n) data) (remaining - n) (b1\<lparr>ll := s\<rparr>))))"
  by pat_completeness auto

termination write_pages
proof (relation "measure (\<lambda>(E, e, current, data, remaining, b). unat remaining)", goal_cases)
  case (2 E e current data remaining b n)
  then have "0 < unat n" "unat n \<le> unat remaining"
    using bytes_to_write_pos [of e remaining current] by (simp_all add: unat_bytes_to_write)
  then show ?case by (simp add: unat_sub word_le_nat_alt)
qed simp

definition eeprom_write ::
  "('s, 't) eeprom_env \<Rightarrow> eeprom option \<Rightarrow> u16 \<Rightarrow> u8 list option \<Rightarrow> u32 \<Rightarrow> ('s, 't) i2c_bus \<Rightarrow>
     (eeprom_status \<times> ('s, 't) i2c_bus) res" where
  "eeprom_write E eeprom address data sz b = (case (eeprom, data) of
     (Some e, Some xs) \<Rightarrow>
       if sz = 0 then Inr (EepromStatusInvalidParam, b)
       else if ucast address + sz > eeprom_size e then Inr (EepromStatusInvalidParam, b)
       else write_pages E e address xs sz b
   | _ \<Rightarrow> Inr (EepromStatusInvalidParam, b))"

declare write_pages.simps [simp del]

section \<open>The chip on the line\<close>

text \<open>The address a chip reads from the first bytes of a frame, most significant byte first.\<close>

definition addr_value :: "u8 list \<Rightarrow> nat" where
  "addr_value bs = foldl (\<lambda>v x. v * 256 + unat x) 0 bs"

definition target :: "eeprom \<Rightarrow> u32" where
  "target e = push_bit 1 (ucast (ucast (i2c_address e) :: u16))"

text \<open>The geometry of a supported chip: its addresses fit into the address bytes, its pages into one transfer.\<close>

definition geometry :: "eeprom \<Rightarrow> bool" where
  "geometry e \<longleftrightarrow> 0 < page_size e \<and> page_size e \<le> 255 \<and>
     unat (eeprom_size e) \<le> (if address_size e = 1 then 256 else 65536)"

lemma addr_buf_length: "length (addr_buf e a) = unat (addr_buf_size e)"
  by (simp add: addr_buf_def addr_buf_size_def)

lemma unat_low_byte: "unat (ucast (a AND 0xFF) :: u8) = unat a mod 256" for a :: u16
proof -
  have m: "(0xFF :: u16) = mask 8" by (simp add: mask_eq_exp_minus_1)
  have "(ucast (a AND 0xFF) :: u8) = ucast a" unfolding m by (rule bit_word_eqI) (auto simp: bit_simps)
  then show ?thesis by (simp add: unat_ucast_mod)
qed

lemma addr_value_buf:
  assumes "geometry e" and "unat a < unat (eeprom_size e)"
  shows "addr_value (addr_buf e a) = unat a"
proof -
  have "unat (drop_bit 8 a) = unat a div 256"
    by (simp add: unsigned_drop_bit_eq drop_bit_eq_div unat_div)
  then have "unat (drop_bit 8 a) < 256" using unat_u16_less [of a] by simp
  then have "unat a div 256 mod 256 * 256 + unat a mod 256 = unat a"
    using \<open>unat (drop_bit 8 a) = unat a div 256\<close> by simp
  then show ?thesis
    using assms unat_low_byte [of a] unat_low_byte [of "drop_bit 8 a"] \<open>unat (drop_bit 8 a) = unat a div 256\<close>
    by (auto simp: addr_value_def addr_buf_def geometry_def split: if_splits)
qed

text \<open>
  \<open>mem\<close> is the contents of the chip, \<open>ready\<close> says that it answers its address (it does not
  during its write cycle), \<open>frame\<close> is the place in the bytes sent where the frame that is
  being written to it began, \<open>cursor\<close> the address a read starts at. A frame is written at its
  stop, into one page; a frame without data only sets the cursor. The wait of the driver
  outlasts the write cycle, and every call finds the timer with room for its timeout.
\<close>

locale eeprom_line = i2c_line I left sent got view source
  for I :: "'s i2c_ll" and left sent got and view :: "'s \<Rightarrow> 'v" and source +
  fixes E :: "('s, 't) eeprom_env" and e :: eeprom and h :: nat
    and mem :: "'v \<Rightarrow> nat \<Rightarrow> u8" and ready :: "'v \<Rightarrow> bool" and frame :: "'v \<Rightarrow> nat option" and cursor :: "'v \<Rightarrow> nat"
  assumes registers: "I = regs (i2c E)" and handle_of: "i2c_handle e = Some h" and geometry: "geometry e"
    and write_frame: "ready (view s) \<Longrightarrow> unat n \<le> 255 \<Longrightarrow>
      v = view (LL_I2C_HandleTransfer I (target e) n m GENERATE_START_WRITE s) \<Longrightarrow>
      mem v = mem (view s) \<and> ready v \<and> frame v = Some (length (sent s))"
    and resumed: "frame (view s) = Some f \<Longrightarrow> unat n \<le> 255 \<Longrightarrow>
      view (LL_I2C_HandleTransfer I (target e) n m GENERATE_NOSTARTSTOP s) = view s"
    and paused: "view (LL_I2C_ClearFlag_NACK I s) = view s"
    and delivered: "frame (view s) = Some f \<Longrightarrow> a = take (unat (addr_buf_size e)) (drop f (sent s)) \<Longrightarrow>
      length a = unat (addr_buf_size e) \<Longrightarrow> data = drop (f + length a) (sent s) \<Longrightarrow> v = view (LL_I2C_ClearFlag_STOP I s) \<Longrightarrow>
      mem v = page_store (\<lambda>_ x. x) (unat (page_size e)) (mem (view s)) (addr_value a) data \<and>
      cursor v = addr_value a + length data \<and> (ready (view s) \<and> data = [] \<longrightarrow> ready v)"
    and read_frame: "ready (view s) \<Longrightarrow> unat n \<le> 255 \<Longrightarrow>
      v = view (LL_I2C_HandleTransfer I (target e) n m GENERATE_START_READ s) \<Longrightarrow>
      mem v = mem (view s) \<and> ready v \<and> frame v = None \<and>
      (\<forall>k. cursor (view s) + k < unat (eeprom_size e) \<longrightarrow> source v (length (got s) + k) = mem v (cursor (view s) + k))"
    and read_end: "frame (view s) = None \<Longrightarrow> v = view (LL_I2C_ClearFlag_STOP I s) \<Longrightarrow>
      mem v = mem (view s) \<and> (ready (view s) \<longrightarrow> ready v)"
    and settled: "\<exists>s'. wait_written E e s = Inr s' \<and> mem (view s') = mem (view s) \<and> ready (view s') \<and>
      (timed I left (timeout_ms e) s \<longrightarrow> timed I left (timeout_ms e) s')"
    and fresh: "timed I left (timeout_ms e) (finish I endn s)"
    and patient: "timed I left (timeout_ms e) s \<Longrightarrow> given_up I (timeout_ms e) RHSHalI2cBeginStart s s' \<Longrightarrow>
      timed I left (timeout_ms e) s'"
begin

text \<open>A bus on which the chip can be called.\<close>

definition callable :: "('s, 't) i2c_bus \<Rightarrow> bool" where
  "callable b \<longleftrightarrow> current_handle b = Some h \<and> ready (view (ll b)) \<and> timed I left (timeout_ms e) (ll b)"

lemma addr_small: "unat (addr_buf_size e) \<le> 255"
  by (simp add: addr_buf_size_def)

text \<open>The address bytes, as the first part of a frame that stays open or as a frame of their own.\<close>

lemma address_sent:
  assumes "callable b" and "endn \<in> {RHSHalI2cEndPause, RHSHalI2cEndStop}"
  obtains r s' where "rhs_hal_i2c_tx_ext (i2c E) h (ucast (i2c_address e)) False (addr_buf e a) (addr_buf_size e)
      RHSHalI2cBeginStart endn (timeout_ms e) b = Inr (r, b\<lparr>ll := s'\<rparr>)"
    "timed I left (timeout_ms e) s'" "r \<Longrightarrow> mem (view s') = mem (view (ll b))" "r \<Longrightarrow> ready (view s')"
    "r \<Longrightarrow> sent s' = sent (ll b) @ addr_buf e a" "got s' = got (ll b)"
    "r \<Longrightarrow> endn = RHSHalI2cEndPause \<Longrightarrow> frame (view s') = Some (length (sent (ll b)))"
    "r \<Longrightarrow> endn = RHSHalI2cEndStop \<Longrightarrow> cursor (view s') = addr_value (addr_buf e a)"
proof -
  have c: "current_handle b = Some h" "ready (view (ll b))" "timed I left (timeout_ms e) (ll b)"
    using assms(1) by (simp_all add: callable_def)
  have len: "unat (addr_buf_size e) \<le> length (addr_buf e a)" by (simp add: addr_buf_length)
  obtain r s' k where 1: "rhs_hal_i2c_tx_ext (i2c E) h (ucast (i2c_address e)) False (addr_buf e a) (addr_buf_size e)
      RHSHalI2cBeginStart endn (timeout_ms e) b = Inr (r, b\<lparr>ll := s'\<rparr>)"
    "r \<longrightarrow> k = unat (addr_buf_size e)" "sent s' = sent (ll b) @ take k (addr_buf e a)" "got s' = got (ll b)"
    "r \<longrightarrow> (\<exists>s1 s2. quiet (ll b) s1 \<and> s' = finish I endn s2 \<and> sent s2 = sent s' \<and> view s2 = view
       (LL_I2C_HandleTransfer I (target e) (addr_buf_size e) (rhs_hal_i2c_get_end_signal endn) GENERATE_START_WRITE s1))"
    "(\<exists>s2. s' = finish I endn s2) \<or> given_up I (timeout_ms e) RHSHalI2cBeginStart (ll b) s'"
    by (rule tx_ext_spec [OF registers c(1) len c(3), of "ucast (i2c_address e)" False RHSHalI2cBeginStart endn])
      (simp add: target_def rhs_hal_i2c_get_start_signal_def)
  have timed: "timed I left (timeout_ms e) s'" using 1(6) fresh patient c(3) by blast
  show thesis
  proof (cases r)
    case False
    then show thesis using 1(1,4) timed by (intro that [of r s']) simp_all
  next
    case True
    then obtain s1 s2 where 2: "quiet (ll b) s1" "s' = finish I endn s2" "sent s2 = sent s'" "view s2 = view
       (LL_I2C_HandleTransfer I (target e) (addr_buf_size e) (rhs_hal_i2c_get_end_signal endn) GENERATE_START_WRITE s1)"
      using 1(5) by blast
    have snt: "sent s' = sent (ll b) @ addr_buf e a" using 1(2,3) True by (simp add: addr_buf_length)
    have v: "mem (view s2) = mem (view (ll b))" "ready (view s2)" "frame (view s2) = Some (length (sent (ll b)))"
      using write_frame [OF _ addr_small 2(4)] 2(1) c(2) by (simp_all add: quiet_def)
    let ?s3 = "LL_I2C_ClearFlag_NACK I s2"
    have v3: "view ?s3 = view s2" "sent ?s3 = sent s2" using paused clear by simp_all
    have "mem (view s') = mem (view s2) \<and> ready (view s') \<and>
        (endn = RHSHalI2cEndPause \<longrightarrow> frame (view s') = frame (view s2)) \<and>
        (endn = RHSHalI2cEndStop \<longrightarrow> cursor (view s') = addr_value (addr_buf e a))"
    proof (cases "endn = RHSHalI2cEndStop")
      case False
      then have "s' = ?s3" using 2(2) by (simp add: finish_def Let_def)
      then show ?thesis using False v(2) v3(1) by simp
    next
      case True
      then have s': "s' = LL_I2C_ClearFlag_STOP I ?s3" using 2(2) by (simp add: finish_def Let_def)
      have "mem (view s') = page_store (\<lambda>_ x. x) (unat (page_size e)) (mem (view ?s3)) (addr_value (addr_buf e a)) [] \<and>
        cursor (view s') = addr_value (addr_buf e a) + length ([] :: u8 list) \<and> (ready (view ?s3) \<and> ([] :: u8 list) = [] \<longrightarrow> ready (view s'))"
        by (rule delivered [where f = "length (sent (ll b))" and s = ?s3])
          (use v v3 2(3) snt s' in \<open>simp_all add: addr_buf_length\<close>)
      then show ?thesis using True v(2) v3(1) by (simp add: page_store_Nil)
    qed
    with v show thesis using 1(1,4) snt timed by (intro that [of r s']) auto
  qed
qed

text \<open>A run that stays inside a page is written as it is.\<close>

lemma page_sent:
  assumes "callable b" and "unat a < unat (eeprom_size e)" and "unat n \<le> length data"
    and "unat a mod unat (page_size e) + unat n \<le> unat (page_size e)"
  obtains r s' where "send_page E e a data n b = Inr (r, b\<lparr>ll := s'\<rparr>)"
    "r \<Longrightarrow> timed I left (timeout_ms e) s'"
    "r \<Longrightarrow> mem (view s') = store (\<lambda>_ x. x) (mem (view (ll b))) (unat a) (take (unat n) data)"
proof -
  have h: "current_handle b = Some h" using assms(1) by (simp add: callable_def)
  obtain r1 s1 where 1: "rhs_hal_i2c_tx_ext (i2c E) h (ucast (i2c_address e)) False (addr_buf e a) (addr_buf_size e)
      RHSHalI2cBeginStart RHSHalI2cEndPause (timeout_ms e) b = Inr (r1, b\<lparr>ll := s1\<rparr>)"
    "timed I left (timeout_ms e) s1" "r1 \<Longrightarrow> mem (view s1) = mem (view (ll b))"
    "r1 \<Longrightarrow> sent s1 = sent (ll b) @ addr_buf e a" "r1 \<Longrightarrow> frame (view s1) = Some (length (sent (ll b)))"
    by (rule address_sent [OF assms(1), of RHSHalI2cEndPause a]) simp_all
  show thesis
  proof (cases r1)
    case False
    then show thesis using 1(1) handle_of
      by (intro that [of False s1]) (simp_all add: send_page_def on_handle_def)
  next
    case True
    let ?b1 = "b\<lparr>ll := s1\<rparr>"
    have P: "0 < unat (page_size e)" "unat (page_size e) \<le> 255"
      using geometry by (simp_all add: geometry_def unat_gt_0 word_greater_zero_iff word_le_nat_alt)
    have n: "unat n \<le> 255" using assms(4) P by simp
    obtain r2 s2 k where 2: "rhs_hal_i2c_tx_ext (i2c E) h (ucast (i2c_address e)) False data n
        RHSHalI2cBeginResume RHSHalI2cEndStop (timeout_ms e) ?b1 = Inr (r2, ?b1\<lparr>ll := s2\<rparr>)"
      "r2 \<longrightarrow> k = unat n" "sent s2 = sent s1 @ take k data"
      "r2 \<longrightarrow> (\<exists>t1 t2. quiet s1 t1 \<and> s2 = finish I RHSHalI2cEndStop t2 \<and> sent t2 = sent s2 \<and> view t2 = view
         (LL_I2C_HandleTransfer I (target e) n MODE_AUTOEND GENERATE_NOSTARTSTOP t1))"
      by (rule tx_ext_spec [OF registers _ assms(3), of ?b1 h "timeout_ms e" "ucast (i2c_address e)" False
          RHSHalI2cBeginResume RHSHalI2cEndStop])
        (use h 1(2) True in \<open>simp_all add: target_def rhs_hal_i2c_get_start_signal_def rhs_hal_i2c_get_end_signal_def\<close>)
    have run: "send_page E e a data n b = Inr (r2, b\<lparr>ll := s2\<rparr>)"
      using 1(1) 2(1) True handle_of by (simp add: send_page_def on_handle_def)
    show thesis
    proof (cases r2)
      case False
      then show thesis using run by (intro that [of r2 s2]) simp_all
    next
      case r2: True
      then obtain t1 t2 where 3: "quiet s1 t1" "s2 = finish I RHSHalI2cEndStop t2" "sent t2 = sent s2" "view t2 = view
         (LL_I2C_HandleTransfer I (target e) n MODE_AUTOEND GENERATE_NOSTARTSTOP t1)"
        using 2(4) by blast
      have "view t1 = view s1" "frame (view t1) = Some (length (sent (ll b)))"
        using 3(1) 1(5) True by (simp_all add: quiet_def)
      then have v: "view t2 = view s1" using 3(4) resumed [OF _ n] by simp
      let ?t3 = "LL_I2C_ClearFlag_NACK I t2"
      have t3: "frame (view ?t3) = Some (length (sent (ll b)))" "mem (view ?t3) = mem (view (ll b))"
        "sent ?t3 = sent (ll b) @ addr_buf e a @ take (unat n) data"
        using v paused clear 1(3,4,5) True 2(2,3) r2 3(3) by simp_all
      have s2: "s2 = LL_I2C_ClearFlag_STOP I ?t3" using 3(2) by (simp add: finish_def Let_def)
      have "mem (view s2) = page_store (\<lambda>_ x. x) (unat (page_size e)) (mem (view ?t3)) (addr_value (addr_buf e a)) (take (unat n) data) \<and>
        cursor (view s2) = addr_value (addr_buf e a) + length (take (unat n) data) \<and>
        (ready (view ?t3) \<and> take (unat n) data = [] \<longrightarrow> ready (view s2))"
        by (rule delivered [OF t3(1)]) (use t3(3) s2 in \<open>simp_all add: addr_buf_length\<close>)
      then have "mem (view s2) = store (\<lambda>_ x. x) (mem (view (ll b))) (unat a) (take (unat n) data)"
        using addr_value_buf [OF geometry assms(2)] page_store_fits [OF P(1), of "unat a" "take (unat n) data"] assms(3,4) t3(2)
        by simp
      then show thesis using run 3(2) fresh by (intro that [of r2 s2]) simp_all
    qed
  qed
qed

text \<open>The driver writes the whole run, page by page, and always returns.\<close>

lemma pages_written:
  assumes "callable b" and "unat a + unat n \<le> unat (eeprom_size e)" and "unat n \<le> length data"
  shows "\<exists>r b'. write_pages E e a data n b = Inr (r, b') \<and> (r = EepromStatusOk \<or> r = EepromStatusError) \<and>
    current_handle b' = Some h \<and>
    (r = EepromStatusOk \<longrightarrow> (n \<noteq> 0 \<longrightarrow> callable b') \<and> mem (view (ll b')) = store (\<lambda>_ x. x) (mem (view (ll b))) (unat a) (take (unat n) data))"
  using assms
proof (induction "unat n" arbitrary: a data n b rule: less_induct)
  case less
  let ?P = "unat (page_size e)" and ?m = "bytes_to_write e a n"
  have P: "0 < ?P" "page_size e \<noteq> 0" using geometry by (auto simp: geometry_def unat_gt_0 word_greater_zero_iff)
  show ?case
  proof (cases "n = 0")
    case True
    then show ?thesis using less.prems(1) by (simp add: write_pages.simps callable_def)
  next
    case False
    have m: "0 < unat ?m" "unat ?m \<le> unat n" "unat a mod ?P + unat ?m \<le> ?P"
      using bytes_to_write_pos [OF P(2) False] room_in_page [OF P(1)] by (simp_all add: unat_bytes_to_write [OF P(2)])
    have inside: "unat a < unat (eeprom_size e)" "unat ?m \<le> length data" using m less.prems(2,3) False by simp_all
    obtain r s1 where 1: "send_page E e a data ?m b = Inr (r, b\<lparr>ll := s1\<rparr>)"
      "r \<Longrightarrow> timed I left (timeout_ms e) s1"
      "r \<Longrightarrow> mem (view s1) = store (\<lambda>_ x. x) (mem (view (ll b))) (unat a) (take (unat ?m) data)"
      by (rule page_sent [OF less.prems(1) inside m(3)]) blast
    have h: "current_handle b = Some h" using less.prems(1) by (simp add: callable_def)
    show ?thesis
    proof (cases r)
      case False
      then show ?thesis using 1(1) \<open>n \<noteq> 0\<close> P(2) h by (simp add: write_pages.simps [of E e a data n b] Let_def)
    next
      case True
      obtain s2 where 2: "wait_written E e s1 = Inr s2" "mem (view s2) = mem (view s1)" "ready (view s2)" "timed I left (timeout_ms e) s2"
        using settled [of s1] 1(2) True by blast
      let ?b2 = "b\<lparr>ll := s2\<rparr>"
      have b2: "callable ?b2" using 2(3,4) h by (simp add: callable_def)
      have rest: "unat (n - ?m) = unat n - unat ?m" using m(2) by (simp add: unat_sub word_le_nat_alt)
      have len: "length (take (unat ?m) data) = unat ?m" using inside(2) by simp
      have eq: "write_pages E e a data n b = write_pages E e (a + ucast ?m) (drop (unat ?m) data) (n - ?m) ?b2"
        using 1(1) 2(1) True \<open>n \<noteq> 0\<close> P(2) by (simp add: write_pages.simps [of E e a data n b] Let_def)
      show ?thesis
      proof (cases "n - ?m = 0")
        case True
        then have "unat ?m = unat n" by simp
        then show ?thesis using eq True 1(3) \<open>r\<close> 2(2) b2 h by (simp add: write_pages.simps)
      next
        case more: False
        have size: "unat (eeprom_size e) \<le> 65536" using geometry by (auto simp: geometry_def split: if_splits)
        have "unat ?m \<noteq> unat n" using more word_unat_eq_iff [of ?m n] by auto
        then have "unat a + unat ?m < 65536" using m(2) less.prems(2) size by simp
        then have onward: "unat (a + ucast ?m) = unat a + unat ?m" by (simp add: unat_word_ariths unat_ucast_mod)
        have "\<exists>r b'. write_pages E e (a + ucast ?m) (drop (unat ?m) data) (n - ?m) ?b2 = Inr (r, b') \<and>
          (r = EepromStatusOk \<or> r = EepromStatusError) \<and> current_handle b' = Some h \<and>
          (r = EepromStatusOk \<longrightarrow> (n - ?m \<noteq> 0 \<longrightarrow> callable b') \<and> mem (view (ll b')) =
            store (\<lambda>_ x. x) (mem (view (ll ?b2))) (unat (a + ucast ?m)) (take (unat (n - ?m)) (drop (unat ?m) data)))"
          by (rule less.hyps [OF _ b2]) (use rest onward m less.prems(2,3) in simp_all)
        moreover have "store (\<lambda>_ x. x) (mem (view (ll ?b2))) (unat (a + ucast ?m)) (take (unat (n - ?m)) (drop (unat ?m) data)) =
          store (\<lambda>_ x. x) (mem (view (ll b))) (unat a) (take (unat n) data)"
          using store_append [of "\<lambda>_ x. x" "mem (view (ll b))" "unat a" "take (unat ?m) data"] len rest m(2) onward 1(3) 2(2) \<open>r\<close>
          by (simp add: take_add [symmetric])
        ultimately show ?thesis unfolding eq using more False by metis
      qed
    qed
  qed
qed

text \<open>A read addresses the chip with an empty frame and takes the bytes from there on.\<close>

lemma run_read:
  assumes "callable b" and "unat a + unat n \<le> unat (eeprom_size e)" and "n \<noteq> 0" and "unat n \<le> 255" and "unat n \<le> length buf"
  shows "\<exists>r xs b'. rhs_hal_i2c_trx (i2c E) h (i2c_address e) (addr_buf e a) (addr_buf_size e) buf n (timeout_ms e) b =
      Inr ((r, xs @ drop (length xs) buf), b') \<and> current_handle b' = Some h \<and> length xs \<le> unat n \<and>
    (r \<longrightarrow> xs = map (mem (view (ll b))) [unat a ..< unat a + unat n] \<and> callable b' \<and> mem (view (ll b')) = mem (view (ll b)))"
proof -
  have h: "current_handle b = Some h" using assms(1) by (simp add: callable_def)
  have a: "unat a < unat (eeprom_size e)" using assms(2,3) unat_gt_0 [of n] by linarith
  obtain r1 s1 where 1: "rhs_hal_i2c_tx_ext (i2c E) h (ucast (i2c_address e)) False (addr_buf e a) (addr_buf_size e)
      RHSHalI2cBeginStart RHSHalI2cEndStop (timeout_ms e) b = Inr (r1, b\<lparr>ll := s1\<rparr>)"
    "timed I left (timeout_ms e) s1" "r1 \<Longrightarrow> mem (view s1) = mem (view (ll b))" "r1 \<Longrightarrow> ready (view s1)"
    "r1 \<Longrightarrow> cursor (view s1) = addr_value (addr_buf e a)"
    by (rule address_sent [OF assms(1), of RHSHalI2cEndStop a]) simp_all
  let ?b1 = "b\<lparr>ll := s1\<rparr>"
  obtain r2 s2 xs where 2: "rhs_hal_i2c_rx_ext (i2c E) h (ucast (i2c_address e)) False buf n
      RHSHalI2cBeginStart RHSHalI2cEndStop (timeout_ms e) ?b1 = Inr ((r2, xs @ drop (length xs) buf), ?b1\<lparr>ll := s2\<rparr>)"
    "length xs \<le> unat n"
    "r2 \<longrightarrow> (\<exists>t1 t2. quiet s1 t1 \<and> s2 = finish I RHSHalI2cEndStop t2 \<and> sent t2 = sent s2 \<and>
       view t2 = view (LL_I2C_HandleTransfer I (target e) n MODE_AUTOEND GENERATE_START_READ t1) \<and>
       xs = map (source (view t2)) [length (got s1) ..< length (got s1) + unat n])"
    by (rule rx_ext_spec [OF registers _ assms(5), of ?b1 h "timeout_ms e" "ucast (i2c_address e)" False
        RHSHalI2cBeginStart RHSHalI2cEndStop])
      (use h 1(2) in \<open>simp_all add: target_def rhs_hal_i2c_get_start_signal_def rhs_hal_i2c_get_end_signal_def\<close>)
  have run: "rhs_hal_i2c_trx (i2c E) h (i2c_address e) (addr_buf e a) (addr_buf_size e) buf n (timeout_ms e) b =
      Inr ((r1 \<and> r2, xs @ drop (length xs) buf), b\<lparr>ll := s2\<rparr>)"
    using 1(1) 2(1) by (simp add: rhs_hal_i2c_trx_def)
  have "xs = map (mem (view (ll b))) [unat a ..< unat a + unat n] \<and> callable (b\<lparr>ll := s2\<rparr>) \<and> mem (view s2) = mem (view (ll b))"
    if ok: "r1" "r2"
  proof -
    obtain t1 t2 where 3: "quiet s1 t1" "s2 = finish I RHSHalI2cEndStop t2"
       "view t2 = view (LL_I2C_HandleTransfer I (target e) n MODE_AUTOEND GENERATE_START_READ t1)"
       "xs = map (source (view t2)) [length (got s1) ..< length (got s1) + unat n]"
      using 2(3) ok by blast
    have t1: "view t1 = view s1" "got t1 = got s1" using 3(1) by (simp_all add: quiet_def)
    have v: "mem (view t2) = mem (view s1)" "ready (view t2)" "frame (view t2) = None"
      and src: "cursor (view s1) + k < unat (eeprom_size e) \<Longrightarrow> source (view t2) (length (got s1) + k) = mem (view t2) (cursor (view s1) + k)" for k
      using read_frame [OF _ assms(4) 3(3)] t1 1(4) ok by simp_all
    have c: "cursor (view s1) = unat a" using 1(5) ok addr_value_buf [OF geometry a] by simp
    have "xs = map (mem (view (ll b))) [unat a ..< unat a + unat n]"
      by (rule nth_equalityI) (use 3(4) src c v(1) 1(3) ok assms(2) in simp_all)
    moreover have s2: "s2 = LL_I2C_ClearFlag_STOP I (LL_I2C_ClearFlag_NACK I t2)" using 3(2) by (simp add: finish_def Let_def)
    moreover have "mem (view s2) = mem (view t2) \<and> ready (view s2)"
      using read_end [of "LL_I2C_ClearFlag_NACK I t2", OF _ refl] v(2,3) paused s2 by simp
    moreover have "timed I left (timeout_ms e) s2" using fresh 3(2) by simp
    ultimately show ?thesis using h v(1) 1(3) ok by (simp add: callable_def)
  qed
  then show ?thesis using run h 2(2) by (intro exI [of _ "r1 \<and> r2"] exI [of _ xs] exI [of _ "b\<lparr>ll := s2\<rparr>"]) simp
qed

end

section \<open>A chip\<close>

text \<open>A memory of 256 bytes in pages of 8 at the address \<open>0x50\<close> on the line of one device.\<close>

record chip = wire +
  cells :: "nat \<Rightarrow> u8"
  idle :: bool
  frame_at :: "nat option"
  next_byte :: nat
  read_at :: nat

definition eeprom_256 :: eeprom where
  "eeprom_256 = \<lparr>i2c_handle = Some 0, i2c_address = 0x50, eeprom_size = 256, page_size = 8, address_size = 1,
     write_delay_ms = 5, timeout_ms = 10\<rparr>"

definition chip_request :: "u32 \<Rightarrow> u32 \<Rightarrow> i2c_mode \<Rightarrow> i2c_request \<Rightarrow> chip \<Rightarrow> chip" where
  "chip_request a n m r w =
     (let w1 = LL_I2C_HandleTransfer wire_ll a n m r w; answers = idle w \<and> a = 0xA0 in
      case r of
        GENERATE_START_WRITE \<Rightarrow> w1\<lparr>present := answers, frame_at := (if answers then Some (length (written w)) else None)\<rparr>
      | GENERATE_START_READ \<Rightarrow> w1\<lparr>present := answers, frame_at := None, read_at := length (taken w)\<rparr>
      | _ \<Rightarrow> w1)"

definition chip_stop :: "chip \<Rightarrow> chip" where
  "chip_stop w =
     (let w1 = LL_I2C_ClearFlag_STOP wire_ll w in
      case frame_at w of
        None \<Rightarrow> w1
      | Some f \<Rightarrow> (case drop f (written w) of
          [] \<Rightarrow> w1\<lparr>frame_at := None\<rparr>
        | a # xs \<Rightarrow> w1\<lparr>cells := page_store (\<lambda>_ x. x) 8 (cells w) (unat a) xs, next_byte := unat a + length xs,
            idle := (idle w \<and> xs = []), frame_at := None\<rparr>))"

definition chip_ll :: "chip i2c_ll" where
  "chip_ll = wire_ll\<lparr>LL_I2C_HandleTransfer := chip_request, LL_I2C_ClearFlag_STOP := chip_stop,
     LL_I2C_ReceiveData8 := (\<lambda>w. let b = cells w ((next_byte w + (length (taken w) - read_at w)) mod 256) in
        (b, w\<lparr>taken := taken w @ [b], open_bytes := open_bytes w - 1\<rparr>))\<rparr>"

text \<open>The write cycle of this chip takes five ticks.\<close>

definition chip_env :: "(chip, nat) eeprom_env" where
  "chip_env = \<lparr>i2c = \<lparr>regs = chip_ll, i2c_mapi = plain_mutex, i2c_me = 1, i2c_cx = task_ctx,
       bus_clock = (\<lambda>_ s. s), handle_event = (\<lambda>_ _ s. s)\<rparr>,
     tick_scale = (\<lambda>_ ms. ms), tick_hz = 1000,
     perform = (\<lambda>d w. case d of TaskDelay n \<Rightarrow> if 5 \<le> n then w\<lparr>idle := True\<rparr> else w | _ \<Rightarrow> w)\<rparr>"

type_synonym chip_view = "bool \<times> (nat \<Rightarrow> u8) \<times> bool \<times> nat option \<times> nat \<times> nat"

definition chip_view :: "chip \<Rightarrow> chip_view" where
  "chip_view w = (present w, cells w, idle w, frame_at w, next_byte w, read_at w)"

definition chip_source :: "chip_view \<Rightarrow> nat \<Rightarrow> u8" where
  "chip_source v k = (case v of (_, c, _, _, n, r) \<Rightarrow> c ((n + (k - r)) mod 256))"

lemma chip_stop_keeps: "written (chip_stop w) = written w" "taken (chip_stop w) = taken w" "now (chip_stop w) = now w"
  by (auto simp: chip_stop_def wire_ll_def Let_def split: option.splits list.splits)

lemma chip_request_keeps: "written (chip_request a n m r w) = written w" "taken (chip_request a n m r w) = taken w"
  "wire_left t (chip_request a n m r w) = wire_left t w"
  by (auto simp: chip_request_def wire_ll_def wire_left_def Let_def split: i2c_request.splits)

lemma chip_ll_simps [simp]:
  "cortex chip_ll = wire_cortex" "ISR chip_ll = (\<lambda>w. (wire_flags w, w))" "rounds chip_ll = 2 ^ 32"
  "LL_I2C_HandleTransfer chip_ll = chip_request" "LL_I2C_ClearFlag_STOP chip_ll = chip_stop"
  by (simp_all add: chip_ll_def wire_ll_def)

interpretation chip_line: i2c_line chip_ll wire_left written taken chip_view chip_source
proof (unfold_locales, goal_cases)
  case (1 t s s')
  then show ?case using wire_timer_step [OF _ 1(2)] by simp
qed (auto simp: chip_ll_def chip_view_def chip_source_def chip_request_keeps chip_stop_keeps wire_ll_def wire_cortex_def Let_def
    intro: wire_left_next eq_refl [OF wire_left_same])

lemma chip_wait: "wait_written chip_env eeprom_256 w = Inr (w\<lparr>idle := True\<rparr>)"
  by (simp add: wait_written_def chip_env_def rhs_delay_ms_def rhs_delay_tick_def rhs_ms_to_ticks_def eeprom_256_def
      RHS_IS_ISR_def RHS_IS_IRQ_MODE_def RHS_IS_IRQ_MASKED_def rhs_kernel_is_irq_or_masked_def task_ctx_def)

lemma chip_env_simps [simp]: "regs (i2c chip_env) = chip_ll"
  by (simp add: chip_env_def)

text \<open>A call that starts now never finds this bus busy.\<close>

lemma chip_never_busy: "\<not> given_up chip_ll 10 begn w w'"
proof
  assume "given_up chip_ll 10 begn w w'"
  then obtain t w1 where t: "rhs_hal_cortex_timer_get wire_cortex (10 * 1000) w = Inr (t, w1)"
    and f: "rhs_hal_i2c_wait_for_idle (2 ^ 32) chip_ll begn t w1 = Inr (False, w')"
    by (auto simp: given_up_def)
  have w1: "t = \<lparr>start = base w + of_nat (now w), ticks = 2160000\<rparr>" "w1 = w\<lparr>now := next_now (now w)\<rparr>"
    using t by (auto simp: rhs_hal_cortex_timer_get_def wire_cortex_def INSTRUCTIONS_PER_MICROSECOND_def UINT32_MAX_def)
  have "of_nat (next_now (now w)) - of_nat (now w) < (2160000 :: u32)" by (simp add: next_now_def)
  then have "\<not> fst (expired chip_ll t w1)" using w1
    by (simp add: expired_def rhs_hal_cortex_timer_is_expired_def wire_cortex_def)
  then show False using f by (auto simp: loop_numerals flag_def wire_flags_def Let_def split: prod.splits if_splits)
qed

lemma chip_timed: "now w = 0 \<Longrightarrow> timed chip_ll wire_left 10 w"
  by (simp add: timed_def rhs_hal_cortex_timer_get_def wire_cortex_def INSTRUCTIONS_PER_MICROSECOND_def
      UINT32_MAX_def wire_left_def next_now_def)

lemma chip_timed_idle: "timed chip_ll wire_left t (w\<lparr>idle := x\<rparr>) = timed chip_ll wire_left t w"
  by (simp add: timed_def rhs_hal_cortex_timer_get_def rhs_assert_def wire_cortex_def wire_left_def Let_def)

lemma chip_finish_now: "now (finish chip_ll endn w) = 0"
  by (simp add: finish_def Let_def chip_stop_keeps) (simp add: chip_ll_def wire_ll_def)

interpretation chip_line: eeprom_line chip_ll wire_left written taken chip_view chip_source chip_env eeprom_256 0
  "\<lambda>(_, c, _). c" "\<lambda>(_, _, i, _). i" "\<lambda>(_, _, _, f, _). f" "\<lambda>(_, _, _, _, n, _). n"
proof (unfold_locales, goal_cases)
  case 1
  show ?case by (simp add: chip_env_def)
next
  case 2
  show ?case by (simp add: eeprom_256_def)
next
  case 3
  show ?case by (simp add: eeprom_256_def geometry_def)
next
  case (4 s n v m)
  then show ?case by (simp add: chip_view_def chip_request_def wire_ll_def target_def eeprom_256_def)
next
  case (5 s f n m)
  then show ?case by (simp add: chip_view_def chip_request_def wire_ll_def)
next
  case (6 s)
  show ?case by (simp add: chip_view_def chip_ll_def wire_ll_def)
next
  case (7 s f a data v)
  then obtain x xs where "drop f (written s) = x # xs" by (cases "drop f (written s)") (auto simp: addr_buf_size_def eeprom_256_def)
  moreover from this have "drop (Suc f) (written s) = xs" by (metis drop_Suc list.sel(3) tl_drop)
  ultimately show ?case using 7
    by (simp add: chip_view_def chip_stop_def wire_ll_def addr_buf_size_def eeprom_256_def addr_value_def)
next
  case (8 s n v m)
  then show ?case by (simp add: chip_view_def chip_request_def wire_ll_def target_def eeprom_256_def chip_source_def)
next
  case (9 s v)
  then show ?case by (simp add: chip_view_def chip_stop_def wire_ll_def)
next
  case (10 s)
  show ?case by (simp add: chip_wait chip_view_def chip_timed_idle)
next
  case (11 endn s)
  show ?case using chip_timed [OF chip_finish_now] by (simp add: eeprom_256_def)
next
  case (12 s s')
  then show ?case using chip_never_busy by (simp add: eeprom_256_def)
qed

section \<open>Properties\<close>

lemma in_range_sum:
  assumes "unat (a :: u16) + unat (n :: u32) \<le> unat (room :: u32)"
  shows "\<not> ucast a + n > room"
proof -
  have "unat (ucast a + n) = unat a + unat n" using assms unat_u32_less [of room] by (simp add: unat_word_ariths)
  then show ?thesis using assms by (simp add: word_less_nat_alt)
qed


definition chip_bus :: "(chip, nat) i2c_bus" where
  "chip_bus = \<lparr>current_handle = Some 0, bus_mutex = None,
     ll = \<lparr>base = 0, now = 0, present = True, open_bytes = 0, open_mode = None, stuck = False, written = [], answers = [], taken = [],
       cells = (\<lambda>_. 0), idle = True, frame_at = None, next_byte = 0, read_at = 0\<rparr>\<rparr>"

lemma chip_bus_ready: "current_handle chip_bus = Some 0" "(\<lambda>(_, _, i, _). i) (chip_view (ll chip_bus))"
  "timed chip_ll wire_left (timeout_ms eeprom_256) (ll chip_bus)"
  using chip_timed [of "ll chip_bus"] by (simp_all add: chip_bus_def chip_view_def eeprom_256_def)


text \<open>What a successful write has put into the chip, a successful read of the same place returns, and the read
  changes nothing.\<close>

theorem eeprom_write_read:
  assumes "eeprom_line I left sent got view source E e h mem ready frame cursor"
    and "current_handle b = Some h" and "ready (view (ll b))" and "timed I left (timeout_ms e) (ll b)"
    and "0 < sz" and "unat sz \<le> 255" and "unat address + unat sz \<le> unat (eeprom_size e)" and "unat sz \<le> length data"
    and "unat sz \<le> length buf" and stored: "eeprom_write E (Some e) address (Some data) sz b = Inr (EepromStatusOk, b1)"
  shows "\<exists>r buf' b2. eeprom_read E (Some e) address (Some buf) sz b1 = Inr ((r, Some buf'), b2) \<and>
     (r = EepromStatusOk \<longrightarrow> buf' = take (unat sz) data @ drop (unat sz) buf \<and> mem (view (ll b2)) = mem (view (ll b1)))"
proof -
  have call: "eeprom_line.callable I left view e h ready b"
    using assms(2-4) by (simp add: eeprom_line.callable_def [OF assms(1)])
  have "eeprom_write E (Some e) address (Some data) sz b = write_pages E e address data sz b"
    using assms(5) in_range_sum [OF assms(7)] by (auto simp: eeprom_write_def)
  then have 1: "eeprom_line.callable I left view e h ready b1"
    "mem (view (ll b1)) = store (\<lambda>_ x. x) (mem (view (ll b))) (unat address) (take (unat sz) data)"
    using eeprom_line.pages_written [OF assms(1) call assms(7,8)] assms(5) stored by auto
  have sz: "sz \<noteq> 0" using assms(5) by auto
  obtain r xs b2 where 2: "rhs_hal_i2c_trx (i2c E) h (i2c_address e) (addr_buf e address) (addr_buf_size e) buf sz (timeout_ms e) b1 =
      Inr ((r, xs @ drop (length xs) buf), b2)"
    "r \<longrightarrow> xs = map (mem (view (ll b1))) [unat address ..< unat address + unat sz] \<and> mem (view (ll b2)) = mem (view (ll b1))"
    using eeprom_line.run_read [OF assms(1) 1(1) assms(7) sz assms(6,9)] by blast
  have "map (mem (view (ll b1))) [unat address ..< unat address + unat sz] = take (unat sz) data"
    by (rule nth_equalityI) (use assms(8) 1(2) in \<open>simp_all add: store_def\<close>)
  then show ?thesis using 2 sz in_range_sum [OF assms(7)] assms(8) eeprom_line.handle_of [OF assms(1)]
    by (auto simp: eeprom_read_def on_handle_def)
qed

text \<open>The chip above takes the byte.\<close>

lemmas chip_run = rhs_hal_i2c_tx_ext_def rhs_hal_i2c_rx_ext_def transact_def rhs_hal_i2c_transaction_def rhs_hal_i2c_transfer_def
  loop_numerals expired_def rhs_hal_cortex_timer_is_expired_def rhs_hal_cortex_timer_get_def flag_def wire_flags_def
  wire_ll_def wire_cortex_def next_now_def stop_or_late_def or_else_def
  rhs_hal_i2c_transfer_is_aborted_def send_round_def receive_round_def end_mask_def INSTRUCTIONS_PER_MICROSECOND_def
  UINT32_MAX_def Let_def rhs_hal_i2c_get_start_signal_def rhs_hal_i2c_get_end_signal_def chip_request_def chip_stop_def

lemma chip_data_simps:
  "LL_I2C_TransmitData8 chip_ll = LL_I2C_TransmitData8 wire_ll" "LL_I2C_ClearFlag_NACK chip_ll = LL_I2C_ClearFlag_NACK wire_ll"
  "LL_I2C_AcknowledgeNextData_NACK chip_ll = LL_I2C_AcknowledgeNextData_NACK wire_ll"
  "LL_I2C_ReceiveData8 chip_ll w = (let b = cells w ((next_byte w + (length (taken w) - read_at w)) mod 256) in
        (b, w\<lparr>taken := taken w @ [b], open_bytes := open_bytes w - 1\<rparr>))"
  by (simp_all add: chip_ll_def)

lemma chip_writes:
  "\<exists>b1. eeprom_write chip_env (Some eeprom_256) 6 (Some [7]) 1 chip_bus = Inr (EepromStatusOk, b1)"
  by (simp add: eeprom_write_def write_pages.simps bytes_to_write_def bytes_to_page_end_def send_page_def on_handle_def
     addr_buf_def addr_buf_size_def chip_bus_def chip_run chip_data_simps chip_wait)
    (simp add: eeprom_256_def chip_run chip_data_simps chip_wait [unfolded eeprom_256_def] write_pages.simps)

lemma eeprom_write_read_witness:
  "\<exists>b1 r buf' b2. eeprom_write chip_env (Some eeprom_256) 6 (Some [7]) 1 chip_bus = Inr (EepromStatusOk, b1) \<and>
     eeprom_read chip_env (Some eeprom_256) 6 (Some [0]) 1 b1 = Inr ((r, Some buf'), b2) \<and> (r = EepromStatusOk \<longrightarrow> buf' = [7])"
proof -
  obtain b1 where 1: "eeprom_write chip_env (Some eeprom_256) 6 (Some [7]) 1 chip_bus = Inr (EepromStatusOk, b1)"
    using chip_writes by blast
  have "\<exists>r buf' b2. eeprom_read chip_env (Some eeprom_256) 6 (Some [0]) 1 b1 = Inr ((r, Some buf'), b2) \<and>
      (r = EepromStatusOk \<longrightarrow> buf' = take (unat (1 :: u32)) [7] @ drop (unat (1 :: u32)) [0] \<and>
         (\<lambda>(_, c, _). c) (chip_view (ll b2)) = (\<lambda>(_, c, _). c) (chip_view (ll b1)))"
    by (rule eeprom_write_read [OF chip_line.eeprom_line_axioms chip_bus_ready _ _ _ _ _ 1]) (simp_all add: eeprom_256_def)
  then show ?thesis using 1 by auto
qed

end
