(* ===== verification/Rtc.thy ===== *)
theory Rtc
  imports Unixtime Kernel
begin

text \<open>
  The real-time clock of hal/rhs_hal_rtc/rhs_hal_rtc.c over the vendor's RTC driver, which is
  a parameter on a state \<open>'r\<close>, and the calendar conversions of \<open>Unixtime\<close>. The clock keeps two
  digits of the year; the century is a bit of a backup register. The locale \<open>rtc_clock\<close> says
  what the driver promises of a calendar that does not tick meanwhile; the lemmas show that a
  date set is the date read, with the interrupt mask as it was.
\<close>

section \<open>The driver below\<close>

datatype rtc_format = RTC_FORMAT_BIN | RTC_FORMAT_BCD

record rtc_time =
  Hours :: u8
  Minutes :: u8
  Seconds :: u8
  SubSeconds :: u32
  SecondFraction :: u32

record rtc_date =
  WeekDay :: u8
  Month :: u8
  Date :: u8
  Year :: u8

text \<open>The calls that can fail return \<open>True\<close> for \<open>HAL_OK\<close>.\<close>

record 'r rtc_hal =
  HAL_RTC_Init :: "'r \<Rightarrow> bool \<times> 'r"
  LL_RTC_IsActiveFlag_INITS :: "'r \<Rightarrow> bool \<times> 'r"
  HAL_RTC_SetTime :: "rtc_format \<Rightarrow> rtc_time \<Rightarrow> 'r \<Rightarrow> bool \<times> 'r"
  HAL_RTC_SetDate :: "rtc_format \<Rightarrow> rtc_date \<Rightarrow> 'r \<Rightarrow> bool \<times> 'r"
  HAL_RTC_GetTime :: "rtc_format \<Rightarrow> 'r \<Rightarrow> (bool \<times> rtc_time) \<times> 'r"
  HAL_RTC_GetDate :: "rtc_format \<Rightarrow> 'r \<Rightarrow> (bool \<times> rtc_date) \<times> 'r"
  LL_RTC_BAK_GetRegister :: "nat \<Rightarrow> 'r \<Rightarrow> u32"
  LL_RTC_BAK_SetRegister :: "nat \<Rightarrow> u32 \<Rightarrow> 'r \<Rightarrow> 'r"

record 'r rtc_env =
  rtc :: "'r rtc_hal"
  rtc_port :: port_api
  rtc_cx :: ctx

section \<open>The clock\<close>

definition init_failed :: "'a res" where
  "init_failed = Inl (Crash ''RTC init failed'')"

definition rtc_init :: "'r rtc_env \<Rightarrow> 'r \<Rightarrow> 'r res" where
  "rtc_init E r0 =
     (let (inited, r1) = HAL_RTC_Init (rtc E) r0 in
      if \<not> inited then init_failed
      else let (set, r2) = LL_RTC_IsActiveFlag_INITS (rtc E) r1 in
        if set then Inr r2
        else let (timed, r3) = HAL_RTC_SetTime (rtc E) RTC_FORMAT_BCD
              \<lparr>Hours = 0x12, Minutes = 0, Seconds = 0, SubSeconds = 0, SecondFraction = 0\<rparr> r2 in
          if \<not> timed then init_failed
          else let (dated, r4) = HAL_RTC_SetDate (rtc E) RTC_FORMAT_BCD
                \<lparr>WeekDay = 1, Month = 1, Date = 0x1, Year = 0x24\<rparr> r3 in
            if \<not> dated then init_failed else Inr r4)"

definition rhs_hal_rtc_init :: "'r rtc_env \<Rightarrow> 'r \<Rightarrow> 'r res" where
  "rhs_hal_rtc_init E r = rtc_init E r"

definition RHSHalRtcRegisterSystem :: nat where "RHSHalRtcRegisterSystem = 0"

definition rhs_hal_rtc_get_register :: "'r rtc_env \<Rightarrow> nat \<Rightarrow> 'r \<Rightarrow> u32" where
  "rhs_hal_rtc_get_register E reg r = LL_RTC_BAK_GetRegister (rtc E) reg r"

definition rhs_hal_rtc_set_register :: "'r rtc_env \<Rightarrow> nat \<Rightarrow> u32 \<Rightarrow> 'r \<Rightarrow> 'r" where
  "rhs_hal_rtc_set_register E reg v r = LL_RTC_BAK_SetRegister (rtc E) reg v r"

text \<open>The bit field \<open>year2000\<close> of \<open>SystemReg\<close> follows the four bits of \<open>log_level\<close>.\<close>

definition with_year2000 :: "bool \<Rightarrow> u32 \<Rightarrow> u32" where
  "with_year2000 b reg = (if b then set_bit 4 reg else unset_bit 4 reg)"

definition year2000 :: "u32 \<Rightarrow> bool" where
  "year2000 reg \<longleftrightarrow> bit reg 4"

text \<open>The fields of the time that the code does not set are \<open>junk\<close>.\<close>

definition rhs_hal_rtc_set_datetime ::
  "'r rtc_env \<Rightarrow> u32 \<times> u32 \<Rightarrow> datetime_t \<Rightarrow> 'r \<times> cpu \<Rightarrow> ('r \<times> cpu) res" where
  "rhs_hal_rtc_set_datetime E junk datetime s =
     (let (r0, p0) = s;
          reg = rhs_hal_rtc_get_register E RHSHalRtcRegisterSystem r0;
          r1 = rhs_hal_rtc_set_register E RHSHalRtcRegisterSystem (with_year2000 (year datetime \<ge> 2000) reg) r0;
          sDate = \<lparr>WeekDay = ucast (weekday datetime), Month = ucast (month datetime), Date = ucast (day datetime),
            Year = ucast (year datetime mod 100)\<rparr>;
          sTime = \<lparr>Hours = ucast (hours datetime), Minutes = ucast (minutes datetime), Seconds = ucast (seconds datetime),
            SubSeconds = fst junk, SecondFraction = snd junk\<rparr>;
          (info, p1) = rhs_critical_enter (rtc_port E) (rtc_cx E) p0;
          (dated, r2) = HAL_RTC_SetDate (rtc E) RTC_FORMAT_BIN sDate r1 in
      if \<not> dated then init_failed
      else let (timed, r3) = HAL_RTC_SetTime (rtc E) RTC_FORMAT_BIN sTime r2 in
        if \<not> timed then init_failed
        else Inr (r3, rhs_critical_exit (rtc_port E) info p1))"

definition rhs_hal_rtc_get_datetime :: "'r rtc_env \<Rightarrow> 'r \<times> cpu \<Rightarrow> (datetime_t \<times> 'r \<times> cpu) res" where
  "rhs_hal_rtc_get_datetime E s =
     (let (r0, p0) = s;
          reg = rhs_hal_rtc_get_register E RHSHalRtcRegisterSystem r0;
          (info, p1) = rhs_critical_enter (rtc_port E) (rtc_cx E) p0;
          ((timed, sTime), r1) = HAL_RTC_GetTime (rtc E) RTC_FORMAT_BIN r0 in
      if \<not> timed then init_failed
      else let ((dated, sDate), r2) = HAL_RTC_GetDate (rtc E) RTC_FORMAT_BIN r1 in
        if \<not> dated then init_failed
        else if SecondFraction sTime + 1 = 0 then Inl DivisionByZero
        else Inr (\<lparr>hours = ucast (Hours sTime), minutes = ucast (Minutes sTime), seconds = ucast (Seconds sTime),
             mseconds = ucast (ucast (SecondFraction sTime - SubSeconds sTime) * 1000 div ucast (SecondFraction sTime + 1) :: u64),
             day = ucast (Date sDate), month = ucast (Month sDate),
             year = (if year2000 reg then 2000 + ucast (Year sDate) else 1900 + ucast (Year sDate)),
             weekday = ucast (WeekDay sDate)\<rparr>, r2, rhs_critical_exit (rtc_port E) info p1))"

definition rhs_hal_rtc_set_timestamp ::
  "'r rtc_env \<Rightarrow> u32 \<times> u32 \<times> u32 \<Rightarrow> u64 \<Rightarrow> u32 \<Rightarrow> 'r \<times> cpu \<Rightarrow> ('r \<times> cpu) res" where
  "rhs_hal_rtc_set_timestamp E junk secs msecs s =
     rbind (convert_unix_time_2_date (fst junk) secs) (\<lambda>datetime.
     rhs_hal_rtc_set_datetime E (snd junk) (datetime\<lparr>mseconds := msecs\<rparr>) s)"

definition rhs_hal_rtc_get_timestamp :: "'r rtc_env \<Rightarrow> 'r \<times> cpu \<Rightarrow> ((u64 \<times> u32) \<times> 'r \<times> cpu) res" where
  "rhs_hal_rtc_get_timestamp E s =
     rbind (rhs_hal_rtc_get_datetime E s) (\<lambda>(datetime, s').
     Inr ((ucast (convert_date_2_unix_time datetime), mseconds datetime), s'))"

section \<open>The calendar\<close>

text \<open>
  What the driver shows: the time, the date and the backup registers. A valid time or date is
  taken over; the weekday is not promised, because the hardware has no weekday 0.
\<close>

definition good_time :: "rtc_time \<Rightarrow> bool" where
  "good_time t \<longleftrightarrow> Hours t < 24 \<and> Minutes t < 60 \<and> Seconds t < 60"

definition good_date :: "rtc_date \<Rightarrow> bool" where
  "good_date d \<longleftrightarrow> 1 \<le> Month d \<and> Month d \<le> 12 \<and> 1 \<le> Date d \<and> Date d \<le> 31 \<and> Year d \<le> 99"

locale rtc_clock =
  fixes H :: "'r rtc_hal" and clock_time :: "'r \<Rightarrow> u8 \<times> u8 \<times> u8" and clock_date :: "'r \<Rightarrow> u8 \<times> u8 \<times> u8"
    and backup :: "'r \<Rightarrow> nat \<Rightarrow> u32"
  assumes set_time: "good_time t \<Longrightarrow> \<exists>r'. HAL_RTC_SetTime H RTC_FORMAT_BIN t r = (True, r') \<and>
      clock_time r' = (Hours t, Minutes t, Seconds t) \<and> clock_date r' = clock_date r \<and> backup r' = backup r"
    and set_date: "good_date d \<Longrightarrow> \<exists>r'. HAL_RTC_SetDate H RTC_FORMAT_BIN d r = (True, r') \<and>
      clock_date r' = (Date d, Month d, Year d) \<and> clock_time r' = clock_time r \<and> backup r' = backup r"
    and get_time: "\<exists>t r'. HAL_RTC_GetTime H RTC_FORMAT_BIN r = ((True, t), r') \<and>
      (Hours t, Minutes t, Seconds t) = clock_time r \<and> SecondFraction t + 1 \<noteq> 0 \<and> clock_date r' = clock_date r"
    and get_date: "\<exists>d r'. HAL_RTC_GetDate H RTC_FORMAT_BIN r = ((True, d), r') \<and> (Date d, Month d, Year d) = clock_date r"
    and read_backup: "LL_RTC_BAK_GetRegister H k r = backup r k"
    and write_backup: "backup (LL_RTC_BAK_SetRegister H k v r) = (backup r)(k := v)"
      "clock_time (LL_RTC_BAK_SetRegister H k v r) = clock_time r" "clock_date (LL_RTC_BAK_SetRegister H k v r) = clock_date r"

lemma year2000_with [simp]: "year2000 (with_year2000 b reg) = b"
  by (simp add: year2000_def with_year2000_def bit_set_bit_iff bit_unset_bit_iff)

text \<open>A date of the years 1900 to 2099 and a time of day, as the driver takes them.\<close>

definition rtc_valid :: "datetime_t \<Rightarrow> bool" where
  "rtc_valid d \<longleftrightarrow> hours d < 24 \<and> minutes d < 60 \<and> seconds d < 60 \<and> 1 \<le> day d \<and> day d \<le> 31 \<and>
     1 \<le> month d \<and> month d \<le> 12 \<and> 1900 \<le> year d \<and> year d \<le> 2099"

text \<open>A valid date fits the registers; its two digits and the century give the year back.\<close>

lemma unat_small_byte: "x < 256 \<Longrightarrow> unat (ucast x :: u8) = unat x" for x :: u32
  by (simp add: unat_ucast_mod word_less_nat_alt)

lemma byte_back: "x < 256 \<Longrightarrow> ucast (ucast x :: u8) = x" for x :: u32
  by (simp add: word_unat_eq_iff unat_small_byte)

lemma year_split:
  fixes y :: u32
  assumes "1900 \<le> y" and "y \<le> 2099"
  shows "(if 2000 \<le> y then 2000 + y mod 100 else 1900 + y mod 100) = y" and "y mod 100 < 100"
proof -
  have u: "1900 \<le> unat y" "unat y \<le> 2099" using assms by (simp_all add: word_le_nat_alt)
  have m: "unat (y mod 100) = unat y mod 100" by (simp add: unat_mod)
  then show "y mod 100 < 100" by (simp add: word_less_nat_alt)
  have "unat y mod 100 = (if 2000 \<le> unat y then unat y - 2000 else unat y - 1900)"
    using u by (auto simp: le_mod_geq)
  then show "(if 2000 \<le> y then 2000 + y mod 100 else 1900 + y mod 100) = y"
    using u m by (auto simp: word_unat_eq_iff word_le_nat_alt unat_word_ariths)
qed

context rtc_clock begin

text \<open>A valid date is set and read back, up to milliseconds and weekday; the interrupt mask comes back.\<close>

lemma datetime_set:
  assumes "H = rtc E" and "critical_port (rtc_port E) m" and "entry_ok m (rtc_cx E) p" and "rtc_valid d"
  obtains r' where "rhs_hal_rtc_set_datetime E junk d (r, p) = Inr (r', p)"
    "clock_time r' = (ucast (hours d), ucast (minutes d), ucast (seconds d))"
    "clock_date r' = (ucast (day d), ucast (month d), ucast (year d mod 100))"
    "year2000 (backup r' RHSHalRtcRegisterSystem) = (2000 \<le> year d)"
proof -
  let ?r1 = "LL_RTC_BAK_SetRegister H RHSHalRtcRegisterSystem
    (with_year2000 (2000 \<le> year d) (LL_RTC_BAK_GetRegister H RHSHalRtcRegisterSystem r)) r"
  have v: "hours d < 24" "minutes d < 60" "seconds d < 60" "1 \<le> day d" "day d \<le> 31" "1 \<le> month d" "month d \<le> 12"
    "1900 \<le> year d" "year d \<le> 2099" using assms(4) by (simp_all add: rtc_valid_def)
  let ?D = "\<lparr>WeekDay = ucast (weekday d), Month = ucast (month d), Date = ucast (day d), Year = ucast (year d mod 100)\<rparr>"
  let ?T = "\<lparr>Hours = ucast (hours d), Minutes = ucast (minutes d), Seconds = ucast (seconds d),
    SubSeconds = fst junk, SecondFraction = snd junk\<rparr>"
  have "good_date ?D" using v year_split(2) [OF v(8,9)]
    by (simp add: good_date_def word_le_nat_alt word_less_nat_alt unat_small_byte)
  then obtain r2 where 2: "HAL_RTC_SetDate H RTC_FORMAT_BIN ?D ?r1 = (True, r2)"
    "clock_date r2 = (Date ?D, Month ?D, Year ?D)" "backup r2 = backup ?r1" using set_date by blast
  have "good_time ?T" using v by (simp add: good_time_def word_less_nat_alt unat_small_byte)
  then obtain r3 where 3: "HAL_RTC_SetTime H RTC_FORMAT_BIN ?T r2 = (True, r3)"
    "clock_time r3 = (Hours ?T, Minutes ?T, Seconds ?T)" "clock_date r3 = clock_date r2" "backup r3 = backup r2"
    using set_time by blast
  obtain info p1 where e: "rhs_critical_enter (rtc_port E) (rtc_cx E) p = (info, p1)"
    by (cases "rhs_critical_enter (rtc_port E) (rtc_cx E) p")
  have p: "rhs_critical_exit (rtc_port E) info p1 = p"
    using critical_port.enter_exit(1) [OF assms(2,3)] e by simp
  show thesis
  proof (rule that)
    show "rhs_hal_rtc_set_datetime E junk d (r, p) = Inr (r3, p)"
      using 2(1) 3(1) e p unfolding assms(1)
      by (simp add: rhs_hal_rtc_set_datetime_def rhs_hal_rtc_get_register_def rhs_hal_rtc_set_register_def)
    show "year2000 (backup r3 RHSHalRtcRegisterSystem) = (2000 \<le> year d)"
      using 2(3) 3(4) write_backup(1) by simp
  qed (use 2(2) 3(2,3) in simp_all)
qed

lemma datetime_got:
  assumes "H = rtc E" and "critical_port (rtc_port E) m" and "entry_ok m (rtc_cx E) p" and "rtc_valid d"
    and "clock_time r = (ucast (hours d), ucast (minutes d), ucast (seconds d))"
    and "clock_date r = (ucast (day d), ucast (month d), ucast (year d mod 100))"
    and "year2000 (backup r RHSHalRtcRegisterSystem) = (2000 \<le> year d)"
  obtains ms wd r' where "rhs_hal_rtc_get_datetime E (r, p) = Inr (d\<lparr>mseconds := ms, weekday := wd\<rparr>, r', p)"
proof -
  have v: "hours d < 24" "minutes d < 60" "seconds d < 60" "1 \<le> day d" "day d \<le> 31" "1 \<le> month d" "month d \<le> 12"
    "1900 \<le> year d" "year d \<le> 2099" using assms(4) by (simp_all add: rtc_valid_def)
  obtain t r1 where 1: "HAL_RTC_GetTime H RTC_FORMAT_BIN r = ((True, t), r1)"
    "(Hours t, Minutes t, Seconds t) = clock_time r" "SecondFraction t + 1 \<noteq> 0" "clock_date r1 = clock_date r" using get_time by blast
  obtain dd r2 where 2: "HAL_RTC_GetDate H RTC_FORMAT_BIN r1 = ((True, dd), r2)"
    "(Date dd, Month dd, Year dd) = clock_date r1" using get_date by blast
  obtain info p1 where e: "rhs_critical_enter (rtc_port E) (rtc_cx E) p = (info, p1)"
    by (cases "rhs_critical_enter (rtc_port E) (rtc_cx E) p")
  have p: "rhs_critical_exit (rtc_port E) info p1 = p"
    using critical_port.enter_exit(1) [OF assms(2,3)] e by simp
  have undone: "ucast (ucast (hours d) :: u8) = hours d" "ucast (ucast (minutes d) :: u8) = minutes d"
    "ucast (ucast (seconds d) :: u8) = seconds d" "ucast (ucast (day d) :: u8) = day d" "ucast (ucast (month d) :: u8) = month d"
    "ucast (ucast (year d mod 100) :: u8) = year d mod 100"
    using v year_split(2) [OF v(8,9)] by (simp_all add: byte_back word_less_nat_alt word_le_nat_alt)
  show thesis
  proof (rule that)
    show "rhs_hal_rtc_get_datetime E (r, p) = Inr (d\<lparr>mseconds :=
        ucast (ucast (SecondFraction t - SubSeconds t) * 1000 div ucast (SecondFraction t + 1) :: u64),
        weekday := ucast (WeekDay dd)\<rparr>, r2, p)"
      using 1 2 e p undone assms(5-7) year_split(1) [OF v(8,9)]
      by (cases d) (auto simp: rhs_hal_rtc_get_datetime_def rhs_hal_rtc_get_register_def assms(1) [symmetric] read_backup
          split: if_splits)
  qed
qed

end

text \<open>A calendar of registers, as an instance.\<close>

record plain_rtc =
  tr :: "u8 \<times> u8 \<times> u8"
  dr :: "u8 \<times> u8 \<times> u8"
  bkp :: "nat \<Rightarrow> u32"

definition plain_rtc_hal :: "plain_rtc rtc_hal" where
  "plain_rtc_hal = \<lparr>HAL_RTC_Init = (\<lambda>r. (True, r)), LL_RTC_IsActiveFlag_INITS = (\<lambda>r. (True, r)),
     HAL_RTC_SetTime = (\<lambda>_ t r. (True, r\<lparr>tr := (Hours t, Minutes t, Seconds t)\<rparr>)),
     HAL_RTC_SetDate = (\<lambda>_ d r. (True, r\<lparr>dr := (Date d, Month d, Year d)\<rparr>)),
     HAL_RTC_GetTime = (\<lambda>_ r. ((True, case tr r of (h, m, s) \<Rightarrow>
        \<lparr>Hours = h, Minutes = m, Seconds = s, SubSeconds = 0, SecondFraction = 255\<rparr>), r)),
     HAL_RTC_GetDate = (\<lambda>_ r. ((True, case dr r of (d, m, y) \<Rightarrow> \<lparr>WeekDay = 1, Month = m, Date = d, Year = y\<rparr>), r)),
     LL_RTC_BAK_GetRegister = (\<lambda>k r. bkp r k), LL_RTC_BAK_SetRegister = (\<lambda>k v r. r\<lparr>bkp := (bkp r)(k := v)\<rparr>)\<rparr>"

interpretation plain: rtc_clock plain_rtc_hal tr dr bkp
  by unfold_locales (auto simp: plain_rtc_hal_def split: prod.splits)

lemma before_2100:
  assumes "valid_date y m d" and "y \<le> 2106" and "unix_seconds y m d h mi s < 4102444800"
  shows "y \<le> 2099"
proof (rule ccontr)
  have y: "1970 \<le> y" using assms(1) by (simp add: valid_date_def)
  assume "\<not> y \<le> 2099"
  then have "y - 1 \<ge> 2099" "y - 1 \<le> 2105" using assms(2) by simp_all
  then have "(y - 1) div 100 \<le> 21" "(y - 1) div 4 \<ge> 524" "(y - 1) div 400 = 5" by simp_all
  then have "47482 \<le> days_before_year y" using days_before_year_closed [OF y] \<open>\<not> y \<le> 2099\<close> by linarith
  then have "47482 * 86400 \<le> unix_seconds y m d h mi s" by (simp add: unix_seconds_def day_number_def)
  with assms(3) show False by simp
qed

lemma rtc_valid_shown:
  assumes "valid_date y m d" and "valid_time h mi s" and "y \<le> 2099"
  shows "rtc_valid \<lparr>hours = of_nat h, minutes = of_nat mi, seconds = of_nat s, mseconds = ms,
       day = of_nat d, month = of_nat m, year = of_nat y, weekday = wd\<rparr>"
proof -
  have v: "1970 \<le> y" "1 \<le> m" "m \<le> 12" "1 \<le> d" "d \<le> month_lengths y ! (m - 1)"
    using assms(1) by (simp_all add: valid_date_def)
  have "month_lengths y ! (m - 1) \<le> 31"
    using month_cases [OF v(2,3)] by (auto simp: month_lengths_simp)
  then have "d \<le> 31" using v(5) by simp
  moreover have "y \<le> 2106" using assms(3) by simp
  ultimately show ?thesis using v assms(2,3) small_date [OF assms(1)] small_time [OF assms(2)]
    by (simp add: rtc_valid_def valid_time_def word_less_nat_alt word_le_nat_alt)
qed

section \<open>Properties\<close>



end
