(* ===== verification/Heap_List.thy ===== *)
theory Heap_List
  imports Prelude
begin

text \<open>
  Singly linked lists of allocated nodes, shared by the list components. A heap maps the
  addresses that are allocated to their nodes; reading, writing or freeing any other address
  is a fault. \<open>chain\<close> relates a head pointer to the addresses of its nodes in order; the
  lemmas say how it reacts to a changed, a new and a freed node.
\<close>

type_synonym 'n heap = "nat \<Rightarrow> 'n option"

definition hget :: "'n heap \<Rightarrow> nat \<Rightarrow> 'n res" where
  "hget h a = (case h a of None \<Rightarrow> Inl OutOfBounds | Some n \<Rightarrow> Inr n)"

definition hset :: "'n heap \<Rightarrow> nat \<Rightarrow> 'n \<Rightarrow> 'n heap res" where
  "hset h a n = (case h a of None \<Rightarrow> Inl OutOfBounds | Some _ \<Rightarrow> Inr (h(a := Some n)))"

definition hfree :: "'n heap \<Rightarrow> nat \<Rightarrow> 'n heap res" where
  "hfree h a = (case h a of None \<Rightarrow> Inl OutOfBounds | Some _ \<Rightarrow> Inr (h(a := None)))"

lemma heap_ops [simp]:
  assumes "h a = Some n"
  shows "hget h a = Inr n" and "hset h a m = Inr (h(a := Some m))" and "hfree h a = Inr (h(a := None))"
  using assms by (simp_all add: hget_def hset_def hfree_def)

lemma heap_faults [simp]:
  assumes "h a = None"
  shows "hget h a = Inl OutOfBounds" and "hset h a m = Inl OutOfBounds" and "hfree h a = Inl OutOfBounds"
  using assms by (simp_all add: hget_def hset_def hfree_def)

fun chain :: "('n \<Rightarrow> nat option) \<Rightarrow> 'n heap \<Rightarrow> nat option \<Rightarrow> nat list \<Rightarrow> bool" where
  "chain nxt h p [] = (p = None)"
| "chain nxt h p (a # as) = (p = Some a \<and> (case h a of None \<Rightarrow> False | Some n \<Rightarrow> chain nxt h (nxt n) as))"

lemma chain_None [simp]: "chain nxt h None as \<longleftrightarrow> as = []"
  by (cases as) auto

lemma chain_Some:
  "chain nxt h (Some a) as \<longleftrightarrow> (\<exists>n bs. as = a # bs \<and> h a = Some n \<and> chain nxt h (nxt n) bs)"
  by (cases as) (auto split: option.splits)

lemma chain_Cons: "h a = Some n \<Longrightarrow> chain nxt h p (a # as) \<longleftrightarrow> p = Some a \<and> chain nxt h (nxt n) as"
  by simp

lemma chain_unique: "chain nxt h p as \<Longrightarrow> chain nxt h p bs \<Longrightarrow> as = bs"
proof (induction as arbitrary: p bs)
  case (Cons a as)
  then show ?case by (cases bs) (auto split: option.splits)
qed (cases bs, auto)

lemma chain_dom: "chain nxt h p as \<Longrightarrow> set as \<subseteq> dom h"
  by (induction as arbitrary: p) (auto split: option.splits)

text \<open>No address occurs twice: the rest of a list is determined by its address.\<close>

lemma chain_suffix: "chain nxt h p (as @ a # bs) \<Longrightarrow> chain nxt h (Some a) (a # bs)"
proof (induction as arbitrary: p)
  case (Cons c as)
  then obtain n where "chain nxt h (nxt n) (as @ a # bs)" by (auto split: option.splits)
  then show ?case by (rule Cons.IH)
qed simp

lemma chain_distinct: "chain nxt h p as \<Longrightarrow> distinct as"
proof (induction as arbitrary: p)
  case (Cons a as)
  from Cons.prems obtain n where n: "h a = Some n" "chain nxt h (nxt n) as" by (auto split: option.splits)
  have "a \<notin> set as"
  proof
    assume "a \<in> set as"
    then obtain bs cs where as: "as = bs @ a # cs" by (auto simp: in_set_conv_decomp)
    have "chain nxt h (Some a) (a # cs)" using chain_suffix n(2) as by blast
    moreover have "chain nxt h (Some a) (a # as)" using n by simp
    ultimately have "a # cs = a # as" by (rule chain_unique)
    with as show False by simp
  qed
  with Cons.IH [OF n(2)] show ?case by simp
qed simp

lemma chain_cong:
  "(\<And>a. a \<in> set as \<Longrightarrow> map_option nxt (h' a) = map_option nxt (h a)) \<Longrightarrow> chain nxt h' p as = chain nxt h p as"
proof (induction as arbitrary: p)
  case (Cons a as)
  have 1: "chain nxt h' q as = chain nxt h q as" for q by (rule Cons.IH) (simp add: Cons.prems)
  have 2: "map_option nxt (h' a) = map_option nxt (h a)" by (rule Cons.prems) simp
  show ?case
  proof (cases "h a")
    case None
    then show ?thesis using 2 by simp
  next
    case (Some n)
    then obtain n' where "h' a = Some n'" "nxt n' = nxt n" using 2 by auto
    then show ?thesis using 1 Some by simp
  qed
qed simp

lemma chain_other: "a \<notin> set as \<Longrightarrow> chain nxt (h(a := x)) p as = chain nxt h p as"
  by (rule chain_cong) auto

lemma chain_same_next:
  "h a = Some n \<Longrightarrow> nxt n' = nxt n \<Longrightarrow> chain nxt (h(a := Some n')) p as = chain nxt h p as"
  by (rule chain_cong) auto

lemma chain_insert:
  assumes "chain nxt h p as" and "h a = None" and "nxt n = p"
  shows "chain nxt (h(a := Some n)) (Some a) (a # as)"
proof -
  have "a \<notin> set as" using chain_dom [OF assms(1)] assms(2) by auto
  then show ?thesis using assms by (simp add: chain_other)
qed

text \<open>Unlinking: the node before is redirected past the node, which is then freed.\<close>

lemma chain_unlink_head:
  assumes "chain nxt h p (a # as)" and "h a = Some n"
  shows "chain nxt (h(a := None)) (nxt n) as"
  using assms chain_distinct [OF assms(1)] by (simp add: chain_other)

lemma chain_unlink:
  assumes "chain nxt h p (as @ b # a # cs)" and "h b = Some m" and "h a = Some n" and "nxt m' = nxt n"
  shows "chain nxt (h(b := Some m', a := None)) p (as @ b # cs)"
  using assms
proof (induction as arbitrary: p)
  case Nil
  then have "a \<noteq> b" "a \<notin> set cs" "b \<notin> set cs" using chain_distinct [OF Nil(1)] by auto
  then have "chain nxt (h(b := Some m', a := None)) q cs = chain nxt h q cs" for q by (simp add: chain_other)
  moreover have "(h(b := Some m', a := None)) b = Some m'" using \<open>a \<noteq> b\<close> by simp
  moreover have "p = Some b" "chain nxt h (nxt m') cs" using Nil by simp_all
  ultimately show ?case by (simp only: append_Nil chain_Cons)
next
  case (Cons c as)
  then have c: "c \<noteq> b" "c \<noteq> a" using chain_distinct [OF Cons.prems(1)] by auto
  obtain n' where n': "p = Some c" "h c = Some n'" "chain nxt h (nxt n') (as @ b # a # cs)"
    using Cons.prems(1) by (auto split: option.splits)
  have "chain nxt (h(b := Some m', a := None)) (nxt n') (as @ b # cs)"
    by (rule Cons.IH [OF n'(3) Cons.prems(2-4)])
  moreover have "(h(b := Some m', a := None)) c = Some n'" using n' c by simp
  ultimately show ?case using n'(1) by (simp only: append_Cons chain_Cons)
qed

text \<open>Appending: the last node is redirected to a new node.\<close>

lemma chain_extend:
  assumes "chain nxt h p (as @ [b])" and "h b = Some m" and "h a = None" and "nxt m' = Some a" and "nxt n = None"
  shows "chain nxt (h(a := Some n, b := Some m')) p (as @ [b, a])"
  using assms
proof (induction as arbitrary: p)
  case Nil
  then have "a \<noteq> b" by auto
  with Nil show ?case by auto
next
  case (Cons c as)
  obtain n' where n': "p = Some c" "h c = Some n'" "chain nxt h (nxt n') (as @ [b])"
    using Cons.prems(1) by (auto split: option.splits)
  have c: "c \<noteq> b" "c \<noteq> a" using chain_distinct [OF Cons.prems(1)] n'(2) Cons.prems(3) by auto
  have "chain nxt (h(a := Some n, b := Some m')) (nxt n') (as @ [b, a])"
    by (rule Cons.IH [OF n'(3) Cons.prems(2-5)])
  moreover have "(h(a := Some n, b := Some m')) c = Some n'" using n' c by simp
  ultimately show ?case using n'(1) by (simp only: append_Cons chain_Cons)
qed

text \<open>
  A new node on the heap comes from the allocator, a parameter that may fail, but not as long
  as fewer than \<open>cap\<close> nodes are allocated.
\<close>

locale allocator =
  fixes alloc :: "'n heap \<Rightarrow> nat option" and cap :: nat
  assumes fresh: "alloc h = Some a \<Longrightarrow> h a = None"
    and room: "finite (dom h) \<Longrightarrow> card (dom h) < cap \<Longrightarrow> alloc h \<noteq> None"

text \<open>An allocator with a bounded number of places.\<close>

definition first_free :: "nat \<Rightarrow> 'n heap \<Rightarrow> nat option" where
  "first_free n h = find (\<lambda>a. h a = None) [0..<n]"

interpretation first: allocator "first_free n" n
proof (unfold_locales, goal_cases)
  case (2 h)
  show ?case
  proof
    assume "first_free n h = None"
    then have "{0..<n} \<subseteq> dom h" by (auto simp: first_free_def find_None_iff)
    then have "n \<le> card (dom h)" using 2(1) by (metis card_atLeastLessThan card_mono minus_nat.diff_0)
    with 2(2) show False by simp
  qed
qed (auto simp: first_free_def find_Some_iff)

end
