(* ===== verification/Net_Listeners.thy ===== *)
theory Net_Listeners
  imports Heap_List
begin

text \<open>
  The list of registered network listeners (applications/services/net/net_listeners), a
  linked list on the heap. The lemmas relate it to the list of the listeners themselves: a
  new one goes to the end, and removing takes out the first one with the address given.
\<close>

datatype net_listener_type = NetListenerTypeHttp | NetListenerTypeTcp

text \<open>Handlers and contexts are named by numbers. A node and its copy of the address are freed together.\<close>

record listener_info =
  l_type :: net_listener_type
  l_uri :: string
  l_fn :: nat
  l_context :: nat

record net_listener =
  info :: listener_info
  next_listener :: "nat option"

text \<open>The walk to the last node.\<close>

fun last_loop :: "nat \<Rightarrow> net_listener heap \<Rightarrow> nat \<Rightarrow> nat res" where
  "last_loop 0 h current = Inl Blocked"
| "last_loop (Suc n) h current =
     rbind (hget h current) (\<lambda>c. case next_listener c of
       None \<Rightarrow> Inr current
     | Some a \<Rightarrow> last_loop n h a)"

text \<open>\<open>uri_alloc\<close> says whether there is memory for the copy of the address.\<close>

definition net_listeners_add ::
  "nat \<Rightarrow> (net_listener heap \<Rightarrow> nat option) \<Rightarrow> (string \<Rightarrow> bool) \<Rightarrow> listener_info \<Rightarrow>
     nat option \<Rightarrow> net_listener heap \<Rightarrow> (nat option \<times> net_listener heap) res" where
  "net_listeners_add n alloc uri_alloc x listeners h =
     (case alloc h of
        None \<Rightarrow> Inl AssertFailed
      | Some a \<Rightarrow>
          rhs_assert (uri_alloc (l_uri x))
            (let h1 = h(a := Some \<lparr>info = x, next_listener = None\<rparr>) in
             case listeners of
               None \<Rightarrow> Inr (Some a, h1)
             | Some p \<Rightarrow>
                 rbind (last_loop n h1 p) (\<lambda>current.
                 rbind (hget h1 current) (\<lambda>c.
                 rbind (hset h1 current (c\<lparr>next_listener := Some a\<rparr>)) (\<lambda>h2.
                 Inr (listeners, h2))))))"

fun remove_listener_loop ::
  "nat \<Rightarrow> string \<Rightarrow> nat option \<Rightarrow> nat option \<Rightarrow> nat option \<Rightarrow> net_listener heap \<Rightarrow>
     (bool \<times> nat option \<times> net_listener heap) res" where
  "remove_listener_loop n uri listeners previous None h = Inr (False, listeners, h)"
| "remove_listener_loop 0 uri listeners previous (Some a) h = Inl Blocked"
| "remove_listener_loop (Suc n) uri listeners previous (Some a) h =
     rbind (hget h a) (\<lambda>c.
       if l_uri (info c) = uri then
         rbind (case previous of
             None \<Rightarrow> Inr (next_listener c, h)
           | Some b \<Rightarrow> rbind (hget h b) (\<lambda>d. rbind (hset h b (d\<lparr>next_listener := next_listener c\<rparr>)) (\<lambda>h'. Inr (listeners, h'))))
           (\<lambda>(listeners', h').
         rbind (hfree h' a) (\<lambda>h''. Inr (True, listeners', h'')))
       else remove_listener_loop n uri listeners (Some a) (next_listener c) h)"

definition net_listeners_remove ::
  "nat \<Rightarrow> string \<Rightarrow> nat option \<Rightarrow> net_listener heap \<Rightarrow> (bool \<times> nat option \<times> net_listener heap) res" where
  "net_listeners_remove n uri listeners h =
     (if listeners = None then Inr (False, listeners, h)
      else remove_listener_loop n uri listeners None listeners h)"

section \<open>The listeners in order\<close>

definition registered :: "net_listener heap \<Rightarrow> nat option \<Rightarrow> nat list \<Rightarrow> listener_info list \<Rightarrow> bool" where
  "registered h p as xs \<longleftrightarrow> chain next_listener h p as \<and> list_all2 (\<lambda>a x. map_option info (h a) = Some x) as xs"

fun drop_uri :: "string \<Rightarrow> listener_info list \<Rightarrow> listener_info list" where
  "drop_uri u [] = []"
| "drop_uri u (x # xs) = (if l_uri x = u then xs else x # drop_uri u xs)"

lemma registered_Nil [simp]: "registered h p [] xs \<longleftrightarrow> p = None \<and> xs = []"
  by (auto simp: registered_def)

lemma registered_None [simp]: "registered h None as xs \<longleftrightarrow> as = [] \<and> xs = []"
  by (auto simp: registered_def)

lemma registered_Some:
  "registered h (Some a) as xs \<longleftrightarrow>
   (\<exists>c bs ys. as = a # bs \<and> xs = info c # ys \<and> h a = Some c \<and> registered h (next_listener c) bs ys)"
  by (auto simp: registered_def chain_Some list_all2_Cons1)

lemma registered_length: "registered h p as xs \<Longrightarrow> length xs = length as"
  by (auto simp: registered_def list_all2_lengthD)

lemma last_loop_chain:
  "chain next_listener h (Some p) (as @ [b]) \<Longrightarrow> length as < n \<Longrightarrow> last_loop n h p = Inr b"
proof (induction n arbitrary: p as)
  case (Suc n)
  show ?case
  proof (cases as)
    case Nil
    then show ?thesis using Suc.prems(1) by (auto split: option.splits)
  next
    case (Cons a as')
    then obtain c q where c: "p = a" "h a = Some c" "next_listener c = Some q" "chain next_listener h (Some q) (as' @ [b])"
      using Suc.prems(1) by (cases as') (auto split: option.splits)
    then show ?thesis using Suc.IH [OF c(4)] Suc.prems(2) Cons by simp
  qed
qed simp

lemma add_registered:
  assumes "registered h p as xs" and "h a = None" and "alloc h = Some a" and "uri_alloc (l_uri x)" and "length as \<le> n"
  obtains p' h' where "net_listeners_add n alloc uri_alloc x p h = Inr (p', h')" "registered h' p' (as @ [a]) (xs @ [x])"
    "dom h' = insert a (dom h)"
proof (cases as rule: rev_cases)
  case Nil
  then show thesis using assms
    by (intro that [of "Some a" "h(a := Some \<lparr>info = x, next_listener = None\<rparr>)"])
      (auto simp: net_listeners_add_def rhs_assert_def registered_Some)
next
  case (snoc bs b)
  let ?n = "\<lparr>info = x, next_listener = None\<rparr>"
  have c: "chain next_listener h p (bs @ [b])" using assms(1) snoc by (simp add: registered_def)
  obtain q where q: "p = Some q" using c by (cases bs) auto
  obtain m where m: "h b = Some m" using chain_dom [OF c] by auto
  have ab: "a \<noteq> b" "a \<notin> set as" using m assms(2) chain_dom [OF c] snoc by auto
  have "chain next_listener (h(a := Some ?n)) p (bs @ [b]) = chain next_listener h p (bs @ [b])"
    by (rule chain_other) (use ab snoc in simp)
  then have "last_loop n (h(a := Some ?n)) q = Inr b"
    using c q assms(5) snoc last_loop_chain [of "h(a := Some ?n)" q bs b n] by (simp add: Suc_le_eq)
  then have run: "net_listeners_add n alloc uri_alloc x p h =
      Inr (p, h(a := Some ?n, b := Some (m\<lparr>next_listener := Some a\<rparr>)))" (is "_ = Inr (p, ?h)")
    using assms(3,4) q m ab by (simp add: net_listeners_add_def rhs_assert_def Let_def)
  have "chain next_listener ?h p (bs @ [b, a])" by (rule chain_extend [OF c m assms(2)]) simp_all
  moreover have "list_all2 (\<lambda>a x. map_option info (?h a) = Some x) (as @ [a]) (xs @ [x])"
  proof (rule list_all2_appendI)
    have "list_all2 (\<lambda>a x. map_option info (h a) = Some x) as xs" using assms(1) by (simp add: registered_def)
    then show "list_all2 (\<lambda>a x. map_option info (?h a) = Some x) as xs"
      by (rule list.rel_mono_strong) (use ab m in auto)
  qed (use ab in simp)
  ultimately have "registered ?h p (as @ [a]) (xs @ [x])" using snoc by (simp add: registered_def)
  with run show thesis using m by (intro that [of p ?h]) auto
qed

text \<open>The nodes passed do not have the address; the last of them is \<open>previous\<close>.\<close>

lemma remove_loop_registered:
  assumes "registered h listeners (ps @ as) (us @ xs)" and "length ps = length us" and "registered h p as xs"
    and "length as \<le> n" and "\<forall>u\<in>set us. l_uri u \<noteq> uri" and "previous = (if ps = [] then None else Some (last ps))"
  shows "\<exists>l' h' bs. remove_listener_loop n uri listeners previous p h = Inr (\<exists>x\<in>set xs. l_uri x = uri, l', h') \<and>
    registered h' l' bs (us @ drop_uri uri xs) \<and> set bs \<subseteq> set (ps @ as) \<and> dom h' = dom h - (set (ps @ as) - set bs)"
  using assms
proof (induction as arbitrary: n p ps us xs previous)
  case Nil
  then have "xs = []" "p = None" by simp_all
  then show ?case using Nil.prems(1) by (intro exI [of _ listeners] exI [of _ h] exI [of _ ps]) auto
next
  case (Cons a as)
  then obtain m where n: "n = Suc m" by (cases n) simp_all
  obtain c ys where c: "p = Some a" "h a = Some c" "xs = info c # ys" "registered h (next_listener c) as ys"
    using Cons.prems(3) by (cases p) (auto simp: registered_Some)
  have "chain next_listener h listeners (ps @ a # as)" using Cons.prems(1) by (simp add: registered_def)
  then have dist: "distinct (ps @ a # as)" by (rule chain_distinct)
  show ?case
  proof (cases "l_uri (info c) = uri")
    case False
    have "\<exists>l' h' bs. remove_listener_loop m uri listeners (Some a) (next_listener c) h = Inr (\<exists>x\<in>set ys. l_uri x = uri, l', h') \<and>
      registered h' l' bs ((us @ [info c]) @ drop_uri uri ys) \<and> set bs \<subseteq> set ((ps @ [a]) @ as) \<and>
      dom h' = dom h - (set ((ps @ [a]) @ as) - set bs)"
      by (rule Cons.IH) (use Cons.prems n c False in auto)
    then show ?thesis using c n False by auto
  next
    case True
    have all: "list_all2 (\<lambda>a x. map_option info (h a) = Some x) (ps @ as) (us @ ys)"
      using Cons.prems(1,2) c(3) by (auto simp: registered_def list_all2_append)
    show ?thesis
    proof (cases ps rule: rev_cases)
      case Nil
      have "chain next_listener (h(a := None)) (next_listener c) as"
        using chain_unlink_head [of next_listener h listeners a as c] Cons.prems(1) c(2) Nil by (simp add: registered_def)
      moreover have "list_all2 (\<lambda>b x. map_option info ((h(a := None)) b) = Some x) (ps @ as) (us @ ys)"
        by (rule list.rel_mono_strong [OF all]) (use dist in auto)
      ultimately have "registered (h(a := None)) (next_listener c) as (us @ ys)" using Nil by (simp add: registered_def)
      moreover have "remove_listener_loop n uri listeners previous p h = Inr (True, next_listener c, h(a := None))"
        using n c True Nil Cons.prems(6) by simp
      moreover have "dom (h(a := None)) = dom h - (set (ps @ a # as) - set as)" using Nil dist c(2) by auto
      ultimately show ?thesis using True c(3) Nil by (intro exI [of _ "next_listener c"] exI [of _ "h(a := None)"] exI [of _ as])
        (simp add: subset_insertI del: fun_upd_apply dom_fun_upd)
    next
      case (snoc qs b)
      have ch: "chain next_listener h listeners (qs @ b # a # as)" using Cons.prems(1) snoc by (simp add: registered_def)
      obtain d where d: "h b = Some d" using chain_dom [OF ch] by auto
      have ab: "a \<noteq> b" using dist snoc by auto
      let ?h = "h(b := Some (d\<lparr>next_listener := next_listener c\<rparr>), a := None)"
      have "chain next_listener ?h listeners (qs @ b # as)" by (rule chain_unlink [OF ch d c(2)]) simp
      moreover have "list_all2 (\<lambda>b x. map_option info (?h b) = Some x) (ps @ as) (us @ ys)"
        by (rule list.rel_mono_strong [OF all]) (use dist d in auto)
      ultimately have "registered ?h listeners (ps @ as) (us @ ys)" using snoc by (simp add: registered_def)
      moreover have "remove_listener_loop n uri listeners previous p h = Inr (True, listeners, ?h)"
        using n c d ab True snoc Cons.prems(6) by simp
      moreover have "dom ?h = dom h - (set (ps @ a # as) - set (ps @ as))" using dist d c(2) snoc by auto
      ultimately show ?thesis using True c(3) by (intro exI [of _ listeners] exI [of _ ?h] exI [of _ "ps @ as"])
        (auto simp del: fun_upd_apply dom_fun_upd)
    qed
  qed
qed

lemma remove_registered:
  assumes "registered h p as xs" and "length as \<le> n"
  obtains p' h' bs where "net_listeners_remove n uri p h = Inr (\<exists>x\<in>set xs. l_uri x = uri, p', h')"
    "registered h' p' bs (drop_uri uri xs)" "set bs \<subseteq> set as" "dom h' = dom h - (set as - set bs)"
proof (cases p)
  case None
  then have "as = []" "xs = []" using assms(1) by simp_all
  then show thesis using None by (intro that [of None h "[]"]) (simp_all add: net_listeners_remove_def)
next
  case (Some a)
  obtain l' h' bs where "remove_listener_loop n uri p None p h = Inr (\<exists>x\<in>set xs. l_uri x = uri, l', h')"
    "registered h' l' bs ([] @ drop_uri uri xs)" "set bs \<subseteq> set ([] @ as)" "dom h' = dom h - (set ([] @ as) - set bs)"
    using remove_loop_registered [of h p "[]" as "[]" xs p n uri None] assms by auto
  then show thesis using Some by (intro that [of l' h' bs]) (simp_all add: net_listeners_remove_def)
qed

end
