(* ===== verification/Net_Worker.thy ===== *)
theory Net_Worker
  imports Net_Listeners Net_Utils
begin

text \<open>
  The event loop of the network manager (applications/services/net/net.c): it polls the
  network library, handles one message of its queue at a time, keeps the list of listeners
  and listens again on all of them after a restart. The library is a parameter. The
  abstract specification keeps the listeners in a plain list; the lemmas show that the loop
  follows it, and what the clean-up after a stop does.
\<close>

section \<open>The network library\<close>

record mg_conn =
  is_listening :: bool
  loc_port :: u16
  is_closing :: bool

text \<open>What the code touches of the manager and its interface; \<open>mg_rest\<close> is the rest of its state.\<close>

record 'm mg_mgr =
  conns :: "mg_conn list"
  if_ip :: u32
  if_mask :: u32
  if_gw :: u32
  mg_rest :: 'm

text \<open>\<open>mg_aton_url\<close> says whether the host of an address parses.\<close>

record 'm mongoose =
  mg_mgr_poll :: "'m mg_mgr \<Rightarrow> 'm mg_mgr"
  mg_http_listen :: "string \<Rightarrow> nat \<Rightarrow> nat \<Rightarrow> 'm mg_mgr \<Rightarrow> 'm mg_mgr"
  mg_listen :: "string \<Rightarrow> nat \<Rightarrow> nat \<Rightarrow> 'm mg_mgr \<Rightarrow> 'm mg_mgr"
  mg_url_port :: "string \<Rightarrow> u16"
  mg_aton_url :: "string \<Rightarrow> bool"
  mg_htons :: "u16 \<Rightarrow> u16"
  MG_IPV4 :: "u32 \<Rightarrow> u32 \<Rightarrow> u32 \<Rightarrow> u32 \<Rightarrow> u32"

section \<open>The worker\<close>

datatype net_event =
    NetApiEventTypeSetHttp string nat nat
  | NetApiEventTypeSetTcp string nat nat
  | NetApiEventTypeRstTcp string
  | NetApiEventTypeRestart string string string
  | NetApiEventTypeStop

text \<open>\<open>unlocked\<close> are the locks opened so far, for the callers that wait.\<close>

record 'm net =
  mgr :: "'m mg_mgr"
  listeners :: "nat option"
  nodes :: "net_listener heap"
  unlocked :: "nat list"

text \<open>\<open>walk\<close> is how many nodes the model follows.\<close>

record 'm net_env =
  mg :: "'m mongoose"
  node_alloc :: "net_listener heap \<Rightarrow> nat option"
  uri_alloc :: "string \<Rightarrow> bool"
  walk :: nat

definition start_listener :: "'m mongoose \<Rightarrow> listener_info \<Rightarrow> 'm mg_mgr \<Rightarrow> 'm mg_mgr" where
  "start_listener M x m = (case l_type x of
     NetListenerTypeHttp \<Rightarrow> mg_http_listen M (l_uri x) (l_fn x) (l_context x) m
   | NetListenerTypeTcp \<Rightarrow> mg_listen M (l_uri x) (l_fn x) (l_context x) m)"

definition net_add :: "'m net_env \<Rightarrow> listener_info \<Rightarrow> 'm net \<Rightarrow> 'm net res" where
  "net_add E x s =
     rbind (net_listeners_add (walk E) (node_alloc E) (uri_alloc E) x (listeners s) (nodes s)) (\<lambda>(p, h).
     Inr (s\<lparr>mgr := start_listener (mg E) x (mgr s), listeners := p, nodes := h\<rparr>))"

definition close_listening :: "'m mongoose \<Rightarrow> u16 \<Rightarrow> 'm mg_mgr \<Rightarrow> 'm mg_mgr" where
  "close_listening M port m =
     m\<lparr>conns := map (\<lambda>c. if is_listening c \<and> loc_port c = mg_htons M port then c\<lparr>is_closing := True\<rparr> else c) (conns m)\<rparr>"

definition close_all :: "'m mg_mgr \<Rightarrow> 'm mg_mgr" where
  "close_all m = m\<lparr>conns := map (\<lambda>c. c\<lparr>is_closing := True\<rparr>) (conns m)\<rparr>"

text \<open>An address that does not parse leaves the old one.\<close>

definition parsed :: "'m mongoose \<Rightarrow> string \<Rightarrow> u32 option" where
  "parsed M t = (case string_to_ip (Some t) (Some (0, 0, 0, 0)) of
     (r, out) \<Rightarrow> if r = 0 then (case out of Some (a, b, c, d) \<Rightarrow> Some (MG_IPV4 M a b c d) | None \<Rightarrow> None) else None)"

definition configure :: "'m mongoose \<Rightarrow> string \<Rightarrow> string \<Rightarrow> string \<Rightarrow> 'm mg_mgr \<Rightarrow> 'm mg_mgr" where
  "configure M ip msk gateway m =
     (let m1 = (case parsed M ip of Some v \<Rightarrow> m\<lparr>if_ip := v\<rparr> | None \<Rightarrow> m);
          m2 = (case parsed M msk of Some v \<Rightarrow> m1\<lparr>if_mask := v\<rparr> | None \<Rightarrow> m1) in
      case parsed M gateway of Some v \<Rightarrow> m2\<lparr>if_gw := v\<rparr> | None \<Rightarrow> m2)"

fun restore_loop :: "nat \<Rightarrow> 'm mongoose \<Rightarrow> net_listener heap \<Rightarrow> nat option \<Rightarrow> 'm mg_mgr \<Rightarrow> 'm mg_mgr res" where
  "restore_loop n M h None m = Inr m"
| "restore_loop 0 M h (Some a) m = Inl Blocked"
| "restore_loop (Suc n) M h (Some a) m =
     rbind (hget h a) (\<lambda>c. restore_loop n M h (next_listener c) (start_listener M (info c) m))"

definition net_handle :: "'m net_env \<Rightarrow> net_event \<Rightarrow> 'm net \<Rightarrow> 'm net res" where
  "net_handle E e s = (case e of
     NetApiEventTypeSetHttp uri fn cx \<Rightarrow>
       net_add E \<lparr>l_type = NetListenerTypeHttp, l_uri = uri, l_fn = fn, l_context = cx\<rparr> s
   | NetApiEventTypeSetTcp uri fn cx \<Rightarrow>
       net_add E \<lparr>l_type = NetListenerTypeTcp, l_uri = uri, l_fn = fn, l_context = cx\<rparr> s
   | NetApiEventTypeRstTcp uri \<Rightarrow>
       (if mg_aton_url (mg E) uri then
          rbind (net_listeners_remove (walk E) uri (listeners s) (nodes s)) (\<lambda>(_, p, h).
          Inr (s\<lparr>mgr := mg_mgr_poll (mg E) (close_listening (mg E) (mg_url_port (mg E) uri) (mgr s)),
            listeners := p, nodes := h\<rparr>))
        else Inr s)
   | NetApiEventTypeRestart ip msk gateway \<Rightarrow>
       rbind (restore_loop (walk E) (mg E) (nodes s) (listeners s)
           (mg_mgr_poll (mg E) (close_all (configure (mg E) ip msk gateway (mgr s))))) (\<lambda>m.
       Inr (s\<lparr>mgr := m\<rparr>))
   | NetApiEventTypeStop \<Rightarrow> Inr s)"

text \<open>
  The rounds of the loop: each polls and then takes a message with its lock, if there is
  one. The result says whether the loop was left by a stop.
\<close>

fun net_loop :: "'m net_env \<Rightarrow> (net_event \<times> nat option) option list \<Rightarrow> 'm net \<Rightarrow> (bool \<times> 'm net) res" where
  "net_loop E [] s = Inr (False, s)"
| "net_loop E (r # rs) s =
     (let s1 = s\<lparr>mgr := mg_mgr_poll (mg E) (mgr s)\<rparr> in
      case r of
        None \<Rightarrow> net_loop E rs s1
      | Some (e, lock) \<Rightarrow>
          if e = NetApiEventTypeStop then Inr (True, s1)
          else rbind (net_handle E e s1) (\<lambda>s2.
            net_loop E rs (case lock of None \<Rightarrow> s2 | Some l \<Rightarrow> s2\<lparr>unlocked := unlocked s2 @ [l]\<rparr>)))"

text \<open>The loop that removes the listeners at the end reads the next pointer of a node after its removal.\<close>

fun stop_loop :: "nat \<Rightarrow> nat \<Rightarrow> nat option \<Rightarrow> nat option \<Rightarrow> net_listener heap \<Rightarrow> (nat option \<times> net_listener heap) res" where
  "stop_loop n k None p h = Inr (p, h)"
| "stop_loop n 0 (Some a) p h = Inl Blocked"
| "stop_loop n (Suc k) (Some a) p h =
     rbind (hget h a) (\<lambda>c.
     rbind (net_listeners_remove n (l_uri (info c)) p h) (\<lambda>(_, p', h').
     rbind (hget h' a) (\<lambda>c'. stop_loop n k (next_listener c') p' h')))"

definition net_worker :: "'m net_env \<Rightarrow> (net_event \<times> nat option) option list \<Rightarrow> 'm net \<Rightarrow> 'm net res" where
  "net_worker E rs s =
     rbind (net_loop E rs s) (\<lambda>(stopped, s').
     if stopped then
       rbind (stop_loop (walk E) (walk E) (listeners s') (listeners s') (nodes s')) (\<lambda>(p, h).
       Inr (s'\<lparr>listeners := p, nodes := h\<rparr>))
     else Inr s')"

text \<open>The bytes of the interface's addresses, the first one first, printed into the three buffers.\<close>

definition byte_of :: "nat \<Rightarrow> u32 \<Rightarrow> u32" where
  "byte_of k w = drop_bit (8 * k) w AND 0xFF"

definition print_address :: "u32 \<Rightarrow> string \<Rightarrow> string option" where
  "print_address w old = snd (ip_to_string (byte_of 0 w) (byte_of 1 w) (byte_of 2 w) (byte_of 3 w) (Some old))"

definition net_get_config :: "'m net \<Rightarrow> string \<times> string \<times> string \<Rightarrow> string option \<times> string option \<times> string option" where
  "net_get_config s old = (case old of (ip, msk, gw) \<Rightarrow>
     (print_address (if_ip (mgr s)) ip, print_address (if_mask (mgr s)) msk, print_address (if_gw (mgr s)) gw))"

section \<open>The specification\<close>

text \<open>The manager and the listeners in the order in which they were registered.\<close>

fun spec_event :: "'m mongoose \<Rightarrow> net_event \<Rightarrow> 'm mg_mgr \<times> listener_info list \<Rightarrow> 'm mg_mgr \<times> listener_info list" where
  "spec_event M (NetApiEventTypeSetHttp u f c) (m, xs) =
     (mg_http_listen M u f c m, xs @ [\<lparr>l_type = NetListenerTypeHttp, l_uri = u, l_fn = f, l_context = c\<rparr>])"
| "spec_event M (NetApiEventTypeSetTcp u f c) (m, xs) =
     (mg_listen M u f c m, xs @ [\<lparr>l_type = NetListenerTypeTcp, l_uri = u, l_fn = f, l_context = c\<rparr>])"
| "spec_event M (NetApiEventTypeRstTcp u) (m, xs) =
     (if mg_aton_url M u then (mg_mgr_poll M (close_listening M (mg_url_port M u) m), drop_uri u xs) else (m, xs))"
| "spec_event M (NetApiEventTypeRestart ip msk gw) (m, xs) =
     (fold (start_listener M) xs (mg_mgr_poll M (close_all (configure M ip msk gw m))), xs)"
| "spec_event M NetApiEventTypeStop (m, xs) = (m, xs)"

definition spec_round :: "'m mongoose \<Rightarrow> (net_event \<times> nat option) option \<Rightarrow> 'm mg_mgr \<times> listener_info list \<Rightarrow> 'm mg_mgr \<times> listener_info list" where
  "spec_round M r = (\<lambda>(m, xs). case r of None \<Rightarrow> (mg_mgr_poll M m, xs) | Some (e, _) \<Rightarrow> spec_event M e (mg_mgr_poll M m, xs))"

fun locks_of :: "(net_event \<times> nat option) option list \<Rightarrow> nat list" where
  "locks_of [] = []"
| "locks_of (r # rs) = (case r of Some (_, Some l) \<Rightarrow> l # locks_of rs | _ \<Rightarrow> locks_of rs)"

text \<open>The nodes of the state hold the listeners, and the heap has place for \<open>k\<close> more nodes.\<close>

definition holds :: "'m net_env \<Rightarrow> nat \<Rightarrow> nat \<Rightarrow> 'm net \<Rightarrow> listener_info list \<Rightarrow> bool" where
  "holds E cap k s xs \<longleftrightarrow> allocator (node_alloc E) cap \<and> (\<forall>u. uri_alloc E u) \<and> finite (dom (nodes s)) \<and>
     card (dom (nodes s)) + k \<le> cap \<and> length xs + k \<le> walk E \<and> (\<exists>as. registered (nodes s) (listeners s) as xs)"

lemma restore_loop_registered:
  "registered h p as xs \<Longrightarrow> length as \<le> n \<Longrightarrow> restore_loop n M h p m = Inr (fold (start_listener M) xs m)"
proof (induction as arbitrary: n p xs m)
  case (Cons a as)
  then obtain k where n: "n = Suc k" by (cases n) simp_all
  obtain c ys where "p = Some a" "h a = Some c" "xs = info c # ys" "registered h (next_listener c) as ys"
    using Cons.prems(1) by (cases p) (auto simp: registered_Some)
  then show ?case using Cons.IH [of "next_listener c" ys k] Cons.prems(2) n by simp
qed simp

lemma net_add_holds:
  assumes "holds E cap (Suc k) s xs"
  shows "\<exists>s'. net_add E x s = Inr s' \<and> holds E cap k s' (xs @ [x]) \<and> mgr s' = start_listener (mg E) x (mgr s) \<and> unlocked s' = unlocked s"
proof -
  have a: "allocator (node_alloc E) cap" "uri_alloc E (l_uri x)" "finite (dom (nodes s))" "card (dom (nodes s)) < cap"
    using assms by (auto simp: holds_def)
  obtain as where as: "registered (nodes s) (listeners s) as xs" "length as \<le> walk E"
    using assms registered_length by (fastforce simp: holds_def)
  obtain a where n: "node_alloc E (nodes s) = Some a" "nodes s a = None"
    using allocator.room [OF a(1,3,4)] allocator.fresh [OF a(1)] by blast
  obtain p' h' where 1: "net_listeners_add (walk E) (node_alloc E) (uri_alloc E) x (listeners s) (nodes s) = Inr (p', h')"
    "registered h' p' (as @ [a]) (xs @ [x])" "dom h' = insert a (dom (nodes s))"
    by (rule add_registered [where alloc = "node_alloc E" and uri_alloc = "uri_alloc E", OF as(1) n(2,1) a(2) as(2)])
  have "finite (dom h')" "card (dom h') = Suc (card (dom (nodes s)))"
    using 1(3) a(3) n(2) by (auto simp: card_insert_if domIff)
  then show ?thesis using 1 assms by (auto simp: net_add_def holds_def)
qed

lemma net_handle_holds:
  assumes "holds E cap (Suc k) s xs" and "e \<noteq> NetApiEventTypeStop"
  shows "\<exists>s'. net_handle E e s = Inr s' \<and> unlocked s' = unlocked s \<and>
    (case spec_event (mg E) e (mgr s, xs) of (m, ys) \<Rightarrow> mgr s' = m \<and> holds E cap k s' ys)"
proof (cases e)
  case (NetApiEventTypeSetHttp u f c)
  then show ?thesis using net_add_holds [OF assms(1)] by (fastforce simp: net_handle_def start_listener_def)
next
  case (NetApiEventTypeSetTcp u f c)
  then show ?thesis using net_add_holds [OF assms(1)] by (fastforce simp: net_handle_def start_listener_def)
next
  case (NetApiEventTypeRstTcp u)
  obtain as where as: "registered (nodes s) (listeners s) as xs" "length as \<le> walk E"
    using assms(1) registered_length by (fastforce simp: holds_def)
  obtain p' h' bs where 1: "net_listeners_remove (walk E) u (listeners s) (nodes s) = Inr (\<exists>x\<in>set xs. l_uri x = u, p', h')"
    "registered h' p' bs (drop_uri u xs)" "dom h' = dom (nodes s) - (set as - set bs)"
    by (rule remove_registered [OF as])
  have "length (drop_uri u xs) \<le> length xs" by (induction xs) auto
  moreover have "finite (dom h')" "card (dom h') \<le> card (dom (nodes s))"
    using 1(3) assms(1) by (auto simp: holds_def intro: card_mono)
  ultimately have "holds E cap k (s\<lparr>mgr := m, listeners := p', nodes := h'\<rparr>) (drop_uri u xs)" for m
    using assms(1) 1(2) by (auto simp: holds_def)
  moreover have "holds E cap k s xs" using assms(1) by (auto simp: holds_def)
  ultimately show ?thesis using NetApiEventTypeRstTcp 1(1) by (simp add: net_handle_def)
next
  case (NetApiEventTypeRestart ip msk gw)
  obtain as where as: "registered (nodes s) (listeners s) as xs" "length as \<le> walk E"
    using assms(1) registered_length by (fastforce simp: holds_def)
  have "holds E cap k (s\<lparr>mgr := m\<rparr>) xs" for m using assms(1) by (auto simp: holds_def)
  then show ?thesis using NetApiEventTypeRestart by (simp add: net_handle_def restore_loop_registered [OF as])
qed (use assms in simp)

lemma net_loop_holds:
  assumes "holds E cap (length rs) s xs" and "\<forall>r\<in>set rs. \<forall>e l. r = Some (e, l) \<longrightarrow> e \<noteq> NetApiEventTypeStop"
  shows "\<exists>s'. net_loop E rs s = Inr (False, s') \<and> unlocked s' = unlocked s @ locks_of rs \<and>
    mgr s' = fst (fold (spec_round (mg E)) rs (mgr s, xs)) \<and> holds E cap 0 s' (snd (fold (spec_round (mg E)) rs (mgr s, xs)))"
  using assms
proof (induction rs arbitrary: s xs)
  case (Cons r rs)
  let ?s1 = "s\<lparr>mgr := mg_mgr_poll (mg E) (mgr s)\<rparr>"
  have h1: "holds E cap (Suc (length rs)) ?s1 xs" using Cons.prems(1) by (simp add: holds_def)
  show ?case
  proof (cases r)
    case None
    have "holds E cap (length rs) ?s1 xs" using h1 by (auto simp: holds_def)
    from Cons.IH [OF this] Cons.prems(2) None show ?thesis by (auto simp: spec_round_def)
  next
    case (Some el)
    obtain e lock where el: "el = (e, lock)" by (cases el)
    then have e: "e \<noteq> NetApiEventTypeStop" using Cons.prems(2) Some by auto
    obtain m ys where my: "spec_event (mg E) e (mgr ?s1, xs) = (m, ys)" by (cases "spec_event (mg E) e (mgr ?s1, xs)")
    obtain s2 where s2: "net_handle E e ?s1 = Inr s2" "unlocked s2 = unlocked s" "mgr s2 = m" "holds E cap (length rs) s2 ys"
      using net_handle_holds [OF h1 e] my by auto
    let ?s3 = "case lock of None \<Rightarrow> s2 | Some l \<Rightarrow> s2\<lparr>unlocked := unlocked s2 @ [l]\<rparr>"
    have s3: "mgr ?s3 = m" "holds E cap (length rs) ?s3 ys" using s2(3,4) by (auto simp: holds_def split: option.splits)
    have "\<forall>r\<in>set rs. \<forall>e l. r = Some (e, l) \<longrightarrow> e \<noteq> NetApiEventTypeStop" using Cons.prems(2) by auto
    from Cons.IH [OF s3(2) this] obtain s' where s': "net_loop E rs ?s3 = Inr (False, s')"
      "unlocked s' = unlocked ?s3 @ locks_of rs"
      "mgr s' = fst (fold (spec_round (mg E)) rs (mgr ?s3, ys))" "holds E cap 0 s' (snd (fold (spec_round (mg E)) rs (mgr ?s3, ys)))"
      by (elim exE conjE) (rule that)
    have "net_loop E (r # rs) s = Inr (False, s')" using Some el e s2(1) s'(1) by (simp add: Let_def)
    moreover have "unlocked s' = unlocked s @ locks_of (r # rs)"
      using s'(2) s2(2) Some el by (auto split: option.splits)
    moreover have "fold (spec_round (mg E)) (r # rs) (mgr s, xs) = fold (spec_round (mg E)) rs (mgr ?s3, ys)"
      using Some el my s3(1) by (simp add: spec_round_def)
    ultimately show ?thesis using s'(3,4) by (intro exI [of _ s'] conjI) (simp_all only:)
  qed
qed simp

section \<open>Properties\<close>

text \<open>C15: While there is memory, any sequence of messages without a stop is handled as on a plain list of listeners: new
  listeners are started and go to the end, removing closes and takes out the first with the address, a restart
  configures the interface, closes every connection and listens again on every listener in order; and every caller that
  waits with a lock is let go, in order.\<close>

theorem net_worker_refines:
  assumes "allocator (node_alloc E) cap" and "\<forall>u. uri_alloc E u" and "finite (dom (nodes s))"
    and "card (dom (nodes s)) + length rs \<le> cap" and "length xs + length rs \<le> walk E"
    and "registered (nodes s) (listeners s) as xs"
    and "\<forall>r\<in>set rs. \<forall>e l. r = Some (e, l) \<longrightarrow> e \<noteq> NetApiEventTypeStop"
  shows "\<exists>s' as'. net_worker E rs s = Inr s' \<and> unlocked s' = unlocked s @ locks_of rs \<and>
     mgr s' = fst (fold (spec_round (mg E)) rs (mgr s, xs)) \<and>
     registered (nodes s') (listeners s') as' (snd (fold (spec_round (mg E)) rs (mgr s, xs)))"
proof -
  have "holds E cap (length rs) s xs" using assms(1-6) by (auto simp: holds_def)
  from net_loop_holds [OF this assms(7)] obtain s' where 1: "net_loop E rs s = Inr (False, s')"
    "unlocked s' = unlocked s @ locks_of rs"
    "mgr s' = fst (fold (spec_round (mg E)) rs (mgr s, xs))" "holds E cap 0 s' (snd (fold (spec_round (mg E)) rs (mgr s, xs)))"
    by (elim exE conjE) (rule that)
  then obtain as' where "registered (nodes s') (listeners s') as' (snd (fold (spec_round (mg E)) rs (mgr s, xs)))"
    unfolding holds_def by (elim conjE exE) (rule that)
  moreover have "net_worker E rs s = Inr s'" using 1(1) by (simp add: net_worker_def)
  ultimately show ?thesis using 1(2,3) by (intro exI [of _ s'] exI [of _ as'] conjI)
qed

text \<open>C16: A stop while a listener is registered reads a node that has just been freed.\<close>

theorem net_stop_use_after_free:
  assumes "registered (nodes s) (listeners s) as xs" and "xs \<noteq> []" and "length as \<le> walk E"
  shows "net_worker E [Some (NetApiEventTypeStop, lock)] s = Inl OutOfBounds"
proof -
  obtain a where a: "listeners s = Some a" using assms(1,2) by (cases "listeners s") auto
  then obtain c bs ys where c: "as = a # bs" "xs = info c # ys" "nodes s a = Some c"
    using assms(1) by (auto simp: registered_Some)
  obtain k where k: "walk E = Suc k" using assms(3) c(1) by (cases "walk E") auto
  have "net_listeners_remove (walk E) (l_uri (info c)) (Some a) (nodes s) =
      Inr (True, next_listener c, (nodes s)(a := None))"
    using c(3) k by (simp add: net_listeners_remove_def)
  then have "stop_loop (walk E) (walk E) (Some a) (Some a) (nodes s) = Inl OutOfBounds"
    using c(3) k by simp
  then show ?thesis using a by (simp add: net_worker_def)
qed

text \<open>A library that only records what is started, for the examples.\<close>

definition quiet_mg :: "string list mongoose" where
  "quiet_mg = \<lparr>mg_mgr_poll = (\<lambda>m. m), mg_http_listen = (\<lambda>u f c m. m\<lparr>mg_rest := mg_rest m @ [''http'' @ u]\<rparr>),
     mg_listen = (\<lambda>u f c m. m\<lparr>mg_rest := mg_rest m @ [''tcp'' @ u]\<rparr>),
     mg_url_port = (\<lambda>_. 80), mg_aton_url = (\<lambda>_. True), mg_htons = (\<lambda>p. p),
     MG_IPV4 = (\<lambda>a b c d. a OR push_bit 8 b OR push_bit 16 c OR push_bit 24 d)\<rparr>"

definition quiet_env :: "string list net_env" where
  "quiet_env = \<lparr>mg = quiet_mg, node_alloc = first_free 10, uri_alloc = (\<lambda>_. True), walk = 10\<rparr>"

definition fresh_net :: "string list net" where
  "fresh_net = \<lparr>mgr = \<lparr>conns = [], if_ip = 0, if_mask = 0, if_gw = 0, mg_rest = []\<rparr>, listeners = None, nodes = Map.empty, unlocked = []\<rparr>"

lemma quiet_alloc: "allocator (node_alloc quiet_env) 10"
  by (simp add: quiet_env_def first.allocator_axioms)

lemma net_worker_refines_witness:
  "\<exists>s'. net_worker quiet_env [Some (NetApiEventTypeSetTcp ''a'' 1 2, Some 5), None, Some (NetApiEventTypeSetHttp ''b'' 3 4, Some 6),
       Some (NetApiEventTypeRstTcp ''a'', None), Some (NetApiEventTypeRestart [] [] [], Some 7)] fresh_net = Inr s' \<and>
     unlocked s' = [5, 6, 7] \<and> mg_rest (mgr s') = [''tcpa'', ''httpb'', ''httpb'']"
  using net_worker_refines [OF quiet_alloc, of fresh_net "[Some (NetApiEventTypeSetTcp ''a'' 1 2, Some 5), None,
       Some (NetApiEventTypeSetHttp ''b'' 3 4, Some 6), Some (NetApiEventTypeRstTcp ''a'', None),
       Some (NetApiEventTypeRestart [] [] [], Some 7)]" "[]" "[]"]
  by (auto simp: quiet_env_def quiet_mg_def fresh_net_def spec_round_def configure_def parsed_def string_to_ip_def
      parse_octet_def close_all_def close_listening_def start_listener_def)

lemma net_stop_use_after_free_witness:
  "net_worker quiet_env [Some (NetApiEventTypeStop, None)]
     (fresh_net\<lparr>listeners := Some 3,
       nodes := [3 \<mapsto> \<lparr>info = \<lparr>l_type = NetListenerTypeTcp, l_uri = ''a'', l_fn = 1, l_context = 2\<rparr>, next_listener = None\<rparr>]\<rparr>) =
   Inl OutOfBounds"
  by (rule net_stop_use_after_free [where as = "[3]" and xs = "[\<lparr>l_type = NetListenerTypeTcp, l_uri = ''a'', l_fn = 1, l_context = 2\<rparr>]"])
    (simp_all add: registered_def quiet_env_def)

text \<open>After a restart with three addresses that parse, the configuration that is read shows these addresses, if the library
  keeps the addresses of the interface and puts the first octet into the lowest byte.\<close>

theorem net_config_roundtrip:
  assumes "\<And>m. if_ip (mg_mgr_poll (mg E) m) = if_ip m \<and> if_mask (mg_mgr_poll (mg E) m) = if_mask m \<and> if_gw (mg_mgr_poll (mg E) m) = if_gw m"
    and "\<And>x m. if_ip (start_listener (mg E) x m) = if_ip m \<and> if_mask (start_listener (mg E) x m) = if_mask m \<and>
      if_gw (start_listener (mg E) x m) = if_gw m"
    and "\<And>a b c d. a \<le> 255 \<Longrightarrow> b \<le> 255 \<Longrightarrow> c \<le> 255 \<Longrightarrow> d \<le> 255 \<Longrightarrow>
      map (\<lambda>k. byte_of k (MG_IPV4 (mg E) a b c d)) [0, 1, 2, 3] = [a, b, c, d]"
    and "address_text ip (a1, b1, c1, d1)" and "address_text msk (a2, b2, c2, d2)" and "address_text gw (a3, b3, c3, d3)"
    and "registered (nodes s) (listeners s) as xs" and "length as \<le> walk E"
  shows "\<exists>s'. net_handle E (NetApiEventTypeRestart ip msk gw) s = Inr s' \<and>
     net_get_config s' old = (Some (ip_text a1 b1 c1 d1), Some (ip_text a2 b2 c2 d2), Some (ip_text a3 b3 c3 d3))"
proof -
  let ?M = "mg E"
  let ?m = "fold (start_listener ?M) xs (mg_mgr_poll ?M (close_all (configure ?M ip msk gw (mgr s))))"
  have p: "parsed ?M t = Some (MG_IPV4 ?M a b c d)" if "address_text t (a, b, c, d)" for t a b c d
    using string_to_ip_complete [OF that] by (simp add: parsed_def)
  have f: "if_ip (fold (start_listener ?M) xs m) = if_ip m \<and> if_mask (fold (start_listener ?M) xs m) = if_mask m \<and>
      if_gw (fold (start_listener ?M) xs m) = if_gw m" for m
    by (induction xs arbitrary: m) (simp_all add: assms(2))
  have q: "print_address (MG_IPV4 ?M a b c d) t' = Some (ip_text a b c d)" if "address_text t (a, b, c, d)" for t t' a b c d
  proof -
    have "a \<le> 255" "b \<le> 255" "c \<le> 255" "d \<le> 255"
      using that by (auto simp: address_text_def octet_text_def)
    moreover from this have "\<not> 255 < a" "\<not> 255 < b" "\<not> 255 < c" "\<not> 255 < d" by (simp_all add: not_less)
    ultimately show ?thesis using assms(3) [of a b c d] by (simp add: print_address_def ip_to_string_def)
  qed
  have "net_handle E (NetApiEventTypeRestart ip msk gw) s = Inr (s\<lparr>mgr := ?m\<rparr>)"
    by (simp add: net_handle_def restore_loop_registered [OF assms(7,8)])
  moreover have "if_ip ?m = MG_IPV4 ?M a1 b1 c1 d1 \<and> if_mask ?m = MG_IPV4 ?M a2 b2 c2 d2 \<and> if_gw ?m = MG_IPV4 ?M a3 b3 c3 d3"
    by (simp add: f assms(1) configure_def close_all_def p [OF assms(4)] p [OF assms(5)] p [OF assms(6)])
  ultimately show ?thesis
    by (cases old) (simp add: net_get_config_def q [OF assms(4)] q [OF assms(5)] q [OF assms(6)])
qed

lemma quiet_bytes:
  assumes "a \<le> 255" "b \<le> 255" "c \<le> 255" "d \<le> 255"
  shows "map (\<lambda>k. byte_of k (MG_IPV4 quiet_mg a b c d)) [0, 1, 2, 3] = [a, b, c, d]"
proof -
  have m: "(0xFF :: u32) = mask 8" by (simp add: mask_eq_exp_minus_1)
  have hi: "n < 8" if "bit x n" "x \<le> 255" for x :: u32 and n
  proof -
    have "take_bit 8 x = x" using that(2) by (simp add: word_le_nat_alt take_bit_nat_eq_self word_unat_eq_iff unsigned_take_bit_eq)
    then show ?thesis using that(1) by (metis bit_take_bit_iff)
  qed
  let ?w = "a OR push_bit 8 b OR push_bit 16 c OR push_bit 24 d"
  have bits: "bit ?w n \<longleftrightarrow> (if n < 8 then bit a n else if n < 16 then bit b (n - 8) else if n < 24 then bit c (n - 16) else bit d (n - 24))"
    if "n < 32" for n
    using hi [of a n] hi [of b "n - 8"] hi [of c "n - 16"] assms that by (auto simp: bit_simps)
  have b: "byte_of k w = x" if "k < 4" "\<And>n. n < 8 \<Longrightarrow> bit w (8 * k + n) = bit x n" "x \<le> 255" for k x w
  proof (rule bit_word_eqI)
    fix n assume "n < LENGTH(32)"
    have "bit (byte_of k w) n \<longleftrightarrow> bit w (8 * k + n) \<and> n < 8"
      unfolding byte_of_def m using that(1) by (auto simp: bit_simps add.commute dest: bit_imp_le_length)
    also have "\<dots> \<longleftrightarrow> bit x n" using that(2) hi [OF _ that(3)] by auto
    finally show "bit (byte_of k w) n = bit x n" .
  qed
  have "byte_of 0 ?w = a" "byte_of 1 ?w = b" "byte_of 2 ?w = c" "byte_of 3 ?w = d"
    by (rule b; use assms in \<open>simp add: bits\<close>)+
  then show ?thesis by (simp add: quiet_mg_def)
qed

lemma net_config_roundtrip_witness:
  "\<exists>s'. net_handle quiet_env (NetApiEventTypeRestart ''10.0.0.7'' ''255.255.0.0'' ''10.0.0.1'') fresh_net = Inr s' \<and>
     net_get_config s' ([], [], []) = (Some ''10.0.0.7'', Some ''255.255.0.0'', Some ''10.0.0.1'')"
proof -
  have t: "''10.0.0.7'' = ip_text 10 0 0 7" "''255.255.0.0'' = ip_text 255 255 0 0" "''10.0.0.1'' = ip_text 10 0 0 1"
    by code_simp+
  have a: "address_text ''10.0.0.7'' (10, 0, 0, 7)" "address_text ''255.255.0.0'' (255, 255, 0, 0)"
    "address_text ''10.0.0.1'' (10, 0, 0, 1)"
    unfolding t by (rule ip_text_address; simp)+
  have b: "map (\<lambda>k. byte_of k (MG_IPV4 (mg quiet_env) a b c d)) [0, 1, 2, 3] = [a, b, c, d]"
    if "a \<le> 255" "b \<le> 255" "c \<le> 255" "d \<le> 255" for a b c d
    using quiet_bytes [OF that] by (simp add: quiet_env_def)
  have r: "registered (nodes fresh_net) (listeners fresh_net) [] []" by (simp add: fresh_net_def)
  show ?thesis unfolding t
    by (rule net_config_roundtrip [OF _ _ b a [unfolded t] r])
      (simp_all add: quiet_env_def quiet_mg_def start_listener_def split: net_listener_type.splits)
qed

end
