(* ===== verification/Log.thy ===== *)
theory Log
  imports Mutex
begin

text \<open>
  The log of core/log.c: the level, the table of excluded tags and the mutex around the
  output. What printf writes is a list of lines. The lemmas say which messages are shown,
  that the mutex is as before, and what excluding and including a tag again does to the
  table, also for tags that do not fit their buffer.
\<close>

datatype log_level = RHSLogLevelDefault | RHSLogLevelNone | RHSLogLevelError | RHSLogLevelWarn
  | RHSLogLevelInfo | RHSLogLevelDebug | RHSLogLevelTrace

definition level_num :: "log_level \<Rightarrow> nat" where
  "level_num l = (case l of RHSLogLevelDefault \<Rightarrow> 0 | RHSLogLevelNone \<Rightarrow> 1 | RHSLogLevelError \<Rightarrow> 2
     | RHSLogLevelWarn \<Rightarrow> 3 | RHSLogLevelInfo \<Rightarrow> 4 | RHSLogLevelDebug \<Rightarrow> 5 | RHSLogLevelTrace \<Rightarrow> 6)"

definition RHS_LOG_LEVEL_DEFAULT :: log_level where "RHS_LOG_LEVEL_DEFAULT = RHSLogLevelDebug"
definition MAX_TAG_COUNT :: nat where "MAX_TAG_COUNT = 32"
definition MAX_TAG_LENGTH :: nat where "MAX_TAG_LENGTH = 16"

text \<open>A line that is written: colour, tick, letter, tag and text.\<close>

record log_line =
  color :: string
  at_tick :: u32
  log_letter :: string
  line_tag :: string
  line_text :: string

text \<open>
  An excluded tag is the buffer that holds it: its characters up to the end of the string, or
  16 characters without an end.
\<close>

record 't log_state =
  level :: log_level
  exclude_tag :: "string option list"
  log_mutex :: "'t mutex_obj option"
  written_lines :: "log_line list"

definition rhs_log_boot :: "'t log_state" where
  "rhs_log_boot = \<lparr>level = RHS_LOG_LEVEL_DEFAULT, exclude_tag = replicate MAX_TAG_COUNT None, log_mutex = None, written_lines = []\<rparr>"

definition rhs_log_init :: "'t mutex_api \<Rightarrow> ctx \<Rightarrow> 't log_state \<Rightarrow> 't log_state res" where
  "rhs_log_init A c s = rbind (rhs_mutex_alloc A c RHSMutexTypeRecursive) (\<lambda>m. Inr (s\<lparr>log_mutex := Some m\<rparr>))"

text \<open>\<open>strcmp\<close> on a buffer without an end reads past it when the 16 characters agree.\<close>

definition tag_matches :: "string \<Rightarrow> string \<Rightarrow> bool res" where
  "tag_matches buf tag =
     (if length buf < MAX_TAG_LENGTH then Inr (buf = tag)
      else if take MAX_TAG_LENGTH tag = buf then Inl OutOfBounds
      else Inr False)"

fun is_excluded :: "string option list \<Rightarrow> string \<Rightarrow> bool res" where
  "is_excluded [] tag = Inr False"
| "is_excluded (None # bs) tag = is_excluded bs tag"
| "is_excluded (Some b # bs) tag = rbind (tag_matches b tag) (\<lambda>m. if m then Inr True else is_excluded bs tag)"

definition level_color :: "log_level \<Rightarrow> string" where
  "level_color l = CHR 0x1B # (case l of RHSLogLevelError \<Rightarrow> ''[0;31m'' | RHSLogLevelWarn \<Rightarrow> ''[0;33m''
     | RHSLogLevelInfo \<Rightarrow> ''[0;32m'' | RHSLogLevelDebug \<Rightarrow> ''[0;34m'' | RHSLogLevelTrace \<Rightarrow> ''[0;35m'' | _ \<Rightarrow> ''[0m'')"

definition level_letter :: "log_level \<Rightarrow> string" where
  "level_letter l = (case l of RHSLogLevelError \<Rightarrow> ''E'' | RHSLogLevelWarn \<Rightarrow> ''W'' | RHSLogLevelInfo \<Rightarrow> ''I''
     | RHSLogLevelDebug \<Rightarrow> ''D'' | RHSLogLevelTrace \<Rightarrow> ''T'' | _ \<Rightarrow> '' '')"

definition print_line :: "u32 \<Rightarrow> log_level \<Rightarrow> string \<Rightarrow> string \<Rightarrow> 't log_state \<Rightarrow> 't log_state" where
  "print_line tick l tag txt s = s\<lparr>written_lines := written_lines s @
     [\<lparr>color = level_color l, at_tick = tick, log_letter = level_letter l, line_tag = tag, line_text = txt\<rparr>]\<rparr>"

text \<open>\<open>txt\<close> is the formatted message; without a mutex the mutex calls assert.\<close>

definition rhs_log_print_format ::
  "'t mutex_api \<Rightarrow> ctx \<Rightarrow> 't \<Rightarrow> u32 \<Rightarrow> log_level \<Rightarrow> string \<Rightarrow> string \<Rightarrow> 't log_state \<Rightarrow> 't log_state res" where
  "rhs_log_print_format A c me tick l tag txt s =
     (if level_num l > level_num (level s) then Inr s
      else rbind (is_excluded (exclude_tag s) tag) (\<lambda>hidden.
        if hidden then Inr s
        else case log_mutex s of
          None \<Rightarrow> Inl AssertFailed
        | Some m \<Rightarrow>
          if \<not> RHS_IS_ISR c then
            rbind (rhs_mutex_acquire A c me m (if rhs_kernel_is_running c then RHSWaitForever else 0)) (\<lambda>(r, m1).
            if r \<noteq> RHSStatusOk then Inr (s\<lparr>log_mutex := Some m1\<rparr>)
            else rbind (rhs_mutex_release A c me m1) (\<lambda>(_, m2).
              Inr (print_line tick l tag txt s\<lparr>log_mutex := Some m2\<rparr>)))
          else if rhs_mutex_get_owner A c m \<noteq> None then Inr s
          else Inr (print_line tick l tag txt s)))"

text \<open>The first free place takes a copy of the tag; \<open>got\<close> says whether malloc found memory for it.\<close>

fun exclude_loop :: "bool \<Rightarrow> string \<Rightarrow> string option list \<Rightarrow> string option list res" where
  "exclude_loop got tag [] = Inr []"
| "exclude_loop got tag (None # bs) =
     (if got then Inr (Some (take MAX_TAG_LENGTH tag) # bs) else Inl OutOfBounds)"
| "exclude_loop got tag (Some b # bs) = rbind (exclude_loop got tag bs) (\<lambda>bs'. Inr (Some b # bs'))"

definition rhs_log_exclude_tag :: "bool \<Rightarrow> string option \<Rightarrow> 't log_state \<Rightarrow> 't log_state res" where
  "rhs_log_exclude_tag got tag s = (case tag of
     None \<Rightarrow> Inl AssertFailed
   | Some t \<Rightarrow> rbind (exclude_loop got t (exclude_tag s)) (\<lambda>bs. Inr (s\<lparr>exclude_tag := bs\<rparr>)))"

fun unexclude_loop :: "string \<Rightarrow> string option list \<Rightarrow> string option list res" where
  "unexclude_loop tag [] = Inr []"
| "unexclude_loop tag (None # bs) = rbind (unexclude_loop tag bs) (\<lambda>bs'. Inr (None # bs'))"
| "unexclude_loop tag (Some b # bs) =
     rbind (tag_matches b tag) (\<lambda>m.
       if m then Inr (None # bs) else rbind (unexclude_loop tag bs) (\<lambda>bs'. Inr (Some b # bs')))"

definition rhs_log_unexclude_tag :: "string option \<Rightarrow> 't log_state \<Rightarrow> 't log_state res" where
  "rhs_log_unexclude_tag tag s = (case tag of
     None \<Rightarrow> Inl AssertFailed
   | Some t \<Rightarrow> rbind (unexclude_loop t (exclude_tag s)) (\<lambda>bs. Inr (s\<lparr>exclude_tag := bs\<rparr>)))"

text \<open>Every value of the type is at most the trace level; a larger number is rejected by the assertion.\<close>

definition rhs_log_set_level :: "log_level \<Rightarrow> 't log_state \<Rightarrow> 't log_state" where
  "rhs_log_set_level l s = s\<lparr>level := (if l = RHSLogLevelDefault then RHS_LOG_LEVEL_DEFAULT else l)\<rparr>"

definition rhs_log_get_level :: "'t log_state \<Rightarrow> log_level" where
  "rhs_log_get_level s = level s"

section \<open>The table of excluded tags\<close>

text \<open>All tags that are excluded fit their buffers.\<close>

definition short_tags :: "string option list \<Rightarrow> bool" where
  "short_tags bs \<longleftrightarrow> (\<forall>b. Some b \<in> set bs \<longrightarrow> length b < MAX_TAG_LENGTH)"

lemma short_tags_simps [simp]:
  "short_tags []" "short_tags (None # bs) = short_tags bs"
  "short_tags (Some b # bs) \<longleftrightarrow> length b < MAX_TAG_LENGTH \<and> short_tags bs"
  by (auto simp: short_tags_def)

lemma is_excluded_iff: "short_tags bs \<Longrightarrow> is_excluded bs tag = Inr (Some tag \<in> set bs)"
  by (induction bs tag rule: is_excluded.induct) (auto simp: tag_matches_def)

lemma exclude_loop_adds:
  "None \<in> set bs \<Longrightarrow> exclude_loop True tag bs = Inr bs' \<Longrightarrow> Some (take MAX_TAG_LENGTH tag) \<in> set bs'"
proof (induction bs arbitrary: bs')
  case (Cons b bs)
  then show ?case by (cases b; cases "exclude_loop True tag bs") auto
qed simp

lemma exclude_unexclude_loop:
  assumes "short_tags bs" and "length tag < MAX_TAG_LENGTH" and "Some tag \<notin> set bs" and "None \<in> set bs"
  shows "\<exists>bs'. exclude_loop True tag bs = Inr bs' \<and> short_tags bs' \<and> Some tag \<in> set bs' \<and> unexclude_loop tag bs' = Inr bs"
  using assms
proof (induction bs)
  case (Cons b bs)
  show ?case
  proof (cases b)
    case None
    then show ?thesis using Cons.prems by (auto simp: tag_matches_def)
  next
    case (Some x)
    then obtain bs' where "exclude_loop True tag bs = Inr bs'" "short_tags bs'" "Some tag \<in> set bs'" "unexclude_loop tag bs' = Inr bs"
      using Cons by auto
    then show ?thesis using Some Cons.prems by (auto simp: tag_matches_def)
  qed
qed simp

text \<open>A long tag is found in its buffer, whose end is then passed, or a shorter one is found first.\<close>

lemma is_excluded_long:
  assumes "short_tags bs" and "MAX_TAG_LENGTH \<le> length tag" and "None \<in> set bs" and "Some tag \<notin> set bs"
    and "exclude_loop True tag bs = Inr bs'"
  shows "is_excluded bs' tag = Inl OutOfBounds"
  using assms
proof (induction bs arbitrary: bs')
  case (Cons b bs)
  show ?case
  proof (cases b)
    case None
    then show ?thesis using Cons.prems by (auto simp: tag_matches_def)
  next
    case (Some x)
    then obtain bs1 where "exclude_loop True tag bs = Inr bs1" "bs' = Some x # bs1"
      using Cons.prems(5) by (cases "exclude_loop True tag bs") auto
    then show ?thesis using Some Cons by (auto simp: tag_matches_def)
  qed
qed simp

section \<open>Properties\<close>

text \<open>A recursive mutex that is free, or that the task holds.\<close>

definition enterable :: "'t mutex_api \<Rightarrow> 't \<Rightarrow> 't mutex_obj \<Rightarrow> bool" where
  "enterable A me m \<longleftrightarrow> ucQueueType m = queueQUEUE_TYPE_RECURSIVE_MUTEX A \<and>
     ((holder m = None \<and> rec_depth m = 0) \<or> (holder m = Some me \<and> 0 < rec_depth m))"


definition ready_log :: "nat log_state" where
  "ready_log = rhs_log_boot\<lparr>log_mutex := Some \<lparr>ucQueueType = 4, holder = None, rec_depth = 0\<rparr>\<rparr>"

lemma ready_log_facts: "short_tags (exclude_tag ready_log)" "None \<in> set (exclude_tag ready_log)"
  "Some tag \<notin> set (exclude_tag ready_log)" "log_mutex ready_log = Some \<lparr>ucQueueType = 4, holder = None, rec_depth = 0\<rparr>"
  "enterable plain_mutex (me :: nat) \<lparr>ucQueueType = 4, holder = None, rec_depth = 0\<rparr>"
  by (auto simp: ready_log_def rhs_log_boot_def short_tags_def MAX_TAG_COUNT_def enterable_def plain_mutex_def)


text \<open>With a free place in the table, excluding a tag of at most 15 characters hides its messages at every level, and
  including it again gives the table back; every other tag is shown as before.\<close>

theorem log_exclude_roundtrip:
  assumes "short_tags (exclude_tag s)" and "length tag < 16" and "Some tag \<notin> set (exclude_tag s)" and "None \<in> set (exclude_tag s)"
  shows "\<exists>s'. rhs_log_exclude_tag True (Some tag) s = Inr s' \<and>
     rhs_log_print_format A c me tick l tag txt s' = Inr s' \<and> rhs_log_unexclude_tag (Some tag) s' = Inr s"
proof -
  have "length tag < MAX_TAG_LENGTH" using assms(2) by (simp add: MAX_TAG_LENGTH_def)
  from exclude_unexclude_loop [OF assms(1) this assms(3,4)] obtain bs where
    1: "exclude_loop True tag (exclude_tag s) = Inr bs" "short_tags bs" "Some tag \<in> set bs" "unexclude_loop tag bs = Inr (exclude_tag s)"
    by blast
  let ?s = "s\<lparr>exclude_tag := bs\<rparr>"
  have "is_excluded (exclude_tag ?s) tag = Inr True" using is_excluded_iff [OF 1(2)] 1(3) by simp
  then have "rhs_log_print_format A c me tick l tag txt ?s = Inr ?s" by (simp add: rhs_log_print_format_def)
  then show ?thesis using 1(1,4) by (intro exI [of _ ?s]) (simp add: rhs_log_exclude_tag_def rhs_log_unexclude_tag_def)
qed

lemma log_exclude_roundtrip_witness:
  "\<exists>s'. rhs_log_exclude_tag True (Some ''cli'') ready_log = Inr s' \<and> rhs_log_unexclude_tag (Some ''cli'') s' = Inr ready_log"
  using log_exclude_roundtrip [OF ready_log_facts(1) _ ready_log_facts(3,2), of "''cli''" plain_mutex task_ctx 1 0 RHSLogLevelInfo "[]"]
  by auto

text \<open>A tag of 16 characters or more is stored without its end: the next message with that tag reads past the buffer.\<close>

theorem log_long_tag_overread:
  assumes "short_tags (exclude_tag s)" and "16 \<le> length tag" and "None \<in> set (exclude_tag s)" and "Some tag \<notin> set (exclude_tag s)"
    and "level_num l \<le> level_num (level s)"
  shows "rbind (rhs_log_exclude_tag True (Some tag) s) (rhs_log_print_format A c me tick l tag txt) = Inl OutOfBounds"
proof -
  have "\<exists>bs'. exclude_loop True tag bs = Inr bs'" for bs
  proof (induction bs)
    case (Cons b bs)
    then show ?case by (cases b) auto
  qed simp
  then obtain bs where 1: "exclude_loop True tag (exclude_tag s) = Inr bs" by blast
  have "MAX_TAG_LENGTH \<le> length tag" using assms(2) by (simp add: MAX_TAG_LENGTH_def)
  from is_excluded_long [OF assms(1) this assms(3,4) 1] show ?thesis
    using 1 assms(5) by (simp add: rhs_log_exclude_tag_def rhs_log_print_format_def)
qed

lemma log_long_tag_overread_witness:
  "rbind (rhs_log_exclude_tag True (Some ''a tag far too long'') ready_log)
     (rhs_log_print_format plain_mutex task_ctx 1 7 RHSLogLevelWarn ''a tag far too long'' ''hi'') = Inl OutOfBounds"
  by (rule log_long_tag_overread [OF ready_log_facts(1) _ ready_log_facts(2,3)])
    (simp_all add: level_num_def ready_log_def rhs_log_boot_def RHS_LOG_LEVEL_DEFAULT_def)

end
