(* ===== verification/Thread_List.thy ===== *)
theory Thread_List
  imports Heap_List Kernel
begin

text \<open>
  The list of threads of core/thread_list.c, a linked list on the heap, and its filling by
  \<open>rhs_thread_enumerate\<close> (core/thread.c). The loops over the list follow at most \<open>n\<close> nodes. The
  lemmas say what every operation does on a list of nodes, which nodes it frees, and what
  the list holds after an enumeration.
\<close>

section \<open>The list\<close>

record thread_item =
  item_thread :: "nat option"
  item_name :: string
  item_priority :: u32
  stack_address :: u32
  stack_size :: u32
  stack_min_free :: u32
  item_state :: string
  counter_previous :: u32
  counter_current :: u32
  cpu_percent :: u32
  item_tick :: u32
  next_item :: "nat option"

record thread_list =
  item :: "nat option"
  runtime_previous :: u32
  runtime_current :: u32
  isr_previous :: u32
  isr_current :: u32

text \<open>A pointer to a list is \<open>None\<close> when it is null; \<open>got\<close> says whether malloc found memory.\<close>

definition rhs_thread_list_create :: "bool \<Rightarrow> thread_list option" where
  "rhs_thread_list_create got =
     (if got then Some \<lparr>item = None, runtime_previous = 0, runtime_current = 0, isr_previous = 0, isr_current = 0\<rparr>
      else None)"

definition with_list :: "thread_list option \<Rightarrow> (thread_list \<Rightarrow> 'a res) \<Rightarrow> 'a res" where
  "with_list list k = (case list of None \<Rightarrow> Inl AssertFailed | Some l \<Rightarrow> k l)"

fun list_erase_loop :: "nat \<Rightarrow> thread_item heap \<Rightarrow> nat option \<Rightarrow> thread_item heap res" where
  "list_erase_loop n h None = Inr h"
| "list_erase_loop 0 h (Some a) = Inl Blocked"
| "list_erase_loop (Suc n) h (Some a) =
     rbind (hget h a) (\<lambda>i. rbind (hfree h a) (\<lambda>h'. list_erase_loop n h' (next_item i)))"

definition rhs_thread_list_erase ::
  "nat \<Rightarrow> thread_list option \<Rightarrow> thread_item heap \<Rightarrow> (thread_list \<times> thread_item heap) res" where
  "rhs_thread_list_erase n list h = with_list list (\<lambda>l.
     rbind (list_erase_loop n h (item l)) (\<lambda>h'. Inr (l\<lparr>item := None\<rparr>, h')))"

text \<open>The memory of the list itself is given back: nothing of it is left.\<close>

definition rhs_thread_list_destroy :: "nat \<Rightarrow> thread_list option \<Rightarrow> thread_item heap \<Rightarrow> thread_item heap res" where
  "rhs_thread_list_destroy n list h = with_list list (\<lambda>l.
     rbind (rhs_thread_list_erase n (Some l) h) (\<lambda>(_, h'). Inr h'))"

fun find_loop :: "nat \<Rightarrow> thread_item heap \<Rightarrow> nat \<Rightarrow> nat option \<Rightarrow> nat option res" where
  "find_loop n h x None = Inr None"
| "find_loop 0 h x (Some a) = Inl Blocked"
| "find_loop (Suc n) h x (Some a) =
     (if a = x then Inr (Some a) else rbind (hget h a) (\<lambda>i. find_loop n h x (next_item i)))"

definition rhs_thread_list_find ::
  "nat \<Rightarrow> thread_list option \<Rightarrow> thread_item heap \<Rightarrow> nat option \<Rightarrow> nat option res" where
  "rhs_thread_list_find n list h x = with_list list (\<lambda>l.
     (case x of None \<Rightarrow> Inl AssertFailed | Some a \<Rightarrow> find_loop n h a (item l)))"

text \<open>\<open>junk\<close> is what the memory of a new node holds.\<close>

definition rhs_thread_list_add ::
  "(thread_item heap \<Rightarrow> nat option) \<Rightarrow> thread_item \<Rightarrow> thread_list option \<Rightarrow> thread_item heap \<Rightarrow>
     (nat option \<times> thread_list \<times> thread_item heap) res" where
  "rhs_thread_list_add alloc junk list h = with_list list (\<lambda>l.
     (case alloc h of
        None \<Rightarrow> Inr (None, l, h)
      | Some a \<Rightarrow> Inr (Some a, l\<lparr>item := Some a\<rparr>, h(a := Some (junk\<lparr>next_item := item l\<rparr>)))))"

fun remove_loop ::
  "nat \<Rightarrow> thread_list \<Rightarrow> thread_item heap \<Rightarrow> nat \<Rightarrow> nat option \<Rightarrow> nat option \<Rightarrow> (bool \<times> thread_list \<times> thread_item heap) res" where
  "remove_loop n l h x prev None = Inr (False, l, h)"
| "remove_loop 0 l h x prev (Some a) = Inl Blocked"
| "remove_loop (Suc n) l h x prev (Some a) =
     rbind (hget h a) (\<lambda>i.
       if a = x then
         rbind (case prev of
             Some b \<Rightarrow> rbind (hget h b) (\<lambda>j. rbind (hset h b (j\<lparr>next_item := next_item i\<rparr>)) (\<lambda>h'. Inr (l, h')))
           | None \<Rightarrow> Inr (l\<lparr>item := next_item i\<rparr>, h)) (\<lambda>(l', h').
         rbind (hfree h' a) (\<lambda>h''. Inr (True, l', h'')))
       else remove_loop n l h x (Some a) (next_item i))"

definition rhs_thread_list_remove ::
  "nat \<Rightarrow> thread_list option \<Rightarrow> thread_item heap \<Rightarrow> nat option \<Rightarrow> (bool \<times> thread_list \<times> thread_item heap) res" where
  "rhs_thread_list_remove n list h x = with_list list (\<lambda>l.
     (case x of None \<Rightarrow> Inl AssertFailed | Some a \<Rightarrow> remove_loop n l h a None (item l)))"

fun at_loop :: "nat \<Rightarrow> thread_item heap \<Rightarrow> u16 \<Rightarrow> u16 \<Rightarrow> nat option \<Rightarrow> nat option res" where
  "at_loop n h index i None = Inr None"
| "at_loop 0 h index i (Some a) = Inl Blocked"
| "at_loop (Suc n) h index i (Some a) =
     (if i = index then Inr (Some a) else rbind (hget h a) (\<lambda>x. at_loop n h index (i + 1) (next_item x)))"

definition rhs_thread_list_at :: "nat \<Rightarrow> thread_list option \<Rightarrow> thread_item heap \<Rightarrow> u16 \<Rightarrow> nat option res" where
  "rhs_thread_list_at n list h index = with_list list (\<lambda>l. at_loop n h index 0 (item l))"

fun size_loop :: "nat \<Rightarrow> thread_item heap \<Rightarrow> u16 \<Rightarrow> nat option \<Rightarrow> u16 res" where
  "size_loop n h count None = Inr count"
| "size_loop 0 h count (Some a) = Inl Blocked"
| "size_loop (Suc n) h count (Some a) = rbind (hget h a) (\<lambda>x. size_loop n h (count + 1) (next_item x))"

definition rhs_thread_list_size :: "nat \<Rightarrow> thread_list option \<Rightarrow> thread_item heap \<Rightarrow> u16 res" where
  "rhs_thread_list_size n list h = with_list list (\<lambda>l. size_loop n h 0 (item l))"

text \<open>
  The share of the run time is computed in single precision: \<open>percent\<close> is a parameter, the
  value of \<open>(uint32_t) cpu\<close> after the cut at 200.
\<close>

definition item_share :: "(u32 \<Rightarrow> u32 \<Rightarrow> u32) \<Rightarrow> u32 \<Rightarrow> thread_item \<Rightarrow> thread_item" where
  "item_share percent runtime_counter i =
     (let item_counter = counter_current i - counter_previous i in
      i\<lparr>cpu_percent :=
         (if item_counter \<noteq> 0 \<and> counter_previous i \<noteq> 0 \<and> counter_current i \<noteq> 0
          then percent item_counter runtime_counter else 0)\<rparr>)"

fun process_loop ::
  "nat \<Rightarrow> (u32 \<Rightarrow> u32 \<Rightarrow> u32) \<Rightarrow> u32 \<Rightarrow> thread_list \<Rightarrow> nat list \<Rightarrow> thread_item heap \<Rightarrow> thread_item heap res" where
  "process_loop n percent rc l [] h = Inr h"
| "process_loop n percent rc l (i # is) h =
     rbind (rhs_thread_list_at n (Some l) h (of_nat i)) (\<lambda>p. case p of
       None \<Rightarrow> Inl OutOfBounds
     | Some a \<Rightarrow>
         rbind (hget h a) (\<lambda>x.
         rbind (hset h a (item_share percent rc x)) (\<lambda>h'.
         process_loop n percent rc l is h')))"

definition rhs_thread_list_process ::
  "nat \<Rightarrow> (u32 \<Rightarrow> u32 \<Rightarrow> u32) \<Rightarrow> thread_list option \<Rightarrow> u32 \<Rightarrow> thread_item heap \<Rightarrow> (thread_list \<times> thread_item heap) res" where
  "rhs_thread_list_process n percent list runtime h = with_list list (\<lambda>l.
     let l' = l\<lparr>runtime_previous := runtime_current l, runtime_current := runtime\<rparr>;
         runtime_counter = runtime_current l' - runtime_previous l' in
     rbind (rhs_thread_list_size n (Some l') h) (\<lambda>count.
     rbind (process_loop n percent runtime_counter l' [0..<unat count] h) (\<lambda>h'. Inr (l', h'))))"

section \<open>Enumeration\<close>

datatype task_state = eRunning | eReady | eBlocked | eSuspended | eDeleted | eInvalid

definition rhs_thread_state_name :: "task_state \<Rightarrow> string" where
  "rhs_thread_state_name st = (case st of eRunning \<Rightarrow> ''Running'' | eReady \<Rightarrow> ''Ready'' | eBlocked \<Rightarrow> ''Blocked''
     | eSuspended \<Rightarrow> ''Suspended'' | eDeleted \<Rightarrow> ''Deleted'' | eInvalid \<Rightarrow> ''Invalid'')"

text \<open>A snapshot of a task; the stack grows in words of four bytes.\<close>

record task_status =
  pcTaskName :: string
  uxCurrentPriority :: u32
  pxStackBase :: u32
  pxEndOfStack :: u32
  high_water_mark :: u32
  eCurrentState :: task_state
  ulRunTimeCounter :: u32

definition fill_item :: "u32 \<Rightarrow> task_status \<Rightarrow> thread_item \<Rightarrow> thread_item" where
  "fill_item tick t i = i\<lparr>item_name := pcTaskName t, item_priority := uxCurrentPriority t, stack_address := pxStackBase t,
     stack_size := (pxEndOfStack t - pxStackBase t) div 4 + 2, stack_min_free := high_water_mark t,
     item_state := rhs_thread_state_name (eCurrentState t), counter_previous := counter_current i,
     counter_current := ulRunTimeCounter t, item_tick := tick\<rparr>"

fun fill_loop ::
  "(thread_item heap \<Rightarrow> nat option) \<Rightarrow> thread_item \<Rightarrow> u32 \<Rightarrow> task_status list \<Rightarrow> thread_list \<Rightarrow> thread_item heap \<Rightarrow>
     (thread_list \<times> thread_item heap) res" where
  "fill_loop alloc junk tick [] l h = Inr (l, h)"
| "fill_loop alloc junk tick (t # ts) l h =
     rbind (rhs_thread_list_add alloc junk (Some l) h) (\<lambda>(p, l', h'). case p of
       None \<Rightarrow> Inl OutOfBounds
     | Some a \<Rightarrow>
         rbind (hget h' a) (\<lambda>x.
         rbind (hset h' a (fill_item tick t x)) (\<lambda>h''.
         fill_loop alloc junk tick ts l' h'')))"

text \<open>\<open>snapshot\<close> is the system state with the total run time, if there was memory for it.\<close>

definition rhs_thread_enumerate ::
  "nat \<Rightarrow> 's sched_api \<Rightarrow> ctx \<Rightarrow> (thread_item heap \<Rightarrow> nat option) \<Rightarrow> thread_item \<Rightarrow> (u32 \<Rightarrow> u32 \<Rightarrow> u32) \<Rightarrow> u32 \<times> u32 \<Rightarrow>
     (task_status list \<times> u32) option \<Rightarrow> thread_list option \<Rightarrow> thread_item heap \<times> 's \<Rightarrow>
     (thread_list option \<times> thread_item heap \<times> 's) res" where
  "rhs_thread_enumerate n A c alloc junk percent ticks snapshot list hs =
     rhs_assert (\<not> RHS_IS_IRQ_MODE c)
       (let (h, s) = hs; s1 = vTaskSuspendAll A s; tick = rhs_get_tick c (fst ticks) (snd ticks) in
        rbind (case snapshot of
            None \<Rightarrow> Inr (list, h)
          | Some (tasks, total_run_time) \<Rightarrow>
              rbind (rhs_thread_list_erase n list h) (\<lambda>(l1, h1).
              rbind (fill_loop alloc junk tick tasks l1 h1) (\<lambda>(l2, h2).
              rbind (rhs_thread_list_process n percent (Some l2) total_run_time h2) (\<lambda>(l3, h3).
              Inr (Some l3, h3))))) (\<lambda>(list', h').
        Inr (list', h', snd (xTaskResumeAll A s1))))"

section \<open>The operations on a list of nodes\<close>

abbreviation items :: "thread_item heap \<Rightarrow> nat option \<Rightarrow> nat list \<Rightarrow> bool" where
  "items \<equiv> chain next_item"

lemma list_erase_loop_chain:
  "items h p as \<Longrightarrow> length as \<le> n \<Longrightarrow> list_erase_loop n h p = Inr (h |` (- set as))"
proof (induction as arbitrary: n h p)
  case Nil
  then show ?case by simp
next
  case (Cons a as)
  then obtain m where n: "n = Suc m" by (cases n) simp_all
  obtain i where i: "p = Some a" "h a = Some i" "items h (next_item i) as"
    using Cons.prems(1) by (auto split: option.splits)
  have c: "items (h(a := None)) (next_item i) as" by (rule chain_unlink_head [OF Cons.prems(1) i(2)])
  have m: "length as \<le> m" using Cons.prems(2) n by simp
  have "list_erase_loop m (h(a := None)) (next_item i) = Inr (h(a := None) |` (- set as))" by (rule Cons.IH [OF c m])
  moreover have "h(a := None) |` (- set as) = h |` (- set (a # as))" by (auto simp: restrict_map_def fun_eq_iff)
  ultimately show ?case using i n by simp
qed

lemma find_loop_chain:
  "items h p as \<Longrightarrow> length as \<le> n \<Longrightarrow> find_loop n h x p = Inr (if x \<in> set as then Some x else None)"
proof (induction as arbitrary: n p)
  case (Cons a as)
  then obtain m where n: "n = Suc m" by (cases n) simp_all
  obtain i where "p = Some a" "h a = Some i" "items h (next_item i) as"
    using Cons.prems(1) by (auto split: option.splits)
  then show ?case using Cons.IH [of "next_item i" m] Cons.prems(2) n by auto
qed simp

lemma size_loop_chain:
  "items h p as \<Longrightarrow> length as \<le> n \<Longrightarrow> size_loop n h c p = Inr (c + of_nat (length as))"
proof (induction as arbitrary: n p c)
  case (Cons a as)
  then obtain m where n: "n = Suc m" by (cases n) simp_all
  obtain i where "p = Some a" "h a = Some i" "items h (next_item i) as"
    using Cons.prems(1) by (auto split: option.splits)
  then show ?case using Cons.IH [of "next_item i" m "c + 1"] Cons.prems(2) n by (simp add: algebra_simps)
qed simp

lemma at_loop_chain:
  "items h p as \<Longrightarrow> length as \<le> n \<Longrightarrow> k + length as \<le> 65536 \<Longrightarrow> k \<le> j \<Longrightarrow> j < 65536 \<Longrightarrow>
   at_loop n h (of_nat j) (of_nat k) p = Inr (if j - k < length as then Some (as ! (j - k)) else None)"
proof (induction as arbitrary: n p k)
  case (Cons a as)
  then obtain m where n: "n = Suc m" by (cases n) simp_all
  obtain i where i: "p = Some a" "h a = Some i" "items h (next_item i) as"
    using Cons.prems(1) by (auto split: option.splits)
  show ?case
  proof (cases "k = j")
    case True
    then show ?thesis using i n by simp
  next
    case False
    have "of_nat k \<noteq> (of_nat j :: u16)"
    proof
      assume "of_nat k = (of_nat j :: u16)"
      then have "k mod 65536 = j mod 65536" using word_of_nat_eq_iff [where 'a = 16, of k j] by (simp add: take_bit_eq_mod)
      then show False using False Cons.prems(4,5) by simp
    qed
    moreover have "at_loop m h (of_nat j) (of_nat (Suc k)) (next_item i) =
        Inr (if j - Suc k < length as then Some (as ! (j - Suc k)) else None)"
      by (rule Cons.IH [OF i(3)]) (use Cons.prems n False in simp_all)
    moreover have "(j - Suc k < length as) = (j - k < length (a # as))" "(a # as) ! (j - k) = as ! (j - Suc k)"
      using False Cons.prems(4) by (auto simp: nth_Cons' Suc_diff_Suc)
    ultimately show ?thesis using i n by (simp add: add.commute)
  qed
qed simp

text \<open>Removing: the nodes before the cursor are passed, the last of them is \<open>prev\<close>.\<close>

lemma remove_loop_chain:
  assumes "items h (item l) (ps @ as)" and "length as \<le> n" and "items h p as" and "x \<notin> set ps"
    and "prev = (if ps = [] then None else Some (last ps))"
  shows "\<exists>l' h'. remove_loop n l h x prev p = Inr (x \<in> set as, l', h') \<and>
    items h' (item l') (remove1 x (ps @ as)) \<and> dom h' = (if x \<in> set as then dom h - {x} else dom h)"
  using assms
proof (induction as arbitrary: n p ps prev)
  case Nil
  then show ?case by (auto simp: remove1_idem)
next
  case (Cons a as)
  then obtain m where n: "n = Suc m" by (cases n) simp_all
  obtain i where i: "p = Some a" "h a = Some i" "items h (next_item i) as"
    using Cons.prems(3) by (auto split: option.splits)
  show ?case
  proof (cases "a = x")
    case False
    have "\<exists>l' h'. remove_loop m l h x (Some a) (next_item i) = Inr (x \<in> set as, l', h') \<and>
        items h' (item l') (remove1 x ((ps @ [a]) @ as)) \<and> dom h' = (if x \<in> set as then dom h - {x} else dom h)"
      by (rule Cons.IH) (use Cons.prems n i False in auto)
    then show ?thesis using i n False by auto
  next
    case True
    show ?thesis
    proof (cases ps rule: rev_cases)
      case Nil
      then have "items (h(a := None)) (next_item i) as" using chain_unlink_head [of next_item h "item l" a as i] Cons.prems(1) i by simp
      then show ?thesis using i n True Nil Cons.prems(5) by auto
    next
      case (snoc qs b)
      have c: "items h (item l) (qs @ b # a # as)" using Cons.prems(1) snoc by simp
      have "b \<in> dom h" using chain_dom [OF c] by auto
      then obtain j where j: "h b = Some j" by auto
      have ab: "a \<noteq> b" using chain_distinct [OF c] by auto
      let ?h = "h(b := Some (j\<lparr>next_item := next_item i\<rparr>), a := None)"
      have "items ?h (item l) (qs @ b # as)" by (rule chain_unlink [OF c j i(2)]) simp
      moreover have "remove_loop n l h x prev p = Inr (True, l, ?h)"
        using n i j ab True snoc Cons.prems(5) by simp
      moreover have "remove1 x (ps @ a # as) = qs @ b # as" using snoc True Cons.prems(4) by (simp add: remove1_append)
      moreover have "dom ?h = dom h - {x}" using j True ab by auto
      ultimately show ?thesis using True by auto
    qed
  qed
qed

section \<open>Enumerating\<close>

lemma item_share_next [simp]: "next_item (item_share percent rc i) = next_item i"
  by (simp add: item_share_def Let_def)

lemma item_share_again [simp]: "item_share percent rc (item_share percent rc i) = item_share percent rc i"
  by (simp add: item_share_def Let_def)

text \<open>Every node whose index is visited gets its share; visiting one twice changes nothing.\<close>

lemma process_loop_chain:
  assumes "items h (item l) as" and "length as \<le> n" and "length as < 65536" and "\<forall>i\<in>set is. i < length as"
  shows "\<exists>h'. process_loop n percent rc l is h = Inr h' \<and>
    (\<forall>a. h' a = (if \<exists>i\<in>set is. as ! i = a then map_option (item_share percent rc) (h a) else h a))"
  using assms
proof (induction "is" arbitrary: h)
  case (Cons i "is")
  let ?a = "as ! i"
  have i: "i < length as" using Cons.prems(4) by simp
  obtain x where x: "h ?a = Some x" using chain_dom [OF Cons.prems(1)] nth_mem [OF i] by auto
  have "at_loop n h (of_nat i) (of_nat 0) (item l) = Inr (if i - 0 < length as then Some (as ! (i - 0)) else None)"
    by (rule at_loop_chain [OF Cons.prems(1,2)]) (use Cons.prems(3) i in simp_all)
  then have at: "rhs_thread_list_at n (Some l) h (of_nat i) = Inr (Some ?a)"
    using i by (simp add: rhs_thread_list_at_def with_list_def)
  let ?h = "h(?a := Some (item_share percent rc x))"
  have "items ?h (item l) as = items h (item l) as" by (rule chain_same_next [of h ?a x, OF x]) simp
  then have c: "items ?h (item l) as" using Cons.prems(1) by simp
  have "\<forall>i\<in>set is. i < length as" using Cons.prems(4) by simp
  from Cons.IH [OF c Cons.prems(2,3) this] obtain h' where h': "process_loop n percent rc l is ?h = Inr h'"
    "\<And>a. h' a = (if \<exists>i\<in>set is. as ! i = a then map_option (item_share percent rc) (?h a) else ?h a)" by blast
  have "process_loop n percent rc l (i # is) h = Inr h'" using at x h'(1) by simp
  moreover have "h' a = (if \<exists>j\<in>set (i # is). as ! j = a then map_option (item_share percent rc) (h a) else h a)" for a
    using h'(2) [of a] x by (cases "a = ?a") (auto simp: option.map_comp o_def)
  ultimately show ?case by blast
qed simp

text \<open>What a new node says of a task: a fill over whatever its memory held.\<close>

definition describes :: "u32 \<Rightarrow> thread_item \<Rightarrow> task_status \<Rightarrow> thread_item \<Rightarrow> bool" where
  "describes tick junk t i \<longleftrightarrow> (\<exists>p. i = fill_item tick t (junk\<lparr>next_item := p\<rparr>))"

lemma describes_share:
  assumes "describes tick junk t i"
  shows "item_name (item_share percent rc i) = pcTaskName t"
    and "item_state (item_share percent rc i) = rhs_thread_state_name (eCurrentState t)"
    and "counter_current (item_share percent rc i) = ulRunTimeCounter t"
    and "counter_previous (item_share percent rc i) = counter_current junk"
    and "cpu_percent (item_share percent rc i) =
      (if ulRunTimeCounter t \<noteq> counter_current junk \<and> counter_current junk \<noteq> 0 \<and> ulRunTimeCounter t \<noteq> 0
       then percent (ulRunTimeCounter t - counter_current junk) rc else 0)"
  using assms by (auto simp: describes_def fill_item_def item_share_def Let_def)

lemma fill_item_next [simp]: "next_item (fill_item tick t i) = next_item i"
  by (simp add: fill_item_def)

lemma fill_loop_chain:
  assumes "allocator alloc cap" and "items h (item l) as" and "finite (dom h)" and "card (dom h) + length ts \<le> cap"
  shows "\<exists>p h' new. fill_loop alloc junk tick ts l h = Inr (l\<lparr>item := p\<rparr>, h') \<and> items h' p (rev new @ as) \<and>
    dom h' = dom h \<union> set new \<and> set new \<inter> dom h = {} \<and> (\<forall>a\<in>dom h. h' a = h a) \<and>
    list_all2 (\<lambda>t a. \<exists>i. h' a = Some i \<and> describes tick junk t i) ts new"
  using assms
proof (induction ts arbitrary: l h as)
  case Nil
  then show ?case by (intro exI [of _ "item l"] exI [of _ h] exI [of _ "[]"]) simp
next
  case (Cons t ts)
  obtain a where a: "alloc h = Some a" using allocator.room [OF Cons.prems(1), of h] Cons.prems(3,4) by auto
  have fresh: "h a = None" using allocator.fresh [OF Cons.prems(1) a] .
  let ?i = "fill_item tick t (junk\<lparr>next_item := item l\<rparr>)"
  let ?h = "h(a := Some ?i)" and ?l = "l\<lparr>item := Some a\<rparr>"
  have step: "fill_loop alloc junk tick (t # ts) l h = fill_loop alloc junk tick ts ?l ?h"
    using a by (simp add: rhs_thread_list_add_def with_list_def)
  have c: "items ?h (item ?l) (a # as)"
    using chain_insert [OF Cons.prems(2) fresh, of ?i] by simp
  have f: "finite (dom ?h)" "card (dom ?h) + length ts \<le> cap" using Cons.prems(3,4) fresh by (auto simp: card_insert_if domIff)
  from Cons.IH [OF Cons.prems(1) c f] obtain p h' new where 1: "fill_loop alloc junk tick ts ?l ?h = Inr (?l\<lparr>item := p\<rparr>, h')"
    "items h' p (rev new @ a # as)" "dom h' = dom ?h \<union> set new" "set new \<inter> dom ?h = {}" "\<forall>b\<in>dom ?h. h' b = ?h b"
    "list_all2 (\<lambda>t a. \<exists>i. h' a = Some i \<and> describes tick junk t i) ts new" by blast
  have "h' a = Some ?i" using 1(5) by auto
  moreover have "describes tick junk t ?i" unfolding describes_def by blast
  ultimately have "list_all2 (\<lambda>t a. \<exists>i. h' a = Some i \<and> describes tick junk t i) (t # ts) (a # new)"
    using 1(6) by simp
  moreover have "\<forall>b\<in>dom h. h' b = h b" using 1(5) fresh by auto
  moreover have "fill_loop alloc junk tick (t # ts) l h = Inr (l\<lparr>item := p\<rparr>, h')" using step 1(1) by simp
  ultimately show ?case using 1(2,3,4) fresh
    by (intro exI [of _ p] exI [of _ h'] exI [of _ "a # new"]) auto
qed

section \<open>Properties\<close>

text \<open>On a list of nodes, size, lookup by index and by address answer what the list of their addresses answers, adding
  puts a new node in front, removing unlinks and frees exactly the node asked for, and erasing frees exactly the nodes of the list.\<close>

theorem thread_list_refines:
  assumes "allocator alloc cap" and "chain next_item h (item l) as" and "length as \<le> n" and "length as < 65536"
  shows "rhs_thread_list_size n (Some l) h = Inr (of_nat (length as)) \<and>
     rhs_thread_list_at n (Some l) h j = Inr (if unat j < length as then Some (as ! unat j) else None) \<and>
     rhs_thread_list_find n (Some l) h (Some x) = Inr (if x \<in> set as then Some x else None) \<and>
     (\<exists>p l' h'. rhs_thread_list_add alloc junk (Some l) h = Inr (p, l', h') \<and>
        (case p of None \<Rightarrow> l' = l \<and> h' = h | Some a \<Rightarrow> h a = None \<and> chain next_item h' (item l') (a # as) \<and> dom h' = insert a (dom h))) \<and>
     (\<exists>l' h'. rhs_thread_list_remove n (Some l) h (Some x) = Inr (x \<in> set as, l', h') \<and>
        chain next_item h' (item l') (remove1 x as) \<and> dom h' = (if x \<in> set as then dom h - {x} else dom h)) \<and>
     rhs_thread_list_erase n (Some l) h = Inr (l\<lparr>item := None\<rparr>, h |` (- set as))"
proof (intro conjI)
  show "rhs_thread_list_size n (Some l) h = Inr (of_nat (length as))"
    using size_loop_chain [OF assms(2,3)] by (simp add: rhs_thread_list_size_def with_list_def)
  show "rhs_thread_list_at n (Some l) h j = Inr (if unat j < length as then Some (as ! unat j) else None)"
    using at_loop_chain [OF assms(2,3), of 0 "unat j"] assms(4) unat_u16_less [of j]
    by (simp add: rhs_thread_list_at_def with_list_def)
  show "rhs_thread_list_find n (Some l) h (Some x) = Inr (if x \<in> set as then Some x else None)"
    using find_loop_chain [OF assms(2,3)] by (simp add: rhs_thread_list_find_def with_list_def)
  show "\<exists>p l' h'. rhs_thread_list_add alloc junk (Some l) h = Inr (p, l', h') \<and>
        (case p of None \<Rightarrow> l' = l \<and> h' = h | Some a \<Rightarrow> h a = None \<and> chain next_item h' (item l') (a # as) \<and> dom h' = insert a (dom h))"
  proof (cases "alloc h")
    case (Some a)
    then have "h a = None" using allocator.fresh [OF assms(1)] by blast
    then show ?thesis using Some chain_insert [OF assms(2), of a "junk\<lparr>next_item := item l\<rparr>"]
      by (auto simp: rhs_thread_list_add_def with_list_def simp del: fun_upd_apply chain.simps)
  qed (simp add: rhs_thread_list_add_def with_list_def)
  show "\<exists>l' h'. rhs_thread_list_remove n (Some l) h (Some x) = Inr (x \<in> set as, l', h') \<and>
        chain next_item h' (item l') (remove1 x as) \<and> dom h' = (if x \<in> set as then dom h - {x} else dom h)"
    using remove_loop_chain [of h l "[]" as n "item l" x None] assms(2,3)
    by (simp add: rhs_thread_list_remove_def with_list_def)
  show "rhs_thread_list_erase n (Some l) h = Inr (l\<lparr>item := None\<rparr>, h |` (- set as))"
    using list_erase_loop_chain [OF assms(2,3)] by (simp add: rhs_thread_list_erase_def with_list_def)
qed

definition item_of :: "string \<Rightarrow> nat option \<Rightarrow> thread_item" where
  "item_of name p = \<lparr>item_thread = None, item_name = name, item_priority = 0, stack_address = 0, stack_size = 0,
     stack_min_free = 0, item_state = ''Ready'', counter_previous = 0, counter_current = 0, cpu_percent = 0, item_tick = 0,
     next_item = p\<rparr>"

definition two_items :: "thread_item heap" where
  "two_items = [4 \<mapsto> item_of ''a'' (Some 2), 2 \<mapsto> item_of ''b'' None]"

definition two_list :: thread_list where
  "two_list = \<lparr>item = Some 4, runtime_previous = 0, runtime_current = 0, isr_previous = 0, isr_current = 0\<rparr>"

lemma two_items_chain: "chain next_item two_items (item two_list) [4, 2]"
  by (simp add: two_items_def two_list_def item_of_def)

lemma thread_list_refines_witness:
  "rhs_thread_list_size 10 (Some two_list) two_items = Inr 2 \<and>
   rhs_thread_list_at 10 (Some two_list) two_items 1 = Inr (Some 2) \<and>
   rhs_thread_list_erase 10 (Some two_list) two_items = Inr (two_list\<lparr>item := None\<rparr>, Map.empty)"
  using thread_list_refines [OF first.allocator_axioms two_items_chain, where n = 10 and j = 1 and cap = 10]
  by (auto simp: two_items_def restrict_map_def fun_eq_iff)

lemma enumerate_nodes:
  assumes "allocator alloc cap" and "\<not> RHS_IS_IRQ_MODE c" and "chain next_item h (item l) old" and "finite (dom h)"
    and "card (dom h) + length tasks \<le> cap" and "length old \<le> n" and "length tasks \<le> n" and "length tasks < 65536"
  shows "\<exists>l' h' new. rhs_thread_enumerate n A c alloc junk percent ticks (Some (tasks, run_time)) (Some l) (h, s) =
       Inr (Some l', h', snd (xTaskResumeAll A (vTaskSuspendAll A s))) \<and>
     chain next_item h' (item l') (rev new) \<and> dom h' = dom h - set old \<union> set new \<and>
     (\<forall>a\<in>dom h - set old. h' a = h a) \<and> set new \<inter> (dom h - set old) = {} \<and>
     list_all2 (\<lambda>t a. \<exists>i. h' a = Some i \<and> item_name i = pcTaskName t \<and> item_state i = rhs_thread_state_name (eCurrentState t) \<and>
       counter_current i = ulRunTimeCounter t \<and> counter_previous i = counter_current junk \<and>
       cpu_percent i = (if ulRunTimeCounter t \<noteq> counter_current junk \<and> counter_current junk \<noteq> 0 \<and> ulRunTimeCounter t \<noteq> 0
         then percent (ulRunTimeCounter t - counter_current junk) (run_time - runtime_current l) else 0)) tasks new"
proof -
  let ?tick = "rhs_get_tick c (fst ticks) (snd ticks)"
  let ?l1 = "l\<lparr>item := None\<rparr>" and ?h1 = "h |` (- set old)" and ?rc = "run_time - runtime_current l"
  have 1: "rhs_thread_list_erase n (Some l) h = Inr (?l1, ?h1)"
    using list_erase_loop_chain [OF assms(3,6)] by (simp add: rhs_thread_list_erase_def with_list_def)
  have d1: "dom ?h1 = dom h - set old" by auto
  then have f: "finite (dom ?h1)" "card (dom ?h1) + length tasks \<le> cap"
    using assms(4,5) card_mono [OF assms(4), of "dom h - set old"] by auto
  have "chain next_item ?h1 (item ?l1) []" by simp
  from fill_loop_chain [OF assms(1) this f, of junk ?tick] obtain p h2 new where
    2: "fill_loop alloc junk ?tick tasks ?l1 ?h1 = Inr (?l1\<lparr>item := p\<rparr>, h2)" "items h2 p (rev new)"
    "dom h2 = dom ?h1 \<union> set new" "set new \<inter> dom ?h1 = {}" "\<forall>a\<in>dom ?h1. h2 a = ?h1 a"
    "list_all2 (\<lambda>t a. \<exists>i. h2 a = Some i \<and> describes ?tick junk t i) tasks new" by auto
  have len: "length new = length tasks" using 2(6) by (simp add: list_all2_lengthD)
  let ?l2 = "?l1\<lparr>item := p\<rparr>"
  let ?l3 = "?l2\<lparr>runtime_previous := runtime_current l, runtime_current := run_time\<rparr>"
  have sz: "rhs_thread_list_size n (Some ?l3) h2 = Inr (of_nat (length new))"
    using size_loop_chain [OF 2(2), of n 0] assms(7) len by (simp add: rhs_thread_list_size_def with_list_def)
  have cnt: "unat (of_nat (length new) :: u16) = length (rev new)" using assms(8) len by (simp add: unat_of_nat)
  have c3: "items h2 (item ?l3) (rev new)" using 2(2) by simp
  have b: "length (rev new) \<le> n" "length (rev new) < 65536" "\<forall>i\<in>set [0..<length (rev new)]. i < length (rev new)"
    using assms(7,8) len by auto
  obtain h3 where 3: "process_loop n percent ?rc ?l3 [0..<length (rev new)] h2 = Inr h3"
    "\<And>a. h3 a = (if \<exists>i\<in>set [0..<length (rev new)]. rev new ! i = a then map_option (item_share percent ?rc) (h2 a) else h2 a)"
    using process_loop_chain [OF c3 b, of percent ?rc] by blast
  have h3: "h3 a = (if a \<in> set new then map_option (item_share percent ?rc) (h2 a) else h2 a)" for a
    using 3(2) [of a] in_set_conv_nth [of a "rev new"] by auto
  have run: "rhs_thread_enumerate n A c alloc junk percent ticks (Some (tasks, run_time)) (Some l) (h, s) =
      Inr (Some ?l3, h3, snd (xTaskResumeAll A (vTaskSuspendAll A s)))"
    using assms(2) 1 2(1) sz cnt 3(1) by (simp add: rhs_thread_enumerate_def rhs_thread_list_process_def with_list_def Let_def)
  have "items h3 p (rev new) = items h2 p (rev new)"
    by (rule chain_cong) (simp add: h3 option.map_comp o_def)
  then have c: "items h3 (item ?l3) (rev new)" using 2(2) by simp
  have "dom h3 = dom h2" by (auto simp: h3 split: if_splits)
  then have d: "dom h3 = dom h - set old \<union> set new" using 2(3) d1 by simp
  have keep: "\<forall>a\<in>dom h - set old. h3 a = h a"
  proof
    fix a assume a: "a \<in> dom h - set old"
    then have "a \<in> dom ?h1" using d1 by simp
    then have "a \<notin> set new" "h2 a = ?h1 a" using 2(4,5) by auto
    then show "h3 a = h a" using a by (simp add: h3)
  qed
  have "list_all2 (\<lambda>t a. \<exists>i. h3 a = Some i \<and> item_name i = pcTaskName t \<and> item_state i = rhs_thread_state_name (eCurrentState t) \<and>
       counter_current i = ulRunTimeCounter t \<and> counter_previous i = counter_current junk \<and>
       cpu_percent i = (if ulRunTimeCounter t \<noteq> counter_current junk \<and> counter_current junk \<noteq> 0 \<and> ulRunTimeCounter t \<noteq> 0
         then percent (ulRunTimeCounter t - counter_current junk) ?rc else 0)) tasks new"
    by (rule list.rel_mono_strong [OF 2(6)])
      (use h3 describes_share in \<open>fastforce\<close>)
  then show ?thesis using run c d keep 2(4) d1 by (intro exI [of _ ?l3] exI [of _ h3] exI [of _ new]) simp
qed

text \<open>An enumeration frees the nodes of the old list, leaves every other node of the heap, and makes one new node per task:
  its fields are those of the task, and its share of the run time is computed against the counter that the memory of the new
  node happened to hold. The scheduler is resumed.\<close>

theorem thread_enumerate_snapshot:
  assumes "allocator alloc cap" and "\<not> RHS_IS_IRQ_MODE c" and "chain next_item h (item l) old" and "finite (dom h)"
    and "card (dom h) + length tasks \<le> cap" and "length old \<le> n" and "length tasks \<le> n" and "length tasks < 65536"
  shows "\<exists>l' h' new. rhs_thread_enumerate n A c alloc junk percent ticks (Some (tasks, run_time)) (Some l) (h, s) =
       Inr (Some l', h', snd (xTaskResumeAll A (vTaskSuspendAll A s))) \<and>
     chain next_item h' (item l') (rev new) \<and> dom h' = dom h - set old \<union> set new \<and>
     (\<forall>a\<in>dom h - set old. h' a = h a) \<and>
     list_all2 (\<lambda>t a. \<exists>i. h' a = Some i \<and> item_name i = pcTaskName t \<and> item_state i = rhs_thread_state_name (eCurrentState t) \<and>
       counter_current i = ulRunTimeCounter t \<and> counter_previous i = counter_current junk \<and>
       cpu_percent i = (if ulRunTimeCounter t \<noteq> counter_current junk \<and> counter_current junk \<noteq> 0 \<and> ulRunTimeCounter t \<noteq> 0
         then percent (ulRunTimeCounter t - counter_current junk) (run_time - runtime_current l) else 0)) tasks new"
proof -
  note e = enumerate_nodes [OF assms, of A junk percent ticks run_time s]
  show ?thesis using e by (elim exE conjE) (intro exI conjI)
qed

lemma thread_enumerate_snapshot_witness:
  "\<exists>l' h' a. rhs_thread_enumerate 10 counting_sched task_ctx (first_free 10) (item_of [] None) (\<lambda>x y. x) (5, 5)
       (Some ([\<lparr>pcTaskName = ''idle'', uxCurrentPriority = 0, pxStackBase = 0, pxEndOfStack = 400, high_water_mark = 9,
          eCurrentState = eReady, ulRunTimeCounter = 77\<rparr>], 100)) (Some two_list) (two_items, (True, 0)) =
       Inr (Some l', h', snd (xTaskResumeAll counting_sched (vTaskSuspendAll counting_sched (True, 0)))) \<and>
     chain next_item h' (item l') [a] \<and> dom h' = {a} \<and>
     (\<exists>i. h' a = Some i \<and> item_name i = ''idle'' \<and> counter_current i = 77 \<and> cpu_percent i = 0)"
proof -
  let ?t = "\<lparr>pcTaskName = ''idle'', uxCurrentPriority = 0, pxStackBase = 0, pxEndOfStack = 400, high_water_mark = 9,
          eCurrentState = eReady, ulRunTimeCounter = 77\<rparr>"
  have d: "dom two_items = {4, 2}" by (auto simp: two_items_def)
  have irq: "\<not> RHS_IS_IRQ_MODE task_ctx" by simp
  show ?thesis
    using thread_enumerate_snapshot [OF first.allocator_axioms irq two_items_chain, where tasks = "[?t]" and cap = 10 and n = 10
        and junk = "item_of [] None" and percent = "\<lambda>x y. x" and ticks = "(5, 5)" and run_time = 100 and A = counting_sched
        and s = "(True, 0)"] d
    by (auto simp: list_all2_Cons1 item_of_def)
qed

end
