(* ===== verification/Cli.thy ===== *)
theory Cli
  imports Log Thread_List
begin

text \<open>
  The command line of applications/services/cli/cli_app.c: characters are polled one at a time,
  collected in a line buffer of 64 characters, and at the end of a line the command named by
  the first word is called with the rest. The callbacks of other components are parameters on
  a state \<open>'s\<close>; the commands of this file that change something are modelled over the log and
  the thread list. The lemmas say which command a typed line calls and what happens to a line
  that is too long.
\<close>

section \<open>State\<close>

definition MAX_LINE_LENGTH :: nat where "MAX_LINE_LENGTH = 64"

definition CliSymbolAsciiSOH :: char where "CliSymbolAsciiSOH = CHR 0x01"
definition CliSymbolAsciiETX :: char where "CliSymbolAsciiETX = CHR 0x03"
definition CliSymbolAsciiEOT :: char where "CliSymbolAsciiEOT = CHR 0x04"
definition CliSymbolAsciiBackspace :: char where "CliSymbolAsciiBackspace = CHR 0x08"
definition CliSymbolAsciiTab :: char where "CliSymbolAsciiTab = CHR 0x09"
definition CliSymbolAsciiCR :: char where "CliSymbolAsciiCR = CHR 0x0D"
definition CliSymbolAsciiEsc :: char where "CliSymbolAsciiEsc = CHR 0x1B"
definition CliSymbolAsciiDel :: char where "CliSymbolAsciiDel = CHR 0x7F"

lemmas cli_symbols = CliSymbolAsciiSOH_def CliSymbolAsciiETX_def CliSymbolAsciiEOT_def CliSymbolAsciiBackspace_def
  CliSymbolAsciiTab_def CliSymbolAsciiCR_def CliSymbolAsciiEsc_def CliSymbolAsciiDel_def

record cli_command =
  callback :: nat
  cmd_context :: nat

text \<open>\<open>enter\<close> is the static flag of \<open>cli_getc\<close>.\<close>

record ('t, 's) cli =
  cli_mutex :: "'t mutex_obj"
  cursor_position :: u8
  line :: string
  commands :: "string \<Rightarrow> cli_command option"
  enter :: bool
  world :: 's

text \<open>\<open>unknown\<close> is the warning about an unknown command.\<close>

record ('t, 's) cli_env =
  cli_mapi :: "'t mutex_api"
  cli_me :: 't
  cli_cx :: ctx
  run_callback :: "nat \<Rightarrow> string option \<Rightarrow> nat \<Rightarrow> 's \<Rightarrow> 's"
  unknown :: "'s \<Rightarrow> 's"

definition cli_alloc :: "('t, 's) cli_env \<Rightarrow> 's \<Rightarrow> ('t, 's) cli res" where
  "cli_alloc E w =
     rbind (rhs_mutex_alloc (cli_mapi E) (cli_cx E) RHSMutexTypeNormal) (\<lambda>m.
     Inr \<lparr>cli_mutex = m, cursor_position = 0, line = replicate MAX_LINE_LENGTH nul, commands = Map.empty,
       enter = False, world = w\<rparr>)"

text \<open>The changes of the dictionary happen under the mutex.\<close>

definition change_commands ::
  "('t, 's) cli_env \<Rightarrow> ((string \<Rightarrow> cli_command option) \<Rightarrow> (string \<Rightarrow> cli_command option)) \<Rightarrow> ('t, 's) cli \<Rightarrow> ('t, 's) cli res" where
  "change_commands E f s =
     rbind (rhs_mutex_acquire (cli_mapi E) (cli_cx E) (cli_me E) (cli_mutex s) RHSWaitForever) (\<lambda>(r, m1).
     rhs_assert (r = RHSStatusOk)
       (rbind (rhs_mutex_release (cli_mapi E) (cli_cx E) (cli_me E) m1) (\<lambda>(r', m2).
        rhs_assert (r' = RHSStatusOk) (Inr (s\<lparr>cli_mutex := m2, commands := f (commands s)\<rparr>)))))"

definition cli_add_command :: "('t, 's) cli_env \<Rightarrow> string \<Rightarrow> nat \<Rightarrow> nat \<Rightarrow> ('t, 's) cli \<Rightarrow> ('t, 's) cli res" where
  "cli_add_command E name cb ctxt s =
     rhs_assert (name \<noteq> '' '')
       (change_commands E (\<lambda>cs. cs(name \<mapsto> \<lparr>callback = cb, cmd_context = ctxt\<rparr>)) s)"

definition cli_remove_command :: "('t, 's) cli_env \<Rightarrow> string \<Rightarrow> ('t, 's) cli \<Rightarrow> ('t, 's) cli res" where
  "cli_remove_command E name s = change_commands E (\<lambda>cs. cs(name := None)) s"

section \<open>Input\<close>

text \<open>\<open>c\<close> is the character that is polled, 0 for none: the first pause after a character ends the line.\<close>

definition cli_getc :: "char \<Rightarrow> ('t, 's) cli \<Rightarrow> char \<times> ('t, 's) cli" where
  "cli_getc c s =
     (if c \<noteq> nul then (c, s\<lparr>enter := True\<rparr>)
      else if enter s then (CliSymbolAsciiCR, s\<lparr>enter := False\<rparr>)
      else (c, s))"

definition cli_reset :: "('t, 's) cli \<Rightarrow> ('t, 's) cli" where
  "cli_reset s = s\<lparr>cursor_position := 0, line := replicate MAX_LINE_LENGTH nul\<rparr>"

text \<open>\<open>strchr (line, ' ')\<close>: the place of the first blank before the end of the string.\<close>

fun blank_at :: "nat \<Rightarrow> string \<Rightarrow> nat option res" where
  "blank_at i [] = Inl OutOfBounds"
| "blank_at i (c # cs) = (if c = CHR '' '' then Inr (Some i) else if c = nul then Inr None else blank_at (Suc i) cs)"

text \<open>The string that starts at a place of the buffer; it must end inside.\<close>

fun c_str :: "string \<Rightarrow> string res" where
  "c_str [] = Inl OutOfBounds"
| "c_str (c # cs) = (if c = nul then Inr [] else rbind (c_str cs) (\<lambda>t. Inr (c # t)))"

definition cli_handle_enter :: "('t, 's) cli_env \<Rightarrow> ('t, 's) cli \<Rightarrow> ('t, 's) cli res" where
  "cli_handle_enter E s =
     rbind (blank_at 0 (line s)) (\<lambda>e.
     let s1 = (case e of None \<Rightarrow> s | Some i \<Rightarrow> s\<lparr>line := (line s)[i := nul]\<rparr>) in
     rbind (c_str (line s1)) (\<lambda>name.
     case commands s1 name of
       None \<Rightarrow> Inr (cli_reset (s1\<lparr>world := unknown E (world s1)\<rparr>))
     | Some command \<Rightarrow>
         rbind (case e of None \<Rightarrow> Inr None
                | Some i \<Rightarrow> rbind (c_str (drop (Suc i) (line s1))) (\<lambda>a. Inr (Some a))) (\<lambda>args.
         Inr (cli_reset (s1\<lparr>world := run_callback E (callback command) args (cmd_context command) (world s1)\<rparr>)))))"

definition printable :: "char \<Rightarrow> bool" where
  "printable c \<longleftrightarrow> 0x20 \<le> char_nat c \<and> char_nat c < 0x7F"

definition cli_process_input :: "('t, 's) cli_env \<Rightarrow> char \<Rightarrow> ('t, 's) cli \<Rightarrow> ('t, 's) cli res" where
  "cli_process_input E polled s =
     (let (c, s1) = cli_getc polled s in
      if c = CliSymbolAsciiTab \<or> c = CliSymbolAsciiSOH \<or> c = CliSymbolAsciiETX \<or> c = CliSymbolAsciiEOT \<or>
         c = CliSymbolAsciiEsc \<or> c = CliSymbolAsciiBackspace \<or> c = CliSymbolAsciiDel then Inr s1
      else if c = CliSymbolAsciiCR then cli_handle_enter E s1
      else if printable c then
        rbind (aset (line s1) (unat (cursor_position s1)) c) (\<lambda>l.
        Inr (s1\<lparr>line := l, cursor_position := cursor_position s1 + 1\<rparr>))
      else Inr s1)"

fun cli_inputs :: "('t, 's) cli_env \<Rightarrow> string \<Rightarrow> ('t, 's) cli \<Rightarrow> ('t, 's) cli res" where
  "cli_inputs E [] s = Inr s"
| "cli_inputs E (c # cs) s = rbind (cli_process_input E c s) (cli_inputs E cs)"

section \<open>Commands\<close>

text \<open>The commands that the service registers when it starts, named by numbers in the order of the source.\<close>

definition builtin_commands :: "(string \<times> nat) list" where
  "builtin_commands = [(''uptime'', 0), (''free'', 1), (''?'', 2), (''log'', 3), (''reset'', 4), (''uid'', 5),
     (''top'', 6), (''crash'', 7), (''hardfault'', 8), (''info'', 9)]"

fun add_all :: "('t, 's) cli_env \<Rightarrow> nat \<Rightarrow> (string \<times> nat) list \<Rightarrow> ('t, 's) cli \<Rightarrow> ('t, 's) cli res" where
  "add_all E ctxt [] s = Inr s"
| "add_all E ctxt ((name, cb) # cs) s = rbind (cli_add_command E name cb ctxt s) (add_all E ctxt cs)"

text \<open>The service: set up, then one input after the other, without end; \<open>cs\<close> is what it polls.\<close>

definition cli_service :: "('t, 's) cli_env \<Rightarrow> nat \<Rightarrow> string \<Rightarrow> 's \<Rightarrow> ('t, 's) cli res" where
  "cli_service E app cs w =
     rbind (cli_alloc E w) (\<lambda>s.
     rbind (add_all E app builtin_commands s) (cli_inputs E cs))"

definition cli_command_uptime :: "u32 \<Rightarrow> u32 \<Rightarrow> u32 \<times> u32 \<times> u32" where
  "cli_command_uptime tick freq =
     (let uptime = tick div freq in (uptime div 60 div 60, uptime div 60 mod 60, uptime mod 60))"

text \<open>The names in the order of the dictionary, padded to 30 characters, three in a row.\<close>

definition pad :: "nat \<Rightarrow> string \<Rightarrow> string" where
  "pad n s = s @ replicate (n - length s) (CHR '' '')"

fun command_rows :: "nat \<Rightarrow> string list \<Rightarrow> string" where
  "command_rows i [] = []"
| "command_rows i (n # ns) = pad 30 n @ (if i mod 3 = 2 then [CHR 0x0D, CHR 0x0A] else []) @ command_rows (Suc i) ns"

definition cli_commands :: "string list \<Rightarrow> string" where
  "cli_commands names =
     ''Available commands:'' @ [CHR 0x0D, CHR 0x0A] @ command_rows 0 names @
     (if length names mod 3 \<noteq> 0 then [CHR 0x0D, CHR 0x0A] else [])"

datatype log_reply = LogLevelIs log_level | WasExcluded string | WasUnexcluded string | InvalidArgument

definition level_of_digit :: "nat \<Rightarrow> log_level" where
  "level_of_digit n = [RHSLogLevelDefault, RHSLogLevelNone, RHSLogLevelError, RHSLogLevelWarn, RHSLogLevelInfo,
     RHSLogLevelDebug, RHSLogLevelTrace] ! n"

definition starts_with :: "string \<Rightarrow> string \<Rightarrow> bool" where
  "starts_with args p \<longleftrightarrow> take (length p) args = p"

definition cli_command_log :: "bool \<Rightarrow> string option \<Rightarrow> 't log_state \<Rightarrow> (log_reply \<times> 't log_state) res" where
  "cli_command_log got args s = (case args of
     None \<Rightarrow> Inr (LogLevelIs (rhs_log_get_level s), s)
   | Some a \<Rightarrow>
       if length a = 1 \<and> 48 \<le> char_nat (hd a) \<and> char_nat (hd a) \<le> 54 then
         let s' = rhs_log_set_level (level_of_digit (char_nat (hd a) - 48)) s in Inr (LogLevelIs (rhs_log_get_level s'), s')
       else case dropWhile (\<lambda>c. c \<noteq> CHR '' '') a of
         [] \<Rightarrow> Inr (InvalidArgument, s)
       | _ # tag \<Rightarrow>
           if tag = [] then Inr (InvalidArgument, s)
           else if starts_with a ''-e'' then
             rbind (rhs_log_exclude_tag got (Some tag) s) (\<lambda>s'. Inr (WasExcluded tag, s'))
           else if starts_with a ''-ue'' then
             rbind (rhs_log_unexclude_tag (Some tag) s) (\<lambda>s'. Inr (WasUnexcluded tag, s'))
           else Inr (InvalidArgument, s))"

record top_row =
  row_name :: string
  row_state :: string
  row_priority :: u32
  row_cpu :: string
  row_stack :: u32

definition top_row_of :: "thread_item \<Rightarrow> top_row" where
  "top_row_of i = \<lparr>row_name = item_name i, row_state = item_state i, row_priority = item_priority i,
     row_cpu = (if cpu_percent i < 1 then ''<1%'' else dec_string (unat (cpu_percent i)) @ ''%''),
     row_stack = stack_min_free i\<rparr>"

fun top_rows :: "nat \<Rightarrow> thread_list option \<Rightarrow> thread_item heap \<Rightarrow> nat list \<Rightarrow> top_row list res" where
  "top_rows n list h [] = Inr []"
| "top_rows n list h (i # is) =
     rbind (rhs_thread_list_at n list h (of_nat i)) (\<lambda>p. case p of
       None \<Rightarrow> Inl OutOfBounds
     | Some a \<Rightarrow> rbind (hget h a) (\<lambda>x. rbind (top_rows n list h is) (\<lambda>rs. Inr (top_row_of x # rs))))"

text \<open>\<open>got\<close> says whether there is memory for the list; the other arguments are those of \<open>rhs_thread_enumerate\<close>.\<close>

definition cli_command_top ::
  "nat \<Rightarrow> 's sched_api \<Rightarrow> ctx \<Rightarrow> (thread_item heap \<Rightarrow> nat option) \<Rightarrow> thread_item \<Rightarrow> (u32 \<Rightarrow> u32 \<Rightarrow> u32) \<Rightarrow> u32 \<times> u32 \<Rightarrow>
     (task_status list \<times> u32) option \<Rightarrow> bool \<Rightarrow> thread_item heap \<times> 's \<Rightarrow> (top_row list \<times> thread_item heap \<times> 's) res" where
  "cli_command_top n A c alloc junk percent ticks snapshot got hs =
     rbind (rhs_thread_enumerate n A c alloc junk percent ticks snapshot (rhs_thread_list_create got) hs) (\<lambda>(list, h, s).
     rbind (rhs_thread_list_size n list h) (\<lambda>count.
     rbind (top_rows n list h [0..<unat count]) (\<lambda>rows.
     rbind (rhs_thread_list_destroy n list h) (\<lambda>h'. Inr (rows, h', s)))))"

section \<open>Typing a line\<close>

definition line_holds :: "string \<Rightarrow> string \<Rightarrow> bool" where
  "line_holds l t \<longleftrightarrow> l = t @ replicate (MAX_LINE_LENGTH - length t) nul"

definition typed :: "('t, 's) cli \<Rightarrow> string \<Rightarrow> bool" where
  "typed s t \<longleftrightarrow> line_holds (line s) t \<and> cursor_position s = of_nat (length t)"

lemma printable_plain:
  assumes "printable c"
  shows "c \<noteq> nul" and "c \<noteq> CliSymbolAsciiTab" and "c \<noteq> CliSymbolAsciiSOH" and "c \<noteq> CliSymbolAsciiETX" and "c \<noteq> CliSymbolAsciiEOT"
    and "c \<noteq> CliSymbolAsciiEsc" and "c \<noteq> CliSymbolAsciiBackspace" and "c \<noteq> CliSymbolAsciiDel" and "c \<noteq> CliSymbolAsciiCR"
  using assms by (auto simp: printable_def char_nat_def nul_def cli_symbols)

lemma type_char:
  assumes "typed s t" and "printable c" and "length t < 64"
  shows "\<exists>s'. cli_process_input E c s = Inr s' \<and> typed s' (t @ [c]) \<and> commands s' = commands s \<and> world s' = world s \<and>
    cli_mutex s' = cli_mutex s \<and> enter s'"
proof -
  have u: "unat (cursor_position s) = length t" using assms(1,3) by (simp add: typed_def unat_of_nat)
  have "(t @ replicate (64 - length t) nul)[length t := c] = t @ c # replicate (64 - length (t @ [c])) nul"
    using assms(3) by (cases "64 - length t") (auto simp: list_update_append)
  moreover have "length (line s) = 64" using assms(1,3) by (simp add: typed_def line_holds_def MAX_LINE_LENGTH_def)
  ultimately show ?thesis using assms u printable_plain [OF assms(2)]
    by (auto simp: cli_process_input_def cli_getc_def typed_def line_holds_def MAX_LINE_LENGTH_def Let_def)
qed

lemma type_text:
  assumes "typed s t" and "\<forall>c\<in>set u. printable c" and "length t + length u \<le> 64"
  shows "\<exists>s'. cli_inputs E u s = Inr s' \<and> typed s' (t @ u) \<and> commands s' = commands s \<and> world s' = world s \<and>
    cli_mutex s' = cli_mutex s \<and> (u \<noteq> [] \<longrightarrow> enter s')"
  using assms
proof (induction u arbitrary: s t)
  case (Cons c u)
  obtain s1 where 1: "cli_process_input E c s = Inr s1" "typed s1 (t @ [c])" "commands s1 = commands s" "world s1 = world s"
    "cli_mutex s1 = cli_mutex s" "enter s1"
    using type_char [OF Cons.prems(1), of c E] Cons.prems(2,3) by auto
  have "\<exists>s'. cli_inputs E u s1 = Inr s' \<and> typed s' ((t @ [c]) @ u) \<and> commands s' = commands s1 \<and> world s' = world s1 \<and>
    cli_mutex s' = cli_mutex s1 \<and> (u \<noteq> [] \<longrightarrow> enter s')"
    by (rule Cons.IH [OF 1(2)]) (use Cons.prems(2,3) in auto)
  then show ?case using 1 by (cases u) auto
qed simp

lemma inputs_append: "cli_inputs E (cs @ ds) s = rbind (cli_inputs E cs s) (cli_inputs E ds)"
proof (induction cs arbitrary: s)
  case (Cons c cs)
  then show ?case by (cases "cli_process_input E c s") simp_all
qed simp

abbreviation no_blank :: "char \<Rightarrow> bool" where
  "no_blank c \<equiv> c \<noteq> CHR '' ''"

lemma blank_at_text:
  assumes "nul \<notin> set t"
  shows "blank_at k (t @ nul # r) =
    Inr (if dropWhile no_blank t = [] then None else Some (k + length (takeWhile no_blank t)))"
  using assms by (induction t arbitrary: k) (auto simp: nul_def)

lemma c_str_text: "nul \<notin> set t \<Longrightarrow> c_str (t @ nul # r) = Inr t"
  by (induction t) auto

lemma enter_text:
  assumes "line_holds (line s) t" and "nul \<notin> set t" and "length t < 64"
  shows "cli_handle_enter E s =
    (let name = takeWhile no_blank t; args = (case dropWhile no_blank t of [] \<Rightarrow> None | _ # a \<Rightarrow> Some a) in
     Inr (cli_reset (s\<lparr>world := (case commands s name of
        None \<Rightarrow> unknown E (world s)
      | Some c \<Rightarrow> run_callback E (callback c) args (cmd_context c) (world s))\<rparr>)))"
proof -
  let ?n = "takeWhile no_blank t"
  obtain k where k: "64 - length t = Suc k" using assms(3) by (cases "64 - length t") auto
  have l: "line s = t @ nul # replicate k nul" using assms(1) k by (simp add: line_holds_def MAX_LINE_LENGTH_def)
  show ?thesis
  proof (cases "dropWhile no_blank t")
    case Nil
    then have n: "?n = t" by (metis append_Nil2 takeWhile_dropWhile_id)
    have "blank_at 0 (line s) = Inr None" using l blank_at_text [OF assms(2), of 0] Nil by simp
    moreover have "c_str (line s) = Inr t" using l c_str_text [OF assms(2)] by simp
    ultimately show ?thesis unfolding Nil n
      by (simp add: cli_handle_enter_def cli_reset_def split: option.splits)
  next
    case (Cons b a)
    have t: "t = ?n @ b # a" using Cons by (metis takeWhile_dropWhile_id)
    have sub: "nul \<notin> set ?n" "nul \<notin> set a" using assms(2) t by (metis Un_iff set_append set_subset_Cons subsetD)+
    have "(line s)[length ?n := nul] = ?n @ nul # (a @ nul # replicate k nul)"
      unfolding l by (subst t) (simp add: list_update_append)
    moreover have "c_str (?n @ nul # (a @ nul # replicate k nul)) = Inr ?n" by (rule c_str_text [OF sub(1)])
    moreover have "c_str (drop (Suc (length ?n)) (?n @ nul # (a @ nul # replicate k nul))) = Inr a"
      using c_str_text [OF sub(2)] by simp
    ultimately show ?thesis using Cons l blank_at_text [OF assms(2), of 0]
      by (simp add: cli_handle_enter_def cli_reset_def Let_def split: option.splits)
  qed
qed

section \<open>Properties\<close>

text \<open>C20: A typed line of at most 63 printable characters, followed by a pause, calls the command named by its first word with
  the rest after the blank, or warns when there is none, and leaves an empty line.\<close>

theorem cli_runs_line:
  assumes "typed s []" and "t \<noteq> []" and "\<forall>c\<in>set t. printable c" and "length t \<le> 63"
  shows "\<exists>s'. cli_inputs E (t @ [nul]) s = Inr s' \<and> typed s' [] \<and> \<not> enter s' \<and> commands s' = commands s \<and>
     world s' = (case commands s (takeWhile (\<lambda>c. c \<noteq> CHR '' '') t) of
        None \<Rightarrow> unknown E (world s)
      | Some cmd \<Rightarrow> run_callback E (callback cmd)
          (case dropWhile (\<lambda>c. c \<noteq> CHR '' '') t of [] \<Rightarrow> None | _ # args \<Rightarrow> Some args) (cmd_context cmd) (world s))"
proof -
  obtain s1 where 1: "cli_inputs E t s = Inr s1" "typed s1 t" "commands s1 = commands s" "world s1 = world s" "enter s1"
    using type_text [OF assms(1,3), of E] assms(2,4) by auto
  let ?s2 = "s1\<lparr>enter := False\<rparr>"
  have n: "nul \<notin> set t" using assms(3) printable_plain(1) by blast
  have "cli_process_input E nul s1 = cli_handle_enter E ?s2"
    using 1(5) by (simp add: cli_process_input_def cli_getc_def cli_symbols Let_def)
  moreover have "line_holds (line ?s2) t" using 1(2) by (simp add: typed_def)
  ultimately have run: "cli_inputs E (t @ [nul]) s =
    (let name = takeWhile no_blank t; args = (case dropWhile no_blank t of [] \<Rightarrow> None | _ # a \<Rightarrow> Some a) in
     Inr (cli_reset (?s2\<lparr>world := (case commands ?s2 name of
        None \<Rightarrow> unknown E (world ?s2)
      | Some c \<Rightarrow> run_callback E (callback c) args (cmd_context c) (world ?s2))\<rparr>)))"
    using enter_text [of ?s2 t E] n assms(4) 1(1) by (simp add: inputs_append Let_def)
  show ?thesis unfolding run Let_def
    by (simp add: 1(3,4) cli_reset_def typed_def line_holds_def cong: option.case_cong)
qed

text \<open>A line of more than 64 printable characters writes behind the line buffer.\<close>

theorem cli_line_overflow:
  assumes "typed s []" and "\<forall>c\<in>set t. printable c" and "64 < length t"
  shows "cli_inputs E t s = Inl OutOfBounds"
proof -
  obtain c r where cr: "drop 64 t = c # r" using assms(3) by (cases "drop 64 t") auto
  have t: "t = take 64 t @ c # r" using cr by (metis append_take_drop_id)
  have p: "\<forall>x\<in>set (take 64 t). printable x" "printable c" using assms(2) t by (metis in_set_takeD, metis in_set_conv_decomp)
  obtain s1 where 1: "cli_inputs E (take 64 t) s = Inr s1" "typed s1 (take 64 t)"
    using type_text [OF assms(1) p(1), of E] assms(3) by auto
  have "unat (cursor_position s1) = 64" "length (line s1) = 64"
    using 1(2) assms(3) by (simp_all add: typed_def line_holds_def MAX_LINE_LENGTH_def)
  then have "cli_process_input E c s1 = Inl OutOfBounds"
    using printable_plain [OF p(2)] p(2) by (simp add: cli_process_input_def cli_getc_def aset_def)
  then show ?thesis using 1(1) by (subst t) (simp add: inputs_append)
qed

definition echo_env :: "(nat, (nat \<times> string option) list) cli_env" where
  "echo_env = \<lparr>cli_mapi = plain_mutex, cli_me = 1, cli_cx = task_ctx,
     run_callback = (\<lambda>cb args ctxt w. w @ [(cb, args)]), unknown = (\<lambda>w. w @ [(99, None)])\<rparr>"

definition echo_cli :: "(nat, (nat \<times> string option) list) cli" where
  "echo_cli = \<lparr>cli_mutex = \<lparr>ucQueueType = 1, holder = None, rec_depth = 0\<rparr>, cursor_position = 0,
     line = replicate MAX_LINE_LENGTH nul, commands = [''log'' \<mapsto> \<lparr>callback = 3, cmd_context = 0\<rparr>], enter = False, world = []\<rparr>"

lemma echo_cli_typed: "typed echo_cli []"
  by (simp add: typed_def line_holds_def echo_cli_def)

lemma cli_runs_line_witness:
  "\<exists>s'. cli_inputs echo_env (''log -e can'' @ [nul]) echo_cli = Inr s' \<and> typed s' [] \<and> world s' = [(3, Some ''-e can'')]"
  using cli_runs_line [OF echo_cli_typed, of "''log -e can''" echo_env]
  by (auto simp: printable_def char_nat_def echo_cli_def echo_env_def)

lemma cli_line_overflow_witness: "cli_inputs echo_env (replicate 65 (CHR ''a'')) echo_cli = Inl OutOfBounds"
  by (rule cli_line_overflow [OF echo_cli_typed]) (auto simp: printable_def char_nat_def)

text \<open>The command top shows one row per task, the last one of the snapshot first, and gives back all the memory it took:
  the heap afterwards is the heap before.\<close>

theorem cli_top_frees_all:
  assumes "allocator alloc cap" and "\<not> RHS_IS_IRQ_MODE c" and "finite (dom h)"
    and "card (dom h) + length tasks \<le> cap" and "length tasks \<le> n" and "length tasks < 65536"
  shows "\<exists>rows. cli_command_top n A c alloc junk percent ticks (Some (tasks, run_time)) True (h, s) =
       Inr (rows, h, snd (xTaskResumeAll A (vTaskSuspendAll A s))) \<and> map row_name rows = rev (map pcTaskName tasks)"
proof -
  let ?l = "\<lparr>item = None, runtime_previous = 0, runtime_current = 0, isr_previous = 0, isr_current = 0\<rparr> :: thread_list"
  have c: "chain next_item h (item ?l) []" by simp
  have z: "length ([] :: nat list) \<le> n" by simp
  note e = enumerate_nodes [OF assms(1,2) c assms(3,4) z assms(5,6), of A junk percent ticks run_time s]
  obtain l' h' new where 1: "rhs_thread_enumerate n A c alloc junk percent ticks (Some (tasks, run_time)) (Some ?l) (h, s) =
       Inr (Some l', h', snd (xTaskResumeAll A (vTaskSuspendAll A s)))"
    "chain next_item h' (item l') (rev new)" "dom h' = dom h - set [] \<union> set new" "\<forall>a\<in>dom h - set []. h' a = h a"
    "set new \<inter> (dom h - set []) = {}"
    "list_all2 (\<lambda>t a. \<exists>i. h' a = Some i \<and> item_name i = pcTaskName t) tasks new"
    using e by (elim exE conjE) (rule that, assumption+, erule list_all2_mono, blast)
  have len: "length new = length tasks" using 1(6) by (simp add: list_all2_lengthD)
  have b: "length (rev new) \<le> n" "length (rev new) < 65536" using assms(5,6) len by simp_all
  have sz: "rhs_thread_list_size n (Some l') h' = Inr (of_nat (length new))"
    using size_loop_chain [OF 1(2), of n 0] b by (simp add: rhs_thread_list_size_def with_list_def)
  have at: "rhs_thread_list_at n (Some l') h' (of_nat i) = Inr (Some (rev new ! i))" if "i < length new" for i
    using at_loop_chain [OF 1(2) b(1), of 0 i] that b(2) by (simp add: rhs_thread_list_at_def with_list_def)
  have rows: "top_rows n (Some l') h' is = Inr (map (\<lambda>i. top_row_of (the (h' (rev new ! i)))) is)"
    if "\<forall>i\<in>set is. i < length new" for "is"
    using that
  proof (induction "is")
    case (Cons i "is")
    have "rev new ! i \<in> set new" using Cons.prems nth_mem [of i "rev new"] by simp
    then obtain x where "h' (rev new ! i) = Some x" using 1(3) by auto
    then show ?case using Cons at [of i] by simp
  qed simp
  let ?rows = "map (\<lambda>i. top_row_of (the (h' (rev new ! i)))) [0..<length new]"
  have gone: "h' |` (- set (rev new)) = h"
  proof
    fix a
    show "(h' |` (- set (rev new))) a = h a" using 1(3,4,5) by (cases "a \<in> set new"; cases "h a") (auto simp: domIff)
  qed
  have "rhs_thread_list_destroy n (Some l') h' = Inr h"
    using list_erase_loop_chain [OF 1(2) b(1)] gone by (simp add: rhs_thread_list_destroy_def rhs_thread_list_erase_def with_list_def)
  then have run: "cli_command_top n A c alloc junk percent ticks (Some (tasks, run_time)) True (h, s) =
      Inr (?rows, h, snd (xTaskResumeAll A (vTaskSuspendAll A s)))"
    using 1(1) sz rows [of "[0..<length new]"] assms(6) len
    by (simp add: cli_command_top_def rhs_thread_list_create_def unat_of_nat)
  have "map row_name ?rows = map (\<lambda>a. item_name (the (h' a))) (map ((!) (rev new)) [0..<length new])"
    by (simp add: top_row_of_def)
  also have "map ((!) (rev new)) [0..<length new] = rev new" using map_nth [of "rev new"] by simp
  also have "map (\<lambda>a. item_name (the (h' a))) (rev new) = rev (map pcTaskName tasks)"
  proof -
    have "map (\<lambda>a. item_name (the (h' a))) new = map pcTaskName tasks"
      using 1(6) by (induction rule: list_all2_induct) auto
    then show ?thesis by (simp add: rev_map [symmetric] del: map_eq_conv)
  qed
  finally show ?thesis using run by blast
qed

lemma cli_top_frees_all_witness:
  "\<exists>rows. cli_command_top 10 counting_sched task_ctx (first_free 10) (item_of [] None) (\<lambda>x y. x) (5, 5)
       (Some ([\<lparr>pcTaskName = ''idle'', uxCurrentPriority = 0, pxStackBase = 0, pxEndOfStack = 400, high_water_mark = 9,
          eCurrentState = eReady, ulRunTimeCounter = 77\<rparr>], 100)) True (two_items, (True, 0)) =
       Inr (rows, two_items, snd (xTaskResumeAll counting_sched (vTaskSuspendAll counting_sched (True, 0)))) \<and>
     map row_name rows = [''idle'']"
proof -
  let ?t = "\<lparr>pcTaskName = ''idle'', uxCurrentPriority = 0, pxStackBase = 0, pxEndOfStack = 400, high_water_mark = 9,
          eCurrentState = eReady, ulRunTimeCounter = 77\<rparr>"
  have d: "dom two_items = {4, 2}" by (auto simp: two_items_def)
  have irq: "\<not> RHS_IS_IRQ_MODE task_ctx" by simp
  show ?thesis
    using cli_top_frees_all [OF first.allocator_axioms irq, where h = two_items and tasks = "[?t]" and n = 10
        and junk = "item_of [] None" and percent = "\<lambda>x y. x" and ticks = "(5, 5)" and run_time = 100 and A = counting_sched
        and s = "(True, 0)"] d
    by auto
qed

end
