(* ===== verification/Io.thy ===== *)
theory Io
  imports Prelude
begin

text \<open>
  The digital inputs, outputs and keys of hal/rhs_hal_io/rhs_hal_io.c for both boards that
  have them. The GPIO registers and the vendor's pin functions are parameters; the locale
  \<open>gpio\<close> states them bit by bit. The lemmas show that switching a line changes that line
  only, and which lines the initialisation really configures: all of them on the BMPLC_L,
  but not on the BMPLC_XL.
\<close>

section \<open>Ports and pins\<close>

datatype gpio_port = GPIOA | GPIOB | GPIOC | GPIOD | GPIOE | GPIOF | GPIOG | GPIOH

datatype board = BMPLC_XL | BMPLC_L

datatype io_line = KEY0 | KEY1 | KEY2 | KEY3 | KEY4 | OUT0 | OUT1 | OUT2 | OUT3 | OUT4 | IN0 | IN1 | IN2 | IN3 | IN4

fun pins_XL :: "io_line \<Rightarrow> gpio_port \<times> nat" where
  "pins_XL KEY0 = (GPIOE, 4)" | "pins_XL KEY4 = (GPIOF, 0)" | "pins_XL KEY3 = (GPIOF, 1)"
| "pins_XL KEY2 = (GPIOF, 2)" | "pins_XL KEY1 = (GPIOF, 3)" | "pins_XL OUT4 = (GPIOF, 4)"
| "pins_XL IN0 = (GPIOF, 15)" | "pins_XL IN1 = (GPIOB, 2)" | "pins_XL IN2 = (GPIOB, 0)"
| "pins_XL IN3 = (GPIOB, 1)" | "pins_XL OUT0 = (GPIOF, 14)" | "pins_XL OUT1 = (GPIOF, 13)"
| "pins_XL OUT2 = (GPIOF, 12)" | "pins_XL OUT3 = (GPIOF, 11)" | "pins_XL IN4 = (GPIOG, 12)"

fun pins_L :: "io_line \<Rightarrow> gpio_port \<times> nat" where
  "pins_L KEY0 = (GPIOE, 4)" | "pins_L KEY4 = (GPIOF, 0)" | "pins_L KEY3 = (GPIOF, 1)"
| "pins_L KEY2 = (GPIOF, 2)" | "pins_L KEY1 = (GPIOF, 3)" | "pins_L OUT4 = (GPIOF, 4)"
| "pins_L IN0 = (GPIOC, 4)" | "pins_L IN1 = (GPIOC, 5)" | "pins_L IN2 = (GPIOB, 0)"
| "pins_L IN3 = (GPIOB, 1)" | "pins_L OUT0 = (GPIOF, 12)" | "pins_L OUT1 = (GPIOF, 14)"
| "pins_L OUT2 = (GPIOG, 0)" | "pins_L OUT3 = (GPIOE, 7)" | "pins_L IN4 = (GPIOG, 12)"

definition pins :: "board \<Rightarrow> io_line \<Rightarrow> gpio_port \<times> nat" where
  "pins b = (case b of BMPLC_XL \<Rightarrow> pins_XL | BMPLC_L \<Rightarrow> pins_L)"

text \<open>The modes of the pins that the code uses; \<open>GPIO_PIN n\<close> is the vendor's mask of a pin.\<close>

datatype gpio_mode = GPIO_MODE_OUTPUT_PP | GPIO_MODE_IT_RISING_FALLING

record 'g gpio_api =
  GPIO_PIN :: "nat \<Rightarrow> u32"
  IDR :: "gpio_port \<Rightarrow> 'g \<Rightarrow> u32"
  write_BSRR :: "gpio_port \<Rightarrow> u32 \<Rightarrow> 'g \<Rightarrow> 'g"
  HAL_GPIO_WritePin :: "gpio_port \<Rightarrow> u32 \<Rightarrow> bool \<Rightarrow> 'g \<Rightarrow> 'g"
  HAL_GPIO_Init :: "gpio_port \<Rightarrow> u32 \<Rightarrow> gpio_mode \<Rightarrow> 'g \<Rightarrow> 'g"
  GPIO_CLK_ENABLE :: "gpio_port \<Rightarrow> 'g \<Rightarrow> 'g"

definition line_port :: "board \<Rightarrow> io_line \<Rightarrow> gpio_port" where
  "line_port b l = fst (pins b l)"

definition line_pin :: "'g gpio_api \<Rightarrow> board \<Rightarrow> io_line \<Rightarrow> u32" where
  "line_pin G b l = GPIO_PIN G (snd (pins b l))"

section \<open>Operations\<close>

definition PIN_IS_HIGH :: "'g gpio_api \<Rightarrow> gpio_port \<Rightarrow> u32 \<Rightarrow> 'g \<Rightarrow> bool" where
  "PIN_IS_HIGH G port pin g \<longleftrightarrow> IDR G port g AND pin \<noteq> 0"

definition PIN_IS_LOW :: "'g gpio_api \<Rightarrow> gpio_port \<Rightarrow> u32 \<Rightarrow> 'g \<Rightarrow> bool" where
  "PIN_IS_LOW G port pin g \<longleftrightarrow> IDR G port g AND pin = 0"

definition PIN_HI :: "'g gpio_api \<Rightarrow> gpio_port \<Rightarrow> u32 \<Rightarrow> 'g \<Rightarrow> 'g" where
  "PIN_HI G port pin g = write_BSRR G port pin g"

definition PIN_LOW :: "'g gpio_api \<Rightarrow> gpio_port \<Rightarrow> u32 \<Rightarrow> 'g \<Rightarrow> 'g" where
  "PIN_LOW G port pin g = write_BSRR G port (push_bit 16 pin) g"

text \<open>
  The source has one function for each line, \<open>IN0_IS_HIGH\<close> to \<open>IN4_IS_LOW\<close> for the inputs,
  \<open>OUT0_ON\<close> to \<open>OUT4_OFF\<close> for the outputs and \<open>KEY0_ON\<close> to \<open>KEY4_OFF\<close> for the keys; here the
  line is an argument.
\<close>

definition IN_IS_HIGH :: "'g gpio_api \<Rightarrow> board \<Rightarrow> io_line \<Rightarrow> 'g \<Rightarrow> bool" where
  "IN_IS_HIGH G b l = PIN_IS_HIGH G (line_port b l) (line_pin G b l)"

definition IN_IS_LOW :: "'g gpio_api \<Rightarrow> board \<Rightarrow> io_line \<Rightarrow> 'g \<Rightarrow> bool" where
  "IN_IS_LOW G b l = PIN_IS_LOW G (line_port b l) (line_pin G b l)"

definition OUT_ON :: "'g gpio_api \<Rightarrow> board \<Rightarrow> io_line \<Rightarrow> 'g \<Rightarrow> 'g" where
  "OUT_ON G b l = PIN_HI G (line_port b l) (line_pin G b l)"

definition OUT_OFF :: "'g gpio_api \<Rightarrow> board \<Rightarrow> io_line \<Rightarrow> 'g \<Rightarrow> 'g" where
  "OUT_OFF G b l = PIN_LOW G (line_port b l) (line_pin G b l)"

definition KEY_ON :: "'g gpio_api \<Rightarrow> board \<Rightarrow> io_line \<Rightarrow> 'g \<Rightarrow> 'g" where
  "KEY_ON G b l = PIN_HI G (line_port b l) (line_pin G b l)"

definition KEY_OFF :: "'g gpio_api \<Rightarrow> board \<Rightarrow> io_line \<Rightarrow> 'g \<Rightarrow> 'g" where
  "KEY_OFF G b l = PIN_LOW G (line_port b l) (line_pin G b l)"

definition mask_of :: "'g gpio_api \<Rightarrow> board \<Rightarrow> io_line list \<Rightarrow> u32" where
  "mask_of G b ls = foldr (\<lambda>l m. line_pin G b l OR m) ls 0"

definition rhs_hal_io_init :: "'g gpio_api \<Rightarrow> board \<Rightarrow> 'g \<Rightarrow> 'g" where
  "rhs_hal_io_init G b g =
     (let g1 = fold (GPIO_CLK_ENABLE G) [GPIOE, GPIOC, GPIOF, GPIOH, GPIOA, GPIOB, GPIOG, GPIOD] g;
          g2 = HAL_GPIO_WritePin G GPIOE (mask_of G b [KEY0, OUT3]) False g1;
          g3 = HAL_GPIO_WritePin G GPIOF (mask_of G b [KEY4, KEY3, KEY2, KEY1, OUT4, OUT0, OUT1]) False g2;
          g4 = HAL_GPIO_WritePin G (line_port b OUT2) (line_pin G b OUT2) False g3;
          g5 = HAL_GPIO_Init G GPIOE (mask_of G b [KEY0, OUT3]) GPIO_MODE_OUTPUT_PP g4;
          g6 = HAL_GPIO_Init G GPIOF (mask_of G b [KEY4, KEY3, KEY2, KEY1, OUT4, OUT0, OUT1]) GPIO_MODE_OUTPUT_PP g5;
          g7 = HAL_GPIO_Init G GPIOC (mask_of G b [IN0, IN1]) GPIO_MODE_IT_RISING_FALLING g6;
          g8 = HAL_GPIO_Init G GPIOB (mask_of G b [IN2, IN3]) GPIO_MODE_IT_RISING_FALLING g7;
          g9 = HAL_GPIO_Init G (line_port b OUT2) (line_pin G b OUT2) GPIO_MODE_OUTPUT_PP g8 in
      HAL_GPIO_Init G (line_port b IN4) (line_pin G b IN4) GPIO_MODE_IT_RISING_FALLING g9)"

lemma pin_less: "snd (pins b l) < 16"
  by (cases b; cases l) (simp_all add: pins_def)

lemma pins_inject: "pins b l = pins b k \<longleftrightarrow> l = k"
  by (cases b; cases l; cases k) (simp_all add: pins_def)

section \<open>The registers\<close>

text \<open>
  \<open>latch\<close> is the output register, \<open>level\<close> the voltage on the pin and \<open>mode\<close> its mode, if it
  has been configured.
\<close>

locale gpio =
  fixes G :: "'g gpio_api" and latch :: "gpio_port \<Rightarrow> nat \<Rightarrow> 'g \<Rightarrow> bool" and level :: "gpio_port \<Rightarrow> nat \<Rightarrow> 'g \<Rightarrow> bool"
    and mode :: "gpio_port \<Rightarrow> nat \<Rightarrow> 'g \<Rightarrow> gpio_mode option"
  assumes pin_mask: "GPIO_PIN G n = push_bit n 1"
    and input: "n < 16 \<Longrightarrow> bit (IDR G p g) n = level p n g"
    and bsrr: "n < 16 \<Longrightarrow> latch q n (write_BSRR G p v g) =
        (if q = p \<and> bit v n then True else if q = p \<and> bit v (n + 16) then False else latch q n g)"
      "mode q n (write_BSRR G p v g) = mode q n g"
    and write_pin: "n < 16 \<Longrightarrow> latch q n (HAL_GPIO_WritePin G p v on g) = (if q = p \<and> bit v n then on else latch q n g)"
      "mode q n (HAL_GPIO_WritePin G p v on g) = mode q n g"
    and init_pin: "n < 16 \<Longrightarrow> mode q n (HAL_GPIO_Init G p v m g) = (if q = p \<and> bit v n then Some m else mode q n g)"
      "latch q n (HAL_GPIO_Init G p v m g) = latch q n g"
    and clock: "latch q n (GPIO_CLK_ENABLE G p g) = latch q n g" "mode q n (GPIO_CLK_ENABLE G p g) = mode q n g"
begin

lemma bit_mask [simp]: "n < 32 \<Longrightarrow> bit (mask_of G b ls) n = (\<exists>k\<in>set ls. snd (pins b k) = n)"
  by (induction ls) (auto simp: mask_of_def line_pin_def pin_mask bit_simps)

lemma bit_line [simp]: "n < 32 \<Longrightarrow> bit (line_pin G b l) n = (snd (pins b l) = n)"
  by (auto simp: line_pin_def pin_mask bit_simps)

lemma switch_on:
  assumes "n < 16"
  shows "latch q n (write_BSRR G (line_port b l) (line_pin G b l) g) = ((q, n) = pins b l \<or> latch q n g)"
  using assms bsrr(1) [OF assms, of q "line_port b l" "line_pin G b l" g] pin_less [of b l]
  by (auto simp: line_port_def prod_eq_iff)

lemma switch_off:
  assumes "n < 16"
  shows "latch q n (write_BSRR G (line_port b l) (push_bit 16 (line_pin G b l)) g) = ((q, n) \<noteq> pins b l \<and> latch q n g)"
proof -
  have "\<not> bit (push_bit 16 (line_pin G b l)) n" using assms by (simp add: bit_simps)
  moreover have "bit (push_bit 16 (line_pin G b l)) (n + 16) = (snd (pins b l) = n)" using assms by (simp add: bit_simps)
  ultimately show ?thesis using assms bsrr(1) [OF assms, of q "line_port b l" "push_bit 16 (line_pin G b l)" g]
    by (auto simp: line_port_def prod_eq_iff)
qed

lemma read_level: "(IDR G (line_port b l) g AND line_pin G b l \<noteq> 0) = level (line_port b l) (snd (pins b l)) g"
proof -
  have n: "snd (pins b l) < 16" by (rule pin_less)
  have "(IDR G (line_port b l) g AND line_pin G b l \<noteq> 0) = bit (IDR G (line_port b l) g) (snd (pins b l))"
    by (simp add: line_pin_def pin_mask push_bit_eq_mult and_exp_eq_0_iff_not_bit)
  then show ?thesis using n by (simp add: input)
qed

lemma init_mode:
  assumes "n < 16"
  shows "mode q n (rhs_hal_io_init G b g) =
    (if q = line_port b IN4 \<and> bit (line_pin G b IN4) n then Some GPIO_MODE_IT_RISING_FALLING
     else if q = line_port b OUT2 \<and> bit (line_pin G b OUT2) n then Some GPIO_MODE_OUTPUT_PP
     else if q = GPIOB \<and> bit (mask_of G b [IN2, IN3]) n then Some GPIO_MODE_IT_RISING_FALLING
     else if q = GPIOC \<and> bit (mask_of G b [IN0, IN1]) n then Some GPIO_MODE_IT_RISING_FALLING
     else if q = GPIOF \<and> bit (mask_of G b [KEY4, KEY3, KEY2, KEY1, OUT4, OUT0, OUT1]) n then Some GPIO_MODE_OUTPUT_PP
     else if q = GPIOE \<and> bit (mask_of G b [KEY0, OUT3]) n then Some GPIO_MODE_OUTPUT_PP
     else mode q n g)"
  by (simp only: rhs_hal_io_init_def Let_def init_pin(1) [OF assms] write_pin(2) clock fold.simps comp_def id_apply)

lemma init_latch:
  assumes "n < 16"
  shows "latch q n (rhs_hal_io_init G b g) =
    (if q = line_port b OUT2 \<and> bit (line_pin G b OUT2) n then False
     else if q = GPIOF \<and> bit (mask_of G b [KEY4, KEY3, KEY2, KEY1, OUT4, OUT0, OUT1]) n then False
     else if q = GPIOE \<and> bit (mask_of G b [KEY0, OUT3]) n then False else latch q n g)"
  by (simp only: rhs_hal_io_init_def Let_def init_pin(2) write_pin(1) [OF assms] clock fold.simps comp_def id_apply)

end

text \<open>A register file that keeps the latches, the levels and the modes.\<close>

type_synonym gpio_state = "(gpio_port \<Rightarrow> nat \<Rightarrow> bool) \<times> (gpio_port \<Rightarrow> u32) \<times> (gpio_port \<Rightarrow> nat \<Rightarrow> gpio_mode option)"

definition plain_gpio :: "gpio_state gpio_api" where
  "plain_gpio = \<lparr>GPIO_PIN = (\<lambda>n. push_bit n 1), IDR = (\<lambda>p (l, i, m). i p),
     write_BSRR = (\<lambda>p v (l, i, m). (\<lambda>q n. if q = p \<and> bit v n then True else if q = p \<and> bit v (n + 16) then False else l q n, i, m)),
     HAL_GPIO_WritePin = (\<lambda>p v on (l, i, m). (\<lambda>q n. if q = p \<and> bit v n then on else l q n, i, m)),
     HAL_GPIO_Init = (\<lambda>p v k (l, i, m). (l, i, \<lambda>q n. if q = p \<and> bit v n then Some k else m q n)),
     GPIO_CLK_ENABLE = (\<lambda>p g. g)\<rparr>"

definition plain_level :: "gpio_port \<Rightarrow> nat \<Rightarrow> gpio_state \<Rightarrow> bool" where
  "plain_level p n g = bit (fst (snd g) p) n"

interpretation plain: gpio plain_gpio "\<lambda>p n g. fst g p n" plain_level "\<lambda>p n g. snd (snd g) p n"
  by unfold_locales (auto simp: plain_gpio_def plain_level_def split: prod.splits)

section \<open>Properties\<close>

text \<open>Switching an output or a key sets exactly its own line: the latch of every other pin of every port is left, and so are the
  modes; and an input is read as the level of its pin, high or low but never both.\<close>

theorem io_lines_independent:
  assumes "gpio G latch level mode" and "n < 16"
  shows "latch q n (OUT_ON G b l g) = ((q, n) = pins b l \<or> latch q n g) \<and>
    latch q n (OUT_OFF G b l g) = ((q, n) \<noteq> pins b l \<and> latch q n g) \<and>
    latch q n (KEY_ON G b l g) = ((q, n) = pins b l \<or> latch q n g) \<and>
    latch q n (KEY_OFF G b l g) = ((q, n) \<noteq> pins b l \<and> latch q n g) \<and>
    mode q n (OUT_ON G b l g) = mode q n g \<and> mode q n (OUT_OFF G b l g) = mode q n g \<and>
    IN_IS_HIGH G b l g = level (line_port b l) (snd (pins b l)) g \<and>
    IN_IS_LOW G b l g = (\<not> level (line_port b l) (snd (pins b l)) g)"
proof -
  have read: "(IDR G (line_port b l) g AND line_pin G b l \<noteq> 0) = level (line_port b l) (snd (pins b l)) g"
    by (rule gpio.read_level [OF assms(1)])
  show ?thesis
    using gpio.switch_on [OF assms, of q b l g] gpio.switch_off [OF assms, of q b l g] gpio.bsrr(2) [OF assms(1)] read
    by (auto simp: OUT_ON_def OUT_OFF_def KEY_ON_def KEY_OFF_def IN_IS_HIGH_def IN_IS_LOW_def
        PIN_HI_def PIN_LOW_def PIN_IS_HIGH_def PIN_IS_LOW_def)
qed

lemma io_lines_independent_witness:
  "fst (OUT_ON plain_gpio BMPLC_L OUT3 (\<lambda>q n. False, \<lambda>q. 0, \<lambda>q n. None)) GPIOE 7 \<and>
   \<not> fst (OUT_ON plain_gpio BMPLC_L OUT3 (\<lambda>q n. False, \<lambda>q. 0, \<lambda>q n. None)) GPIOE 4"
  using io_lines_independent [OF plain.gpio_axioms, where n = 7 and q = GPIOE and b = BMPLC_L and l = OUT3 and g = "(\<lambda>q n. False, \<lambda>q. 0, \<lambda>q n. None)"]
    io_lines_independent [OF plain.gpio_axioms, where n = 4 and q = GPIOE and b = BMPLC_L and l = OUT3 and g = "(\<lambda>q n. False, \<lambda>q. 0, \<lambda>q n. None)"]
  by (simp add: pins_def)

text \<open>C23: After the initialisation every output and key is a low output and every input an input with interrupts on both edges, with
  the exception of OUT3, IN0 and IN1 of the BMPLC_XL, whose pins are left as they were: the code configures the ports that these
  lines have on the other board.\<close>

theorem io_init_modes:
  assumes "gpio G latch level mode" and "pins b l = (q, n)"
  shows "if b = BMPLC_XL \<and> l \<in> {OUT3, IN0, IN1} then mode q n (rhs_hal_io_init G b g) = mode q n g
    else if l \<in> {IN0, IN1, IN2, IN3, IN4} then mode q n (rhs_hal_io_init G b g) = Some GPIO_MODE_IT_RISING_FALLING
    else mode q n (rhs_hal_io_init G b g) = Some GPIO_MODE_OUTPUT_PP \<and> \<not> latch q n (rhs_hal_io_init G b g)"
proof -
  have n: "n < 16" using pin_less [of b l] assms(2) by simp
  show ?thesis using assms(2)
    unfolding gpio.init_mode [OF assms(1) n] gpio.init_latch [OF assms(1) n]
    by (cases b; cases l) (auto simp: pins_def line_port_def gpio.bit_mask [OF assms(1)] gpio.bit_line [OF assms(1)])
qed

lemma io_init_modes_witness:
  "snd (snd (rhs_hal_io_init plain_gpio BMPLC_XL (\<lambda>q n. False, \<lambda>q. 0, \<lambda>q n. None))) GPIOF 11 = None"
  using io_init_modes [OF plain.gpio_axioms, where b = BMPLC_XL and l = OUT3 and q = GPIOF and n = 11 and g = "(\<lambda>q n. False, \<lambda>q. 0, \<lambda>q n. None)"]
  by (simp add: pins_def)

end
