(* ===== verification/Interrupt.thy ===== *)
theory Interrupt
  imports Prelude
begin

text \<open>
  The interrupt table of hal/rhs_hal_interrupt (the STM32F765 lines). The interrupt
  controller (the NVIC calls of CMSIS) and the interrupt numbers of the chip header are
  parameters; the locale \<open>interrupt_controller\<close> states what CMSIS documents of them. A call of
  \<open>rhs_hal_interrupt_set_isr_ex\<close> is kept as the sequence of its writes, because an interrupt
  can come between any two of them: the lemmas show that a line is enabled exactly when a
  handler is entered for it, and that whenever a line is enabled, in the middle of a call too,
  its entry holds a handler together with the context it was entered with.
\<close>

section \<open>The lines\<close>

definition RHSHalInterruptIdCAN1Rx0 :: nat where "RHSHalInterruptIdCAN1Rx0 = 0"
definition RHSHalInterruptIdCAN1SCE :: nat where "RHSHalInterruptIdCAN1SCE = 1"
definition RHSHalInterruptIdCAN1Tx :: nat where "RHSHalInterruptIdCAN1Tx = 2"
definition RHSHalInterruptIdCAN2Rx0 :: nat where "RHSHalInterruptIdCAN2Rx0 = 3"
definition RHSHalInterruptIdCAN2SCE :: nat where "RHSHalInterruptIdCAN2SCE = 4"
definition RHSHalInterruptIdCAN2Tx :: nat where "RHSHalInterruptIdCAN2Tx = 5"
definition RHSHalInterruptIdUsart3 :: nat where "RHSHalInterruptIdUsart3 = 6"
definition RHSHalInterruptIdUsart6 :: nat where "RHSHalInterruptIdUsart6 = 7"
definition RHSHalInterruptIdUart5 :: nat where "RHSHalInterruptIdUart5 = 8"
definition RHSHalInterruptIdDMA1Stream3 :: nat where "RHSHalInterruptIdDMA1Stream3 = 9"
definition RHSHalInterruptIdDMA2Stream1 :: nat where "RHSHalInterruptIdDMA2Stream1 = 10"
definition RHSHalInterruptIdDMA2Stream6 :: nat where "RHSHalInterruptIdDMA2Stream6 = 11"
definition RHSHalInterruptIdMax :: nat where "RHSHalInterruptIdMax = 12"

lemmas interrupt_ids = RHSHalInterruptIdCAN1Rx0_def RHSHalInterruptIdCAN1SCE_def RHSHalInterruptIdCAN1Tx_def
  RHSHalInterruptIdCAN2Rx0_def RHSHalInterruptIdCAN2SCE_def RHSHalInterruptIdCAN2Tx_def
  RHSHalInterruptIdUsart3_def RHSHalInterruptIdUsart6_def RHSHalInterruptIdUart5_def RHSHalInterruptIdDMA1Stream3_def
  RHSHalInterruptIdDMA2Stream1_def RHSHalInterruptIdDMA2Stream6_def RHSHalInterruptIdMax_def

text \<open>The priorities are signed; a higher one is more urgent.\<close>

definition RHSHalInterruptPriorityLowest :: int where "RHSHalInterruptPriorityLowest = -3"
definition RHSHalInterruptPriorityLow :: int where "RHSHalInterruptPriorityLow = -1"
definition RHSHalInterruptPriorityNormal :: int where "RHSHalInterruptPriorityNormal = 0"
definition RHSHalInterruptPriorityHighest :: int where "RHSHalInterruptPriorityHighest = 3"
definition RHSHalInterruptPriorityKamiSama :: int where "RHSHalInterruptPriorityKamiSama = 6"

lemmas interrupt_priorities = RHSHalInterruptPriorityLowest_def RHSHalInterruptPriorityLow_def
  RHSHalInterruptPriorityNormal_def RHSHalInterruptPriorityHighest_def RHSHalInterruptPriorityKamiSama_def

text \<open>
  The interrupt controller on a state \<open>'n\<close>, the interrupt numbers of the chip and
  \<open>configLIBRARY_MAX_SYSCALL_INTERRUPT_PRIORITY\<close>.
\<close>

record 'n nvic_api =
  NVIC_SetPriority :: "int \<Rightarrow> u32 \<Rightarrow> 'n \<Rightarrow> 'n"
  NVIC_EncodePriority :: "u32 \<Rightarrow> u32 \<Rightarrow> u32 \<Rightarrow> u32"
  NVIC_GetPriorityGrouping :: "'n \<Rightarrow> u32"
  NVIC_EnableIRQ :: "int \<Rightarrow> 'n \<Rightarrow> 'n"
  NVIC_DisableIRQ :: "int \<Rightarrow> 'n \<Rightarrow> 'n"
  NVIC_ClearPendingIRQ :: "int \<Rightarrow> 'n \<Rightarrow> 'n"
  CAN1_RX0_IRQn :: int
  CAN1_SCE_IRQn :: int
  CAN1_TX_IRQn :: int
  CAN2_RX0_IRQn :: int
  CAN2_SCE_IRQn :: int
  CAN2_TX_IRQn :: int
  USART3_IRQn :: int
  USART6_IRQn :: int
  UART5_IRQn :: int
  DMA1_Stream3_IRQn :: int
  DMA2_Stream1_IRQn :: int
  DMA2_Stream6_IRQn :: int
  SVCall_IRQn :: int
  PendSV_IRQn :: int
  MAX_SYSCALL_PRIORITY :: int

text \<open>An entry of the table: a handler \<open>'f\<close> (or NULL) and its context \<open>'c\<close> (or NULL).\<close>

record ('f, 'c) isr_pair =
  isr :: "'f option"
  isr_context :: "'c option"

record ('f, 'c, 'n) irq_state =
  isr_table :: "('f, 'c) isr_pair list"
  counter_time_in_isr_total :: u32
  nvic :: 'n

definition rhs_hal_interrupt_irqn :: "'n nvic_api \<Rightarrow> int list" where
  "rhs_hal_interrupt_irqn N =
     [CAN1_RX0_IRQn N, CAN1_SCE_IRQn N, CAN1_TX_IRQn N, CAN2_RX0_IRQn N, CAN2_SCE_IRQn N, CAN2_TX_IRQn N,
      USART3_IRQn N, USART6_IRQn N, UART5_IRQn N, DMA1_Stream3_IRQn N, DMA2_Stream1_IRQn N, DMA2_Stream6_IRQn N]"

definition rhs_hal_interrupt_boot :: "'n \<Rightarrow> ('f, 'c, 'n) irq_state" where
  "rhs_hal_interrupt_boot n = \<lparr>isr_table = replicate RHSHalInterruptIdMax \<lparr>isr = None, isr_context = None\<rparr>,
     counter_time_in_isr_total = 0, nvic = n\<rparr>"

text \<open>
  The vectors that the program defines for the chip and the lines they dispatch. The vectors
  of CAN 2 are left out on the boards BMPLC_L and BMPLC_XL. There is none for USART 6 and UART 5.
\<close>

definition vectors :: "(string \<times> nat) list" where
  "vectors =
     [(''CAN1_RX0_IRQHandler'', RHSHalInterruptIdCAN1Rx0), (''CAN1_SCE_IRQHandler'', RHSHalInterruptIdCAN1SCE),
      (''CAN1_TX_IRQHandler'', RHSHalInterruptIdCAN1Tx), (''CAN2_RX0_IRQHandler'', RHSHalInterruptIdCAN2Rx0),
      (''CAN2_SCE_IRQHandler'', RHSHalInterruptIdCAN2SCE), (''CAN2_TX_IRQHandler'', RHSHalInterruptIdCAN2Tx),
      (''USART3_IRQHandler'', RHSHalInterruptIdUsart3), (''DMA1_Stream3_IRQHandler'', RHSHalInterruptIdDMA1Stream3),
      (''DMA2_Stream1_IRQHandler'', RHSHalInterruptIdDMA2Stream1), (''DMA2_Stream6_IRQHandler'', RHSHalInterruptIdDMA2Stream6)]"

section \<open>Operations\<close>

definition rhs_hal_interrupt_init :: "'n nvic_api \<Rightarrow> ('f, 'c, 'n) irq_state \<Rightarrow> ('f, 'c, 'n) irq_state" where
  "rhs_hal_interrupt_init N s =
     (let n1 = NVIC_SetPriority N (SVCall_IRQn N) (NVIC_EncodePriority N (NVIC_GetPriorityGrouping N (nvic s)) 0 0) (nvic s);
          n2 = NVIC_SetPriority N (PendSV_IRQn N) (NVIC_EncodePriority N (NVIC_GetPriorityGrouping N n1) 15 0) n1 in
      s\<lparr>nvic := n2\<rparr>)"

definition set_priority :: "'n nvic_api \<Rightarrow> nat \<Rightarrow> u16 \<Rightarrow> ('f, 'c, 'n) irq_state \<Rightarrow> ('f, 'c, 'n) irq_state" where
  "set_priority N index priority s = s\<lparr>nvic := NVIC_SetPriority N (rhs_hal_interrupt_irqn N ! index)
     (NVIC_EncodePriority N (NVIC_GetPriorityGrouping N (nvic s)) (ucast priority) 0) (nvic s)\<rparr>"

definition enable_line :: "'n nvic_api \<Rightarrow> nat \<Rightarrow> ('f, 'c, 'n) irq_state \<Rightarrow> ('f, 'c, 'n) irq_state" where
  "enable_line N index s = s\<lparr>nvic := NVIC_EnableIRQ N (rhs_hal_interrupt_irqn N ! index) (nvic s)\<rparr>"

definition rhs_hal_interrupt_clear_pending :: "'n nvic_api \<Rightarrow> nat \<Rightarrow> ('f, 'c, 'n) irq_state \<Rightarrow> ('f, 'c, 'n) irq_state" where
  "rhs_hal_interrupt_clear_pending N index s =
     s\<lparr>nvic := NVIC_ClearPendingIRQ N (rhs_hal_interrupt_irqn N ! index) (nvic s)\<rparr>"

definition rhs_hal_interrupt_disable :: "'n nvic_api \<Rightarrow> nat \<Rightarrow> ('f, 'c, 'n) irq_state \<Rightarrow> ('f, 'c, 'n) irq_state" where
  "rhs_hal_interrupt_disable N index s =
     s\<lparr>nvic := NVIC_DisableIRQ N (rhs_hal_interrupt_irqn N ! index) (nvic s)\<rparr>"

definition write_isr :: "nat \<Rightarrow> 'f option \<Rightarrow> ('f, 'c, 'n) irq_state \<Rightarrow> ('f, 'c, 'n) irq_state" where
  "write_isr index f s = s\<lparr>isr_table := (isr_table s)[index := (isr_table s ! index)\<lparr>isr := f\<rparr>]\<rparr>"

definition write_context :: "nat \<Rightarrow> 'c option \<Rightarrow> ('f, 'c, 'n) irq_state \<Rightarrow> ('f, 'c, 'n) irq_state" where
  "write_context index c s = s\<lparr>isr_table := (isr_table s)[index := (isr_table s ! index)\<lparr>isr_context := c\<rparr>]\<rparr>"

text \<open>The writes of a call, in order; the barrier after the two writes of the table keeps that order.\<close>

definition set_isr_writes ::
  "'n nvic_api \<Rightarrow> nat \<Rightarrow> u16 \<Rightarrow> 'f option \<Rightarrow> 'c option \<Rightarrow> (('f, 'c, 'n) irq_state \<Rightarrow> ('f, 'c, 'n) irq_state) list" where
  "set_isr_writes N index real_priority f c =
     (if f = None then [rhs_hal_interrupt_disable N index, rhs_hal_interrupt_clear_pending N index] else []) @
     [write_isr index f, write_context index c] @
     (if f \<noteq> None then [rhs_hal_interrupt_clear_pending N index, set_priority N index real_priority, enable_line N index]
      else [])"

definition RHS_HAL_INTERRUPT_DEFAULT_PRIORITY :: "'n nvic_api \<Rightarrow> int" where
  "RHS_HAL_INTERRUPT_DEFAULT_PRIORITY N = MAX_SYSCALL_PRIORITY N + 5"

definition set_isr_checks :: "nat \<Rightarrow> int \<Rightarrow> 'f option \<Rightarrow> ('f, 'c, 'n) irq_state \<Rightarrow> bool" where
  "set_isr_checks index priority f s \<longleftrightarrow> index < RHSHalInterruptIdMax \<and>
     (RHSHalInterruptPriorityLowest \<le> priority \<and> priority \<le> RHSHalInterruptPriorityHighest \<or>
      priority = RHSHalInterruptPriorityKamiSama) \<and>
     (f \<noteq> None \<longrightarrow> isr (isr_table s ! index) = None)"

definition rhs_hal_interrupt_set_isr_ex ::
  "'n nvic_api \<Rightarrow> nat \<Rightarrow> int \<Rightarrow> 'f option \<Rightarrow> 'c option \<Rightarrow> ('f, 'c, 'n) irq_state \<Rightarrow> ('f, 'c, 'n) irq_state res" where
  "rhs_hal_interrupt_set_isr_ex N index priority f c s =
     rhs_assert (set_isr_checks index priority f s)
       (Inr (fold (\<lambda>w. w) (set_isr_writes N index (word_of_int (RHS_HAL_INTERRUPT_DEFAULT_PRIORITY N - priority)) f c) s))"

definition rhs_hal_interrupt_set_isr ::
  "'n nvic_api \<Rightarrow> nat \<Rightarrow> 'f option \<Rightarrow> 'c option \<Rightarrow> ('f, 'c, 'n) irq_state \<Rightarrow> ('f, 'c, 'n) irq_state res" where
  "rhs_hal_interrupt_set_isr N index f c s = rhs_hal_interrupt_set_isr_ex N index RHSHalInterruptPriorityNormal f c s"

text \<open>
  What the vector of a line does: it runs the handler, if there is one, and adds the cycles
  it took. \<open>CYCCNT\<close> reads the cycle counter of a system state \<open>'s\<close>, \<open>irqs\<close> and \<open>with_irqs\<close> its
  table, and \<open>run\<close> calls a handler.
\<close>

record ('f, 'c, 'n, 's) irq_env =
  cyccnt :: "'s \<Rightarrow> u32"
  irqs :: "'s \<Rightarrow> ('f, 'c, 'n) irq_state"
  with_irqs :: "('f, 'c, 'n) irq_state \<Rightarrow> 's \<Rightarrow> 's"
  run :: "'f \<Rightarrow> 'c option \<Rightarrow> 's \<Rightarrow> 's res"

definition rhs_hal_interrupt_call :: "('f, 'c, 'n, 's) irq_env \<Rightarrow> nat \<Rightarrow> 's \<Rightarrow> 's res" where
  "rhs_hal_interrupt_call E index s =
     (let descr = isr_table (irqs E s) ! index;
          isr_start = cyccnt E s in
      rbind (case isr descr of None \<Rightarrow> Inr s | Some f \<Rightarrow> run E f (isr_context descr) s) (\<lambda>s'.
      let time_in_isr = cyccnt E s' - isr_start in
      Inr (with_irqs E ((irqs E s')\<lparr>counter_time_in_isr_total := counter_time_in_isr_total (irqs E s') + time_in_isr\<rparr>) s')))"

definition rhs_hal_interrupt_get_time_in_isr_total :: "('f, 'c, 'n) irq_state \<Rightarrow> u32" where
  "rhs_hal_interrupt_get_time_in_isr_total s = counter_time_in_isr_total s"

section \<open>The controller\<close>

text \<open>\<open>lit\<close> is what the controller has enabled; a state is guarded when exactly the lines with a handler are.\<close>

definition line_on :: "(int \<Rightarrow> 'n \<Rightarrow> bool) \<Rightarrow> 'n nvic_api \<Rightarrow> ('f, 'c, 'n) irq_state \<Rightarrow> nat \<Rightarrow> bool" where
  "line_on lit N s index \<longleftrightarrow> lit (rhs_hal_interrupt_irqn N ! index) (nvic s)"

definition guarded :: "(int \<Rightarrow> 'n \<Rightarrow> bool) \<Rightarrow> 'n nvic_api \<Rightarrow> ('f, 'c, 'n) irq_state \<Rightarrow> bool" where
  "guarded lit N s \<longleftrightarrow> length (isr_table s) = RHSHalInterruptIdMax \<and>
     (\<forall>i<RHSHalInterruptIdMax. line_on lit N s i = (isr (isr_table s ! i) \<noteq> None))"

locale interrupt_controller =
  fixes N :: "'n nvic_api" and lit :: "int \<Rightarrow> 'n \<Rightarrow> bool"
  assumes numbers: "distinct (rhs_hal_interrupt_irqn N)"
    and set_priority_lit: "lit i (NVIC_SetPriority N j p n) = lit i n"
    and enable_lit: "lit i (NVIC_EnableIRQ N j n) = (i = j \<or> lit i n)"
    and disable_lit: "lit i (NVIC_DisableIRQ N j n) = (i \<noteq> j \<and> lit i n)"
    and clear_lit: "lit i (NVIC_ClearPendingIRQ N j n) = lit i n"
begin

lemma same_number:
  "i < RHSHalInterruptIdMax \<Longrightarrow> j < RHSHalInterruptIdMax \<Longrightarrow>
     rhs_hal_interrupt_irqn N ! i = rhs_hal_interrupt_irqn N ! j \<longleftrightarrow> i = j"
  using nth_eq_iff_index_eq [OF numbers, of i j] by (simp add: rhs_hal_interrupt_irqn_def interrupt_ids)

lemmas line_writes = rhs_hal_interrupt_disable_def rhs_hal_interrupt_clear_pending_def write_isr_def write_context_def
  set_priority_def enable_line_def

lemma line_on_writes:
  assumes "i < RHSHalInterruptIdMax" and "index < RHSHalInterruptIdMax"
  shows "line_on lit N (rhs_hal_interrupt_disable N index s) i = (i \<noteq> index \<and> line_on lit N s i)"
    and "line_on lit N (rhs_hal_interrupt_clear_pending N index s) i = line_on lit N s i"
    and "line_on lit N (write_isr index f s) i = line_on lit N s i"
    and "line_on lit N (write_context index c s) i = line_on lit N s i"
    and "line_on lit N (set_priority N index p s) i = line_on lit N s i"
    and "line_on lit N (enable_line N index s) i = (i = index \<or> line_on lit N s i)"
  using same_number [OF assms] by (simp_all add: line_on_def line_writes enable_lit disable_lit clear_lit set_priority_lit)

lemma table_writes:
  "isr_table (rhs_hal_interrupt_disable N index s) = isr_table s"
  "isr_table (rhs_hal_interrupt_clear_pending N index s) = isr_table s"
  "isr_table (set_priority N index p s) = isr_table s"
  "isr_table (enable_line N index s) = isr_table s"
  "isr_table (write_isr index f s) = (isr_table s)[index := (isr_table s ! index)\<lparr>isr := f\<rparr>]"
  "isr_table (write_context index c s) = (isr_table s)[index := (isr_table s ! index)\<lparr>isr_context := c\<rparr>]"
  by (simp_all add: line_writes)

lemma writes_never_torn:
  assumes "guarded lit N s" and "set_isr_checks index priority f s" and "i < RHSHalInterruptIdMax"
    and "line_on lit N (fold (\<lambda>w. w) (take k (set_isr_writes N index p f c)) s) i"
  shows "isr (isr_table (fold (\<lambda>w. w) (take k (set_isr_writes N index p f c)) s) ! i) \<noteq> None \<and>
     (isr_table (fold (\<lambda>w. w) (take k (set_isr_writes N index p f c)) s) ! i = isr_table s ! i \<or>
      i = index \<and> isr_table (fold (\<lambda>w. w) (take k (set_isr_writes N index p f c)) s) ! i = \<lparr>isr = f, isr_context = c\<rparr>)"
proof -
  have index: "index < RHSHalInterruptIdMax" using assms(2) by (simp add: set_isr_checks_def)
  have len: "length (isr_table s) = RHSHalInterruptIdMax"
    and on: "line_on lit N s i = (isr (isr_table s ! i) \<noteq> None)"
    using assms(1,3) by (simp_all add: guarded_def)
  have fresh: "f \<noteq> None \<Longrightarrow> isr (isr_table s ! index) = None" using assms(2) by (simp add: set_isr_checks_def)
  note rules = line_on_writes table_writes
  show ?thesis
    using assms(3,4) on fresh len index
    by (cases f; cases "i = index"; cases "isr_table s ! index")
      (auto simp: set_isr_writes_def take_Cons' rules nth_list_update split: if_splits)
qed

lemma set_isr_guarded:
  assumes "guarded lit N s" and "rhs_hal_interrupt_set_isr_ex N index priority f c s = Inr s'"
  shows "guarded lit N s' \<and> isr_table s' = (isr_table s)[index := \<lparr>isr = f, isr_context = c\<rparr>]"
proof -
  have checks: "set_isr_checks index priority f s" and index: "index < RHSHalInterruptIdMax"
    using assms(2) by (simp_all add: rhs_hal_interrupt_set_isr_ex_def set_isr_checks_def)
  have table: "isr_table s' = (isr_table s)[index := \<lparr>isr = f, isr_context = c\<rparr>]"
    using assms index by (cases "isr_table s ! index")
      (auto simp: rhs_hal_interrupt_set_isr_ex_def set_isr_writes_def table_writes guarded_def)
  have "line_on lit N s' i = (if i = index then f \<noteq> None else line_on lit N s i)" if "i < RHSHalInterruptIdMax" for i
    using assms(2) that index
    by (cases f; cases "i = index") (auto simp: rhs_hal_interrupt_set_isr_ex_def set_isr_writes_def line_on_writes)
  then show ?thesis using assms(1) index table by (auto simp: guarded_def nth_list_update)
qed

end

text \<open>A controller that keeps the set of its enabled lines, with the numbers of the STM32F407.\<close>

definition set_nvic :: "int set nvic_api" where
  "set_nvic = \<lparr>NVIC_SetPriority = (\<lambda>i p n. n), NVIC_EncodePriority = (\<lambda>g p q. push_bit 4 p),
     NVIC_GetPriorityGrouping = (\<lambda>n. 3), NVIC_EnableIRQ = insert, NVIC_DisableIRQ = (\<lambda>i n. n - {i}),
     NVIC_ClearPendingIRQ = (\<lambda>i n. n), CAN1_RX0_IRQn = 20, CAN1_SCE_IRQn = 22, CAN1_TX_IRQn = 19,
     CAN2_RX0_IRQn = 64, CAN2_SCE_IRQn = 66, CAN2_TX_IRQn = 63, USART3_IRQn = 39,
     USART6_IRQn = 71, UART5_IRQn = 53, DMA1_Stream3_IRQn = 14, DMA2_Stream1_IRQn = 57, DMA2_Stream6_IRQn = 69, SVCall_IRQn = -5, PendSV_IRQn = -2,
     MAX_SYSCALL_PRIORITY = 5\<rparr>"

interpretation set_controller: interrupt_controller set_nvic "\<lambda>i n. i \<in> n"
  by unfold_locales (auto simp: set_nvic_def rhs_hal_interrupt_irqn_def)

section \<open>Never a line without a handler\<close>

text \<open>C21: Whenever an interrupt comes during a call of rhs_hal_interrupt_set_isr_ex, after any number of its writes, an enabled
  line has a handler, and its entry is the old one or the complete new one, never a new handler with an old context; a call that
  returns has entered exactly the new pair and again enables exactly the lines with a handler.\<close>

theorem set_isr_never_torn:
  assumes "interrupt_controller N lit" and "guarded lit N s"
    and "rhs_hal_interrupt_set_isr_ex N index priority f c s = Inr s'"
    and "p = word_of_int (RHS_HAL_INTERRUPT_DEFAULT_PRIORITY N - priority)"
    and "t = fold (\<lambda>w. w) (take k (set_isr_writes N index p f c)) s"
    and "i < RHSHalInterruptIdMax" and "line_on lit N t i"
  shows "isr (isr_table t ! i) \<noteq> None \<and>
     (isr_table t ! i = isr_table s ! i \<or> i = index \<and> isr_table t ! i = \<lparr>isr = f, isr_context = c\<rparr>) \<and>
     s' = fold (\<lambda>w. w) (set_isr_writes N index p f c) s \<and>
     guarded lit N s' \<and> isr_table s' = (isr_table s)[index := \<lparr>isr = f, isr_context = c\<rparr>]"
proof -
  have checks: "set_isr_checks index priority f s" and s': "s' = fold (\<lambda>w. w) (set_isr_writes N index p f c) s"
    using assms(3,4) by (simp_all add: rhs_hal_interrupt_set_isr_ex_def)
  show ?thesis
    using s' interrupt_controller.writes_never_torn [OF assms(1,2) checks assms(6), of k p c] assms(5,7)
      interrupt_controller.set_isr_guarded [OF assms(1-3)] by simp
qed

lemma set_isr_never_torn_witness:
  "\<exists>s'. rhs_hal_interrupt_set_isr_ex set_nvic RHSHalInterruptIdCAN2Tx RHSHalInterruptPriorityLow (Some ''tx'') (Some (1 :: nat))
       (rhs_hal_interrupt_boot {}) = Inr s' \<and> guarded (\<lambda>i n. i \<in> n) set_nvic s' \<and> line_on (\<lambda>i n. i \<in> n) set_nvic s' RHSHalInterruptIdCAN2Tx"
proof -
  let ?s = "rhs_hal_interrupt_boot {} :: (string, nat, int set) irq_state"
  have g: "guarded (\<lambda>i n. i \<in> n) set_nvic ?s"
    by (simp add: guarded_def line_on_def rhs_hal_interrupt_boot_def)
  obtain s' where s': "rhs_hal_interrupt_set_isr_ex set_nvic RHSHalInterruptIdCAN2Tx RHSHalInterruptPriorityLow (Some ''tx'') (Some 1) ?s = Inr s'"
    by (simp add: rhs_hal_interrupt_set_isr_ex_def set_isr_checks_def interrupt_ids interrupt_priorities rhs_hal_interrupt_boot_def)
  have on: "line_on (\<lambda>i n. i \<in> n) set_nvic s' RHSHalInterruptIdCAN2Tx"
    using s' by (auto simp: rhs_hal_interrupt_set_isr_ex_def set_isr_writes_def set_controller.line_on_writes interrupt_ids)
  have "guarded (\<lambda>i n. i \<in> n) set_nvic s'"
    using set_isr_never_torn [OF set_controller.interrupt_controller_axioms g s' refl refl, of RHSHalInterruptIdCAN2Tx 9] on s'
    by (simp add: rhs_hal_interrupt_set_isr_ex_def interrupt_ids set_isr_writes_def)
  then show ?thesis using s' on by blast
qed

end
