(* ===== verification/Can.thy ===== *)
theory Can
  imports Interrupt
begin

text \<open>
  The CAN layer of hal/rhs_hal_can/rhs_hal_can.c for the chip with two controllers. The
  library below it (rcan, with the controller's registers and the notification calls of the
  vendor) is a parameter on a state \<open>'r\<close> for each channel; the handlers are entered in the
  modelled interrupt table. Callbacks of the application are named and run by the
  environment on the whole system. The log is the list of the messages printed.
\<close>

section \<open>Data\<close>

datatype frame_type = FrameTypeNO | FrameTypeStdID | FrameTypeExtID

record can_frame =
  frame_id :: u32
  len :: u8
  type_of :: frame_type
  rtr :: bool
  payload :: "u8 list"

definition empty_frame :: "nat \<Rightarrow> can_frame" where
  "empty_frame n = \<lparr>frame_id = 0, len = 0, type_of = FrameTypeNO, rtr = False, payload = replicate n 0\<rparr>"

record can_statistic =
  tx_msgs :: u32
  tx_errs :: u32
  tx_ovfs :: u32
  rx_msgs :: u32
  rx_errs :: u32
  rx_ovfs :: u32

definition RHSHalCANId1 :: nat where "RHSHalCANId1 = 0"
definition RHSHalCANId2 :: nat where "RHSHalCANId2 = 1"
definition RHSHalCANIdMax :: nat where "RHSHalCANIdMax = 2"

definition RHSHalCANSCEEventTXPassive :: u32 where "RHSHalCANSCEEventTXPassive = 1"
definition RHSHalCANSCEEventBusOff :: u32 where "RHSHalCANSCEEventBusOff = 4"
definition RHSHalCANSCEEventError :: u32 where "RHSHalCANSCEEventError = 8"

lemmas can_ids = RHSHalCANId1_def RHSHalCANId2_def RHSHalCANIdMax_def

text \<open>A channel; \<open>'cb\<close> names the callbacks, contexts are pointers or NULL.\<close>

record ('cb, 'r) can =
  enabled :: bool
  rcan :: 'r
  lec :: u8
  tec :: u8
  rec :: u8
  rx_callback :: "'cb option"
  rx_context :: "nat option"
  tx_callback :: "'cb option"
  tx_context :: "nat option"
  sce_callback :: "'cb option"
  sce_context :: "nat option"
  statistic :: can_statistic

datatype can_isr = SceISR | RxISR | TxISR

datatype can_message = ERRI | WKUI | BOFF | ArbitrationLost | TransmissionError
  | StuffError | FormError | AcknowledgmentError | BitRecessiveError | BitDominantError | CRCError | SetBySoftware
  | Counters u8 u8

text \<open>The log entries carry the number of the channel; \<open>world\<close> is the state of the application.\<close>

record ('cb, 'r, 'n, 'w) can_sys =
  cans :: "('cb, 'r) can list"
  irq :: "(can_isr, nat, 'n) irq_state"
  can_log :: "(u8 \<times> can_message) list"
  world :: 'w

section \<open>The library and the vendor's calls\<close>

datatype can_it = CAN_IT_ERROR | CAN_IT_LAST_ERROR_CODE | CAN_IT_BUSOFF | CAN_IT_ERROR_PASSIVE | CAN_IT_ERROR_WARNING
  | CAN_IT_TX_MAILBOX_EMPTY | CAN_IT_RX_FIFO0_MSG_PENDING

text \<open>\<open>rcan_payload\<close> is the size of the payload array of the library's frame.\<close>

record 'r rcan_api =
  rcan_start :: "u32 \<Rightarrow> u32 \<Rightarrow> 'r \<Rightarrow> bool \<times> 'r"
  rcan_stop :: "'r \<Rightarrow> 'r"
  rcan_send :: "can_frame \<Rightarrow> 'r \<Rightarrow> bool \<times> 'r"
  rcan_receive :: "can_frame \<Rightarrow> 'r \<Rightarrow> bool \<times> can_frame \<times> 'r"
  rcan_payload :: nat
  Instance :: "'r \<Rightarrow> u32"
  CAN1 :: u32
  CAN2 :: u32
  ESR :: "'r \<Rightarrow> u32"
  MSR :: "'r \<Rightarrow> u32"
  TSR :: "'r \<Rightarrow> u32"
  RF0R :: "'r \<Rightarrow> u32"
  write_MSR :: "u32 \<Rightarrow> 'r \<Rightarrow> 'r"
  write_TSR :: "u32 \<Rightarrow> 'r \<Rightarrow> 'r"
  HAL_CAN_ActivateNotification :: "can_it \<Rightarrow> 'r \<Rightarrow> 'r"
  HAL_CAN_DeactivateNotification :: "can_it \<Rightarrow> 'r \<Rightarrow> 'r"
  CAN_MSR_ERRI :: u32
  CAN_MSR_WKUI :: u32
  CAN_ESR_BOFF :: u32
  CAN_TSR_ALST :: "u32 \<times> u32 \<times> u32"
  CAN_TSR_TERR :: "u32 \<times> u32 \<times> u32"
  CAN_TSR_RQCP :: "u32 \<times> u32 \<times> u32"
  CAN_RF0R_FOVR0 :: u32

definition any_of :: "u32 \<times> u32 \<times> u32 \<Rightarrow> u32" where
  "any_of m = (case m of (a, b, c) \<Rightarrow> a OR b OR c)"

record ('cb, 'r, 'n, 'w) can_env =
  api :: "'r rcan_api"
  nvic_calls :: "'n nvic_api"
  cpu_cycles :: "('cb, 'r, 'n, 'w) can_sys \<Rightarrow> u32"
  run_rx :: "'cb \<Rightarrow> u8 \<Rightarrow> nat option \<Rightarrow> ('cb, 'r, 'n, 'w) can_sys \<Rightarrow> ('cb, 'r, 'n, 'w) can_sys res"
  run_tx :: "'cb \<Rightarrow> nat option \<Rightarrow> ('cb, 'r, 'n, 'w) can_sys \<Rightarrow> ('cb, 'r, 'n, 'w) can_sys res"
  run_sce :: "'cb \<Rightarrow> u8 \<Rightarrow> u32 \<Rightarrow> nat option \<Rightarrow> ('cb, 'r, 'n, 'w) can_sys \<Rightarrow> ('cb, 'r, 'n, 'w) can_sys res"

text \<open>The update of a channel in the array.\<close>

definition upd_can :: "nat \<Rightarrow> (('cb, 'r) can \<Rightarrow> ('cb, 'r) can) \<Rightarrow> ('cb, 'r, 'n, 'w) can_sys \<Rightarrow> ('cb, 'r, 'n, 'w) can_sys" where
  "upd_can i f s = s\<lparr>cans := (cans s)[i := f (cans s ! i)]\<rparr>"

definition upd_rcan :: "nat \<Rightarrow> ('r \<Rightarrow> 'r) \<Rightarrow> ('cb, 'r, 'n, 'w) can_sys \<Rightarrow> ('cb, 'r, 'n, 'w) can_sys" where
  "upd_rcan i f = upd_can i (\<lambda>c. c\<lparr>rcan := f (rcan c)\<rparr>)"

definition logs :: "u8 \<Rightarrow> can_message list \<Rightarrow> ('cb, 'r, 'n, 'w) can_sys \<Rightarrow> ('cb, 'r, 'n, 'w) can_sys" where
  "logs num ms s = s\<lparr>can_log := can_log s @ map (Pair num) ms\<rparr>"

section \<open>Interrupt handlers\<close>

definition get_can_num_interface :: "'r rcan_api \<Rightarrow> u32 \<Rightarrow> u8 res" where
  "get_can_num_interface A instance =
     (if instance = CAN1 A then Inr (of_nat RHSHalCANId1)
      else if instance = CAN2 A then Inr (of_nat RHSHalCANId2)
      else Inl (Crash ''No CAN interface''))"

definition lec_of :: "u32 \<Rightarrow> u8" where
  "lec_of ecr = ucast (drop_bit 4 ecr AND 0x03)"

definition tec_of :: "u32 \<Rightarrow> u8" where
  "tec_of ecr = ucast (drop_bit 16 ecr AND 0xFF)"

definition rec_of :: "u32 \<Rightarrow> u8" where
  "rec_of ecr = ucast (drop_bit 24 ecr AND 0xFF)"

definition ecr_messages :: "u32 \<Rightarrow> can_message list" where
  "ecr_messages ecr =
     (let lec = lec_of ecr; tec = tec_of ecr; rec = rec_of ecr in
      if lec = 0 \<and> rec = 0 \<and> tec = 0 then []
      else (if lec = 1 then [StuffError] else []) @ (if lec = 2 then [FormError] else []) @
        (if lec = 3 then [AcknowledgmentError] else []) @ (if lec = 4 then [BitRecessiveError] else []) @
        (if lec = 5 then [BitDominantError] else []) @ (if lec = 6 then [CRCError] else []) @
        (if lec = 7 then [SetBySoftware] else []) @ [Counters rec tec])"

definition print_ecr :: "'r rcan_api \<Rightarrow> 'r \<Rightarrow> ('cb, 'r, 'n, 'w) can_sys \<Rightarrow> ('cb, 'r, 'n, 'w) can_sys res" where
  "print_ecr A r s = rbind (get_can_num_interface A (Instance A r)) (\<lambda>num. Inr (logs num (ecr_messages (ESR A r)) s))"

definition sce_msr :: "'r rcan_api \<Rightarrow> u8 \<Rightarrow> nat \<Rightarrow> ('cb, 'r, 'n, 'w) can_sys \<Rightarrow> u32 \<times> ('cb, 'r, 'n, 'w) can_sys" where
  "sce_msr A num i s =
     (let (event, s1) = (if MSR A (rcan (cans s ! i)) AND CAN_MSR_ERRI A \<noteq> 0
            then (RHSHalCANSCEEventError, upd_rcan i (write_MSR A (CAN_MSR_ERRI A)) (logs num [ERRI] s)) else (0, s));
          s2 = (if MSR A (rcan (cans s1 ! i)) AND CAN_MSR_WKUI A \<noteq> 0
            then upd_rcan i (write_MSR A (CAN_MSR_WKUI A)) (logs num [WKUI] s1) else s1) in
      if ESR A (rcan (cans s2 ! i)) AND CAN_ESR_BOFF A \<noteq> 0
      then (event OR RHSHalCANSCEEventBusOff, logs num [BOFF] s2) else (event, s2))"

definition sce_tsr :: "'r rcan_api \<Rightarrow> u8 \<Rightarrow> nat \<Rightarrow> u32 \<Rightarrow> ('cb, 'r, 'n, 'w) can_sys \<Rightarrow> u32 \<times> ('cb, 'r, 'n, 'w) can_sys" where
  "sce_tsr A num i event s =
     (let tsr = TSR A (rcan (cans s ! i)) in
      if tsr AND (any_of (CAN_TSR_ALST A) OR any_of (CAN_TSR_TERR A)) \<noteq> 0 then
        let s1 = upd_can i (\<lambda>c. c\<lparr>statistic := (statistic c)\<lparr>tx_errs := tx_errs (statistic c) + 1\<rparr>\<rparr>) s;
            s2 = (if tsr AND any_of (CAN_TSR_ALST A) \<noteq> 0 then logs num [ArbitrationLost] s1 else s1) in
        if tsr AND any_of (CAN_TSR_TERR A) \<noteq> 0 then
          (if drop_bit 16 (ESR A (rcan (cans s2 ! i))) AND 0xFF \<ge> 0x80 then event OR RHSHalCANSCEEventTXPassive else event,
           logs num [TransmissionError] s2)
        else (event, s2)
      else (event, upd_can i (\<lambda>c. c\<lparr>statistic := (statistic c)\<lparr>rx_errs := rx_errs (statistic c) + 1\<rparr>\<rparr>) s))"

definition can_sce_callback :: "('cb, 'r, 'n, 'w) can_env \<Rightarrow> nat option \<Rightarrow> ('cb, 'r, 'n, 'w) can_sys \<Rightarrow> ('cb, 'r, 'n, 'w) can_sys res" where
  "can_sce_callback E ctxt s =
     (case ctxt of None \<Rightarrow> Inl AssertFailed | Some i \<Rightarrow>
      rbind (aget (cans s) i) (\<lambda>can.
      rbind (get_can_num_interface (api E) (Instance (api E) (rcan can))) (\<lambda>num.
      let (event, s1) = sce_msr (api E) num i s;
          (event', s2) = sce_tsr (api E) num i event s1;
          s3 = upd_can i (\<lambda>c. c\<lparr>lec := lec_of (ESR (api E) (rcan c))\<rparr>) s2 in
      rbind (print_ecr (api E) (rcan (cans s3 ! i)) s3) (\<lambda>s4.
      case sce_callback (cans s4 ! i) of None \<Rightarrow> Inr s4
      | Some cb \<Rightarrow> run_sce E cb num event' (sce_context (cans s4 ! i)) s4))))"

definition can_rx_callback :: "('cb, 'r, 'n, 'w) can_env \<Rightarrow> nat option \<Rightarrow> ('cb, 'r, 'n, 'w) can_sys \<Rightarrow> ('cb, 'r, 'n, 'w) can_sys res" where
  "can_rx_callback E ctxt s =
     (case ctxt of None \<Rightarrow> Inl AssertFailed | Some i \<Rightarrow>
      rbind (aget (cans s) i) (\<lambda>can.
      rbind (get_can_num_interface (api E) (Instance (api E) (rcan can))) (\<lambda>num.
      let s1 = (if RF0R (api E) (rcan can) AND CAN_RF0R_FOVR0 (api E) \<noteq> 0
            then upd_can i (\<lambda>c. c\<lparr>statistic := (statistic c)\<lparr>rx_ovfs := rx_ovfs (statistic c) + 1\<rparr>\<rparr>) s else s) in
      case rx_callback (cans s1 ! i) of None \<Rightarrow> Inr s1
      | Some cb \<Rightarrow> run_rx E cb num (rx_context (cans s1 ! i)) s1)))"

definition clear_mailbox :: "'r rcan_api \<Rightarrow> u32 \<Rightarrow> 'r \<Rightarrow> 'r" where
  "clear_mailbox A m r = (if TSR A r AND m \<noteq> 0 then write_TSR A m r else r)"

definition can_tx_callback :: "('cb, 'r, 'n, 'w) can_env \<Rightarrow> nat option \<Rightarrow> ('cb, 'r, 'n, 'w) can_sys \<Rightarrow> ('cb, 'r, 'n, 'w) can_sys res" where
  "can_tx_callback E ctxt s =
     (case ctxt of None \<Rightarrow> Inl AssertFailed | Some i \<Rightarrow>
      rbind (aget (cans s) i) (\<lambda>can.
      let A = api E; (m0, m1, m2) = CAN_TSR_RQCP A;
          s1 = upd_can i (\<lambda>c. c\<lparr>statistic := (statistic c)\<lparr>tx_msgs := tx_msgs (statistic c) + 1\<rparr>\<rparr>) s in
      if TSR A (rcan (cans s1 ! i)) AND any_of (CAN_TSR_RQCP A) \<noteq> 0 then
        let s2 = upd_rcan i (clear_mailbox A m2 \<circ> clear_mailbox A m1 \<circ> clear_mailbox A m0) s1 in
        (case tx_callback (cans s2 ! i) of None \<Rightarrow> Inr s2 | Some cb \<Rightarrow> run_tx E cb (tx_context (cans s2 ! i)) s2)
      else Inr s1))"

definition can_irqs :: "('cb, 'r, 'n, 'w) can_env \<Rightarrow> (can_isr, nat, 'n, ('cb, 'r, 'n, 'w) can_sys) irq_env" where
  "can_irqs E = \<lparr>cyccnt = cpu_cycles E, irqs = irq, with_irqs = (\<lambda>t s. s\<lparr>irq := t\<rparr>),
     run = (\<lambda>f. case f of SceISR \<Rightarrow> can_sce_callback E | RxISR \<Rightarrow> can_rx_callback E | TxISR \<Rightarrow> can_tx_callback E)\<rparr>"

section \<open>Operations\<close>

definition rhs_hal_can_init :: "('cb, 'r, 'n, 'w) can_env \<Rightarrow> nat \<Rightarrow> u32 \<Rightarrow> ('cb, 'r, 'n, 'w) can_sys \<Rightarrow> ('cb, 'r, 'n, 'w) can_sys res" where
  "rhs_hal_can_init E i baud s =
     rbind (aget (cans s) i) (\<lambda>can.
     rhs_assert (\<not> enabled can)
       (if i = RHSHalCANId1 \<or> i = RHSHalCANId2 then
          let (ok, r) = rcan_start (api E) (if i = RHSHalCANId1 then CAN1 (api E) else CAN2 (api E)) baud (rcan can) in
          rhs_assert ok (Inr (upd_can i (\<lambda>c. c\<lparr>rcan := r, enabled := True\<rparr>) s))
        else Inl (Crash ''No CAN interface'')))"

definition sce_line :: "nat \<Rightarrow> nat" where
  "sce_line i = (if i = RHSHalCANId1 then RHSHalInterruptIdCAN1SCE else RHSHalInterruptIdCAN2SCE)"

definition tx_line :: "nat \<Rightarrow> nat" where
  "tx_line i = (if i = RHSHalCANId1 then RHSHalInterruptIdCAN1Tx else RHSHalInterruptIdCAN2Tx)"

definition rx_line :: "nat \<Rightarrow> nat" where
  "rx_line i = (if i = RHSHalCANId1 then RHSHalInterruptIdCAN1Rx0 else RHSHalInterruptIdCAN2Rx0)"

definition lift_irq :: "(can_isr, nat, 'n) irq_state res \<Rightarrow> ('cb, 'r, 'n, 'w) can_sys \<Rightarrow> ('cb, 'r, 'n, 'w) can_sys res" where
  "lift_irq t s = rbind t (\<lambda>t'. Inr (s\<lparr>irq := t'\<rparr>))"

definition deactivated :: "can_it list" where
  "deactivated = [CAN_IT_ERROR, CAN_IT_LAST_ERROR_CODE, CAN_IT_BUSOFF, CAN_IT_ERROR_PASSIVE, CAN_IT_ERROR_WARNING,
     CAN_IT_TX_MAILBOX_EMPTY, CAN_IT_RX_FIFO0_MSG_PENDING]"

definition rhs_hal_can_deinit :: "('cb, 'r, 'n, 'w) can_env \<Rightarrow> nat \<Rightarrow> ('cb, 'r, 'n, 'w) can_sys \<Rightarrow> ('cb, 'r, 'n, 'w) can_sys res" where
  "rhs_hal_can_deinit E i s =
     rbind (aget (cans s) i) (\<lambda>can.
     rhs_assert (enabled can)
       (if i = RHSHalCANId1 \<or> i = RHSHalCANId2 then
          rbind (lift_irq (
            rbind (rhs_hal_interrupt_set_isr (nvic_calls E) (sce_line i) None None (irq s)) (\<lambda>t.
            rbind (rhs_hal_interrupt_set_isr (nvic_calls E) (tx_line i) None None t)
              (rhs_hal_interrupt_set_isr (nvic_calls E) (rx_line i) None None))) s) (\<lambda>s1.
          Inr (upd_can i (\<lambda>c. c\<lparr>rcan := fold (HAL_CAN_DeactivateNotification (api E)) deactivated (rcan_stop (api E) (rcan c)),
             enabled := False\<rparr>) s1))
        else Inl (Crash ''No CAN interface'')))"

definition rhs_hal_can_async_sce ::
  "('cb, 'r, 'n, 'w) can_env \<Rightarrow> nat \<Rightarrow> 'cb option \<Rightarrow> nat option \<Rightarrow> ('cb, 'r, 'n, 'w) can_sys \<Rightarrow> ('cb, 'r, 'n, 'w) can_sys res" where
  "rhs_hal_can_async_sce E i callback ctxt s =
     rbind (aget (cans s) i) (\<lambda>can.
     rhs_assert (enabled can)
       (let s1 = upd_can i (\<lambda>c. c\<lparr>sce_callback := callback, sce_context := ctxt\<rparr>) s in
        if i = RHSHalCANId1 \<or> i = RHSHalCANId2 then
          rbind (lift_irq (rhs_hal_interrupt_set_isr_ex (nvic_calls E) (sce_line i) RHSHalInterruptPriorityLow
            (Some SceISR) (Some i) (irq s1)) s1) (\<lambda>s2.
          Inr (upd_rcan i (fold (HAL_CAN_ActivateNotification (api E)) [CAN_IT_ERROR, CAN_IT_LAST_ERROR_CODE, CAN_IT_BUSOFF]) s2))
        else Inl (Crash ''No CAN interface'')))"

definition rhs_hal_can_tx_cmplt_cb ::
  "('cb, 'r, 'n, 'w) can_env \<Rightarrow> nat \<Rightarrow> 'cb option \<Rightarrow> nat option \<Rightarrow> ('cb, 'r, 'n, 'w) can_sys \<Rightarrow> ('cb, 'r, 'n, 'w) can_sys res" where
  "rhs_hal_can_tx_cmplt_cb E i callback ctxt s =
     rbind (aget (cans s) i) (\<lambda>can.
     rhs_assert (enabled can \<and> callback \<noteq> None \<and> ctxt \<noteq> None)
       (let s1 = upd_can i (\<lambda>c. c\<lparr>tx_callback := callback, tx_context := ctxt\<rparr>) s in
        if i = RHSHalCANId1 \<or> i = RHSHalCANId2 then
          rbind (lift_irq (rhs_hal_interrupt_set_isr (nvic_calls E) (tx_line i) (Some TxISR) (Some i) (irq s1)) s1) (\<lambda>s2.
          Inr (upd_rcan i (HAL_CAN_ActivateNotification (api E) CAN_IT_TX_MAILBOX_EMPTY) s2))
        else Inl (Crash ''No CAN interface'')))"

definition rhs_hal_can_async_rx_start ::
  "('cb, 'r, 'n, 'w) can_env \<Rightarrow> nat \<Rightarrow> 'cb option \<Rightarrow> nat option \<Rightarrow> ('cb, 'r, 'n, 'w) can_sys \<Rightarrow> ('cb, 'r, 'n, 'w) can_sys res" where
  "rhs_hal_can_async_rx_start E i callback ctxt s =
     rbind (aget (cans s) i) (\<lambda>can.
     rhs_assert (enabled can \<and> callback \<noteq> None \<and> ctxt \<noteq> None)
       (let s1 = upd_can i (\<lambda>c. c\<lparr>rx_callback := callback, rx_context := ctxt\<rparr>) s in
        if i = RHSHalCANId1 \<or> i = RHSHalCANId2 then
          rbind (lift_irq (rhs_hal_interrupt_set_isr (nvic_calls E) (rx_line i) (Some RxISR) (Some i) (irq s1)) s1) (\<lambda>s2.
          Inr (upd_rcan i (HAL_CAN_ActivateNotification (api E) CAN_IT_RX_FIFO0_MSG_PENDING) s2))
        else Inl (Crash ''No CAN interface'')))"

text \<open>\<open>memcpy\<close> of the first \<open>n\<close> bytes of an array to the start of another.\<close>

definition copy_payload :: "u8 list \<Rightarrow> u8 list \<Rightarrow> nat \<Rightarrow> u8 list res" where
  "copy_payload dst src n =
     (if n \<le> length dst \<and> n \<le> length src then Inr (take n src @ drop n dst) else Inl OutOfBounds)"

text \<open>The counters are printed when they have changed since the last call.\<close>

definition check_tec :: "'r rcan_api \<Rightarrow> nat \<Rightarrow> ('cb, 'r, 'n, 'w) can_sys \<Rightarrow> ('cb, 'r, 'n, 'w) can_sys res" where
  "check_tec A i s =
     (let t = tec_of (ESR A (rcan (cans s ! i))) in
      if tec (cans s ! i) \<noteq> t
      then rbind (print_ecr A (rcan (cans s ! i)) s) (\<lambda>s'. Inr (upd_can i (\<lambda>c. c\<lparr>tec := t\<rparr>) s'))
      else Inr s)"

definition check_rec :: "'r rcan_api \<Rightarrow> nat \<Rightarrow> ('cb, 'r, 'n, 'w) can_sys \<Rightarrow> ('cb, 'r, 'n, 'w) can_sys res" where
  "check_rec A i s =
     (let t = rec_of (ESR A (rcan (cans s ! i))) in
      if rec (cans s ! i) \<noteq> t
      then rbind (print_ecr A (rcan (cans s ! i)) s) (\<lambda>s'. Inr (upd_can i (\<lambda>c. c\<lparr>rec := t\<rparr>) s'))
      else Inr s)"

definition rhs_hal_can_tx :: "('cb, 'r, 'n, 'w) can_env \<Rightarrow> nat \<Rightarrow> can_frame \<Rightarrow> ('cb, 'r, 'n, 'w) can_sys \<Rightarrow> (bool \<times> ('cb, 'r, 'n, 'w) can_sys) res" where
  "rhs_hal_can_tx E i frame s =
     rbind (aget (cans s) i) (\<lambda>can.
     rhs_assert (enabled can)
       (rbind (check_tec (api E) i s) (\<lambda>s1.
        rbind (copy_payload (payload (empty_frame (rcan_payload (api E)))) (payload frame) (unat (len frame))) (\<lambda>p.
        let (sent, r) = rcan_send (api E) \<lparr>frame_id = frame_id frame, len = len frame, type_of = type_of frame,
              rtr = rtr frame, payload = p\<rparr> (rcan (cans s1 ! i));
            s2 = upd_can i (\<lambda>c. c\<lparr>rcan := r\<rparr>) s1 in
        if \<not> sent then
          Inr (False, upd_can i (\<lambda>c. c\<lparr>statistic := (statistic c)\<lparr>tx_ovfs := tx_ovfs (statistic c) + 1\<rparr>\<rparr>) s2)
        else Inr (True, s2)))))"

text \<open>\<open>frame\<close> is the caller's frame as it was before the call.\<close>

definition rhs_hal_can_rx ::
  "('cb, 'r, 'n, 'w) can_env \<Rightarrow> nat \<Rightarrow> can_frame \<Rightarrow> ('cb, 'r, 'n, 'w) can_sys \<Rightarrow> (bool \<times> can_frame \<times> ('cb, 'r, 'n, 'w) can_sys) res" where
  "rhs_hal_can_rx E i frame s =
     rbind (aget (cans s) i) (\<lambda>can.
     rhs_assert (enabled can)
       (rbind (check_rec (api E) i s) (\<lambda>s1.
        let (got, f, r) = rcan_receive (api E) (empty_frame (rcan_payload (api E))) (rcan (cans s1 ! i));
            s2 = upd_can i (\<lambda>c. c\<lparr>rcan := r\<rparr>) s1 in
        if \<not> got then Inr (False, frame, s2)
        else rbind (copy_payload (payload frame) (payload f) (unat (len f))) (\<lambda>p.
          Inr (True, \<lparr>frame_id = frame_id f, len = len f, type_of = type_of f, rtr = rtr f, payload = p\<rparr>,
            upd_can i (\<lambda>c. c\<lparr>statistic := (statistic c)\<lparr>rx_msgs := rx_msgs (statistic c) + 1\<rparr>\<rparr>) s2)))))"

definition rhs_hal_can_get_statistic :: "nat \<Rightarrow> ('cb, 'r, 'n, 'w) can_sys \<Rightarrow> can_statistic res" where
  "rhs_hal_can_get_statistic i s = rhs_assert (i < RHSHalCANIdMax) (rbind (aget (cans s) i) (\<lambda>c. Inr (statistic c)))"

section \<open>Runs\<close>

text \<open>The calls of an application, and what it may do to its own state.\<close>

datatype ('cb, 'w) can_op = OpInit nat u32 | OpDeinit nat | OpAsyncSce nat "'cb option" "nat option"
  | OpTxCmplt nat "'cb option" "nat option" | OpRxStart nat "'cb option" "nat option"
  | OpTx nat can_frame | OpRx nat can_frame | OpWorld 'w

fun can_do :: "('cb, 'r, 'n, 'w) can_env \<Rightarrow> ('cb, 'w) can_op \<Rightarrow> ('cb, 'r, 'n, 'w) can_sys \<Rightarrow> ('cb, 'r, 'n, 'w) can_sys res" where
  "can_do E (OpInit i baud) s = rhs_hal_can_init E i baud s"
| "can_do E (OpDeinit i) s = rhs_hal_can_deinit E i s"
| "can_do E (OpAsyncSce i cb c) s = rhs_hal_can_async_sce E i cb c s"
| "can_do E (OpTxCmplt i cb c) s = rhs_hal_can_tx_cmplt_cb E i cb c s"
| "can_do E (OpRxStart i cb c) s = rhs_hal_can_async_rx_start E i cb c s"
| "can_do E (OpTx i f) s = rbind (rhs_hal_can_tx E i f s) (\<lambda>(_, s'). Inr s')"
| "can_do E (OpRx i f) s = rbind (rhs_hal_can_rx E i f s) (\<lambda>(_, _, s'). Inr s')"
| "can_do E (OpWorld w) s = Inr (s\<lparr>world := w\<rparr>)"

inductive can_calls :: "('cb, 'r, 'n, 'w) can_env \<Rightarrow> ('cb, 'r, 'n, 'w) can_sys \<Rightarrow> ('cb, 'r, 'n, 'w) can_sys \<Rightarrow> bool" for E where
  none: "can_calls E s s"
| call: "can_calls E s s1 \<Longrightarrow> can_do E opn s1 = Inr s2 \<Longrightarrow> can_calls E s s2"

text \<open>A callback that returns has only made calls and changed the application's own state.\<close>

definition callbacks_call :: "('cb, 'r, 'n, 'w) can_env \<Rightarrow> bool" where
  "callbacks_call E \<longleftrightarrow>
     (\<forall>cb num c s s'. run_rx E cb num c s = Inr s' \<longrightarrow> can_calls E s s') \<and>
     (\<forall>cb c s s'. run_tx E cb c s = Inr s' \<longrightarrow> can_calls E s s') \<and>
     (\<forall>cb num ev c s s'. run_sce E cb num ev c s = Inr s' \<longrightarrow> can_calls E s s')"

definition fault_of_callback :: "('cb, 'r, 'n, 'w) can_env \<Rightarrow> fault \<Rightarrow> bool" where
  "fault_of_callback E e \<longleftrightarrow> (\<exists>cb num c s. run_rx E cb num c s = Inl e) \<or> (\<exists>cb c s. run_tx E cb c s = Inl e) \<or>
     (\<exists>cb num ev c s. run_sce E cb num ev c s = Inl e)"

definition zero_can :: "'r \<Rightarrow> ('cb, 'r) can" where
  "zero_can r = \<lparr>enabled = False, rcan = r, lec = 0, tec = 0, rec = 0, rx_callback = None, rx_context = None,
     tx_callback = None, tx_context = None, sce_callback = None, sce_context = None,
     statistic = \<lparr>tx_msgs = 0, tx_errs = 0, tx_ovfs = 0, rx_msgs = 0, rx_errs = 0, rx_ovfs = 0\<rparr>\<rparr>"

definition can_boot :: "'r \<Rightarrow> 'n \<Rightarrow> 'w \<Rightarrow> ('cb, 'r, 'n, 'w) can_sys" where
  "can_boot r n w = \<lparr>cans = replicate RHSHalCANIdMax (zero_can r), irq = rhs_hal_interrupt_boot n, can_log = [], world = w\<rparr>"

text \<open>Calls of the application and interrupts on enabled lines, in any order.\<close>

inductive can_reach ::
  "('cb, 'r, 'n, 'w) can_env \<Rightarrow> (int \<Rightarrow> 'n \<Rightarrow> bool) \<Rightarrow> ('cb, 'r, 'n, 'w) can_sys \<Rightarrow> ('cb, 'r, 'n, 'w) can_sys \<Rightarrow> bool"
  for E lit s0 where
  start: "can_reach E lit s0 s0"
| op: "can_reach E lit s0 s \<Longrightarrow> can_do E opn s = Inr s' \<Longrightarrow> can_reach E lit s0 s'"
| interrupt: "can_reach E lit s0 s \<Longrightarrow> l < RHSHalInterruptIdMax \<Longrightarrow> line_on lit (nvic_calls E) (irq s) l \<Longrightarrow>
    rhs_hal_interrupt_call (can_irqs E) l s = Inr s' \<Longrightarrow> can_reach E lit s0 s'"

text \<open>The library keeps the controller of a started object, and the two controllers are different.\<close>

locale rcan_driver =
  fixes A :: "'r rcan_api"
  assumes two: "CAN1 A \<noteq> CAN2 A"
    and started: "fst (rcan_start A a baud r) \<Longrightarrow> Instance A (snd (rcan_start A a baud r)) = a"
    and sent: "Instance A (snd (rcan_send A f r)) = Instance A r"
    and received: "Instance A (snd (snd (rcan_receive A f r))) = Instance A r"
    and registers: "Instance A (write_MSR A v r) = Instance A r" "Instance A (write_TSR A v r) = Instance A r"
    and notifications: "Instance A (HAL_CAN_ActivateNotification A it r) = Instance A r"

section \<open>The invariant\<close>

definition controller :: "'r rcan_api \<Rightarrow> nat \<Rightarrow> u32" where
  "controller A i = (if i = RHSHalCANId1 then CAN1 A else CAN2 A)"

definition entry_ok :: "(can_isr, nat) isr_pair list \<Rightarrow> nat \<Rightarrow> can_isr \<Rightarrow> nat \<Rightarrow> bool \<Rightarrow> bool" where
  "entry_ok t l f i ready \<longleftrightarrow> (isr (t ! l) \<noteq> None \<longrightarrow> t ! l = \<lparr>isr = Some f, isr_context = Some i\<rparr> \<and> ready)"

definition channel_ok :: "'r rcan_api \<Rightarrow> (can_isr, nat) isr_pair list \<Rightarrow> nat \<Rightarrow> ('cb, 'r) can \<Rightarrow> bool" where
  "channel_ok A t i c \<longleftrightarrow> (enabled c \<longrightarrow> Instance A (rcan c) = controller A i) \<and>
     entry_ok t (sce_line i) SceISR i (enabled c) \<and>
     entry_ok t (tx_line i) TxISR i (enabled c \<and> tx_callback c \<noteq> None \<and> tx_context c \<noteq> None) \<and>
     entry_ok t (rx_line i) RxISR i (enabled c \<and> rx_callback c \<noteq> None \<and> rx_context c \<noteq> None)"

text \<open>No other driver has entered a handler.\<close>

definition others_free :: "('f, 'c) isr_pair list \<Rightarrow> bool" where
  "others_free t \<longleftrightarrow> (\<forall>l\<in>{6..<RHSHalInterruptIdMax}. isr (t ! l) = None)"

definition can_inv :: "('cb, 'r, 'n, 'w) can_env \<Rightarrow> (int \<Rightarrow> 'n \<Rightarrow> bool) \<Rightarrow> ('cb, 'r, 'n, 'w) can_sys \<Rightarrow> bool" where
  "can_inv E lit s \<longleftrightarrow> length (cans s) = RHSHalCANIdMax \<and> guarded lit (nvic_calls E) (irq s) \<and>
     (\<forall>i<RHSHalCANIdMax. channel_ok (api E) (isr_table (irq s)) i (cans s ! i)) \<and> others_free (isr_table (irq s))"

lemma sys_updates [simp]:
  "cans (logs num ms s) = cans s" "irq (logs num ms s) = irq s" "world (logs num ms s) = world s"
  "irq (upd_can i f s) = irq s" "cans (upd_can i f s) = (cans s)[i := f (cans s ! i)]" "irq (upd_rcan i g s) = irq s"
  by (simp_all add: logs_def upd_can_def upd_rcan_def)

lemma inv_logs [simp]: "can_inv E lit (logs num ms s) = can_inv E lit s"
  by (simp add: can_inv_def)

lemma inv_world [simp]: "can_inv E lit (s\<lparr>world := w\<rparr>) = can_inv E lit s"
  by (simp add: can_inv_def)

text \<open>The updates of a channel that leave what the invariant speaks of.\<close>

definition harmless :: "'r rcan_api \<Rightarrow> (('cb, 'r) can \<Rightarrow> ('cb, 'r) can) \<Rightarrow> bool" where
  "harmless A f \<longleftrightarrow> (\<forall>c. enabled (f c) = enabled c \<and> Instance A (rcan (f c)) = Instance A (rcan c) \<and>
     tx_callback (f c) = tx_callback c \<and> tx_context (f c) = tx_context c \<and>
     rx_callback (f c) = rx_callback c \<and> rx_context (f c) = rx_context c)"

lemma channel_harmless: "harmless A f \<Longrightarrow> channel_ok A t i (f c) = channel_ok A t i c"
  by (simp add: harmless_def channel_ok_def)

lemma nth_changed: "xs[i := f (xs ! i)] ! j = (if i = j \<and> j < length xs then f (xs ! j) else xs ! j)"
  by (cases "i < length xs") (auto simp: nth_list_update list_update_beyond)

lemma inv_changed:
  assumes "can_inv E lit s" and "channel_ok (api E) (isr_table (irq s)) i (f (cans s ! i))"
  shows "can_inv E lit (upd_can i f s)"
  using assms by (simp add: can_inv_def nth_changed)

lemma inv_harmless:
  assumes "can_inv E lit s" and "harmless (api E) f"
  shows "can_inv E lit (upd_can i f s)"
  using assms by (simp add: can_inv_def nth_changed channel_harmless)

text \<open>The updates the code makes that are of this kind.\<close>

lemma harmless_updates:
  "harmless A (\<lambda>c. c\<lparr>lec := f1 c\<rparr>)" "harmless A (\<lambda>c. c\<lparr>tec := t\<rparr>)" "harmless A (\<lambda>c. c\<lparr>rec := t\<rparr>)"
  "harmless A (\<lambda>c. c\<lparr>statistic := f4 c\<rparr>)" "harmless A (\<lambda>c. c\<lparr>sce_callback := cb, sce_context := ctxt\<rparr>)"
  by (simp_all add: harmless_def)

lemma inv_rcan: "can_inv E lit s \<Longrightarrow> (\<And>r. Instance (api E) (g r) = Instance (api E) r) \<Longrightarrow> can_inv E lit (upd_rcan i g s)"
  unfolding upd_rcan_def by (rule inv_harmless) (simp_all add: harmless_def)

text \<open>An update by a new library object of the same controller.\<close>

lemma inv_rcan_at:
  assumes "can_inv E lit s" and "Instance (api E) r = Instance (api E) (rcan (cans s ! i))"
  shows "can_inv E lit (upd_can i (\<lambda>c. c\<lparr>rcan := r\<rparr>) s)"
  using assms by (simp add: can_inv_def nth_changed channel_ok_def)

lemma inv_print_ecr: "can_inv E lit s \<Longrightarrow> print_ecr A r s = Inr s' \<Longrightarrow> can_inv E lit s'"
  by (auto simp: print_ecr_def rbind_eq_Inr)

lemma inv_boot: "can_inv E lit (can_boot r n w) \<longleftrightarrow> (\<forall>l<RHSHalInterruptIdMax. \<not> lit (rhs_hal_interrupt_irqn (nvic_calls E) ! l) n)"
  by (auto simp: can_inv_def others_free_def can_boot_def zero_can_def channel_ok_def entry_ok_def guarded_def line_on_def
      rhs_hal_interrupt_boot_def sce_line_def tx_line_def rx_line_def interrupt_ids can_ids)

text \<open>The lines of the channels are different.\<close>

lemma lines_less [simp]: "sce_line i < RHSHalInterruptIdMax" "tx_line i < RHSHalInterruptIdMax" "rx_line i < RHSHalInterruptIdMax"
  by (simp_all add: sce_line_def tx_line_def rx_line_def interrupt_ids)

lemma lines_distinct:
  "i < RHSHalCANIdMax \<Longrightarrow> j < RHSHalCANIdMax \<Longrightarrow> sce_line i = sce_line j \<longleftrightarrow> i = j"
  "i < RHSHalCANIdMax \<Longrightarrow> j < RHSHalCANIdMax \<Longrightarrow> tx_line i = tx_line j \<longleftrightarrow> i = j"
  "i < RHSHalCANIdMax \<Longrightarrow> j < RHSHalCANIdMax \<Longrightarrow> rx_line i = rx_line j \<longleftrightarrow> i = j"
  "sce_line i \<noteq> tx_line j" "sce_line i \<noteq> rx_line j" "tx_line i \<noteq> rx_line j"
  "tx_line j \<noteq> sce_line i" "rx_line j \<noteq> sce_line i" "rx_line j \<noteq> tx_line i"
  by (auto simp: sce_line_def tx_line_def rx_line_def interrupt_ids can_ids split: if_splits)

lemma line_cases:
  assumes "l < 6"
  obtains i where "i < RHSHalCANIdMax" "l = sce_line i \<or> l = tx_line i \<or> l = rx_line i"
proof -
  have "l = 0 \<or> l = 1 \<or> l = 2 \<or> l = 3 \<or> l = 4 \<or> l = 5" using assms by (auto simp: interrupt_ids)
  then have "\<exists>i<RHSHalCANIdMax. l = sce_line i \<or> l = tx_line i \<or> l = rx_line i"
    unfolding can_ids sce_line_def tx_line_def rx_line_def interrupt_ids numeral_2_eq_2 less_Suc_eq by auto
  then show thesis using that by blast
qed

lemma can_id_cases: "i < RHSHalCANIdMax \<longleftrightarrow> i = RHSHalCANId1 \<or> i = RHSHalCANId2"
  by (auto simp: can_ids)

section \<open>The invariant is kept\<close>

context rcan_driver
begin

lemma inv_init:
  assumes "can_inv E lit s" and "api E = A" and "rhs_hal_can_init E i baud s = Inr s'"
  shows "can_inv E lit s'"
proof -
  let ?a = "if i = RHSHalCANId1 then CAN1 A else CAN2 A"
  obtain ok r where r: "rcan_start A ?a baud (rcan (cans s ! i)) = (ok, r)" by fastforce
  have i: "i < length (cans s)" and off: "\<not> enabled (cans s ! i)" and ok: ok
    and s': "s' = upd_can i (\<lambda>c. c\<lparr>rcan := r, enabled := True\<rparr>) s"
    using assms(2,3) r by (auto simp: rhs_hal_can_init_def rbind_eq_Inr aget_def split: if_splits)
  have inst: "Instance A r = ?a" using started [of ?a baud "rcan (cans s ! i)"] r ok by simp
  have "channel_ok A (isr_table (irq s)) i (cans s ! i)" using assms(1,2) i by (simp add: can_inv_def)
  then have "channel_ok A (isr_table (irq s)) i ((cans s ! i)\<lparr>rcan := r, enabled := True\<rparr>)"
    using off inst by (auto simp: channel_ok_def entry_ok_def controller_def)
  then show ?thesis using inv_changed [OF assms(1)] assms(2) s' by simp
qed

end

definition own_line :: "nat \<Rightarrow> nat \<Rightarrow> bool" where
  "own_line i l \<longleftrightarrow> l = sce_line i \<or> l = tx_line i \<or> l = rx_line i"

lemma own_line_other:
  "own_line i l \<Longrightarrow> i < RHSHalCANIdMax \<Longrightarrow> j < RHSHalCANIdMax \<Longrightarrow> j \<noteq> i \<Longrightarrow> l \<noteq> sce_line j \<and> l \<noteq> tx_line j \<and> l \<noteq> rx_line j"
  by (auto simp: own_line_def lines_distinct)

text \<open>Entering a handler of a channel: the table changes at one line, and the channel by \<open>f\<close>.\<close>

lemma inv_enter:
  assumes "can_inv E lit s" and "interrupt_controller (nvic_calls E) lit" and "i < RHSHalCANIdMax"
    and "rhs_hal_interrupt_set_isr_ex (nvic_calls E) l priority g c (irq s) = Inr t"
    and "channel_ok (api E) (isr_table t) i (f (cans s ! i))"
    and "own_line i l"
  shows "can_inv E lit (upd_can i f (s\<lparr>irq := t\<rparr>))"
proof -
  have g: "guarded lit (nvic_calls E) (irq s)" and len: "length (cans s) = RHSHalCANIdMax"
    and ch: "\<And>j. j < RHSHalCANIdMax \<Longrightarrow> channel_ok (api E) (isr_table (irq s)) j (cans s ! j)"
    using assms(1) by (simp_all add: can_inv_def)
  have t: "guarded lit (nvic_calls E) t" "isr_table t = (isr_table (irq s))[l := \<lparr>isr = g, isr_context = c\<rparr>]"
    using interrupt_controller.set_isr_guarded [OF assms(2) g assms(4)] by simp_all
  have "l < 6" using assms(3,6) by (auto simp: own_line_def sce_line_def tx_line_def rx_line_def interrupt_ids can_ids split: if_splits)
  then have "others_free (isr_table t)" using assms(1) by (simp add: can_inv_def others_free_def t(2))
  have "channel_ok (api E) (isr_table t) j ((cans s)[i := f (cans s ! i)] ! j)" if j: "j < RHSHalCANIdMax" for j
    using assms(5) own_line_other [OF assms(6,3) j] ch [OF j] by (cases "j = i") (simp_all add: len assms(3) t(2) channel_ok_def entry_ok_def)
  then show ?thesis using t(1) len \<open>others_free (isr_table t)\<close> by (simp add: can_inv_def)
qed

lemma set_isr_table:
  assumes "can_inv E lit s" and "interrupt_controller (nvic_calls E) lit"
    and "rhs_hal_interrupt_set_isr_ex (nvic_calls E) l priority g c (irq s) = Inr t"
  shows "isr_table t = (isr_table (irq s))[l := \<lparr>isr = g, isr_context = c\<rparr>]" and "length (isr_table (irq s)) = RHSHalInterruptIdMax"
  using interrupt_controller.set_isr_guarded [OF assms(2) _ assms(3)] assms(1) by (simp_all add: can_inv_def guarded_def)

lemma upd_can_irq: "upd_can i f s\<lparr>irq := t\<rparr> = upd_can i f (s\<lparr>irq := t\<rparr>)"
  by (cases s) (simp add: upd_can_def)

lemma upd_can_id: "upd_can i (\<lambda>c. c) s = s"
  by (cases "i < length (cans s)") (simp_all add: upd_can_def list_update_beyond)

lemma entry_cleared: "entry_ok t k f i ready \<Longrightarrow> entry_ok (t[l := \<lparr>isr = None, isr_context = c\<rparr>]) k f i ready"
  by (cases "l < length t"; cases "k = l") (auto simp: entry_ok_def list_update_beyond)

lemma inv_clear:
  assumes "can_inv E lit s" and "interrupt_controller (nvic_calls E) lit" and "i < RHSHalCANIdMax" and "own_line i l"
    and "rhs_hal_interrupt_set_isr (nvic_calls E) l None None (irq s) = Inr t"
  shows "can_inv E lit (s\<lparr>irq := t\<rparr>)"
proof -
  note set = assms(5) [unfolded rhs_hal_interrupt_set_isr_def]
  note t = set_isr_table [OF assms(1,2) set]
  have "channel_ok (api E) (isr_table (irq s)) i (cans s ! i)" using assms(1,3) by (simp add: can_inv_def)
  then have "channel_ok (api E) (isr_table t) i (cans s ! i)"
    by (simp add: t(1) channel_ok_def entry_cleared)
  then show ?thesis
    using inv_enter [OF assms(1-3) set _ assms(4), where f = "\<lambda>c. c"] by (simp add: upd_can_id)
qed

lemma inv_deinit:
  assumes inv: "can_inv E lit s" and ctl: "interrupt_controller (nvic_calls E) lit" and run: "rhs_hal_can_deinit E i s = Inr s'"
  shows "can_inv E lit s'"
proof -
  have i: "i < RHSHalCANIdMax" using run by (auto simp: rhs_hal_can_deinit_def rbind_eq_Inr can_ids split: if_splits)
  obtain t1 t2 t3 where
    1: "rhs_hal_interrupt_set_isr (nvic_calls E) (sce_line i) None None (irq s) = Inr t1" and
    2: "rhs_hal_interrupt_set_isr (nvic_calls E) (tx_line i) None None (irq (s\<lparr>irq := t1\<rparr>)) = Inr t2" and
    3: "rhs_hal_interrupt_set_isr (nvic_calls E) (rx_line i) None None (irq (s\<lparr>irq := t2\<rparr>)) = Inr t3" and
    s': "s' = upd_can i (\<lambda>c. c\<lparr>rcan := fold (HAL_CAN_DeactivateNotification (api E)) deactivated (rcan_stop (api E) (rcan c)),
       enabled := False\<rparr>) (s\<lparr>irq := t3\<rparr>)"
    using run by (auto simp: rhs_hal_can_deinit_def lift_irq_def rbind_eq_Inr split: if_splits)
  have own: "own_line i (sce_line i)" "own_line i (tx_line i)" "own_line i (rx_line i)" by (simp_all add: own_line_def)
  have inv1: "can_inv E lit (s\<lparr>irq := t1\<rparr>)" using inv_clear [OF inv ctl i own(1) 1] .
  have inv2: "can_inv E lit (s\<lparr>irq := t2\<rparr>)" using inv_clear [OF inv1 ctl i own(2) 2] by simp
  have inv3: "can_inv E lit (s\<lparr>irq := t3\<rparr>)" using inv_clear [OF inv2 ctl i own(3) 3] by simp
  note t1 = set_isr_table [OF inv ctl 1 [unfolded rhs_hal_interrupt_set_isr_def]]
  note t2 = set_isr_table [OF inv1 ctl 2 [unfolded rhs_hal_interrupt_set_isr_def]]
  note t3 = set_isr_table [OF inv2 ctl 3 [unfolded rhs_hal_interrupt_set_isr_def]]
  have none: "isr (isr_table t3 ! sce_line i) = None" "isr (isr_table t3 ! tx_line i) = None" "isr (isr_table t3 ! rx_line i) = None"
    using t1(2) by (simp_all add: t1(1) t2(1) t3(1) nth_list_update lines_distinct)
  show ?thesis unfolding s' by (rule inv_changed [OF inv3]) (simp add: channel_ok_def entry_ok_def none)
qed

text \<open>Registering a handler.\<close>

lemma inv_register:
  assumes inv: "can_inv E lit s" and ctl: "interrupt_controller (nvic_calls E) lit" and i: "i < RHSHalCANIdMax" and own: "own_line i l"
    and set: "rhs_hal_interrupt_set_isr_ex (nvic_calls E) l priority (Some g) (Some i) (irq (upd_can i f s)) = Inr t"
    and en: "enabled (cans s ! i)" and g: "g = (if l = sce_line i then SceISR else if l = tx_line i then TxISR else RxISR)"
    and f: "enabled (f (cans s ! i)) = enabled (cans s ! i)" "Instance (api E) (rcan (f (cans s ! i))) = Instance (api E) (rcan (cans s ! i))"
    and tx: "l = tx_line i \<and> tx_callback (f (cans s ! i)) \<noteq> None \<and> tx_context (f (cans s ! i)) \<noteq> None \<or>
      tx_callback (f (cans s ! i)) = tx_callback (cans s ! i) \<and> tx_context (f (cans s ! i)) = tx_context (cans s ! i) \<and> l \<noteq> tx_line i"
    and rx: "l = rx_line i \<and> rx_callback (f (cans s ! i)) \<noteq> None \<and> rx_context (f (cans s ! i)) \<noteq> None \<or>
      rx_callback (f (cans s ! i)) = rx_callback (cans s ! i) \<and> rx_context (f (cans s ! i)) = rx_context (cans s ! i) \<and> l \<noteq> rx_line i"
  shows "can_inv E lit (upd_can i f s\<lparr>irq := t\<rparr>)"
proof -
  have set': "rhs_hal_interrupt_set_isr_ex (nvic_calls E) l priority (Some g) (Some i) (irq s) = Inr t" using set by simp
  note t = set_isr_table [OF inv ctl set']
  have "channel_ok (api E) (isr_table (irq s)) i (cans s ! i)" using inv i by (simp add: can_inv_def)
  then have "channel_ok (api E) (isr_table t) i (f (cans s ! i))"
    using own en tx rx by (auto simp: t g f own_line_def channel_ok_def entry_ok_def nth_list_update lines_distinct)
  then show ?thesis
    using inv_enter [OF inv ctl i set' _ own, where f = f] by (simp add: upd_can_irq)
qed

lemma inv_async_sce:
  assumes inv: "can_inv E lit s" and ctl: "interrupt_controller (nvic_calls E) lit" and drv: "rcan_driver (api E)"
    and run: "rhs_hal_can_async_sce E i cb ctxt s = Inr s'"
  shows "can_inv E lit s'"
proof -
  let ?f = "\<lambda>c. c\<lparr>sce_callback := cb, sce_context := ctxt\<rparr>"
  have i: "i < RHSHalCANIdMax" using run by (auto simp: rhs_hal_can_async_sce_def rbind_eq_Inr can_ids Let_def split: if_splits)
  obtain t where en: "enabled (cans s ! i)" and
    t: "rhs_hal_interrupt_set_isr_ex (nvic_calls E) (sce_line i) RHSHalInterruptPriorityLow (Some SceISR) (Some i) (irq (upd_can i ?f s)) = Inr t"
    and s': "s' = upd_rcan i (fold (HAL_CAN_ActivateNotification (api E)) [CAN_IT_ERROR, CAN_IT_LAST_ERROR_CODE, CAN_IT_BUSOFF])
      (upd_can i ?f s\<lparr>irq := t\<rparr>)"
    using run by (auto simp: rhs_hal_can_async_sce_def lift_irq_def rbind_eq_Inr aget_def Let_def split: if_splits)
  have "can_inv E lit (upd_can i ?f s\<lparr>irq := t\<rparr>)"
    by (rule inv_register [OF inv ctl i _ t en]) (simp_all add: own_line_def lines_distinct)
  then show ?thesis unfolding s' by (rule inv_rcan) (simp add: rcan_driver.notifications [OF drv])
qed

lemma inv_tx_cmplt:
  assumes inv: "can_inv E lit s" and ctl: "interrupt_controller (nvic_calls E) lit" and drv: "rcan_driver (api E)"
    and run: "rhs_hal_can_tx_cmplt_cb E i cb ctxt s = Inr s'"
  shows "can_inv E lit s'"
proof -
  let ?f = "\<lambda>c. c\<lparr>tx_callback := cb, tx_context := ctxt\<rparr>"
  have i: "i < RHSHalCANIdMax" using run by (auto simp: rhs_hal_can_tx_cmplt_cb_def rbind_eq_Inr can_ids Let_def split: if_splits)
  obtain t where en: "enabled (cans s ! i)" and cb: "cb \<noteq> None" "ctxt \<noteq> None" and
    t: "rhs_hal_interrupt_set_isr_ex (nvic_calls E) (tx_line i) RHSHalInterruptPriorityNormal (Some TxISR) (Some i) (irq (upd_can i ?f s)) = Inr t"
    and s': "s' = upd_rcan i (HAL_CAN_ActivateNotification (api E) CAN_IT_TX_MAILBOX_EMPTY) (upd_can i ?f s\<lparr>irq := t\<rparr>)"
    using run by (auto simp: rhs_hal_can_tx_cmplt_cb_def rhs_hal_interrupt_set_isr_def lift_irq_def rbind_eq_Inr aget_def Let_def split: if_splits)
  have "can_inv E lit (upd_can i ?f s\<lparr>irq := t\<rparr>)"
    by (rule inv_register [OF inv ctl i _ t en]) (use cb in \<open>simp_all add: own_line_def lines_distinct\<close>)
  then show ?thesis unfolding s' by (rule inv_rcan) (simp add: rcan_driver.notifications [OF drv])
qed

lemma inv_rx_start:
  assumes inv: "can_inv E lit s" and ctl: "interrupt_controller (nvic_calls E) lit" and drv: "rcan_driver (api E)"
    and run: "rhs_hal_can_async_rx_start E i cb ctxt s = Inr s'"
  shows "can_inv E lit s'"
proof -
  let ?f = "\<lambda>c. c\<lparr>rx_callback := cb, rx_context := ctxt\<rparr>"
  have i: "i < RHSHalCANIdMax" using run by (auto simp: rhs_hal_can_async_rx_start_def rbind_eq_Inr can_ids Let_def split: if_splits)
  obtain t where en: "enabled (cans s ! i)" and cb: "cb \<noteq> None" "ctxt \<noteq> None" and
    t: "rhs_hal_interrupt_set_isr_ex (nvic_calls E) (rx_line i) RHSHalInterruptPriorityNormal (Some RxISR) (Some i) (irq (upd_can i ?f s)) = Inr t"
    and s': "s' = upd_rcan i (HAL_CAN_ActivateNotification (api E) CAN_IT_RX_FIFO0_MSG_PENDING) (upd_can i ?f s\<lparr>irq := t\<rparr>)"
    using run by (auto simp: rhs_hal_can_async_rx_start_def rhs_hal_interrupt_set_isr_def lift_irq_def rbind_eq_Inr aget_def Let_def split: if_splits)
  have "can_inv E lit (upd_can i ?f s\<lparr>irq := t\<rparr>)"
    by (rule inv_register [OF inv ctl i _ t en]) (use cb in \<open>simp_all add: own_line_def lines_distinct\<close>)
  then show ?thesis unfolding s' by (rule inv_rcan) (simp add: rcan_driver.notifications [OF drv])
qed

lemma inv_check:
  assumes "can_inv E lit s" and "check_tec (api E) i s = Inr s1 \<or> check_rec (api E) i s = Inr s1"
  shows "can_inv E lit s1"
  using assms
  by (auto simp: check_tec_def check_rec_def Let_def rbind_eq_Inr intro!: inv_harmless harmless_updates
      intro: inv_print_ecr split: if_splits)

lemma check_keeps:
  assumes "check_tec A i s = Inr s1 \<or> check_rec A i s = Inr s1"
  shows "length (cans s1) = length (cans s)" and "rcan (cans s1 ! j) = rcan (cans s ! j)"
  using assms by (auto simp: check_tec_def check_rec_def Let_def rbind_eq_Inr print_ecr_def nth_changed split: if_splits)

lemma check_rec_returns:
  assumes "Instance A (rcan (cans s ! i)) \<in> {CAN1 A, CAN2 A}"
  obtains s1 where "check_rec A i s = Inr s1"
proof -
  obtain num where "get_can_num_interface A (Instance A (rcan (cans s ! i))) = Inr num"
    using assms by (cases "Instance A (rcan (cans s ! i)) = CAN1 A") (simp_all add: get_can_num_interface_def)
  then have "\<exists>s1. check_rec A i s = Inr s1" by (simp add: check_rec_def Let_def print_ecr_def)
  then show thesis using that by blast
qed

lemma inv_tx:
  assumes inv: "can_inv E lit s" and drv: "rcan_driver (api E)" and run: "rhs_hal_can_tx E i f s = Inr (b, s')"
  shows "can_inv E lit s'"
proof -
  obtain s1 p where 1: "check_tec (api E) i s = Inr s1"
    and p: "copy_payload (payload (empty_frame (rcan_payload (api E)))) (payload f) (unat (len f)) = Inr p"
    using run by (auto simp: rhs_hal_can_tx_def rbind_eq_Inr)
  obtain sent r where
    2: "rcan_send (api E) \<lparr>frame_id = frame_id f, len = len f, type_of = type_of f, rtr = rtr f, payload = p\<rparr> (rcan (cans s1 ! i)) = (sent, r)"
    by fastforce
  have s': "s' = upd_can i (\<lambda>c. c\<lparr>rcan := r\<rparr>) s1 \<or>
      s' = upd_can i (\<lambda>c. c\<lparr>statistic := (statistic c)\<lparr>tx_ovfs := tx_ovfs (statistic c) + 1\<rparr>\<rparr>) (upd_can i (\<lambda>c. c\<lparr>rcan := r\<rparr>) s1)"
    using run by (auto simp: rhs_hal_can_tx_def rbind_eq_Inr 1 p 2 Let_def split: if_splits)
  have s1: "can_inv E lit s1" using inv_check [OF inv] 1 by blast
  have "Instance (api E) r = Instance (api E) (rcan (cans s1 ! i))"
    using rcan_driver.sent [OF drv] 2 by (metis snd_conv)
  then have "can_inv E lit (upd_can i (\<lambda>c. c\<lparr>rcan := r\<rparr>) s1)" by (rule inv_rcan_at [OF s1])
  then show ?thesis using s' by (auto intro: inv_harmless harmless_updates)
qed

lemma inv_rx:
  assumes inv: "can_inv E lit s" and drv: "rcan_driver (api E)" and run: "rhs_hal_can_rx E i f s = Inr (b, f', s')"
  shows "can_inv E lit s'"
proof -
  obtain s1 where 1: "check_rec (api E) i s = Inr s1" using run by (auto simp: rhs_hal_can_rx_def rbind_eq_Inr)
  obtain got g r where 2: "rcan_receive (api E) (empty_frame (rcan_payload (api E))) (rcan (cans s1 ! i)) = (got, g, r)"
    by (cases "rcan_receive (api E) (empty_frame (rcan_payload (api E))) (rcan (cans s1 ! i))")
  have s': "s' = upd_can i (\<lambda>c. c\<lparr>rcan := r\<rparr>) s1 \<or>
      s' = upd_can i (\<lambda>c. c\<lparr>statistic := (statistic c)\<lparr>rx_msgs := rx_msgs (statistic c) + 1\<rparr>\<rparr>) (upd_can i (\<lambda>c. c\<lparr>rcan := r\<rparr>) s1)"
    using run by (auto simp: rhs_hal_can_rx_def rbind_eq_Inr 1 2 Let_def split: if_splits)
  have s1: "can_inv E lit s1" using inv_check [OF inv] 1 by blast
  have "Instance (api E) r = Instance (api E) (rcan (cans s1 ! i))"
    using rcan_driver.received [OF drv] 2 by (metis snd_conv)
  then have "can_inv E lit (upd_can i (\<lambda>c. c\<lparr>rcan := r\<rparr>) s1)" by (rule inv_rcan_at [OF s1])
  then show ?thesis using s' by (auto intro: inv_harmless harmless_updates)
qed

lemma inv_do:
  assumes "can_inv E lit s" and "interrupt_controller (nvic_calls E) lit" and "rcan_driver (api E)" and "can_do E opn s = Inr s'"
  shows "can_inv E lit s'"
  using assms
  by (cases opn) (auto simp: rbind_eq_Inr intro: rcan_driver.inv_init inv_deinit inv_async_sce inv_tx_cmplt inv_rx_start inv_tx inv_rx)

lemma inv_calls:
  assumes "can_calls E s s'" and "can_inv E lit s" and "interrupt_controller (nvic_calls E) lit" and "rcan_driver (api E)"
  shows "can_inv E lit s'"
  using assms by (induction rule: can_calls.induct) (auto intro: inv_do)

text \<open>The handlers.\<close>

lemma inv_sce_msr: "can_inv E lit s \<Longrightarrow> rcan_driver (api E) \<Longrightarrow> can_inv E lit (snd (sce_msr (api E) num i s))"
  by (auto simp: sce_msr_def Let_def rcan_driver.registers intro!: inv_rcan)

lemma inv_sce_tsr: "can_inv E lit s \<Longrightarrow> can_inv E lit (snd (sce_tsr (api E) num i ev s))"
  by (auto simp: sce_tsr_def Let_def intro!: inv_harmless harmless_updates)

lemma handlers_irq [simp]:
  "irq (snd (sce_msr A num i s)) = irq s" "irq (snd (sce_tsr A num i ev s)) = irq s"
  by (simp_all add: sce_msr_def sce_tsr_def Let_def)

lemma handlers_len [simp]:
  "length (cans (snd (sce_msr A num i s))) = length (cans s)" "length (cans (snd (sce_tsr A num i ev s))) = length (cans s)"
  by (simp_all add: sce_msr_def sce_tsr_def upd_rcan_def Let_def)

lemma known_channel:
  assumes "can_inv E lit s" and "i < RHSHalCANIdMax" and "enabled (cans s ! i)"
  obtains num where "get_can_num_interface (api E) (Instance (api E) (rcan (cans s ! i))) = Inr num"
proof -
  have "Instance (api E) (rcan (cans s ! i)) = controller (api E) i" using assms by (simp add: can_inv_def channel_ok_def)
  then have "\<exists>num. get_can_num_interface (api E) (Instance (api E) (rcan (cans s ! i))) = Inr num"
    by (simp add: get_can_num_interface_def controller_def)
  then show thesis using that by blast
qed

text \<open>A handler either keeps the invariant or stops in the callback it runs.\<close>

definition handled :: "('cb, 'r, 'n, 'w) can_env \<Rightarrow> (int \<Rightarrow> 'n \<Rightarrow> bool) \<Rightarrow> ('cb, 'r, 'n, 'w) can_sys res \<Rightarrow> bool" where
  "handled E lit x \<longleftrightarrow> (case x of Inr s' \<Rightarrow> can_inv E lit s' | Inl e \<Rightarrow> fault_of_callback E e)"

lemma handled_Inr [simp]: "handled E lit (Inr s) = can_inv E lit s"
  by (simp add: handled_def)

text \<open>What the invariant needs of the surroundings.\<close>

definition can_world :: "('cb, 'r, 'n, 'w) can_env \<Rightarrow> (int \<Rightarrow> 'n \<Rightarrow> bool) \<Rightarrow> bool" where
  "can_world E lit \<longleftrightarrow> interrupt_controller (nvic_calls E) lit \<and> rcan_driver (api E) \<and> callbacks_call E"

lemma handled_callbacks:
  assumes "can_inv E lit s" and "can_world E lit"
  shows "handled E lit (run_rx E cb num c s)" and "handled E lit (run_tx E cb c s)" and "handled E lit (run_sce E cb num ev c s)"
  using assms inv_calls [OF _ assms(1)]
  by (auto simp: handled_def can_world_def callbacks_call_def fault_of_callback_def split: sum.splits)

lemma handled_option:
  assumes "can_inv E lit s" and "\<And>cb. handled E lit (f cb)"
  shows "handled E lit (case x of None \<Rightarrow> Inr s | Some cb \<Rightarrow> f cb)"
  using assms by (cases x) simp_all

lemma handled_rx:
  assumes "can_inv E lit s" and "can_world E lit" and "i < RHSHalCANIdMax" and "enabled (cans s ! i)"
  shows "handled E lit (can_rx_callback E (Some i) s)"
proof -
  obtain num where num: "get_can_num_interface (api E) (Instance (api E) (rcan (cans s ! i))) = Inr num"
    using known_channel [OF assms(1,3,4)] .
  have len: "aget (cans s) i = Inr (cans s ! i)" using assms(1,3) by (simp add: can_inv_def)
  let ?s1 = "if RF0R (api E) (rcan (cans s ! i)) AND CAN_RF0R_FOVR0 (api E) \<noteq> 0
    then upd_can i (\<lambda>c. c\<lparr>statistic := (statistic c)\<lparr>rx_ovfs := rx_ovfs (statistic c) + 1\<rparr>\<rparr>) s else s"
  have inv: "can_inv E lit ?s1" using assms(1) by (simp add: inv_harmless harmless_updates)
  have "can_rx_callback E (Some i) s =
      (case rx_callback (cans ?s1 ! i) of None \<Rightarrow> Inr ?s1 | Some cb \<Rightarrow> run_rx E cb num (rx_context (cans ?s1 ! i)) ?s1)"
    using num by (simp only: can_rx_callback_def option.case len rbind_simps Let_def)
  then show ?thesis by (simp only: handled_option [OF inv handled_callbacks(1) [OF inv assms(2)]])
qed

lemma handled_tx:
  assumes "can_inv E lit s" and "can_world E lit" and "i < RHSHalCANIdMax"
  shows "handled E lit (can_tx_callback E (Some i) s)"
proof -
  obtain m0 m1 m2 where m: "CAN_TSR_RQCP (api E) = (m0, m1, m2)" using prod_cases3 by blast
  have len: "aget (cans s) i = Inr (cans s ! i)" using assms(1,3) by (simp add: can_inv_def)
  have drv: "rcan_driver (api E)" using assms(2) by (simp add: can_world_def)
  let ?s1 = "upd_can i (\<lambda>c. c\<lparr>statistic := (statistic c)\<lparr>tx_msgs := tx_msgs (statistic c) + 1\<rparr>\<rparr>) s"
  let ?s2 = "upd_rcan i (clear_mailbox (api E) m2 \<circ> clear_mailbox (api E) m1 \<circ> clear_mailbox (api E) m0) ?s1"
  have inv1: "can_inv E lit ?s1" using assms(1) by (simp add: inv_harmless harmless_updates)
  have inv2: "can_inv E lit ?s2"
    by (rule inv_rcan [OF inv1]) (simp add: clear_mailbox_def rcan_driver.registers [OF drv])
  have "can_tx_callback E (Some i) s =
      (if TSR (api E) (rcan (cans ?s1 ! i)) AND any_of (CAN_TSR_RQCP (api E)) \<noteq> 0 then
         (case tx_callback (cans ?s2 ! i) of None \<Rightarrow> Inr ?s2 | Some cb \<Rightarrow> run_tx E cb (tx_context (cans ?s2 ! i)) ?s2)
       else Inr ?s1)"
    by (simp only: can_tx_callback_def option.case len rbind_simps Let_def m prod.case)
  then show ?thesis using inv1 by (simp only: handled_option [OF inv2 handled_callbacks(2) [OF inv2 assms(2)]] handled_Inr split: if_split) simp
qed

lemma handled_sce:
  assumes "can_inv E lit s" and "can_world E lit" and "i < RHSHalCANIdMax" and "isr (isr_table (irq s) ! sce_line i) \<noteq> None"
  shows "handled E lit (can_sce_callback E (Some i) s)"
proof -
  have drv: "rcan_driver (api E)" using assms(2) by (simp add: can_world_def)
  have ready: "enabled (cans u ! i)" if "can_inv E lit u" "irq u = irq s" for u
    using that assms(3,4) by (auto simp: can_inv_def channel_ok_def entry_ok_def)
  obtain num where num: "get_can_num_interface (api E) (Instance (api E) (rcan (cans s ! i))) = Inr num"
    using known_channel [OF assms(1,3) ready [OF assms(1) refl]] .
  have len: "aget (cans s) i = Inr (cans s ! i)" using assms(1,3) by (simp add: can_inv_def)
  obtain ev s1 where 1: "sce_msr (api E) num i s = (ev, s1)" by fastforce
  have i1: "can_inv E lit s1" "irq s1 = irq s" using inv_sce_msr [OF assms(1) drv, of num i] handlers_irq(1) [of "api E" num i s] 1 by simp_all
  obtain ev' s2 where 2: "sce_tsr (api E) num i ev s1 = (ev', s2)" by fastforce
  have i2: "can_inv E lit s2" "irq s2 = irq s" using inv_sce_tsr [OF i1(1), of num i ev] handlers_irq(2) [of "api E" num i ev s1] 2 i1(2) by simp_all
  let ?s3 = "upd_can i (\<lambda>c. c\<lparr>lec := lec_of (ESR (api E) (rcan c))\<rparr>) s2"
  have i3: "can_inv E lit ?s3" "irq ?s3 = irq s" using i2 by (simp_all add: inv_harmless harmless_updates)
  obtain num' where num': "get_can_num_interface (api E) (Instance (api E) (rcan (cans ?s3 ! i))) = Inr num'"
    using known_channel [OF i3(1) assms(3) ready [OF i3]] .
  let ?s4 = "logs num' (ecr_messages (ESR (api E) (rcan (cans ?s3 ! i)))) ?s3"
  have i4: "can_inv E lit ?s4" using i3 by simp
  have "can_sce_callback E (Some i) s =
      (case sce_callback (cans ?s4 ! i) of None \<Rightarrow> Inr ?s4 | Some cb \<Rightarrow> run_sce E cb num ev' (sce_context (cans ?s4 ! i)) ?s4)"
    by (simp only: can_sce_callback_def option.case len rbind_simps Let_def num 1 2 prod.case print_ecr_def num')
  then show ?thesis by (simp only: handled_option [OF i4 handled_callbacks(3) [OF i4 assms(2)]])
qed

lemma lit_line_runs:
  assumes "can_inv E lit s" and "can_world E lit" and "l < RHSHalInterruptIdMax" and "line_on lit (nvic_calls E) (irq s) l"
  shows "handled E lit (rhs_hal_interrupt_call (can_irqs E) l s)"
proof -
  have on: "isr (isr_table (irq s) ! l) \<noteq> None" using assms(1,3,4) by (simp add: can_inv_def guarded_def)
  have "l < 6"
  proof (rule ccontr)
    assume "\<not> l < 6"
    then have "isr (isr_table (irq s) ! l) = None" using assms(1,3) by (simp add: can_inv_def others_free_def)
    with on show False by simp
  qed
  then obtain i where i: "i < RHSHalCANIdMax" and l: "l = sce_line i \<or> l = tx_line i \<or> l = rx_line i" using line_cases by blast
  have ch: "channel_ok (api E) (isr_table (irq s)) i (cans s ! i)" using assms(1) i by (simp add: can_inv_def)
  obtain f where f: "isr (isr_table (irq s) ! l) = Some f" "isr_context (isr_table (irq s) ! l) = Some i"
    and run: "handled E lit (run (can_irqs E) f (Some i) s)"
    using l on ch handled_sce [OF assms(1,2) i] handled_tx [OF assms(1,2) i] handled_rx [OF assms(1,2) i]
    by (auto simp: channel_ok_def entry_ok_def can_irqs_def)
  have "handled E lit (rbind (run (can_irqs E) f (Some i) s)
     (\<lambda>s'. Inr (s'\<lparr>irq := (irq s')\<lparr>counter_time_in_isr_total := t s'\<rparr>\<rparr>)))" for t
    using run by (auto simp: handled_def can_inv_def guarded_def line_on_def split: sum.splits)
  then show ?thesis by (simp add: rhs_hal_interrupt_call_def f Let_def can_irqs_def)
qed

lemma inv_reach:
  assumes "can_reach E lit s0 s" and "can_inv E lit s0" and "can_world E lit"
  shows "can_inv E lit s"
  using assms
proof (induction rule: can_reach.induct)
  case (op s opn s')
  then show ?case using inv_do by (auto simp: can_world_def)
next
  case (interrupt s l s')
  then show ?case using lit_line_runs [of E lit s l] by (simp add: handled_def)
qed

section \<open>A controller with two queues\<close>

text \<open>The frames a channel has sent and those waiting to be received.\<close>

locale can_bus =
  fixes A :: "'r rcan_api" and outgoing :: "'r \<Rightarrow> can_frame list" and incoming :: "'r \<Rightarrow> can_frame list"
  assumes send_law: "fst (rcan_send A g r) \<Longrightarrow> outgoing (snd (rcan_send A g r)) = outgoing r @ [g]"
    and receive_law: "incoming r = g # gs \<Longrightarrow> \<exists>r'. rcan_receive A z r = (True, g, r') \<and> incoming r' = gs"
    and payload_law: "rcan_payload A = 8"

type_synonym queue_rcan = "u32 \<times> can_frame list \<times> can_frame list"

definition queue_api :: "queue_rcan rcan_api" where
  "queue_api = \<lparr>rcan_start = (\<lambda>a baud (_, os, is). (True, (a, os, is))), rcan_stop = (\<lambda>r. r),
     rcan_send = (\<lambda>g (a, os, is). (True, (a, os @ [g], is))),
     rcan_receive = (\<lambda>z (a, os, is). case is of [] \<Rightarrow> (False, z, (a, os, is)) | g # gs \<Rightarrow> (True, g, (a, os, gs))),
     rcan_payload = 8, Instance = fst, CAN1 = 0x40006400, CAN2 = 0x40006800, ESR = (\<lambda>r. 0), MSR = (\<lambda>r. 0), TSR = (\<lambda>r. 0),
     RF0R = (\<lambda>r. 0), write_MSR = (\<lambda>v r. r), write_TSR = (\<lambda>v r. r), HAL_CAN_ActivateNotification = (\<lambda>it r. r),
     HAL_CAN_DeactivateNotification = (\<lambda>it r. r), CAN_MSR_ERRI = 4, CAN_MSR_WKUI = 8, CAN_ESR_BOFF = 4,
     CAN_TSR_ALST = (4, 0x400, 0x40000), CAN_TSR_TERR = (8, 0x800, 0x80000), CAN_TSR_RQCP = (1, 0x100, 0x10000), CAN_RF0R_FOVR0 = 16\<rparr>"

interpretation queue_driver: rcan_driver queue_api
  by unfold_locales (auto simp: queue_api_def split: list.splits)

lemma queue_receive:
  assumes "snd (snd r) = g # gs"
  shows "rcan_receive queue_api z r = (True, g, (fst r, fst (snd r), gs))"
  using assms by (cases r) (simp add: queue_api_def)

interpretation queue_bus: can_bus queue_api "\<lambda>r. fst (snd r)" "\<lambda>r. snd (snd r)"
  by (unfold_locales, simp add: queue_api_def case_prod_beta, rule exI, rule conjI, erule queue_receive, simp, simp add: queue_api_def)

text \<open>An application whose receive callback takes the frame and counts the calls.\<close>

definition idle_env :: "(string, queue_rcan, int set, nat) can_env" where
  "idle_env = \<lparr>api = queue_api, nvic_calls = set_nvic, cpu_cycles = (\<lambda>s. 0),
     run_rx = (\<lambda>cb num c s. Inr s), run_tx = (\<lambda>cb c s. Inr s), run_sce = (\<lambda>cb num ev c s. Inr s)\<rparr>"

definition reading_env :: "(string, queue_rcan, int set, nat) can_env" where
  "reading_env = idle_env\<lparr>run_rx := (\<lambda>cb num c s.
     rbind (rhs_hal_can_rx idle_env (unat num) (empty_frame 8) s) (\<lambda>(_, _, s'). Inr (s'\<lparr>world := Suc (world s')\<rparr>)))\<rparr>"

lemma reading_rx: "rhs_hal_can_rx reading_env = rhs_hal_can_rx idle_env"
  by (intro ext) (simp add: rhs_hal_can_rx_def reading_env_def)

lemma reading_calls:
  assumes "run_rx reading_env cb num c s = Inr s'"
  shows "can_calls reading_env s s'"
proof -
  obtain b f s1 where 1: "rhs_hal_can_rx idle_env (unat num) (empty_frame 8) s = Inr (b, f, s1)" "s' = s1\<lparr>world := Suc (world s1)\<rparr>"
    using assms by (auto simp: reading_env_def rbind_eq_Inr)
  have "can_do reading_env (OpRx (unat num) (empty_frame 8)) s = Inr s1" using 1(1) by (simp add: reading_rx)
  then have "can_calls reading_env s s1" by (rule can_calls.call [OF can_calls.none])
  moreover have "can_do reading_env (OpWorld (Suc (world s1))) s1 = Inr s'" using 1(2) by simp
  ultimately show ?thesis by (rule can_calls.call)
qed

lemma reading_callbacks: "callbacks_call reading_env"
proof -
  have "run_tx reading_env = (\<lambda>cb c s. Inr s)" "run_sce reading_env = (\<lambda>cb num ev c s. Inr s)"
    by (simp_all add: reading_env_def idle_env_def)
  then show ?thesis unfolding callbacks_call_def using reading_calls can_calls.none by auto
qed

lemma reading_parts: "nvic_calls reading_env = set_nvic" "api reading_env = queue_api"
  by (simp_all add: reading_env_def idle_env_def)

section \<open>Properties\<close>



text \<open>A sent frame arrives as it was: when the frame a node hands to the library comes out of the library of another, the
  receiver gets the identifier, length, type and the first \<open>len\<close> payload bytes of the sender, and the rest of its buffer is left.\<close>

theorem can_frame_roundtrip:
  assumes "can_bus (api E) outgoing incoming" and "length (payload f) = 8" and "length (payload buf) = 8"
    and "rhs_hal_can_tx E i f s = Inr (True, s1)"
    and "j < length (cans s2)" and "enabled (cans s2 ! j)"
    and "Instance (api E) (rcan (cans s2 ! j)) \<in> {CAN1 (api E), CAN2 (api E)}"
    and "incoming (rcan (cans s2 ! j)) = last (outgoing (rcan (cans s1 ! i))) # gs"
  shows "unat (len f) \<le> 8 \<and> (\<exists>s4. rhs_hal_can_rx E j buf s2 = Inr (True,
     f\<lparr>payload := take (unat (len f)) (payload f) @ drop (unat (len f)) (payload buf)\<rparr>, s4) \<and>
     incoming (rcan (cans s4 ! j)) = gs)"
proof -
  obtain s3 where s3: "check_rec (api E) j s2 = Inr s3" using check_rec_returns [OF assms(7)] .
  note kept = check_keeps [OF disjI2, OF s3]
  note eight = can_bus.payload_law [OF assms(1)]
  obtain s0 p where i: "i < length (cans s)" and s0: "check_tec (api E) i s = Inr s0"
    and p: "copy_payload (replicate 8 0) (payload f) (unat (len f)) = Inr p"
    using assms(4) by (auto simp: rhs_hal_can_tx_def rbind_eq_Inr aget_def empty_frame_def eight split: if_splits)
  let ?g = "\<lparr>frame_id = frame_id f, len = len f, type_of = type_of f, rtr = rtr f, payload = p\<rparr>"
  have i0: "i < length (cans s0)" using i check_keeps [OF disjI1, OF s0] by simp
  obtain sent r where snd: "rcan_send (api E) ?g (rcan (cans s0 ! i)) = (sent, r)" by fastforce
  have sent: sent "s1 = upd_can i (\<lambda>c. c\<lparr>rcan := r\<rparr>) s0"
    using assms(4) by (auto simp: rhs_hal_can_tx_def rbind_eq_Inr s0 empty_frame_def eight p snd Let_def split: if_splits)
  have out: "last (outgoing (rcan (cans s1 ! i))) = ?g"
    using can_bus.send_law [OF assms(1), of ?g "rcan (cans s0 ! i)"] snd sent i0 by simp
  have n: "unat (len f) \<le> 8" "p = take (unat (len f)) (payload f) @ replicate (8 - unat (len f)) 0"
    using p assms(2) by (auto simp: copy_payload_def drop_replicate split: if_splits)
  obtain r' where r': "rcan_receive (api E) (empty_frame 8) (rcan (cans s3 ! j)) = (True, ?g, r')" "incoming r' = gs"
    using can_bus.receive_law [OF assms(1), of "rcan (cans s3 ! j)" ?g gs] assms(8) out kept by auto
  have c: "copy_payload (payload buf) p (unat (len f)) = Inr (take (unat (len f)) (payload f) @ drop (unat (len f)) (payload buf))"
    using n assms(2,3) by (simp add: copy_payload_def)
  show ?thesis
    using n(1) r' assms(5,6) kept(1) c by (cases f) (simp add: rhs_hal_can_rx_def s3 eight Let_def)
qed

definition demo_frame :: can_frame where
  "demo_frame = \<lparr>frame_id = 0x123, len = 2, type_of = FrameTypeStdID, rtr = False, payload = [1, 2, 3, 4, 5, 6, 7, 8]\<rparr>"

definition demo_channel :: "can_frame list \<Rightarrow> (string, queue_rcan) can" where
  "demo_channel is = (zero_can (0x40006400, [], is))\<lparr>enabled := True\<rparr>"

definition demo_sys :: "can_frame list \<Rightarrow> (string, queue_rcan, int set, nat) can_sys" where
  "demo_sys is = (can_boot (0, [], []) {} 0)\<lparr>cans := replicate 2 (demo_channel is)\<rparr>"

lemma replicates: "replicate 8 x = [x, x, x, x, x, x, x, x]" "replicate 2 x = [x, x]" "replicate 6 x = [x, x, x, x, x, x]"
  by (simp_all add: eval_nat_numeral)

lemma can_frame_roundtrip_witness:
  "\<exists>s4. rhs_hal_can_rx idle_env 1 (empty_frame 8) (demo_sys [demo_frame\<lparr>payload := [1, 2, 0, 0, 0, 0, 0, 0]\<rparr>]) =
     Inr (True, demo_frame\<lparr>payload := [1, 2, 0, 0, 0, 0, 0, 0]\<rparr>, s4)"
proof -
  let ?s = "demo_sys []" and ?f = "demo_frame\<lparr>payload := [1, 2, 0, 0, 0, 0, 0, 0]\<rparr>"
  have bus: "can_bus (api idle_env) (\<lambda>r. fst (snd r)) (\<lambda>r. snd (snd r))"
    using queue_bus.can_bus_axioms by (simp add: idle_env_def)
  obtain s1 where s1: "rhs_hal_can_tx idle_env 0 demo_frame ?s = Inr (True, s1)" "last (fst (snd (rcan (cans s1 ! 0)))) = ?f"
    by (simp add: rhs_hal_can_tx_def check_tec_def demo_sys_def demo_channel_def zero_can_def idle_env_def queue_api_def tec_of_def
        copy_payload_def empty_frame_def demo_frame_def can_boot_def replicates)
  have "unat (len demo_frame) \<le> 8 \<and> (\<exists>s4. rhs_hal_can_rx idle_env 1 (empty_frame 8) (demo_sys [?f]) = Inr (True,
     demo_frame\<lparr>payload := take (unat (len demo_frame)) (payload demo_frame) @ drop (unat (len demo_frame)) (payload (empty_frame 8))\<rparr>, s4) \<and>
     snd (snd (rcan (cans s4 ! 1))) = [])"
    by (rule can_frame_roundtrip [OF bus _ _ s1(1)])
      (simp_all add: s1(2), simp_all add: demo_frame_def demo_sys_def demo_channel_def zero_can_def empty_frame_def idle_env_def queue_api_def replicates)
  then show ?thesis by (auto simp: demo_frame_def empty_frame_def replicates)
qed

definition lec_message :: "u32 \<Rightarrow> can_message option" where
  "lec_message code = (if code = 1 then Some StuffError else if code = 2 then Some FormError else if code = 3 then Some AcknowledgmentError
     else if code = 4 then Some BitRecessiveError else if code = 5 then Some BitDominantError else if code = 6 then Some CRCError
     else if code = 7 then Some SetBySoftware else None)"

text \<open>The last error code of the controller has three bits (bxCAN: 0 none, 1 stuff, 2 form, 3 acknowledgment, 4 bit
  recessive, 5 bit dominant, 6 CRC, 7 set by software), and print_ecr masks two of them: an error is reported as what it is exactly
  when its code is below 4, so bit and CRC errors never are.\<close>

theorem can_error_code_truncated:
  assumes "code = drop_bit 4 ecr AND 7" and "lec_message code = Some m"
  shows "m \<in> set (ecr_messages ecr) \<longleftrightarrow> code < 4"
proof -
  have "drop_bit 4 ecr AND 3 = code AND 3" using assms(1) by (simp add: and.assoc)
  then have lec: "lec_of ecr = ucast (code AND 3)" by (simp add: lec_of_def)
  have "code = 1 \<or> code = 2 \<or> code = 3 \<or> code = 4 \<or> code = 5 \<or> code = 6 \<or> code = 7"
    using assms(2) by (auto simp: lec_message_def split: if_splits)
  then show ?thesis using assms(2) by (elim disjE) (auto simp: lec_message_def ecr_messages_def lec Let_def)
qed

lemma can_error_code_truncated_witness: "BitRecessiveError \<notin> set (ecr_messages 0x00000040)"
  using can_error_code_truncated [of "4 :: u32" "0x40" BitRecessiveError] by (simp add: lec_message_def)

end
