(* ===== verification/Can_Filter.thy ===== *)
theory Can_Filter
  imports Heap_List
begin

text \<open>
  The list of the identifiers whose frames the CANopen service prints
  (applications/services/can_open/can_open_cli.c, read by the receive interrupt in
  can_open_srv_i.c): a linked list on the heap, with additions at the front. The lemmas
  show that the four commands and the look-up implement the operations on a list.
\<close>

record filter_node =
  filter_id :: u16
  next_filter :: "nat option"

text \<open>The state: \<open>filter_list\<close> and the heap.\<close>

type_synonym filters = "nat option \<times> filter_node heap"

datatype filter_note = NoMemory | Added u16 | Removed u16 | NotFound u16 | Cleared | Listing | Listed u16

definition add_filter_id :: "(filter_node heap \<Rightarrow> nat option) \<Rightarrow> u16 \<Rightarrow> filters \<Rightarrow> filter_note list \<times> filters" where
  "add_filter_id alloc i fs =
     (case fs of (p, h) \<Rightarrow> case alloc h of
        None \<Rightarrow> ([NoMemory], (p, h))
      | Some a \<Rightarrow> ([Added i], (Some a, h(a := Some \<lparr>filter_id = i, next_filter = p\<rparr>))))"

text \<open>
  The walk of \<open>remove_filter_id\<close>. \<open>current\<close> is the address of a link: \<open>None\<close> for
  \<open>filter_list\<close>, else the node whose \<open>next\<close> it is.
\<close>

definition read_link :: "nat option \<Rightarrow> filters \<Rightarrow> nat option res" where
  "read_link current fs =
     (case current of None \<Rightarrow> Inr (fst fs) | Some b \<Rightarrow> rbind (hget (snd fs) b) (\<lambda>n. Inr (next_filter n)))"

definition write_link :: "nat option \<Rightarrow> nat option \<Rightarrow> filters \<Rightarrow> filters res" where
  "write_link current q fs =
     (case current of
        None \<Rightarrow> Inr (q, snd fs)
      | Some b \<Rightarrow> rbind (hget (snd fs) b) (\<lambda>n. rbind (hset (snd fs) b (n\<lparr>next_filter := q\<rparr>)) (\<lambda>h. Inr (fst fs, h))))"

fun remove_filter_loop :: "nat \<Rightarrow> u16 \<Rightarrow> nat option \<Rightarrow> filters \<Rightarrow> (filter_note list \<times> filters) res" where
  "remove_filter_loop 0 i current fs = Inl Blocked"
| "remove_filter_loop (Suc k) i current fs =
     rbind (read_link current fs) (\<lambda>q. case q of
       None \<Rightarrow> Inr ([NotFound i], fs)
     | Some a \<Rightarrow>
         rbind (hget (snd fs) a) (\<lambda>n.
         if filter_id n = i then
           rbind (write_link current (next_filter n) fs) (\<lambda>fs'.
           rbind (hfree (snd fs') a) (\<lambda>h.
           Inr ([Removed i], (fst fs', h))))
         else remove_filter_loop k i (Some a) fs))"

definition remove_filter_id :: "nat \<Rightarrow> u16 \<Rightarrow> filters \<Rightarrow> (filter_note list \<times> filters) res" where
  "remove_filter_id k i fs = remove_filter_loop k i None fs"

fun clear_filter_list :: "nat \<Rightarrow> filters \<Rightarrow> (filter_note list \<times> filters) res" where
  "clear_filter_list k (None, h) = Inr ([Cleared], (None, h))"
| "clear_filter_list 0 (Some a, h) = Inl Blocked"
| "clear_filter_list (Suc k) (Some a, h) =
     rbind (hget h a) (\<lambda>n. rbind (hfree h a) (\<lambda>h'. clear_filter_list k (next_filter n, h')))"

fun list_filter_loop :: "nat \<Rightarrow> nat option \<Rightarrow> filter_node heap \<Rightarrow> filter_note list res" where
  "list_filter_loop k None h = Inr []"
| "list_filter_loop 0 (Some a) h = Inl Blocked"
| "list_filter_loop (Suc k) (Some a) h =
     rbind (hget h a) (\<lambda>n. rbind (list_filter_loop k (next_filter n) h) (\<lambda>ns. Inr (Listed (filter_id n) # ns)))"

definition list_filter_ids :: "nat \<Rightarrow> filters \<Rightarrow> filter_note list res" where
  "list_filter_ids k fs = rbind (list_filter_loop k (fst fs) (snd fs)) (\<lambda>ns. Inr (Listing # ns))"

text \<open>The look-up of the receive interrupt: whether a frame's identifier is in the list.\<close>

fun frame_filter_loop :: "nat \<Rightarrow> u32 \<Rightarrow> nat option \<Rightarrow> filter_node heap \<Rightarrow> bool res" where
  "frame_filter_loop k i None h = Inr False"
| "frame_filter_loop 0 i (Some a) h = Inl Blocked"
| "frame_filter_loop (Suc k) i (Some a) h =
     rbind (hget h a) (\<lambda>n. if i = ucast (filter_id n) then Inr True else frame_filter_loop k i (next_filter n) h)"

section \<open>The list of identifiers\<close>

definition filters_are :: "filters \<Rightarrow> nat list \<Rightarrow> u16 list \<Rightarrow> bool" where
  "filters_are fs as xs \<longleftrightarrow>
     chain next_filter (snd fs) (fst fs) as \<and> dom (snd fs) = set as \<and>
     map (\<lambda>a. map_option filter_id (snd fs a)) as = map Some xs"

lemma filters_are_None: "filters_are (None, h) as xs \<longleftrightarrow> as = [] \<and> xs = [] \<and> h = Map.empty"
  by (auto simp: filters_are_def)

lemma ids_other:
  "a \<notin> set as \<Longrightarrow> map (\<lambda>b. map_option filter_id ((h(a := v)) b)) as = map (\<lambda>b. map_option filter_id (h b)) as"
  by (intro map_cong) auto

lemma add_filter_are:
  assumes "filters_are fs as xs" and "alloc (snd fs) = Some a" and "snd fs a = None"
  shows "\<exists>fs'. add_filter_id alloc i fs = ([Added i], fs') \<and> filters_are fs' (a # as) (i # xs)"
proof -
  have "a \<notin> set as" using assms by (auto simp: filters_are_def)
  moreover have "chain next_filter ((snd fs)(a := Some \<lparr>filter_id = i, next_filter = fst fs\<rparr>)) (Some a) (a # as)"
    using assms by (intro chain_insert) (auto simp: filters_are_def)
  moreover have "map_option filter_id (((snd fs)(a := Some \<lparr>filter_id = i, next_filter = fst fs\<rparr>)) a) = Some i" by simp
  ultimately show ?thesis
    using assms by (simp add: add_filter_id_def filters_are_def case_prod_beta ids_other del: chain.simps map_eq_conv fun_upd_apply)
qed

lemma chain_head: "chain nxt h p as \<Longrightarrow> p = (case as of [] \<Rightarrow> None | a # _ \<Rightarrow> Some a)"
  by (cases as) auto

text \<open>The walk at a link: the nodes before it are \<open>ps\<close>, those after it \<open>as\<close>.\<close>

lemma remove_loop_are:
  assumes "filters_are fs (ps @ as) (us @ xs)" and "length us = length ps" and "i \<notin> set us"
    and "current = (if ps = [] then None else Some (last ps))" and "length as < k"
  shows "\<exists>fs' bs. remove_filter_loop k i current fs = Inr ([if i \<in> set xs then Removed i else NotFound i], fs') \<and>
    filters_are fs' bs (us @ remove1 i xs)"
  using assms
proof (induction k arbitrary: ps as us xs current)
  case (Suc k)
  obtain p h where fs: "fs = (p, h)" by (cases fs)
  have ch: "chain next_filter h p (ps @ as)" and dom: "dom h = set (ps @ as)"
    and ids: "map (\<lambda>a. map_option filter_id (h a)) ps = map Some us" "map (\<lambda>a. map_option filter_id (h a)) as = map Some xs"
    using Suc.prems(1,2) fs by (simp_all add: filters_are_def append_eq_append_conv)
  have rest: "read_link current fs = Inr (case as of [] \<Rightarrow> None | a # _ \<Rightarrow> Some a)"
  proof (cases ps rule: rev_cases)
    case Nil
    then show ?thesis using chain_head [OF ch] Suc.prems(4) fs by (simp add: read_link_def)
  next
    case (snoc qs b)
    then obtain d where "h b = Some d" "chain next_filter h (next_filter d) as"
      using chain_suffix [of next_filter h p qs b as] ch by (auto split: option.splits)
    then show ?thesis using chain_head Suc.prems(4) fs snoc by (simp add: read_link_def)
  qed
  show ?case
  proof (cases as)
    case Nil
    then have "xs = []" using ids by simp
    then show ?thesis using Suc.prems(1) rest Nil by auto
  next
    case (Cons a as')
    then obtain x xs' n where x: "xs = x # xs'" "h a = Some n" "filter_id n = x" using ids by (cases xs) auto
    show ?thesis
    proof (cases "x = i")
      case False
      have "\<exists>fs' bs. remove_filter_loop k i (Some a) fs = Inr ([if i \<in> set xs' then Removed i else NotFound i], fs') \<and>
          filters_are fs' bs ((us @ [x]) @ remove1 i xs')"
        by (rule Suc.IH [where ps = "ps @ [a]" and as = as']) (use Suc.prems False x Cons in auto)
      then show ?thesis using False x Cons rest fs by auto
    next
      case True
      have dist: "distinct (ps @ a # as')" using chain_distinct ch Cons by blast
      have "\<exists>p' h'. rbind (write_link current (next_filter n) fs) (\<lambda>fs'. rbind (hfree (snd fs') a) (\<lambda>h'. Inr ([Removed i], fst fs', h'))) =
            Inr ([Removed i], p', h') \<and> chain next_filter h' p' (ps @ as') \<and> dom h' = set (ps @ as') \<and>
            (\<forall>c\<in>set (ps @ as'). map_option filter_id (h' c) = map_option filter_id (h c))"
      proof (cases ps rule: rev_cases)
        case Nil
        then have "chain next_filter (h(a := None)) (next_filter n) as'"
          using chain_unlink_head [of next_filter h p a as' n] ch Cons x by simp
        then show ?thesis using Nil Suc.prems(4) fs x dom dist Cons by (auto simp: write_link_def)
      next
        case (snoc qs b)
        then obtain d where d: "h b = Some d" using dom by fastforce
        have "chain next_filter (h(b := Some (d\<lparr>next_filter := next_filter n\<rparr>), a := None)) p (qs @ b # as')"
          by (rule chain_unlink [where m = d and n = n]) (use d ch snoc Cons x in simp_all)
        then show ?thesis using snoc Suc.prems(4) fs x d dom dist Cons
          by (intro exI [of _ p] exI [of _ "h(b := Some (d\<lparr>next_filter := next_filter n\<rparr>), a := None)"]) (auto simp: write_link_def)
      qed
      then obtain p' h' where *: "rbind (write_link current (next_filter n) fs) (\<lambda>fs'. rbind (hfree (snd fs') a) (\<lambda>h'. Inr ([Removed i], fst fs', h'))) =
            Inr ([Removed i], p', h')" "chain next_filter h' p' (ps @ as')" "dom h' = set (ps @ as')"
            "\<forall>c\<in>set (ps @ as'). map_option filter_id (h' c) = map_option filter_id (h c)" by blast
      have "map (\<lambda>c. map_option filter_id (h' c)) (ps @ as') = map (\<lambda>c. map_option filter_id (h c)) (ps @ as')"
        by (intro map_cong refl) (use *(4) in blast)
      also have "\<dots> = map Some (us @ xs')" using ids x Cons by simp
      finally have "filters_are (p', h') (ps @ as') (us @ xs')" using *(2,3) by (simp add: filters_are_def del: map_append)
      then show ?thesis using *(1) rest Cons x True fs by auto
    qed
  qed
qed simp

lemma remove_filter_are:
  assumes "filters_are fs as xs" and "length as < k"
  shows "\<exists>fs' bs. remove_filter_id k i fs = Inr ([if i \<in> set xs then Removed i else NotFound i], fs') \<and>
    filters_are fs' bs (remove1 i xs)"
  using remove_loop_are [of fs "[]" as "[]" xs i None k] assms by (simp add: remove_filter_id_def)

lemma clear_filter_are:
  assumes "filters_are (p, h) as xs" and "length as \<le> k"
  shows "clear_filter_list k (p, h) = Inr ([Cleared], None, Map.empty)"
  using assms
proof (induction as arbitrary: k p h xs)
  case (Cons a as)
  then obtain n x xs' k' where n: "p = Some a" "h a = Some n" "xs = x # xs'" "k = Suc k'"
    by (cases k; cases xs) (auto simp: filters_are_def split: option.splits)
  have ch: "chain next_filter h p (a # as)" using Cons.prems(1) by (simp add: filters_are_def)
  have "filters_are (next_filter n, h(a := None)) as xs'"
    using chain_unlink_head [OF ch n(2)] chain_distinct [OF ch] Cons.prems(1) n
    by (auto simp: filters_are_def ids_other simp del: map_eq_conv fun_upd_apply)
  then show ?case using Cons.IH [of "next_filter n" "h(a := None)" xs' k'] Cons.prems(2) n by (simp del: fun_upd_apply)
qed (auto simp: filters_are_def)

lemma list_filter_are:
  assumes "chain next_filter h p as" and "map (\<lambda>a. map_option filter_id (h a)) as = map Some xs" and "length as \<le> k"
  shows "list_filter_loop k p h = Inr (map Listed xs)"
    and "frame_filter_loop k i p h = Inr (i \<in> ucast ` set xs)"
  using assms
proof (induction as arbitrary: k p xs)
  case (Cons a as)
  {
    case 1
    then obtain n xs' k' where "p = Some a" "h a = Some n" "xs = filter_id n # xs'" "k = Suc k'"
        "chain next_filter h (next_filter n) as" "map (\<lambda>a. map_option filter_id (h a)) as = map Some xs'"
      by (cases k; cases xs) (auto split: option.splits)
    then show ?case using Cons.IH(1) 1(3) by simp
  next
    case 2
    then obtain n xs' k' where "p = Some a" "h a = Some n" "xs = filter_id n # xs'" "k = Suc k'"
        "chain next_filter h (next_filter n) as" "map (\<lambda>a. map_option filter_id (h a)) as = map Some xs'"
      by (cases k; cases xs) (auto split: option.splits)
    then show ?case using Cons.IH(2) 2(3) by auto
  }
qed auto

section \<open>Commands\<close>

datatype filter_cmd = AddFilter u16 | RemoveFilter u16 | ClearFilters | ListFilters | FrameSeen u32

datatype filter_reply = Notes "filter_note list" | Shown bool

fun filter_do :: "(filter_node heap \<Rightarrow> nat option) \<Rightarrow> nat \<Rightarrow> filter_cmd \<Rightarrow> filters \<Rightarrow> (filter_reply \<times> filters) res" where
  "filter_do alloc k (AddFilter i) fs = (case add_filter_id alloc i fs of (ns, fs') \<Rightarrow> Inr (Notes ns, fs'))"
| "filter_do alloc k (RemoveFilter i) fs = rbind (remove_filter_id k i fs) (\<lambda>(ns, fs'). Inr (Notes ns, fs'))"
| "filter_do alloc k ClearFilters fs = rbind (clear_filter_list k fs) (\<lambda>(ns, fs'). Inr (Notes ns, fs'))"
| "filter_do alloc k ListFilters fs = rbind (list_filter_ids k fs) (\<lambda>ns. Inr (Notes ns, fs))"
| "filter_do alloc k (FrameSeen i) fs = rbind (frame_filter_loop k i (fst fs) (snd fs)) (\<lambda>b. Inr (Shown b, fs))"

fun filter_run :: "(filter_node heap \<Rightarrow> nat option) \<Rightarrow> nat \<Rightarrow> filter_cmd list \<Rightarrow> filters \<Rightarrow> (filter_reply list \<times> filters) res" where
  "filter_run alloc k [] fs = Inr ([], fs)"
| "filter_run alloc k (c # cs) fs =
     rbind (filter_do alloc k c fs) (\<lambda>(r, fs'). rbind (filter_run alloc k cs fs') (\<lambda>(rs, fs''). Inr (r # rs, fs'')))"

text \<open>The commands on a list of identifiers, the newest first.\<close>

fun ids_do :: "filter_cmd \<Rightarrow> u16 list \<Rightarrow> filter_reply \<times> u16 list" where
  "ids_do (AddFilter i) xs = (Notes [Added i], i # xs)"
| "ids_do (RemoveFilter i) xs = (Notes [if i \<in> set xs then Removed i else NotFound i], remove1 i xs)"
| "ids_do ClearFilters xs = (Notes [Cleared], [])"
| "ids_do ListFilters xs = (Notes (Listing # map Listed xs), xs)"
| "ids_do (FrameSeen i) xs = (Shown (i \<in> ucast ` set xs), xs)"

fun ids_run :: "filter_cmd list \<Rightarrow> u16 list \<Rightarrow> filter_reply list \<times> u16 list" where
  "ids_run [] xs = ([], xs)"
| "ids_run (c # cs) xs = (let (r, xs') = ids_do c xs; (rs, xs'') = ids_run cs xs' in (r # rs, xs''))"

lemma filters_are_card:
  assumes "filters_are fs as xs"
  shows "length as = length xs" and "finite (dom (snd fs))" and "card (dom (snd fs)) = length xs"
proof -
  show len: "length as = length xs" using assms by (auto simp: filters_are_def dest: map_eq_imp_length_eq)
  have "distinct as" using assms chain_distinct by (auto simp: filters_are_def)
  then show "finite (dom (snd fs))" "card (dom (snd fs)) = length xs"
    using assms len by (simp_all add: filters_are_def distinct_card)
qed

lemma filter_do_refines:
  assumes "allocator alloc cap" and "filters_are fs as xs" and "length xs < cap" and "length xs < k"
  shows "\<exists>fs' bs. filter_do alloc k c fs = Inr (fst (ids_do c xs), fs') \<and> filters_are fs' bs (snd (ids_do c xs))"
proof (cases c)
  case (AddFilter i)
  obtain a where a: "alloc (snd fs) = Some a" using allocator.room [OF assms(1)] filters_are_card(2,3) [OF assms(2)] assms(3) by fastforce
  show ?thesis using add_filter_are [where alloc = alloc, OF assms(2) a allocator.fresh [OF assms(1) a], of i] AddFilter by auto
next
  case (RemoveFilter i)
  show ?thesis using remove_filter_are [OF assms(2), of k i] assms(4) filters_are_card(1) [OF assms(2)] RemoveFilter by auto
next
  case ClearFilters
  show ?thesis using clear_filter_are [of "fst fs" "snd fs" as xs k] assms(2-4) filters_are_card(1) [OF assms(2)] ClearFilters
    by (auto simp: filters_are_None)
next
  case ListFilters
  have "list_filter_loop k (fst fs) (snd fs) = Inr (map Listed xs)"
    by (rule list_filter_are) (use assms(2-4) filters_are_card(1) [OF assms(2)] in \<open>auto simp: filters_are_def\<close>)
  then show ?thesis using ListFilters assms(2) by (auto simp: list_filter_ids_def)
next
  case (FrameSeen i)
  have "frame_filter_loop k i (fst fs) (snd fs) = Inr (i \<in> ucast ` set xs)"
    by (rule list_filter_are) (use assms(2-4) filters_are_card(1) [OF assms(2)] in \<open>auto simp: filters_are_def\<close>)
  then show ?thesis using FrameSeen assms(2) by auto
qed

lemma ids_do_length: "length (snd (ids_do c xs)) \<le> Suc (length xs)"
  by (cases c) (auto simp: length_remove1)

lemma filter_run_refines:
  assumes "allocator alloc cap" and "filters_are fs as xs" and "length xs + length cs \<le> cap" and "length xs + length cs \<le> k"
  shows "\<exists>fs' bs. filter_run alloc k cs fs = Inr (fst (ids_run cs xs), fs') \<and> filters_are fs' bs (snd (ids_run cs xs))"
  using assms
proof (induction cs arbitrary: fs as xs)
  case (Cons c cs)
  obtain fs1 bs where 1: "filter_do alloc k c fs = Inr (fst (ids_do c xs), fs1)" "filters_are fs1 bs (snd (ids_do c xs))"
    using filter_do_refines [OF Cons.prems(1,2), of k c] Cons.prems(3,4) by auto
  obtain fs2 ds where 2: "filter_run alloc k cs fs1 = Inr (fst (ids_run cs (snd (ids_do c xs))), fs2)"
      "filters_are fs2 ds (snd (ids_run cs (snd (ids_do c xs))))"
    using Cons.IH [OF Cons.prems(1) 1(2)] Cons.prems(3,4) ids_do_length [of c xs] by auto
  have "ids_run (c # cs) xs = (fst (ids_do c xs) # fst (ids_run cs (snd (ids_do c xs))), snd (ids_run cs (snd (ids_do c xs))))"
    by (simp add: case_prod_beta Let_def)
  moreover have "filter_run alloc k (c # cs) fs = Inr (fst (ids_do c xs) # fst (ids_run cs (snd (ids_do c xs))), fs2)"
    using 1(1) 2(1) by simp
  ultimately show ?case using 2(2) by (metis fst_conv snd_conv)
qed auto

text \<open>Starting from an empty list, any sequence of the filter commands and of frames looked up by the
  receive interrupt returns what the same sequence does to a list of identifiers kept newest first
  (removing takes out the first occurrence, a frame is shown exactly when its identifier is in the list),
  no command touches freed memory, and at the end the nodes allocated are exactly those of the list. The
  heap has room for as many nodes as there are commands, and the loop bound is that number.
\<close>

theorem filter_list_refines:
  fixes alloc :: "filter_node heap \<Rightarrow> nat option"
  assumes "allocator alloc (length cs)"
  shows "\<exists>fs bs. filter_run alloc (length cs) cs (None, Map.empty) = Inr (fst (ids_run cs []), fs) \<and>
    filters_are fs bs (snd (ids_run cs []))"
  using filter_run_refines [OF assms, of "(None, Map.empty)" "[]" "[]" cs "length cs"] by (simp add: filters_are_None)

theorem filter_list_refines_witness:
  "\<exists>fs bs. filter_run (first_free 5) 5 [AddFilter 0x181, AddFilter 0x281, FrameSeen 0x181, RemoveFilter 0x181, FrameSeen 0x181]
     (None, Map.empty) = Inr ([Notes [Added 0x181], Notes [Added 0x281], Shown True, Notes [Removed 0x181], Shown False], fs) \<and>
   filters_are fs bs [0x281]"
proof -
  define cs where "cs = [AddFilter 0x181, AddFilter 0x281, FrameSeen 0x181, RemoveFilter 0x181, FrameSeen 0x181]"
  have len: "length cs = 5" by (simp add: cs_def)
  have ids: "ids_run cs [] = ([Notes [Added 0x181], Notes [Added 0x281], Shown True, Notes [Removed 0x181], Shown False], [0x281])"
    by (simp add: cs_def Let_def)
  have "allocator (first_free 5 :: filter_node heap \<Rightarrow> nat option) (length cs)"
    unfolding len by (rule first.allocator_axioms)
  from filter_list_refines [OF this] show ?thesis unfolding len ids fst_conv snd_conv unfolding cs_def .
qed

end
