(* ===== verification/Can_Open.thy ===== *)
theory Can_Open
  imports Can Can_Filter Message_Queue Event_Flag Mutex
begin

text \<open>
  The CANopen service (applications/services/can_open/can_open_srv.c and can_open_srv_i.c):
  the object \<open>CanOpenApp\<close>, its interrupt callbacks on the CAN driver, \<open>canSend\<close>, the requests
  to other nodes, and the loop of the service thread as a machine whose steps interrupts and
  other tasks interleave. The application is the world of the CAN driver's state, so the
  service calls the driver's definitions. The CANopen stack is not part of the repository:
  its objects are named by numbers, and its calls are parameters that return the sequence of
  their own calls to \<open>canSend\<close> and to the request callback. The log has the lines printed
  and the calls of the user's callback.
\<close>

section \<open>Data\<close>

definition CanOpenAppEventTypeRX :: u32 where "CanOpenAppEventTypeRX = 1"
definition CanOpenAppEventTypeTX :: u32 where "CanOpenAppEventTypeTX = 2"
definition CanOpenAppEventTypePDO :: u32 where "CanOpenAppEventTypePDO = 4"
definition EVENT_FLAG_SDO :: u32 where "EVENT_FLAG_SDO = 1"
definition MAX_OD :: nat where "MAX_OD = 3"

lemmas co_flags = CanOpenAppEventTypeRX_def CanOpenAppEventTypeTX_def CanOpenAppEventTypePDO_def EVENT_FLAG_SDO_def

text \<open>The stack's message.\<close>

record co_message =
  cob_id :: u32
  msg_rtr :: bool
  msg_len :: u8
  msg_bytes :: "u8 list"

record app_message =
  od :: "nat option"
  can_id :: nat
  message :: co_message

datatype sdo_state = SDO_ABORTED_INTERNAL | SDO_ABORTED_RCV | SDO_OTHER

record sdo_transfer =
  state_of :: sdo_state
  sdo_index :: u16
  subIndex :: u8
  count_of :: u32
  abortCode :: u32
  sdo_data :: "u8 list"

datatype 'k co_note = Seen nat can_frame | NodeStopped nat | SdoResponse u8 u16 u8 u32
  | SdoAnswer 'k nat u8 sdo_transfer | SdoError int u8 u16 u8

record ('st, 't, 'k) co_app =
  srv_event :: event_group
  counter_od :: u8
  handler :: "(nat option \<times> nat) list"
  rx_queue :: "app_message queue_obj"
  tx_queue :: "app_message queue_obj"
  sdo_mutex :: "'t mutex_obj"
  sdo_event :: event_group
  sdo_callback :: "'k option"
  stack :: 'st
  filters_of :: filters
  co_log :: "'k co_note list"

section \<open>The stack's calls\<close>

text \<open>
  A call of the stack ends with its result and the stack's new state, after the calls it makes
  to \<open>canSend\<close>, which all return 0, and to the callback of a request.
\<close>

datatype ('st, 'a) co_call = Return 'a 'st
  | Send "nat option" co_message "('st, 'a) co_call"
  | SdoDone nat u8 'st "'st \<Rightarrow> ('st, 'a) co_call"

datatype node_state = Initialisation | Stopped

text \<open>
  \<open>message_size\<close> is the size of the data array of a message and \<open>to_cob\<close> the conversion to its
  identifier. \<open>getSDOlineToClose\<close> returns \<open>None\<close> where it leaves the line unset. A handle of the
  driver is named by the number of its channel.
\<close>

record 'st co_stack =
  message_size :: nat
  to_cob :: "u32 \<Rightarrow> u32"
  canDispatch :: "nat \<Rightarrow> co_message \<Rightarrow> 'st \<Rightarrow> ('st, unit) co_call"
  sendPDOevent :: "nat \<Rightarrow> 'st \<Rightarrow> ('st, unit) co_call"
  setNodeId :: "nat \<Rightarrow> u8 \<Rightarrow> 'st \<Rightarrow> 'st"
  setState :: "nat \<Rightarrow> node_state \<Rightarrow> 'st \<Rightarrow> ('st, unit) co_call"
  canHandle :: "nat \<Rightarrow> 'st \<Rightarrow> nat option"
  set_canHandle :: "nat \<Rightarrow> nat option \<Rightarrow> 'st \<Rightarrow> 'st"
  GetSDOClientFromNodeId :: "nat \<Rightarrow> u8 \<Rightarrow> 'st \<Rightarrow> u8"
  getSDOlineToClose :: "nat \<Rightarrow> u8 \<Rightarrow> 'st \<Rightarrow> u8 option"
  transfers :: "nat \<Rightarrow> u8 \<Rightarrow> 'st \<Rightarrow> sdo_transfer"
  closeSDOtransfer :: "nat \<Rightarrow> u8 \<Rightarrow> 'st \<Rightarrow> 'st"
  resetSDO :: "nat \<Rightarrow> 'st \<Rightarrow> 'st"
  readNetworkDictCallback :: "nat \<Rightarrow> u8 \<Rightarrow> u16 \<Rightarrow> u8 \<Rightarrow> 'st \<Rightarrow> ('st, int) co_call"
  writeNetworkDictCallBack :: "nat \<Rightarrow> u8 \<Rightarrow> u16 \<Rightarrow> u8 \<Rightarrow> u8 list \<Rightarrow> 'st \<Rightarrow> ('st, int) co_call"
  setODentry :: "nat \<Rightarrow> u16 \<Rightarrow> u8 \<Rightarrow> u8 list \<Rightarrow> 'st \<Rightarrow> ('st, u32) co_call"
  getODentry :: "nat \<Rightarrow> u16 \<Rightarrow> u8 \<Rightarrow> 'st \<Rightarrow> u8 list option"
  CANOPEN_SDO_STATE_OK :: int
  OD_SUCCESSFUL :: u32
  SDO_TIMEOUT_MS :: u32

text \<open>The environment: the driver's, whose callbacks are set below, and the calls of the kernel.\<close>

datatype co_cb = CanRxIrq | CanSceIrq

record ('st, 't, 'k, 'r, 'n) co_env =
  driver :: "(co_cb, 'r, 'n, ('st, 't, 'k) co_app) can_env"
  stack_calls :: "'st co_stack"
  queues :: "app_message queue_api"
  events :: event_api
  mutexes :: "'t mutex_api"
  unset_frame :: can_frame
  walk :: nat

section \<open>Calls from the stack\<close>

text \<open>The first of the \<open>k\<close> handlers from the \<open>i\<close>-th on that meets a condition.\<close>

fun handler_loop :: "(nat option \<Rightarrow> nat \<Rightarrow> bool res) \<Rightarrow> nat \<Rightarrow> nat \<Rightarrow> (nat option \<times> nat) list \<Rightarrow> (nat option \<times> nat) option res" where
  "handler_loop P 0 i hs = Inr None"
| "handler_loop P (Suc k) i hs =
     rbind (aget hs i) (\<lambda>h. rbind (P (fst h) (snd h)) (\<lambda>b. if b then Inr (Some h) else handler_loop P k (Suc i) hs))"

text \<open>What a handler's \<open>od->canHandle\<close> reads, through a pointer that may be NULL.\<close>

definition od_handle :: "'st co_stack \<Rightarrow> nat option \<Rightarrow> 'st \<Rightarrow> nat option res" where
  "od_handle S d st = (case d of None \<Rightarrow> Inl OutOfBounds | Some o' \<Rightarrow> Inr (canHandle S o' st))"

definition set_srv_event :: "('st, 't, 'k, 'r, 'n) co_env \<Rightarrow> ctx \<Rightarrow> u32 \<Rightarrow> ('st, 't, 'k) co_app \<Rightarrow> ('st, 't, 'k) co_app res" where
  "set_srv_event E c f a = rbind (rhs_event_flag_set (events E) c (srv_event a) f) (\<lambda>(_, _, g). Inr (a\<lparr>srv_event := g\<rparr>))"

definition canSend ::
  "('st, 't, 'k, 'r, 'n) co_env \<Rightarrow> ctx \<Rightarrow> nat option \<Rightarrow> co_message \<Rightarrow> ('st, 't, 'k) co_app \<Rightarrow> (int \<times> ('st, 't, 'k) co_app) res" where
  "canSend E c port m a =
     rhs_assert (port \<noteq> None)
       (rbind (handler_loop (\<lambda>d i. rbind (od_handle (stack_calls E) d (stack a)) (\<lambda>h. Inr (port = h)))
                 (unat (counter_od a)) 0 (handler a)) (\<lambda>r. case r of
          None \<Rightarrow> Inl (Crash ''CAN_PORT doesnt reg for OD'')
        | Some (d, i) \<Rightarrow>
            rbind (rhs_message_queue_put (queues E) c (tx_queue a) (Some \<lparr>od = d, can_id = i, message = m\<rparr>) 0) (\<lambda>(_, _, q).
            rbind (set_srv_event E c CanOpenAppEventTypeTX (a\<lparr>tx_queue := q\<rparr>)) (\<lambda>a'.
            Inr (0, a')))))"

definition can_open_sdo_cb ::
  "('st, 't, 'k, 'r, 'n) co_env \<Rightarrow> ctx \<Rightarrow> nat \<Rightarrow> u8 \<Rightarrow> ('st, 't, 'k) co_app \<Rightarrow> ('st, 't, 'k) co_app res" where
  "can_open_sdo_cb E c d nodeId a =
     (let S = stack_calls E; CliNbr = GetSDOClientFromNodeId S d nodeId (stack a) in
      case getSDOlineToClose S d CliNbr (stack a) of
        None \<Rightarrow> Inl OutOfBounds
      | Some line \<Rightarrow>
          let transfer = transfers S d line (stack a);
              a1 = (if state_of transfer \<noteq> SDO_ABORTED_INTERNAL \<and> state_of transfer \<noteq> SDO_ABORTED_RCV then
                      (case sdo_callback a of None \<Rightarrow> a
                       | Some cb \<Rightarrow> a\<lparr>co_log := co_log a @ [SdoAnswer cb d nodeId transfer]\<rparr>)
                    else
                      (let a' = (if state_of transfer = SDO_ABORTED_RCV
                                 then a\<lparr>co_log := co_log a @ [SdoResponse nodeId (sdo_index transfer) (subIndex transfer) (abortCode transfer)]\<rparr>
                                 else a)
                       in a'\<lparr>stack := closeSDOtransfer S d nodeId (stack a')\<rparr>)) in
          rbind (rhs_event_flag_set (events E) c (sdo_event a1) EVENT_FLAG_SDO) (\<lambda>(_, _, g). Inr (a1\<lparr>sdo_event := g\<rparr>)))"

text \<open>A call of the stack with everything it calls.\<close>

primrec co_exec ::
  "('st, 't, 'k, 'r, 'n) co_env \<Rightarrow> ctx \<Rightarrow> ('st, 'a) co_call \<Rightarrow> ('st, 't, 'k) co_app \<Rightarrow> ('a \<times> ('st, 't, 'k) co_app) res" where
  "co_exec E c (Return r st) a = Inr (r, a\<lparr>stack := st\<rparr>)"
| "co_exec E c (Send port m k) a = rbind (canSend E c port m a) (\<lambda>(_, a'). co_exec E c k a')"
| "co_exec E c (SdoDone d nodeId st k) a =
     rbind (can_open_sdo_cb E c d nodeId (a\<lparr>stack := st\<rparr>)) (\<lambda>a'. co_exec E c (k (stack a')) a')"

section \<open>Interrupt callbacks\<close>

text \<open>The context of the callbacks is the application, so only NULL is told apart.\<close>

definition can_rx_irq_cb ::
  "('st, 't, 'k, 'r, 'n) co_env \<Rightarrow> nat \<Rightarrow> nat option \<Rightarrow> (co_cb, 'r, 'n, ('st, 't, 'k) co_app) can_sys \<Rightarrow>
     (co_cb, 'r, 'n, ('st, 't, 'k) co_app) can_sys res" where
  "can_rx_irq_cb E i ctxt s =
     rhs_assert (ctxt \<noteq> None)
       (rbind (rhs_hal_can_rx (driver E) i (unset_frame E) s) (\<lambda>(got, frame, s1).
        if \<not> got then Inr s1
        else
          let a = world s1 in
          rbind (frame_filter_loop (walk E) (frame_id frame) (fst (filters_of a)) (snd (filters_of a))) (\<lambda>shown.
          let a1 = (if shown then a\<lparr>co_log := co_log a @ [Seen i frame]\<rparr> else a) in
          rbind (copy_payload (replicate (message_size (stack_calls E)) 0) (payload frame) (unat (len frame))) (\<lambda>bytes.
          let rxm = \<lparr>cob_id = to_cob (stack_calls E) (frame_id frame), msg_rtr = rtr frame, msg_len = len frame, msg_bytes = bytes\<rparr> in
          rbind (handler_loop (\<lambda>d j. Inr (i = j)) (unat (counter_od a1)) 0 (handler a1)) (\<lambda>r. case r of
            None \<Rightarrow> Inr (s1\<lparr>world := a1\<rparr>)
          | Some (d, _) \<Rightarrow>
              rbind (rhs_message_queue_put (queues E) isr_ctx (rx_queue a1) (Some \<lparr>od = d, can_id = i, message = rxm\<rparr>) 0) (\<lambda>(_, _, q).
              rbind (set_srv_event E isr_ctx CanOpenAppEventTypeRX (a1\<lparr>rx_queue := q\<rparr>)) (\<lambda>a2.
              Inr (s1\<lparr>world := a2\<rparr>))))))))"

definition can_sce_irq_cb ::
  "('st, 't, 'k, 'r, 'n) co_env \<Rightarrow> nat \<Rightarrow> u32 \<Rightarrow> nat option \<Rightarrow> (co_cb, 'r, 'n, ('st, 't, 'k) co_app) can_sys \<Rightarrow>
     (co_cb, 'r, 'n, ('st, 't, 'k) co_app) can_sys res" where
  "can_sce_irq_cb E i event ctxt s =
     rhs_assert (ctxt \<noteq> None)
       (if event AND RHSHalCANSCEEventTXPassive \<noteq> 0 then
          rbind (handler_loop (\<lambda>d j. Inr (i = j)) (unat (counter_od (world s))) 0 (handler (world s))) (\<lambda>r. case r of
            None \<Rightarrow> Inr s
          | Some (None, _) \<Rightarrow> Inl OutOfBounds
          | Some (Some d, j) \<Rightarrow>
              rbind (co_exec E isr_ctx (setState (stack_calls E) d Stopped (stack (world s))) (world s)) (\<lambda>(_, a).
              rbind (rhs_hal_can_deinit (driver E) j (s\<lparr>world := a\<rparr>)) (\<lambda>s1.
              Inr (s1\<lparr>world := (world s1)\<lparr>co_log := co_log (world s1) @ [NodeStopped j]\<rparr>\<rparr>))))
        else Inr s)"

definition co_driver :: "('st, 't, 'k, 'r, 'n) co_env \<Rightarrow> (co_cb, 'r, 'n, ('st, 't, 'k) co_app) can_env" where
  "co_driver E = (driver E)\<lparr>
     run_rx := (\<lambda>cb num c s. case cb of CanRxIrq \<Rightarrow> can_rx_irq_cb E (unat num) c s | CanSceIrq \<Rightarrow> can_sce_irq_cb E (unat num) 0 c s),
     run_sce := (\<lambda>cb num ev c s. case cb of CanRxIrq \<Rightarrow> can_rx_irq_cb E (unat num) c s | CanSceIrq \<Rightarrow> can_sce_irq_cb E (unat num) ev c s)\<rparr>"

section \<open>Operations\<close>

text \<open>\<open>header\<close> and \<open>item\<close> are the sizes of a queue object and of a message in it.\<close>

definition can_open_app_alloc ::
  "('st, 't, 'k, 'r, 'n) co_env \<Rightarrow> u32 \<Rightarrow> u32 \<Rightarrow> 'st \<Rightarrow> filters \<Rightarrow> ('st, 't, 'k) co_app res" where
  "can_open_app_alloc E header item st fs =
     rbind (rhs_event_flag_alloc (events E) task_ctx) (\<lambda>srv.
     rbind (rhs_event_flag_alloc (events E) task_ctx) (\<lambda>sdo.
     rbind (rhs_mutex_alloc (mutexes E) task_ctx RHSMutexTypeNormal) (\<lambda>m.
     rbind (rhs_message_queue_alloc (queues E) task_ctx header 32 item) (\<lambda>(_, rx).
     rbind (rhs_message_queue_alloc (queues E) task_ctx header 32 item) (\<lambda>(_, tx).
     Inr \<lparr>srv_event = srv, counter_od = 0, handler = replicate MAX_OD (None, 0), rx_queue = rx, tx_queue = tx,
       sdo_mutex = m, sdo_event = sdo, sdo_callback = None, stack = st, filters_of = fs, co_log = []\<rparr>)))))"

definition InitNodes ::
  "('st, 't, 'k, 'r, 'n) co_env \<Rightarrow> nat \<Rightarrow> u8 \<Rightarrow> ('st, 't, 'k) co_app \<Rightarrow> ('st, 't, 'k) co_app res" where
  "InitNodes E d i a =
     (let a1 = a\<lparr>stack := setNodeId (stack_calls E) d i (stack a)\<rparr> in
      rbind (co_exec E task_ctx (setState (stack_calls E) d Initialisation (stack a1)) a1) (\<lambda>(_, a2). Inr a2))"

definition co_start_node ::
  "('st, 't, 'k, 'r, 'n) co_env \<Rightarrow> nat \<Rightarrow> u8 \<Rightarrow> nat \<Rightarrow> u32 \<Rightarrow> (co_cb, 'r, 'n, ('st, 't, 'k) co_app) can_sys \<Rightarrow>
     (co_cb, 'r, 'n, ('st, 't, 'k) co_app) can_sys res" where
  "co_start_node E d node_id i baud s =
     rhs_assert (unat (counter_od (world s)) < MAX_OD)
       (rbind (rhs_hal_can_init (co_driver E) i baud s) (\<lambda>s1.
        rbind (rhs_hal_can_async_rx_start (co_driver E) i (Some CanRxIrq) (Some 0) s1) (\<lambda>s2.
        rbind (rhs_hal_can_async_sce (co_driver E) i (Some CanSceIrq) (Some 0) s2) (\<lambda>s3.
        let a = world s3; n = unat (counter_od a) in
        rbind (aset (handler a) n (Some d, i)) (\<lambda>hs.
        let a1 = a\<lparr>handler := hs, stack := set_canHandle (stack_calls E) d (Some i) (stack a), counter_od := counter_od a + 1\<rparr> in
        rbind (InitNodes E d node_id a1) (\<lambda>a2. Inr (s3\<lparr>world := a2\<rparr>)))))))"

definition co_set_field ::
  "('st, 't, 'k, 'r, 'n) co_env \<Rightarrow> ctx \<Rightarrow> nat \<Rightarrow> u16 \<Rightarrow> u8 \<Rightarrow> u8 list \<Rightarrow> ('st, 't, 'k) co_app \<Rightarrow> (u8 \<times> ('st, 't, 'k) co_app) res" where
  "co_set_field E c d ind sub bytes a =
     rbind (co_exec E c (setODentry (stack_calls E) d ind sub bytes (stack a)) a) (\<lambda>(error_code, a1).
     if error_code = OD_SUCCESSFUL (stack_calls E)
     then rbind (set_srv_event E c CanOpenAppEventTypePDO a1) (\<lambda>a2. Inr (ucast error_code, a2))
     else Inr (ucast error_code, a1))"

text \<open>
  A request is sent, and its caller waits for the callback. \<open>meanwhile\<close> is what the other tasks
  do to the rest of the application before the wait ends.
\<close>

definition sdo_request ::
  "('st, 't, 'k, 'r, 'n) co_env \<Rightarrow> 't \<Rightarrow> nat \<Rightarrow> u8 \<Rightarrow> u16 \<Rightarrow> u8 \<Rightarrow> ('st \<Rightarrow> ('st, int) co_call) \<Rightarrow> 'k option \<Rightarrow>
     (u32 \<Rightarrow> ('st, 't, 'k) co_app \<Rightarrow> ('st, 't, 'k) co_app) \<Rightarrow> ('st, 't, 'k) co_app \<Rightarrow> (int \<times> ('st, 't, 'k) co_app) res" where
  "sdo_request E me d i ind sub req cb meanwhile a =
     rbind (rhs_mutex_acquire (mutexes E) task_ctx me (sdo_mutex a) RHSWaitForever) (\<lambda>(acquired, m).
     rhs_assert (acquired = RHSStatusOk)
       (rbind (co_exec E task_ctx (req (stack a)) (a\<lparr>sdo_mutex := m, sdo_callback := cb\<rparr>)) (\<lambda>(result, a1).
        rbind (if result = CANOPEN_SDO_STATE_OK (stack_calls E) then
                 rbind (rhs_event_flag_wait (events E) task_ctx (sdo_event a1) EVENT_FLAG_SDO RHSFlagWaitAny
                          (SDO_TIMEOUT_MS (stack_calls E))) (\<lambda>(r, g).
                 Inr (r = EVENT_FLAG_SDO, (meanwhile r a1)\<lparr>sdo_event := g\<rparr>))
               else Inr (False, a1)) (\<lambda>(answered, a2).
        if answered then
          rbind (rhs_mutex_release (mutexes E) task_ctx me (sdo_mutex a2)) (\<lambda>(_, m'). Inr (result, a2\<lparr>sdo_mutex := m'\<rparr>))
        else
          let a3 = a2\<lparr>stack := resetSDO (stack_calls E) d (stack a2), sdo_callback := None,
            co_log := co_log a2 @ [SdoError result i ind sub]\<rparr> in
          rbind (rhs_mutex_release (mutexes E) task_ctx me (sdo_mutex a3)) (\<lambda>(_, m').
          Inr (if result \<noteq> 0 then result else -1, a3\<lparr>sdo_mutex := m'\<rparr>))))))"

definition co_get_sdo ::
  "('st, 't, 'k, 'r, 'n) co_env \<Rightarrow> 't \<Rightarrow> nat \<Rightarrow> u8 \<Rightarrow> u16 \<Rightarrow> u8 \<Rightarrow> 'k option \<Rightarrow>
     (u32 \<Rightarrow> ('st, 't, 'k) co_app \<Rightarrow> ('st, 't, 'k) co_app) \<Rightarrow> ('st, 't, 'k) co_app \<Rightarrow> (int \<times> ('st, 't, 'k) co_app) res" where
  "co_get_sdo E me d i ind sub cb = sdo_request E me d i ind sub (readNetworkDictCallback (stack_calls E) d i ind sub) cb"

text \<open>\<open>memory\<close> is what can be read at \<open>data\<close>; \<open>sz\<close> bytes of it are sent.\<close>

definition co_set_sdo ::
  "('st, 't, 'k, 'r, 'n) co_env \<Rightarrow> 't \<Rightarrow> nat \<Rightarrow> u8 \<Rightarrow> u16 \<Rightarrow> u8 \<Rightarrow> u32 \<Rightarrow> u8 list \<Rightarrow> 'k option \<Rightarrow>
     (u32 \<Rightarrow> ('st, 't, 'k) co_app \<Rightarrow> ('st, 't, 'k) co_app) \<Rightarrow> ('st, 't, 'k) co_app \<Rightarrow> (int \<times> ('st, 't, 'k) co_app) res" where
  "co_set_sdo E me d i ind sub sz memory cb meanwhile a =
     (if length memory < unat sz then Inl OutOfBounds
      else sdo_request E me d i ind sub (writeNetworkDictCallBack (stack_calls E) d i ind sub (take (unat sz) memory)) cb meanwhile a)"

section \<open>The service thread\<close>

text \<open>
  Where the thread is: at the wait, in the loop over received messages, in the loop over the
  nodes after an event, in the loop over messages to send, or trying to send a frame with the
  tries left. \<open>frame_of\<close> is the variable \<open>frame\<close>, whose bytes stay between messages. The kernel
  is locked while the stack handles a message, so the scheduler is suspended there.
\<close>

datatype srv_pc = SrvWait | SrvRx | SrvPdo u8 | SrvTx | SrvTry nat u8

record srv =
  pc :: srv_pc
  frame_of :: can_frame

definition locked_ctx :: ctx where
  "locked_ctx = task_ctx\<lparr>sched := SCHEDULER_SUSPENDED\<rparr>"

definition srv_wait ::
  "('st, 't, 'k, 'r, 'n) co_env \<Rightarrow> srv \<times> (co_cb, 'r, 'n, ('st, 't, 'k) co_app) can_sys \<Rightarrow>
     (srv \<times> (co_cb, 'r, 'n, ('st, 't, 'k) co_app) can_sys) res" where
  "srv_wait E vs = (case vs of (v, s) \<Rightarrow>
     rbind (rhs_event_flag_wait (events E) task_ctx (srv_event (world s))
              (CanOpenAppEventTypeRX OR CanOpenAppEventTypeTX OR CanOpenAppEventTypePDO) RHSFlagWaitAny RHSWaitForever) (\<lambda>(flag, g).
     Inr (v\<lparr>pc := if flag = CanOpenAppEventTypeRX then SrvRx else if flag = CanOpenAppEventTypePDO then SrvPdo 0
                  else if flag = CanOpenAppEventTypeTX then SrvTx else SrvWait\<rparr>,
          s\<lparr>world := (world s)\<lparr>srv_event := g\<rparr>\<rparr>)))"

definition srv_rx ::
  "('st, 't, 'k, 'r, 'n) co_env \<Rightarrow> srv \<times> (co_cb, 'r, 'n, ('st, 't, 'k) co_app) can_sys \<Rightarrow>
     (srv \<times> (co_cb, 'r, 'n, ('st, 't, 'k) co_app) can_sys) res" where
  "srv_rx E vs = (case vs of (v, s) \<Rightarrow>
     rbind (rhs_message_queue_get (queues E) task_ctx (rx_queue (world s)) True 0) (\<lambda>(st, msg, _, q).
     let a = (world s)\<lparr>rx_queue := q\<rparr> in
     case msg of
       Some m \<Rightarrow> (case od m of
           None \<Rightarrow> Inl AssertFailed
         | Some d \<Rightarrow> rbind (co_exec E locked_ctx (canDispatch (stack_calls E) d (message m) (stack a)) a) (\<lambda>(_, a').
             Inr (v\<lparr>pc := SrvRx\<rparr>, s\<lparr>world := a'\<rparr>)))
     | None \<Rightarrow> Inr (v\<lparr>pc := SrvWait\<rparr>, s\<lparr>world := a\<rparr>)))"

definition srv_pdo ::
  "('st, 't, 'k, 'r, 'n) co_env \<Rightarrow> u8 \<Rightarrow> srv \<times> (co_cb, 'r, 'n, ('st, 't, 'k) co_app) can_sys \<Rightarrow>
     (srv \<times> (co_cb, 'r, 'n, ('st, 't, 'k) co_app) can_sys) res" where
  "srv_pdo E i vs = (case vs of (v, s) \<Rightarrow>
     if i < counter_od (world s) then
       rbind (aget (handler (world s)) (unat i)) (\<lambda>h. case fst h of
         None \<Rightarrow> Inl OutOfBounds
       | Some d \<Rightarrow> rbind (co_exec E task_ctx (sendPDOevent (stack_calls E) d (stack (world s))) (world s)) (\<lambda>(_, a).
           Inr (v\<lparr>pc := SrvPdo (i + 1)\<rparr>, s\<lparr>world := a\<rparr>)))
     else Inr (v\<lparr>pc := SrvTx\<rparr>, s))"

definition srv_tx ::
  "('st, 't, 'k, 'r, 'n) co_env \<Rightarrow> srv \<times> (co_cb, 'r, 'n, ('st, 't, 'k) co_app) can_sys \<Rightarrow>
     (srv \<times> (co_cb, 'r, 'n, ('st, 't, 'k) co_app) can_sys) res" where
  "srv_tx E vs = (case vs of (v, s) \<Rightarrow>
     rbind (rhs_message_queue_get (queues E) task_ctx (tx_queue (world s)) True 0) (\<lambda>(st, msg, _, q).
     let s1 = s\<lparr>world := (world s)\<lparr>tx_queue := q\<rparr>\<rparr> in
     case msg of
       Some m \<Rightarrow>
         rbind (copy_payload (payload (frame_of v)) (msg_bytes (message m)) (unat (msg_len (message m)))) (\<lambda>bytes.
         Inr (v\<lparr>pc := SrvTry (can_id m) 3, frame_of := \<lparr>frame_id = cob_id (message m), len = msg_len (message m),
           type_of = FrameTypeStdID, rtr = msg_rtr (message m), payload = bytes\<rparr>\<rparr>, s1))
     | None \<Rightarrow> Inr (v\<lparr>pc := SrvWait\<rparr>, s1)))"

definition srv_try ::
  "('st, 't, 'k, 'r, 'n) co_env \<Rightarrow> nat \<Rightarrow> u8 \<Rightarrow> srv \<times> (co_cb, 'r, 'n, ('st, 't, 'k) co_app) can_sys \<Rightarrow>
     (srv \<times> (co_cb, 'r, 'n, ('st, 't, 'k) co_app) can_sys) res" where
  "srv_try E i try_tx vs = (case vs of (v, s) \<Rightarrow>
     rbind (rhs_hal_can_tx (co_driver E) i (frame_of v) s) (\<lambda>(sent, s1).
     if \<not> sent \<and> try_tx \<noteq> 0 then Inr (v\<lparr>pc := SrvTry i (try_tx - 1)\<rparr>, s1) else Inr (v\<lparr>pc := SrvTx\<rparr>, s1)))"

definition srv_step ::
  "('st, 't, 'k, 'r, 'n) co_env \<Rightarrow> srv \<times> (co_cb, 'r, 'n, ('st, 't, 'k) co_app) can_sys \<Rightarrow>
     (srv \<times> (co_cb, 'r, 'n, ('st, 't, 'k) co_app) can_sys) res" where
  "srv_step E vs = (case pc (fst vs) of SrvWait \<Rightarrow> srv_wait E vs | SrvRx \<Rightarrow> srv_rx E vs | SrvPdo i \<Rightarrow> srv_pdo E i vs
     | SrvTx \<Rightarrow> srv_tx E vs | SrvTry i t \<Rightarrow> srv_try E i t vs)"

text \<open>The start of the service: the object, and the thread at its wait.\<close>

definition srv_start :: "nat \<Rightarrow> srv" where
  "srv_start n = \<lparr>pc = SrvWait, frame_of = empty_frame n\<rparr>"

primrec srv_run ::
  "('st, 't, 'k, 'r, 'n) co_env \<Rightarrow> nat \<Rightarrow> srv \<times> (co_cb, 'r, 'n, ('st, 't, 'k) co_app) can_sys \<Rightarrow>
     (srv \<times> (co_cb, 'r, 'n, ('st, 't, 'k) co_app) can_sys) res" where
  "srv_run E 0 vs = Inr vs"
| "srv_run E (Suc n) vs = rbind (srv_step E vs) (srv_run E n)"

section \<open>One event at a time\<close>

text \<open>What handling a list of received messages does to the application.\<close>

fun dispatch_all :: "('st, 't, 'k, 'r, 'n) co_env \<Rightarrow> app_message list \<Rightarrow> ('st, 't, 'k) co_app \<Rightarrow> ('st, 't, 'k) co_app res" where
  "dispatch_all E [] a = Inr a"
| "dispatch_all E (m # ms) a = (case od m of
     None \<Rightarrow> Inl AssertFailed
   | Some d \<Rightarrow> rbind (co_exec E locked_ctx (canDispatch (stack_calls E) d (message m) (stack a)) a) (\<lambda>(_, a'). dispatch_all E ms a'))"

lemma co_app_commute [simp]:
  "a\<lparr>stack := st, rx_queue := q\<rparr> = a\<lparr>rx_queue := q, stack := st\<rparr>"
  "a\<lparr>tx_queue := t, rx_queue := q\<rparr> = a\<lparr>rx_queue := q, tx_queue := t\<rparr>"
  "a\<lparr>srv_event := g, rx_queue := q\<rparr> = a\<lparr>rx_queue := q, srv_event := g\<rparr>"
  "a\<lparr>sdo_event := g, rx_queue := q\<rparr> = a\<lparr>rx_queue := q, sdo_event := g\<rparr>"
  "a\<lparr>co_log := l, rx_queue := q\<rparr> = a\<lparr>rx_queue := q, co_log := l\<rparr>"
  by (cases a; simp)+

lemma rbind_cong_tuple: "(\<And>x. m = Inr x \<Longrightarrow> f x = g x) \<Longrightarrow> rbind m f = rbind m g"
  by (cases m) simp_all

lemma rbind_rbind: "rbind (rbind m f) g = rbind m (\<lambda>x. rbind (f x) g)"
  by (cases m) simp_all

lemma canSend_rx_queue:
  "canSend E c port m (a\<lparr>rx_queue := q\<rparr>) = rbind (canSend E c port m a) (\<lambda>(r, a'). Inr (r, a'\<lparr>rx_queue := q\<rparr>))"
  by (cases "port = None")
    (auto simp: canSend_def set_srv_event_def rbind_rbind case_prod_beta split: option.splits intro!: rbind_cong_tuple)

lemma sdo_cb_rx_queue:
  "can_open_sdo_cb E c d n (a\<lparr>rx_queue := q\<rparr>) = rbind (can_open_sdo_cb E c d n a) (\<lambda>a'. Inr (a'\<lparr>rx_queue := q\<rparr>))"
  by (auto simp: can_open_sdo_cb_def Let_def rbind_rbind case_prod_beta split: option.splits intro!: rbind_cong_tuple)

lemma co_exec_rx_queue:
  "co_exec E c k (a\<lparr>rx_queue := q\<rparr>) = rbind (co_exec E c k a) (\<lambda>(r, a'). Inr (r, a'\<lparr>rx_queue := q\<rparr>))"
proof (induction k arbitrary: a)
  case (Send port m k)
  show ?case by (simp add: canSend_rx_queue rbind_rbind case_prod_beta Send)
next
  case (SdoDone d n st k)
  have "co_exec E c (k st') (a'\<lparr>rx_queue := q\<rparr>) = rbind (co_exec E c (k st') a') (\<lambda>(r, a'). Inr (r, a'\<lparr>rx_queue := q\<rparr>))" for st' a'
    by (rule SdoDone) simp
  moreover have "can_open_sdo_cb E c d n (a\<lparr>rx_queue := q, stack := st\<rparr>) =
      rbind (can_open_sdo_cb E c d n (a\<lparr>stack := st\<rparr>)) (\<lambda>a'. Inr (a'\<lparr>rx_queue := q\<rparr>))"
    using sdo_cb_rx_queue [where a = "a\<lparr>stack := st\<rparr>"] by simp
  ultimately show ?case by (simp add: rbind_rbind)
qed simp

lemma dispatch_all_rx_queue:
  "dispatch_all E ms (a\<lparr>rx_queue := q\<rparr>) = rbind (dispatch_all E ms a) (\<lambda>a'. Inr (a'\<lparr>rx_queue := q\<rparr>))"
proof (induction ms arbitrary: a)
  case (Cons m ms)
  then show ?case by (cases "od m") (simp_all add: co_exec_rx_queue rbind_rbind case_prod_beta)
qed simp

lemma srv_event_flags [simp]:
  "valid_flags (CanOpenAppEventTypeRX OR CanOpenAppEventTypeTX OR CanOpenAppEventTypePDO)"
  by (simp add: valid_flags_def co_flags RHS_EVENT_FLAG_INVALID_BITS_def)

text \<open>The loop over the received messages handles them in order and then waits.\<close>

lemma rx_loop:
  assumes "rtos_queue (queues E)" and "pc v = SrvRx" and "items (rx_queue (world s)) = ms"
  shows "srv_run E (Suc (length ms)) (v, s) =
    rbind (dispatch_all E ms ((world s)\<lparr>rx_queue := (rx_queue (world s))\<lparr>items := []\<rparr>\<rparr>)) (\<lambda>a. Inr (v\<lparr>pc := SrvWait\<rparr>, s\<lparr>world := a\<rparr>))"
  using assms(2,3)
proof (induction ms arbitrary: v s)
  case Nil
  then show ?case
    by (simp add: srv_step_def srv_rx_def rhs_message_queue_get_def rtos_queue.receive_none [OF assms(1)] Let_def)
next
  case (Cons m ms)
  let ?q = "(rx_queue (world s))\<lparr>items := ms\<rparr>"
  have get: "rhs_message_queue_get (queues E) task_ctx (rx_queue (world s)) True 0 = Inr (RHSStatusOk, Some m, False, ?q)"
    using rtos_queue.receive_some [OF assms(1) Cons.prems(2)] by (simp add: rhs_message_queue_get_def)
  show ?case
  proof (cases "od m")
    case None
    then show ?thesis using Cons.prems(1) get by (simp add: srv_step_def srv_rx_def Let_def)
  next
    case (Some d)
    let ?call = "canDispatch (stack_calls E) d (message m) (stack (world s))"
    have "srv_run E (Suc (length ms)) (v\<lparr>pc := SrvRx\<rparr>, s\<lparr>world := a'\<lparr>rx_queue := ?q\<rparr>\<rparr>) =
        rbind (dispatch_all E ms (a'\<lparr>rx_queue := ?q\<lparr>items := []\<rparr>\<rparr>)) (\<lambda>a. Inr (v\<lparr>pc := SrvWait\<rparr>, s\<lparr>world := a\<rparr>))" for a'
      using Cons.IH [of "v\<lparr>pc := SrvRx\<rparr>" "s\<lparr>world := a'\<lparr>rx_queue := ?q\<rparr>\<rparr>"] by simp
    then show ?thesis using Cons.prems(1) get Some
      by (simp add: srv_step_def srv_rx_def Let_def co_exec_rx_queue dispatch_all_rx_queue rbind_rbind case_prod_beta del: srv_run.simps(1))
  qed
qed

lemma srv_run_add: "srv_run E (n + m) vs = rbind (srv_run E n vs) (srv_run E m)"
  by (induction n arbitrary: vs) (auto simp: rbind_rbind intro!: rbind_cong_tuple)

text \<open>A frame is tried until it is taken, at most \<open>n\<close> more times after the first.\<close>

primrec tx_tries ::
  "('st, 't, 'k, 'r, 'n) co_env \<Rightarrow> nat \<Rightarrow> can_frame \<Rightarrow> nat \<Rightarrow> (co_cb, 'r, 'n, ('st, 't, 'k) co_app) can_sys \<Rightarrow>
     (co_cb, 'r, 'n, ('st, 't, 'k) co_app) can_sys res" where
  "tx_tries E i f 0 s = rbind (rhs_hal_can_tx (co_driver E) i f s) (\<lambda>(_, s1). Inr s1)"
| "tx_tries E i f (Suc n) s = rbind (rhs_hal_can_tx (co_driver E) i f s) (\<lambda>(sent, s1). if sent then Inr s1 else tx_tries E i f n s1)"

text \<open>What sending a list of messages does: each one four times at most, and the frame that is left.\<close>

fun send_all ::
  "('st, 't, 'k, 'r, 'n) co_env \<Rightarrow> can_frame \<Rightarrow> app_message list \<Rightarrow> (co_cb, 'r, 'n, ('st, 't, 'k) co_app) can_sys \<Rightarrow>
     (can_frame \<times> (co_cb, 'r, 'n, ('st, 't, 'k) co_app) can_sys) res" where
  "send_all E f [] s = Inr (f, s)"
| "send_all E f (m # ms) s =
     rbind (copy_payload (payload f) (msg_bytes (message m)) (unat (msg_len (message m)))) (\<lambda>bytes.
     let f' = \<lparr>frame_id = cob_id (message m), len = msg_len (message m), type_of = FrameTypeStdID, rtr = msg_rtr (message m),
       payload = bytes\<rparr> in
     rbind (tx_tries E (can_id m) f' 3 s) (send_all E f' ms))"

lemma can_world [simp]:
  "upd_can i f (s\<lparr>world := w\<rparr>) = (upd_can i f s)\<lparr>world := w\<rparr>" "logs num ms (s\<lparr>world := w\<rparr>) = (logs num ms s)\<lparr>world := w\<rparr>"
  "world (upd_can i f s) = world s"
  by (cases s; simp add: upd_can_def logs_def)+

lemma tx_world: "rhs_hal_can_tx D i f (s\<lparr>world := w\<rparr>) = rbind (rhs_hal_can_tx D i f s) (\<lambda>(b, s'). Inr (b, s'\<lparr>world := w\<rparr>))"
  by (auto simp: rhs_hal_can_tx_def check_tec_def print_ecr_def Let_def rbind_rbind case_prod_beta rhs_assert_def intro!: rbind_cong_tuple)

lemma tries_world: "tx_tries E i f n (s\<lparr>world := w\<rparr>) = rbind (tx_tries E i f n s) (\<lambda>s'. Inr (s'\<lparr>world := w\<rparr>))"
proof (induction n arbitrary: s)
  case (Suc n)
  then show ?case by (auto simp: tx_world rbind_rbind case_prod_beta intro!: rbind_cong_tuple)
qed (simp add: tx_world rbind_rbind case_prod_beta)

lemma try_loop:
  assumes "pc v = SrvTry i (of_nat n)" and "n < 256"
  shows "\<exists>k. srv_run E k (v, s) = rbind (tx_tries E i (frame_of v) n s) (\<lambda>s'. Inr (v\<lparr>pc := SrvTx\<rparr>, s'))"
  using assms
proof (induction n arbitrary: v s)
  case 0
  have "srv_run E 1 (v, s) = rbind (tx_tries E i (frame_of v) 0 s) (\<lambda>s'. Inr (v\<lparr>pc := SrvTx\<rparr>, s'))"
    using 0 by (simp add: srv_step_def srv_try_def rbind_rbind case_prod_beta)
  then show ?case by blast
next
  case (Suc n)
  have "unat (of_nat (Suc n) :: u8) = Suc n" using Suc.prems(2) by (subst unat_of_nat) simp
  then have pos: "(of_nat (Suc n) :: u8) \<noteq> 0" by auto
  have dec: "(of_nat (Suc n) :: u8) - 1 = of_nat n" by simp
  show ?case
  proof (cases "rhs_hal_can_tx (co_driver E) i (frame_of v) s")
    case (Inl e)
    have "srv_run E 1 (v, s) = rbind (tx_tries E i (frame_of v) (Suc n) s) (\<lambda>s'. Inr (v\<lparr>pc := SrvTx\<rparr>, s'))"
      using Suc.prems(1) Inl by (simp add: srv_step_def srv_try_def)
    then show ?thesis by blast
  next
    case (Inr r)
    obtain b s1 where r: "r = (b, s1)" by (cases r)
    have step: "srv_step E (v, s) = Inr (if b then v\<lparr>pc := SrvTx\<rparr> else v\<lparr>pc := SrvTry i (of_nat n)\<rparr>, s1)"
      using Suc.prems(1) Inr pos dec r by (simp add: srv_step_def srv_try_def)
    obtain k where "srv_run E k (v\<lparr>pc := SrvTry i (of_nat n)\<rparr>, s1) =
        rbind (tx_tries E i (frame_of v) n s1) (\<lambda>s'. Inr (v\<lparr>pc := SrvTx\<rparr>, s'))"
      using Suc.IH [of "v\<lparr>pc := SrvTry i (of_nat n)\<rparr>" s1] Suc.prems(2) by auto
    then have "srv_run E (Suc (if b then 0 else k)) (v, s) = rbind (tx_tries E i (frame_of v) (Suc n) s) (\<lambda>s'. Inr (v\<lparr>pc := SrvTx\<rparr>, s'))"
      using step Inr r by simp
    then show ?thesis by blast
  qed
qed

lemma tx_loop:
  assumes "rtos_queue (queues E)" and "pc v = SrvTx" and "items (tx_queue (world s)) = ms"
  shows "\<exists>n. srv_run E n (v, s) =
    rbind (send_all E (frame_of v) ms (s\<lparr>world := (world s)\<lparr>tx_queue := (tx_queue (world s))\<lparr>items := []\<rparr>\<rparr>\<rparr>))
      (\<lambda>(f, s'). Inr (v\<lparr>pc := SrvWait, frame_of := f\<rparr>, s'))"
  using assms(2,3)
proof (induction ms arbitrary: v s)
  case Nil
  have "srv_run E 1 (v, s) = Inr (v\<lparr>pc := SrvWait\<rparr>, s\<lparr>world := (world s)\<lparr>tx_queue := (tx_queue (world s))\<lparr>items := []\<rparr>\<rparr>\<rparr>)"
    using Nil by (simp add: srv_step_def srv_tx_def rhs_message_queue_get_def rtos_queue.receive_none [OF assms(1)] Let_def)
  moreover have "v\<lparr>pc := SrvWait, frame_of := frame_of v\<rparr> = v\<lparr>pc := SrvWait\<rparr>" by simp
  ultimately show ?case by (intro exI [of _ 1]) (simp del: srv_run.simps)
next
  case (Cons m ms)
  let ?q = "(tx_queue (world s))\<lparr>items := ms\<rparr>"
  let ?w = "(world s)\<lparr>tx_queue := ?q\<rparr>"
  have get: "rhs_message_queue_get (queues E) task_ctx (tx_queue (world s)) True 0 = Inr (RHSStatusOk, Some m, False, ?q)"
    using rtos_queue.receive_some [OF assms(1) Cons.prems(2)] by (simp add: rhs_message_queue_get_def)
  show ?case
  proof (cases "copy_payload (payload (frame_of v)) (msg_bytes (message m)) (unat (msg_len (message m)))")
    case (Inl e)
    have "srv_run E 1 (v, s) = Inl e" using Cons.prems(1) get Inl by (simp add: srv_step_def srv_tx_def Let_def)
    then show ?thesis using Inl by (intro exI [of _ 1]) (simp del: srv_run.simps)
  next
    case (Inr bytes)
    define f' where "f' = \<lparr>frame_id = cob_id (message m), len = msg_len (message m), type_of = FrameTypeStdID,
      rtr = msg_rtr (message m), payload = bytes\<rparr>"
    define v' where "v' = v\<lparr>pc := SrvTry (can_id m) (of_nat 3), frame_of := f'\<rparr>"
    have step: "srv_step E (v, s) = Inr (v', s\<lparr>world := ?w\<rparr>)"
      using Cons.prems(1) get Inr by (simp add: srv_step_def srv_tx_def Let_def v'_def f'_def)
    obtain k where k: "srv_run E k (v', s\<lparr>world := ?w\<rparr>) =
        rbind (tx_tries E (can_id m) f' 3 (s\<lparr>world := ?w\<rparr>)) (\<lambda>s'. Inr (v'\<lparr>pc := SrvTx\<rparr>, s'))"
      using try_loop [of v' "can_id m" 3 E "s\<lparr>world := ?w\<rparr>"] by (auto simp: v'_def)
    show ?thesis
    proof (cases "tx_tries E (can_id m) f' 3 s")
      case (Inl e)
      then have "srv_run E (Suc k) (v, s) = Inl e" using step k by (simp add: tries_world)
      then show ?thesis using Inl Inr by (intro exI [of _ "Suc k"]) (simp add: tries_world Let_def flip: f'_def)
    next
      case (Inr s1)
      have r: "srv_run E (Suc k) (v, s) = Inr (v'\<lparr>pc := SrvTx\<rparr>, s1\<lparr>world := ?w\<rparr>)" using step k Inr by (simp add: tries_world)
      obtain n where n: "srv_run E n (v'\<lparr>pc := SrvTx\<rparr>, s1\<lparr>world := ?w\<rparr>) =
          rbind (send_all E f' ms (s1\<lparr>world := (world s)\<lparr>tx_queue := ?q\<lparr>items := []\<rparr>\<rparr>\<rparr>))
            (\<lambda>(f, s'). Inr (v'\<lparr>pc := SrvWait, frame_of := f\<rparr>, s'))"
        using Cons.IH [of "v'\<lparr>pc := SrvTx\<rparr>" "s1\<lparr>world := ?w\<rparr>"] by (auto simp: v'_def)
      have "srv_run E (Suc k + n) (v, s) = srv_run E n (v'\<lparr>pc := SrvTx\<rparr>, s1\<lparr>world := ?w\<rparr>)"
        unfolding srv_run_add r by simp
      moreover have "v'\<lparr>pc := SrvWait, frame_of := f\<rparr> = v\<lparr>pc := SrvWait, frame_of := f\<rparr>" for f by (simp add: v'_def)
      ultimately show ?thesis using n Inr \<open>copy_payload _ _ _ = Inr bytes\<close>
        by (intro exI [of _ "Suc k + n"]) (simp add: tries_world Let_def del: srv_run.simps flip: f'_def)
    qed
  qed
qed

text \<open>The events sent for \<open>k\<close> nodes from the \<open>i\<close>-th on.\<close>

primrec pdo_all :: "('st, 't, 'k, 'r, 'n) co_env \<Rightarrow> nat \<Rightarrow> nat \<Rightarrow> ('st, 't, 'k) co_app \<Rightarrow> ('st, 't, 'k) co_app res" where
  "pdo_all E 0 i a = Inr a"
| "pdo_all E (Suc k) i a = rbind (aget (handler a) i) (\<lambda>h. case fst h of
     None \<Rightarrow> Inl OutOfBounds
   | Some d \<Rightarrow> rbind (co_exec E task_ctx (sendPDOevent (stack_calls E) d (stack a)) a) (\<lambda>(_, a'). pdo_all E k (Suc i) a'))"

text \<open>What no call of the stack changes.\<close>

definition same_config :: "('st, 't, 'k) co_app \<Rightarrow> ('st, 't, 'k) co_app \<Rightarrow> bool" where
  "same_config a a' \<longleftrightarrow> counter_od a' = counter_od a \<and> handler a' = handler a \<and> sdo_mutex a' = sdo_mutex a \<and>
     sdo_callback a' = sdo_callback a"

lemma canSend_config: "canSend E c p m a = Inr (r, a') \<Longrightarrow> same_config a a'"
  by (auto simp: canSend_def set_srv_event_def rbind_eq_Inr same_config_def split: option.splits)

lemma sdo_cb_config: "can_open_sdo_cb E c d n a = Inr a' \<Longrightarrow> same_config a a'"
  by (auto simp: can_open_sdo_cb_def Let_def rbind_eq_Inr same_config_def split: option.splits if_splits)

lemma co_exec_config: "co_exec E c k a = Inr (r, a') \<Longrightarrow> same_config a a'"
proof (induction k arbitrary: a)
  case (Send p m k)
  then obtain r1 a1 where "canSend E c p m a = Inr (r1, a1)" "co_exec E c k a1 = Inr (r, a')" by (auto simp: rbind_eq_Inr)
  then show ?case using Send.IH canSend_config by (fastforce simp: same_config_def)
next
  case (SdoDone d n st k)
  then obtain a1 where a1: "can_open_sdo_cb E c d n (a\<lparr>stack := st\<rparr>) = Inr a1" "co_exec E c (k (stack a1)) a1 = Inr (r, a')"
    by (auto simp: rbind_eq_Inr)
  then show ?case using SdoDone.IH [OF _ a1(2)] sdo_cb_config [OF a1(1)] by (simp add: same_config_def)
qed (auto simp: same_config_def)

lemma co_exec_counter: "co_exec E c k a = Inr (r, a') \<Longrightarrow> counter_od a' = counter_od a"
  using co_exec_config by (fastforce simp: same_config_def)

lemma pdo_loop:
  assumes "pc v = SrvPdo (of_nat i)" and "unat (counter_od (world s)) = i + k"
  shows "srv_run E (Suc k) (v, s) = rbind (pdo_all E k i (world s)) (\<lambda>a. Inr (v\<lparr>pc := SrvTx\<rparr>, s\<lparr>world := a\<rparr>))"
  using assms
proof (induction k arbitrary: i v s)
  case 0
  have "counter_od (world s) = of_nat (unat (counter_od (world s)))" by simp
  also have "\<dots> = of_nat i" by (simp only: 0(2) add_0_right)
  finally show ?case using 0 by (simp add: srv_step_def srv_pdo_def)
next
  case (Suc k)
  have "unat (counter_od (world s)) < 2 ^ LENGTH(8)" by (rule unsigned_less)
  then have "i + Suc k < 256" using Suc.prems(2) by simp
  then have i: "unat (of_nat i :: u8) = i" by (subst unat_of_nat) simp
  have less: "(of_nat i :: u8) < counter_od (world s)" unfolding word_less_nat_alt i using Suc.prems(2) by simp
  show ?case
  proof (cases "aget (handler (world s)) i")
    case (Inl e)
    then show ?thesis using Suc.prems(1) less i by (simp add: srv_step_def srv_pdo_def)
  next
    case (Inr h)
    note h = this
    show ?thesis
    proof (cases "fst h")
      case None
      then show ?thesis using Suc.prems(1) less i h by (simp add: srv_step_def srv_pdo_def)
    next
      case (Some d)
      show ?thesis
      proof (cases "co_exec E task_ctx (sendPDOevent (stack_calls E) d (stack (world s))) (world s)")
        case (Inl e)
        then show ?thesis using Suc.prems(1) less i h Some by (simp add: srv_step_def srv_pdo_def)
      next
        case (Inr r)
        obtain x a where r: "r = (x, a)" by (cases r)
        have "counter_od a = counter_od (world s)" using Inr r by (auto intro: co_exec_counter)
        then have "srv_run E (Suc k) (v\<lparr>pc := SrvPdo (of_nat (Suc i))\<rparr>, s\<lparr>world := a\<rparr>) =
            rbind (pdo_all E k (Suc i) a) (\<lambda>a. Inr (v\<lparr>pc := SrvTx\<rparr>, s\<lparr>world := a\<rparr>))"
          using Suc.IH [of "v\<lparr>pc := SrvPdo (of_nat (Suc i))\<rparr>" "Suc i" "s\<lparr>world := a\<rparr>"] Suc.prems(2) by simp
        then show ?thesis using Suc.prems(1) less i h Some Inr r
          by (simp add: srv_step_def srv_pdo_def add.commute del: srv_run.simps(1))
      qed
    qed
  qed
qed

text \<open>What the service does for an event that comes alone.\<close>

definition event_effect ::
  "('st, 't, 'k, 'r, 'n) co_env \<Rightarrow> u32 \<Rightarrow> can_frame \<Rightarrow> (co_cb, 'r, 'n, ('st, 't, 'k) co_app) can_sys \<Rightarrow>
     (can_frame \<times> (co_cb, 'r, 'n, ('st, 't, 'k) co_app) can_sys) res" where
  "event_effect E flag f s =
     (let a = (world s)\<lparr>srv_event := (srv_event (world s))\<lparr>event_bits := 0\<rparr>\<rparr> in
      if flag = CanOpenAppEventTypeRX then
        rbind (dispatch_all E (items (rx_queue a)) (a\<lparr>rx_queue := (rx_queue a)\<lparr>items := []\<rparr>\<rparr>)) (\<lambda>a'. Inr (f, s\<lparr>world := a'\<rparr>))
      else
        rbind (if flag = CanOpenAppEventTypePDO then pdo_all E (unat (counter_od a)) 0 a else Inr a) (\<lambda>a'.
        send_all E f (items (tx_queue a')) (s\<lparr>world := a'\<lparr>tx_queue := (tx_queue a')\<lparr>items := []\<rparr>\<rparr>\<rparr>)))"

text \<open>C24: when one of the events is flagged alone, the service thread, run without interruption, leaves its wait
  and comes back to it having done exactly what the event asks. After RX it has passed every message of the
  receive queue to the stack in order of arrival; after PDO it has asked each started node for its data and
  then sent what is in the send queue, as it does after TX, each message tried four times at most in the
  order of the queue. If a step on the way faults, so does this effect.
\<close>

theorem can_open_event_served:
  assumes "rtos_queue (queues E)" and "rtos_event_group (events E)" and "pc v = SrvWait"
    and "event_bits (srv_event (world s)) = flag"
    and "flag \<in> {CanOpenAppEventTypeRX, CanOpenAppEventTypePDO, CanOpenAppEventTypeTX}"
  shows "\<exists>n. srv_run E n (v, s) =
    rbind (event_effect E flag (frame_of v) s) (\<lambda>(f, s'). Inr (v\<lparr>pc := SrvWait, frame_of := f\<rparr>, s'))"
proof -
  let ?a = "(world s)\<lparr>srv_event := (srv_event (world s))\<lparr>event_bits := 0\<rparr>\<rparr>"
  let ?v = "\<lambda>p. v\<lparr>pc := p\<rparr>" and ?s = "s\<lparr>world := ?a\<rparr>"
  let ?all = "CanOpenAppEventTypeRX OR CanOpenAppEventTypeTX OR CanOpenAppEventTypePDO"
  have "condition False ?all flag" "flag AND NOT ?all = 0" "flag AND ?all \<noteq> 0"
    using assms(5) by (auto simp: condition_def co_flags)
  then have wait: "rhs_event_flag_wait (events E) task_ctx (srv_event (world s)) ?all RHSFlagWaitAny RHSWaitForever =
      Inr (flag, (srv_event (world s))\<lparr>event_bits := 0\<rparr>)"
    using rtos_event_group.wait_met [OF assms(2), of False ?all "srv_event (world s)" True RHSWaitForever] assms(4)
    by (simp add: rhs_event_flag_wait_def RHSFlagWaitAny_def and.commute)
  consider (rx) "flag = CanOpenAppEventTypeRX" | (pdo) "flag = CanOpenAppEventTypePDO" | (tx) "flag = CanOpenAppEventTypeTX"
    using assms(5) by blast
  then show ?thesis
  proof cases
    case rx
    have "srv_step E (v, s) = Inr (?v SrvRx, ?s)" using assms(3) wait rx by (simp add: srv_step_def srv_wait_def)
    then show ?thesis using rx_loop [OF assms(1), of "?v SrvRx" ?s] rx
      by (intro exI [of _ "Suc (Suc (length (items (rx_queue (world s)))))"])
        (simp add: event_effect_def Let_def rbind_rbind del: srv_run.simps(1))
  next
    case tx
    have step: "srv_step E (v, s) = Inr (?v SrvTx, ?s)" using assms(3) wait tx by (simp add: srv_step_def srv_wait_def co_flags)
    obtain n where "srv_run E n (?v SrvTx, ?s) = rbind (event_effect E flag (frame_of v) s) (\<lambda>(f, s'). Inr (v\<lparr>pc := SrvWait, frame_of := f\<rparr>, s'))"
      using tx_loop [OF assms(1), of "?v SrvTx" ?s] tx by (auto simp: event_effect_def Let_def co_flags)
    then show ?thesis using step by (intro exI [of _ "Suc n"]) simp
  next
    case pdo
    let ?n = "unat (counter_od ?a)"
    have step: "srv_step E (v, s) = Inr (?v (SrvPdo 0), ?s)" using assms(3) wait pdo by (simp add: srv_step_def srv_wait_def co_flags)
    have run: "srv_run E (Suc (Suc ?n)) (v, s) = rbind (pdo_all E ?n 0 ?a) (\<lambda>a. Inr (?v SrvTx, s\<lparr>world := a\<rparr>))"
      using pdo_loop [of "?v (SrvPdo 0)" 0 ?s ?n E] step by (simp del: srv_run.simps(1))
    show ?thesis
    proof (cases "pdo_all E ?n 0 ?a")
      case (Inl e)
      then show ?thesis using run pdo by (intro exI [of _ "Suc (Suc ?n)"]) (simp add: event_effect_def Let_def co_flags)
    next
      case (Inr a)
      obtain n where "srv_run E n (?v SrvTx, s\<lparr>world := a\<rparr>) =
          rbind (event_effect E flag (frame_of v) s) (\<lambda>(f, s'). Inr (v\<lparr>pc := SrvWait, frame_of := f\<rparr>, s'))"
        using tx_loop [OF assms(1), of "?v SrvTx" "s\<lparr>world := a\<rparr>"] pdo Inr by (auto simp: event_effect_def Let_def co_flags)
      moreover have "srv_run E (Suc (Suc ?n) + n) (v, s) = srv_run E n (?v SrvTx, s\<lparr>world := a\<rparr>)"
        unfolding srv_run_add run Inr by simp
      ultimately show ?thesis by (intro exI [of _ "Suc (Suc ?n) + n"]) (simp only:)
    qed
  qed
qed

text \<open>Two events flagged together are lost. When the thread comes to its wait with more than one of RX, TX and
  PDO flagged, the wait clears them all, the switch on their combination takes the default case, and the thread
  waits again: both queues are as they were, no flag is left, and without a later event the wait never returns,
  whatever the queues hold.
\<close>

theorem can_open_combined_event_lost:
  assumes "events E = plain_events" and "pc v = SrvWait"
    and "event_bits (srv_event (world s)) \<in> {CanOpenAppEventTypeRX OR CanOpenAppEventTypeTX, CanOpenAppEventTypeRX OR CanOpenAppEventTypePDO,
      CanOpenAppEventTypeTX OR CanOpenAppEventTypePDO, CanOpenAppEventTypeRX OR CanOpenAppEventTypeTX OR CanOpenAppEventTypePDO}"
  shows "\<exists>s'. srv_step E (v, s) = Inr (v, s') \<and> rx_queue (world s') = rx_queue (world s) \<and> tx_queue (world s') = tx_queue (world s) \<and>
    srv_step E (v, s') = Inl Blocked"
proof -
  let ?all = "CanOpenAppEventTypeRX OR CanOpenAppEventTypeTX OR CanOpenAppEventTypePDO"
  let ?s = "s\<lparr>world := (world s)\<lparr>srv_event := (srv_event (world s))\<lparr>event_bits := 0\<rparr>\<rparr>\<rparr>"
  define bits where "bits = event_bits (srv_event (world s))"
  have "bits AND NOT ?all = 0" "?all AND bits \<noteq> 0" "bits \<noteq> 1" "bits \<noteq> 2" "bits \<noteq> 4"
    using assms(3) by (auto simp: bits_def co_flags)
  then have first: "srv_step E (v, s) = Inr (v, ?s)"
    using assms(1,2) by (simp add: srv_step_def srv_wait_def rhs_event_flag_wait_def plain_events_def condition_def RHSFlagWaitAny_def
        and.commute flip: bits_def) (simp add: co_flags)
  have "srv_step E (v, ?s) = Inl Blocked"
    using assms(1,2) by (simp add: srv_step_def srv_wait_def rhs_event_flag_wait_def plain_events_def condition_def RHSFlagWaitAny_def)
  then show ?thesis using first by (intro exI [of _ ?s]) simp
qed

section \<open>A stopped node\<close>

lemma deinit_disables:
  assumes "rhs_hal_can_deinit D i s = Inr s'"
  shows "i < length (cans s')" "\<not> enabled (cans s' ! i)" "world s' = world s"
  using assms
  by (auto simp: rhs_hal_can_deinit_def rbind_eq_Inr lift_irq_def upd_can_def aget_def split: if_splits)

lemma handler_found:
  "i < m \<Longrightarrow> m \<le> length hs \<Longrightarrow> snd (hs ! n) = x \<Longrightarrow> i \<le> n \<Longrightarrow> n < m \<Longrightarrow>
   \<exists>h. handler_loop (\<lambda>d j. Inr (x = j)) (m - i) i hs = Inr (Some h) \<and> snd h = x"
proof (induction "m - i" arbitrary: i)
  case (Suc k)
  then have k: "m - i = Suc k" "aget hs i = Inr (hs ! i)" by simp_all
  show ?case
  proof (cases "x = snd (hs ! i)")
    case True
    then show ?thesis using k by (intro exI [of _ "hs ! i"]) simp
  next
    case False
    then have "i \<noteq> n" using Suc.prems(3) by auto
    then have "\<exists>h. handler_loop (\<lambda>d j. Inr (x = j)) (m - Suc i) (Suc i) hs = Inr (Some h) \<and> snd h = x"
      using Suc.prems Suc.hyps(2) by (intro Suc.hyps(1)) auto
    moreover have "m - Suc i = k" using k(1) by simp
    ultimately show ?thesis using False k by simp
  qed
qed simp

text \<open>Once the error interrupt of a channel with a started node has reported an empty line, the node is stopped
  and the channel shut down, but the node keeps its handler, so messages for it are still accepted; the first
  frame that the service thread tries to send on that channel stops the program at the driver's assertion.
\<close>

theorem can_open_send_after_stop_asserts:
  assumes "can_sce_irq_cb E i event (Some p) s = Inr s'" and "event AND RHSHalCANSCEEventTXPassive \<noteq> 0"
    and "n < unat (counter_od (world s))" and "unat (counter_od (world s)) \<le> length (handler (world s))"
    and "snd (handler (world s) ! n) = i"
  shows "counter_od (world s') = counter_od (world s) \<and> handler (world s') = handler (world s) \<and>
    srv_step E (v\<lparr>pc := SrvTry i t\<rparr>, s') = Inl AssertFailed"
proof -
  obtain d where d: "handler_loop (\<lambda>d j. Inr (i = j)) (unat (counter_od (world s))) 0 (handler (world s)) = Inr (Some (d, i))"
    using handler_found [of 0 "unat (counter_od (world s))" "handler (world s)" n i] assms(3-5) by auto
  obtain d' a s1 where s1: "co_exec E isr_ctx (setState (stack_calls E) d' Stopped (stack (world s))) (world s) = Inr ((), a)"
      "rhs_hal_can_deinit (driver E) i (s\<lparr>world := a\<rparr>) = Inr s1"
      "s' = s1\<lparr>world := (world s1)\<lparr>co_log := co_log (world s1) @ [NodeStopped i]\<rparr>\<rparr>"
    using assms(1,2) d by (cases d) (auto simp: can_sce_irq_cb_def rbind_eq_Inr)
  have "same_config (world s) a" by (rule co_exec_config [OF s1(1)])
  moreover have "rhs_hal_can_tx (co_driver E) i (frame_of v) s' = Inl AssertFailed"
    using deinit_disables [OF s1(2)] s1(3) by (simp add: rhs_hal_can_tx_def)
  ultimately show ?thesis using deinit_disables(3) [OF s1(2)] s1(3)
    by (simp add: same_config_def srv_step_def srv_try_def)
qed

section \<open>Requests to other nodes\<close>

text \<open>The flag of an answer is not cleared before a request. When the answer to an earlier request has come
  after its caller gave up, the flag is still set, and the next request, once the stack has sent it, returns
  success at once, with the transfer still open in the stack and no answer passed to the new callback.
\<close>

theorem co_get_sdo_takes_stale_answer:
  assumes "rtos_mutex (mutexes E)" and "rtos_event_group (events E)"
    and "holder (sdo_mutex a) = None" and "ucQueueType (sdo_mutex a) = queueQUEUE_TYPE_MUTEX (mutexes E)"
    and "event_bits (sdo_event a) = EVENT_FLAG_SDO"
    and "readNetworkDictCallback (stack_calls E) d i ind sub (stack a) = Return (CANOPEN_SDO_STATE_OK (stack_calls E)) st"
  shows "\<exists>a'. co_get_sdo E me d i ind sub cb (\<lambda>_ a. a) a = Inr (CANOPEN_SDO_STATE_OK (stack_calls E), a') \<and>
    stack a' = st \<and> sdo_callback a' = cb \<and> co_log a' = co_log a \<and> event_bits (sdo_event a') = 0 \<and> holder (sdo_mutex a') = None"
proof -
  let ?m = "(sdo_mutex a)\<lparr>holder := Some me, rec_depth := 1\<rparr>"
  have ty: "queueQUEUE_TYPE_MUTEX (mutexes E) \<noteq> queueQUEUE_TYPE_RECURSIVE_MUTEX (mutexes E)"
    by (rule rtos_mutex.types [OF assms(1)])
  have acq: "rhs_mutex_acquire (mutexes E) task_ctx me (sdo_mutex a) RHSWaitForever = Inr (RHSStatusOk, ?m)"
    using assms(4) ty rtos_mutex.take_free [OF assms(1,3)] by (simp add: rhs_mutex_acquire_def take_status_def)
  have rel: "rhs_mutex_release (mutexes E) task_ctx me ?m = Inr (RHSStatusOk, ?m\<lparr>holder := None, rec_depth := 0\<rparr>)"
    using assms(4) ty rtos_mutex.give [OF assms(1), of ?m me] by (simp add: rhs_mutex_release_def)
  have wait: "rhs_event_flag_wait (events E) task_ctx (sdo_event a) EVENT_FLAG_SDO RHSFlagWaitAny t =
      Inr (EVENT_FLAG_SDO, (sdo_event a)\<lparr>event_bits := 0\<rparr>)" for t
    using rtos_event_group.wait_met [OF assms(2), of False EVENT_FLAG_SDO "sdo_event a" True t] assms(5)
    by (simp add: rhs_event_flag_wait_def valid_flags_def RHS_EVENT_FLAG_INVALID_BITS_def co_flags condition_def RHSFlagWaitAny_def)
  show ?thesis using assms(6) acq rel wait by (simp add: co_get_sdo_def sdo_request_def Let_def)
qed

section \<open>An example\<close>

text \<open>A stack that keeps the identifiers of the messages it has handled, over the kernel objects of a lone task.\<close>

definition log_stack :: "nat list co_stack" where
  "log_stack = \<lparr>message_size = 8, to_cob = (\<lambda>i. i), canDispatch = (\<lambda>d m st. Return () (st @ [unat (cob_id m)])),
     sendPDOevent = (\<lambda>d st. Return () st), setNodeId = (\<lambda>d i st. st), setState = (\<lambda>d n st. Return () st),
     canHandle = (\<lambda>d st. Some d), set_canHandle = (\<lambda>d h st. st), GetSDOClientFromNodeId = (\<lambda>d i st. i),
     getSDOlineToClose = (\<lambda>d i st. Some 0), transfers = (\<lambda>d l st. \<lparr>state_of = SDO_OTHER, sdo_index = 0, subIndex = 0,
       count_of = 0, abortCode = 0, sdo_data = []\<rparr>), closeSDOtransfer = (\<lambda>d i st. st), resetSDO = (\<lambda>d st. st),
     readNetworkDictCallback = (\<lambda>d i ind sub st. Return 0 (st @ [unat ind])),
     writeNetworkDictCallBack = (\<lambda>d i ind sub bytes st. Return 0 (st @ [unat ind])),
     setODentry = (\<lambda>d ind sub bytes st. Return 0 st), getODentry = (\<lambda>d ind sub st. None),
     CANOPEN_SDO_STATE_OK = 0, OD_SUCCESSFUL = 0, SDO_TIMEOUT_MS = 1000\<rparr>"

definition co_demo_env :: "(nat list, nat, string, queue_rcan, int set) co_env" where
  "co_demo_env = \<lparr>driver = \<lparr>api = queue_api, nvic_calls = set_nvic, cpu_cycles = (\<lambda>s. 0), run_rx = (\<lambda>cb num c s. Inr s),
       run_tx = (\<lambda>cb c s. Inr s), run_sce = (\<lambda>cb num ev c s. Inr s)\<rparr>,
     stack_calls = log_stack, queues = list_queue, events = plain_events, mutexes = plain_mutex,
     unset_frame = empty_frame 8, walk = 8\<rparr>"

text \<open>An application with a node on the first channel, flags, an answer's flag and a received message.\<close>

definition co_demo_app :: "u32 \<Rightarrow> u32 \<Rightarrow> (nat list, nat, string) co_app" where
  "co_demo_app flags answer = \<lparr>srv_event = \<lparr>event_bits = flags, deferred = [], clearing_waiter = False\<rparr>, counter_od = 1,
     handler = [(Some 0, 0), (None, 0), (None, 0)],
     rx_queue = \<lparr>items = [\<lparr>od = Some 0, can_id = 0, message = \<lparr>cob_id = 0x181, msg_rtr = False, msg_len = 0, msg_bytes = replicate 8 0\<rparr>\<rparr>],
       uxLength = 32, uxItemSize = 24\<rparr>,
     tx_queue = \<lparr>items = [], uxLength = 32, uxItemSize = 24\<rparr>,
     sdo_mutex = \<lparr>ucQueueType = queueQUEUE_TYPE_MUTEX (plain_mutex :: nat mutex_api), holder = None, rec_depth = 0\<rparr>,
     sdo_event = \<lparr>event_bits = answer, deferred = [], clearing_waiter = False\<rparr>, sdo_callback = None, stack = [],
     filters_of = (None, Map.empty), co_log = []\<rparr>"

definition co_demo_sys :: "u32 \<Rightarrow> (co_cb, queue_rcan, int set, (nat list, nat, string) co_app) can_sys" where
  "co_demo_sys flags = (can_boot (0x40006400, [], []) {} (co_demo_app flags 0))\<lparr>
     cans := replicate 2 ((zero_can (0x40006400, [], []))\<lparr>enabled := True\<rparr>)\<rparr>"

lemma co_demo_parts [simp]:
  "events co_demo_env = plain_events" "queues co_demo_env = list_queue" "mutexes co_demo_env = plain_mutex"
  "stack_calls co_demo_env = log_stack"
  by (simp_all add: co_demo_env_def)

theorem can_open_event_served_witness:
  "\<exists>n. srv_run co_demo_env n (srv_start 8, co_demo_sys CanOpenAppEventTypeRX) =
    rbind (event_effect co_demo_env CanOpenAppEventTypeRX (frame_of (srv_start 8)) (co_demo_sys CanOpenAppEventTypeRX))
      (\<lambda>(f, s'). Inr ((srv_start 8)\<lparr>pc := SrvWait, frame_of := f\<rparr>, s')) \<and>
   (case event_effect co_demo_env CanOpenAppEventTypeRX (frame_of (srv_start 8)) (co_demo_sys CanOpenAppEventTypeRX) of
      Inl e \<Rightarrow> False | Inr (f, s') \<Rightarrow> stack (world s') = [0x181])"
proof -
  have "\<exists>n. srv_run co_demo_env n (srv_start 8, co_demo_sys CanOpenAppEventTypeRX) =
    rbind (event_effect co_demo_env CanOpenAppEventTypeRX (frame_of (srv_start 8)) (co_demo_sys CanOpenAppEventTypeRX))
      (\<lambda>(f, s'). Inr ((srv_start 8)\<lparr>pc := SrvWait, frame_of := f\<rparr>, s'))"
    by (rule can_open_event_served)
      (simp_all add: list_queue.rtos_queue_axioms plain_events.rtos_event_group_axioms srv_start_def co_demo_sys_def can_boot_def co_demo_app_def)
  moreover have "case event_effect co_demo_env CanOpenAppEventTypeRX (frame_of (srv_start 8)) (co_demo_sys CanOpenAppEventTypeRX) of
      Inl e \<Rightarrow> False | Inr (f, s') \<Rightarrow> stack (world s') = [0x181]"
    by (simp add: event_effect_def Let_def co_demo_sys_def can_boot_def co_demo_app_def log_stack_def)
  ultimately show ?thesis by blast
qed

theorem can_open_combined_event_lost_witness:
  "\<exists>s'. srv_step co_demo_env (srv_start 8, co_demo_sys 3) = Inr (srv_start 8, s') \<and> length (items (rx_queue (world s'))) = 1 \<and>
    srv_step co_demo_env (srv_start 8, s') = Inl Blocked"
proof -
  have "\<exists>s'. srv_step co_demo_env (srv_start 8, co_demo_sys 3) = Inr (srv_start 8, s') \<and>
      rx_queue (world s') = rx_queue (world (co_demo_sys 3)) \<and> tx_queue (world s') = tx_queue (world (co_demo_sys 3)) \<and>
      srv_step co_demo_env (srv_start 8, s') = Inl Blocked"
    by (rule can_open_combined_event_lost)
      (simp_all add: srv_start_def co_demo_sys_def can_boot_def co_demo_app_def co_flags)
  then show ?thesis by (auto simp: co_demo_sys_def can_boot_def co_demo_app_def)
qed

theorem can_open_send_after_stop_asserts_witness:
  "\<exists>s'. can_sce_irq_cb co_demo_env 0 1 (Some 0) (co_demo_sys 0) = Inr s' \<and>
    srv_step co_demo_env (\<lparr>pc = SrvTry 0 3, frame_of = empty_frame 8\<rparr>, s') = Inl AssertFailed"
proof -
  have "\<exists>s1. rhs_hal_can_deinit (driver co_demo_env) 0 (co_demo_sys 0) = Inr s1"
    by (simp add: rhs_hal_can_deinit_def co_demo_sys_def can_boot_def zero_can_def can_ids lift_irq_def rhs_hal_interrupt_set_isr_def
        rhs_hal_interrupt_set_isr_ex_def set_isr_checks_def interrupt_ids sce_line_def tx_line_def rx_line_def interrupt_priorities)
  moreover have "can_sce_irq_cb co_demo_env 0 1 (Some 0) (co_demo_sys 0) =
      rbind (rhs_hal_can_deinit (driver co_demo_env) 0 (co_demo_sys 0)) (\<lambda>s1. Inr (s1\<lparr>world := (world s1)\<lparr>co_log := co_log (world s1) @ [NodeStopped 0]\<rparr>\<rparr>))"
    by (simp add: can_sce_irq_cb_def RHSHalCANSCEEventTXPassive_def co_demo_sys_def can_boot_def co_demo_app_def log_stack_def)
  ultimately obtain s' where s': "can_sce_irq_cb co_demo_env 0 1 (Some 0) (co_demo_sys 0) = Inr s'" by auto
  have "counter_od (world s') = counter_od (world (co_demo_sys 0)) \<and> handler (world s') = handler (world (co_demo_sys 0)) \<and>
    srv_step co_demo_env ((srv_start 8)\<lparr>pc := SrvTry 0 3\<rparr>, s') = Inl AssertFailed"
    by (rule can_open_send_after_stop_asserts [OF s', of 0])
      (simp_all add: RHSHalCANSCEEventTXPassive_def co_demo_sys_def can_boot_def co_demo_app_def)
  then show ?thesis using s' by (auto simp: srv_start_def)
qed

theorem co_get_sdo_takes_stale_answer_witness:
  "\<exists>a'. co_get_sdo co_demo_env 7 0 5 0x1018 1 (Some ''cb'') (\<lambda>_ a. a) (co_demo_app 0 EVENT_FLAG_SDO) = Inr (0, a') \<and>
    stack a' = [0x1018] \<and> co_log a' = []"
proof -
  have "\<exists>a'. co_get_sdo co_demo_env 7 0 5 0x1018 1 (Some ''cb'') (\<lambda>_ a. a) (co_demo_app 0 EVENT_FLAG_SDO) =
      Inr (CANOPEN_SDO_STATE_OK (stack_calls co_demo_env), a') \<and> stack a' = [0x1018] \<and> sdo_callback a' = Some ''cb'' \<and>
      co_log a' = co_log (co_demo_app 0 EVENT_FLAG_SDO) \<and> event_bits (sdo_event a') = 0 \<and> holder (sdo_mutex a') = None"
    by (rule co_get_sdo_takes_stale_answer)
      (simp_all add: plain_mutex.rtos_mutex_axioms plain_events.rtos_event_group_axioms co_demo_app_def log_stack_def)
  then show ?thesis by (auto simp: log_stack_def co_demo_app_def)
qed

end
