(* ===== verification/Can_Open_Device.thy ===== *)
theory Can_Open_Device
  imports Can_Open
begin

text \<open>
  The configuration of other nodes through requests (applications/services/can_open/
  can_open_ctrl_dev.c) and the addresses of the standard object dictionary
  (od_common_defs.c and od_common_defs.h). The lemmas show that no two settings share an
  address, and for which objects the mapping word can be read back.
\<close>

section \<open>The object dictionary\<close>

record od_field =
  od_index :: u16
  od_sub :: u8
  od_size :: u8

definition od_device_type :: od_field where "od_device_type = \<lparr>od_index = 0x1000, od_sub = 0x00, od_size = 4\<rparr>"
definition od_device_name :: od_field where "od_device_name = \<lparr>od_index = 0x1008, od_sub = 0x00, od_size = 32\<rparr>"
definition od_producer_hb :: od_field where "od_producer_hb = \<lparr>od_index = 0x1017, od_sub = 0x00, od_size = 2\<rparr>"
definition od_device_vendor :: od_field where "od_device_vendor = \<lparr>od_index = 0x1018, od_sub = 0x01, od_size = 4\<rparr>"
definition od_device_code :: od_field where "od_device_code = \<lparr>od_index = 0x1018, od_sub = 0x02, od_size = 4\<rparr>"
definition od_device_revision :: od_field where "od_device_revision = \<lparr>od_index = 0x1018, od_sub = 0x03, od_size = 4\<rparr>"
definition od_device_serial :: od_field where "od_device_serial = \<lparr>od_index = 0x1018, od_sub = 0x04, od_size = 4\<rparr>"

definition od_sdo_stx :: od_field where "od_sdo_stx = \<lparr>od_index = 0x1280, od_sub = 0x01, od_size = 4\<rparr>"
definition od_sdo_srx :: od_field where "od_sdo_srx = \<lparr>od_index = 0x1280, od_sub = 0x02, od_size = 4\<rparr>"
definition od_sdo_srv_id :: od_field where "od_sdo_srv_id = \<lparr>od_index = 0x1280, od_sub = 0x03, od_size = 4\<rparr>"

definition od_rx_pdo_cfg :: od_field where "od_rx_pdo_cfg = \<lparr>od_index = 0x1400, od_sub = 0x00, od_size = 1\<rparr>"
definition od_rx_pdo_id :: od_field where "od_rx_pdo_id = \<lparr>od_index = 0x1400, od_sub = 0x01, od_size = 4\<rparr>"
definition od_rx_pdo_type :: od_field where "od_rx_pdo_type = \<lparr>od_index = 0x1400, od_sub = 0x02, od_size = 1\<rparr>"
definition od_rx_pdo_inhubit :: od_field where "od_rx_pdo_inhubit = \<lparr>od_index = 0x1400, od_sub = 0x03, od_size = 2\<rparr>"
definition od_rx_pdo_res :: od_field where "od_rx_pdo_res = \<lparr>od_index = 0x1400, od_sub = 0x04, od_size = 1\<rparr>"
definition od_rx_pdo_event_timer :: od_field where "od_rx_pdo_event_timer = \<lparr>od_index = 0x1400, od_sub = 0x05, od_size = 2\<rparr>"

definition od_rx_pdo_map :: "od_field list" where
  "od_rx_pdo_map =
     [\<lparr>od_index = 0x1600, od_sub = 0x00, od_size = 1\<rparr>, \<lparr>od_index = 0x1600, od_sub = 0x01, od_size = 4\<rparr>,
      \<lparr>od_index = 0x1600, od_sub = 0x02, od_size = 4\<rparr>, \<lparr>od_index = 0x1600, od_sub = 0x03, od_size = 4\<rparr>,
      \<lparr>od_index = 0x1600, od_sub = 0x04, od_size = 4\<rparr>, \<lparr>od_index = 0x1600, od_sub = 0x05, od_size = 4\<rparr>,
      \<lparr>od_index = 0x1600, od_sub = 0x06, od_size = 4\<rparr>, \<lparr>od_index = 0x1600, od_sub = 0x07, od_size = 4\<rparr>,
      \<lparr>od_index = 0x1600, od_sub = 0x08, od_size = 4\<rparr>]"

definition od_tx_pdo_cfg :: od_field where "od_tx_pdo_cfg = \<lparr>od_index = 0x1800, od_sub = 0x00, od_size = 1\<rparr>"
definition od_tx_pdo_id :: od_field where "od_tx_pdo_id = \<lparr>od_index = 0x1800, od_sub = 0x01, od_size = 4\<rparr>"
definition od_tx_pdo_type :: od_field where "od_tx_pdo_type = \<lparr>od_index = 0x1800, od_sub = 0x02, od_size = 1\<rparr>"
definition od_tx_pdo_inhubit :: od_field where "od_tx_pdo_inhubit = \<lparr>od_index = 0x1800, od_sub = 0x03, od_size = 2\<rparr>"
definition od_tx_pdo_res :: od_field where "od_tx_pdo_res = \<lparr>od_index = 0x1800, od_sub = 0x04, od_size = 1\<rparr>"
definition od_tx_pdo_event_timer :: od_field where "od_tx_pdo_event_timer = \<lparr>od_index = 0x1800, od_sub = 0x05, od_size = 2\<rparr>"

definition od_tx_pdo_map :: "od_field list" where
  "od_tx_pdo_map =
     [\<lparr>od_index = 0x1A00, od_sub = 0x00, od_size = 1\<rparr>, \<lparr>od_index = 0x1A00, od_sub = 0x01, od_size = 4\<rparr>,
      \<lparr>od_index = 0x1A00, od_sub = 0x02, od_size = 4\<rparr>, \<lparr>od_index = 0x1A00, od_sub = 0x03, od_size = 4\<rparr>,
      \<lparr>od_index = 0x1A00, od_sub = 0x04, od_size = 4\<rparr>, \<lparr>od_index = 0x1A00, od_sub = 0x05, od_size = 4\<rparr>,
      \<lparr>od_index = 0x1A00, od_sub = 0x06, od_size = 4\<rparr>, \<lparr>od_index = 0x1A00, od_sub = 0x07, od_size = 4\<rparr>,
      \<lparr>od_index = 0x1A00, od_sub = 0x08, od_size = 4\<rparr>]"

datatype pdo_field = PDOFieldConfig | PDOFieldId | PDOFieldType | PDOFieldInhibit | PDOFieldRes | PDOFieldEventTime

text \<open>The enumerations NPDO and PDOMap are numbers; these are their last values.\<close>

definition NumPDOMax :: nat where "NumPDOMax = 4"
definition PDOMapNum :: nat where "PDOMapNum = 0"
definition PDOMapMax :: nat where "PDOMapMax = 9"

lemmas od_fields = od_rx_pdo_id_def od_rx_pdo_type_def od_rx_pdo_inhubit_def od_rx_pdo_res_def od_rx_pdo_event_timer_def
  od_tx_pdo_id_def od_tx_pdo_type_def od_tx_pdo_inhubit_def od_tx_pdo_res_def od_tx_pdo_event_timer_def

lemmas od_maps = od_rx_pdo_map_def od_tx_pdo_map_def NumPDOMax_def PDOMapNum_def PDOMapMax_def

section \<open>Addresses\<close>

definition pdo_at :: "od_field \<Rightarrow> nat \<Rightarrow> od_field" where
  "pdo_at base npdo = base\<lparr>od_index := od_index base + of_nat npdo\<rparr>"

definition sdo_set_pdo :: "pdo_field \<Rightarrow> nat \<Rightarrow> bool \<Rightarrow> od_field res" where
  "sdo_set_pdo f npdo is_tx = rhs_assert (npdo < NumPDOMax)
     (case f of
        PDOFieldConfig \<Rightarrow> Inl (Crash ''You cannot set group field in PDO'')
      | PDOFieldId \<Rightarrow> Inr (pdo_at (if is_tx then od_tx_pdo_id else od_rx_pdo_id) npdo)
      | PDOFieldType \<Rightarrow> Inr (pdo_at (if is_tx then od_tx_pdo_type else od_rx_pdo_type) npdo)
      | PDOFieldInhibit \<Rightarrow> Inr (pdo_at (if is_tx then od_tx_pdo_inhubit else od_rx_pdo_inhubit) npdo)
      | PDOFieldRes \<Rightarrow> Inr (pdo_at (if is_tx then od_tx_pdo_res else od_rx_pdo_res) npdo)
      | PDOFieldEventTime \<Rightarrow> Inr (pdo_at (if is_tx then od_tx_pdo_event_timer else od_rx_pdo_event_timer) npdo))"

definition PDO_TO_MAP :: "u16 \<Rightarrow> u8 \<Rightarrow> u8 \<Rightarrow> u32" where
  "PDO_TO_MAP index subindex size' = push_bit 16 (ucast index) OR push_bit 8 (ucast subindex) OR push_bit 3 (ucast size')"

definition sdo_set_pdo_map_generic :: "nat \<Rightarrow> bool \<Rightarrow> od_field res" where
  "sdo_set_pdo_map_generic num_map is_tx = aget (if is_tx then od_tx_pdo_map else od_rx_pdo_map) num_map"

definition sdo_set_pdo_map_group :: "nat \<Rightarrow> bool \<Rightarrow> od_field res" where
  "sdo_set_pdo_map_group npdo is_tx =
     rbind (aget (if is_tx then od_tx_pdo_map else od_rx_pdo_map) PDOMapNum) (\<lambda>f. Inr (pdo_at f npdo))"

section \<open>Requests\<close>

text \<open>A variable in memory, the low byte first.\<close>

definition le32 :: "u32 \<Rightarrow> u8 list" where
  "le32 w = [ucast w, ucast (drop_bit 8 w), ucast (drop_bit 16 w), ucast (drop_bit 24 w)]"

text \<open>
  All the requests write a field with \<open>co_set_sdo\<close> without a callback; the functions of the
  two directions differ in a flag.
\<close>

type_synonym ('st, 't, 'k) sdo_call = "('st, 't, 'k) co_app \<Rightarrow> (int \<times> ('st, 't, 'k) co_app) res"

definition set_field ::
  "('st, 't, 'k, 'r, 'n) co_env \<Rightarrow> 't \<Rightarrow> nat \<Rightarrow> u8 \<Rightarrow> od_field \<Rightarrow> u8 list \<Rightarrow>
     (u32 \<Rightarrow> ('st, 't, 'k) co_app \<Rightarrow> ('st, 't, 'k) co_app) \<Rightarrow> ('st, 't, 'k) sdo_call" where
  "set_field E me d i f memory w = co_set_sdo E me d i (od_index f) (od_sub f) (ucast (od_size f)) memory None w"

definition co_rpdo_config ::
  "('st, 't, 'k, 'r, 'n) co_env \<Rightarrow> 't \<Rightarrow> nat \<Rightarrow> u8 \<Rightarrow> nat \<Rightarrow> pdo_field \<Rightarrow> u8 list \<Rightarrow>
     (u32 \<Rightarrow> ('st, 't, 'k) co_app \<Rightarrow> ('st, 't, 'k) co_app) \<Rightarrow> ('st, 't, 'k) sdo_call" where
  "co_rpdo_config E me d i npdo f memory w a = rbind (sdo_set_pdo f npdo False) (\<lambda>field. set_field E me d i field memory w a)"

definition co_tpdo_config ::
  "('st, 't, 'k, 'r, 'n) co_env \<Rightarrow> 't \<Rightarrow> nat \<Rightarrow> u8 \<Rightarrow> nat \<Rightarrow> pdo_field \<Rightarrow> u8 list \<Rightarrow>
     (u32 \<Rightarrow> ('st, 't, 'k) co_app \<Rightarrow> ('st, 't, 'k) co_app) \<Rightarrow> ('st, 't, 'k) sdo_call" where
  "co_tpdo_config E me d i npdo f memory w a = rbind (sdo_set_pdo f npdo True) (\<lambda>field. set_field E me d i field memory w a)"

definition co_rpdo_map ::
  "('st, 't, 'k, 'r, 'n) co_env \<Rightarrow> 't \<Rightarrow> nat \<Rightarrow> u8 \<Rightarrow> nat \<Rightarrow> nat \<Rightarrow> u16 \<Rightarrow> u8 \<Rightarrow> u8 \<Rightarrow>
     (u32 \<Rightarrow> ('st, 't, 'k) co_app \<Rightarrow> ('st, 't, 'k) co_app) \<Rightarrow> ('st, 't, 'k) sdo_call" where
  "co_rpdo_map E me d i npdo nmap ind sub sz w a = rhs_assert (PDOMapNum < nmap \<and> nmap < PDOMapMax)
     (rbind (sdo_set_pdo_map_generic nmap False) (\<lambda>field. set_field E me d i (pdo_at field npdo) (le32 (PDO_TO_MAP ind sub sz)) w a))"

definition co_tpdo_map ::
  "('st, 't, 'k, 'r, 'n) co_env \<Rightarrow> 't \<Rightarrow> nat \<Rightarrow> u8 \<Rightarrow> nat \<Rightarrow> nat \<Rightarrow> u16 \<Rightarrow> u8 \<Rightarrow> u8 \<Rightarrow>
     (u32 \<Rightarrow> ('st, 't, 'k) co_app \<Rightarrow> ('st, 't, 'k) co_app) \<Rightarrow> ('st, 't, 'k) sdo_call" where
  "co_tpdo_map E me d i npdo nmap ind sub sz w a = rhs_assert (PDOMapNum < nmap \<and> nmap < PDOMapMax)
     (rbind (sdo_set_pdo_map_generic nmap True) (\<lambda>field. set_field E me d i (pdo_at field npdo) (le32 (PDO_TO_MAP ind sub sz)) w a))"

definition co_rpdo_map_group ::
  "('st, 't, 'k, 'r, 'n) co_env \<Rightarrow> 't \<Rightarrow> nat \<Rightarrow> u8 \<Rightarrow> nat \<Rightarrow> nat \<Rightarrow>
     (u32 \<Rightarrow> ('st, 't, 'k) co_app \<Rightarrow> ('st, 't, 'k) co_app) \<Rightarrow> ('st, 't, 'k) sdo_call" where
  "co_rpdo_map_group E me d i npdo nmap w a = rhs_assert (npdo < NumPDOMax) (rhs_assert (nmap < PDOMapMax)
     (rbind (sdo_set_pdo_map_group npdo False) (\<lambda>field. set_field E me d i field (le32 (of_nat nmap)) w a)))"

definition co_tpdo_map_group ::
  "('st, 't, 'k, 'r, 'n) co_env \<Rightarrow> 't \<Rightarrow> nat \<Rightarrow> u8 \<Rightarrow> nat \<Rightarrow> nat \<Rightarrow>
     (u32 \<Rightarrow> ('st, 't, 'k) co_app \<Rightarrow> ('st, 't, 'k) co_app) \<Rightarrow> ('st, 't, 'k) sdo_call" where
  "co_tpdo_map_group E me d i npdo nmap w a = rhs_assert (npdo < NumPDOMax) (rhs_assert (nmap < PDOMapMax)
     (rbind (sdo_set_pdo_map_group npdo True) (\<lambda>field. set_field E me d i field (le32 (of_nat nmap)) w a)))"

text \<open>
  A field is read into a variable of \<open>n\<close> bytes that holds \<open>unset\<close> before. The size given to
  \<open>getODentry\<close> is not that of the variable, so it may write past it.
\<close>

definition od_get_field ::
  "('st, 't, 'k, 'r, 'n) co_env \<Rightarrow> nat \<Rightarrow> u8 list \<Rightarrow> nat \<Rightarrow> u16 \<Rightarrow> u8 \<Rightarrow> ('st, 't, 'k) co_app \<Rightarrow> u8 list res" where
  "od_get_field E n unset d index sub a = (case getODentry (stack_calls E) d index sub (stack a) of
     None \<Rightarrow> Inr unset
   | Some bytes \<Rightarrow> if length bytes \<le> n then Inr (bytes @ drop (length bytes) unset) else Inl OutOfBounds)"

text \<open>The fields of the two macros that set and reset the communication with a server.\<close>

definition SET_SDO_COMMUNICATION ::
  "('st, 't, 'k, 'r, 'n) co_env \<Rightarrow> ctx \<Rightarrow> nat \<Rightarrow> u8 \<Rightarrow> ('st, 't, 'k) co_app \<Rightarrow> ('st, 't, 'k) co_app res" where
  "SET_SDO_COMMUNICATION E c d i a =
     rbind (co_set_field E c d (od_index od_sdo_stx) (od_sub od_sdo_stx) (le32 (0x600 + ucast i)) a) (\<lambda>(_, a1).
     rbind (co_set_field E c d (od_index od_sdo_srx) (od_sub od_sdo_srx) (le32 (0x580 + ucast i)) a1) (\<lambda>(_, a2).
     rbind (co_set_field E c d (od_index od_sdo_srv_id) (od_sub od_sdo_srv_id) [i] a2) (\<lambda>(_, a3). Inr a3)))"

definition RESET_SDO_COMMUNICATION ::
  "('st, 't, 'k, 'r, 'n) co_env \<Rightarrow> ctx \<Rightarrow> nat \<Rightarrow> ('st, 't, 'k) co_app \<Rightarrow> ('st, 't, 'k) co_app res" where
  "RESET_SDO_COMMUNICATION E c d a =
     rbind (co_set_field E c d (od_index od_sdo_stx) (od_sub od_sdo_stx) (le32 0) a) (\<lambda>(_, a1).
     rbind (co_set_field E c d (od_index od_sdo_srx) (od_sub od_sdo_srx) (le32 0) a1) (\<lambda>(_, a2).
     rbind (co_set_field E c d (od_index od_sdo_srv_id) (od_sub od_sdo_srv_id) [0] a2) (\<lambda>(_, a3). Inr a3)))"

section \<open>Properties\<close>

text \<open>The objects that can be set, and where.\<close>

datatype pdo_object = Parameter pdo_field | MapCount | MapEntry nat

fun pdo_address :: "bool \<Rightarrow> nat \<Rightarrow> pdo_object \<Rightarrow> od_field res" where
  "pdo_address tx n (Parameter f) = sdo_set_pdo f n tx"
| "pdo_address tx n MapCount = sdo_set_pdo_map_group n tx"
| "pdo_address tx n (MapEntry m) = rbind (sdo_set_pdo_map_generic m tx) (\<lambda>f. Inr (pdo_at f n))"

text \<open>The object at an address.\<close>

definition field_at :: "u8 \<Rightarrow> pdo_field" where
  "field_at sub = (if sub = 1 then PDOFieldId else if sub = 2 then PDOFieldType else if sub = 3 then PDOFieldInhibit
     else if sub = 4 then PDOFieldRes else if sub = 5 then PDOFieldEventTime else PDOFieldConfig)"

definition object_at :: "u16 \<Rightarrow> u8 \<Rightarrow> bool \<times> nat \<times> pdo_object" where
  "object_at ind sub = (ind AND 0x800 \<noteq> 0, unat (ind AND 3),
     if ind AND 0x200 = 0 then Parameter (field_at sub) else if sub = 0 then MapCount else MapEntry (unat sub))"

lemma small_cases: "n < NumPDOMax \<Longrightarrow> n \<in> {0, 1, 2, 3}"
  by (auto simp: NumPDOMax_def)

lemma map_cases: "PDOMapNum < m \<Longrightarrow> m < 9 \<Longrightarrow> m \<in> {1, 2, 3, 4, 5, 6, 7, 8}"
  by (auto simp: PDOMapNum_def)

text \<open>An address is a base and the number of the PDO, so the cases are the bases.\<close>

lemma object_at_base:
  assumes "n < NumPDOMax" and "base \<in> {0x1400, 0x1600, 0x1800, 0x1A00}"
  shows "object_at (base + of_nat n) sub = (base \<in> {0x1800, 0x1A00}, n,
    if base \<in> {0x1400, 0x1800} then Parameter (field_at sub) else if sub = 0 then MapCount else MapEntry (unat sub))"
proof -
  have "(base + of_nat n) AND 3 = of_nat n" "(base + of_nat n) AND 0x200 = 0 \<longleftrightarrow> base \<in> {0x1400, 0x1800}"
      "(base + of_nat n) AND 0x800 = 0 \<longleftrightarrow> base \<in> {0x1400, 0x1600}" "unat (of_nat n :: u16) = n"
    using assms(2) small_cases [OF assms(1)] by (elim insertE emptyE; simp)+
  then show ?thesis using assms(2) by (auto simp: object_at_def)
qed

lemma object_at_parameter:
  assumes "sdo_set_pdo f n tx = Inr g"
  shows "object_at (od_index g) (od_sub g) = (tx, n, Parameter f)"
proof -
  have n: "n < NumPDOMax" using assms by (simp add: sdo_set_pdo_def)
  have "od_index g = (if tx then 0x1800 else 0x1400) + of_nat n" "field_at (od_sub g) = f"
    using assms by (cases f; cases tx; simp add: sdo_set_pdo_def pdo_at_def od_fields field_at_def; auto)+
  then show ?thesis using object_at_base [OF n, of "if tx then 0x1800 else 0x1400"] by (cases tx) simp_all
qed

lemma object_at_count:
  assumes "sdo_set_pdo_map_group n tx = Inr g" and "n < NumPDOMax"
  shows "object_at (od_index g) (od_sub g) = (tx, n, MapCount)"
proof -
  have "od_index g = (if tx then 0x1A00 else 0x1600) + of_nat n" "od_sub g = 0"
    using assms(1) by (cases tx; simp add: sdo_set_pdo_map_group_def pdo_at_def od_maps aget_def; auto)+
  then show ?thesis using object_at_base [OF assms(2), of "if tx then 0x1A00 else 0x1600"] by (cases tx) simp_all
qed

lemma map_entry_at:
  assumes "sdo_set_pdo_map_generic m tx = Inr g" and "PDOMapNum < m"
  shows "g = \<lparr>od_index = if tx then 0x1A00 else 0x1600, od_sub = of_nat m, od_size = 4\<rparr> \<and> m \<in> {1, 2, 3, 4, 5, 6, 7, 8}"
proof -
  have "m < 9" using assms(1) by (auto simp: sdo_set_pdo_map_generic_def aget_def od_maps split: if_splits)
  then have "m \<in> {1, 2, 3, 4, 5, 6, 7, 8}" using map_cases assms(2) by blast
  then show ?thesis using assms(1) by (auto simp: sdo_set_pdo_map_generic_def od_maps aget_def split: if_splits)
qed

lemma object_at_entry:
  assumes "pdo_address tx n (MapEntry m) = Inr g" and "n < NumPDOMax" and "PDOMapNum < m"
  shows "object_at (od_index g) (od_sub g) = (tx, n, MapEntry m)"
proof -
  obtain f where f: "sdo_set_pdo_map_generic m tx = Inr f" "g = pdo_at f n" using assms(1) by (auto simp: rbind_eq_Inr)
  have g: "f = \<lparr>od_index = if tx then 0x1A00 else 0x1600, od_sub = of_nat m, od_size = 4\<rparr>" and m8: "m \<in> {1, 2, 3, 4, 5, 6, 7, 8}"
    using map_entry_at [OF f(1) assms(3)] by auto
  have m: "unat (of_nat m :: u8) = m" "(of_nat m :: u8) \<noteq> 0" using m8 by auto
  have "od_index g = (if tx then 0x1A00 else 0x1600) + of_nat n" "od_sub g = of_nat m" by (simp_all add: f(2) g pdo_at_def)
  then show ?thesis using object_at_base [OF assms(2), of "if tx then 0x1A00 else 0x1600"] m by (cases tx) simp_all
qed

text \<open>Every setting of the process data of a node has an address of its own. Two requests with PDO numbers
  below four, each for a parameter, the number of mapped objects or a mapping entry from 1 to 8, that go to
  the same index and subindex are for the same direction, the same PDO number and the same object.
\<close>

theorem pdo_addresses_distinct:
  assumes "pdo_address tx n x = Inr f" and "pdo_address tx' n' x' = Inr f'"
    and "n < NumPDOMax" and "n' < NumPDOMax" and "\<And>m. x = MapEntry m \<or> x' = MapEntry m \<Longrightarrow> PDOMapNum < m"
    and "od_index f = od_index f'" and "od_sub f = od_sub f'"
  shows "tx = tx' \<and> n = n' \<and> x = x'"
proof -
  have "object_at (od_index f) (od_sub f) = (tx, n, x)"
    using assms(1,3,5) object_at_parameter object_at_count object_at_entry by (cases x) auto
  moreover have "object_at (od_index f') (od_sub f') = (tx', n', x')"
    using assms(2,4,5) object_at_parameter object_at_count object_at_entry by (cases x') auto
  ultimately show ?thesis using assms(6,7) by simp
qed

text \<open>A mapping word gives back what was mapped, index, subindex and length in bits, as long as the object has
  less than 32 bytes.
\<close>

theorem pdo_map_word_roundtrip:
  assumes "sz < 32"
  shows "ucast (drop_bit 16 (PDO_TO_MAP ind sub sz)) = ind \<and> ucast (drop_bit 8 (PDO_TO_MAP ind sub sz)) = sub \<and>
    ucast (PDO_TO_MAP ind sub sz) = 8 * sz"
proof -
  have "unat sz < 2 ^ 5" using assms by (simp add: word_less_nat_alt)
  then have "take_bit 5 (unat sz) = unat sz" by (rule take_bit_nat_eq_self)
  then have "take_bit 5 sz = sz" by (simp add: word_unat_eq_iff unsigned_take_bit_eq)
  then have high: "\<not> bit sz k" if "5 \<le> k" for k
    using that bit_take_bit_iff [of 5 sz k] by simp
  have "8 * sz = push_bit 3 sz" by (simp add: push_bit_eq_mult)
  then show ?thesis
    by (intro conjI; intro bit_word_eqI) (auto simp: PDO_TO_MAP_def bit_simps high dest: bit_imp_le_length)
qed

theorem pdo_addresses_distinct_witness:
  "pdo_address True 2 (MapEntry 3) = Inr \<lparr>od_index = 0x1A02, od_sub = 3, od_size = 4\<rparr> \<and>
   (True = True \<and> (2::nat) = 2 \<and> MapEntry 3 = MapEntry 3)"
proof -
  have "pdo_address True 2 (MapEntry 3) = Inr \<lparr>od_index = 0x1A02, od_sub = 3, od_size = 4\<rparr>"
    by (simp add: sdo_set_pdo_map_generic_def aget_def od_maps pdo_at_def)
  from this pdo_addresses_distinct [OF this this] show ?thesis by (simp add: NumPDOMax_def PDOMapNum_def)
qed

theorem pdo_map_word_roundtrip_witness:
  "ucast (drop_bit 16 (PDO_TO_MAP 0x6040 0x01 4)) = (0x6040 :: u16) \<and> PDO_TO_MAP 0x1008 0x00 32 = PDO_TO_MAP 0x1008 0x01 0"
proof -
  have "PDO_TO_MAP 0x1008 0x00 32 = PDO_TO_MAP 0x1008 0x01 0" by (simp add: PDO_TO_MAP_def push_bit_eq_mult)
  then show ?thesis using pdo_map_word_roundtrip [of 4 "0x6040" "0x01"] by simp
qed

end
