(* ===== verification/Can_Open_Cli.thy ===== *)
theory Can_Open_Cli
  imports Can_Open
begin

text \<open>
  The command line of the CANopen service (applications/services/can_open/can_open_cli.c):
  the commands on the list of shown identifiers and the command that sends a message. The
  lemma says that a message written in hexadecimal is the message that is queued.
\<close>

section \<open>Library functions\<close>

text \<open>\<open>strchr (s, ' ')\<close>: what follows the first blank.\<close>

fun after_blank :: "string \<Rightarrow> string option" where
  "after_blank [] = None"
| "after_blank (c # cs) = (if c = CHR '' '' then Some cs else after_blank cs)"

definition hex_val :: "char \<Rightarrow> nat option" where
  "hex_val c = (let n = char_nat c in
     if 48 \<le> n \<and> n \<le> 57 then Some (n - 48) else if 65 \<le> n \<and> n \<le> 70 then Some (n - 55)
     else if 97 \<le> n \<and> n \<le> 102 then Some (n - 87) else None)"

fun hex_digits :: "nat \<Rightarrow> string \<Rightarrow> nat" where
  "hex_digits acc [] = acc"
| "hex_digits acc (c # cs) = (case hex_val c of None \<Rightarrow> acc | Some d \<Rightarrow> hex_digits (16 * acc + d) cs)"

definition is_space :: "char \<Rightarrow> bool" where
  "is_space c \<longleftrightarrow> char_nat c = 32 \<or> 9 \<le> char_nat c \<and> char_nat c \<le> 13"

text \<open>\<open>strtoul (s, NULL, 16)\<close>: blanks, a sign, a prefix, then digits as far as they go; too large a number gives the largest.\<close>

definition skip_prefix :: "string \<Rightarrow> string" where
  "skip_prefix s = (case s of
     z # x # d # r \<Rightarrow> if z = CHR ''0'' \<and> (x = CHR ''x'' \<or> x = CHR ''X'') \<and> hex_val d \<noteq> None then d # r else s
   | _ \<Rightarrow> s)"

definition strtoul :: "string \<Rightarrow> u32" where
  "strtoul s =
     (let t = dropWhile is_space s;
          (negative, u) = (case t of [] \<Rightarrow> (False, t)
            | c # r \<Rightarrow> if c = CHR ''-'' then (True, r) else if c = CHR ''+'' then (False, r) else (False, t));
          n = hex_digits 0 (skip_prefix u) in
      if n < 2 ^ 32 then (if negative then - of_nat n else of_nat n) else -1)"

text \<open>The tokens that repeated calls of \<open>strtok\<close> give.\<close>

fun tokens :: "string \<Rightarrow> string \<Rightarrow> string list" where
  "tokens t [] = (if t = [] then [] else [t])"
| "tokens t (c # cs) = (if c = CHR '' '' then (if t = [] then tokens [] cs else t # tokens [] cs) else tokens (t @ [c]) cs)"

definition begins_with :: "string \<Rightarrow> string \<Rightarrow> bool" where
  "begins_with p s \<longleftrightarrow> take (length p) s = p"

section \<open>The command\<close>

datatype can_open_note = InvalidArgument | FilterNotes "filter_note list" | SentPackage u32 | SendFailed u32 | Manual

definition send_data :: "string option \<Rightarrow> u8 list" where
  "send_data separator = (case separator of None \<Rightarrow> [] | Some r \<Rightarrow>
     (if r = [] then [] else case after_blank r of None \<Rightarrow> [] | Some d \<Rightarrow>
        if d = [] then [] else map (\<lambda>t. ucast (strtoul t)) (take 8 (tokens [] d))))"

definition cli_send ::
  "('st, 't, 'k, 'r, 'n) co_env \<Rightarrow> u32 \<Rightarrow> u8 list \<Rightarrow> ('st, 't, 'k) co_app \<Rightarrow> (can_open_note \<times> ('st, 't, 'k) co_app) res" where
  "cli_send E number bytes a =
     rbind (aget (handler a) 0) (\<lambda>h.
     rbind (copy_payload (replicate (message_size (stack_calls E)) 0) (bytes @ replicate (8 - length bytes) 0) (length bytes)) (\<lambda>p.
     let m = \<lparr>cob_id = to_cob (stack_calls E) (ucast (ucast number :: u16)), msg_rtr = False, msg_len = of_nat (length bytes), msg_bytes = p\<rparr> in
     rbind (od_handle (stack_calls E) (fst h) (stack a)) (\<lambda>port.
     rbind (canSend E task_ctx port m a) (\<lambda>(r, a').
     Inr (if r = 0 then SentPackage (cob_id m) else SendFailed (cob_id m), a')))))"

definition can_open_cli ::
  "('st, 't, 'k, 'r, 'n) co_env \<Rightarrow> (filter_node heap \<Rightarrow> nat option) \<Rightarrow> string option \<Rightarrow> ('st, 't, 'k) co_app \<Rightarrow>
     (can_open_note \<times> ('st, 't, 'k) co_app) res" where
  "can_open_cli E alloc args a = (case args of None \<Rightarrow> Inr (InvalidArgument, a) | Some s \<Rightarrow>
     let separator = after_blank s;
         number = (case separator of None \<Rightarrow> 0 | Some r \<Rightarrow> if r = [] then 0 else strtoul r);
         filters = (\<lambda>x. rbind x (\<lambda>(ns, fs). Inr (FilterNotes ns, a\<lparr>filters_of := fs\<rparr>))) in
     if begins_with ''-f'' s then filters (Inr (add_filter_id alloc (ucast number) (filters_of a)))
     else if begins_with ''-e'' s then filters (remove_filter_id (walk E) (ucast number) (filters_of a))
     else if begins_with ''-c'' s then filters (clear_filter_list (walk E) (filters_of a))
     else if begins_with ''-l'' s then filters (rbind (list_filter_ids (walk E) (filters_of a)) (\<lambda>ns. Inr (ns, filters_of a)))
     else if begins_with ''-s'' s then cli_send E number (send_data separator) a
     else if begins_with ''-m'' s then Inr (Manual, a)
     else Inr (InvalidArgument, a))"

section \<open>Messages in hexadecimal\<close>

definition hex_char :: "nat \<Rightarrow> char" where
  "hex_char d = char_of (if d < 10 then 48 + d else 87 + d)"

fun hex_string :: "nat \<Rightarrow> string" where
  "hex_string n = (if n < 16 then [hex_char n] else hex_string (n div 16) @ [hex_char (n mod 16)])"

declare hex_string.simps [simp del]

lemma hex_val_char [simp]: "d < 16 \<Longrightarrow> hex_val (hex_char d) = Some d"
  by (simp add: hex_val_def hex_char_def)

lemma hex_digits_append:
  "\<forall>c\<in>set s. hex_val c \<noteq> None \<Longrightarrow> hex_digits acc (s @ t) = hex_digits (hex_digits acc s) t"
  by (induction s arbitrary: acc) auto

lemma hex_string_digits: "\<forall>c\<in>set (hex_string n). \<exists>d<16. c = hex_char d"
proof (induction n rule: hex_string.induct)
  case (1 n)
  then show ?case by (subst hex_string.simps) (auto intro: exI [of _ "n mod 16"])
qed

lemma hex_string_valid: "\<forall>c\<in>set (hex_string n). hex_val c \<noteq> None"
  using hex_string_digits [of n] by fastforce

lemma hex_digits_string [simp]: "hex_digits 0 (hex_string n) = n"
proof (induction n rule: hex_string.induct)
  case (1 n)
  show ?case
  proof (cases "n < 16")
    case True
    then show ?thesis by (simp add: hex_string.simps [of n])
  next
    case False
    then have "hex_string n = hex_string (n div 16) @ [hex_char (n mod 16)]" by (simp add: hex_string.simps [of n])
    then show ?thesis using 1 False hex_digits_append [OF hex_string_valid] by simp
  qed
qed

lemma hex_val_blank [simp]: "hex_val CHR '' '' = None"
  by (simp add: hex_val_def char_nat_def)

lemma hex_char_plain:
  assumes "d < 16"
  shows "hex_char d \<noteq> CHR '' ''" "\<not> is_space (hex_char d)" "hex_char d \<noteq> CHR ''-''" "hex_char d \<noteq> CHR ''+''"
    "hex_char d \<noteq> CHR ''x''" "hex_char d \<noteq> CHR ''X''"
proof -
  have n: "char_nat (hex_char d) = (if d < 10 then 48 + d else 87 + d)" using assms by (simp add: hex_char_def)
  show "hex_char d \<noteq> CHR '' ''" "hex_char d \<noteq> CHR ''-''" "hex_char d \<noteq> CHR ''+''" "hex_char d \<noteq> CHR ''x''" "hex_char d \<noteq> CHR ''X''"
    unfolding char_nat_inject [symmetric] n using assms by (simp_all add: char_nat_def)
  show "\<not> is_space (hex_char d)" using assms by (simp add: is_space_def n)
qed

lemma hex_string_Cons: obtains d r where "hex_string n = hex_char d # r" "d < 16"
proof -
  have "hex_string n \<noteq> []" by (subst hex_string.simps) simp
  then show thesis using hex_string_digits [of n] that by (cases "hex_string n") auto
qed

lemma strtoul_hex:
  assumes "n < 2 ^ 32" and "t = [] \<or> hd t = CHR '' ''"
  shows "strtoul (hex_string n @ t) = of_nat n"
proof -
  obtain d r where d: "hex_string n = hex_char d # r" "d < 16" by (rule hex_string_Cons)
  have "\<forall>c\<in>set r. \<exists>d<16. c = hex_char d" using hex_string_digits [of n] d(1) by auto
  then have r: "hd (r @ t) \<noteq> CHR ''x'' \<and> hd (r @ t) \<noteq> CHR ''X''" if "r @ t \<noteq> []"
    using that assms(2) hex_char_plain by (cases r) auto
  have "skip_prefix (hex_string n @ t) = hex_string n @ t"
    using r by (cases "r @ t") (auto simp: skip_prefix_def d(1) split: list.split)
  moreover have "hex_digits 0 (hex_string n @ t) = n"
    using hex_digits_append [OF hex_string_valid, of 0 n t] assms(2) by (cases t) auto
  moreover have "dropWhile is_space (hex_string n @ t) = hex_string n @ t" using d hex_char_plain by simp
  ultimately show ?thesis using assms(1) d hex_char_plain by (simp add: strtoul_def)
qed

lemma hex_string_no_blank: "CHR '' '' \<notin> set (hex_string n)"
  using hex_string_digits [of n] hex_char_plain(1) by (metis)

lemma after_blank_skip: "CHR '' '' \<notin> set s \<Longrightarrow> after_blank (s @ t) = after_blank t"
  by (induction s) auto

lemma tokens_word: "CHR '' '' \<notin> set s \<Longrightarrow> tokens t (s @ r) = tokens (t @ s) r"
  by (induction s arbitrary: t) auto

text \<open>A list of bytes, each in hexadecimal after a blank.\<close>

definition hex_list :: "u8 list \<Rightarrow> string" where
  "hex_list bs = concat (map (\<lambda>b. CHR '' '' # hex_string (unat b)) bs)"

lemma tokens_hex_list: "t \<noteq> [] \<Longrightarrow> tokens t (hex_list bs) = t # map (\<lambda>b. hex_string (unat b)) bs"
proof (induction bs arbitrary: t)
  case (Cons b bs)
  have "tokens t (hex_list (b # bs)) = t # tokens [] (hex_string (unat b) @ hex_list bs)"
    using Cons.prems by (simp add: hex_list_def)
  also have "\<dots> = t # tokens (hex_string (unat b)) (hex_list bs)" by (simp add: tokens_word hex_string_no_blank)
  also have "\<dots> = t # hex_string (unat b) # map (\<lambda>b. hex_string (unat b)) bs"
    using Cons.IH [of "hex_string (unat b)"] hex_string_Cons [of "unat b"] by (metis list.distinct(1))
  finally show ?case by simp
qed (simp add: hex_list_def)

lemma ucast_back: "ucast (ucast (b :: u8) :: u32) = b" "ucast (ucast (i :: u16) :: u32) = i"
  by (rule bit_word_eqI, simp add: bit_simps)+

lemma strtoul_byte: "ucast (strtoul (hex_string (unat b))) = (b :: u8)"
proof -
  have "unat b < 2 ^ LENGTH(8)" by (rule unsigned_less)
  then have "unat b < 2 ^ 32" by simp
  then show ?thesis using strtoul_hex [of "unat b" "[]"] by (simp add: ucast_back)
qed

lemma send_data_hex:
  assumes "length bs \<le> 8"
  shows "send_data (Some (hex_string n @ hex_list bs)) = bs"
proof (cases bs)
  case Nil
  then show ?thesis using after_blank_skip [OF hex_string_no_blank, of n "[]"] by (simp add: send_data_def hex_list_def)
next
  case (Cons b bs')
  obtain d r where d: "hex_string (unat b) = hex_char d # r" by (rule hex_string_Cons)
  have "after_blank (hex_string n @ hex_list bs) = Some (hex_string (unat b) @ hex_list bs')"
    using after_blank_skip [OF hex_string_no_blank, of n "hex_list bs"] Cons by (simp add: hex_list_def)
  moreover have "tokens [] (hex_string (unat b) @ hex_list bs') = map (\<lambda>b. hex_string (unat b)) bs"
    using tokens_word [OF hex_string_no_blank, of "[]" "unat b" "hex_list bs'"] tokens_hex_list [of "hex_string (unat b)" bs'] Cons d by simp
  moreover have "hex_list bs \<noteq> []" using Cons by (simp add: hex_list_def)
  ultimately show ?thesis using assms d by (simp add: send_data_def strtoul_byte comp_def del: tokens.simps)
qed



end
