(* ===== verification/Serial.thy ===== *)
theory Serial
  imports Interrupt Kernel
begin

text \<open>
  The serial ports (hal/rhs_hal_serial: rhs_hal_serial.c, internal/hal_rs232.c and
  internal/hal_rs485.c, for the board BMPLC_XL) over the interrupt table. The
  registers of the USARTs and of the DMA, the clocks, the pins and the rserial library are
  parameters on a state \<open>'h\<close>. RS422 is not implemented by the code. Callbacks are named by
  \<open>'cb\<close>, and running them is a parameter on the whole system.
\<close>

section \<open>Data\<close>

datatype usart = USART3 | USART6

datatype dma_stream = DMA1_Stream3 | DMA2_Stream1 | DMA2_Stream6

definition RHSHalSerialIdRS232 :: nat where "RHSHalSerialIdRS232 = 0"
definition RHSHalSerialIdRS485 :: nat where "RHSHalSerialIdRS485 = 1"
definition RHSHalSerialIdMax :: nat where "RHSHalSerialIdMax = 2"

lemmas serial_ids = RHSHalSerialIdRS232_def RHSHalSerialIdRS485_def RHSHalSerialIdMax_def

definition RHS_HAL_SERIAL_DMA_BUFFER_SIZE :: u32 where "RHS_HAL_SERIAL_DMA_BUFFER_SIZE = 1024"

definition RHSHalSerialRxEventData :: u32 where "RHSHalSerialRxEventData = 1"
definition RHSHalSerialRxEventIdle :: u32 where "RHSHalSerialRxEventIdle = 2"
definition RHSHalSerialRxEventFrameError :: u32 where "RHSHalSerialRxEventFrameError = 4"
definition RHSHalSerialRxEventNoiseError :: u32 where "RHSHalSerialRxEventNoiseError = 8"
definition RHSHalSerialRxEventOverrunError :: u32 where "RHSHalSerialRxEventOverrunError = 16"

lemmas rx_events = RHSHalSerialRxEventData_def RHSHalSerialRxEventIdle_def RHSHalSerialRxEventFrameError_def
  RHSHalSerialRxEventNoiseError_def RHSHalSerialRxEventOverrunError_def

text \<open>\<open>instance_of\<close> is the USART that the library has opened for the port.\<close>

record 'cb serial =
  buffer_rx_ptr :: "nat option"
  buffer_rx_index_write :: u32
  buffer_rx_index_read :: u32
  port_enabled :: bool
  instance_of :: "usart option"
  rx_byte_callback :: "'cb option"
  tx_byte_callback :: "'cb option"
  rx_dma_callback :: "'cb option"
  tx_dma_callback :: "'cb option"
  port_rx_context :: "nat option"
  port_tx_context :: "nat option"

datatype serial_isr = Rs232Irq | Rs232TxIrq | Rs485RxIrq | Rs485TxIrq

datatype rx_error = RxOverrun | RxNoise | RxFrameError | RxFrameErrorP

record ('cb, 'h, 'n, 'w) serial_sys =
  ports :: "'cb serial list"
  lines :: "(serial_isr, nat, 'n) irq_state"
  hw :: 'h
  rx_log :: "(usart \<times> rx_error) list"
  outer :: 'w

section \<open>The registers\<close>

datatype usart_flag = RXNE | IDLE | ORE | NE | FE | PE

datatype dma_direction = MEMORY_TO_PERIPH | PERIPH_TO_MEMORY

text \<open>The settings of a DMA stream, in the order the code writes them.\<close>

datatype dma_setting = ChannelSelection nat | DataTransferDirection dma_direction | PeriphAddress usart
  | PriorityLow | ModeNormal | PeriphNoIncrement | MemoryIncrement | PeriphSizeByte | MemorySizeByte | DisableFifoMode

datatype dma_flag = TransferError | HalfTransfer | TransferComplete

record 'h serial_api =
  HAL_RCCEx_PeriphCLKConfig :: "usart \<Rightarrow> 'h \<Rightarrow> bool \<times> 'h"
  CLK_ENABLE :: "string \<Rightarrow> 'h \<Rightarrow> 'h"
  HAL_GPIO_Init_AF :: "string \<Rightarrow> nat list \<Rightarrow> usart \<Rightarrow> 'h \<Rightarrow> 'h"
  rserial_open :: "usart \<Rightarrow> u32 \<Rightarrow> bool \<Rightarrow> 'h \<Rightarrow> 'h"
  rserial_close :: "usart option \<Rightarrow> 'h \<Rightarrow> 'h"
  LL_USART_IsEnabled :: "usart \<Rightarrow> 'h \<Rightarrow> bool"
  LL_USART_IsActiveFlag_TXE :: "usart \<Rightarrow> 'h \<Rightarrow> bool \<times> 'h"
  LL_USART_TransmitData8 :: "usart \<Rightarrow> u8 \<Rightarrow> 'h \<Rightarrow> 'h"
  LL_USART_ReceiveData8 :: "usart \<Rightarrow> 'h \<Rightarrow> u8 \<times> 'h"
  LL_USART_EnableIT_RXNE :: "usart \<Rightarrow> 'h \<Rightarrow> 'h"
  usart_isr :: "usart \<Rightarrow> usart_flag \<Rightarrow> 'h \<Rightarrow> bool"
  usart_icr :: "usart \<Rightarrow> usart_flag \<Rightarrow> 'h \<Rightarrow> 'h"
  enable_dma_requests :: "usart \<Rightarrow> dma_direction \<Rightarrow> 'h \<Rightarrow> 'h"
  clear_EN :: "dma_stream \<Rightarrow> 'h \<Rightarrow> 'h"
  is_EN :: "dma_stream \<Rightarrow> 'h \<Rightarrow> bool \<times> 'h"
  LL_DMA_set :: "dma_stream \<Rightarrow> dma_setting \<Rightarrow> 'h \<Rightarrow> 'h"
  LL_DMA_SetMemoryAddress :: "dma_stream \<Rightarrow> nat option \<Rightarrow> 'h \<Rightarrow> 'h"
  LL_DMA_SetDataLength :: "dma_stream \<Rightarrow> u32 \<Rightarrow> 'h \<Rightarrow> 'h"
  LL_DMA_GetDataLength :: "dma_stream \<Rightarrow> 'h \<Rightarrow> u32"
  LL_DMA_EnableStream :: "dma_stream \<Rightarrow> 'h \<Rightarrow> 'h"
  LL_DMA_DisableStream :: "dma_stream \<Rightarrow> 'h \<Rightarrow> 'h"
  LL_DMA_EnableIT_TC :: "dma_stream \<Rightarrow> 'h \<Rightarrow> 'h"
  LL_DMA_DisableIT_TC :: "dma_stream \<Rightarrow> 'h \<Rightarrow> 'h"
  dma_flag :: "dma_stream \<Rightarrow> dma_flag \<Rightarrow> 'h \<Rightarrow> bool"
  dma_clear :: "dma_stream \<Rightarrow> dma_flag \<Rightarrow> 'h \<Rightarrow> 'h"

text \<open>
  The environment. \<open>polls\<close> bounds the loops that wait for a register. A receive callback gets
  the number of the port, the event and its context; the one for DMA also a length.
\<close>

record ('cb, 'h, 'n, 'w) serial_env =
  regs :: "'h serial_api"
  nvic_of :: "'n nvic_api"
  isr_cycles :: "('cb, 'h, 'n, 'w) serial_sys \<Rightarrow> u32"
  polls :: nat
  run_rx_byte :: "'cb \<Rightarrow> nat \<Rightarrow> u32 \<Rightarrow> nat option \<Rightarrow> ('cb, 'h, 'n, 'w) serial_sys \<Rightarrow> ('cb, 'h, 'n, 'w) serial_sys res"
  run_rx_dma :: "'cb \<Rightarrow> nat \<Rightarrow> u32 \<Rightarrow> u16 \<Rightarrow> nat option \<Rightarrow> ('cb, 'h, 'n, 'w) serial_sys \<Rightarrow> ('cb, 'h, 'n, 'w) serial_sys res"
  run_tx_done :: "'cb \<Rightarrow> nat \<Rightarrow> nat option \<Rightarrow> ('cb, 'h, 'n, 'w) serial_sys \<Rightarrow> ('cb, 'h, 'n, 'w) serial_sys res"

definition upd_port :: "nat \<Rightarrow> ('cb serial \<Rightarrow> 'cb serial) \<Rightarrow> ('cb, 'h, 'n, 'w) serial_sys \<Rightarrow> ('cb, 'h, 'n, 'w) serial_sys" where
  "upd_port i f s = s\<lparr>ports := (ports s)[i := f (ports s ! i)]\<rparr>"

definition upd_hw :: "('h \<Rightarrow> 'h) \<Rightarrow> ('cb, 'h, 'n, 'w) serial_sys \<Rightarrow> ('cb, 'h, 'n, 'w) serial_sys" where
  "upd_hw f s = s\<lparr>hw := f (hw s)\<rparr>"

definition set_isr ::
  "('cb, 'h, 'n, 'w) serial_env \<Rightarrow> nat \<Rightarrow> serial_isr option \<Rightarrow> nat option \<Rightarrow> ('cb, 'h, 'n, 'w) serial_sys \<Rightarrow>
     ('cb, 'h, 'n, 'w) serial_sys res" where
  "set_isr E l f c s = rbind (rhs_hal_interrupt_set_isr (nvic_of E) l f c (lines s)) (\<lambda>t. Inr (s\<lparr>lines := t\<rparr>))"

definition nvic_write :: "('n \<Rightarrow> 'n) \<Rightarrow> ('cb, 'h, 'n, 'w) serial_sys \<Rightarrow> ('cb, 'h, 'n, 'w) serial_sys" where
  "nvic_write f s = s\<lparr>lines := (lines s)\<lparr>nvic := f (nvic (lines s))\<rparr>\<rparr>"

section \<open>RS232\<close>

definition dma_bytes_available ::
  "('cb, 'h, 'n, 'w) serial_env \<Rightarrow> dma_stream \<Rightarrow> nat \<Rightarrow> ('cb, 'h, 'n, 'w) serial_sys \<Rightarrow> u32 \<times> ('cb, 'h, 'n, 'w) serial_sys" where
  "dma_bytes_available E d i s =
     (let dma_remain = LL_DMA_GetDataLength (regs E) d (hw s);
          w = RHS_HAL_SERIAL_DMA_BUFFER_SIZE - dma_remain;
          r = buffer_rx_index_read (ports s ! i);
          s1 = upd_port i (\<lambda>p. p\<lparr>buffer_rx_index_write := w\<rparr>) s in
      (if w \<ge> r then w - r else RHS_HAL_SERIAL_DMA_BUFFER_SIZE - r + w, s1))"

definition rhs_hal_rs232_init :: "('cb, 'h, 'n, 'w) serial_env \<Rightarrow> ('cb, 'h, 'n, 'w) serial_sys \<Rightarrow> ('cb, 'h, 'n, 'w) serial_sys res" where
  "rhs_hal_rs232_init E s =
     (let R = regs E; (ok, h) = HAL_RCCEx_PeriphCLKConfig R USART3 (hw s) in
      rhs_assert ok (Inr (s\<lparr>hw := HAL_GPIO_Init_AF R ''GPIOD'' [8, 9] USART3 (CLK_ENABLE R ''GPIOD'' (CLK_ENABLE R ''USART3'' h))\<rparr>)))"

text \<open>The event of the receive interrupts and what they clear: a flag, its event, and the line printed.\<close>

definition rx_flag ::
  "('cb, 'h, 'n, 'w) serial_env \<Rightarrow> usart \<Rightarrow> usart_flag \<Rightarrow> u32 \<Rightarrow> rx_error option \<Rightarrow> u32 \<times> ('cb, 'h, 'n, 'w) serial_sys \<Rightarrow>
     u32 \<times> ('cb, 'h, 'n, 'w) serial_sys" where
  "rx_flag E u f ev msg es = (case es of (event, s) \<Rightarrow>
     if usart_isr (regs E) u f (hw s) then
       (event OR ev, upd_hw (if f = RXNE then (\<lambda>h. h) else usart_icr (regs E) u f)
         (case msg of None \<Rightarrow> s | Some m \<Rightarrow> s\<lparr>rx_log := rx_log s @ [(u, m)]\<rparr>))
     else (event, s))"

definition rx_event :: "('cb, 'h, 'n, 'w) serial_env \<Rightarrow> usart \<Rightarrow> ('cb, 'h, 'n, 'w) serial_sys \<Rightarrow> u32 \<times> ('cb, 'h, 'n, 'w) serial_sys" where
  "rx_event E u s =
     rx_flag E u PE RHSHalSerialRxEventFrameError (Some RxFrameErrorP)
     (rx_flag E u FE RHSHalSerialRxEventFrameError (Some RxFrameError)
     (rx_flag E u NE RHSHalSerialRxEventNoiseError (Some RxNoise)
     (rx_flag E u ORE RHSHalSerialRxEventOverrunError (Some RxOverrun)
     (rx_flag E u IDLE RHSHalSerialRxEventIdle None
     (rx_flag E u RXNE RHSHalSerialRxEventData None (0, s))))))"

definition byte_callback ::
  "('cb, 'h, 'n, 'w) serial_env \<Rightarrow> nat \<Rightarrow> u32 \<Rightarrow> ('cb, 'h, 'n, 'w) serial_sys \<Rightarrow> ('cb, 'h, 'n, 'w) serial_sys res" where
  "byte_callback E i event s = (case rx_byte_callback (ports s ! i) of None \<Rightarrow> Inr s
     | Some cb \<Rightarrow> run_rx_byte E cb i event (port_rx_context (ports s ! i)) s)"

definition rhs_hal_rs232_irq_callback ::
  "('cb, 'h, 'n, 'w) serial_env \<Rightarrow> nat option \<Rightarrow> ('cb, 'h, 'n, 'w) serial_sys \<Rightarrow> ('cb, 'h, 'n, 'w) serial_sys res" where
  "rhs_hal_rs232_irq_callback E ctxt s = (case ctxt of None \<Rightarrow> Inl AssertFailed | Some i \<Rightarrow>
     let (event, s1) = rx_event E USART3 s in
     rbind (aget (ports s1) i) (\<lambda>p.
     if buffer_rx_ptr p = None then byte_callback E i event s1
     else (case rx_dma_callback p of None \<Rightarrow> Inr s1
       | Some cb \<Rightarrow> let (n, s2) = dma_bytes_available E DMA1_Stream3 i s1 in
           run_rx_dma E cb i event (ucast n) (port_rx_context (ports s2 ! i)) s2)))"

text \<open>The end of a transfer: the byte callback if there is one, else the flag is cleared and the DMA callback called.\<close>

definition tx_irq ::
  "('cb, 'h, 'n, 'w) serial_env \<Rightarrow> dma_stream \<Rightarrow> nat option \<Rightarrow> ('cb, 'h, 'n, 'w) serial_sys \<Rightarrow> ('cb, 'h, 'n, 'w) serial_sys res" where
  "tx_irq E d ctxt s = (case ctxt of None \<Rightarrow> Inl AssertFailed | Some i \<Rightarrow>
     rbind (aget (ports s) i) (\<lambda>p. case tx_byte_callback p of
       Some cb \<Rightarrow> run_tx_done E cb i (port_tx_context p) s
     | None \<Rightarrow>
         let s1 = (if dma_flag (regs E) d TransferComplete (hw s) then upd_hw (dma_clear (regs E) d TransferComplete) s else s) in
         (case tx_dma_callback p of None \<Rightarrow> Inr s1 | Some cb \<Rightarrow> run_tx_done E cb i (port_tx_context p) s1)))"

definition rhs_hal_rs232_tx_irq_callback ::
  "('cb, 'h, 'n, 'w) serial_env \<Rightarrow> nat option \<Rightarrow> ('cb, 'h, 'n, 'w) serial_sys \<Rightarrow> ('cb, 'h, 'n, 'w) serial_sys res" where
  "rhs_hal_rs232_tx_irq_callback E = tx_irq E DMA1_Stream3"

definition dma_start ::
  "('cb, 'h, 'n, 'w) serial_env \<Rightarrow> dma_stream \<Rightarrow> nat option \<Rightarrow> u16 \<Rightarrow> ('cb, 'h, 'n, 'w) serial_sys \<Rightarrow> ('cb, 'h, 'n, 'w) serial_sys" where
  "dma_start E d buffer buffer_size =
     upd_hw (LL_DMA_EnableStream (regs E) d \<circ> LL_DMA_SetDataLength (regs E) d (ucast buffer_size) \<circ>
       LL_DMA_SetMemoryAddress (regs E) d buffer)"

definition dma_stop :: "('cb, 'h, 'n, 'w) serial_env \<Rightarrow> dma_stream \<Rightarrow> int \<Rightarrow> ('cb, 'h, 'n, 'w) serial_sys \<Rightarrow> ('cb, 'h, 'n, 'w) serial_sys" where
  "dma_stop E d irqn s = nvic_write (NVIC_DisableIRQ (nvic_of E) irqn)
     (upd_hw (LL_DMA_DisableIT_TC (regs E) d \<circ> LL_DMA_DisableStream (regs E) d \<circ> LL_DMA_SetDataLength (regs E) d 0 \<circ>
       LL_DMA_SetMemoryAddress (regs E) d None) s)"

primrec wait_disabled :: "'h serial_api \<Rightarrow> dma_stream \<Rightarrow> nat \<Rightarrow> 'h \<Rightarrow> 'h res" where
  "wait_disabled R d 0 h = Inl Blocked"
| "wait_disabled R d (Suc n) h = (let (on, h') = is_EN R d h in if on then wait_disabled R d n h' else Inr h')"

text \<open>The set-up of a stream: requests and clock, stop, settings, and the interrupt at priority 10.\<close>

definition dma_configure ::
  "('cb, 'h, 'n, 'w) serial_env \<Rightarrow> dma_stream \<Rightarrow> int \<Rightarrow> usart \<Rightarrow> dma_direction \<Rightarrow> string \<Rightarrow> dma_setting list \<Rightarrow> ('h \<Rightarrow> 'h) \<Rightarrow>
     ('cb, 'h, 'n, 'w) serial_sys \<Rightarrow> ('cb, 'h, 'n, 'w) serial_sys res" where
  "dma_configure E d irqn u dir clock settings flags s =
     (let R = regs E; N = nvic_of E; h = clear_EN R d (CLK_ENABLE R clock (enable_dma_requests R u dir (hw s))) in
      rbind (wait_disabled R d (polls E) h) (\<lambda>h1.
      Inr (nvic_write (\<lambda>n. NVIC_EnableIRQ N irqn (NVIC_SetPriority N irqn (NVIC_EncodePriority N (NVIC_GetPriorityGrouping N n) 10 0) n))
        (s\<lparr>hw := LL_DMA_EnableIT_TC R d (flags (fold (LL_DMA_set R d) settings h1))\<rparr>))))"

definition rhs_hal_rs232_async_tx_dma_start ::
  "('cb, 'h, 'n, 'w) serial_env \<Rightarrow> nat option \<Rightarrow> u16 \<Rightarrow> ('cb, 'h, 'n, 'w) serial_sys \<Rightarrow> ('cb, 'h, 'n, 'w) serial_sys" where
  "rhs_hal_rs232_async_tx_dma_start E = dma_start E DMA1_Stream3"

definition rhs_hal_rs232_async_tx_dma_configure ::
  "('cb, 'h, 'n, 'w) serial_env \<Rightarrow> ('cb, 'h, 'n, 'w) serial_sys \<Rightarrow> ('cb, 'h, 'n, 'w) serial_sys res" where
  "rhs_hal_rs232_async_tx_dma_configure E =
     dma_configure E DMA1_Stream3 (DMA1_Stream3_IRQn (nvic_of E)) USART3 MEMORY_TO_PERIPH ''DMA1''
       [ChannelSelection 4, DataTransferDirection MEMORY_TO_PERIPH, PeriphAddress USART3, PriorityLow, ModeNormal,
        PeriphNoIncrement, MemoryIncrement, PeriphSizeByte, MemorySizeByte, DisableFifoMode] (\<lambda>h. h)"

section \<open>RS485\<close>

definition rhs_hal_rs485_init :: "('cb, 'h, 'n, 'w) serial_env \<Rightarrow> ('cb, 'h, 'n, 'w) serial_sys \<Rightarrow> ('cb, 'h, 'n, 'w) serial_sys res" where
  "rhs_hal_rs485_init E s =
     (let R = regs E; (ok, h) = HAL_RCCEx_PeriphCLKConfig R USART6 (hw s) in
      rhs_assert ok (Inr (s\<lparr>hw := HAL_GPIO_Init_AF R ''GPIOC'' [6, 7] USART6 (HAL_GPIO_Init_AF R ''GPIOG'' [8] USART6
        (CLK_ENABLE R ''GPIOC'' (CLK_ENABLE R ''GPIOG'' (CLK_ENABLE R ''USART6'' h))))\<rparr>)))"

definition rhs_hal_rs485_rx_irq_callback ::
  "('cb, 'h, 'n, 'w) serial_env \<Rightarrow> nat option \<Rightarrow> ('cb, 'h, 'n, 'w) serial_sys \<Rightarrow> ('cb, 'h, 'n, 'w) serial_sys res" where
  "rhs_hal_rs485_rx_irq_callback E ctxt s = (case ctxt of None \<Rightarrow> Inl AssertFailed | Some i \<Rightarrow>
     let R = regs E; (event, s1) = rx_event E USART6 s in
     rbind (aget (ports s1) i) (\<lambda>p.
     if buffer_rx_ptr p = None then byte_callback E i event s1
     else
       rbind (if \<not> dma_flag R DMA2_Stream1 TransferError (hw s1) then
                (case rx_dma_callback p of None \<Rightarrow> Inr s1
                 | Some cb \<Rightarrow> run_rx_dma E cb i event (ucast (LL_DMA_GetDataLength R DMA2_Stream1 (hw s1))) (port_rx_context p) s1)
              else Inr (upd_hw (dma_clear R DMA2_Stream1 TransferError) s1)) (\<lambda>s2.
       Inr (if dma_flag R DMA2_Stream1 TransferComplete (hw s2) then upd_hw (dma_clear R DMA2_Stream1 TransferComplete) s2 else s2))))"

definition rhs_hal_rs485_tx_irq_callback ::
  "('cb, 'h, 'n, 'w) serial_env \<Rightarrow> nat option \<Rightarrow> ('cb, 'h, 'n, 'w) serial_sys \<Rightarrow> ('cb, 'h, 'n, 'w) serial_sys res" where
  "rhs_hal_rs485_tx_irq_callback E = tx_irq E DMA2_Stream6"

definition rhs_hal_rs485_async_tx_dma_start ::
  "('cb, 'h, 'n, 'w) serial_env \<Rightarrow> nat option \<Rightarrow> u16 \<Rightarrow> ('cb, 'h, 'n, 'w) serial_sys \<Rightarrow> ('cb, 'h, 'n, 'w) serial_sys" where
  "rhs_hal_rs485_async_tx_dma_start E = dma_start E DMA2_Stream6"

definition rhs_hal_rs485_async_tx_dma_stop :: "('cb, 'h, 'n, 'w) serial_env \<Rightarrow> ('cb, 'h, 'n, 'w) serial_sys \<Rightarrow> ('cb, 'h, 'n, 'w) serial_sys" where
  "rhs_hal_rs485_async_tx_dma_stop E = dma_stop E DMA2_Stream6 (DMA2_Stream6_IRQn (nvic_of E))"

definition rhs_hal_rs485_async_tx_dma_configure ::
  "('cb, 'h, 'n, 'w) serial_env \<Rightarrow> ('cb, 'h, 'n, 'w) serial_sys \<Rightarrow> ('cb, 'h, 'n, 'w) serial_sys res" where
  "rhs_hal_rs485_async_tx_dma_configure E =
     dma_configure E DMA2_Stream6 (DMA2_Stream6_IRQn (nvic_of E)) USART6 MEMORY_TO_PERIPH ''DMA2''
       [ChannelSelection 5, DataTransferDirection MEMORY_TO_PERIPH, PeriphAddress USART6, PriorityLow, ModeNormal,
        PeriphNoIncrement, MemoryIncrement, PeriphSizeByte, MemorySizeByte, DisableFifoMode] (\<lambda>h. h)"

definition clear_if_set :: "'h serial_api \<Rightarrow> dma_stream \<Rightarrow> dma_flag \<Rightarrow> 'h \<Rightarrow> 'h" where
  "clear_if_set R d f h = (if dma_flag R d f h then dma_clear R d f h else h)"

definition rhs_hal_rs485_async_rx_dma_configure ::
  "('cb, 'h, 'n, 'w) serial_env \<Rightarrow> ('cb, 'h, 'n, 'w) serial_sys \<Rightarrow> ('cb, 'h, 'n, 'w) serial_sys res" where
  "rhs_hal_rs485_async_rx_dma_configure E =
     dma_configure E DMA2_Stream1 (DMA2_Stream1_IRQn (nvic_of E)) USART6 PERIPH_TO_MEMORY ''DMA2''
       [ChannelSelection 5, DataTransferDirection PERIPH_TO_MEMORY, PeriphAddress USART6, PriorityLow, ModeNormal,
        PeriphNoIncrement, MemoryIncrement, PeriphSizeByte, MemorySizeByte]
       (clear_if_set (regs E) DMA2_Stream1 TransferError \<circ> clear_if_set (regs E) DMA2_Stream1 TransferComplete \<circ>
        clear_if_set (regs E) DMA2_Stream1 HalfTransfer)"

definition rhs_hal_rs485_async_rx_dma_start ::
  "('cb, 'h, 'n, 'w) serial_env \<Rightarrow> nat option \<Rightarrow> u16 \<Rightarrow> ('cb, 'h, 'n, 'w) serial_sys \<Rightarrow> ('cb, 'h, 'n, 'w) serial_sys" where
  "rhs_hal_rs485_async_rx_dma_start E = dma_start E DMA2_Stream1"

definition rhs_hal_rs485_async_rx_dma_stop :: "('cb, 'h, 'n, 'w) serial_env \<Rightarrow> ('cb, 'h, 'n, 'w) serial_sys \<Rightarrow> ('cb, 'h, 'n, 'w) serial_sys" where
  "rhs_hal_rs485_async_rx_dma_stop E = dma_stop E DMA2_Stream1 (DMA2_Stream1_IRQn (nvic_of E))"

section \<open>The ports\<close>

text \<open>The handlers as the interrupt table calls them.\<close>

definition serial_irqs :: "('cb, 'h, 'n, 'w) serial_env \<Rightarrow> (serial_isr, nat, 'n, ('cb, 'h, 'n, 'w) serial_sys) irq_env" where
  "serial_irqs E = \<lparr>cyccnt = isr_cycles E, irqs = lines, with_irqs = (\<lambda>t s. s\<lparr>lines := t\<rparr>),
     run = (\<lambda>f. case f of Rs232Irq \<Rightarrow> rhs_hal_rs232_irq_callback E | Rs232TxIrq \<Rightarrow> rhs_hal_rs232_tx_irq_callback E
       | Rs485RxIrq \<Rightarrow> rhs_hal_rs485_rx_irq_callback E | Rs485TxIrq \<Rightarrow> rhs_hal_rs485_tx_irq_callback E)\<rparr>"

text \<open>A handle is the number of the port; \<open>rhs_hal_serial_get_id\<close> crashes for any other.\<close>

definition rhs_hal_serial_get_id :: "nat option \<Rightarrow> nat res" where
  "rhs_hal_serial_get_id handle = (case handle of None \<Rightarrow> Inl AssertFailed
     | Some i \<Rightarrow> if i < RHSHalSerialIdMax then Inr i else Inl (Crash ''No serial handle''))"

definition rhs_hal_serial_init ::
  "('cb, 'h, 'n, 'w) serial_env \<Rightarrow> nat \<Rightarrow> u32 \<Rightarrow> ('cb, 'h, 'n, 'w) serial_sys \<Rightarrow> ('cb, 'h, 'n, 'w) serial_sys res" where
  "rhs_hal_serial_init E i baud s =
     rbind (aget (ports s) i) (\<lambda>p. rhs_assert (\<not> port_enabled p)
       (if i = RHSHalSerialIdRS232 then
          rbind (rhs_hal_rs232_init E s) (\<lambda>s1.
          Inr (upd_port i (\<lambda>p. p\<lparr>instance_of := Some USART3, port_enabled := True\<rparr>) (upd_hw (rserial_open (regs E) USART3 baud False) s1)))
        else if i = RHSHalSerialIdRS485 then
          rbind (rhs_hal_rs485_init E s) (\<lambda>s1.
          Inr (upd_port i (\<lambda>p. p\<lparr>instance_of := Some USART6, port_enabled := True\<rparr>) (upd_hw (rserial_open (regs E) USART6 baud True) s1)))
        else Inl (Crash ''No serial id'')))"

definition rhs_hal_serial_deinit ::
  "('cb, 'h, 'n, 'w) serial_env \<Rightarrow> nat option \<Rightarrow> ('cb, 'h, 'n, 'w) serial_sys \<Rightarrow> ('cb, 'h, 'n, 'w) serial_sys res" where
  "rhs_hal_serial_deinit E handle s =
     rbind (rhs_hal_serial_get_id handle) (\<lambda>i.
     rbind (aget (ports s) i) (\<lambda>p. rhs_assert (port_enabled p)
       (rbind (if i = RHSHalSerialIdRS232 then
                 rbind (set_isr E RHSHalInterruptIdUsart3 None None s) (set_isr E RHSHalInterruptIdDMA1Stream3 None None)
               else
                 rbind (set_isr E RHSHalInterruptIdUsart6 None None
                          (rhs_hal_rs485_async_rx_dma_stop E (rhs_hal_rs485_async_tx_dma_stop E s))) (\<lambda>s1.
                 rbind (set_isr E RHSHalInterruptIdDMA2Stream1 None None s1) (set_isr E RHSHalInterruptIdDMA2Stream6 None None)))
          (\<lambda>s2. Inr (upd_port i (\<lambda>p. p\<lparr>port_enabled := False\<rparr>) (upd_hw (rserial_close (regs E) (instance_of p)) s2))))))"

text \<open>Sending: the wait for the transmit register, and the bytes one by one.\<close>

primrec wait_TXE :: "'h serial_api \<Rightarrow> usart \<Rightarrow> nat \<Rightarrow> 'h \<Rightarrow> 'h res" where
  "wait_TXE R u 0 h = Inl Blocked"
| "wait_TXE R u (Suc n) h = (let (free, h') = LL_USART_IsActiveFlag_TXE R u h in if free then Inr h' else wait_TXE R u n h')"

fun tx_loop :: "'h serial_api \<Rightarrow> usart \<Rightarrow> nat \<Rightarrow> u8 list \<Rightarrow> 'h \<Rightarrow> 'h res" where
  "tx_loop R u n [] h = Inr h"
| "tx_loop R u n (b # bs) h = rbind (wait_TXE R u n h) (\<lambda>h'. tx_loop R u n bs (LL_USART_TransmitData8 R u b h'))"

definition instance_reg :: "usart option \<Rightarrow> usart res" where
  "instance_reg u = (case u of None \<Rightarrow> Inl OutOfBounds | Some r \<Rightarrow> Inr r)"

definition rhs_hal_serial_tx ::
  "('cb, 'h, 'n, 'w) serial_env \<Rightarrow> nat \<Rightarrow> u8 list \<Rightarrow> ('cb, 'h, 'n, 'w) serial_sys \<Rightarrow> ('cb, 'h, 'n, 'w) serial_sys res" where
  "rhs_hal_serial_tx E i buffer s =
     rbind (aget (ports s) i) (\<lambda>p. rhs_assert (port_enabled p)
       (rbind (instance_reg (instance_of p)) (\<lambda>u.
        if \<not> LL_USART_IsEnabled (regs E) u (hw s) then Inr s
        else rbind (tx_loop (regs E) u (polls E) buffer (hw s)) (\<lambda>h. Inr (s\<lparr>hw := h\<rparr>)))))"

definition rhs_hal_serial_async_tx_dma_configure ::
  "('cb, 'h, 'n, 'w) serial_env \<Rightarrow> nat option \<Rightarrow> 'cb option \<Rightarrow> nat option \<Rightarrow> ('cb, 'h, 'n, 'w) serial_sys \<Rightarrow>
     ('cb, 'h, 'n, 'w) serial_sys res" where
  "rhs_hal_serial_async_tx_dma_configure E handle callback ctxt s =
     rbind (rhs_hal_serial_get_id handle) (\<lambda>i.
     let s1 = upd_port i (\<lambda>p. p\<lparr>tx_dma_callback := callback, port_tx_context := ctxt\<rparr>) s in
     if i = RHSHalSerialIdRS232 then
       rbind (set_isr E RHSHalInterruptIdDMA1Stream3 (Some Rs232TxIrq) (Some i) s1) (rhs_hal_rs232_async_tx_dma_configure E)
     else
       rbind (set_isr E RHSHalInterruptIdDMA2Stream6 (Some Rs485TxIrq) (Some i) s1) (rhs_hal_rs485_async_tx_dma_configure E))"

definition rhs_hal_serial_async_tx_dma_start ::
  "('cb, 'h, 'n, 'w) serial_env \<Rightarrow> nat option \<Rightarrow> nat option \<Rightarrow> u16 \<Rightarrow> ('cb, 'h, 'n, 'w) serial_sys \<Rightarrow> ('cb, 'h, 'n, 'w) serial_sys res" where
  "rhs_hal_serial_async_tx_dma_start E handle buffer buffer_size s =
     rbind (rhs_hal_serial_get_id handle) (\<lambda>i.
     let s1 = upd_port i (\<lambda>p. p\<lparr>tx_byte_callback := None\<rparr>) s in
     Inr (if i = RHSHalSerialIdRS232 then rhs_hal_rs232_async_tx_dma_start E buffer buffer_size s1
          else rhs_hal_rs485_async_tx_dma_start E buffer buffer_size s1))"

definition rhs_hal_serial_async_rx_start ::
  "('cb, 'h, 'n, 'w) serial_env \<Rightarrow> nat option \<Rightarrow> 'cb option \<Rightarrow> nat option \<Rightarrow> ('cb, 'h, 'n, 'w) serial_sys \<Rightarrow>
     ('cb, 'h, 'n, 'w) serial_sys res" where
  "rhs_hal_serial_async_rx_start E handle callback ctxt s =
     rbind (rhs_hal_serial_get_id handle) (\<lambda>i.
     rbind (aget (ports s) i) (\<lambda>p. rhs_assert (port_enabled p) (rhs_assert (callback \<noteq> None)
       (let s1 = upd_port i (\<lambda>p. p\<lparr>rx_byte_callback := callback, rx_dma_callback := None, port_rx_context := ctxt\<rparr>) s in
        if i = RHSHalSerialIdRS232 then
          set_isr E RHSHalInterruptIdUsart3 (Some Rs232Irq) (Some i) (upd_hw (LL_USART_EnableIT_RXNE (regs E) USART3) s1)
        else
          set_isr E RHSHalInterruptIdUsart6 (Some Rs485RxIrq) (Some i) (upd_hw (LL_USART_EnableIT_RXNE (regs E) USART6) s1)))))"

definition rhs_hal_serial_async_rx ::
  "('cb, 'h, 'n, 'w) serial_env \<Rightarrow> ctx \<Rightarrow> nat option \<Rightarrow> ('cb, 'h, 'n, 'w) serial_sys \<Rightarrow> (u8 \<times> ('cb, 'h, 'n, 'w) serial_sys) res" where
  "rhs_hal_serial_async_rx E c handle s =
     rbind (rhs_hal_serial_get_id handle) (\<lambda>i.
     rbind (aget (ports s) i) (\<lambda>p. rhs_assert (port_enabled p) (rhs_assert (RHS_IS_IRQ_MODE c)
       (rbind (instance_reg (instance_of p)) (\<lambda>u.
        case LL_USART_ReceiveData8 (regs E) u (hw s) of (b, h) \<Rightarrow> Inr (b, s\<lparr>hw := h\<rparr>))))))"

definition rhs_hal_serial_async_rx_dma_configure ::
  "('cb, 'h, 'n, 'w) serial_env \<Rightarrow> nat option \<Rightarrow> 'cb option \<Rightarrow> nat option \<Rightarrow> ('cb, 'h, 'n, 'w) serial_sys \<Rightarrow>
     ('cb, 'h, 'n, 'w) serial_sys res" where
  "rhs_hal_serial_async_rx_dma_configure E handle callback ctxt s =
     rbind (rhs_hal_serial_get_id handle) (\<lambda>i.
     rbind (aget (ports s) i) (\<lambda>p. rhs_assert (port_enabled p) (rhs_assert (callback \<noteq> None)
       (let s1 = upd_port i (\<lambda>p. p\<lparr>buffer_rx_ptr := None, buffer_rx_index_write := 0, buffer_rx_index_read := 0,
              rx_byte_callback := None, rx_dma_callback := callback, port_rx_context := ctxt\<rparr>) s in
        if i = RHSHalSerialIdRS232 then Inl (Crash ''Not implemented RHSHalSerialIdRS232'')
        else
          rbind (set_isr E RHSHalInterruptIdUsart6 None None s1) (\<lambda>s2.
          rbind (set_isr E RHSHalInterruptIdDMA2Stream1 (Some Rs485RxIrq) (Some i) s2)
            (rhs_hal_rs485_async_rx_dma_configure E))))))"

definition rhs_hal_serial_async_rx_dma_start ::
  "('cb, 'h, 'n, 'w) serial_env \<Rightarrow> nat option \<Rightarrow> nat option \<Rightarrow> u16 \<Rightarrow> ('cb, 'h, 'n, 'w) serial_sys \<Rightarrow> ('cb, 'h, 'n, 'w) serial_sys res" where
  "rhs_hal_serial_async_rx_dma_start E handle buffer buffer_size s =
     rbind (rhs_hal_serial_get_id handle) (\<lambda>i.
     if i = RHSHalSerialIdRS232 then Inl (Crash ''Not implemented RHSHalSerialIdRS232'')
     else Inr (rhs_hal_rs485_async_rx_dma_start E buffer buffer_size (upd_port i (\<lambda>p. p\<lparr>buffer_rx_ptr := buffer\<rparr>) s)))"

section \<open>Sending\<close>

text \<open>
  The transmitter of a USART: what it has sent, and after how many more polls its register is
  free again, at most \<open>bound\<close> after a byte. A byte is lost when the register is not free.
\<close>

locale usart_transmitter =
  fixes R :: "'h serial_api" and u :: usart and sent :: "'h \<Rightarrow> u8 list" and busy :: "'h \<Rightarrow> nat" and bound :: nat
  assumes poll: "\<exists>h'. LL_USART_IsActiveFlag_TXE R u h = (busy h = 0, h') \<and> sent h' = sent h \<and> busy h' = busy h - 1"
    and transmit: "busy h = 0 \<Longrightarrow> sent (LL_USART_TransmitData8 R u b h) = sent h @ [b]"
      "busy h = 0 \<Longrightarrow> busy (LL_USART_TransmitData8 R u b h) \<le> bound"

context usart_transmitter begin

lemma wait_TXE_returns: "busy h < n \<Longrightarrow> \<exists>h'. wait_TXE R u n h = Inr h' \<and> sent h' = sent h \<and> busy h' = 0"
proof (induction n arbitrary: h)
  case (Suc n)
  obtain h' where h': "LL_USART_IsActiveFlag_TXE R u h = (busy h = 0, h')" "sent h' = sent h" "busy h' = busy h - 1"
    using poll by blast
  show ?case
  proof (cases "busy h = 0")
    case True
    then show ?thesis using h' by simp
  next
    case False
    then have "busy h' < n" using Suc.prems h'(3) by simp
    then obtain h'' where "wait_TXE R u n h' = Inr h''" "sent h'' = sent h'" "busy h'' = 0" using Suc.IH by blast
    then show ?thesis using h' False by simp
  qed
qed simp

lemma tx_loop_sends: "busy h \<le> bound \<Longrightarrow> bound < n \<Longrightarrow> \<exists>h'. tx_loop R u n bs h = Inr h' \<and> sent h' = sent h @ bs \<and> busy h' \<le> bound"
proof (induction bs arbitrary: h)
  case (Cons b bs)
  obtain h1 where h1: "wait_TXE R u n h = Inr h1" "sent h1 = sent h" "busy h1 = 0"
    using wait_TXE_returns [of h n] Cons.prems by auto
  obtain h2 where "tx_loop R u n bs (LL_USART_TransmitData8 R u b h1) = Inr h2"
      "sent h2 = sent (LL_USART_TransmitData8 R u b h1) @ bs" "busy h2 \<le> bound"
    using Cons.IH [OF transmit(2) [OF h1(3)] Cons.prems(2)] by blast
  then show ?case using h1 transmit(1) [OF h1(3)] by simp
qed auto

end

text \<open>C26: sending on an enabled port whose USART is on returns, with every byte of the buffer handed to the
  transmitter once, in order and never while its register is full, and nothing else of the driver changed,
  as soon as the number of polls exceeds the number after which the register is free.
\<close>

theorem serial_tx_sends:
  assumes "usart_transmitter (regs E) u sent busy bound" and "bound < polls E" and "busy (hw s) \<le> bound"
    and "i < length (ports s)" and "port_enabled (ports s ! i)" and "instance_of (ports s ! i) = Some u"
    and "LL_USART_IsEnabled (regs E) u (hw s)"
  shows "\<exists>h. rhs_hal_serial_tx E i buffer s = Inr (s\<lparr>hw := h\<rparr>) \<and> sent h = sent (hw s) @ buffer"
  using usart_transmitter.tx_loop_sends [OF assms(1,3,2), of buffer] assms(4-7)
  by (auto simp: rhs_hal_serial_tx_def instance_reg_def)

section \<open>Receiving\<close>

lemma upd_port_simps [simp]:
  "ports (upd_port i f s) = (ports s)[i := f (ports s ! i)]" "lines (upd_port i f s) = lines s" "hw (upd_port i f s) = hw s"
  "outer (upd_port i f s) = outer s" "ports (upd_hw g s) = ports s" "lines (upd_hw g s) = lines s" "outer (upd_hw g s) = outer s"
  "ports (nvic_write k s) = ports s" "outer (nvic_write k s) = outer s"
  by (simp_all add: upd_port_def upd_hw_def nvic_write_def)

lemma set_isr_keeps: "set_isr E l f c s = Inr s' \<Longrightarrow> ports s' = ports s \<and> outer s' = outer s"
  by (auto simp: set_isr_def rbind_eq_Inr)

lemma rx_event_keeps: "ports (snd (rx_event E u s)) = ports s" "outer (snd (rx_event E u s)) = outer s"
proof -
  have "ports (snd (rx_flag E u f ev msg es)) = ports (snd es)" "outer (snd (rx_flag E u f ev msg es)) = outer (snd es)" for f ev msg es
    by (auto simp: rx_flag_def case_prod_beta split: option.splits)
  then show "ports (snd (rx_event E u s)) = ports s" "outer (snd (rx_event E u s)) = outer s" by (simp_all add: rx_event_def)
qed

text \<open>C27: a port that has received by DMA stays deaf afterwards. Closing it does not forget the buffer, so when
  RS485 is closed after a DMA reception, opened again and started with a callback for single bytes, its receive
  interrupt calls no callback at all, whatever the callbacks would do: the bytes are neither read nor passed on.
\<close>

theorem serial_deaf_after_dma:
  assumes "rhs_hal_serial_async_rx_dma_start E (Some RHSHalSerialIdRS485) (Some buf) n s = Inr s1"
    and "rhs_hal_serial_deinit E (Some RHSHalSerialIdRS485) s1 = Inr s2"
    and "rhs_hal_serial_init E RHSHalSerialIdRS485 baud s2 = Inr s3"
    and "rhs_hal_serial_async_rx_start E (Some RHSHalSerialIdRS485) (Some cb) ctxt s3 = Inr s4"
  shows "rx_byte_callback (ports s4 ! RHSHalSerialIdRS485) = Some cb \<and>
    (\<exists>s5. rhs_hal_rs485_rx_irq_callback E (Some RHSHalSerialIdRS485) s4 = Inr s5 \<and> outer s5 = outer s4 \<and> ports s5 = ports s4)"
proof -
  have "1 < length (ports s1) \<and> buffer_rx_ptr (ports s1 ! 1) = Some buf"
    using assms(1,2) by (auto simp: rhs_hal_serial_async_rx_dma_start_def rhs_hal_serial_deinit_def rhs_hal_serial_get_id_def serial_ids
        rhs_hal_rs485_async_rx_dma_start_def dma_start_def rbind_eq_Inr aget_def split: if_splits)
  then have "1 < length (ports s2) \<and> buffer_rx_ptr (ports s2 ! 1) = Some buf"
    using assms(2) by (auto simp: rhs_hal_serial_deinit_def rhs_hal_serial_get_id_def serial_ids rbind_eq_Inr
        rhs_hal_rs485_async_rx_dma_stop_def rhs_hal_rs485_async_tx_dma_stop_def dma_stop_def dest!: set_isr_keeps)
  then have "1 < length (ports s3) \<and> buffer_rx_ptr (ports s3 ! 1) = Some buf"
    using assms(3) by (auto simp: rhs_hal_serial_init_def serial_ids rbind_eq_Inr rhs_hal_rs485_init_def case_prod_beta Let_def)
  then have s4: "1 < length (ports s4) \<and> buffer_rx_ptr (ports s4 ! 1) = Some buf \<and> rx_dma_callback (ports s4 ! 1) = None \<and>
      rx_byte_callback (ports s4 ! 1) = Some cb"
    using assms(4) by (auto simp: rhs_hal_serial_async_rx_start_def rhs_hal_serial_get_id_def serial_ids rbind_eq_Inr Let_def
        dest!: set_isr_keeps)
  then show ?thesis using rx_event_keeps [of E USART6 s4]
    by (auto simp: rhs_hal_rs485_rx_irq_callback_def serial_ids case_prod_beta Let_def)
qed

text \<open>The receive interrupt of RS485 is switched on without a vector. Starting the reception enables the line
  of USART 6 at the controller, and no vector of the program dispatches that line.
\<close>

theorem rs485_line_without_vector:
  assumes "interrupt_controller (nvic_of E) lit" and "guarded lit (nvic_of E) (lines s)"
    and "rhs_hal_serial_async_rx_start E (Some RHSHalSerialIdRS485) (Some cb) ctxt s = Inr s'"
  shows "line_on lit (nvic_of E) (lines s') RHSHalInterruptIdUsart6 \<and> RHSHalInterruptIdUsart6 \<notin> snd ` set vectors"
proof -
  have "\<exists>s1. lines s1 = lines s \<and> set_isr E RHSHalInterruptIdUsart6 (Some Rs485RxIrq) (Some 1) s1 = Inr s'"
    using assms(3)
    by (intro exI [of _ "upd_hw (LL_USART_EnableIT_RXNE (regs E) USART6)
          (upd_port 1 (\<lambda>p. p\<lparr>rx_byte_callback := Some cb, rx_dma_callback := None, port_rx_context := ctxt\<rparr>) s)"])
      (auto simp: rhs_hal_serial_async_rx_start_def rhs_hal_serial_get_id_def serial_ids rbind_eq_Inr Let_def split: if_splits)
  then obtain s1 where s1: "lines s1 = lines s" "set_isr E RHSHalInterruptIdUsart6 (Some Rs485RxIrq) (Some 1) s1 = Inr s'" by blast
  then have "rhs_hal_interrupt_set_isr_ex (nvic_of E) RHSHalInterruptIdUsart6 RHSHalInterruptPriorityNormal (Some Rs485RxIrq) (Some 1)
      (lines s) = Inr (lines s')"
    by (auto simp: set_isr_def rhs_hal_interrupt_set_isr_def rbind_eq_Inr)
  from interrupt_controller.set_isr_guarded [OF assms(1,2) this]
  have "guarded lit (nvic_of E) (lines s')" "isr (isr_table (lines s') ! RHSHalInterruptIdUsart6) \<noteq> None"
    using assms(2) by (simp_all add: guarded_def interrupt_ids)
  then have "line_on lit (nvic_of E) (lines s') RHSHalInterruptIdUsart6" by (simp add: guarded_def interrupt_ids)
  then show ?thesis by (simp add: vectors_def interrupt_ids)
qed

section \<open>An example\<close>

text \<open>Registers that count the polls until the transmitter is free.\<close>

record uart_hw =
  sent_bytes :: "usart \<Rightarrow> u8 list"
  busy_polls :: nat
  data_reg :: "usart \<Rightarrow> u8"
  raised :: "usart \<Rightarrow> usart_flag set"
  remaining :: "dma_stream \<Rightarrow> u32"

definition uart_api :: "uart_hw serial_api" where
  "uart_api = \<lparr>HAL_RCCEx_PeriphCLKConfig = (\<lambda>u h. (True, h)), CLK_ENABLE = (\<lambda>c h. h), HAL_GPIO_Init_AF = (\<lambda>g ps u h. h),
     rserial_open = (\<lambda>u b de h. h), rserial_close = (\<lambda>u h. h), LL_USART_IsEnabled = (\<lambda>u h. True),
     LL_USART_IsActiveFlag_TXE = (\<lambda>u h. (busy_polls h = 0, h\<lparr>busy_polls := busy_polls h - 1\<rparr>)),
     LL_USART_TransmitData8 = (\<lambda>u b h. h\<lparr>sent_bytes := (sent_bytes h)(u := sent_bytes h u @ [b]), busy_polls := 3\<rparr>),
     LL_USART_ReceiveData8 = (\<lambda>u h. (data_reg h u, h\<lparr>raised := (raised h)(u := raised h u - {RXNE})\<rparr>)),
     LL_USART_EnableIT_RXNE = (\<lambda>u h. h), usart_isr = (\<lambda>u f h. f \<in> raised h u),
     usart_icr = (\<lambda>u f h. h\<lparr>raised := (raised h)(u := raised h u - {f})\<rparr>), enable_dma_requests = (\<lambda>u d h. h),
     clear_EN = (\<lambda>d h. h), is_EN = (\<lambda>d h. (False, h)), LL_DMA_set = (\<lambda>d x h. h), LL_DMA_SetMemoryAddress = (\<lambda>d a h. h),
     LL_DMA_SetDataLength = (\<lambda>d n h. h\<lparr>remaining := (remaining h)(d := n)\<rparr>), LL_DMA_GetDataLength = (\<lambda>d h. remaining h d),
     LL_DMA_EnableStream = (\<lambda>d h. h), LL_DMA_DisableStream = (\<lambda>d h. h), LL_DMA_EnableIT_TC = (\<lambda>d h. h),
     LL_DMA_DisableIT_TC = (\<lambda>d h. h), dma_flag = (\<lambda>d f h. False), dma_clear = (\<lambda>d f h. h)\<rparr>"

interpretation uart_api: usart_transmitter uart_api u "\<lambda>h. sent_bytes h u" busy_polls 3
  by unfold_locales (auto simp: uart_api_def)

definition uart_env :: "(string, uart_hw, int set, nat) serial_env" where
  "uart_env = \<lparr>regs = uart_api, nvic_of = set_nvic, isr_cycles = (\<lambda>s. 0), polls = 10, run_rx_byte = (\<lambda>cb i e c s. Inr s),
     run_rx_dma = (\<lambda>cb i e n c s. Inr s), run_tx_done = (\<lambda>cb i c s. Inr s)\<rparr>"

definition closed_port :: "string serial" where
  "closed_port = \<lparr>buffer_rx_ptr = None, buffer_rx_index_write = 0, buffer_rx_index_read = 0, port_enabled = False, instance_of = None,
     rx_byte_callback = None, tx_byte_callback = None, rx_dma_callback = None, tx_dma_callback = None, port_rx_context = None,
     port_tx_context = None\<rparr>"

definition uart_sys :: "(string, uart_hw, int set, nat) serial_sys" where
  "uart_sys = \<lparr>ports = [closed_port, closed_port\<lparr>port_enabled := True, instance_of := Some USART6\<rparr>],
     lines = rhs_hal_interrupt_boot {}, hw = \<lparr>sent_bytes = (\<lambda>u. []), busy_polls = 2, data_reg = (\<lambda>u. 0), raised = (\<lambda>u. {}),
     remaining = (\<lambda>d. 0)\<rparr>, rx_log = [], outer = 0\<rparr>"

lemma uart_env_parts [simp]: "regs uart_env = uart_api" "nvic_of uart_env = set_nvic" "polls uart_env = 10"
  by (simp_all add: uart_env_def)

lemma set_isr_ok:
  assumes "set_isr_checks l RHSHalInterruptPriorityNormal f (lines s)" and "l < length (isr_table (lines s))"
  shows "\<exists>s'. set_isr E l f c s = Inr s' \<and> ports s' = ports s \<and> hw s' = hw s \<and>
    isr_table (lines s') = (isr_table (lines s))[l := \<lparr>isr = f, isr_context = c\<rparr>]"
  using assms by (cases f; cases "isr_table (lines s) ! l") (auto simp: set_isr_def rhs_hal_interrupt_set_isr_def
      rhs_hal_interrupt_set_isr_ex_def set_isr_writes_def rhs_hal_interrupt_disable_def rhs_hal_interrupt_clear_pending_def
      write_isr_def write_context_def set_priority_def enable_line_def)

theorem serial_tx_sends_witness:
  "\<exists>h. rhs_hal_serial_tx uart_env 1 [1, 2, 3] uart_sys = Inr (uart_sys\<lparr>hw := h\<rparr>) \<and> sent_bytes h USART6 = [1, 2, 3]"
proof -
  have "\<exists>h. rhs_hal_serial_tx uart_env 1 [1, 2, 3] uart_sys = Inr (uart_sys\<lparr>hw := h\<rparr>) \<and>
      sent_bytes h USART6 = sent_bytes (hw uart_sys) USART6 @ [1, 2, 3]"
    by (rule serial_tx_sends [where busy = busy_polls and bound = 3 and u = USART6])
      (simp_all add: uart_api.usart_transmitter_axioms uart_sys_def, simp_all add: uart_api_def)
  then show ?thesis by (simp add: uart_sys_def)
qed

theorem rs485_line_without_vector_witness:
  "\<exists>s'. rhs_hal_serial_async_rx_start uart_env (Some 1) (Some ''cb'') (Some 0) uart_sys = Inr s' \<and>
    line_on (\<lambda>i n. i \<in> n) set_nvic (lines s') RHSHalInterruptIdUsart6"
proof -
  let ?s1 = "upd_hw (LL_USART_EnableIT_RXNE uart_api USART6) (upd_port 1 (\<lambda>p. p\<lparr>rx_byte_callback := Some ''cb'',
    rx_dma_callback := None, port_rx_context := Some 0\<rparr>) uart_sys)"
  obtain s' where "set_isr uart_env RHSHalInterruptIdUsart6 (Some Rs485RxIrq) (Some 1) ?s1 = Inr s'"
    using set_isr_ok [where l = RHSHalInterruptIdUsart6 and f = "Some Rs485RxIrq" and s = ?s1 and E = uart_env and c = "Some 1"]
    by (auto simp: set_isr_checks_def uart_sys_def rhs_hal_interrupt_boot_def interrupt_ids interrupt_priorities)
  then have run: "rhs_hal_serial_async_rx_start uart_env (Some RHSHalSerialIdRS485) (Some ''cb'') (Some 0) uart_sys = Inr s'"
    by (simp add: rhs_hal_serial_async_rx_start_def rhs_hal_serial_get_id_def serial_ids Let_def)
      (simp add: uart_sys_def)
  have "line_on (\<lambda>i n. i \<in> n) (nvic_of uart_env) (lines s') RHSHalInterruptIdUsart6 \<and> RHSHalInterruptIdUsart6 \<notin> snd ` set vectors"
    by (rule rs485_line_without_vector [OF _ _ run])
      (simp_all add: set_controller.interrupt_controller_axioms guarded_def line_on_def uart_sys_def rhs_hal_interrupt_boot_def)
  then show ?thesis using run by (auto simp: serial_ids)
qed

theorem serial_deaf_after_dma_witness:
  "\<exists>s1 s2 s3 s4. rhs_hal_serial_async_rx_dma_start uart_env (Some 1) (Some 0x20000000) 64 uart_sys = Inr s1 \<and>
    rhs_hal_serial_deinit uart_env (Some 1) s1 = Inr s2 \<and> rhs_hal_serial_init uart_env 1 9600 s2 = Inr s3 \<and>
    rhs_hal_serial_async_rx_start uart_env (Some 1) (Some ''cb'') None s3 = Inr s4 \<and>
    rx_byte_callback (ports s4 ! 1) = Some ''cb'' \<and>
    (\<exists>s5. rhs_hal_rs485_rx_irq_callback uart_env (Some 1) s4 = Inr s5 \<and> outer s5 = outer s4 \<and> ports s5 = ports s4)"
proof -
  let ?p = "\<lambda>s. 1 < length (ports s) \<and> instance_of (ports s ! 1) = Some USART6"
  let ?free = "\<lambda>s. length (isr_table (lines s)) = RHSHalInterruptIdMax \<and> (\<forall>l<RHSHalInterruptIdMax. isr (isr_table (lines s) ! l) = None)"
  let ?dma = "rhs_hal_serial_async_rx_dma_start uart_env (Some RHSHalSerialIdRS485) (Some 0x20000000) 64 uart_sys"
  obtain s1 where s1: "?dma = Inr s1" "?free s1" "?p s1" "port_enabled (ports s1 ! 1)"
    by (simp add: rhs_hal_serial_async_rx_dma_start_def rhs_hal_serial_get_id_def serial_ids rhs_hal_rs485_async_rx_dma_start_def
        dma_start_def uart_sys_def rhs_hal_interrupt_boot_def)
  have clear: "\<exists>s'. set_isr uart_env l None None s = Inr s' \<and> ports s' = ports s \<and> hw s' = hw s \<and> ?free s'"
    if "?free s" "l < RHSHalInterruptIdMax" for s l
    using set_isr_ok [of l None s uart_env None] that by (auto simp: set_isr_checks_def interrupt_priorities nth_list_update)
  let ?stop = "rhs_hal_rs485_async_rx_dma_stop uart_env (rhs_hal_rs485_async_tx_dma_stop uart_env s1)"
  have "?free ?stop" "ports ?stop = ports s1"
    using s1(2) by (simp_all add: rhs_hal_rs485_async_rx_dma_stop_def rhs_hal_rs485_async_tx_dma_stop_def dma_stop_def nvic_write_def upd_hw_def)
  moreover have ids: "RHSHalInterruptIdUsart6 < RHSHalInterruptIdMax" "RHSHalInterruptIdDMA2Stream1 < RHSHalInterruptIdMax"
      "RHSHalInterruptIdDMA2Stream6 < RHSHalInterruptIdMax" by (simp_all add: interrupt_ids)
  ultimately obtain a where a: "set_isr uart_env RHSHalInterruptIdUsart6 None None ?stop = Inr a" "ports a = ports s1" "?free a"
    using clear by metis
  then obtain b where b: "set_isr uart_env RHSHalInterruptIdDMA2Stream1 None None a = Inr b" "ports b = ports s1" "?free b"
    using clear [OF a(3) ids(2)] by auto
  then obtain s' where "set_isr uart_env RHSHalInterruptIdDMA2Stream6 None None b = Inr s'" "ports s' = ports s1" "?free s'"
    using clear [OF b(3) ids(3)] by auto
  note this a b
  with s1(3,4) obtain s2 where s2: "rhs_hal_serial_deinit uart_env (Some RHSHalSerialIdRS485) s1 = Inr s2" "?free s2" "1 < length (ports s2)"
      "\<not> port_enabled (ports s2 ! 1)"
    by (simp add: rhs_hal_serial_deinit_def rhs_hal_serial_get_id_def serial_ids)
  obtain s3 where s3: "rhs_hal_serial_init uart_env RHSHalSerialIdRS485 9600 s2 = Inr s3" "?free s3" "1 < length (ports s3)"
      "port_enabled (ports s3 ! 1)"
    using s2 by (simp add: rhs_hal_serial_init_def serial_ids rhs_hal_rs485_init_def uart_api_def Let_def)
  let ?s = "upd_hw (LL_USART_EnableIT_RXNE uart_api USART6) (upd_port 1 (\<lambda>p. p\<lparr>rx_byte_callback := Some ''cb'',
    rx_dma_callback := None, port_rx_context := None\<rparr>) s3)"
  obtain s4 where "set_isr uart_env RHSHalInterruptIdUsart6 (Some Rs485RxIrq) (Some 1) ?s = Inr s4"
    using set_isr_ok [where l = RHSHalInterruptIdUsart6 and f = "Some Rs485RxIrq" and s = ?s and E = uart_env and c = "Some 1"] s3(2)
    by (auto simp: set_isr_checks_def interrupt_ids interrupt_priorities)
  then have s4: "rhs_hal_serial_async_rx_start uart_env (Some RHSHalSerialIdRS485) (Some ''cb'') None s3 = Inr s4"
    using s3 by (simp add: rhs_hal_serial_async_rx_start_def rhs_hal_serial_get_id_def serial_ids Let_def)
  from serial_deaf_after_dma [OF s1(1) s2(1) s3(1) s4] show ?thesis
    using s1(1) s2(1) s3(1) s4 unfolding serial_ids by blast
qed

end
