(* ===== verification/Usb.thy ===== *)
theory Usb
  imports Prelude
begin

text \<open>
  What the users of the USB device share: the interface that is set (\<open>rhs_hal_usb_set_interface\<close>
  of hal/rhs_hal_usb/rhs_hal_usb.c) and the dispatch of the network callbacks
  (hal/rhs_hal_usb/tud_net_dispatch.c). An interface of the code is a set of descriptors with
  functions that start and end it; the stack, on a state \<open>'u\<close>, is a parameter.
\<close>

section \<open>The interface\<close>

datatype usb_interface = UsbCdcDesc | UsbCdcNetDesc | BridgeUsbDesc

text \<open>\<open>usb_init\<close> and \<open>usb_deinit\<close> are the functions of an interface, without an effect where it has none.\<close>

record 'u usb_api =
  usb_init :: "usb_interface \<Rightarrow> 'u \<Rightarrow> 'u"
  usb_deinit :: "usb_interface \<Rightarrow> 'u \<Rightarrow> 'u"
  descriptor_switch_mode :: "usb_interface \<Rightarrow> 'u \<Rightarrow> 'u"

definition rhs_hal_usb_set_interface ::
  "('u, 'z) usb_api_scheme \<Rightarrow> usb_interface option \<Rightarrow> usb_interface option \<times> 'u \<Rightarrow> usb_interface option \<times> 'u" where
  "rhs_hal_usb_set_interface T iface = (\<lambda>(s_usb_desc, u).
     if iface = s_usb_desc then (s_usb_desc, u)
     else let u1 = (case s_usb_desc of None \<Rightarrow> u | Some i \<Rightarrow> usb_deinit T i u) in
       (iface, case iface of None \<Rightarrow> u1 | Some i \<Rightarrow> usb_init T i (descriptor_switch_mode T i u1)))"

lemma set_interface_fst [simp]: "fst (rhs_hal_usb_set_interface T i x) = i"
  by (cases x) (simp add: rhs_hal_usb_set_interface_def Let_def)

section \<open>The network callbacks\<close>

text \<open>The operations of the two modules that register some, with their context, the address of an object.\<close>

datatype net_ops = CdcNetOps nat | BridgeOps nat

definition tud_net_dispatch_set :: "net_ops \<Rightarrow> net_ops option \<Rightarrow> net_ops option res" where
  "tud_net_dispatch_set ops s_ops = rhs_assert (s_ops = None) (Inr (Some ops))"

definition tud_net_dispatch_clear :: "net_ops option \<Rightarrow> net_ops option" where
  "tud_net_dispatch_clear s_ops = None"

definition tud_network_mac_address :: "u8 list" where
  "tud_network_mac_address = [2, 2, 0x84, 0x6A, 0x96, 0]"

text \<open>
  The network part of the stack. \<open>tud_net_task\<close> is \<open>tud_task\<close>: it handles what the stack has to do and gives the frames from
  the host for which it calls the receive callback.
\<close>

record 'u tud_net =
  tud_ready :: "'u \<Rightarrow> bool"
  tud_inited :: "'u \<Rightarrow> bool"
  tud_connected :: "'u \<Rightarrow> bool"
  tud_network_can_xmit :: "u16 \<Rightarrow> 'u \<Rightarrow> bool"
  tud_network_xmit :: "u8 list \<Rightarrow> 'u \<Rightarrow> 'u"
  tud_network_recv_renew :: "'u \<Rightarrow> 'u"
  tud_net_task :: "'u \<Rightarrow> u8 list list \<times> 'u"

text \<open>The callbacks call the registered operation, on a state of its module, if there is one.\<close>

definition tud_network_recv_cb :: "(net_ops \<Rightarrow> u8 list \<Rightarrow> 's \<Rightarrow> bool \<times> 's) \<Rightarrow> net_ops option \<Rightarrow> u8 list \<Rightarrow> 's \<Rightarrow> bool \<times> 's" where
  "tud_network_recv_cb recv s_ops buf s = (case s_ops of None \<Rightarrow> (False, s) | Some ops \<Rightarrow> recv ops buf s)"

definition tud_network_init_cb :: "(net_ops \<Rightarrow> 's \<Rightarrow> 's) \<Rightarrow> net_ops option \<Rightarrow> 's \<Rightarrow> 's" where
  "tud_network_init_cb init s_ops s = (case s_ops of None \<Rightarrow> s | Some ops \<Rightarrow> init ops s)"

text \<open>The copy of a frame to send into the buffer of the stack, and its length.\<close>

definition tud_network_xmit_cb :: "(net_ops \<Rightarrow> u8 list \<Rightarrow> nat \<Rightarrow> u8 list) \<Rightarrow> net_ops option \<Rightarrow> u8 list \<Rightarrow> nat \<Rightarrow> u8 list" where
  "tud_network_xmit_cb xmit s_ops ref arg = (case s_ops of None \<Rightarrow> [] | Some ops \<Rightarrow> xmit ops ref arg)"

text \<open>The loop that runs the stack until it has place for a frame; the model follows \<open>n\<close> rounds.\<close>

fun wait_xmit :: "nat \<Rightarrow> ('s \<Rightarrow> bool) \<Rightarrow> ('s \<Rightarrow> 's) \<Rightarrow> 's \<Rightarrow> 's res" where
  "wait_xmit 0 can task s = (if can s then Inr s else Inl Blocked)"
| "wait_xmit (Suc n) can task s = (if can s then Inr s else wait_xmit n can task (task s))"

lemma wait_xmit_invariant:
  "wait_xmit n can task s = Inr s' \<Longrightarrow> R s s \<Longrightarrow> (\<And>t. R s t \<Longrightarrow> R s (task t)) \<Longrightarrow> R s s' \<and> can s'"
proof -
  assume w: "wait_xmit n can task s = Inr s'" and r: "R s s" and i: "\<And>t. R s t \<Longrightarrow> R s (task t)"
  have "wait_xmit n can task t = Inr s' \<Longrightarrow> R s t \<Longrightarrow> R s s' \<and> can s'" for t
    using i by (induction n arbitrary: t) (auto split: if_splits)
  then show ?thesis using w r by blast
qed

lemma wait_xmit_never:
  assumes "\<And>t. P t \<Longrightarrow> \<not> can t \<and> P (task t)" and "P s"
  shows "wait_xmit n can task s = Inl Blocked"
  using assms by (induction n arbitrary: s) auto

end
