(* ===== verification/Usb_Serial_Bridge.thy ===== *)
theory Usb_Serial_Bridge
  imports Serial Usb Stream_Buffer Semaphore Mutex Thread "HOL-Library.Sublist"
begin

text \<open>
  The bridge between a virtual COM port and a serial port
  (applications/services/usb_serial_bridge/usb_serial_bridge.c) with the port functions of
  hal/rhs_hal_usb/rhs_hal_usb_cdc.c. A bridge is an object on the heap with two threads: the
  worker, which moves what the serial interrupt has put into a stream buffer to USB, and a
  second one, which moves what USB has received to the serial port. Both are machines that
  stop before every call that other tasks or interrupts can see; the interrupts of the serial
  ports, the callbacks of the USB stack and the end of the threads come between their steps.
  The bridges are the world of the serial driver's state. The USB stack is a parameter.
\<close>

section \<open>Data\<close>

definition WorkerEvtStop :: u32 where "WorkerEvtStop = 1"
definition WorkerEvtRxDone :: u32 where "WorkerEvtRxDone = 2"
definition WorkerEvtTxStop :: u32 where "WorkerEvtTxStop = 4"
definition WorkerEvtCdcRx :: u32 where "WorkerEvtCdcRx = 8"
definition WorkerEvtCdcTxComplete :: u32 where "WorkerEvtCdcTxComplete = 16"
definition WorkerEvtCfgChange :: u32 where "WorkerEvtCfgChange = 32"
definition WorkerEvtLineCfgSet :: u32 where "WorkerEvtLineCfgSet = 64"
definition WorkerEvtCtrlLineSet :: u32 where "WorkerEvtCtrlLineSet = 128"

definition WORKER_ALL_RX_EVENTS :: u32 where
  "WORKER_ALL_RX_EVENTS = WorkerEvtStop OR WorkerEvtRxDone OR WorkerEvtCfgChange OR WorkerEvtLineCfgSet OR
     WorkerEvtCtrlLineSet OR WorkerEvtCdcTxComplete"

definition WORKER_ALL_TX_EVENTS :: u32 where
  "WORKER_ALL_TX_EVENTS = WorkerEvtTxStop OR WorkerEvtCdcRx"

lemmas worker_events = WorkerEvtStop_def WorkerEvtRxDone_def WorkerEvtTxStop_def WorkerEvtCdcRx_def WorkerEvtCdcTxComplete_def
  WorkerEvtCfgChange_def WorkerEvtLineCfgSet_def WorkerEvtCtrlLineSet_def WORKER_ALL_RX_EVENTS_def WORKER_ALL_TX_EVENTS_def

record usb_serial_config =
  vcp_ch :: u8
  serial_ch :: u8
  flow_pins :: u8
  baudrate_mode :: u8
  baudrate :: u32
  software_de_re :: u8

text \<open>
  Where the worker is. Between its calls it keeps the events it is handling and the number of
  bytes it has received; the last two stages of a thread are its end and the clean-up by the
  thread service.
\<close>

datatype worker_pc = WNew | WInit | WSerial | WFlag | WStart | WWait | WReceive u32 | WSem u32 u16 | WLock u32 u16
  | WUsb u32 u16 | WUnlock u32 u16 | WCfg u32 | WJoinVcp u32 | WCfgSerial u32 | WJoinSerial u32 | WCfgRest u32
  | WVcpDown | WSerialDown | WTxStop | WJoin | WFree | WExit | WLeft | WGone

datatype tx_pc = TxNone | TxNew | TxWait | TxLock | TxReceive | TxUnlock "u8 list" | TxSend "u8 list" | TxExit | TxLeft

text \<open>
  An object of a bridge. The notification values of its threads and the places of their
  programs are the kernel's; \<open>tx_thread\<close> is \<open>None\<close> before it is allocated.
\<close>

record 't bridge =
  cfg :: usb_serial_config
  cfg_new :: usb_serial_config
  worker :: thread
  worker_flags :: u32
  worker_at :: worker_pc
  tx_thread :: "thread option"
  tx_flags :: u32
  tx_at :: tx_pc
  rx_stream :: "stream_obj option"
  serial_handle :: "nat option"
  usb_mutex :: "'t mutex_obj option"
  tx_sem :: "sem_obj option"
  rx_cnt :: u32
  tx_cnt :: u32
  rx_buf :: "u8 list"

text \<open>
  The world: the USB stack, the interface that is set, the bridge whose callbacks each of the two ports has, their
  control lines, and the objects.
\<close>

definition IF_NUM_MAX :: nat where "IF_NUM_MAX = 2"

record ('t, 'u) usb_world =
  tusb :: 'u
  s_usb_desc :: "usb_interface option"
  callbacks :: "nat option list"
  cdc_ctrl_line_state :: "u8 list"
  objects :: "nat \<Rightarrow> 't bridge option"
  usb_rs232 :: "nat option"
  usb_rs485 :: "nat option"

datatype bridge_cb = SerialRxCb

record 'u tud_api = "'u usb_api" +
  USB_CDC_PKT_LEN :: u16
  tud_cdc_n_write_char :: "nat \<Rightarrow> u8 \<Rightarrow> 'u \<Rightarrow> 'u"
  tud_cdc_n_write_flush :: "nat \<Rightarrow> 'u \<Rightarrow> 'u"
  tud_cdc_n_available :: "nat \<Rightarrow> 'u \<Rightarrow> nat"
  tud_cdc_n_read :: "nat \<Rightarrow> nat \<Rightarrow> 'u \<Rightarrow> u8 list \<times> 'u"

type_synonym ('h, 'n, 't, 'u) bridge_sys = "(bridge_cb, 'h, 'n, ('t, 'u) usb_world) serial_sys"

text \<open>\<open>worker_task\<close> and \<open>tx_task\<close> are the tasks of the threads of an object; \<open>heap_ok\<close> says whether an allocation succeeds.\<close>

record ('h, 'n, 't, 'u) bridge_env =
  port :: "(bridge_cb, 'h, 'n, ('t, 'u) usb_world) serial_env"
  streams :: stream_api
  sems :: sem_api
  mutexes :: "'t mutex_api"
  notify :: notify_api
  tud :: "'u tud_api"
  worker_task :: "nat \<Rightarrow> 't"
  tx_task :: "nat \<Rightarrow> 't"
  heap_ok :: bool
  junk :: bool

section \<open>The objects\<close>

definition the_obj :: "'a option \<Rightarrow> 'a res" where
  "the_obj x = (case x of None \<Rightarrow> Inl AssertFailed | Some a \<Rightarrow> Inr a)"

definition bridge_at :: "nat \<Rightarrow> ('h, 'n, 't, 'u) bridge_sys \<Rightarrow> 't bridge res" where
  "bridge_at b s = (case objects (outer s) b of None \<Rightarrow> Inl OutOfBounds | Some u \<Rightarrow> Inr u)"

definition put_bridge :: "nat \<Rightarrow> 't bridge \<Rightarrow> ('h, 'n, 't, 'u) bridge_sys \<Rightarrow> ('h, 'n, 't, 'u) bridge_sys" where
  "put_bridge b u s = s\<lparr>outer := (outer s)\<lparr>objects := (objects (outer s))(b \<mapsto> u)\<rparr>\<rparr>"

definition upd_tusb :: "('u \<Rightarrow> 'u) \<Rightarrow> ('h, 'n, 't, 'u) bridge_sys \<Rightarrow> ('h, 'n, 't, 'u) bridge_sys" where
  "upd_tusb f s = s\<lparr>outer := (outer s)\<lparr>tusb := f (tusb (outer s))\<rparr>\<rparr>"

definition set_worker :: "('h, 'n, 't, 'u) bridge_env \<Rightarrow> u32 \<Rightarrow> 't bridge \<Rightarrow> 't bridge" where
  "set_worker E f u = u\<lparr>worker_flags := snd (rhs_thread_flags_set (notify E) True (worker_flags u) f)\<rparr>"

definition set_tx :: "('h, 'n, 't, 'u) bridge_env \<Rightarrow> u32 \<Rightarrow> 't bridge \<Rightarrow> 't bridge res" where
  "set_tx E f u = rbind (the_obj (tx_thread u)) (\<lambda>_.
     Inr (u\<lparr>tx_flags := snd (rhs_thread_flags_set (notify E) True (tx_flags u) f)\<rparr>))"

section \<open>The callbacks\<close>

definition serial_rx_cb ::
  "('h, 'n, 't, 'u) bridge_env \<Rightarrow> nat \<Rightarrow> u32 \<Rightarrow> nat \<Rightarrow> ('h, 'n, 't, 'u) bridge_sys \<Rightarrow> ('h, 'n, 't, 'u) bridge_sys res" where
  "serial_rx_cb E handle event b s =
     rbind (rhs_hal_serial_async_rx (port E) isr_ctx (Some handle) s) (\<lambda>(_, s1).
     if event AND RHSHalSerialRxEventData = 0 then Inr s1
     else rbind (rhs_hal_serial_async_rx (port E) isr_ctx (Some handle) s1) (\<lambda>(d, s2).
       rbind (bridge_at b s2) (\<lambda>u.
       rbind (the_obj (rx_stream u)) (\<lambda>st.
       rbind (rhs_stream_buffer_send (streams E) isr_ctx (junk E) st [d] 0) (\<lambda>(_, _, st').
       Inr (put_bridge b (set_worker E WorkerEvtRxDone (u\<lparr>rx_stream := Some st'\<rparr>)) s2))))))"

definition vcp_on_cdc_tx_complete ::
  "('h, 'n, 't, 'u) bridge_env \<Rightarrow> nat \<Rightarrow> ('h, 'n, 't, 'u) bridge_sys \<Rightarrow> ('h, 'n, 't, 'u) bridge_sys res" where
  "vcp_on_cdc_tx_complete E b s =
     rbind (bridge_at b s) (\<lambda>u.
     rbind (the_obj (tx_sem u)) (\<lambda>sem.
     case rhs_semaphore_release (sems E) task_ctx sem of (_, _, sem') \<Rightarrow>
     Inr (put_bridge b (set_worker E WorkerEvtCdcTxComplete (u\<lparr>tx_sem := Some sem'\<rparr>)) s)))"

definition vcp_on_cdc_rx :: "('h, 'n, 't, 'u) bridge_env \<Rightarrow> nat \<Rightarrow> ('h, 'n, 't, 'u) bridge_sys \<Rightarrow> ('h, 'n, 't, 'u) bridge_sys res" where
  "vcp_on_cdc_rx E b s = rbind (bridge_at b s) (\<lambda>u. rbind (set_tx E WorkerEvtCdcRx u) (\<lambda>u'. Inr (put_bridge b u' s)))"

definition vcp_on_cdc_control_line ::
  "('h, 'n, 't, 'u) bridge_env \<Rightarrow> nat \<Rightarrow> u8 \<Rightarrow> ('h, 'n, 't, 'u) bridge_sys \<Rightarrow> ('h, 'n, 't, 'u) bridge_sys res" where
  "vcp_on_cdc_control_line E b line_state s =
     rbind (bridge_at b s) (\<lambda>u. Inr (put_bridge b (set_worker E WorkerEvtCtrlLineSet u) s))"

section \<open>The ports of the USB stack\<close>

text \<open>
  The callbacks are always those of a bridge; nothing sets \<open>connected\<close>, so the one for the state, which does
  nothing, is never called.
\<close>

definition tud_cdc_rx_cb :: "('h, 'n, 't, 'u) bridge_env \<Rightarrow> nat \<Rightarrow> ('h, 'n, 't, 'u) bridge_sys \<Rightarrow> ('h, 'n, 't, 'u) bridge_sys res" where
  "tud_cdc_rx_cb E itf s = rbind (aget (callbacks (outer s)) itf) (\<lambda>cb. case cb of None \<Rightarrow> Inr s | Some b \<Rightarrow> vcp_on_cdc_rx E b s)"

definition tud_cdc_tx_complete_cb ::
  "('h, 'n, 't, 'u) bridge_env \<Rightarrow> nat \<Rightarrow> ('h, 'n, 't, 'u) bridge_sys \<Rightarrow> ('h, 'n, 't, 'u) bridge_sys res" where
  "tud_cdc_tx_complete_cb E itf s =
     rbind (aget (callbacks (outer s)) itf) (\<lambda>cb. case cb of None \<Rightarrow> Inr s | Some b \<Rightarrow> vcp_on_cdc_tx_complete E b s)"

definition rhs_hal_cdc_set_callbacks ::
  "('h, 'n, 't, 'u) bridge_env \<Rightarrow> nat \<Rightarrow> nat option \<Rightarrow> ('h, 'n, 't, 'u) bridge_sys \<Rightarrow> ('h, 'n, 't, 'u) bridge_sys res" where
  "rhs_hal_cdc_set_callbacks E if_num cb s =
     rhs_assert (if_num < IF_NUM_MAX)
       (rbind (aset (callbacks (outer s)) if_num cb) (\<lambda>cbs.
        rbind (aget (cdc_ctrl_line_state (outer s)) if_num) (\<lambda>line.
        let s1 = s\<lparr>outer := (outer s)\<lparr>callbacks := cbs\<rparr>\<rparr> in
        case cb of None \<Rightarrow> Inr s1 | Some b \<Rightarrow> vcp_on_cdc_control_line E b line s1)))"

definition rhs_hal_cdc_send :: "'u tud_api \<Rightarrow> nat \<Rightarrow> u8 list \<Rightarrow> 'u \<Rightarrow> 'u" where
  "rhs_hal_cdc_send T if_num buf u = tud_cdc_n_write_flush T if_num (fold (tud_cdc_n_write_char T if_num) buf u)"

definition rhs_hal_cdc_receive :: "'u tud_api \<Rightarrow> nat \<Rightarrow> u16 \<Rightarrow> 'u \<Rightarrow> u8 list \<times> 'u" where
  "rhs_hal_cdc_receive T if_num max_len u =
     (if tud_cdc_n_available T if_num u \<noteq> 0 then tud_cdc_n_read T if_num (unat max_len) u else ([], u))"

definition set_cdc_interface :: "'u tud_api \<Rightarrow> ('h, 'n, 't, 'u) bridge_sys \<Rightarrow> ('h, 'n, 't, 'u) bridge_sys" where
  "set_cdc_interface T s = (case rhs_hal_usb_set_interface T (Some UsbCdcDesc) (s_usb_desc (outer s), tusb (outer s)) of (i, u) \<Rightarrow>
     s\<lparr>outer := (outer s)\<lparr>s_usb_desc := i, tusb := u\<rparr>\<rparr>)"

definition usb_serial_vcp_init ::
  "('h, 'n, 't, 'u) bridge_env \<Rightarrow> nat \<Rightarrow> u8 \<Rightarrow> ('h, 'n, 't, 'u) bridge_sys \<Rightarrow> ('h, 'n, 't, 'u) bridge_sys res" where
  "usb_serial_vcp_init E b ch s = rhs_hal_cdc_set_callbacks E (unat ch) (Some b) (set_cdc_interface (tud E) s)"

definition usb_serial_vcp_deinit ::
  "('h, 'n, 't, 'u) bridge_env \<Rightarrow> u8 \<Rightarrow> ('h, 'n, 't, 'u) bridge_sys \<Rightarrow> ('h, 'n, 't, 'u) bridge_sys res" where
  "usb_serial_vcp_deinit E ch s = rhs_hal_cdc_set_callbacks E (unat ch) None s"

section \<open>The threads\<close>

text \<open>The serial driver's environment with the bridge's callback, the only one that is registered.\<close>

definition bridge_port :: "('h, 'n, 't, 'u) bridge_env \<Rightarrow> (bridge_cb, 'h, 'n, ('t, 'u) usb_world) serial_env" where
  "bridge_port E = (port E)\<lparr>run_rx_byte := (\<lambda>cb i event ctxt s.
     case ctxt of None \<Rightarrow> Inl OutOfBounds | Some b \<Rightarrow> serial_rx_cb E i event b s),
     run_rx_dma := (\<lambda>cb i event n ctxt. Inr), run_tx_done := (\<lambda>cb i ctxt. Inr)\<rparr>"

text \<open>The two calls that open a serial port, and the one that closes it.\<close>

definition open_serial ::
  "('h, 'n, 't, 'u) bridge_env \<Rightarrow> nat \<Rightarrow> u8 \<Rightarrow> u32 \<Rightarrow> ('h, 'n, 't, 'u) bridge_sys \<Rightarrow> ('h, 'n, 't, 'u) bridge_sys res" where
  "open_serial E b ch baud s =
     rbind (rhs_hal_serial_init (bridge_port E) (unat ch) baud s) (\<lambda>s1.
     rbind (bridge_at b s1) (\<lambda>u.
     rhs_hal_serial_async_rx_start (bridge_port E) (Some (unat ch)) (Some SerialRxCb) (Some b)
       (put_bridge b (u\<lparr>serial_handle := Some (unat ch)\<rparr>) s1)))"

definition usb_uart_serial_init ::
  "('h, 'n, 't, 'u) bridge_env \<Rightarrow> nat \<Rightarrow> u8 \<Rightarrow> ('h, 'n, 't, 'u) bridge_sys \<Rightarrow> ('h, 'n, 't, 'u) bridge_sys res" where
  "usb_uart_serial_init E b ch = open_serial E b ch 115200"

definition usb_uart_serial_deinit ::
  "('h, 'n, 't, 'u) bridge_env \<Rightarrow> nat \<Rightarrow> ('h, 'n, 't, 'u) bridge_sys \<Rightarrow> ('h, 'n, 't, 'u) bridge_sys res" where
  "usb_uart_serial_deinit E b s =
     rbind (bridge_at b s) (\<lambda>u.
     rbind (rhs_hal_serial_deinit (bridge_port E) (serial_handle u) s) (\<lambda>s1.
     rbind (bridge_at b s1) (\<lambda>u1. Inr (put_bridge b (u1\<lparr>serial_handle := None\<rparr>) s1))))"

text \<open>A thread's start: the new task begins without notifications.\<close>

definition start_tx :: "'t bridge \<Rightarrow> 't bridge res" where
  "start_tx u = rbind (the_obj (tx_thread u)) (\<lambda>th. rbind (rhs_thread_start th) (\<lambda>th'.
     Inr (u\<lparr>tx_thread := Some th', tx_flags := 0, tx_at := TxNew\<rparr>)))"

text \<open>
  A wait for flags returns when one is set: the events, and what is left of the value. The result of a step
  that has to wait is \<open>Blocked\<close>.
\<close>

definition flags_wait :: "u32 \<Rightarrow> u32 \<Rightarrow> (u32 \<times> u32) res" where
  "flags_wait all_events v =
     rbind (rhs_thread_flags_wait task_ctx all_events RHSFlagWaitAny RHSWaitForever 0 (if v = 0 then [] else [(True, v, 0)])) (\<lambda>(events, _).
     Inr (events, v AND NOT (flags_wait_clear all_events RHSFlagWaitAny)))"

definition RHSFlagError :: u32 where "RHSFlagError = 0x80000000"

definition lock_usb :: "('h, 'n, 't, 'u) bridge_env \<Rightarrow> 't \<Rightarrow> 't bridge \<Rightarrow> 't bridge res" where
  "lock_usb E me u = rbind (the_obj (usb_mutex u)) (\<lambda>m.
     rbind (rhs_mutex_acquire (mutexes E) task_ctx me m RHSWaitForever) (\<lambda>(st, m').
     rhs_assert (st = RHSStatusOk) (Inr (u\<lparr>usb_mutex := Some m'\<rparr>))))"

definition unlock_usb :: "('h, 'n, 't, 'u) bridge_env \<Rightarrow> 't \<Rightarrow> 't bridge \<Rightarrow> 't bridge res" where
  "unlock_usb E me u = rbind (the_obj (usb_mutex u)) (\<lambda>m.
     rbind (rhs_mutex_release (mutexes E) task_ctx me m) (\<lambda>(st, m').
     rhs_assert (st = RHSStatusOk) (Inr (u\<lparr>usb_mutex := Some m'\<rparr>))))"

text \<open>\<open>usb_serial_tx_thread\<close>, up to its next call.\<close>

definition usb_serial_tx_thread ::
  "('h, 'n, 't, 'u) bridge_env \<Rightarrow> nat \<Rightarrow> 't bridge \<Rightarrow> ('h, 'n, 't, 'u) bridge_sys \<Rightarrow> ('h, 'n, 't, 'u) bridge_sys res" where
  "usb_serial_tx_thread E b u s = (case tx_at u of
     TxNone \<Rightarrow> Inl Blocked
   | TxNew \<Rightarrow> rbind (the_obj (tx_thread u)) (\<lambda>th. rbind (rhs_thread_body_enter (Suc 0) th None) (\<lambda>(th', _).
       Inr (put_bridge b (u\<lparr>tx_thread := Some th', tx_at := TxWait\<rparr>) s)))
   | TxWait \<Rightarrow> rbind (flags_wait WORKER_ALL_TX_EVENTS (tx_flags u)) (\<lambda>(events, v).
       rhs_assert (events AND RHSFlagError = 0)
         (Inr (put_bridge b (u\<lparr>tx_flags := v, tx_at :=
            (if events AND WorkerEvtTxStop \<noteq> 0 then TxExit else if events AND WorkerEvtCdcRx \<noteq> 0 then TxLock else TxWait)\<rparr>) s)))
   | TxLock \<Rightarrow> rbind (lock_usb E (tx_task E b) u) (\<lambda>u'. Inr (put_bridge b (u'\<lparr>tx_at := TxReceive\<rparr>) s))
   | TxReceive \<Rightarrow> (case rhs_hal_cdc_receive (tud E) (unat (vcp_ch (cfg u))) (USB_CDC_PKT_LEN (tud E)) (tusb (outer s)) of (d, tu) \<Rightarrow>
       Inr (upd_tusb (\<lambda>_. tu) (put_bridge b (u\<lparr>tx_at := TxUnlock d\<rparr>) s)))
   | TxUnlock d \<Rightarrow> rbind (unlock_usb E (tx_task E b) u) (\<lambda>u'. Inr (put_bridge b
       (if d \<noteq> [] then u'\<lparr>tx_cnt := tx_cnt u' + of_nat (length d), tx_at := TxSend d\<rparr> else u'\<lparr>tx_at := TxWait\<rparr>) s))
   | TxSend d \<Rightarrow> (case serial_handle u of None \<Rightarrow> Inl OutOfBounds
       | Some i \<Rightarrow> rhs_hal_serial_tx (bridge_port E) i d (put_bridge b (u\<lparr>tx_at := TxWait\<rparr>) s))
   | TxExit \<Rightarrow> rbind (the_obj (tx_thread u)) (\<lambda>th. rbind (rhs_thread_body_leave th 0) (\<lambda>th'.
       Inr (put_bridge b (u\<lparr>tx_thread := Some th', tx_at := TxLeft\<rparr>) s)))
   | TxLeft \<Rightarrow> rbind (the_obj (tx_thread u)) (\<lambda>th. rbind (rhs_thread_scrub_finish (Suc 0) th (Some (Suc 0))) (\<lambda>(th', _).
       Inr (put_bridge b (u\<lparr>tx_thread := Some th', tx_at := TxNone\<rparr>) s))))"

text \<open>
  The worker, up to its next call. Where the configuration has changed, the last thing it does is to unlock
  \<open>cfg_lock\<close>, which no code sets.
\<close>

definition worker_init :: "('h, 'n, 't, 'u) bridge_env \<Rightarrow> nat \<Rightarrow> 't bridge \<Rightarrow> ('h, 'n, 't, 'u) bridge_sys \<Rightarrow> ('h, 'n, 't, 'u) bridge_sys res" where
  "worker_init E b u s =
     rbind (rhs_stream_buffer_alloc (streams E) (USB_CDC_PKT_LEN (tud E) * 5) 1) (\<lambda>st.
     rbind (rhs_semaphore_alloc (sems E) task_ctx 1 1) (\<lambda>sem.
     rbind (rhs_mutex_alloc (mutexes E) task_ctx RHSMutexTypeNormal) (\<lambda>m.
     rbind (rhs_thread_alloc (heap_ok E) (heap_ok E) (Some ''UsbSerialTxWorker'') 1024 (Some 2) b) (\<lambda>th.
     usb_serial_vcp_init E b (vcp_ch (cfg_new u))
       (put_bridge b (u\<lparr>cfg := cfg_new u, rx_stream := Some st, tx_sem := Some sem, usb_mutex := Some m, tx_thread := Some th,
          worker_at := WSerial\<rparr>) s)))))"

definition stop_tx :: "('h, 'n, 't, 'u) bridge_env \<Rightarrow> nat \<Rightarrow> worker_pc \<Rightarrow> 't bridge \<Rightarrow> ('h, 'n, 't, 'u) bridge_sys \<Rightarrow> ('h, 'n, 't, 'u) bridge_sys res" where
  "stop_tx E b next u s = rbind (set_tx E WorkerEvtTxStop u) (\<lambda>u'. Inr (put_bridge b (u'\<lparr>worker_at := next\<rparr>) s))"

definition join_tx :: "'t bridge \<Rightarrow> unit res" where
  "join_tx u = rbind (the_obj (tx_thread u)) (\<lambda>th. rbind (rhs_thread_join (Suc 0) (Some 0) th) (\<lambda>over.
     if over then Inr () else Inl Blocked))"

definition goto :: "nat \<Rightarrow> worker_pc \<Rightarrow> ('h, 'n, 't, 'u) bridge_sys \<Rightarrow> ('h, 'n, 't, 'u) bridge_sys res" where
  "goto b l s = rbind (bridge_at b s) (\<lambda>u. Inr (put_bridge b (u\<lparr>worker_at := l\<rparr>) s))"

definition worker_wait :: "'t bridge \<Rightarrow> 't bridge res" where
  "worker_wait u = rbind (flags_wait WORKER_ALL_RX_EVENTS (worker_flags u)) (\<lambda>(events, v).
     rhs_assert (events AND RHSFlagError = 0)
       (Inr (u\<lparr>worker_flags := v, worker_at :=
          (if events AND WorkerEvtStop \<noteq> 0 then WVcpDown
           else if events AND (WorkerEvtRxDone OR WorkerEvtCdcTxComplete) \<noteq> 0 then WReceive events else WCfg events)\<rparr>)))"

definition worker_receive :: "('h, 'n, 't, 'u) bridge_env \<Rightarrow> u32 \<Rightarrow> 't bridge \<Rightarrow> 't bridge res" where
  "worker_receive E events u = rbind (the_obj (rx_stream u)) (\<lambda>st.
     rbind (rhs_stream_buffer_receive (streams E) task_ctx (junk E) st (USB_CDC_PKT_LEN (tud E)) 0) (\<lambda>(len, d, _, st').
     Inr (u\<lparr>rx_stream := Some st', rx_buf := d @ drop (length d) (rx_buf u),
       worker_at := (if len > 0 then WSem events len else WCfg events)\<rparr>)))"

definition worker_sem :: "('h, 'n, 't, 'u) bridge_env \<Rightarrow> u32 \<Rightarrow> u16 \<Rightarrow> 't bridge \<Rightarrow> 't bridge res" where
  "worker_sem E events len u = rbind (the_obj (tx_sem u)) (\<lambda>sem.
     rbind (rhs_semaphore_acquire (sems E) task_ctx sem 100) (\<lambda>(st, _, sem').
     let u1 = u\<lparr>tx_sem := Some sem'\<rparr> in
     if st = RHSStatusOk then Inr (u1\<lparr>rx_cnt := rx_cnt u1 + ucast len, worker_at := WLock events len\<rparr>)
     else rbind (the_obj (rx_stream u1)) (\<lambda>b. case rhs_stream_buffer_reset (streams E) b of (_, b') \<Rightarrow>
       Inr (u1\<lparr>rx_stream := Some b', worker_at := WCfg events\<rparr>))))"

definition cfg_join_vcp :: "('h, 'n, 't, 'u) bridge_env \<Rightarrow> nat \<Rightarrow> u32 \<Rightarrow> 't bridge \<Rightarrow> ('h, 'n, 't, 'u) bridge_sys \<Rightarrow> ('h, 'n, 't, 'u) bridge_sys res" where
  "cfg_join_vcp E b events u s =
     rbind (join_tx u) (\<lambda>_.
     rbind (usb_serial_vcp_deinit E (vcp_ch (cfg u)) s) (\<lambda>s1.
     rbind (usb_serial_vcp_init E b (vcp_ch (cfg_new u)) s1) (\<lambda>s2.
     rbind (bridge_at b s2) (\<lambda>u2.
     rbind (start_tx (u2\<lparr>cfg := (cfg u2)\<lparr>vcp_ch := vcp_ch (cfg_new u2)\<rparr>\<rparr>)) (\<lambda>u3.
     Inr (put_bridge b (u3\<lparr>worker_at := WCfgSerial (events OR WorkerEvtCtrlLineSet OR WorkerEvtLineCfgSet)\<rparr>) s2))))))"

definition cfg_join_serial :: "('h, 'n, 't, 'u) bridge_env \<Rightarrow> nat \<Rightarrow> u32 \<Rightarrow> 't bridge \<Rightarrow> ('h, 'n, 't, 'u) bridge_sys \<Rightarrow> ('h, 'n, 't, 'u) bridge_sys res" where
  "cfg_join_serial E b events u s =
     rbind (join_tx u) (\<lambda>_.
     rbind (usb_uart_serial_deinit E b s) (\<lambda>s1.
     rbind (usb_uart_serial_init E b (serial_ch (cfg_new u)) s1) (\<lambda>s2.
     rbind (bridge_at b s2) (\<lambda>u2.
     rbind (start_tx (u2\<lparr>cfg := (cfg u2)\<lparr>serial_ch := serial_ch (cfg_new u2)\<rparr>\<rparr>)) (\<lambda>u3.
     Inr (put_bridge b (u3\<lparr>worker_at := WCfgRest events\<rparr>) s2))))))"

definition cfg_rest :: "'t bridge \<Rightarrow> 'a res" where
  "cfg_rest u = (if baudrate (cfg u) \<noteq> baudrate (cfg_new u) then Inl (Crash ''Baudrate change not implemented'')
     else if flow_pins (cfg u) \<noteq> flow_pins (cfg_new u) then Inl (Crash ''Flow pins change not implemented'')
     else if software_de_re (cfg u) \<noteq> software_de_re (cfg_new u) then Inl (Crash ''Software de-re change not implemented'')
     else Inl AssertFailed)"

definition worker_free :: "'t bridge \<Rightarrow> 't bridge res" where
  "worker_free u =
     rbind (the_obj (tx_thread u)) (\<lambda>th. rbind (rhs_thread_free th) (\<lambda>_.
     rbind (rhs_stream_buffer_free (rx_stream u)) (\<lambda>_.
     rbind (rhs_mutex_free task_ctx (usb_mutex u)) (\<lambda>_.
     rbind (rhs_semaphore_free task_ctx (tx_sem u)) (\<lambda>_. Inr (u\<lparr>worker_at := WExit\<rparr>))))))"

definition usb_serial_worker ::
  "('h, 'n, 't, 'u) bridge_env \<Rightarrow> nat \<Rightarrow> 't bridge \<Rightarrow> ('h, 'n, 't, 'u) bridge_sys \<Rightarrow> ('h, 'n, 't, 'u) bridge_sys res" where
  "usb_serial_worker E b u s = (let put = (\<lambda>r. rbind r (\<lambda>u'. Inr (put_bridge b u' s))) in case worker_at u of
     WNew \<Rightarrow> put (rbind (rhs_thread_body_enter (0 :: nat) (worker u) None) (\<lambda>(th, _). Inr (u\<lparr>worker := th, worker_at := WInit\<rparr>)))
   | WInit \<Rightarrow> worker_init E b u s
   | WSerial \<Rightarrow> rbind (open_serial E b (serial_ch (cfg u)) (baudrate (cfg u)) s) (goto b WFlag)
   | WFlag \<Rightarrow> put (rbind (set_tx E WorkerEvtCdcRx u) (\<lambda>u'. Inr (u'\<lparr>worker_at := WStart\<rparr>)))
   | WStart \<Rightarrow> put (rbind (start_tx u) (\<lambda>u'. Inr (u'\<lparr>worker_at := WWait\<rparr>)))
   | WWait \<Rightarrow> put (worker_wait u)
   | WReceive events \<Rightarrow> put (worker_receive E events u)
   | WSem events len \<Rightarrow> put (worker_sem E events len u)
   | WLock events len \<Rightarrow> put (rbind (lock_usb E (worker_task E b) u) (\<lambda>u'. Inr (u'\<lparr>worker_at := WUsb events len\<rparr>)))
   | WUsb events len \<Rightarrow> rbind (goto b (WUnlock events len) s) (\<lambda>s1.
       Inr (upd_tusb (rhs_hal_cdc_send (tud E) (unat (vcp_ch (cfg u))) (take (unat len) (rx_buf u))) s1))
   | WUnlock events len \<Rightarrow> put (rbind (unlock_usb E (worker_task E b) u) (\<lambda>u'. Inr (u'\<lparr>worker_at := WCfg events\<rparr>)))
   | WCfg events \<Rightarrow>
       if events AND WorkerEvtCfgChange = 0 then goto b WWait s
       else if vcp_ch (cfg u) \<noteq> vcp_ch (cfg_new u) then stop_tx E b (WJoinVcp events) u s
       else goto b (WCfgSerial events) s
   | WJoinVcp events \<Rightarrow> cfg_join_vcp E b events u s
   | WCfgSerial events \<Rightarrow>
       if serial_ch (cfg u) \<noteq> serial_ch (cfg_new u) then stop_tx E b (WJoinSerial events) u s
       else goto b (WCfgRest events) s
   | WJoinSerial events \<Rightarrow> cfg_join_serial E b events u s
   | WCfgRest events \<Rightarrow> cfg_rest u
   | WVcpDown \<Rightarrow> rbind (usb_serial_vcp_deinit E (vcp_ch (cfg u)) s) (goto b WSerialDown)
   | WSerialDown \<Rightarrow> rbind (usb_uart_serial_deinit E b s) (goto b WTxStop)
   | WTxStop \<Rightarrow> stop_tx E b WJoin u s
   | WJoin \<Rightarrow> rbind (join_tx u) (\<lambda>_. goto b WFree s)
   | WFree \<Rightarrow> put (worker_free u)
   | WExit \<Rightarrow> put (rbind (rhs_thread_body_leave (worker u) 0) (\<lambda>th. Inr (u\<lparr>worker := th, worker_at := WLeft\<rparr>)))
   | WLeft \<Rightarrow> put (rbind (rhs_thread_scrub_finish (0 :: nat) (worker u) (Some 0)) (\<lambda>(th, _). Inr (u\<lparr>worker := th, worker_at := WGone\<rparr>)))
   | WGone \<Rightarrow> Inl Blocked)"

section \<open>Commands\<close>

text \<open>\<open>b\<close> is where \<open>calloc\<close> puts the object, whose result is not tested.\<close>

definition usb_serial_enable ::
  "('h, 'n, 't, 'u) bridge_env \<Rightarrow> nat option \<Rightarrow> usb_serial_config \<Rightarrow> ('h, 'n, 't, 'u) bridge_sys \<Rightarrow> (nat \<times> ('h, 'n, 't, 'u) bridge_sys) res" where
  "usb_serial_enable E b config s = (case b of None \<Rightarrow> Inl OutOfBounds | Some a \<Rightarrow>
     rbind (rhs_thread_alloc (heap_ok E) (heap_ok E) (Some ''UsbSerialWorker'') 1024 (Some 1) a) (\<lambda>th.
     rbind (rhs_thread_start th) (\<lambda>th'.
     Inr (a, put_bridge a \<lparr>cfg = \<lparr>vcp_ch = 0, serial_ch = 0, flow_pins = 0, baudrate_mode = 0, baudrate = 0, software_de_re = 0\<rparr>,
       cfg_new = config, worker = th', worker_flags = 0, worker_at = WNew, tx_thread = None, tx_flags = 0, tx_at = TxNone,
       rx_stream = None, serial_handle = None, usb_mutex = None, tx_sem = None, rx_cnt = 0, tx_cnt = 0,
       rx_buf = replicate (unat (USB_CDC_PKT_LEN (tud E))) 0\<rparr> s))))"

text \<open>\<open>usb_serial_disable\<close> up to the join, and after it.\<close>

definition usb_serial_disable ::
  "('h, 'n, 't, 'u) bridge_env \<Rightarrow> nat option \<Rightarrow> ('h, 'n, 't, 'u) bridge_sys \<Rightarrow> ('h, 'n, 't, 'u) bridge_sys res" where
  "usb_serial_disable E b s = rbind (the_obj b) (\<lambda>a. rbind (bridge_at a s) (\<lambda>u. Inr (put_bridge a (set_worker E WorkerEvtStop u) s)))"

definition usb_serial_disable_join :: "nat \<Rightarrow> ('h, 'n, 't, 'u) bridge_sys \<Rightarrow> ('h, 'n, 't, 'u) bridge_sys res" where
  "usb_serial_disable_join a s = rbind (bridge_at a s) (\<lambda>u.
     rbind (rhs_thread_join (0 :: nat) None (worker u)) (\<lambda>over.
     if \<not> over then Inl Blocked
     else rbind (rhs_thread_free (worker u)) (\<lambda>_. Inr (s\<lparr>outer := (outer s)\<lparr>objects := (objects (outer s))(a := None)\<rparr>\<rparr>))))"

text \<open>
  The command. What it does up to the join, where it disables, and after it. A text that begins with the name
  of a port is taken for it.
\<close>

definition bridge_config :: "u8 \<Rightarrow> usb_serial_config" where
  "bridge_config ch = \<lparr>vcp_ch = ch, serial_ch = ch, flow_pins = 0, baudrate_mode = 0, baudrate = 115200, software_de_re = 0\<rparr>"

definition toggle_bridge ::
  "('h, 'n, 't, 'u) bridge_env \<Rightarrow> nat option \<Rightarrow> u8 \<Rightarrow> nat option \<Rightarrow> ('h, 'n, 't, 'u) bridge_sys \<Rightarrow>
     (nat option \<times> ('h, 'n, 't, 'u) bridge_sys) res" where
  "toggle_bridge E b ch old s = (case old of
     None \<Rightarrow> rbind (usb_serial_enable E b (bridge_config ch) s) (\<lambda>(a, s1). Inr (Some a, s1))
   | Some a \<Rightarrow> rbind (usb_serial_disable E old s) (\<lambda>s1. Inr (Some a, s1)))"

definition usb_bridge_cb ::
  "('h, 'n, 't, 'u) bridge_env \<Rightarrow> nat option \<Rightarrow> string option \<Rightarrow> ('h, 'n, 't, 'u) bridge_sys \<Rightarrow> ('h, 'n, 't, 'u) bridge_sys res" where
  "usb_bridge_cb E b args s = (case args of None \<Rightarrow> Inr s | Some a \<Rightarrow>
     if prefix ''-rs232'' a then
       rbind (toggle_bridge E b 0 (usb_rs232 (outer s)) s) (\<lambda>(x, s1). Inr (s1\<lparr>outer := (outer s1)\<lparr>usb_rs232 := x\<rparr>\<rparr>))
     else if prefix ''-rs485'' a then
       rbind (toggle_bridge E b 1 (usb_rs485 (outer s)) s) (\<lambda>(x, s1). Inr (s1\<lparr>outer := (outer s1)\<lparr>usb_rs485 := x\<rparr>\<rparr>))
     else Inr s)"

definition usb_bridge_cb_join :: "string \<Rightarrow> ('h, 'n, 't, 'u) bridge_sys \<Rightarrow> ('h, 'n, 't, 'u) bridge_sys res" where
  "usb_bridge_cb_join a s =
     (if prefix ''-rs232'' a then rbind (the_obj (usb_rs232 (outer s))) (\<lambda>b. rbind (usb_serial_disable_join b s) (\<lambda>s1.
        Inr (s1\<lparr>outer := (outer s1)\<lparr>usb_rs232 := None\<rparr>\<rparr>)))
      else rbind (the_obj (usb_rs485 (outer s))) (\<lambda>b. rbind (usb_serial_disable_join b s) (\<lambda>s1.
        Inr (s1\<lparr>outer := (outer s1)\<lparr>usb_rs485 := None\<rparr>\<rparr>))))"

section \<open>The system\<close>

text \<open>
  A bridge with everything that runs beside it: its threads, the receive interrupts of both serial ports, the
  callbacks of the USB stack, the stack's own work \<open>tud_task\<close>, other work of the serial hardware, and the
  command that disables it. An event of the run is what the interrupt reads for this bridge, a completed
  transmission, or nothing to note.
\<close>

datatype bridge_event = Got "u8 list" | TxComplete nat | Quiet

definition second_read :: "'h serial_api \<Rightarrow> usart \<Rightarrow> 'h \<Rightarrow> u8" where
  "second_read R u h = fst (LL_USART_ReceiveData8 R u (snd (LL_USART_ReceiveData8 R u h)))"

definition rx_bytes :: "('h, 'n, 't, 'u) bridge_env \<Rightarrow> nat \<Rightarrow> usart \<Rightarrow> nat \<Rightarrow> ('h, 'n, 't, 'u) bridge_sys \<Rightarrow> u8 list" where
  "rx_bytes E b u i s = (case rx_event (bridge_port E) u s of (event, s1) \<Rightarrow>
     if i < length (ports s) \<and> buffer_rx_ptr (ports s ! i) = None \<and> rx_byte_callback (ports s ! i) \<noteq> None \<and>
        port_rx_context (ports s ! i) = Some b \<and> event AND RHSHalSerialRxEventData \<noteq> 0
     then (case instance_of (ports s ! i) of None \<Rightarrow> [] | Some r \<Rightarrow> [second_read (regs (port E)) r (hw s1)]) else [])"

inductive bridge_step ::
  "('h, 'n, 't, 'u) bridge_env \<Rightarrow> (nat \<Rightarrow> 'u \<Rightarrow> 'u) \<Rightarrow> nat \<Rightarrow> ('h, 'n, 't, 'u) bridge_sys \<Rightarrow> bridge_event \<Rightarrow> ('h, 'n, 't, 'u) bridge_sys \<Rightarrow> bool"
  for E tud_task b where
  worker_runs: "objects (outer s) b = Some u \<Longrightarrow> usb_serial_worker E b u s = Inr s' \<Longrightarrow> bridge_step E tud_task b s Quiet s'"
| tx_runs: "objects (outer s) b = Some u \<Longrightarrow> usb_serial_tx_thread E b u s = Inr s' \<Longrightarrow> bridge_step E tud_task b s Quiet s'"
| rs232_irq: "rhs_hal_rs232_irq_callback (bridge_port E) (Some RHSHalSerialIdRS232) s = Inr s' \<Longrightarrow>
    bridge_step E tud_task b s (Got (rx_bytes E b USART3 RHSHalSerialIdRS232 s)) s'"
| rs485_irq: "rhs_hal_rs485_rx_irq_callback (bridge_port E) (Some RHSHalSerialIdRS485) s = Inr s' \<Longrightarrow>
    bridge_step E tud_task b s (Got (rx_bytes E b USART6 RHSHalSerialIdRS485 s)) s'"
| cdc_rx: "tud_cdc_rx_cb E itf s = Inr s' \<Longrightarrow> bridge_step E tud_task b s Quiet s'"
| cdc_tx_complete: "tud_cdc_tx_complete_cb E itf s = Inr s' \<Longrightarrow> bridge_step E tud_task b s (TxComplete itf) s'"
| usb_works: "bridge_step E tud_task b s Quiet (upd_tusb (tud_task n) s)"
| uart_works: "bridge_step E tud_task b s Quiet (upd_hw f s)"
| disabling: "usb_serial_disable E (Some b) s = Inr s' \<Longrightarrow> bridge_step E tud_task b s Quiet s'"
| disabled: "usb_serial_disable_join b s = Inr s' \<Longrightarrow> bridge_step E tud_task b s Quiet s'"

inductive bridge_run ::
  "('h, 'n, 't, 'u) bridge_env \<Rightarrow> (nat \<Rightarrow> 'u \<Rightarrow> 'u) \<Rightarrow> nat \<Rightarrow> ('h, 'n, 't, 'u) bridge_sys \<Rightarrow> bridge_event list \<Rightarrow> ('h, 'n, 't, 'u) bridge_sys \<Rightarrow> bool"
  for E tud_task b s0 where
  run_start: "bridge_run E tud_task b s0 [] s0"
| run_step: "bridge_run E tud_task b s0 es s \<Longrightarrow> bridge_step E tud_task b s e s' \<Longrightarrow> bridge_run E tud_task b s0 (es @ [e]) s'"

text \<open>What the interrupt has read for the bridge, in order.\<close>

fun got :: "bridge_event list \<Rightarrow> u8 list" where
  "got [] = []"
| "got (Got d # es) = d @ got es"
| "got (_ # es) = got es"

lemma got_append [simp]: "got (xs @ ys) = got xs @ got ys"
  by (induction xs rule: got.induct) simp_all

section \<open>The laws of the parts\<close>

text \<open>
  \<open>outbox\<close> is all that the stack has accepted for the host on a port, since it was started. A byte that it has no room for
  is dropped. A take of an empty semaphore fails when its time is over, the release being an event of its own.
\<close>

locale tud_device =
  fixes T :: "'u tud_api" and tud_task :: "nat \<Rightarrow> 'u \<Rightarrow> 'u" and outbox :: "nat \<Rightarrow> 'u \<Rightarrow> u8 list"
  assumes write_char: "outbox i (tud_cdc_n_write_char T j c u) \<in> {outbox i u, outbox i u @ (if i = j then [c] else [])}"
    and flush: "outbox i (tud_cdc_n_write_flush T j u) = outbox i u"
    and read_keeps: "outbox i (snd (tud_cdc_n_read T j n u)) = outbox i u"
    and set_keeps: "outbox i (usb_init T k u) = outbox i u" "outbox i (usb_deinit T k u) = outbox i u"
      "outbox i (descriptor_switch_mode T k u) = outbox i u"
    and task_keeps: "outbox i (tud_task n u) = outbox i u"
    and packet: "1 < unat (USB_CDC_PKT_LEN T * 5 + 1)"

locale bridge_streams = rtos_stream A for A +
  assumes reset: "bytes (snd (xStreamBufferReset A st)) \<in> {[], bytes st}"

locale bridge_sems = rtos_semaphore A for A +
  assumes take_empty: "sem_count x = 0 \<Longrightarrow> xSemaphoreTake A x t \<in> {None, Some (False, x)}"

interpretation plain_bridge_stream: bridge_streams plain_stream
  by unfold_locales (simp add: plain_stream_def)

interpretation counter_bridge_sem: bridge_sems counter_sem
  by unfold_locales (simp add: counter_sem_def)

context tud_device begin

lemma send_outbox: "\<exists>e. outbox i (rhs_hal_cdc_send T j d u) = outbox i u @ e \<and> subseq e d"
proof -
  have "\<exists>e. outbox i (fold (tud_cdc_n_write_char T j) d u) = outbox i u @ e \<and> subseq e d"
  proof (induction d arbitrary: u)
    case (Cons c d)
    obtain x where x: "outbox i (tud_cdc_n_write_char T j c u) = outbox i u @ x" "subseq x [c]"
      using write_char [of i j c u] by (auto split: if_splits)
    obtain e where "outbox i (fold (tud_cdc_n_write_char T j) d (tud_cdc_n_write_char T j c u)) = outbox i u @ x @ e" "subseq e d"
      using Cons.IH [of "tud_cdc_n_write_char T j c u"] x(1) by auto
    then show ?case using list_emb_append_mono [OF x(2)] by (intro exI [of _ "x @ e"]) fastforce
  qed simp
  then show ?thesis by (simp add: rhs_hal_cdc_send_def flush)
qed

lemma receive_keeps: "outbox i (snd (rhs_hal_cdc_receive T j n u)) = outbox i u"
  by (simp add: rhs_hal_cdc_receive_def read_keeps)

end

end
