(* ===== verification/Usb_Bridge_Run.thy ===== *)
theory Usb_Bridge_Run
  imports Usb_Serial_Bridge
begin

text \<open>
  Runs of the USB-serial bridge: what every step of its threads, of the interrupts and of the callbacks does to
  the bytes on their way to USB, and to the semaphore that limits the transmissions, and the
  properties of the bridge that follow.
\<close>

section \<open>What the serial driver leaves alone\<close>

lemma serial_init_keeps: "rhs_hal_serial_init S i baud s = Inr s' \<Longrightarrow> outer s' = outer s"
  by (auto simp: rhs_hal_serial_init_def rhs_hal_rs232_init_def rhs_hal_rs485_init_def rbind_eq_Inr Let_def case_prod_beta split: if_splits)

lemma serial_deinit_keeps: "rhs_hal_serial_deinit S h s = Inr s' \<Longrightarrow> outer s' = outer s"
  by (auto simp: rhs_hal_serial_deinit_def rbind_eq_Inr rhs_hal_rs485_async_rx_dma_stop_def rhs_hal_rs485_async_tx_dma_stop_def
      dma_stop_def split: if_splits dest!: set_isr_keeps)

lemma serial_rx_start_keeps: "rhs_hal_serial_async_rx_start S h cb ctxt s = Inr s' \<Longrightarrow> outer s' = outer s"
  by (auto simp: rhs_hal_serial_async_rx_start_def rbind_eq_Inr Let_def split: if_splits dest!: set_isr_keeps)

lemma serial_tx_keeps: "rhs_hal_serial_tx S i d s = Inr s' \<Longrightarrow> outer s' = outer s"
  by (auto simp: rhs_hal_serial_tx_def rbind_eq_Inr split: if_splits)

lemma async_rx_result:
  "rhs_hal_serial_async_rx S c (Some i) s = Inr (d, s') \<Longrightarrow> i < length (ports s) \<and>
     (\<exists>r. instance_of (ports s ! i) = Some r \<and> d = fst (LL_USART_ReceiveData8 (regs S) r (hw s)) \<and>
       s' = s\<lparr>hw := snd (LL_USART_ReceiveData8 (regs S) r (hw s))\<rparr>)"
  by (auto simp: rhs_hal_serial_async_rx_def rhs_hal_serial_get_id_def rbind_eq_Inr aget_def instance_reg_def case_prod_beta
      split: if_splits option.splits)

section \<open>From the serial port to USB\<close>

text \<open>What a bridge has read and not yet given to the stack, oldest first.\<close>

fun held :: "worker_pc \<Rightarrow> nat" where
  "held (WSem _ len) = unat len"
| "held (WLock _ len) = unat len"
| "held (WUsb _ len) = unat len"
| "held _ = 0"

definition pending :: "'t bridge \<Rightarrow> u8 list" where
  "pending u = take (held (worker_at u)) (rx_buf u)"

definition stream_bytes :: "'t bridge \<Rightarrow> u8 list" where
  "stream_bytes u = (case rx_stream u of None \<Rightarrow> [] | Some st \<Rightarrow> bytes st)"

definition backlog :: "nat \<Rightarrow> ('h, 'n, 't, 'u) bridge_sys \<Rightarrow> u8 list" where
  "backlog b s = (case objects (outer s) b of None \<Rightarrow> [] | Some u \<Rightarrow> pending u @ stream_bytes u)"

definition moves ::
  "(nat \<Rightarrow> 'u \<Rightarrow> u8 list) \<Rightarrow> nat \<Rightarrow> nat \<Rightarrow> ('h, 'n, 't, 'u) bridge_sys \<Rightarrow> u8 list \<Rightarrow> ('h, 'n, 't, 'u) bridge_sys \<Rightarrow> bool" where
  "moves outbox i b s d s' \<longleftrightarrow> (\<exists>x. outbox i (tusb (outer s')) = outbox i (tusb (outer s)) @ x \<and>
     subseq (x @ backlog b s') (backlog b s @ d))"

lemma moves_trans:
  assumes "moves outbox i b s d s'" and "moves outbox i b s' d' s''"
  shows "moves outbox i b s (d @ d') s''"
proof -
  obtain x where x: "outbox i (tusb (outer s')) = outbox i (tusb (outer s)) @ x" "subseq (x @ backlog b s') (backlog b s @ d)"
    using assms(1) by (auto simp: moves_def)
  obtain y where y: "outbox i (tusb (outer s'')) = outbox i (tusb (outer s')) @ y" "subseq (y @ backlog b s'') (backlog b s' @ d')"
    using assms(2) by (auto simp: moves_def)
  have "subseq (x @ y @ backlog b s'') (x @ backlog b s' @ d')" using y(2) by (rule list_emb_append_mono [OF subseq_order.refl])
  moreover have "subseq ((x @ backlog b s') @ d') ((backlog b s @ d) @ d')" using x(2) by (rule list_emb_append_mono) simp
  ultimately have "subseq ((x @ y) @ backlog b s'') (backlog b s @ d @ d')" using subseq_order.trans by fastforce
  then show ?thesis using x(1) y(1) by (auto simp: moves_def)
qed

lemmas moves_after = moves_trans [where d = "[]", simplified]

lemma moves_same: "outer s' = outer s \<Longrightarrow> moves outbox i b s [] s'"
  by (auto simp: moves_def backlog_def intro!: exI [of _ "[]"])

lemma moves_tusb:
  "outbox i (f (tusb (outer s))) = outbox i (tusb (outer s)) \<Longrightarrow> moves outbox i b s [] (upd_tusb f s)"
  by (auto simp: moves_def backlog_def upd_tusb_def intro!: exI [of _ "[]"])

lemma moves_put:
  assumes "objects (outer s) b = Some u" and "subseq (pending u' @ stream_bytes u') (pending u @ stream_bytes u @ d)"
  shows "moves outbox i b s d (put_bridge b u' s)"
  using assms by (auto simp: moves_def backlog_def put_bridge_def intro!: exI [of _ "[]"])

lemma moves_put_quiet:
  assumes "objects (outer s) b = Some u" and "subseq (pending u' @ stream_bytes u') (pending u @ stream_bytes u)"
  shows "moves outbox i b s [] (put_bridge b u' s)"
  using assms by (simp add: moves_put)

lemma bridge_at_Inr [simp]: "bridge_at b s = Inr u \<longleftrightarrow> objects (outer s) b = Some u"
  by (simp add: bridge_at_def split: option.split)

lemma the_obj_Inr [simp]: "the_obj x = Inr a \<longleftrightarrow> x = Some a"
  by (simp add: the_obj_def split: option.split)

lemma the_obj_simps [simp]: "the_obj (Some a) = Inr a" "the_obj None = Inl AssertFailed"
  by (simp_all add: the_obj_def)

lemma set_worker_keeps [simp]:
  "pending (set_worker E f u) = pending u" "stream_bytes (set_worker E f u) = stream_bytes u" "worker_at (set_worker E f u) = worker_at u"
  "tx_sem (set_worker E f u) = tx_sem u" "rx_buf (set_worker E f u) = rx_buf u" "rx_stream (set_worker E f u) = rx_stream u"
  by (simp_all add: set_worker_def pending_def stream_bytes_def)

lemma set_tx_keeps: "set_tx E f u = Inr u' \<Longrightarrow> rx_stream u' = rx_stream u \<and> rx_buf u' = rx_buf u \<and> worker_at u' = worker_at u \<and> tx_sem u' = tx_sem u"
  by (auto simp: set_tx_def rbind_eq_Inr)

text \<open>A step of one thread that does not touch the worker's data, on the way to a place where it holds none.\<close>

lemma moves_goto:
  assumes "goto b l s = Inr s'" and "held l = 0"
  shows "moves outbox i b s [] s'"
  using assms by (auto simp: goto_def rbind_eq_Inr pending_def stream_bytes_def intro!: moves_put_quiet)

lemma set_callbacks_outer:
  assumes "rhs_hal_cdc_set_callbacks E n cb s = Inr s'"
  shows "\<exists>cbs. outer s' = outer s\<lparr>callbacks := cbs\<rparr> \<or>
    (\<exists>a u. cb = Some a \<and> objects (outer s) a = Some u \<and>
      outer s' = outer s\<lparr>callbacks := cbs, objects := (objects (outer s))(a \<mapsto> set_worker E WorkerEvtCtrlLineSet u)\<rparr>)"
  using assms by (cases cb) (auto simp: rhs_hal_cdc_set_callbacks_def vcp_on_cdc_control_line_def rbind_eq_Inr put_bridge_def Let_def)

lemma set_callbacks_moves:
  assumes "rhs_hal_cdc_set_callbacks E n cb s = Inr s'"
  shows "moves outbox i b s [] s'"
proof -
  have "tusb (outer s') = tusb (outer s) \<and> backlog b s' = backlog b s"
    using set_callbacks_outer [OF assms] by (auto simp: backlog_def)
  then show ?thesis by (auto simp: moves_def intro!: exI [of _ "[]"])
qed

lemma open_serial_moves:
  assumes "open_serial E b ch baud s = Inr s'"
  shows "moves outbox i b s [] s'"
proof -
  obtain s1 u where init: "rhs_hal_serial_init (bridge_port E) (unat ch) baud s = Inr s1" and u: "objects (outer s1) b = Some u"
    and start: "rhs_hal_serial_async_rx_start (bridge_port E) (Some (unat ch)) (Some SerialRxCb) (Some b)
        (put_bridge b (u\<lparr>serial_handle := Some (unat ch)\<rparr>) s1) = Inr s'"
    using assms by (auto simp: open_serial_def rbind_eq_Inr)
  have "moves outbox i b s1 [] (put_bridge b (u\<lparr>serial_handle := Some (unat ch)\<rparr>) s1)"
    by (rule moves_put [OF u]) (simp add: pending_def stream_bytes_def)
  then show ?thesis using moves_after [OF moves_same [OF serial_init_keeps [OF init]]] moves_same [OF serial_rx_start_keeps [OF start]]
    by (blast intro: moves_after)
qed

lemma serial_down_moves:
  assumes "usb_uart_serial_deinit E b s = Inr s'"
  shows "moves outbox i b s [] s'"
proof -
  obtain s1 u h where down: "rhs_hal_serial_deinit (bridge_port E) h s = Inr s1" and u: "objects (outer s1) b = Some u"
      "s' = put_bridge b (u\<lparr>serial_handle := None\<rparr>) s1"
    using assms by (auto simp: usb_uart_serial_deinit_def rbind_eq_Inr)
  have "moves outbox i b s1 [] s'"
    unfolding u(2) by (rule moves_put [OF u(1)]) (simp add: pending_def stream_bytes_def)
  then show ?thesis by (rule moves_after [OF moves_same [OF serial_deinit_keeps [OF down]]])
qed

lemma start_tx_keeps: "start_tx u = Inr u' \<Longrightarrow> rx_stream u' = rx_stream u \<and> rx_buf u' = rx_buf u \<and> worker_at u' = worker_at u \<and> tx_sem u' = tx_sem u"
  by (auto simp: start_tx_def rbind_eq_Inr)

lemma worker_sem_result:
  assumes "worker_sem E events len u = Inr u'"
  shows "\<exists>sem r y q. tx_sem u = Some sem \<and> rhs_semaphore_acquire (sems E) task_ctx sem 100 = Inr (r, y, q) \<and>
    (r = RHSStatusOk \<and> u' = u\<lparr>tx_sem := Some q, rx_cnt := rx_cnt u + ucast len, worker_at := WLock events len\<rparr> \<or>
     r \<noteq> RHSStatusOk \<and> (\<exists>x. rx_stream u = Some x \<and> u' = u\<lparr>tx_sem := Some q,
       rx_stream := Some (snd (xStreamBufferReset (streams E) x)), worker_at := WCfg events\<rparr>))"
  using assms by (auto simp: worker_sem_def rbind_eq_Inr Let_def case_prod_beta rhs_stream_buffer_reset_def split: if_splits)

section \<open>Every step moves bytes forward\<close>

text \<open>The laws of the parts together.\<close>

locale usb_bridge = tud_device "tud E" tud_task outbox + st: bridge_streams "streams E" + sm: bridge_sems "sems E"
  for E :: "('h, 'n, 't, 'u) bridge_env" and tud_task :: "nat \<Rightarrow> 'u \<Rightarrow> 'u" and outbox :: "nat \<Rightarrow> 'u \<Rightarrow> u8 list"

context usb_bridge begin

lemma vcp_init_moves: "usb_serial_vcp_init E b ch s = Inr s' \<Longrightarrow> moves outbox i b s [] s'"
  unfolding usb_serial_vcp_init_def
proof (rule moves_after)
  show "moves outbox i b s [] (set_cdc_interface (tud E) s)"
    by (auto simp: set_cdc_interface_def rhs_hal_usb_set_interface_def moves_def backlog_def set_keeps Let_def split: option.split)
qed (rule set_callbacks_moves)

lemma vcp_deinit_moves: "usb_serial_vcp_deinit E ch s = Inr s' \<Longrightarrow> moves outbox i b s [] s'"
  unfolding usb_serial_vcp_deinit_def by (rule set_callbacks_moves)

lemma worker_init_moves:
  assumes "objects (outer s) b = Some u" and "worker_init E b u s = Inr s'"
  shows "moves outbox i b s [] s'"
proof -
  obtain u' where "usb_serial_vcp_init E b (vcp_ch (cfg_new u)) (put_bridge b u' s) = Inr s'"
      "held (worker_at u') = 0" "stream_bytes u' = []"
    using assms(2) packet by (auto simp: worker_init_def rbind_eq_Inr rhs_stream_buffer_alloc_def st.create Let_def stream_bytes_def)
  then show ?thesis
    by (intro moves_after [OF moves_put_quiet [OF assms(1)] vcp_init_moves]) (auto simp: pending_def)
qed

lemma cfg_join_vcp_moves:
  assumes "objects (outer s) b = Some u" and "cfg_join_vcp E b events u s = Inr s'"
  shows "moves outbox i b s [] s'"
proof -
  obtain s1 s2 u2 u3 where run: "usb_serial_vcp_deinit E (vcp_ch (cfg u)) s = Inr s1" "usb_serial_vcp_init E b (vcp_ch (cfg_new u)) s1 = Inr s2"
    "objects (outer s2) b = Some u2" "start_tx (u2\<lparr>cfg := (cfg u2)\<lparr>vcp_ch := vcp_ch (cfg_new u2)\<rparr>\<rparr>) = Inr u3"
    "s' = put_bridge b (u3\<lparr>worker_at := WCfgSerial (events OR WorkerEvtCtrlLineSet OR WorkerEvtLineCfgSet)\<rparr>) s2"
    using assms(2) by (auto simp: cfg_join_vcp_def rbind_eq_Inr)
  have "moves outbox i b s2 [] s'"
    unfolding run(5) using start_tx_keeps [OF run(4)] by (intro moves_put_quiet [OF run(3)]) (auto simp: pending_def stream_bytes_def)
  then show ?thesis by (intro moves_after [OF vcp_deinit_moves [OF run(1)]] moves_after [OF vcp_init_moves [OF run(2)]])
qed

lemma cfg_join_serial_moves:
  assumes "objects (outer s) b = Some u" and "cfg_join_serial E b events u s = Inr s'"
  shows "moves outbox i b s [] s'"
proof -
  obtain s1 s2 u2 u3 where run: "usb_uart_serial_deinit E b s = Inr s1" "usb_uart_serial_init E b (serial_ch (cfg_new u)) s1 = Inr s2"
    "objects (outer s2) b = Some u2" "start_tx (u2\<lparr>cfg := (cfg u2)\<lparr>serial_ch := serial_ch (cfg_new u2)\<rparr>\<rparr>) = Inr u3"
    "s' = put_bridge b (u3\<lparr>worker_at := WCfgRest events\<rparr>) s2"
    using assms(2) by (auto simp: cfg_join_serial_def rbind_eq_Inr)
  have "moves outbox i b s2 [] s'"
    unfolding run(5) using start_tx_keeps [OF run(4)] by (intro moves_put_quiet [OF run(3)]) (auto simp: pending_def stream_bytes_def)
  then show ?thesis
    by (intro moves_after [OF serial_down_moves [OF run(1)]] moves_after [OF open_serial_moves [OF run(2) [unfolded usb_uart_serial_init_def]]])
qed

lemma worker_receive_moves:
  assumes "objects (outer s) b = Some u" and "worker_at u = WReceive events" and "worker_receive E events u = Inr u'"
  shows "moves outbox i b s [] (put_bridge b u' s)"
proof (rule moves_put_quiet [OF assms(1)])
  let ?n = "unat (USB_CDC_PKT_LEN (tud E))"
  obtain x where x: "rx_stream u = Some x" using assms(3) by (auto simp: worker_receive_def rbind_eq_Inr)
  define d where "d = take ?n (bytes x)"
  have "length d < 65536" using unsigned_less [of "USB_CDC_PKT_LEN (tud E)"] by (auto simp: d_def min_def)
  then have len: "unat (of_nat (length d) :: u16) = length d" by (subst unat_of_nat) simp
  have u': "u' = u\<lparr>rx_stream := Some (x\<lparr>bytes := drop ?n (bytes x)\<rparr>), rx_buf := d @ drop (length d) (rx_buf u),
      worker_at := (if (of_nat (length d) :: u16) > 0 then WSem events (of_nat (length d)) else WCfg events)\<rparr>"
    using assms(3) by (auto simp: worker_receive_def x rhs_stream_buffer_receive_def RHS_IS_IRQ_MODE_def task_ctx_def st.receive Let_def d_def)
  have "pending u' = d"
  proof (cases "(of_nat (length d) :: u16) > 0")
    case False
    then have "d = []" using len by (metis length_0_conv unat_0 word_gt_0)
    then show ?thesis by (simp add: u' pending_def)
  qed (simp add: u' pending_def len)
  moreover have "d @ drop ?n (bytes x) = bytes x" by (simp add: d_def)
  ultimately show "subseq (pending u' @ stream_bytes u') (pending u @ stream_bytes u)"
    by (simp add: u' stream_bytes_def x pending_def assms(2))
qed

lemma worker_sem_moves:
  assumes "objects (outer s) b = Some u" and "worker_at u = WSem events len" and "worker_sem E events len u = Inr u'"
  shows "moves outbox i b s [] (put_bridge b u' s)"
proof (rule moves_put_quiet [OF assms(1)])
  show "subseq (pending u' @ stream_bytes u') (pending u @ stream_bytes u)"
    using worker_sem_result [OF assms(3)] assms(2)
  proof (elim exE conjE disjE)
    fix x q
    assume "rx_stream u = Some x" "u' = u\<lparr>tx_sem := Some q, rx_stream := Some (snd (xStreamBufferReset (streams E) x)), worker_at := WCfg events\<rparr>"
    then show ?thesis using st.reset [of x] by (auto simp: pending_def stream_bytes_def)
  qed (simp add: pending_def stream_bytes_def)
qed

lemma worker_usb_moves:
  assumes "objects (outer s) b = Some u" and "worker_at u = WUsb events len"
  shows "moves outbox i b s [] (upd_tusb (rhs_hal_cdc_send (tud E) j (take (unat len) (rx_buf u)))
    (put_bridge b (u\<lparr>worker_at := WUnlock events len\<rparr>) s))"
proof -
  obtain x where "outbox i (rhs_hal_cdc_send (tud E) j (take (unat len) (rx_buf u)) (tusb (outer s))) = outbox i (tusb (outer s)) @ x"
      "subseq x (take (unat len) (rx_buf u))"
    using send_outbox by blast
  then show ?thesis using assms list_emb_append_mono [of "(=)" x "take (unat len) (rx_buf u)" "stream_bytes u" "stream_bytes u"]
    by (auto simp: moves_def upd_tusb_def put_bridge_def backlog_def pending_def stream_bytes_def intro!: exI [of _ x])
qed

lemma worker_moves:
  assumes u: "objects (outer s) b = Some u" and "usb_serial_worker E b u s = Inr s'"
  shows "moves outbox i b s [] s'"
proof -
  note quiet = moves_put_quiet [OF u] and data = pending_def stream_bytes_def
  note run = assms(2) [unfolded usb_serial_worker_def Let_def]
  show ?thesis
  proof (cases "worker_at u")
    case WNew
    with run show ?thesis by (auto simp: rbind_eq_Inr data intro!: quiet)
  next
    case WInit
    with run worker_init_moves [OF u] show ?thesis by simp
  next
    case WSerial
    with run show ?thesis by (auto simp: rbind_eq_Inr intro: moves_after [OF open_serial_moves moves_goto])
  next
    case WFlag
    with run show ?thesis by (auto simp: rbind_eq_Inr data dest!: set_tx_keeps intro!: quiet)
  next
    case WStart
    with run show ?thesis by (auto simp: rbind_eq_Inr data dest!: start_tx_keeps intro!: quiet)
  next
    case WWait
    with run show ?thesis by (auto simp: rbind_eq_Inr data worker_wait_def intro!: quiet)
  next
    case (WReceive events)
    with run worker_receive_moves [OF u WReceive] show ?thesis by (auto simp: rbind_eq_Inr)
  next
    case (WSem events len)
    with run worker_sem_moves [OF u WSem] show ?thesis by (auto simp: rbind_eq_Inr)
  next
    case (WLock events len)
    with run show ?thesis by (auto simp: rbind_eq_Inr data lock_usb_def intro!: quiet)
  next
    case (WUsb events len)
    with run u worker_usb_moves [OF u WUsb] show ?thesis by (auto simp: rbind_eq_Inr goto_def)
  next
    case (WUnlock events len)
    with run show ?thesis by (auto simp: rbind_eq_Inr data unlock_usb_def intro!: quiet)
  next
    case (WCfg events)
    with run show ?thesis
      by (auto simp: rbind_eq_Inr data stop_tx_def split: if_splits dest!: set_tx_keeps intro!: quiet intro: moves_goto)
  next
    case (WJoinVcp events)
    with run cfg_join_vcp_moves [OF u] show ?thesis by simp
  next
    case (WCfgSerial events)
    with run show ?thesis
      by (auto simp: rbind_eq_Inr data stop_tx_def split: if_splits dest!: set_tx_keeps intro!: quiet intro: moves_goto)
  next
    case (WJoinSerial events)
    with run cfg_join_serial_moves [OF u] show ?thesis by simp
  next
    case (WCfgRest events)
    with run show ?thesis by (simp add: cfg_rest_def split: if_splits)
  next
    case WVcpDown
    with run show ?thesis by (auto simp: rbind_eq_Inr intro: moves_after [OF vcp_deinit_moves moves_goto])
  next
    case WSerialDown
    with run show ?thesis by (auto simp: rbind_eq_Inr intro: moves_after [OF serial_down_moves moves_goto])
  next
    case WTxStop
    with run show ?thesis by (auto simp: rbind_eq_Inr data stop_tx_def dest!: set_tx_keeps intro!: quiet)
  next
    case WJoin
    with run show ?thesis by (auto simp: rbind_eq_Inr intro: moves_goto)
  next
    case WFree
    with run show ?thesis by (auto simp: rbind_eq_Inr data worker_free_def intro!: quiet)
  next
    case WExit
    with run show ?thesis by (auto simp: rbind_eq_Inr data intro!: quiet)
  next
    case WLeft
    with run show ?thesis by (auto simp: rbind_eq_Inr data intro!: quiet)
  qed (use run in simp)
qed

lemma tx_moves:
  assumes u: "objects (outer s) b = Some u" and "usb_serial_tx_thread E b u s = Inr s'"
  shows "moves outbox i b s [] s'"
proof -
  note quiet = moves_put_quiet [OF u] and data = pending_def stream_bytes_def
  note run = assms(2) [unfolded usb_serial_tx_thread_def]
  show ?thesis
  proof (cases "tx_at u")
    case TxReceive
    have "outbox i (snd (rhs_hal_cdc_receive (tud E) (unat (vcp_ch (cfg u))) (USB_CDC_PKT_LEN (tud E)) (tusb (outer s)))) =
        outbox i (tusb (outer s))"
      by (rule receive_keeps)
    with run TxReceive u show ?thesis
      by (auto simp: moves_def upd_tusb_def put_bridge_def backlog_def data case_prod_beta intro!: exI [of _ "[]"])
  next
    case (TxSend d)
    with run obtain n where "rhs_hal_serial_tx (bridge_port E) n d (put_bridge b (u\<lparr>tx_at := TxWait\<rparr>) s) = Inr s'"
      by (auto split: option.splits)
    then have "moves outbox i b (put_bridge b (u\<lparr>tx_at := TxWait\<rparr>) s) [] s'" by (rule moves_same [OF serial_tx_keeps])
    moreover have "moves outbox i b s [] (put_bridge b (u\<lparr>tx_at := TxWait\<rparr>) s)" by (rule quiet) (simp add: data)
    ultimately show ?thesis by (rule moves_after [rotated])
  qed (use run in \<open>auto simp: rbind_eq_Inr data lock_usb_def unlock_usb_def intro!: quiet\<close>)
qed

lemma moves_put_other: "a \<noteq> b \<Longrightarrow> moves outbox i b s [] (put_bridge a u s)"
  by (auto simp: moves_def backlog_def put_bridge_def intro!: exI [of _ "[]"])

text \<open>A byte that does not fit into the stream buffer is lost, the ones before it are kept.\<close>

lemma serial_rx_cb_moves:
  assumes "serial_rx_cb E h event a s = Inr s'"
  shows "moves outbox i b s (if a = b \<and> event AND RHSHalSerialRxEventData \<noteq> 0
    then (case instance_of (ports s ! h) of None \<Rightarrow> [] | Some r \<Rightarrow> [second_read (regs (port E)) r (hw s)]) else []) s'"
proof -
  obtain d1 s1 where s1: "rhs_hal_serial_async_rx (port E) isr_ctx (Some h) s = Inr (d1, s1)"
    using assms by (auto simp: serial_rx_cb_def rbind_eq_Inr)
  then obtain r where r: "instance_of (ports s ! h) = Some r" "ports s1 = ports s" "outer s1 = outer s"
      "hw s1 = snd (LL_USART_ReceiveData8 (regs (port E)) r (hw s))"
    using async_rx_result [OF s1] by auto
  show ?thesis
  proof (cases "event AND RHSHalSerialRxEventData = 0")
    case True
    with assms s1 r(3) show ?thesis by (auto simp: serial_rx_cb_def intro!: moves_same)
  next
    case False
    with assms s1 obtain d s2 u x y n x' where s2: "rhs_hal_serial_async_rx (port E) isr_ctx (Some h) s1 = Inr (d, s2)"
      and u: "objects (outer s2) a = Some u" "rx_stream u = Some x"
      and snd: "rhs_stream_buffer_send (streams E) isr_ctx (junk E) x [d] 0 = Inr (n, y, x')"
      and s': "s' = put_bridge a (set_worker E WorkerEvtRxDone (u\<lparr>rx_stream := Some x'\<rparr>)) s2"
      by (auto simp: serial_rx_cb_def rbind_eq_Inr)
    have s2': "outer s2 = outer s" "d = second_read (regs (port E)) r (hw s)"
      using async_rx_result [OF s2] r by (auto simp: second_read_def)
    have x': "x' = store_bytes x [d]"
      using st.send_isr [of x "[d]" "junk E"] snd by (auto simp: rhs_stream_buffer_send_def RHS_IS_IRQ_MODE_def isr_ctx_def)
    have "moves outbox i b s2 (if a = b then [d] else []) s'"
    proof (cases "a = b")
      case True
      have "subseq (take (capacity x - length (bytes x)) [d]) [d]" by (cases "capacity x - length (bytes x)") auto
      then show ?thesis unfolding s' using True u
        by (auto simp: pending_def stream_bytes_def x' store_bytes_def intro!: moves_put list_emb_append_mono)
    qed (auto simp: s' intro: moves_put_other)
    from moves_after [OF moves_same [OF s2'(1)] this] show ?thesis using False r(1) s2'(2) by (simp split: if_splits)
  qed
qed

lemma byte_callback_moves:
  assumes "byte_callback (bridge_port E) h event s = Inr s'" and "h < length (ports s)" and "buffer_rx_ptr (ports s ! h) = None"
  shows "moves outbox i b s (if rx_byte_callback (ports s ! h) \<noteq> None \<and> port_rx_context (ports s ! h) = Some b \<and>
      event AND RHSHalSerialRxEventData \<noteq> 0
    then (case instance_of (ports s ! h) of None \<Rightarrow> [] | Some r \<Rightarrow> [second_read (regs (port E)) r (hw s)]) else []) s'"
proof (cases "rx_byte_callback (ports s ! h)")
  case None
  with assms(1) show ?thesis by (auto simp: byte_callback_def intro: moves_same)
next
  case (Some cb)
  then obtain a where a: "port_rx_context (ports s ! h) = Some a" "serial_rx_cb E h event a s = Inr s'"
    using assms(1) by (auto simp: byte_callback_def bridge_port_def split: option.splits)
  from serial_rx_cb_moves [OF a(2), of i b] show ?thesis using Some a(1) by auto
qed

lemma rx_event_moves: "moves outbox i b s [] (snd (rx_event S u s))"
  by (rule moves_same) (rule rx_event_keeps)

lemma irq_byte_moves:
  assumes e: "rx_event (bridge_port E) u s = (event, s1)" and p: "ports s1 = ports s" "outer s1 = outer s"
    and h: "h < length (ports s)" "buffer_rx_ptr (ports s ! h) = None" and run: "byte_callback (bridge_port E) h event s1 = Inr s'"
  shows "moves outbox i b s (rx_bytes E b u h s) s'"
proof -
  have "moves outbox i b s1 (rx_bytes E b u h s) s'"
    using byte_callback_moves [OF run, of i b] e p h by (auto simp: rx_bytes_def split: if_splits)
  then show ?thesis by (rule moves_after [OF moves_same [OF p(2)]])
qed

lemma rs232_irq_moves:
  assumes "rhs_hal_rs232_irq_callback (bridge_port E) (Some h) s = Inr s'"
  shows "moves outbox i b s (rx_bytes E b USART3 h s) s'"
proof -
  obtain event s1 where e: "rx_event (bridge_port E) USART3 s = (event, s1)" by fastforce
  have p: "ports s1 = ports s" "outer s1 = outer s" using rx_event_keeps [of "bridge_port E" USART3 s] e by simp_all
  then have h: "h < length (ports s)"
    using assms e by (auto simp: rhs_hal_rs232_irq_callback_def rbind_eq_Inr aget_def split: if_splits)
  show ?thesis
  proof (cases "buffer_rx_ptr (ports s ! h) = None")
    case True
    with assms e h p have "byte_callback (bridge_port E) h event s1 = Inr s'"
      by (auto simp: rhs_hal_rs232_irq_callback_def rbind_eq_Inr aget_def)
    then show ?thesis using irq_byte_moves [OF e] h p True by simp
  next
    case False
    then have "rx_bytes E b USART3 h s = []" using e by (auto simp: rx_bytes_def)
    moreover have "outer s' = outer s" using assms e h p False
      by (auto simp: rhs_hal_rs232_irq_callback_def aget_def bridge_port_def dma_bytes_available_def Let_def split: option.splits)
    ultimately show ?thesis by (simp add: moves_same)
  qed
qed

lemma rs485_irq_moves:
  assumes "rhs_hal_rs485_rx_irq_callback (bridge_port E) (Some h) s = Inr s'"
  shows "moves outbox i b s (rx_bytes E b USART6 h s) s'"
proof -
  obtain event s1 where e: "rx_event (bridge_port E) USART6 s = (event, s1)" by fastforce
  have p: "ports s1 = ports s" "outer s1 = outer s" using rx_event_keeps [of "bridge_port E" USART6 s] e by simp_all
  then have h: "h < length (ports s)"
    using assms e by (auto simp: rhs_hal_rs485_rx_irq_callback_def rbind_eq_Inr aget_def split: if_splits)
  show ?thesis
  proof (cases "buffer_rx_ptr (ports s ! h) = None")
    case True
    with assms e h p have "byte_callback (bridge_port E) h event s1 = Inr s'"
      by (auto simp: rhs_hal_rs485_rx_irq_callback_def rbind_eq_Inr aget_def)
    then show ?thesis using irq_byte_moves [OF e] h p True by simp
  next
    case False
    then have "rx_bytes E b USART6 h s = []" using e by (auto simp: rx_bytes_def)
    moreover have "outer s' = outer s" using assms e h p False
      by (auto simp: rhs_hal_rs485_rx_irq_callback_def aget_def bridge_port_def Let_def rbind_eq_Inr split: option.splits if_splits)
    ultimately show ?thesis by (simp add: moves_same)
  qed
qed

lemma cdc_moves:
  "tud_cdc_rx_cb E itf s = Inr s' \<Longrightarrow> moves outbox i b s [] s'"
  "tud_cdc_tx_complete_cb E itf s = Inr s' \<Longrightarrow> moves outbox i b s [] s'"
proof -
  have put: "moves outbox i b s [] (put_bridge a u' s)"
    if "objects (outer s) a = Some u" "rx_stream u' = rx_stream u" "rx_buf u' = rx_buf u" "worker_at u' = worker_at u" for a u u'
    using that by (cases "a = b") (auto simp: pending_def stream_bytes_def intro: moves_put_quiet moves_put_other)
  show "tud_cdc_rx_cb E itf s = Inr s' \<Longrightarrow> moves outbox i b s [] s'"
    by (auto simp: tud_cdc_rx_cb_def vcp_on_cdc_rx_def rbind_eq_Inr split: option.splits dest!: set_tx_keeps intro: put moves_same)
  show "tud_cdc_tx_complete_cb E itf s = Inr s' \<Longrightarrow> moves outbox i b s [] s'"
    by (auto simp: tud_cdc_tx_complete_cb_def vcp_on_cdc_tx_complete_def rbind_eq_Inr case_prod_beta split: option.splits intro!: put intro: moves_same)
qed

lemma disable_moves:
  "usb_serial_disable E (Some b) s = Inr s' \<Longrightarrow> moves outbox i b s [] s'"
  "usb_serial_disable_join b s = Inr s' \<Longrightarrow> moves outbox i b s [] s'"
  by (auto simp: usb_serial_disable_def usb_serial_disable_join_def rbind_eq_Inr pending_def stream_bytes_def moves_def backlog_def
      put_bridge_def split: if_splits intro!: moves_put_quiet exI [of _ "[]"])

lemma step_moves: "bridge_step E tud_task b s e s' \<Longrightarrow> moves outbox i b s (got [e]) s'"
  by (induction rule: bridge_step.cases)
    (auto intro: worker_moves tx_moves rs232_irq_moves rs485_irq_moves cdc_moves disable_moves moves_same moves_tusb
      simp: task_keeps upd_hw_def)

lemma run_moves: "bridge_run E tud_task b s0 es s \<Longrightarrow> moves outbox i b s0 (got es) s"
proof (induction rule: bridge_run.induct)
  case run_start
  then show ?case by (simp add: moves_same)
next
  case (run_step es s e s')
  then show ?case using moves_trans [OF _ step_moves] by (metis got_append)
qed

end

section \<open>A transmission that never completes\<close>

text \<open>The places of the worker between taking the semaphore and sending, and before the semaphore exists.\<close>

fun may_send :: "worker_pc \<Rightarrow> bool" where
  "may_send WNew = True"
| "may_send WInit = True"
| "may_send (WLock _ _) = True"
| "may_send (WUsb _ _) = True"
| "may_send _ = False"

definition starving :: "nat \<Rightarrow> ('h, 'n, 't, 'u) bridge_sys \<Rightarrow> bool" where
  "starving b s = (case objects (outer s) b of None \<Rightarrow> True | Some u \<Rightarrow>
     \<not> may_send (worker_at u) \<and> (case tx_sem u of None \<Rightarrow> False | Some sem \<Rightarrow> sem_count sem = 0))"

text \<open>What the helpers of the worker leave as it is.\<close>

definition sem_kept ::
  "(nat \<Rightarrow> 'u \<Rightarrow> u8 list) \<Rightarrow> nat \<Rightarrow> nat \<Rightarrow> ('h, 'n, 't, 'u) bridge_sys \<Rightarrow> ('h, 'n, 't, 'u) bridge_sys \<Rightarrow> bool" where
  "sem_kept outbox i b s s' \<longleftrightarrow> outbox i (tusb (outer s')) = outbox i (tusb (outer s)) \<and> (case objects (outer s) b of None \<Rightarrow> objects (outer s') b = None
     | Some u \<Rightarrow> \<exists>u'. objects (outer s') b = Some u' \<and> tx_sem u' = tx_sem u \<and> worker_at u' = worker_at u)"

lemma sem_kept_trans: "sem_kept outbox i b s s' \<Longrightarrow> sem_kept outbox i b s' s'' \<Longrightarrow> sem_kept outbox i b s s''"
  by (auto simp: sem_kept_def split: option.splits)

lemma sem_kept_same: "outer s' = outer s \<Longrightarrow> sem_kept outbox i b s s'"
  by (auto simp: sem_kept_def split: option.split)

lemma sem_kept_put:
  "objects (outer s) a = Some u \<Longrightarrow> tx_sem u' = tx_sem u \<Longrightarrow> worker_at u' = worker_at u \<Longrightarrow> sem_kept outbox i b s (put_bridge a u' s)"
  by (auto simp: sem_kept_def put_bridge_def split: option.split)

text \<open>A step after which the worker still starves, and no byte has gone out.\<close>

definition starves ::
  "(nat \<Rightarrow> 'u \<Rightarrow> u8 list) \<Rightarrow> nat \<Rightarrow> nat \<Rightarrow> ('h, 'n, 't, 'u) bridge_sys \<Rightarrow> ('h, 'n, 't, 'u) bridge_sys \<Rightarrow> bool" where
  "starves outbox i b s s' \<longleftrightarrow> starving b s' \<and> outbox i (tusb (outer s')) = outbox i (tusb (outer s))"

lemma starves_put:
  "starving b s \<Longrightarrow> objects (outer s) b = Some u \<Longrightarrow> tx_sem u' = tx_sem u \<Longrightarrow> \<not> may_send (worker_at u') \<Longrightarrow>
     starves outbox i b s (put_bridge b u' s)"
  by (auto simp: starves_def starving_def put_bridge_def split: option.splits)

lemma starves_kept: "starving b s \<Longrightarrow> sem_kept outbox i b s s' \<Longrightarrow> starves outbox i b s s'"
  by (auto simp: starves_def starving_def sem_kept_def split: option.splits)

lemma starves_trans: "starves outbox i b s s' \<Longrightarrow> starves outbox i b s' s'' \<Longrightarrow> starves outbox i b s s''"
  by (simp add: starves_def)

lemma starves_goto: "starving b s \<Longrightarrow> goto b l s = Inr s' \<Longrightarrow> \<not> may_send l \<Longrightarrow> starves outbox i b s s'"
  by (auto simp: goto_def rbind_eq_Inr intro!: starves_put)

lemma starves_kept_goto:
  assumes "starving b s" and "objects (outer s) b = Some u" and "sem_kept outbox i b s s1" and "goto b l s1 = Inr s'" and "\<not> may_send l"
  shows "starves outbox i b s s'"
proof -
  have "starves outbox i b s s1" by (rule starves_kept [OF assms(1,3)])
  then show ?thesis using starves_trans starves_goto [OF _ assms(4,5)] by (fastforce simp: starves_def)
qed

lemma starves_kept_start:
  assumes "starving b s" and "objects (outer s) b = Some u" and "sem_kept outbox i b s s1" and "objects (outer s1) b = Some u1"
    and "start_tx (u1\<lparr>cfg := c\<rparr>) = Inr u2" and "\<not> may_send l"
  shows "starves outbox i b s (put_bridge b (u2\<lparr>worker_at := l\<rparr>) s1)"
proof -
  have s1: "starves outbox i b s s1" by (rule starves_kept [OF assms(1,3)])
  moreover have "starves outbox i b s1 (put_bridge b (u2\<lparr>worker_at := l\<rparr>) s1)"
    using s1 start_tx_keeps [OF assms(5)] assms(6) by (intro starves_put [OF _ assms(4)]) (simp_all add: starves_def)
  ultimately show ?thesis by (rule starves_trans)
qed

lemma set_callbacks_sem: "rhs_hal_cdc_set_callbacks E n cb s = Inr s' \<Longrightarrow> sem_kept outbox i b s s'"
  by (drule set_callbacks_outer) (auto simp: sem_kept_def split: option.splits)

lemma open_serial_sem:
  assumes "open_serial E b ch baud s = Inr s'"
  shows "sem_kept outbox i b s s'"
proof -
  obtain s1 u where init: "rhs_hal_serial_init (bridge_port E) (unat ch) baud s = Inr s1" and u: "objects (outer s1) b = Some u"
    and start: "rhs_hal_serial_async_rx_start (bridge_port E) (Some (unat ch)) (Some SerialRxCb) (Some b)
        (put_bridge b (u\<lparr>serial_handle := Some (unat ch)\<rparr>) s1) = Inr s'"
    using assms by (auto simp: open_serial_def rbind_eq_Inr)
  have "sem_kept outbox i b s1 (put_bridge b (u\<lparr>serial_handle := Some (unat ch)\<rparr>) s1)"
    by (rule sem_kept_put [OF u]) simp_all
  then show ?thesis
    by (intro sem_kept_trans [OF sem_kept_same [OF serial_init_keeps [OF init]]] sem_kept_trans [OF _ sem_kept_same [OF serial_rx_start_keeps [OF start]]])
qed

lemma serial_down_sem:
  assumes "usb_uart_serial_deinit E b s = Inr s'"
  shows "sem_kept outbox i b s s'"
proof -
  obtain s1 u h where down: "rhs_hal_serial_deinit (bridge_port E) h s = Inr s1" and u: "objects (outer s1) b = Some u"
      "s' = put_bridge b (u\<lparr>serial_handle := None\<rparr>) s1"
    using assms by (auto simp: usb_uart_serial_deinit_def rbind_eq_Inr)
  have "sem_kept outbox i b s1 s'" unfolding u(2) by (rule sem_kept_put [OF u(1)]) simp_all
  then show ?thesis by (rule sem_kept_trans [OF sem_kept_same [OF serial_deinit_keeps [OF down]]])
qed

context usb_bridge begin

lemma vcp_init_sem: "usb_serial_vcp_init E b ch s = Inr s' \<Longrightarrow> sem_kept outbox i b s s'"
  unfolding usb_serial_vcp_init_def
proof (rule sem_kept_trans)
  show "sem_kept outbox i b s (set_cdc_interface (tud E) s)"
    by (auto simp: set_cdc_interface_def rhs_hal_usb_set_interface_def sem_kept_def set_keeps Let_def split: option.split)
qed (rule set_callbacks_sem)

lemma empty_sem_times_out:
  "sem_count sem = 0 \<Longrightarrow> rhs_semaphore_acquire (sems E) task_ctx sem 100 = Inr (r, y, q) \<Longrightarrow> r \<noteq> RHSStatusOk \<and> q = sem"
  using sm.take_empty [of sem 100]
  by (auto simp: rhs_semaphore_acquire_def RHS_IS_IRQ_MODE_def task_ctx_def split: option.splits if_splits)

lemma cfg_join_starves:
  assumes s: "starving b s" and u: "objects (outer s) b = Some u"
  shows "cfg_join_vcp E b events u s = Inr s' \<Longrightarrow> starves outbox i b s s'"
    and "cfg_join_serial E b events u s = Inr s' \<Longrightarrow> starves outbox i b s s'"
proof -
  assume "cfg_join_vcp E b events u s = Inr s'"
  then obtain s1 s2 u2 u3 where j: "rhs_hal_cdc_set_callbacks E (unat (vcp_ch (cfg u))) None s = Inr s1"
    "usb_serial_vcp_init E b (vcp_ch (cfg_new u)) s1 = Inr s2"
    "objects (outer s2) b = Some u2" "start_tx (u2\<lparr>cfg := (cfg u2)\<lparr>vcp_ch := vcp_ch (cfg_new u2)\<rparr>\<rparr>) = Inr u3"
    "s' = put_bridge b (u3\<lparr>worker_at := WCfgSerial (events OR WorkerEvtCtrlLineSet OR WorkerEvtLineCfgSet)\<rparr>) s2"
    by (auto simp: cfg_join_vcp_def usb_serial_vcp_deinit_def rbind_eq_Inr)
  show "starves outbox i b s s'"
    unfolding j(5) by (rule starves_kept_start [OF s u sem_kept_trans [OF set_callbacks_sem [OF j(1)] vcp_init_sem [OF j(2)]] j(3,4)]) simp
next
  assume "cfg_join_serial E b events u s = Inr s'"
  then obtain s1 s2 u2 u3 where j: "usb_uart_serial_deinit E b s = Inr s1" "open_serial E b (serial_ch (cfg_new u)) 115200 s1 = Inr s2"
    "objects (outer s2) b = Some u2" "start_tx (u2\<lparr>cfg := (cfg u2)\<lparr>serial_ch := serial_ch (cfg_new u2)\<rparr>\<rparr>) = Inr u3"
    "s' = put_bridge b (u3\<lparr>worker_at := WCfgRest events\<rparr>) s2"
    by (auto simp: cfg_join_serial_def usb_uart_serial_init_def rbind_eq_Inr)
  show "starves outbox i b s s'"
    unfolding j(5) by (rule starves_kept_start [OF s u sem_kept_trans [OF serial_down_sem [OF j(1)] open_serial_sem [OF j(2)]] j(3,4)]) simp
qed

lemma worker_sem_starves:
  assumes s: "starving b s" and u: "objects (outer s) b = Some u" and run: "worker_sem E events len u = Inr u'"
  shows "starves outbox i b s (put_bridge b u' s)"
proof -
  obtain sem where sem: "tx_sem u = Some sem" "sem_count sem = 0" using s u by (auto simp: starving_def split: option.splits)
  then obtain x where "u' = u\<lparr>tx_sem := Some sem, rx_stream := Some (snd (xStreamBufferReset (streams E) x)), worker_at := WCfg events\<rparr>"
    using worker_sem_result [OF run] empty_sem_times_out [OF sem(2)] by auto
  then show ?thesis using sem by (intro starves_put [OF s u]) simp_all
qed

lemma worker_starves:
  assumes s: "starving b s" and u: "objects (outer s) b = Some u" and "usb_serial_worker E b u s = Inr s'"
  shows "starves outbox i b s s'"
proof -
  have at: "\<not> may_send (worker_at u)" using s u by (simp add: starving_def)
  note put = starves_put [OF s u] and move = starves_goto [OF s] and kept = starves_kept_goto [OF s u]
  note run = assms(3) [unfolded usb_serial_worker_def Let_def]
  show ?thesis
  proof (cases "worker_at u")
    case WSerial
    with run show ?thesis by (auto simp: rbind_eq_Inr intro: kept [OF open_serial_sem])
  next
    case (WSem events len)
    with run show ?thesis by (auto simp: rbind_eq_Inr intro: worker_sem_starves [OF s u])
  next
    case (WCfg events)
    with run show ?thesis by (auto simp: rbind_eq_Inr stop_tx_def split: if_splits dest!: set_tx_keeps intro!: put intro: move)
  next
    case (WCfgSerial events)
    with run show ?thesis by (auto simp: rbind_eq_Inr stop_tx_def split: if_splits dest!: set_tx_keeps intro!: put intro: move)
  next
    case WVcpDown
    with run show ?thesis by (auto simp: rbind_eq_Inr usb_serial_vcp_deinit_def intro: kept [OF set_callbacks_sem])
  next
    case WSerialDown
    with run show ?thesis by (auto simp: rbind_eq_Inr intro: kept [OF serial_down_sem])
  next
    case WJoin
    with run show ?thesis by (auto simp: rbind_eq_Inr intro: move)
  next
    case WStart
    with run show ?thesis by (auto simp: rbind_eq_Inr dest!: start_tx_keeps intro!: put)
  qed (use run at in \<open>auto simp: rbind_eq_Inr worker_wait_def worker_receive_def unlock_usb_def cfg_rest_def worker_free_def stop_tx_def
      split: if_splits dest!: set_tx_keeps intro!: put intro: cfg_join_starves [OF s u]\<close>)
qed

lemma tx_starves:
  assumes s: "starving b s" and u: "objects (outer s) b = Some u" and "usb_serial_tx_thread E b u s = Inr s'"
  shows "starves outbox i b s s'"
proof -
  have at: "\<not> may_send (worker_at u)" using s u by (simp add: starving_def)
  note put = starves_put [OF s u] and run = assms(3) [unfolded usb_serial_tx_thread_def]
  show ?thesis
  proof (cases "tx_at u")
    case TxReceive
    with run s u show ?thesis
      by (auto simp: starves_def starving_def upd_tusb_def put_bridge_def case_prod_beta receive_keeps)
  next
    case (TxSend d)
    with run obtain n where "rhs_hal_serial_tx (bridge_port E) n d (put_bridge b (u\<lparr>tx_at := TxWait\<rparr>) s) = Inr s'"
      by (auto split: option.splits)
    then have "outer s' = outer (put_bridge b (u\<lparr>tx_at := TxWait\<rparr>) s)" by (rule serial_tx_keeps)
    then show ?thesis using put [of "u\<lparr>tx_at := TxWait\<rparr>" outbox i] at by (simp add: starves_def starving_def)
  qed (use run at in \<open>auto simp: rbind_eq_Inr lock_usb_def unlock_usb_def split: if_splits intro!: put\<close>)
qed

lemma irq_sem:
  "rhs_hal_rs232_irq_callback (bridge_port E) (Some h) s = Inr s' \<Longrightarrow> sem_kept outbox i b s s'"
  "rhs_hal_rs485_rx_irq_callback (bridge_port E) (Some h) s = Inr s' \<Longrightarrow> sem_kept outbox i b s s'"
proof -
  have rx: "sem_kept outbox i b s s'" if run: "serial_rx_cb E h event a s = Inr s'" for event a s s'
  proof -
    obtain d1 s1 where s1: "rhs_hal_serial_async_rx (port E) isr_ctx (Some h) s = Inr (d1, s1)"
      using run by (auto simp: serial_rx_cb_def rbind_eq_Inr)
    have o1: "outer s1 = outer s" using async_rx_result [OF s1] by auto
    show ?thesis
    proof (cases "event AND RHSHalSerialRxEventData = 0")
      case False
      with run s1 obtain d s2 u x where s2: "rhs_hal_serial_async_rx (port E) isr_ctx (Some h) s1 = Inr (d, s2)"
        and u: "objects (outer s2) a = Some u" and s': "s' = put_bridge a (set_worker E WorkerEvtRxDone (u\<lparr>rx_stream := x\<rparr>)) s2"
        by (auto simp: serial_rx_cb_def rbind_eq_Inr)
      have "outer s2 = outer s" using async_rx_result [OF s2] o1 by auto
      then show ?thesis unfolding s' by (intro sem_kept_trans [OF sem_kept_same sem_kept_put [OF u]]) simp_all
    qed (use run s1 o1 in \<open>auto simp: serial_rx_cb_def intro: sem_kept_same\<close>)
  qed
  have byte: "sem_kept outbox i b s s'" if "byte_callback (bridge_port E) h event s = Inr s'" for event s s'
    using that by (auto simp: byte_callback_def bridge_port_def split: option.splits intro: rx sem_kept_same)
  have ev: "sem_kept outbox i b s (snd (rx_event S u s))" for S u s
    by (rule sem_kept_same) (rule rx_event_keeps)
  have dma [simp]: "run_rx_dma (bridge_port E) cb h e n c s = Inr s" for cb e n c s by (simp add: bridge_port_def)
  show "rhs_hal_rs232_irq_callback (bridge_port E) (Some h) s = Inr s' \<Longrightarrow> sem_kept outbox i b s s'"
    by (auto simp: rhs_hal_rs232_irq_callback_def rbind_eq_Inr case_prod_beta dma_bytes_available_def Let_def rx_event_keeps
        split: if_splits option.splits intro: sem_kept_trans [OF ev byte] sem_kept_same)
  show "rhs_hal_rs485_rx_irq_callback (bridge_port E) (Some h) s = Inr s' \<Longrightarrow> sem_kept outbox i b s s'"
    by (auto simp: rhs_hal_rs485_rx_irq_callback_def rbind_eq_Inr case_prod_beta Let_def rx_event_keeps
        split: if_splits option.splits intro: sem_kept_trans [OF ev byte] sem_kept_same)
qed

lemma step_starves:
  assumes "bridge_step E tud_task b s e s'" and s: "starving b s" and "\<forall>itf. e \<noteq> TxComplete itf"
  shows "starves outbox i b s s'"
proof -
  note kept = starves_kept [OF s]
  have put: "starves outbox i b s (put_bridge a u' s)"
    if "objects (outer s) a = Some u" "tx_sem u' = tx_sem u" "worker_at u' = worker_at u" for a u u'
    by (rule kept [OF sem_kept_put [OF that]])
  show ?thesis
    using assms(1,3)
  proof cases
    case (cdc_rx itf)
    then obtain cb where "(case cb of None \<Rightarrow> Inr s | Some a \<Rightarrow> vcp_on_cdc_rx E a s) = Inr s'"
      by (auto simp: tud_cdc_rx_cb_def rbind_eq_Inr)
    then show ?thesis using kept [OF sem_kept_same [OF refl]]
      by (cases cb) (auto simp: vcp_on_cdc_rx_def rbind_eq_Inr dest!: set_tx_keeps intro!: put)
  next
    case disabling
    then show ?thesis by (auto simp: usb_serial_disable_def rbind_eq_Inr intro!: put)
  next
    case disabled
    then show ?thesis
      by (auto simp: usb_serial_disable_join_def rbind_eq_Inr starves_def starving_def split: if_splits)
  next
    case (usb_works n)
    have "sem_kept outbox i b s (upd_tusb (tud_task n) s)" by (simp add: sem_kept_def upd_tusb_def task_keeps split: option.split)
    then show ?thesis unfolding usb_works(2) by (rule kept)
  next
    case (uart_works f)
    show ?thesis unfolding uart_works(2) by (rule kept [OF sem_kept_same]) (simp add: upd_hw_def)
  qed (use s in \<open>auto intro: worker_starves tx_starves kept [OF irq_sem(1)] kept [OF irq_sem(2)]\<close>)
qed

lemma run_starves:
  "bridge_run E tud_task b s0 es s \<Longrightarrow> starving b s0 \<Longrightarrow> \<forall>itf. TxComplete itf \<notin> set es \<Longrightarrow> starves outbox i b s0 s"
proof (induction rule: bridge_run.induct)
  case (run_step es s e s')
  then have s: "starves outbox i b s0 s" by simp
  then have "starves outbox i b s s'"
    by (intro step_starves [OF run_step(2)]) (use run_step.prems(2) in \<open>auto simp: starves_def\<close>)
  with s show ?case by (rule starves_trans)
qed (simp add: starves_def)

end

section \<open>Properties\<close>

text \<open>C28: the bridge keeps the order of the bytes, under any interleaving of its threads, the interrupts, the USB
  callbacks and the command that ends it. What the USB stack has got from it since a state, together with
  what it still holds, is a subsequence of what it held and what its interrupt has read since: bytes can be lost,
  but none is sent twice, out of order, or made up.
\<close>

theorem usb_bridge_keeps_order:
  assumes "usb_bridge E tud_task outbox" and "bridge_run E tud_task b s0 es s"
  shows "\<exists>d. outbox i (tusb (outer s)) = outbox i (tusb (outer s0)) @ d \<and> subseq (d @ backlog b s) (backlog b s0 @ got es)"
  using usb_bridge.run_moves [OF assms] by (auto simp: moves_def)

text \<open>C29: a bridge waits for a completed transmission that does not come for ever. When its semaphore is taken and
  the worker is not about to send, then as long as the USB stack reports no completed transmission the stack gets
  no byte more, whatever arrives and however often the waits for the semaphore time out. Since the
  semaphore is only given back by that report, and the report only follows a transmission, losing one report
  stops the direction to USB until the bridge is disabled.
\<close>

theorem usb_bridge_starves:
  assumes "usb_bridge E tud_task outbox" and "bridge_run E tud_task b s0 es s" and "starving b s0"
    and "\<forall>itf. TxComplete itf \<notin> set es"
  shows "starving b s \<and> outbox i (tusb (outer s)) = outbox i (tusb (outer s0))"
  using usb_bridge.run_starves [OF assms] by (simp add: starves_def)

text \<open>Disabling a bridge can crash it. The worker closes the serial port and forgets its handle before it stops the
  other thread: if that one has just taken bytes from USB, its next step reads through the NULL handle.
\<close>

theorem usb_bridge_disable_crashes:
  assumes "objects (outer s) b = Some u" and "worker_at u = WSerialDown" and "tx_at u = TxSend d"
    and "usb_serial_worker E b u s = Inr s'"
  shows "\<exists>u'. objects (outer s') b = Some u' \<and> worker_at u' = WTxStop \<and> usb_serial_tx_thread E b u' s' = Inl OutOfBounds"
proof -
  obtain h s1 u1 where down: "rhs_hal_serial_deinit (bridge_port E) h s = Inr s1" and u1: "objects (outer s1) b = Some u1"
      "s' = put_bridge b (u1\<lparr>serial_handle := None, worker_at := WTxStop\<rparr>) s1"
    using assms(2,4) by (auto simp: usb_serial_worker_def usb_uart_serial_deinit_def goto_def rbind_eq_Inr put_bridge_def)
  have "u1 = u" using serial_deinit_keeps [OF down] assms(1) u1(1) by simp
  then show ?thesis using assms(3) by (simp add: u1(2) put_bridge_def usb_serial_tx_thread_def)
qed

section \<open>An example\<close>

text \<open>A USB stack that takes every byte: the bytes taken on each port.\<close>

definition demo_tud :: "(nat \<Rightarrow> u8 list) tud_api" where
  "demo_tud = \<lparr>usb_init = (\<lambda>k u. u), usb_deinit = (\<lambda>k u. u), descriptor_switch_mode = (\<lambda>k u. u),
     USB_CDC_PKT_LEN = 64, tud_cdc_n_write_char = (\<lambda>i c u. u(i := u i @ [c])),
     tud_cdc_n_write_flush = (\<lambda>i u. u), tud_cdc_n_available = (\<lambda>i u. 0), tud_cdc_n_read = (\<lambda>i n u. ([], u))\<rparr>"

definition demo_env :: "(uart_hw, int set, nat, nat \<Rightarrow> u8 list) bridge_env" where
  "demo_env = \<lparr>port = \<lparr>regs = uart_api, nvic_of = set_nvic, isr_cycles = (\<lambda>s. 0), polls = 10, run_rx_byte = (\<lambda>cb i e c. Inr),
       run_rx_dma = (\<lambda>cb i e n c. Inr), run_tx_done = (\<lambda>cb i c. Inr)\<rparr>,
     streams = plain_stream, sems = counter_sem, mutexes = plain_mutex, notify = plain_notify, tud = demo_tud,
     worker_task = (\<lambda>b. b), tx_task = Suc, heap_ok = True, junk = False\<rparr>"

interpretation demo: usb_bridge demo_env "\<lambda>n u. u" "\<lambda>i u. u i"
proof -
  have "tud_device demo_tud (\<lambda>n u. u) (\<lambda>i u. u i)" by unfold_locales (auto simp: demo_tud_def)
  then show "usb_bridge demo_env (\<lambda>n u. u) (\<lambda>i u. u i)"
    by (simp add: usb_bridge_def demo_env_def plain_bridge_stream.bridge_streams_axioms counter_bridge_sem.bridge_sems_axioms)
qed

definition demo_bridge :: "worker_pc \<Rightarrow> nat bridge" where
  "demo_bridge l = \<lparr>cfg = bridge_config 0, cfg_new = bridge_config 0, worker = zero_thread, worker_flags = 0, worker_at = l,
     tx_thread = Some zero_thread, tx_flags = 0, tx_at = TxSend [9], rx_stream = Some \<lparr>bytes = [4], storage = 321, xTriggerLevelBytes = 1\<rparr>,
     serial_handle = Some 0, usb_mutex = None, tx_sem = Some \<lparr>sem_count = 0, sem_max = 1\<rparr>, rx_cnt = 0, tx_cnt = 0, rx_buf = [1, 2, 3]\<rparr>"

definition demo_sys :: "worker_pc \<Rightarrow> (uart_hw, int set, nat, nat \<Rightarrow> u8 list) bridge_sys" where
  "demo_sys l = \<lparr>ports = [\<lparr>buffer_rx_ptr = None, buffer_rx_index_write = 0, buffer_rx_index_read = 0, port_enabled = True,
       instance_of = Some USART3, rx_byte_callback = Some SerialRxCb, tx_byte_callback = None, rx_dma_callback = None,
       tx_dma_callback = None, port_rx_context = Some 7, port_tx_context = None\<rparr>],
     lines = rhs_hal_interrupt_boot {}, hw = hw uart_sys, rx_log = [],
     outer = \<lparr>tusb = (\<lambda>i. []), s_usb_desc = Some UsbCdcDesc, callbacks = [Some 7, None], cdc_ctrl_line_state = [0, 0],
       objects = [7 \<mapsto> demo_bridge l], usb_rs232 = Some 7, usb_rs485 = None\<rparr>\<rparr>"

lemma demo_object [simp]: "objects (outer (demo_sys l)) 7 = Some (demo_bridge l)" "worker_at (demo_bridge l) = l"
  by (simp_all add: demo_sys_def demo_bridge_def)

lemma demo_at [simp]: "bridge_at 7 (demo_sys l) = Inr (demo_bridge l)"
  by simp

theorem usb_bridge_keeps_order_witness:
  "\<exists>s. bridge_run demo_env (\<lambda>n u. u) 7 (demo_sys (WUsb 2 3)) [Quiet] s \<and> tusb (outer s) 0 = [1, 2, 3] \<and>
     subseq ([1, 2, 3] @ backlog 7 s) [1, 2, 3, 4]"
proof -
  obtain s where s: "usb_serial_worker demo_env 7 (demo_bridge (WUsb 2 3)) (demo_sys (WUsb 2 3)) = Inr s" "tusb (outer s) 0 = [1, 2, 3]"
    by (simp add: usb_serial_worker_def goto_def) (simp add: upd_tusb_def put_bridge_def rhs_hal_cdc_send_def demo_env_def demo_tud_def
        demo_bridge_def bridge_config_def demo_sys_def)
  have run: "bridge_run demo_env (\<lambda>n u. u) 7 (demo_sys (WUsb 2 3)) ([] @ [Quiet]) s"
    by (rule bridge_run.run_step [OF bridge_run.run_start bridge_step.worker_runs]) (use s in simp_all)
  have "backlog 7 (demo_sys (WUsb 2 3)) = [1, 2, 3, 4]" "tusb (outer (demo_sys (WUsb 2 3))) 0 = []"
    by (simp_all add: backlog_def pending_def stream_bytes_def demo_bridge_def demo_sys_def)
  with usb_bridge_keeps_order [OF demo.usb_bridge_axioms run, of 0] s(2) run show ?thesis by auto
qed

theorem usb_bridge_starves_witness:
  "\<exists>s. bridge_run demo_env (\<lambda>n u. u) 7 (demo_sys (WSem 2 3)) [Quiet] s \<and> starving 7 s \<and> tusb (outer s) 0 = []"
proof -
  obtain s where s: "usb_serial_worker demo_env 7 (demo_bridge (WSem 2 3)) (demo_sys (WSem 2 3)) = Inr s"
    by (simp add: usb_serial_worker_def worker_sem_def demo_env_def demo_bridge_def rhs_semaphore_acquire_def RHS_IS_IRQ_MODE_def
        task_ctx_def counter_sem_def RHSWaitForever_def rhs_stream_buffer_reset_def plain_stream_def Let_def)
  have run: "bridge_run demo_env (\<lambda>n u. u) 7 (demo_sys (WSem 2 3)) ([] @ [Quiet]) s"
    by (rule bridge_run.run_step [OF bridge_run.run_start bridge_step.worker_runs]) (use s in simp_all)
  have "starving 7 (demo_sys (WSem 2 3))" by (simp add: starving_def) (simp add: demo_bridge_def)
  with usb_bridge_starves [OF demo.usb_bridge_axioms run, of 0] run show ?thesis by (auto simp: demo_sys_def)
qed

theorem usb_bridge_disable_crashes_witness:
  "\<exists>s' u'. usb_serial_worker demo_env 7 (demo_bridge WSerialDown) (demo_sys WSerialDown) = Inr s' \<and>
     objects (outer s') 7 = Some u' \<and> usb_serial_tx_thread demo_env 7 u' s' = Inl OutOfBounds"
proof -
  let ?s = "demo_sys WSerialDown" and ?E = "bridge_port demo_env"
  let ?free = "\<lambda>s. length (isr_table (lines s)) = RHSHalInterruptIdMax"
  have clear: "\<exists>s'. set_isr ?E l None None s = Inr s' \<and> ports s' = ports s \<and> outer s' = outer s \<and> ?free s'"
    if "?free s" "l < RHSHalInterruptIdMax" for s l
    using set_isr_ok [of l None s ?E None] set_isr_keeps [of ?E l None None s] that
    by (auto simp: set_isr_checks_def interrupt_priorities)
  have ids: "RHSHalInterruptIdUsart3 < RHSHalInterruptIdMax" "RHSHalInterruptIdDMA1Stream3 < RHSHalInterruptIdMax"
    by (simp_all add: interrupt_ids)
  have "?free ?s" by (simp add: demo_sys_def rhs_hal_interrupt_boot_def)
  then obtain a where a: "set_isr ?E RHSHalInterruptIdUsart3 None None ?s = Inr a" "ports a = ports ?s" "outer a = outer ?s" "?free a"
    using clear ids(1) by blast
  then obtain c where c: "set_isr ?E RHSHalInterruptIdDMA1Stream3 None None a = Inr c" "ports c = ports ?s" "outer c = outer ?s"
    using clear [OF a(4) ids(2)] by auto
  have "\<exists>s1. rhs_hal_serial_deinit ?E (Some 0) ?s = Inr s1 \<and> outer s1 = outer ?s"
    using a(1) c by (simp add: rhs_hal_serial_deinit_def rhs_hal_serial_get_id_def serial_ids) (simp add: demo_sys_def)
  then obtain s1 where s1: "rhs_hal_serial_deinit ?E (Some 0) ?s = Inr s1" "outer s1 = outer ?s" by blast
  then have "\<exists>s'. usb_serial_worker demo_env 7 (demo_bridge WSerialDown) ?s = Inr s'"
    by (simp add: usb_serial_worker_def usb_uart_serial_deinit_def goto_def bridge_at_def put_bridge_def) (simp add: demo_bridge_def goto_def bridge_at_def)
  then obtain s' where s': "usb_serial_worker demo_env 7 (demo_bridge WSerialDown) ?s = Inr s'" by blast
  then show ?thesis
    using usb_bridge_disable_crashes [where d = "[9]", OF demo_object(1) demo_object(2) _ s'] by (auto simp: demo_bridge_def)
qed

end
