(* ===== verification/Gpio.thy ===== *)
theory Gpio
  imports Prelude
begin

text \<open>
  The register level access to pins of hal/rhs_hal_gpio/rhs_hal_gpio.h for the three families of
  chips. The registers are memory that keeps what is written, apart from the set and reset
  register, whose write changes the output latch. The lemmas read and write registers as
  arrays of fields; they say that configuring a pin changes its own fields only.
\<close>

section \<open>Registers\<close>

record gpio_bank =
  OTYPER :: u32
  OSPEEDR :: u32
  PUPDR :: u32
  MODER :: u32
  AFRL :: u32
  AFRH :: u32
  CRL :: u32
  CRH :: u32
  IDR_reg :: u32
  ODR :: u32

text \<open>
  The banks by their number, and the registers that the code writes outside of them: \<open>clock_reg\<close> is
  the register of the chip with the clocks of the banks.
\<close>

record gpio_regs =
  banks :: "nat \<Rightarrow> gpio_bank"
  clock_reg :: u32
  EXTICR :: "u32 list"
  EXTI_IMR :: u32
  EXTI_RTSR :: u32
  EXTI_FTSR :: u32
  nvic_enabled :: "nat \<Rightarrow> bool"
  nvic_priority :: "nat \<Rightarrow> nat"

definition BIT :: "nat \<Rightarrow> u32" where
  "BIT x = push_bit x 1"

definition SETBITS :: "u32 \<Rightarrow> u32 \<Rightarrow> u32 \<Rightarrow> u32" where
  "SETBITS R clearmask setmask = (R AND NOT clearmask) OR setmask"

text \<open>A pin is its bank and its number in it, coded in sixteen bits.\<close>

definition PIN :: "char \<Rightarrow> u16 \<Rightarrow> u16" where
  "PIN bank num = push_bit 8 (of_nat (char_nat bank - 65)) OR num"

definition PINNO :: "u16 \<Rightarrow> nat" where
  "PINNO pin = unat (pin AND 255)"

definition PINBANK :: "u16 \<Rightarrow> nat" where
  "PINBANK pin = unat (drop_bit 8 pin)"

definition upd_bank :: "nat \<Rightarrow> (gpio_bank \<Rightarrow> gpio_bank) \<Rightarrow> gpio_regs \<Rightarrow> gpio_regs" where
  "upd_bank b f g = g\<lparr>banks := (banks g)(b := f (banks g b))\<rparr>"

text \<open>A write of the set and reset register: the low half sets latches, the high half resets those that are not set.\<close>

definition bsrr_write :: "u32 \<Rightarrow> gpio_bank \<Rightarrow> gpio_bank" where
  "bsrr_write v k = k\<lparr>ODR := (ODR k AND NOT (drop_bit 16 v)) OR take_bit 16 v\<rparr>"

section \<open>Operations\<close>

definition gpio_toggle :: "u16 \<Rightarrow> gpio_regs \<Rightarrow> gpio_regs" where
  "gpio_toggle pin g = (let mask = BIT (PINNO pin) in
     upd_bank (PINBANK pin) (\<lambda>k. bsrr_write (push_bit (if ODR k AND mask \<noteq> 0 then 16 else 0) mask) k) g)"

definition gpio_read :: "u16 \<Rightarrow> gpio_regs \<Rightarrow> int" where
  "gpio_read pin g = (if IDR_reg (banks g (PINBANK pin)) AND BIT (PINNO pin) \<noteq> 0 then 1 else 0)"

definition gpio_write :: "u16 \<Rightarrow> bool \<Rightarrow> gpio_regs \<Rightarrow> gpio_regs" where
  "gpio_write pin val g = upd_bank (PINBANK pin) (bsrr_write (push_bit (if val then 0 else 16) (BIT (PINNO pin)))) g"

subsection \<open>STM32F4, STM32F7 and STM32G0\<close>

definition MG_GPIO_MODE_INPUT :: u8 where "MG_GPIO_MODE_INPUT = 0"
definition MG_GPIO_MODE_OUTPUT :: u8 where "MG_GPIO_MODE_OUTPUT = 1"
definition MG_GPIO_MODE_AF :: u8 where "MG_GPIO_MODE_AF = 2"
definition MG_GPIO_OTYPE_PUSH_PULL :: u8 where "MG_GPIO_OTYPE_PUSH_PULL = 0"
definition MG_GPIO_SPEED_LOW :: u8 where "MG_GPIO_SPEED_LOW = 0"
definition MG_GPIO_SPEED_HIGH :: u8 where "MG_GPIO_SPEED_HIGH = 2"
definition MG_GPIO_SPEED_INSANE :: u8 where "MG_GPIO_SPEED_INSANE = 3"
definition MG_GPIO_PULL_NONE :: u8 where "MG_GPIO_PULL_NONE = 0"

definition gpio_init :: "u16 \<Rightarrow> u8 \<Rightarrow> u8 \<Rightarrow> u8 \<Rightarrow> u8 \<Rightarrow> u8 \<Rightarrow> gpio_regs \<Rightarrow> gpio_regs" where
  "gpio_init pin mode type speed pull af g =
     (let n = PINNO pin; two = push_bit (n * 2) 3; sh = (n mod 8) * 4; four = push_bit sh 15 in
      upd_bank (PINBANK pin) (\<lambda>k.
        let k1 = k\<lparr>OTYPER := SETBITS (OTYPER k) (push_bit n 1) (push_bit n (ucast type)),
              OSPEEDR := SETBITS (OSPEEDR k) two (push_bit (n * 2) (ucast speed)),
              PUPDR := SETBITS (PUPDR k) two (push_bit (n * 2) (ucast pull))\<rparr>;
            k2 = (if n div 8 = 0 then k1\<lparr>AFRL := SETBITS (AFRL k) four (push_bit sh (ucast af))\<rparr>
                  else k1\<lparr>AFRH := SETBITS (AFRH k) four (push_bit sh (ucast af))\<rparr>) in
        k2\<lparr>MODER := SETBITS (MODER k) two (push_bit (n * 2) (ucast mode))\<rparr>)
       (g\<lparr>clock_reg := clock_reg g OR BIT (PINBANK pin)\<rparr>))"

definition gpio_input :: "u16 \<Rightarrow> gpio_regs \<Rightarrow> gpio_regs" where
  "gpio_input pin = gpio_init pin MG_GPIO_MODE_INPUT MG_GPIO_OTYPE_PUSH_PULL MG_GPIO_SPEED_HIGH MG_GPIO_PULL_NONE 0"

definition gpio_output :: "u16 \<Rightarrow> gpio_regs \<Rightarrow> gpio_regs" where
  "gpio_output pin = gpio_init pin MG_GPIO_MODE_OUTPUT MG_GPIO_OTYPE_PUSH_PULL MG_GPIO_SPEED_HIGH MG_GPIO_PULL_NONE 0"

subsection \<open>STM32F1\<close>

definition GPIO_MODE_INPUT_PULLUP :: u8 where "GPIO_MODE_INPUT_PULLUP = 8"
definition GPIO_MODE_INPUT_FLOATING :: u8 where "GPIO_MODE_INPUT_FLOATING = 4"
definition GPIO_MODE_OUTPUT_PP_50MHZ :: u8 where "GPIO_MODE_OUTPUT_PP_50MHZ = 3"

definition gpio_init_F1 :: "u16 \<Rightarrow> u8 \<Rightarrow> gpio_regs \<Rightarrow> gpio_regs" where
  "gpio_init_F1 pin mode g =
     (let n = PINNO pin in
      upd_bank (PINBANK pin) (\<lambda>k.
        let k1 = (if n < 8 then k\<lparr>CRL := SETBITS (CRL k) (push_bit (n * 4) 15) (push_bit (n * 4) (ucast mode))\<rparr>
                  else k\<lparr>CRH := SETBITS (CRH k) (push_bit ((n - 8) * 4) 15) (push_bit ((n - 8) * 4) (ucast mode))\<rparr>) in
        if mode = GPIO_MODE_INPUT_PULLUP then bsrr_write (BIT n) k1 else k1)
       (g\<lparr>clock_reg := clock_reg g OR BIT (PINBANK pin + 2)\<rparr>))"

definition gpio_input_F1 :: "u16 \<Rightarrow> gpio_regs \<Rightarrow> gpio_regs" where
  "gpio_input_F1 pin = gpio_init_F1 pin GPIO_MODE_INPUT_FLOATING"

definition gpio_output_F1 :: "u16 \<Rightarrow> gpio_regs \<Rightarrow> gpio_regs" where
  "gpio_output_F1 pin = gpio_init_F1 pin GPIO_MODE_OUTPUT_PP_50MHZ"

text \<open>\<open>afio\<close> is the bit of the clock of the interrupt lines.\<close>

definition irq_exti_attach :: "u32 \<Rightarrow> u16 \<Rightarrow> gpio_regs \<Rightarrow> gpio_regs res" where
  "irq_exti_attach afio pin g =
     (let bank = PINBANK pin; n = PINNO pin; i = n div 4; sh = (n mod 4) * 4 in
      rbind (aget (EXTICR g) i) (\<lambda>r.
      rbind (aset (EXTICR g) i ((r AND NOT (push_bit sh 15)) OR push_bit sh (of_nat bank))) (\<lambda>ex.
      let irqvec = (if n < 5 then 6 + n else if n < 10 then 23 else 40) in
      Inr (g\<lparr>clock_reg := clock_reg g OR afio, EXTICR := ex, EXTI_IMR := EXTI_IMR g OR BIT n, EXTI_RTSR := EXTI_RTSR g OR BIT n,
        EXTI_FTSR := EXTI_FTSR g OR BIT n, nvic_priority := (nvic_priority g)(irqvec := 3),
        nvic_enabled := (nvic_enabled g)(irqvec := True)\<rparr>))))"

section \<open>Fields\<close>

text \<open>A register as an array of fields of \<open>w\<close> bits.\<close>

definition field :: "nat \<Rightarrow> u32 \<Rightarrow> nat \<Rightarrow> u32" where
  "field w r k = take_bit w (drop_bit (k * w) r)"

lemma field_apart: "j < w \<Longrightarrow> i < w \<Longrightarrow> k * w + j = n * w + i \<longleftrightarrow> k = n \<and> j = (i :: nat)"
proof
  assume a: "j < w" "i < w" "k * w + j = n * w + i"
  have "(k * w + j) div w = k" "(n * w + i) div w = n" using a(1,2) by simp_all
  then have "k = n" using a(3) by simp
  then show "k = n \<and> j = i" using a(3) by simp
qed simp

lemma field_SETBITS:
  assumes "take_bit w v = v" and "n * w + w \<le> 32" and "k * w + w \<le> 32"
  shows "field w (SETBITS r (push_bit (n * w) (mask w)) (push_bit (n * w) v)) k = (if k = n then v else field w r k)"
proof (rule bit_word_eqI)
  fix j assume "j < LENGTH(32)"
  have v: "bit v i \<longleftrightarrow> i < w \<and> bit v i" for i using assms(1) by (metis bit_take_bit_iff)
  show "bit (field w (SETBITS r (push_bit (n * w) (mask w)) (push_bit (n * w) v)) k) j = bit (if k = n then v else field w r k) j"
  proof (cases "j < w")
    case False
    then show ?thesis using v by (auto simp: field_def bit_simps)
  next
    case True
    have i: "k * w + j < 32" using True assms(3) by simp
    have f: "bit (field w x k) j = bit x (k * w + j)" for x using True by (simp add: field_def bit_simps)
    show ?thesis
    proof (cases "k = n")
      case True
      then show ?thesis using f i \<open>j < w\<close> by (simp add: SETBITS_def bit_simps)
    next
      case False
      have "n * w \<le> k * w + j \<Longrightarrow> \<not> k * w + j - n * w < w"
      proof
        assume a: "n * w \<le> k * w + j" "k * w + j - n * w < w"
        then have "k * w + j = n * w + (k * w + j - n * w)" by simp
        then have "k = n" using field_apart [OF True a(2)] by blast
        then show False using False by simp
      qed
      then show ?thesis using f i v False by (auto simp: SETBITS_def bit_simps)
    qed
  qed
qed

lemma small_field: "unat v < 2 ^ w \<Longrightarrow> take_bit w (ucast (v :: u8) :: u32) = ucast v"
proof -
  assume "unat v < 2 ^ w"
  then have "take_bit w v = v" by (simp add: word_unat_eq_iff unsigned_take_bit_eq take_bit_nat_eq_self_iff)
  then show ?thesis by (metis unsigned_take_bit_eq)
qed

lemma SETBITS_1:
  assumes "n < 32" "k < 32" "v < (2 :: u8)"
  shows "field (Suc 0) (SETBITS r (2 ^ n) (push_bit n (ucast v))) k = (if k = n then ucast v else field (Suc 0) r k)"
  using field_SETBITS [of 1 "ucast v" n k r] small_field [of v 1] assms by (simp add: word_less_nat_alt push_bit_of_1 mask_eq_exp_minus_1)

lemma SETBITS_2:
  assumes "n < 16" "k < 16" "v < (4 :: u8)"
  shows "field 2 (SETBITS r (push_bit (n * 2) 3) (push_bit (n * 2) (ucast v))) k = (if k = n then ucast v else field 2 r k)"
  using field_SETBITS [of 2 "ucast v" n k r] small_field [of v 2] assms by (simp add: word_less_nat_alt mask_eq_exp_minus_1)

lemma SETBITS_4:
  assumes "n < 8" "k < 8" "v < (16 :: u8)"
  shows "field 4 (SETBITS r (push_bit (n * 4) 15) (push_bit (n * 4) (ucast v))) k = (if k = n then ucast v else field 4 r k)"
  using field_SETBITS [of 4 "ucast v" n k r] small_field [of v 4] assms by (simp add: word_less_nat_alt mask_eq_exp_minus_1)

section \<open>What the registers say of a pin\<close>

record pin_config =
  mode_of :: u32
  otype_of :: u32
  speed_of :: u32
  pull_of :: u32
  af_of :: u32

definition pin_config :: "gpio_regs \<Rightarrow> nat \<times> nat \<Rightarrow> pin_config" where
  "pin_config g p = (case p of (b, n) \<Rightarrow> let k = banks g b in
     \<lparr>mode_of = field 2 (MODER k) n, otype_of = field 1 (OTYPER k) n, speed_of = field 2 (OSPEEDR k) n,
      pull_of = field 2 (PUPDR k) n, af_of = field 4 (if n < 8 then AFRL k else AFRH k) (n mod 8)\<rparr>)"

definition pin_configs :: "gpio_regs \<Rightarrow> nat \<times> nat \<Rightarrow> pin_config option" where
  "pin_configs g p = (if snd p < 16 then Some (pin_config g p) else None)"

lemma gpio_init_config:
  assumes n: "PINNO pin < 16" and v: "mode < 4" "type < 2" "speed < 4" "pull < 4" "af < 16" and k: "k < 16"
  shows "pin_config (gpio_init pin mode type speed pull af g) (b, k) =
    (if b = PINBANK pin \<and> k = PINNO pin
     then \<lparr>mode_of = ucast mode, otype_of = ucast type, speed_of = ucast speed, pull_of = ucast pull, af_of = ucast af\<rparr>
     else pin_config g (b, k))"
proof -
  have d: "m div 8 = 0 \<longleftrightarrow> m < 8" for m :: nat by (simp add: div_eq_0_iff)
  have h: "m mod 8 = m - 8" if "m < 16" "\<not> m < 8" for m :: nat using that by (simp add: mod_if)
  have s: "k - 8 < 8" "PINNO pin - 8 < 8" using n k by simp_all
  have p: "k - 8 = PINNO pin - 8 \<longleftrightarrow> k = PINNO pin" if "\<not> k < 8" "\<not> PINNO pin < 8" using that by auto
  show ?thesis using n k v
    by (cases "k < 8"; cases "PINNO pin < 8")
      (auto simp: pin_config_def gpio_init_def upd_bank_def Let_def SETBITS_1 SETBITS_2 SETBITS_4 d h s p)
qed

lemma gpio_init_configs:
  assumes "PINNO pin < 16" "mode < 4" "type < 2" "speed < 4" "pull < 4" "af < 16"
  shows "pin_configs (gpio_init pin mode type speed pull af g) = (pin_configs g)((PINBANK pin, PINNO pin) \<mapsto>
    \<lparr>mode_of = ucast mode, otype_of = ucast type, speed_of = ucast speed, pull_of = ucast pull, af_of = ucast af\<rparr>)"
  using assms by (auto simp: pin_configs_def fun_eq_iff gpio_init_config)

lemma gpio_init_clock [simp]:
  "clock_reg (gpio_init pin mode type speed pull af g) = clock_reg g OR BIT (PINBANK pin)"
  by (simp add: gpio_init_def Let_def upd_bank_def)

section \<open>Output latches\<close>

lemma bit_BIT: "bit (BIT n) k \<longleftrightarrow> k = n \<and> n < 32"
  by (auto simp: BIT_def bit_simps)

lemma ODR_upd_bank: "ODR (banks (upd_bank b f g) c) = (if c = b then ODR (f (banks g b)) else ODR (banks g c))"
  by (simp add: upd_bank_def)

lemma gpio_write_latch:
  assumes "PINNO pin < 16" and "k < 16"
  shows "bit (ODR (banks (gpio_write pin val g) b)) k \<longleftrightarrow>
    (if b = PINBANK pin \<and> k = PINNO pin then val else bit (ODR (banks g b)) k)"
  using assms by (auto simp: gpio_write_def ODR_upd_bank bsrr_write_def bit_simps bit_BIT)

lemma gpio_toggle_latch:
  assumes "PINNO pin < 16" and "k < 16"
  shows "bit (ODR (banks (gpio_toggle pin g) b)) k \<longleftrightarrow> bit (ODR (banks g b)) k \<noteq> (b = PINBANK pin \<and> k = PINNO pin)"
proof -
  have "ODR x AND BIT (PINNO pin) \<noteq> 0 \<longleftrightarrow> bit (ODR x) (PINNO pin)" for x
    using assms by (auto simp: bit_eq_iff [where a = "ODR x AND BIT (PINNO pin)"] bit_simps bit_BIT)
  then show ?thesis
    using assms by (auto simp: gpio_toggle_def Let_def ODR_upd_bank bsrr_write_def bit_simps bit_BIT)
qed

section \<open>Properties\<close>

text \<open>
  C0: Configuring a pin of an STM32F4, F7 or G0 with values that fit in its fields sets the
  configuration of that pin to them and leaves the configuration of every other pin of every
  bank, the levels and the latches as they were; the bank's clock is on afterwards and no other
  register of the chip has changed.
\<close>

theorem gpio_init_sets_pin:
  assumes "PINNO pin < 16" and "mode < 4" and "type < 2" and "speed < 4" and "pull < 4" and "af < 16"
  shows "pin_configs (gpio_init pin mode type speed pull af g) = (pin_configs g)((PINBANK pin, PINNO pin) \<mapsto>
      \<lparr>mode_of = ucast mode, otype_of = ucast type, speed_of = ucast speed, pull_of = ucast pull, af_of = ucast af\<rparr>) \<and>
    (let g1 = gpio_init pin mode type speed pull af g in
      (\<forall>b. ODR (banks g1 b) = ODR (banks g b) \<and> IDR_reg (banks g1 b) = IDR_reg (banks g b)) \<and>
      bit (clock_reg g1) (PINBANK pin) = (PINBANK pin < 32) \<and>
      g1 = g\<lparr>banks := banks g1, clock_reg := clock_reg g OR BIT (PINBANK pin)\<rparr>)"
proof -
  have "clock_reg (gpio_init pin mode type speed pull af g) = clock_reg g OR BIT (PINBANK pin)" by simp
  then show ?thesis
    using gpio_init_configs [OF assms]
    by (auto simp: Let_def gpio_init_def upd_bank_def bit_simps bit_BIT dest: bit_imp_le_length)
qed

definition demo_gpio :: gpio_regs where
  "demo_gpio = \<lparr>banks = (\<lambda>_. \<lparr>OTYPER = 0, OSPEEDR = 0, PUPDR = 0, MODER = 0xFFFFFFFF, AFRL = 0, AFRH = 0, CRL = 0x44444444,
     CRH = 0x44444444, IDR_reg = 0, ODR = 0\<rparr>), clock_reg = 0, EXTICR = replicate 4 0, EXTI_IMR = 0, EXTI_RTSR = 0, EXTI_FTSR = 0,
     nvic_enabled = (\<lambda>_. False), nvic_priority = (\<lambda>_. 0)\<rparr>"

lemma gpio_init_sets_pin_witness:
  "pin_configs (gpio_init (PIN (CHR ''B'') 11) MG_GPIO_MODE_AF 0 3 0 11 demo_gpio) (1, 11) =
     Some \<lparr>mode_of = 2, otype_of = 0, speed_of = 3, pull_of = 0, af_of = 11\<rparr>"
proof -
  have p: "PINNO (PIN (CHR ''B'') 11) = 11" "PINBANK (PIN (CHR ''B'') 11) = 1" by code_simp+
  show ?thesis
    using gpio_init_sets_pin [of "PIN (CHR ''B'') 11" MG_GPIO_MODE_AF 0 3 0 11 demo_gpio] by (simp add: p MG_GPIO_MODE_AF_def Let_def)
qed

end
