(* ===== verification/Net_Drivers.thy ===== *)
theory Net_Drivers
  imports Net_Worker Usb Gpio
begin

text \<open>
  The two network interfaces on which a network manager runs: Ethernet
  (applications/services/net/eth_net/eth_net.c over hal/rhs_hal_eth/rhs_hal_eth.c) and USB
  (applications/services/net/usb_cdc_net/usb_cdc_net.c). Each fills the configuration, parses
  its texts, starts the network library and the manager's thread, and takes all of it back
  when it is stopped. Which blocks of memory are allocated is part of the state, so that a
  use of a freed block is a fault. The libraries are parameters.
\<close>

section \<open>The configuration\<close>

record net_config =
  cfg_ip :: string
  cfg_mask :: string
  cfg_gateway :: string
  cfg_mac :: "u8 list"

definition GENERATE_LOCALLY_ADMINISTERED_MAC :: "u8 list \<Rightarrow> u8 list" where
  "GENERATE_LOCALLY_ADMINISTERED_MAC U =
     [2, U ! 0 XOR U ! 1, U ! 2 XOR U ! 3, U ! 4 XOR U ! 5, U ! 6 XOR U ! 7 XOR U ! 8, U ! 9 XOR U ! 10 XOR U ! 11]"

text \<open>The interface that is handed to the network library, as far as the drivers fill it.\<close>

record tcpip_if =
  ifp_ip :: u32
  ifp_mask :: u32
  ifp_gw :: u32
  ifp_mac :: "u8 list"
  enable_dhcp_server :: bool
  recv_queue_size :: nat
  phy_addr :: u8
  mdc_cr :: u8

text \<open>\<open>strcpy\<close> into one of the texts of a configuration, arrays of sixteen characters.\<close>

definition set_text :: "string \<Rightarrow> string res" where
  "set_text t = (if length t < 16 then Inr t else Inl OutOfBounds)"

definition default_config :: "string \<times> string \<times> string \<Rightarrow> u8 list \<Rightarrow> net_config res" where
  "default_config D U = (case D of (ip, msk, gateway) \<Rightarrow>
     rbind (set_text ip) (\<lambda>a. rbind (set_text msk) (\<lambda>b. rbind (set_text gateway) (\<lambda>c.
     Inr \<lparr>cfg_ip = a, cfg_mask = b, cfg_gateway = c, cfg_mac = GENERATE_LOCALLY_ADMINISTERED_MAC U\<rparr>))))"

definition fill_config :: "string \<times> string \<times> string \<Rightarrow> u8 list \<Rightarrow> net_config \<Rightarrow> net_config res" where
  "fill_config D U c = (case D of (ip, msk, gateway) \<Rightarrow>
     rbind (if cfg_ip c = [] then set_text ip else Inr (cfg_ip c)) (\<lambda>t1.
     rbind (if cfg_mask c = [] then set_text msk else Inr (cfg_mask c)) (\<lambda>t2.
     rbind (if cfg_gateway c = [] then set_text gateway else Inr (cfg_gateway c)) (\<lambda>t3.
     Inr \<lparr>cfg_ip = t1, cfg_mask = t2, cfg_gateway = t3,
       cfg_mac = (if cfg_mac c = [0, 0, 0, 0, 0, 0] then GENERATE_LOCALLY_ADMINISTERED_MAC U else cfg_mac c)\<rparr>))))"

definition assert_address :: "'m mongoose \<Rightarrow> string \<Rightarrow> u32 res" where
  "assert_address M t = (case parsed M t of None \<Rightarrow> Inl AssertFailed | Some v \<Rightarrow> Inr v)"

text \<open>The hardware address is copied with the size of the pointer to it, four bytes on these targets.\<close>

definition SIZEOF_POINTER :: nat where "SIZEOF_POINTER = 4"

definition fill_interface :: "'m mongoose \<Rightarrow> net_config \<Rightarrow> tcpip_if \<Rightarrow> tcpip_if res" where
  "fill_interface M c ifp =
     rbind (assert_address M (cfg_ip c)) (\<lambda>ip.
     rbind (assert_address M (cfg_mask c)) (\<lambda>msk.
     rbind (assert_address M (cfg_gateway c)) (\<lambda>gateway.
     Inr (ifp\<lparr>ifp_ip := ip, ifp_mask := msk, ifp_gw := gateway,
       ifp_mac := take SIZEOF_POINTER (cfg_mac c) @ drop SIZEOF_POINTER (ifp_mac ifp)\<rparr>))))"

definition cleared_if :: tcpip_if where
  "cleared_if = \<lparr>ifp_ip = 0, ifp_mask = 0, ifp_gw = 0, ifp_mac = replicate 6 0, enable_dhcp_server = False,
     recv_queue_size = 0, phy_addr = 0, mdc_cr = 0\<rparr>"

section \<open>The Ethernet hardware\<close>

text \<open>The registers that are touched; the register with the clocks of the pins' banks has those of the MAC, too.\<close>

record eth_regs =
  PMC :: u32
  AHB1RSTR :: u32
  MACCR :: u32
  MACFFR :: u32
  eth_irq :: bool
  pin_regs :: gpio_regs

abbreviation AHB1ENR :: "eth_regs \<Rightarrow> u32" where
  "AHB1ENR h \<equiv> clock_reg (pin_regs h)"

definition write_AHB1ENR :: "u32 \<Rightarrow> eth_regs \<Rightarrow> eth_regs" where
  "write_AHB1ENR v h = h\<lparr>pin_regs := (pin_regs h)\<lparr>clock_reg := v\<rparr>\<rparr>"

record eth_bits =
  SYSCFG_PMC_MII_RMII_SEL :: u32
  RCC_AHB1ENR_ETHMACEN :: u32
  RCC_AHB1ENR_ETHMACTXEN :: u32
  RCC_AHB1ENR_ETHMACRXEN :: u32
  RCC_AHB1RSTR_ETHMACRST :: u32

definition mac_clocks :: "eth_bits \<Rightarrow> u32" where
  "mac_clocks B = RCC_AHB1ENR_ETHMACEN B OR RCC_AHB1ENR_ETHMACTXEN B OR RCC_AHB1ENR_ETHMACRXEN B"

definition eth_pins :: "u16 list" where
  "eth_pins = [PIN (CHR ''A'') 1, PIN (CHR ''A'') 2, PIN (CHR ''A'') 7, PIN (CHR ''B'') 11, PIN (CHR ''B'') 12, PIN (CHR ''B'') 13,
     PIN (CHR ''C'') 1, PIN (CHR ''C'') 4, PIN (CHR ''C'') 5]"

definition set_pins :: "u8 \<Rightarrow> u8 \<Rightarrow> u8 \<Rightarrow> eth_regs \<Rightarrow> eth_regs" where
  "set_pins mode speed af h =
     h\<lparr>pin_regs := fold (\<lambda>p. gpio_init p mode MG_GPIO_OTYPE_PUSH_PULL speed MG_GPIO_PULL_NONE af) eth_pins (pin_regs h)\<rparr>"

text \<open>Between two reads of a register the hardware may change all of them (\<open>settle\<close>); the model follows \<open>n\<close> reads.\<close>

fun wait_regs :: "nat \<Rightarrow> (eth_regs \<Rightarrow> bool) \<Rightarrow> (eth_regs \<Rightarrow> eth_regs) \<Rightarrow> eth_regs \<Rightarrow> eth_regs res" where
  "wait_regs 0 stays settle h = Inl Blocked"
| "wait_regs (Suc n) stays settle h = (if stays h then wait_regs n stays settle (settle h) else Inr h)"

definition rhs_hal_eth_init :: "nat \<Rightarrow> eth_bits \<Rightarrow> (eth_regs \<Rightarrow> eth_regs) \<Rightarrow> eth_regs \<Rightarrow> eth_regs res" where
  "rhs_hal_eth_init n B settle h =
     (let h1 = set_pins MG_GPIO_MODE_AF MG_GPIO_SPEED_INSANE 11 h;
          h2 = h1\<lparr>eth_irq := True, PMC := PMC h1 OR SYSCFG_PMC_MII_RMII_SEL B\<rparr>;
          h3 = write_AHB1ENR (AHB1ENR h2 OR mac_clocks B) h2;
          h4 = h3\<lparr>AHB1RSTR := AHB1RSTR h3 OR RCC_AHB1RSTR_ETHMACRST B\<rparr> in
      rbind (wait_regs n (\<lambda>h. AHB1RSTR h AND RCC_AHB1RSTR_ETHMACRST B = 0) settle h4) (\<lambda>h5.
      wait_regs n (\<lambda>h. AHB1RSTR h AND RCC_AHB1RSTR_ETHMACRST B \<noteq> 0 \<or> MACCR h AND 0x00008000 = 0) settle
        (h5\<lparr>AHB1RSTR := AHB1RSTR h5 AND NOT (RCC_AHB1RSTR_ETHMACRST B)\<rparr>)))"

definition rhs_hal_eth_deinit :: "eth_bits \<Rightarrow> eth_regs \<Rightarrow> eth_regs" where
  "rhs_hal_eth_deinit B h =
     (let h1 = h\<lparr>eth_irq := False\<rparr>;
          h2 = write_AHB1ENR (AHB1ENR h1 AND NOT (mac_clocks B)) h1;
          h3 = h2\<lparr>PMC := PMC h2 AND NOT (SYSCFG_PMC_MII_RMII_SEL B)\<rparr> in
      set_pins MG_GPIO_MODE_INPUT MG_GPIO_SPEED_LOW 0 h3)"

text \<open>Neither the interrupt nor a clock nor the interface selection nor a pin is left on.\<close>

definition eth_off :: "eth_bits \<Rightarrow> eth_regs \<Rightarrow> bool" where
  "eth_off B h \<longleftrightarrow> \<not> eth_irq h \<and> PMC h AND SYSCFG_PMC_MII_RMII_SEL B = 0 \<and> AHB1ENR h AND mac_clocks B = 0 \<and>
     (\<forall>p\<in>set eth_pins. pin_configs (pin_regs h) (PINBANK p, PINNO p) =
       Some \<lparr>mode_of = 0, otype_of = 0, speed_of = 0, pull_of = 0, af_of = 0\<rparr>)"

text \<open>The bits of the MAC's clocks are not those of the first three banks.\<close>

definition mac_bits_apart :: "eth_bits \<Rightarrow> bool" where
  "mac_bits_apart B \<longleftrightarrow> mac_clocks B AND 7 = 0"

lemma and_not_self [simp]: "(x AND NOT y) AND y = (0 :: u32)"
  by (rule bit_word_eqI) (auto simp: bit_simps)

lemma or_and_apart: "y AND m = 0 \<Longrightarrow> (x OR m) AND y = x AND (y :: u32)"
  by (simp add: bit.conj_disj_distrib2 and.commute [of m])

lemma pin_values [simp]:
  "PINNO (PIN (CHR ''A'') 1) = 1" "PINNO (PIN (CHR ''A'') 2) = 2" "PINNO (PIN (CHR ''A'') 7) = 7"
  "PINNO (PIN (CHR ''B'') 11) = 11" "PINNO (PIN (CHR ''B'') 12) = 12" "PINNO (PIN (CHR ''B'') 13) = 13"
  "PINNO (PIN (CHR ''C'') 1) = 1" "PINNO (PIN (CHR ''C'') 4) = 4" "PINNO (PIN (CHR ''C'') 5) = 5"
  "PINBANK (PIN (CHR ''A'') 1) = 0" "PINBANK (PIN (CHR ''A'') 2) = 0" "PINBANK (PIN (CHR ''A'') 7) = 0"
  "PINBANK (PIN (CHR ''B'') 11) = 1" "PINBANK (PIN (CHR ''B'') 12) = 1" "PINBANK (PIN (CHR ''B'') 13) = 1"
  "PINBANK (PIN (CHR ''C'') 1) = 2" "PINBANK (PIN (CHR ''C'') 4) = 2" "PINBANK (PIN (CHR ''C'') 5) = 2"
  by code_simp+

lemma write_AHB1ENR_regs [simp]:
  "PMC (write_AHB1ENR v h) = PMC h" "AHB1RSTR (write_AHB1ENR v h) = AHB1RSTR h" "MACCR (write_AHB1ENR v h) = MACCR h"
  "eth_irq (write_AHB1ENR v h) = eth_irq h" "AHB1ENR (write_AHB1ENR v h) = v"
  by (simp_all add: write_AHB1ENR_def)

lemma set_pins_regs [simp]:
  "PMC (set_pins m sp af h) = PMC h" "AHB1RSTR (set_pins m sp af h) = AHB1RSTR h" "MACCR (set_pins m sp af h) = MACCR h"
  "eth_irq (set_pins m sp af h) = eth_irq h"
  by (simp_all add: set_pins_def)

lemma set_pins_clock: "AHB1ENR (set_pins m sp af h) = AHB1ENR h OR 7"
proof -
  have "fold (OR) (map (\<lambda>p. BIT (PINBANK p)) eth_pins) 0 = 7" unfolding eth_pins_def by code_simp
  have b: "BIT 0 = 1" "BIT (Suc 0) = 2" "BIT 2 = 4" by (simp_all add: BIT_def)
  have "((x OR 1) OR 2) OR 4 = x OR (7 :: u32)" for x by (simp add: or.assoc)
  then show ?thesis by (simp add: set_pins_def eth_pins_def b or.assoc)
qed

lemma fold_gpio_init:
  assumes "mode < 4" "type < 2" "speed < 4" "pull < 4" "af < 16" and "\<And>q. q \<in> set ps \<Longrightarrow> PINNO q < 16"
    and "p \<in> set ps \<or> pin_configs g (PINBANK p, PINNO p) = Some
      \<lparr>mode_of = ucast mode, otype_of = ucast type, speed_of = ucast speed, pull_of = ucast pull, af_of = ucast af\<rparr>"
  shows "pin_configs (fold (\<lambda>q. gpio_init q mode type speed pull af) ps g) (PINBANK p, PINNO p) = Some
      \<lparr>mode_of = ucast mode, otype_of = ucast type, speed_of = ucast speed, pull_of = ucast pull, af_of = ucast af\<rparr>"
  using assms(6,7)
proof (induction ps arbitrary: g)
  case (Cons q ps)
  have "PINNO q < 16" using Cons.prems(1) by simp
  note c = gpio_init_configs [OF this assms(1-5), of g]
  show ?case using Cons.prems by (simp, intro Cons.IH) (auto simp: c)
qed simp

lemma eth_pin_numbers: "p \<in> set eth_pins \<Longrightarrow> PINNO p < 16"
  by (auto simp: eth_pins_def)

lemma set_pins_configs:
  assumes "m < 4" "sp < 4" "af < 16" and "p \<in> set eth_pins"
  shows "pin_configs (pin_regs (set_pins m sp af h)) (PINBANK p, PINNO p) =
    Some \<lparr>mode_of = ucast m, otype_of = 0, speed_of = ucast sp, pull_of = 0, af_of = ucast af\<rparr>"
  using fold_gpio_init [of m 0 sp 0 af eth_pins p "pin_regs h"] eth_pin_numbers assms
  by (simp add: set_pins_def MG_GPIO_OTYPE_PUSH_PULL_def MG_GPIO_PULL_NONE_def)

lemma eth_deinit_off:
  assumes "mac_bits_apart B"
  shows "eth_off B (rhs_hal_eth_deinit B h)"
proof -
  have z: "(MG_GPIO_MODE_INPUT :: u8) < 4" "(MG_GPIO_SPEED_LOW :: u8) < 4" "(0 :: u8) < 16"
    by (simp_all add: MG_GPIO_MODE_INPUT_def MG_GPIO_SPEED_LOW_def)
  have "(x OR 7) AND mac_clocks B = x AND mac_clocks B" for x
    using assms by (simp add: mac_bits_apart_def or_and_apart)
  then show ?thesis
    by (simp add: eth_off_def rhs_hal_eth_deinit_def Let_def set_pins_configs [OF z] set_pins_clock)
      (simp add: MG_GPIO_MODE_INPUT_def MG_GPIO_SPEED_LOW_def)
qed

section \<open>The state\<close>

text \<open>The blocks that belong to one interface, which the address of its object tells apart.\<close>

datatype block = AppBlk | QueueBlk | MgrBlk | ConfigBlk | IfpBlk | DriverBlk | ThreadBlk

record 'u net_sys =
  blocks :: "(nat \<times> block) set"
  usb_state :: "usb_interface option \<times> 'u"
  net_callbacks :: "net_ops option"
  eth :: eth_regs

record 'm net_app =
  app_net :: "'m net"
  app_config :: net_config
  app_ifp :: tcpip_if
  app_prev :: "usb_interface option"
  app_name :: string

text \<open>
  \<open>mem\<close> says whether the allocation of a block succeeds. \<open>mg_new\<close> is the manager after
  \<open>mg_mgr_init\<close>, \<open>mg_attach\<close> is \<open>mg_tcpip_init\<close>. Starting and stopping the USB stack and its
  peripheral (\<open>rhs_hal_usb_reinit\<close>, \<open>tusb_init\<close>, \<open>tusb_deinit\<close>) are functions on its state.
\<close>

record ('m, 'u) drv_env =
  net_of :: "'m net_env"
  usb_of :: "'u usb_api"
  mem :: "nat \<times> block \<Rightarrow> bool"
  mg_new :: "'m mg_mgr"
  mg_attach :: "tcpip_if \<Rightarrow> 'm mg_mgr \<Rightarrow> 'm mg_mgr"
  usb_reinit :: "'u \<Rightarrow> 'u"
  tusb_init :: "'u \<Rightarrow> 'u"
  tusb_deinit :: "'u \<Rightarrow> 'u"
  uid :: "u8 list"
  cdc_texts :: "string \<times> string \<times> string"
  eth_texts :: "string \<times> string \<times> string"
  default_phy :: "u8 \<times> u8"
  bits :: eth_bits
  settle_regs :: "eth_regs \<Rightarrow> eth_regs"
  reg_polls :: nat

definition allocated :: "nat \<Rightarrow> block list \<Rightarrow> 'u net_sys \<Rightarrow> 'u net_sys" where
  "allocated a bs s = s\<lparr>blocks := blocks s \<union> {(a, b) |b. b \<in> set bs}\<rparr>"

text \<open>Freeing a block that is reached over others, which must be allocated too.\<close>

definition free_over :: "nat \<Rightarrow> block list \<Rightarrow> block \<Rightarrow> 'u net_sys \<Rightarrow> 'u net_sys res" where
  "free_over a path b s =
     (if (\<forall>p\<in>set path. (a, p) \<in> blocks s) \<and> (a, b) \<in> blocks s then Inr (s\<lparr>blocks := blocks s - {(a, b)}\<rparr>) else Inl OutOfBounds)"

definition read_block :: "nat \<Rightarrow> block \<Rightarrow> 'v \<Rightarrow> 'u net_sys \<Rightarrow> 'v res" where
  "read_block a b v s = (if (a, b) \<in> blocks s then Inr v else Inl OutOfBounds)"

definition new_net :: "'m mg_mgr \<Rightarrow> 'm net" where
  "new_net m = \<lparr>mgr = m, listeners = None, nodes = Map.empty, unlocked = []\<rparr>"

text \<open>
  Both interfaces end their thread the same way: a stop is put behind the messages that wait in the
  queue (\<open>rs\<close>, with the polls before and between them), and the caller joins the thread.
\<close>

definition stop_thread :: "'m net_env \<Rightarrow> (net_event \<times> nat option) option list \<Rightarrow> 'm net \<Rightarrow> 'm net res" where
  "stop_thread E rs n = net_worker E (rs @ [Some (NetApiEventTypeStop, None)]) n"

section \<open>Ethernet\<close>

definition eth_net_init_tcpip ::
  "('m, 'u) drv_env \<Rightarrow> nat \<Rightarrow> (u8 \<times> u8) option \<Rightarrow> net_config \<Rightarrow> (net_config \<times> tcpip_if \<times> 'm mg_mgr) res" where
  "eth_net_init_tcpip E a phy c =
     rhs_assert (mem E (a, IfpBlk) \<and> mem E (a, DriverBlk))
       (let (pa, mdc) = (case phy of Some p \<Rightarrow> p | None \<Rightarrow> default_phy E) in
        rbind (fill_config (eth_texts E) (uid E) c) (\<lambda>c1.
        rbind (fill_interface (mg (net_of E)) c1 (cleared_if\<lparr>phy_addr := pa, mdc_cr := mdc\<rparr>)) (\<lambda>ifp.
        Inr (c1, ifp, mg_attach E ifp (mg_new E)))))"

definition eth_net_alloc ::
  "('m, 'u) drv_env \<Rightarrow> nat \<Rightarrow> net_config option \<Rightarrow> (u8 \<times> u8) option \<Rightarrow> 'u net_sys \<Rightarrow> ('m net_app \<times> 'u net_sys) res" where
  "eth_net_alloc E a conf phy s =
     rhs_assert (mem E (a, AppBlk)) (rhs_assert (mem E (a, MgrBlk) \<and> mem E (a, ConfigBlk))
       (rbind (case conf of None \<Rightarrow> default_config (eth_texts E) (uid E) | Some c \<Rightarrow> Inr c) (\<lambda>c.
        rbind (rhs_hal_eth_init (reg_polls E) (bits E) (settle_regs E) (eth s)) (\<lambda>h.
        rbind (eth_net_init_tcpip E a phy c) (\<lambda>(c1, ifp, m).
        Inr (\<lparr>app_net = new_net m, app_config = c1, app_ifp = ifp, app_prev = None, app_name = []\<rparr>,
          (allocated a [AppBlk, QueueBlk, MgrBlk, ConfigBlk, IfpBlk, DriverBlk] s)\<lparr>eth := h\<rparr>))))))"

definition eth_net_start ::
  "('m, 'u) drv_env \<Rightarrow> nat \<Rightarrow> net_config option \<Rightarrow> (u8 \<times> u8) option \<Rightarrow> 'u net_sys \<Rightarrow> ('m net_app \<times> 'u net_sys) res" where
  "eth_net_start E a conf phy s =
     rbind (eth_net_alloc E a conf phy s) (\<lambda>(x, s1).
     Inr (x\<lparr>app_name := take 15 (''eth_net_'' @ dec_string (unat (phy_addr (app_ifp x))))\<rparr>, allocated a [ThreadBlk] s1))"

definition eth_net_free :: "nat \<Rightarrow> 'u net_sys \<Rightarrow> 'u net_sys res" where
  "eth_net_free a s =
     rbind (free_over a [AppBlk] ThreadBlk s) (\<lambda>s.
     rbind (free_over a [AppBlk] QueueBlk s) (\<lambda>s.
     rbind (free_over a [AppBlk, MgrBlk, IfpBlk] DriverBlk s) (\<lambda>s.
     rbind (free_over a [AppBlk, MgrBlk] IfpBlk s) (\<lambda>s.
     rbind (free_over a [AppBlk] ConfigBlk s) (\<lambda>s.
     rbind (free_over a [AppBlk] MgrBlk s) (\<lambda>s.
     free_over a [] AppBlk s))))))"

definition eth_net_stop ::
  "('m, 'u) drv_env \<Rightarrow> (net_event \<times> nat option) option list \<Rightarrow> nat \<Rightarrow> 'm net_app option \<Rightarrow> 'u net_sys \<Rightarrow> 'u net_sys res" where
  "eth_net_stop E rs a app s = (case app of None \<Rightarrow> Inl AssertFailed | Some x \<Rightarrow>
     rbind (stop_thread (net_of E) rs (app_net x)) (\<lambda>_.
     rbind (eth_net_free a s) (\<lambda>s.
     Inr (s\<lparr>eth := rhs_hal_eth_deinit (bits E) (eth s)\<rparr>))))"

section \<open>USB\<close>

text \<open>
  The driver of the interface. Its state is the stack and the receive queue of the network library, into
  which \<open>qwrite\<close> puts a frame.
\<close>

definition cdc_net_recv_cb :: "'u tud_net \<Rightarrow> (u8 list \<Rightarrow> 'q \<Rightarrow> 'q) \<Rightarrow> u8 list \<Rightarrow> 'u \<times> 'q \<Rightarrow> bool \<times> 'u \<times> 'q" where
  "cdc_net_recv_cb T qwrite buf = (\<lambda>(u, q). (True, tud_network_recv_renew T u, qwrite buf q))"

definition cdc_net_xmit_cb :: "u8 list \<Rightarrow> nat \<Rightarrow> u8 list" where
  "cdc_net_xmit_cb ref arg = take arg ref"

definition cdc_net_task :: "'u tud_net \<Rightarrow> (u8 list \<Rightarrow> 'q \<Rightarrow> 'q) \<Rightarrow> net_ops option \<Rightarrow> 'u \<times> 'q \<Rightarrow> 'u \<times> 'q" where
  "cdc_net_task T qwrite ops = (\<lambda>(u, q). case tud_net_task T u of (frames, u1) \<Rightarrow>
     fold (\<lambda>f s. snd (tud_network_recv_cb (\<lambda>_. cdc_net_recv_cb T qwrite) ops f s)) frames (u1, q))"

definition usb_tx ::
  "nat \<Rightarrow> 'u tud_net \<Rightarrow> (u8 list \<Rightarrow> 'q \<Rightarrow> 'q) \<Rightarrow> net_ops option \<Rightarrow> u8 list \<Rightarrow> 'u \<times> 'q \<Rightarrow> (nat \<times> 'u \<times> 'q) res" where
  "usb_tx n T qwrite ops buf s =
     (if \<not> tud_ready T (fst s) then Inr (0, s)
      else let len = of_nat (length buf) in
        rbind (wait_xmit n (\<lambda>s. tud_network_can_xmit T len (fst s)) (cdc_net_task T qwrite ops) s) (\<lambda>(u, q).
        Inr (length buf, tud_network_xmit T (take (unat len) buf) u, q)))"

definition usb_poll :: "'u tud_net \<Rightarrow> (u8 list \<Rightarrow> 'q \<Rightarrow> 'q) \<Rightarrow> net_ops option \<Rightarrow> bool \<Rightarrow> 'u \<times> 'q \<Rightarrow> bool \<times> 'u \<times> 'q" where
  "usb_poll T qwrite ops s1 s = (case cdc_net_task T qwrite ops s of (u, q) \<Rightarrow>
     (if s1 then tud_inited T u \<and> tud_ready T u \<and> tud_connected T u else False, u, q))"

definition cdc_net_init_tcpip ::
  "('m, 'u) drv_env \<Rightarrow> nat \<Rightarrow> net_config \<Rightarrow> (net_config \<times> tcpip_if \<times> 'm mg_mgr) res" where
  "cdc_net_init_tcpip E a c =
     rhs_assert (mem E (a, IfpBlk) \<and> mem E (a, DriverBlk))
       (rbind (fill_config (cdc_texts E) (uid E) c) (\<lambda>c1.
        rbind (fill_interface (mg (net_of E)) c1 (cleared_if\<lparr>enable_dhcp_server := True, recv_queue_size := 4096\<rparr>)) (\<lambda>ifp.
        Inr (c1, ifp, mg_attach E ifp (mg_new E)))))"

definition usb_cdc_net_alloc ::
  "('m, 'u) drv_env \<Rightarrow> nat \<Rightarrow> net_config option \<Rightarrow> 'u net_sys \<Rightarrow> ('m net_app \<times> 'u net_sys) res" where
  "usb_cdc_net_alloc E a conf s =
     rhs_assert (mem E (a, AppBlk)) (rhs_assert (mem E (a, MgrBlk) \<and> mem E (a, ConfigBlk))
       (rbind (case conf of None \<Rightarrow> default_config (cdc_texts E) (uid E) | Some c \<Rightarrow> Inr c) (\<lambda>c.
        let (iface, u) = rhs_hal_usb_set_interface (usb_of E) (Some UsbCdcNetDesc) (usb_state s) in
        rbind (cdc_net_init_tcpip E a c) (\<lambda>(c1, ifp, m).
        let u1 = tusb_init E (usb_reinit E u) in
        rbind (tud_net_dispatch_set (CdcNetOps a) (net_callbacks s)) (\<lambda>ops.
        Inr (\<lparr>app_net = new_net m, app_config = c1, app_ifp = ifp, app_prev = fst (usb_state s), app_name = ''cdc_net''\<rparr>,
          (allocated a [AppBlk, QueueBlk, MgrBlk, ConfigBlk, IfpBlk, DriverBlk] s)
            \<lparr>usb_state := (iface, u1), net_callbacks := ops\<rparr>))))))"

definition usb_cdc_net_start ::
  "('m, 'u) drv_env \<Rightarrow> nat \<Rightarrow> net_config option \<Rightarrow> 'u net_sys \<Rightarrow> ('m net_app \<times> 'u net_sys) res" where
  "usb_cdc_net_start E a conf s = rbind (usb_cdc_net_alloc E a conf s) (\<lambda>(x, s1). Inr (x, allocated a [ThreadBlk] s1))"

definition usb_cdc_net_free :: "nat \<Rightarrow> 'u net_sys \<Rightarrow> 'u net_sys res" where
  "usb_cdc_net_free a s =
     rbind (free_over a [AppBlk] ThreadBlk s) (\<lambda>s.
     rbind (free_over a [AppBlk] QueueBlk s) (\<lambda>s.
     rbind (free_over a [AppBlk, MgrBlk, IfpBlk] DriverBlk s) (\<lambda>s.
     rbind (free_over a [AppBlk, MgrBlk] IfpBlk s) (\<lambda>s.
     rbind (free_over a [AppBlk] ConfigBlk s) (\<lambda>s.
     rbind (free_over a [AppBlk] MgrBlk s) (\<lambda>s.
     free_over a [] AppBlk s))))))"

definition usb_cdc_net_stop ::
  "('m, 'u) drv_env \<Rightarrow> (net_event \<times> nat option) option list \<Rightarrow> nat \<Rightarrow> 'm net_app option \<Rightarrow> 'u net_sys \<Rightarrow> 'u net_sys res" where
  "usb_cdc_net_stop E rs a app s = (case app of None \<Rightarrow> Inl AssertFailed | Some x \<Rightarrow>
     rbind (stop_thread (net_of E) rs (app_net x)) (\<lambda>_.
     rbind (usb_cdc_net_free a (s\<lparr>net_callbacks := tud_net_dispatch_clear (net_callbacks s)\<rparr>)) (\<lambda>s.
     let (iface, u) = usb_state s in
     rbind (read_block a AppBlk (app_prev x) s) (\<lambda>prev.
     Inr (s\<lparr>usb_state := rhs_hal_usb_set_interface (usb_of E) prev (iface, tusb_deinit E u)\<rparr>)))))"

section \<open>Lemmas\<close>

lemma assert_address_iff:
  "assert_address M t = Inr v \<longleftrightarrow> (\<exists>a b c d. address_text t (a, b, c, d) \<and> v = MG_IPV4 M a b c d)"
proof
  assume l: "assert_address M t = Inr v"
  obtain r out where p: "string_to_ip (Some t) (Some (0, 0, 0, 0)) = (r, out)"
    by (cases "string_to_ip (Some t) (Some (0, 0, 0, 0))")
  with l have "r = 0" by (auto simp: assert_address_def parsed_def split: if_splits)
  with p obtain q where q: "out = Some q" "address_text t q" using string_to_ip_sound by blast
  obtain a b c d where "q = (a, b, c, d)" by (cases q)
  then show "\<exists>a b c d. address_text t (a, b, c, d) \<and> v = MG_IPV4 M a b c d"
    using l p q \<open>r = 0\<close> by (auto simp: assert_address_def parsed_def)
next
  assume "\<exists>a b c d. address_text t (a, b, c, d) \<and> v = MG_IPV4 M a b c d"
  then show "assert_address M t = Inr v" using string_to_ip_complete by (auto simp: assert_address_def parsed_def)
qed

text \<open>What a configuration becomes, and the interface it gives.\<close>

definition chosen :: "string \<Rightarrow> string \<Rightarrow> string" where
  "chosen d t = (if t = [] then d else t)"

definition filled :: "string \<times> string \<times> string \<Rightarrow> u8 list \<Rightarrow> net_config \<Rightarrow> net_config" where
  "filled D U c = \<lparr>cfg_ip = chosen (fst D) (cfg_ip c), cfg_mask = chosen (fst (snd D)) (cfg_mask c),
     cfg_gateway = chosen (snd (snd D)) (cfg_gateway c),
     cfg_mac = (if cfg_mac c = replicate 6 0 then GENERATE_LOCALLY_ADMINISTERED_MAC U else cfg_mac c)\<rparr>"

definition short_texts :: "string \<times> string \<times> string \<Rightarrow> bool" where
  "short_texts D \<longleftrightarrow> length (fst D) < 16 \<and> length (fst (snd D)) < 16 \<and> length (snd (snd D)) < 16"

definition means :: "'m mongoose \<Rightarrow> string \<Rightarrow> u32 \<Rightarrow> bool" where
  "means M t v \<longleftrightarrow> (\<exists>a b c d. address_text t (a, b, c, d) \<and> v = MG_IPV4 M a b c d)"

lemma fill_config_filled: "short_texts D \<Longrightarrow> fill_config D U c = Inr (filled D U c)"
  by (cases D) (simp add: fill_config_def filled_def short_texts_def set_text_def chosen_def numeral_eq_Suc)

lemma fill_interface_iff:
  "fill_interface M c i = Inr r \<longleftrightarrow> (\<exists>u v w. means M (cfg_ip c) u \<and> means M (cfg_mask c) v \<and> means M (cfg_gateway c) w \<and>
     r = i\<lparr>ifp_ip := u, ifp_mask := v, ifp_gw := w, ifp_mac := take 4 (cfg_mac c) @ drop 4 (ifp_mac i)\<rparr>)"
  by (auto simp: fill_interface_def rbind_eq_Inr assert_address_iff means_def [symmetric] SIZEOF_POINTER_def)

lemma net_loop_stop:
  "net_loop E (rs @ [Some (NetApiEventTypeStop, l)]) s =
     rbind (net_loop E rs s) (\<lambda>(b, s'). Inr (True, if b then s' else s'\<lparr>mgr := mg_mgr_poll (mg E) (mgr s')\<rparr>))"
proof (induction rs arbitrary: s)
  case (Cons r rs)
  then show ?case by (auto simp: Let_def rbind_def split: option.splits prod.splits sum.splits)
qed (simp add: Let_def)

text \<open>Messages that leave no listener behind, and that the memory is enough for.\<close>

definition quiet_rounds :: "'m net_env \<Rightarrow> nat \<Rightarrow> (net_event \<times> nat option) option list \<Rightarrow> 'm mg_mgr \<Rightarrow> bool" where
  "quiet_rounds E cap rs m \<longleftrightarrow> allocator (node_alloc E) cap \<and> (\<forall>u. uri_alloc E u) \<and> length rs \<le> cap \<and> length rs \<le> walk E \<and>
     (\<forall>r\<in>set rs. \<forall>e l. r = Some (e, l) \<longrightarrow> e \<noteq> NetApiEventTypeStop) \<and> snd (fold (spec_round (mg E)) rs (m, [])) = []"

lemma stop_thread_returns:
  assumes "quiet_rounds E cap rs m"
  shows "\<exists>n. stop_thread E rs (new_net m) = Inr n"
proof -
  have "registered (nodes (new_net m)) (listeners (new_net m)) [] []" by (simp add: new_net_def)
  then have "holds E cap (length rs) (new_net m) []"
    unfolding holds_def using assms by (auto simp: quiet_rounds_def new_net_def)
  from net_loop_holds [OF this] assms obtain s' where "net_loop E rs (new_net m) = Inr (False, s')"
    "holds E cap 0 s' (snd (fold (spec_round (mg E)) rs (mgr (new_net m), [])))"
    unfolding quiet_rounds_def by blast
  moreover have "snd (fold (spec_round (mg E)) rs (mgr (new_net m), [])) = []"
    using assms by (simp add: quiet_rounds_def new_net_def)
  ultimately have "net_loop E rs (new_net m) = Inr (False, s')" "holds E cap 0 s' []" by simp_all
  then have "net_loop E (rs @ [Some (NetApiEventTypeStop, None)]) (new_net m) = Inr (True, s'\<lparr>mgr := mg_mgr_poll (mg E) (mgr s')\<rparr>)"
    and "listeners s' = None"
    by (auto simp: net_loop_stop holds_def registered_def)
  then show ?thesis by (simp add: stop_thread_def net_worker_def)
qed

text \<open>The blocks of an interface.\<close>

definition own_blocks :: "nat \<Rightarrow> (nat \<times> block) set" where
  "own_blocks a = {(a, b) |b. True}"

lemma all_allocated:
  "allocated a [ThreadBlk] (allocated a [AppBlk, QueueBlk, MgrBlk, ConfigBlk, IfpBlk, DriverBlk] s) =
     s\<lparr>blocks := blocks s \<union> own_blocks a\<rparr>"
proof -
  have "\<exists>b'. (b' = ThreadBlk \<or> b' \<in> set [AppBlk, QueueBlk, MgrBlk, ConfigBlk, IfpBlk, DriverBlk]) \<and> b = b'" for b
    by (cases b) simp_all
  then have "blocks s \<union> {(a, b) |b. b \<in> set [AppBlk, QueueBlk, MgrBlk, ConfigBlk, IfpBlk, DriverBlk]} \<union>
      {(a, b) |b. b \<in> set [ThreadBlk]} = blocks s \<union> own_blocks a"
    unfolding own_blocks_def by auto
  then show ?thesis by (simp add: allocated_def del: list.set)
qed

lemma free_chain:
  assumes "own_blocks a \<subseteq> blocks s"
  shows "eth_net_free a s = Inr (s\<lparr>blocks := blocks s - own_blocks a\<rparr>)"
    and "usb_cdc_net_free a s = Inr (s\<lparr>blocks := blocks s - own_blocks a\<rparr>)"
proof -
  have i: "(a, b) \<in> blocks s" for b using assms by (auto simp: own_blocks_def)
  have "b \<in> {AppBlk, QueueBlk, MgrBlk, ConfigBlk, IfpBlk, DriverBlk, ThreadBlk}" for b by (cases b) simp_all
  then have "own_blocks a = Pair a ` {AppBlk, QueueBlk, MgrBlk, ConfigBlk, IfpBlk, DriverBlk, ThreadBlk}"
    by (auto simp: own_blocks_def)
  then have d: "blocks s - {(a, ThreadBlk)} - {(a, QueueBlk)} - {(a, DriverBlk)} - {(a, IfpBlk)} - {(a, ConfigBlk)} -
      {(a, MgrBlk)} - {(a, AppBlk)} = blocks s - own_blocks a" by auto
  show "eth_net_free a s = Inr (s\<lparr>blocks := blocks s - own_blocks a\<rparr>)"
    unfolding d [symmetric] by (simp add: eth_net_free_def free_over_def i)
  show "usb_cdc_net_free a s = Inr (s\<lparr>blocks := blocks s - own_blocks a\<rparr>)"
    unfolding d [symmetric] by (simp add: usb_cdc_net_free_def free_over_def i)
qed

lemma allocated_fields [simp]:
  "allocated a bs (s\<lparr>eth := h\<rparr>) = (allocated a bs s)\<lparr>eth := h\<rparr>"
  "allocated a bs (s\<lparr>usb_state := u\<rparr>) = (allocated a bs s)\<lparr>usb_state := u\<rparr>"
  "allocated a bs (s\<lparr>net_callbacks := k\<rparr>) = (allocated a bs s)\<lparr>net_callbacks := k\<rparr>"
  by (simp_all add: allocated_def)

lemma eth_net_start_Inr:
  assumes "eth_net_start E a conf phy s = Inr (x, s')"
  shows "\<exists>i h. app_net x = new_net (mg_attach E i (mg_new E)) \<and> s' = s\<lparr>blocks := blocks s \<union> own_blocks a, eth := h\<rparr>"
proof -
  obtain x0 s1 where 1: "eth_net_alloc E a conf phy s = Inr (x0, s1)" "s' = allocated a [ThreadBlk] s1" "app_net x = app_net x0"
    using assms by (auto simp: eth_net_start_def rbind_eq_Inr)
  then obtain c c1 i m h where i: "eth_net_init_tcpip E a phy c = Inr (c1, i, m)" "app_net x0 = new_net m"
    "s1 = (allocated a [AppBlk, QueueBlk, MgrBlk, ConfigBlk, IfpBlk, DriverBlk] s)\<lparr>eth := h\<rparr>"
    by (auto simp: eth_net_alloc_def rbind_eq_Inr)
  moreover from i(1) have "m = mg_attach E i (mg_new E)"
    by (cases "case phy of Some p \<Rightarrow> p | None \<Rightarrow> default_phy E") (auto simp: eth_net_init_tcpip_def rbind_eq_Inr)
  ultimately have "s' = s\<lparr>blocks := blocks s \<union> own_blocks a, eth := h\<rparr>" "app_net x = new_net (mg_attach E i (mg_new E))"
    using 1 by (simp_all add: all_allocated)
  then show ?thesis by blast
qed

lemma usb_cdc_net_start_Inr:
  assumes "usb_cdc_net_start E a conf s = Inr (x, s')"
  shows "\<exists>i. app_net x = new_net (mg_attach E i (mg_new E)) \<and> blocks s' = blocks s \<union> own_blocks a \<and>
    net_callbacks s = None \<and> net_callbacks s' = Some (CdcNetOps a) \<and> fst (usb_state s') = Some UsbCdcNetDesc"
proof -
  obtain s1 where 1: "usb_cdc_net_alloc E a conf s = Inr (x, s1)" "s' = allocated a [ThreadBlk] s1"
    using assms by (auto simp: usb_cdc_net_start_def rbind_eq_Inr)
  obtain f u where iu: "rhs_hal_usb_set_interface (usb_of E) (Some UsbCdcNetDesc) (usb_state s) = (f, u)" by fastforce
  then have f: "f = Some UsbCdcNetDesc" using set_interface_fst [of "usb_of E" "Some UsbCdcNetDesc" "usb_state s"] by simp
  obtain i v where "app_net x = new_net (mg_attach E i (mg_new E))" "net_callbacks s = None"
    "s1 = (allocated a [AppBlk, QueueBlk, MgrBlk, ConfigBlk, IfpBlk, DriverBlk] s)
        \<lparr>usb_state := (Some UsbCdcNetDesc, v), net_callbacks := Some (CdcNetOps a)\<rparr>"
    using 1(1) by (auto simp: usb_cdc_net_alloc_def cdc_net_init_tcpip_def rbind_eq_Inr Let_def iu f tud_net_dispatch_set_def
        split: prod.splits)
  then show ?thesis using 1(2) by (simp add: all_allocated) blast
qed

section \<open>Properties\<close>

text \<open>C30: With memory, both interfaces come up exactly when each of the three texts of the configuration is either empty, when it is
  replaced by the default, or an address, and then the interface has these addresses. Its hardware address has the first four bytes
  of the configured or generated one and two zeros: the copy has the size of a pointer.\<close>

theorem interface_comes_up_iff:
  assumes "mem E (a, IfpBlk)" and "mem E (a, DriverBlk)" and "short_texts (cdc_texts E)" and "short_texts (eth_texts E)"
  shows "(cdc_net_init_tcpip E a c = Inr (c1, i, m) \<longleftrightarrow> c1 = filled (cdc_texts E) (uid E) c \<and> m = mg_attach E i (mg_new E) \<and>
      (\<exists>u v w. means (mg (net_of E)) (cfg_ip c1) u \<and> means (mg (net_of E)) (cfg_mask c1) v \<and>
        means (mg (net_of E)) (cfg_gateway c1) w \<and> i = \<lparr>ifp_ip = u, ifp_mask = v, ifp_gw = w,
          ifp_mac = take 4 (cfg_mac c1) @ [0, 0], enable_dhcp_server = True, recv_queue_size = 4096, phy_addr = 0, mdc_cr = 0\<rparr>)) \<and>
    (eth_net_init_tcpip E a (Some (pa, mdc)) c = Inr (c1, i, m) \<longleftrightarrow> c1 = filled (eth_texts E) (uid E) c \<and>
      m = mg_attach E i (mg_new E) \<and>
      (\<exists>u v w. means (mg (net_of E)) (cfg_ip c1) u \<and> means (mg (net_of E)) (cfg_mask c1) v \<and>
        means (mg (net_of E)) (cfg_gateway c1) w \<and> i = \<lparr>ifp_ip = u, ifp_mask = v, ifp_gw = w,
          ifp_mac = take 4 (cfg_mac c1) @ [0, 0], enable_dhcp_server = False, recv_queue_size = 0, phy_addr = pa, mdc_cr = mdc\<rparr>))"
proof -
  have f: "fill_config (cdc_texts E) (uid E) c = Inr (filled (cdc_texts E) (uid E) c)"
    "fill_config (eth_texts E) (uid E) c = Inr (filled (eth_texts E) (uid E) c)"
    using assms(3,4) by (simp_all add: fill_config_filled)
  have z: "replicate 2 (0 :: u8) = [0, 0]" by (simp add: numeral_eq_Suc)
  show ?thesis
    using assms(1,2) by (auto simp: cdc_net_init_tcpip_def eth_net_init_tcpip_def f rbind_eq_Inr fill_interface_iff cleared_if_def z)
qed

text \<open>C31: An Ethernet network that was started and whose listeners have been removed again can be stopped: the call returns,
  every block that the start allocated is free again and nothing else is freed, and the interrupt, the clocks, the interface selection
  and the pins of the hardware are off.\<close>

theorem eth_net_start_stop:
  assumes "eth_net_start E a conf phy s = Inr (x, s1)" and "own_blocks a \<inter> blocks s = {}" and "mac_bits_apart (bits E)"
    and "\<And>i. quiet_rounds (net_of E) cap rs (mg_attach E i (mg_new E))"
  shows "\<exists>s2. eth_net_stop E rs a (Some x) s1 = Inr s2 \<and> blocks s2 = blocks s \<and> usb_state s2 = usb_state s \<and>
     net_callbacks s2 = net_callbacks s \<and> eth_off (bits E) (eth s2)"
proof -
  obtain i h where s1: "app_net x = new_net (mg_attach E i (mg_new E))" "s1 = s\<lparr>blocks := blocks s \<union> own_blocks a, eth := h\<rparr>"
    using eth_net_start_Inr [OF assms(1)] by blast
  obtain n where "stop_thread (net_of E) rs (app_net x) = Inr n" using stop_thread_returns [OF assms(4)] s1(1) by auto
  moreover have "own_blocks a \<subseteq> blocks s1" using s1(2) by simp
  ultimately show ?thesis
    using assms(2,3) s1(2) by (auto simp: eth_net_stop_def free_chain eth_deinit_off)
qed

text \<open>C32: Stopping a USB network never returns in order: when its thread ends, every block of it is freed, and then the interface to
  restore is read from the freed object.\<close>

theorem usb_cdc_net_stop_use_after_free:
  assumes "usb_cdc_net_start E a conf s = Inr (x, s1)" and "own_blocks a \<inter> blocks s = {}"
    and "\<And>i. quiet_rounds (net_of E) cap rs (mg_attach E i (mg_new E))"
  shows "(\<exists>n s2. stop_thread (net_of E) rs (app_net x) = Inr n \<and> usb_cdc_net_free a s1 = Inr s2 \<and> blocks s2 = blocks s) \<and>
     usb_cdc_net_stop E rs a (Some x) s1 = Inl OutOfBounds"
proof -
  obtain i where s1: "app_net x = new_net (mg_attach E i (mg_new E))" "blocks s1 = blocks s \<union> own_blocks a"
    using usb_cdc_net_start_Inr [OF assms(1)] by blast
  obtain n where "stop_thread (net_of E) rs (app_net x) = Inr n" using stop_thread_returns [OF assms(3)] s1(1) by auto
  moreover have "own_blocks a \<subseteq> blocks s1" using s1(2) by simp
  moreover have "(a, AppBlk) \<in> own_blocks a" by (simp add: own_blocks_def)
  ultimately show ?thesis
    using assms(2) s1(2) by (auto simp: usb_cdc_net_stop_def free_chain read_block_def Let_def split: prod.splits)
qed

section \<open>An example\<close>

definition demo_drv :: "(string list, 'u) drv_env" where
  "demo_drv = \<lparr>net_of = quiet_env, usb_of = \<lparr>usb_init = (\<lambda>k u. u), usb_deinit = (\<lambda>k u. u), descriptor_switch_mode = (\<lambda>k u. u)\<rparr>,
     mem = (\<lambda>_. True), mg_new = \<lparr>conns = [], if_ip = 0, if_mask = 0, if_gw = 0, mg_rest = []\<rparr>,
     mg_attach = (\<lambda>i m. m\<lparr>if_ip := ifp_ip i, if_mask := ifp_mask i, if_gw := ifp_gw i\<rparr>),
     usb_reinit = (\<lambda>u. u), tusb_init = (\<lambda>u. u), tusb_deinit = (\<lambda>u. u), uid = [1, 2, 3, 4, 5, 6, 7, 8, 9, 10, 11, 12],
     cdc_texts = (''1.0.0.2'', ''255.0.0.0'', ''1.0.0.1''), eth_texts = (''1.0.0.2'', ''255.0.0.0'', ''1.0.0.1''), default_phy = (1, 2),
     bits = \<lparr>SYSCFG_PMC_MII_RMII_SEL = 1, RCC_AHB1ENR_ETHMACEN = 0x02000000, RCC_AHB1ENR_ETHMACTXEN = 0x04000000,
       RCC_AHB1ENR_ETHMACRXEN = 0x08000000,
       RCC_AHB1RSTR_ETHMACRST = 1\<rparr>,
     settle_regs = (\<lambda>h. h), reg_polls = Suc 0\<rparr>"

definition demo_net_sys :: "nat net_sys" where
  "demo_net_sys = \<lparr>blocks = {}, usb_state = (Some UsbCdcDesc, 0), net_callbacks = None,
     eth = \<lparr>PMC = 0, AHB1RSTR = 0, MACCR = 0x8000, MACFFR = 0, eth_irq = False, pin_regs = demo_gpio\<rparr>\<rparr>"

lemma demo_simps [simp]:
  "mem demo_drv b" "net_callbacks demo_net_sys = None" "blocks demo_net_sys = {}"
  "mg (net_of demo_drv) = quiet_mg"
  by (simp_all add: demo_drv_def demo_net_sys_def quiet_env_def)

lemma demo_phy: "default_phy demo_drv = (1, 2)"
  by (simp add: demo_drv_def)

lemma demo_quiet: "quiet_rounds (net_of demo_drv) 10
    [Some (NetApiEventTypeSetTcp ''a'' 1 2, Some 5), None, Some (NetApiEventTypeRstTcp ''a'', None)] m"
  using quiet_alloc by (cases m) (auto simp: quiet_rounds_def demo_drv_def quiet_env_def quiet_mg_def spec_round_def)

lemma demo_means: "means quiet_mg ''1.0.0.2'' 0x02000001" "means quiet_mg ''255.0.0.0'' 0xFF" "means quiet_mg ''1.0.0.1'' 0x01000001"
proof -
  have t: "''1.0.0.2'' = ip_text 1 0 0 2" "''255.0.0.0'' = ip_text 255 0 0 0" "''1.0.0.1'' = ip_text 1 0 0 1" by code_simp+
  have "means quiet_mg (ip_text a b c d) (MG_IPV4 quiet_mg a b c d)" if "a \<le> 255" "b \<le> 255" "c \<le> 255" "d \<le> 255" for a b c d
    using ip_text_address [OF that] by (auto simp: means_def)
  from this [of 1 0 0 2] this [of 255 0 0 0] this [of 1 0 0 1]
  show "means quiet_mg ''1.0.0.2'' 0x02000001" "means quiet_mg ''255.0.0.0'' 0xFF" "means quiet_mg ''1.0.0.1'' 0x01000001"
    unfolding t by (simp_all add: quiet_mg_def)
qed

definition demo_config :: net_config where
  "demo_config = \<lparr>cfg_ip = [], cfg_mask = [], cfg_gateway = [], cfg_mac = replicate 6 0\<rparr>"

lemma interface_comes_up_iff_witness:
  "\<exists>m. cdc_net_init_tcpip demo_drv 7 demo_config = Inr (
     \<lparr>cfg_ip = ''1.0.0.2'', cfg_mask = ''255.0.0.0'', cfg_gateway = ''1.0.0.1'', cfg_mac = [2, 3, 7, 3, 6, 13]\<rparr>,
     \<lparr>ifp_ip = 0x02000001, ifp_mask = 0xFF, ifp_gw = 0x01000001, ifp_mac = [2, 3, 7, 3, 0, 0], enable_dhcp_server = True,
       recv_queue_size = 4096, phy_addr = 0, mdc_cr = 0\<rparr>, m)"
proof -
  let ?c = "\<lparr>cfg_ip = ''1.0.0.2'', cfg_mask = ''255.0.0.0'', cfg_gateway = ''1.0.0.1'', cfg_mac = [2, 3, 7, 3, 6, 13]\<rparr>"
  have f: "filled (cdc_texts demo_drv) (uid demo_drv) demo_config = ?c"
    by (simp add: demo_drv_def demo_config_def filled_def chosen_def GENERATE_LOCALLY_ADMINISTERED_MAC_def)
  have m: "means (mg (net_of demo_drv)) = means quiet_mg" by (simp add: demo_drv_def quiet_env_def)
  have e: "mem demo_drv b" "short_texts (cdc_texts demo_drv)" "short_texts (eth_texts demo_drv)" for b
    by (simp_all add: demo_drv_def short_texts_def)
  show ?thesis
    by (rule exI, rule interface_comes_up_iff [OF e(1) e(1) e(2,3), THEN conjunct1, THEN iffD2])
      (use demo_means in \<open>simp add: f m\<close>)
qed

lemma demo_eth_starts: "\<exists>x s1. eth_net_start (demo_drv :: (string list, nat) drv_env) 7 None None demo_net_sys = Inr (x, s1)"
proof -
  let ?E = "demo_drv :: (string list, nat) drv_env"
  have d: "default_config (eth_texts ?E) (uid ?E) =
      Inr \<lparr>cfg_ip = ''1.0.0.2'', cfg_mask = ''255.0.0.0'', cfg_gateway = ''1.0.0.1'', cfg_mac = [2, 3, 7, 3, 6, 13]\<rparr>" (is "_ = Inr ?c")
    by (simp add: demo_drv_def default_config_def set_text_def GENERATE_LOCALLY_ADMINISTERED_MAC_def)
  have f: "fill_config (eth_texts ?E) (uid ?E) ?c = Inr ?c" by (simp add: demo_drv_def fill_config_def)
  obtain i where "fill_interface (mg (net_of ?E)) ?c (cleared_if\<lparr>phy_addr := 1, mdc_cr := 2\<rparr>) = Inr i"
    using demo_means fill_interface_iff [of "mg (net_of ?E)" ?c "cleared_if\<lparr>phy_addr := 1, mdc_cr := 2\<rparr>"]
    by force
  then have "\<exists>r. eth_net_init_tcpip ?E 7 None ?c = Inr r"
    using f by (simp add: eth_net_init_tcpip_def demo_phy)
  moreover have "\<exists>h. rhs_hal_eth_init (reg_polls ?E) (bits ?E) (settle_regs ?E) (eth demo_net_sys) = Inr h"
    by (simp add: rhs_hal_eth_init_def demo_drv_def demo_net_sys_def Let_def)
  ultimately show ?thesis using d
    by (auto simp: eth_net_start_def eth_net_alloc_def)
qed

lemma eth_net_start_stop_witness:
  "\<exists>x s1 s2. eth_net_start demo_drv 7 None None demo_net_sys = Inr (x, s1) \<and>
     eth_net_stop demo_drv [Some (NetApiEventTypeSetTcp ''a'' 1 2, Some 5), None, Some (NetApiEventTypeRstTcp ''a'', None)] 7 (Some x) s1 =
       Inr s2 \<and> blocks s2 = {}"
proof -
  obtain x s1 where 1: "eth_net_start demo_drv 7 None None demo_net_sys = Inr (x, s1)" using demo_eth_starts by blast
  have 2: "own_blocks 7 \<inter> blocks demo_net_sys = {}" by (simp add: demo_net_sys_def)
  have 3: "mac_bits_apart (bits demo_drv)" by (simp add: demo_drv_def mac_bits_apart_def mac_clocks_def)
  from eth_net_start_stop [OF 1 2 3 demo_quiet] 1 show ?thesis by (auto simp: demo_net_sys_def)
qed

lemma demo_cdc_starts: "\<exists>x s1. usb_cdc_net_start demo_drv 7 (Some demo_config) demo_net_sys = Inr (x, s1)"
proof -
  let ?E = "demo_drv :: (string list, nat) drv_env"
  have f: "fill_config (cdc_texts ?E) (uid ?E) demo_config =
      Inr \<lparr>cfg_ip = ''1.0.0.2'', cfg_mask = ''255.0.0.0'', cfg_gateway = ''1.0.0.1'', cfg_mac = [2, 3, 7, 3, 6, 13]\<rparr>" (is "_ = Inr ?c")
    by (simp add: demo_drv_def demo_config_def fill_config_def set_text_def GENERATE_LOCALLY_ADMINISTERED_MAC_def numeral_eq_Suc)
  let ?i = "cleared_if\<lparr>enable_dhcp_server := True, recv_queue_size := 4096\<rparr>"
  obtain i where "fill_interface (mg (net_of ?E)) ?c ?i = Inr i"
    using demo_means fill_interface_iff [of "mg (net_of ?E)" ?c ?i] by force
  then have "\<exists>r. cdc_net_init_tcpip ?E 7 demo_config = Inr r"
    using f by (simp add: cdc_net_init_tcpip_def)
  then show ?thesis
    by (auto simp: usb_cdc_net_start_def usb_cdc_net_alloc_def tud_net_dispatch_set_def Let_def split: prod.splits)
qed

lemma usb_cdc_net_stop_use_after_free_witness:
  "\<exists>x s1. usb_cdc_net_start demo_drv 7 (Some demo_config) demo_net_sys = Inr (x, s1) \<and>
     usb_cdc_net_stop demo_drv [Some (NetApiEventTypeSetTcp ''a'' 1 2, Some 5), None, Some (NetApiEventTypeRstTcp ''a'', None)] 7 (Some x) s1 =
       Inl OutOfBounds"
proof -
  obtain x s1 where 1: "usb_cdc_net_start demo_drv 7 (Some demo_config) demo_net_sys = Inr (x, s1)" using demo_cdc_starts by blast
  have 2: "own_blocks 7 \<inter> blocks demo_net_sys = {}" by (simp add: demo_net_sys_def)
  from usb_cdc_net_stop_use_after_free [OF 1 2 demo_quiet] 1 show ?thesis by blast
qed

end
