(* ===== verification/Usb_Eth_Bridge.thy ===== *)
theory Usb_Eth_Bridge
  imports Net_Drivers "HOL-Library.Sublist"
begin

text \<open>
  The bridge between USB and Ethernet (applications/services/net/usb_eth_bridge/usb_eth_bridge.c):
  its thread keeps the link of the Ethernet driver up to date and sends every frame that the
  driver has received to the host; the receive callback of the USB stack sends the frames of the
  host to Ethernet while the link is up. The lemmas follow a run of the thread over arriving
  frames; the driver and the USB stack are parameters.
\<close>

section \<open>The thread\<close>

text \<open>\<open>eth_frames\<close> is the receive queue that the interrupt of the driver fills, \<open>ops\<close> what is registered with the USB stack.\<close>

record ('u, 'e) bridge_io =
  eth_frames :: "u8 list list"
  usb_stack :: 'u
  eth_mac :: 'e
  link_up :: bool
  last_1s :: u64
  finish :: bool
  ops :: "net_ops option"

text \<open>\<open>eth_poll\<close> and \<open>eth_tx\<close> are the driver's functions, the first with whether a second has passed.\<close>

record ('u, 'e) bridge_api =
  tudn :: "'u tud_net"
  eth_poll :: "(bool \<Rightarrow> 'e \<Rightarrow> bool \<times> 'e) option"
  eth_tx :: "u8 list \<Rightarrow> 'e \<Rightarrow> 'e"
  xmit_polls :: nat

definition bridge_recv_cb :: "('u, 'e) bridge_api \<Rightarrow> u8 list \<Rightarrow> ('u, 'e) bridge_io \<Rightarrow> bool \<times> ('u, 'e) bridge_io" where
  "bridge_recv_cb A buf s =
     (let s1 = (if link_up s then s\<lparr>eth_mac := eth_tx A buf (eth_mac s)\<rparr> else s) in
      (True, s1\<lparr>usb_stack := tud_network_recv_renew (tudn A) (usb_stack s1)\<rparr>))"

definition bridge_xmit_cb :: "u8 list \<Rightarrow> nat \<Rightarrow> u8 list" where
  "bridge_xmit_cb ref arg = take arg ref"

definition bridge_deliver :: "('u, 'e) bridge_api \<Rightarrow> u8 list \<Rightarrow> ('u, 'e) bridge_io \<Rightarrow> ('u, 'e) bridge_io" where
  "bridge_deliver A f s = snd (tud_network_recv_cb (\<lambda>_. bridge_recv_cb A) (ops s) f s)"

definition bridge_task :: "('u, 'e) bridge_api \<Rightarrow> ('u, 'e) bridge_io \<Rightarrow> ('u, 'e) bridge_io" where
  "bridge_task A s = (case tud_net_task (tudn A) (usb_stack s) of (frames, u) \<Rightarrow> fold (bridge_deliver A) frames (s\<lparr>usb_stack := u\<rparr>))"

text \<open>Step 1 of a round.\<close>

definition bridge_link :: "('u, 'e) bridge_api \<Rightarrow> u64 \<Rightarrow> ('u, 'e) bridge_io \<Rightarrow> ('u, 'e) bridge_io" where
  "bridge_link A now s =
     (let tick_1s = now - last_1s s \<ge> 1000;
          s1 = (if tick_1s then s\<lparr>last_1s := now\<rparr> else s) in
      case eth_poll A of
        None \<Rightarrow> s1
      | Some poll \<Rightarrow> (case poll tick_1s (eth_mac s1) of (up, e) \<Rightarrow>
          if tick_1s then s1\<lparr>eth_mac := e, link_up := up\<rparr> else s1\<lparr>eth_mac := e\<rparr>))"

text \<open>
  The loop over the received frames. The interrupt may add frames while one is sent: \<open>late\<close> are those of each turn. The head
  of the queue is only taken out after it is sent. An empty frame would end the loop.
\<close>

function bridge_forward ::
  "('u, 'e) bridge_api \<Rightarrow> u8 list list list \<Rightarrow> ('u, 'e) bridge_io \<Rightarrow> ('u, 'e) bridge_io res" where
  "bridge_forward A late s = (case eth_frames s of
     [] \<Rightarrow> Inr (s\<lparr>eth_frames := concat late\<rparr>)
   | f # fs \<Rightarrow>
       if f = [] then Inr (s\<lparr>eth_frames := f # fs @ concat late\<rparr>)
       else let len = of_nat (length f) in
         rbind (wait_xmit (xmit_polls A) (\<lambda>s. tud_network_can_xmit (tudn A) len (usb_stack s)) (bridge_task A) s) (\<lambda>s1.
         bridge_forward A (tl late)
           (s1\<lparr>usb_stack := tud_network_xmit (tudn A) (take (unat len) f) (usb_stack s1),
             eth_frames := fs @ (case late of [] \<Rightarrow> [] | new # _ \<Rightarrow> new)\<rparr>)))"
  by pat_completeness auto
termination
proof (relation "measure (\<lambda>(A, late, s). length (eth_frames s) + length (concat late))")
  fix A :: "('u, 'e) bridge_api" and late :: "u8 list list list" and s s1 :: "('u, 'e) bridge_io" and f fs and len :: u16 and v
  assume "eth_frames s = f # fs"
  then show "((A, tl late, s1\<lparr>usb_stack := v, eth_frames := fs @ (case late of [] \<Rightarrow> [] | new # _ \<Rightarrow> new)\<rparr>), A, late, s)
      \<in> measure (\<lambda>(A, late, s). length (eth_frames s) + length (concat late))"
    by (cases late) simp_all
qed simp

declare bridge_forward.simps [simp del]

text \<open>
  A round: the time, the frames that arrived since the last one, those that arrive during the loop, and whether
  \<open>finish\<close> is set at its end. The result says whether the thread has ended.
\<close>

record bridge_turn =
  t_now :: u64
  t_new :: "u8 list list"
  t_late :: "u8 list list list"
  t_finish :: bool

definition bridge_round :: "('u, 'e) bridge_api \<Rightarrow> bridge_turn \<Rightarrow> ('u, 'e) bridge_io \<Rightarrow> ('u, 'e) bridge_io res" where
  "bridge_round A r s =
     rbind (bridge_forward A (t_late r) (bridge_link A (t_now r) (s\<lparr>eth_frames := eth_frames s @ t_new r\<rparr>))) (\<lambda>s1.
     Inr ((bridge_task A s1)\<lparr>finish := t_finish r\<rparr>))"

fun bridge_worker :: "('u, 'e) bridge_api \<Rightarrow> bridge_turn list \<Rightarrow> ('u, 'e) bridge_io \<Rightarrow> (bool \<times> ('u, 'e) bridge_io) res" where
  "bridge_worker A [] s = Inr (False, s)"
| "bridge_worker A (r # rs) s =
     rbind (bridge_round A r s) (\<lambda>s1. if finish s1 then Inr (True, s1) else bridge_worker A rs s1)"

section \<open>Start and stop\<close>

record bridge_obj =
  prev_usb_intf :: "usb_interface option"
  eth_drv_data :: "u8 \<times> u8"

definition usb_eth_bridge_start ::
  "('m, 'u) drv_env \<Rightarrow> nat \<Rightarrow> (u8 \<times> u8) option \<Rightarrow> 'u net_sys \<Rightarrow> (bridge_obj \<times> 'u net_sys) res" where
  "usb_eth_bridge_start E a phy s =
     rhs_assert (mem E (a, AppBlk))
       (rbind (rhs_hal_eth_init (reg_polls E) (bits E) (settle_regs E) (eth s)) (\<lambda>h.
        let (iface, u) = rhs_hal_usb_set_interface (usb_of E) (Some BridgeUsbDesc) (usb_state s) in
        rbind (tud_net_dispatch_set (BridgeOps a) (net_callbacks s)) (\<lambda>ops.
        Inr (\<lparr>prev_usb_intf = fst (usb_state s), eth_drv_data = (case phy of Some p \<Rightarrow> p | None \<Rightarrow> default_phy E)\<rparr>,
          (allocated a [AppBlk, ThreadBlk] s)
            \<lparr>eth := h\<lparr>MACFFR := 1\<rparr>, usb_state := (iface, tusb_init E (usb_reinit E u)), net_callbacks := ops\<rparr>))))"

definition usb_eth_bridge_free :: "nat \<Rightarrow> 'u net_sys \<Rightarrow> 'u net_sys res" where
  "usb_eth_bridge_free a s =
     rbind (free_over a [AppBlk] ThreadBlk s) (\<lambda>s. rbind (read_block a AppBlk () s) (\<lambda>_. free_over a [] AppBlk s))"

text \<open>\<open>io\<close> is what the thread works on; from now on \<open>finish\<close> is set at the end of each of its rounds \<open>rs\<close>.\<close>

definition bridge_join ::
  "('u, 'e) bridge_api \<Rightarrow> bridge_turn list \<Rightarrow> ('u, 'e) bridge_io \<Rightarrow> ('u, 'e) bridge_io res" where
  "bridge_join A rs io =
     rbind (bridge_worker A (map (\<lambda>r. r\<lparr>t_finish := True\<rparr>) rs) (io\<lparr>ops := tud_net_dispatch_clear (ops io), finish := True\<rparr>))
       (\<lambda>(ended, io1). if ended then Inr io1 else Inl Blocked)"

definition usb_eth_bridge_stop ::
  "('m, 'u) drv_env \<Rightarrow> ('u, 'e) bridge_api \<Rightarrow> bridge_turn list \<Rightarrow> nat \<Rightarrow> bridge_obj option \<Rightarrow> ('u, 'e) bridge_io \<Rightarrow> 'u net_sys \<Rightarrow>
     ('u, 'e) bridge_io res \<times> 'u net_sys res" where
  "usb_eth_bridge_stop E A rs a bridge io s = (case bridge of None \<Rightarrow> (Inr io, Inl AssertFailed) | Some b \<Rightarrow>
     (bridge_join A rs io,
      rbind (bridge_join A rs io) (\<lambda>io1.
      rbind (usb_eth_bridge_free a (s\<lparr>net_callbacks := tud_net_dispatch_clear (net_callbacks s)\<rparr>)) (\<lambda>s.
      rbind (read_block a AppBlk (prev_usb_intf b) s) (\<lambda>prev.
      Inr (s\<lparr>usb_state := rhs_hal_usb_set_interface (usb_of E) prev (fst (usb_state s), tusb_deinit E (usb_stack io1)),
        eth := rhs_hal_eth_deinit (bits E) (eth s)\<rparr>))))))"

section \<open>The laws of the stack and the driver\<close>

text \<open>The frames that arrive during some rounds.\<close>

definition arrived :: "bridge_turn list \<Rightarrow> u8 list list" where
  "arrived rs = concat (map (\<lambda>r. t_new r @ concat (t_late r)) rs)"

text \<open>
  \<open>sent\<close> are the frames that the stack has taken for the host, \<open>delivered\<close> those of the host that
  it has handed to the callback, \<open>wire\<close> those that the Ethernet driver has sent.
\<close>

locale usb_net_stack =
  fixes T :: "'u tud_net" and sent :: "'u \<Rightarrow> u8 list list" and delivered :: "'u \<Rightarrow> u8 list list"
  assumes xmit: "sent (tud_network_xmit T f u) = sent u @ [f]" "delivered (tud_network_xmit T f u) = delivered u"
    and renew: "sent (tud_network_recv_renew T u) = sent u" "delivered (tud_network_recv_renew T u) = delivered u"
    and task: "sent (snd (tud_net_task T u)) = sent u" "delivered (snd (tud_net_task T u)) = delivered u @ fst (tud_net_task T u)"

locale eth_bridge = usb_net_stack "tudn A" sent delivered for A :: "('u, 'e) bridge_api" and sent delivered +
  fixes wire :: "'e \<Rightarrow> u8 list list"
  assumes tx: "wire (eth_tx A f e) = wire e @ [f]"
    and poll: "eth_poll A = Some p \<Longrightarrow> wire (snd (p t e)) = wire e"
begin

text \<open>What the stack does between two frames: frames of the host go to the wire, all of them or none.\<close>

definition turned :: "('u, 'e) bridge_io \<Rightarrow> ('u, 'e) bridge_io \<Rightarrow> bool" where
  "turned s t \<longleftrightarrow> eth_frames t = eth_frames s \<and> link_up t = link_up s \<and> ops t = ops s \<and> finish t = finish s \<and>
     sent (usb_stack t) = sent (usb_stack s) \<and>
     (\<exists>ds. delivered (usb_stack t) = delivered (usb_stack s) @ ds \<and>
        wire (eth_mac t) = wire (eth_mac s) @ (if link_up s \<and> ops s \<noteq> None then ds else []))"

lemma turned_refl: "turned s s"
  by (simp add: turned_def)

lemma deliver_turn:
  "fold (bridge_deliver A) fs s = t \<Longrightarrow> eth_frames t = eth_frames s \<and> link_up t = link_up s \<and> ops t = ops s \<and> finish t = finish s \<and>
     sent (usb_stack t) = sent (usb_stack s) \<and> delivered (usb_stack t) = delivered (usb_stack s) \<and>
     wire (eth_mac t) = wire (eth_mac s) @ (if link_up s \<and> ops s \<noteq> None then fs else [])"
  by (induction fs arbitrary: s)
    (auto simp: bridge_deliver_def tud_network_recv_cb_def bridge_recv_cb_def Let_def renew tx split: option.splits)

lemma task_turned: "turned r s \<Longrightarrow> turned r (bridge_task A s)"
proof -
  assume r: "turned r s"
  obtain fs u where fu: "tud_net_task (tudn A) (usb_stack s) = (fs, u)" by fastforce
  then have "sent u = sent (usb_stack s)" "delivered u = delivered (usb_stack s) @ fs"
    using task [of "usb_stack s"] by simp_all
  moreover have "bridge_task A s = fold (bridge_deliver A) fs (s\<lparr>usb_stack := u\<rparr>)" by (simp add: bridge_task_def fu)
  ultimately show ?thesis using r deliver_turn [OF refl, of fs "s\<lparr>usb_stack := u\<rparr>"] by (auto simp: turned_def)
qed

text \<open>A part of a run in which the frames \<open>new\<close> have arrived.\<close>

definition followed :: "u8 list list \<Rightarrow> ('u, 'e) bridge_io \<Rightarrow> ('u, 'e) bridge_io \<Rightarrow> bool" where
  "followed new s t \<longleftrightarrow> ops t = ops s \<and>
     (\<exists>ss. sent (usb_stack t) = sent (usb_stack s) @ ss \<and> ss @ eth_frames t = eth_frames s @ new) \<and>
     (\<exists>ds xs. delivered (usb_stack t) = delivered (usb_stack s) @ ds \<and> wire (eth_mac t) = wire (eth_mac s) @ xs \<and> subseq xs ds)"

lemma followed_trans: "followed xs r s \<Longrightarrow> followed ys s t \<Longrightarrow> followed (xs @ ys) r t"
proof -
  assume 1: "followed xs r s" and 2: "followed ys s t"
  obtain d1 x1 where a: "delivered (usb_stack s) = delivered (usb_stack r) @ d1" "wire (eth_mac s) = wire (eth_mac r) @ x1" "subseq x1 d1"
    using 1 unfolding followed_def by blast
  obtain d2 x2 where b: "delivered (usb_stack t) = delivered (usb_stack s) @ d2" "wire (eth_mac t) = wire (eth_mac s) @ x2" "subseq x2 d2"
    using 2 unfolding followed_def by blast
  obtain s1 where c: "sent (usb_stack s) = sent (usb_stack r) @ s1" "s1 @ eth_frames s = eth_frames r @ xs"
    using 1 unfolding followed_def by blast
  obtain s2 where d: "sent (usb_stack t) = sent (usb_stack s) @ s2" "s2 @ eth_frames t = eth_frames s @ ys"
    using 2 unfolding followed_def by blast
  have "(s1 @ s2) @ eth_frames t = (s1 @ eth_frames s) @ ys" using d(2) by simp
  then have "sent (usb_stack t) = sent (usb_stack r) @ s1 @ s2 \<and> (s1 @ s2) @ eth_frames t = eth_frames r @ xs @ ys"
    using c d(1) by simp
  then have "\<exists>ss. sent (usb_stack t) = sent (usb_stack r) @ ss \<and> ss @ eth_frames t = eth_frames r @ xs @ ys" by blast
  moreover have "subseq (x1 @ x2) (d1 @ d2)" using a(3) b(3) by (rule list_emb_append_mono)
  ultimately show ?thesis using 1 2 a b unfolding followed_def by auto
qed

lemma turned_followed: "turned s t \<Longrightarrow> followed [] s t"
  unfolding turned_def followed_def by fastforce

lemma forward_followed:
  "bridge_forward A late s = Inr t \<Longrightarrow> \<forall>f\<in>set (eth_frames s @ concat late). length f < 65536 \<Longrightarrow> followed (concat late) s t"
proof (induction "length (eth_frames s) + length (concat late)" arbitrary: s late t rule: less_induct)
  case less
  show ?case
  proof (cases "eth_frames s")
    case Nil
    then have "t = s\<lparr>eth_frames := concat late\<rparr>" using less.prems(1) by (simp add: bridge_forward.simps [of A late s])
    then show ?thesis using Nil by (auto simp: followed_def)
  next
    case (Cons f fs)
    show ?thesis
    proof (cases "f = []")
      case True
      then have "t = s\<lparr>eth_frames := eth_frames s @ concat late\<rparr>"
        using less.prems(1) Cons by (simp add: bridge_forward.simps [of A late s])
      then show ?thesis by (auto simp: followed_def)
    next
      case False
      let ?len = "of_nat (length f) :: u16"
      let ?new = "case late of [] \<Rightarrow> [] | new # _ \<Rightarrow> new"
      have f: "take (unat ?len) f = f" using less.prems(2) Cons by (simp add: unat_of_nat)
      obtain s1 where w: "wait_xmit (xmit_polls A) (\<lambda>s. tud_network_can_xmit (tudn A) ?len (usb_stack s)) (bridge_task A) s = Inr s1"
        "bridge_forward A (tl late) (s1\<lparr>usb_stack := tud_network_xmit (tudn A) f (usb_stack s1), eth_frames := fs @ ?new\<rparr>) = Inr t"
        using less.prems(1) Cons False f
        by (auto simp: bridge_forward.simps [of A late s] Let_def rbind_eq_Inr)
      let ?s2 = "s1\<lparr>usb_stack := tud_network_xmit (tudn A) f (usb_stack s1), eth_frames := fs @ ?new\<rparr>"
      have new: "?new @ concat (tl late) = concat late" by (cases late) simp_all
      have s1: "turned s s1" using wait_xmit_invariant [OF w(1), of turned] turned_refl task_turned by blast
      have "followed ?new s ?s2"
        using turned_followed [OF s1] s1 Cons by (auto simp: followed_def turned_def xmit)
      moreover have "followed (concat (tl late)) ?s2 t"
      proof (rule less.hyps [OF _ w(2)])
        show "length (eth_frames ?s2) + length (concat (tl late)) < length (eth_frames s) + length (concat late)"
          using Cons new [symmetric] by simp
        show "\<forall>g\<in>set (eth_frames ?s2 @ concat (tl late)). length g < 65536"
          using less.prems(2) Cons new [symmetric] by auto
      qed
      ultimately have "followed (?new @ concat (tl late)) s t" by (rule followed_trans)
      then show ?thesis by (simp only: new)
    qed
  qed
qed

lemma link_followed: "followed [] s (bridge_link A now s)"
proof -
  have "wire (snd (p b (eth_mac s))) = wire (eth_mac s)" if "eth_poll A = Some p" for p b by (rule poll [OF that])
  then show ?thesis by (auto simp: bridge_link_def followed_def Let_def case_prod_beta split: option.splits)
qed

lemma round_followed:
  assumes "bridge_round A r s = Inr t" and "\<forall>f\<in>set (eth_frames s @ t_new r @ concat (t_late r)). length f < 65536"
  shows "followed (t_new r @ concat (t_late r)) s t"
proof -
  let ?s0 = "s\<lparr>eth_frames := eth_frames s @ t_new r\<rparr>"
  obtain s1 where s1: "bridge_forward A (t_late r) (bridge_link A (t_now r) ?s0) = Inr s1" "t = (bridge_task A s1)\<lparr>finish := t_finish r\<rparr>"
    using assms(1) by (auto simp: bridge_round_def rbind_eq_Inr)
  have e: "eth_frames (bridge_link A (t_now r) ?s0) = eth_frames s @ t_new r"
    by (auto simp: bridge_link_def Let_def split: option.splits prod.splits)
  have "followed (t_new r) s ?s0" by (auto simp: followed_def)
  moreover have "followed [] ?s0 (bridge_link A (t_now r) ?s0)" by (rule link_followed)
  moreover have "followed (concat (t_late r)) (bridge_link A (t_now r) ?s0) s1"
    by (rule forward_followed [OF s1(1)]) (use assms(2) e in auto)
  moreover have "followed [] s1 (bridge_task A s1)" by (rule turned_followed, rule task_turned, rule turned_refl)
  moreover have "followed [] (bridge_task A s1) t" using s1(2) by (auto simp: followed_def)
  ultimately have "followed (t_new r @ [] @ concat (t_late r) @ [] @ []) s t" 
    by (intro followed_trans [of _ s ?s0] followed_trans [of _ ?s0 "bridge_link A (t_now r) ?s0"]
        followed_trans [of _ "bridge_link A (t_now r) ?s0" s1] followed_trans [of _ s1 "bridge_task A s1"])
  then show ?thesis by simp
qed

lemma followed_frames: "followed new s t \<Longrightarrow> set (eth_frames t) \<subseteq> set (eth_frames s @ new)"
proof -
  assume "followed new s t"
  then obtain ss where "ss @ eth_frames t = eth_frames s @ new" unfolding followed_def by blast
  then have "set (ss @ eth_frames t) = set (eth_frames s @ new)" by simp
  then show ?thesis by auto
qed

lemma worker_followed:
  assumes "bridge_worker A rs s = Inr (b, t)" and "\<forall>f\<in>set (eth_frames s @ arrived rs). length f < 65536"
  shows "\<exists>k \<le> length rs. (\<not> b \<longrightarrow> k = length rs) \<and> followed (arrived (take k rs)) s t"
  using assms
proof (induction rs arbitrary: s)
  case Nil
  then show ?case by (auto simp: arrived_def followed_def)
next
  case (Cons r rs)
  obtain s1 where s1: "bridge_round A r s = Inr s1" "(if finish s1 then Inr (True, s1) else bridge_worker A rs s1) = Inr (b, t)"
    using Cons.prems(1) by (auto simp: rbind_eq_Inr)
  have a: "arrived (r # rs) = (t_new r @ concat (t_late r)) @ arrived rs" by (simp add: arrived_def)
  have f: "followed (t_new r @ concat (t_late r)) s s1" by (rule round_followed [OF s1(1)]) (use Cons.prems(2) a in auto)
  show ?case
  proof (cases "finish s1")
    case True
    then have "arrived (take 1 (r # rs)) = t_new r @ concat (t_late r)" "b" "t = s1" using s1(2) by (auto simp: arrived_def)
    then show ?thesis using f by (intro exI [of _ 1]) simp
  next
    case False
    then have w: "bridge_worker A rs s1 = Inr (b, t)" using s1(2) by simp
    have "\<forall>f\<in>set (eth_frames s1 @ arrived rs). length f < 65536" using followed_frames [OF f] Cons.prems(2) a by auto
    then obtain k where k: "k \<le> length rs" "\<not> b \<longrightarrow> k = length rs" "followed (arrived (take k rs)) s1 t"
      using Cons.IH [OF w] by blast
    have "arrived (take (Suc k) (r # rs)) = (t_new r @ concat (t_late r)) @ arrived (take k rs)" by (simp add: arrived_def)
    then show ?thesis using followed_trans [OF f k(3)] k(1,2) by (intro exI [of _ "Suc k"]) simp
  qed
qed

end

section \<open>Progress\<close>

text \<open>The stack always gets place for a frame within the rounds that the model follows.\<close>

definition room_within :: "('u, 'e) bridge_api \<Rightarrow> bool" where
  "room_within A \<longleftrightarrow> (\<forall>len s. \<exists>s'. wait_xmit (xmit_polls A) (\<lambda>s. tud_network_can_xmit (tudn A) len (usb_stack s)) (bridge_task A) s = Inr s')"

lemma deliver_frames: "eth_frames (fold (bridge_deliver A) fs s) = eth_frames s"
  by (induction fs arbitrary: s)
    (auto simp: bridge_deliver_def tud_network_recv_cb_def bridge_recv_cb_def Let_def split: option.splits)

lemma task_frames [simp]: "eth_frames (bridge_task A s) = eth_frames s"
  by (auto simp: bridge_task_def deliver_frames split: prod.splits)

lemma link_frames [simp]: "eth_frames (bridge_link A now s) = eth_frames s"
  by (auto simp: bridge_link_def Let_def split: option.splits prod.splits)

lemma wait_frames: "wait_xmit n can (bridge_task A) s = Inr s1 \<Longrightarrow> eth_frames s1 = eth_frames s"
  by (induction n arbitrary: s) (auto split: if_splits)

lemma forward_total:
  assumes "room_within A"
  shows "\<exists>t. bridge_forward A late s = Inr t \<and>
    ((\<forall>f\<in>set (eth_frames s). f \<noteq> []) \<longrightarrow> late = [] \<longrightarrow> eth_frames t = [])"
proof (induction "length (eth_frames s) + length (concat late)" arbitrary: s late rule: less_induct)
  case less
  show ?case
  proof (cases "eth_frames s")
    case Nil
    then show ?thesis by (simp add: bridge_forward.simps [of A late s])
  next
    case (Cons f fs)
    show ?thesis
    proof (cases "f = []")
      case True
      then show ?thesis using Cons by (simp add: bridge_forward.simps [of A late s])
    next
      case False
      let ?len = "of_nat (length f) :: u16"
      let ?new = "case late of [] \<Rightarrow> [] | new # _ \<Rightarrow> new"
      obtain s1 where w: "wait_xmit (xmit_polls A) (\<lambda>s. tud_network_can_xmit (tudn A) ?len (usb_stack s)) (bridge_task A) s = Inr s1"
        using assms unfolding room_within_def by blast
      let ?s2 = "s1\<lparr>usb_stack := tud_network_xmit (tudn A) (take (unat ?len) f) (usb_stack s1), eth_frames := fs @ ?new\<rparr>"
      have "length (eth_frames ?s2) + length (concat (tl late)) < length (eth_frames s) + length (concat late)"
        using Cons by (cases late) simp_all
      from less.hyps [OF this] obtain t where t: "bridge_forward A (tl late) ?s2 = Inr t"
        "(\<forall>f\<in>set (eth_frames ?s2). f \<noteq> []) \<longrightarrow> tl late = [] \<longrightarrow> eth_frames t = []" by blast
      have "bridge_forward A late s = Inr t"
        using t(1) w Cons False by (subst bridge_forward.simps) (simp add: Let_def)
      then show ?thesis using t(2) Cons by auto
    qed
  qed
qed

lemma worker_total:
  assumes "room_within A"
  shows "\<exists>b t. bridge_worker A rs s = Inr (b, t) \<and> ((\<forall>f\<in>set (eth_frames s @ arrived rs). f \<noteq> []) \<longrightarrow>
     (\<forall>r\<in>set rs. t_late r = []) \<longrightarrow> rs \<noteq> [] \<longrightarrow> eth_frames t = [])"
proof (induction rs arbitrary: s)
  case (Cons r rs)
  obtain s1 where s1: "bridge_forward A (t_late r) (bridge_link A (t_now r) (s\<lparr>eth_frames := eth_frames s @ t_new r\<rparr>)) = Inr s1"
    "(\<forall>f\<in>set (eth_frames s @ t_new r). f \<noteq> []) \<longrightarrow> t_late r = [] \<longrightarrow> eth_frames s1 = []"
    using forward_total [OF assms, of "t_late r" "bridge_link A (t_now r) (s\<lparr>eth_frames := eth_frames s @ t_new r\<rparr>)"] by auto
  let ?s2 = "(bridge_task A s1)\<lparr>finish := t_finish r\<rparr>"
  have r: "bridge_round A r s = Inr ?s2" using s1(1) by (simp add: bridge_round_def)
  have e: "eth_frames ?s2 = eth_frames s1" by simp
  obtain b t where bt: "bridge_worker A rs ?s2 = Inr (b, t)" "(\<forall>f\<in>set (eth_frames ?s2 @ arrived rs). f \<noteq> []) \<longrightarrow>
      (\<forall>r\<in>set rs. t_late r = []) \<longrightarrow> rs \<noteq> [] \<longrightarrow> eth_frames t = []"
    using Cons.IH [of ?s2] by blast
  have a: "arrived (r # rs) = t_new r @ concat (t_late r) @ arrived rs" by (simp add: arrived_def)
  show ?case
  proof (cases "t_finish r \<or> rs = []")
    case True
    then have "\<exists>b. bridge_worker A (r # rs) s = Inr (b, ?s2)" using r by auto
    then show ?thesis using s1(2) a e by auto
  next
    case False
    then have "bridge_worker A (r # rs) s = Inr (b, t)" using r bt(1) by simp
    then show ?thesis using bt(2) s1(2) a e False by (intro exI [of _ b] exI [of _ t]) auto
  qed
qed (rule exI [of _ False], simp)

lemma deliver_gone:
  assumes "\<And>u. gone u \<Longrightarrow> gone (tud_network_recv_renew (tudn A) u)" and "gone (usb_stack s)"
  shows "gone (usb_stack (fold (bridge_deliver A) fs s))"
  using assms(2)
  by (induction fs arbitrary: s)
    (auto simp: bridge_deliver_def tud_network_recv_cb_def bridge_recv_cb_def Let_def assms(1) split: option.splits)

lemma link_usb [simp]: "usb_stack (bridge_link A now s) = usb_stack s"
  by (auto simp: bridge_link_def Let_def split: option.splits prod.splits)

lemma callbacks_after:
  "usb_cdc_net_start E a c s = Inr (x, s1) \<Longrightarrow> net_callbacks s = None \<and> net_callbacks s1 \<noteq> None"
  "usb_eth_bridge_start E a p s = Inr (y, s1) \<Longrightarrow> net_callbacks s = None \<and> net_callbacks s1 \<noteq> None"
proof -
  show "usb_cdc_net_start E a c s = Inr (x, s1) \<Longrightarrow> net_callbacks s = None \<and> net_callbacks s1 \<noteq> None"
    using usb_cdc_net_start_Inr [of E a c s x s1] by auto
  show "usb_eth_bridge_start E a p s = Inr (y, s1) \<Longrightarrow> net_callbacks s = None \<and> net_callbacks s1 \<noteq> None"
    by (cases "rhs_hal_usb_set_interface (usb_of E) (Some BridgeUsbDesc) (usb_state s)")
      (auto simp: usb_eth_bridge_start_def tud_net_dispatch_set_def rbind_eq_Inr Let_def)
qed

section \<open>Properties\<close>


text \<open>C34: Stopping the bridge never returns while a frame from Ethernet waits and the USB stack has no place any more, as after the host
  has gone: the thread waits for place without looking at \<open>finish\<close>, however many rounds of the stack are run.\<close>

theorem usb_eth_bridge_stop_hangs:
  assumes "\<And>u len. gone u \<Longrightarrow> \<not> tud_network_can_xmit (tudn A) len u \<and> gone (snd (tud_net_task (tudn A) u)) \<and>
      gone (tud_network_recv_renew (tudn A) u)"
    and "gone (usb_stack io)" and "eth_frames io @ t_new r = f # fs" and "f \<noteq> []"
  shows "usb_eth_bridge_stop E (A\<lparr>xmit_polls := n\<rparr>) (r # rs) a (Some b) io s = (Inl Blocked, Inl Blocked)"
proof -
  let ?A = "A\<lparr>xmit_polls := n\<rparr>"
  have g: "gone (usb_stack (bridge_task ?A t))" if "gone (usb_stack t)" for t
  proof -
    obtain fs u where fu: "tud_net_task (tudn A) (usb_stack t) = (fs, u)" by fastforce
    then have "gone u" using assms(1) [OF that] by simp
    then have "gone (usb_stack (fold (bridge_deliver ?A) fs (t\<lparr>usb_stack := u\<rparr>)))"
      by (intro deliver_gone [of gone ?A]) (use assms(1) in auto)
    then show ?thesis by (simp add: bridge_task_def fu)
  qed
  let ?s1 = "bridge_link ?A (t_now r) (io\<lparr>ops := None, finish := True, eth_frames := eth_frames io @ t_new r\<rparr>)"
  have e: "eth_frames ?s1 = f # fs" using assms(3) by simp
  have "wait_xmit n (\<lambda>s. tud_network_can_xmit (tudn ?A) (of_nat (length f)) (usb_stack s)) (bridge_task ?A) ?s1 = Inl Blocked"
    by (rule wait_xmit_never [of "\<lambda>t. gone (usb_stack t)"]) (use assms(1,2) g in auto)
  then have "bridge_forward ?A (t_late r) ?s1 = Inl Blocked"
    using e assms(4) by (subst bridge_forward.simps) (simp add: Let_def)
  then show ?thesis
    by (simp add: usb_eth_bridge_stop_def bridge_join_def tud_net_dispatch_clear_def bridge_round_def)
qed


section \<open>An example\<close>

text \<open>A stack with the frames that the host will send next, those taken for it and those delivered; without place when it is \<open>off\<close>.\<close>

record host =
  inbox :: "u8 list list"
  taken :: "u8 list list"
  handed :: "u8 list list"
  off :: bool

definition host_tud :: "host tud_net" where
  "host_tud = \<lparr>tud_ready = (\<lambda>u. \<not> off u), tud_inited = (\<lambda>u. True), tud_connected = (\<lambda>u. \<not> off u),
     tud_network_can_xmit = (\<lambda>len u. \<not> off u), tud_network_xmit = (\<lambda>f u. u\<lparr>taken := taken u @ [f]\<rparr>),
     tud_network_recv_renew = (\<lambda>u. u), tud_net_task = (\<lambda>u. (inbox u, u\<lparr>inbox := [], handed := handed u @ inbox u\<rparr>))\<rparr>"

definition host_tud_on :: "host tud_net" where
  "host_tud_on = host_tud\<lparr>tud_network_can_xmit := (\<lambda>len u. True)\<rparr>"

definition demo_bridge_api :: "(host, u8 list list) bridge_api" where
  "demo_bridge_api = \<lparr>tudn = host_tud_on, eth_poll = Some (\<lambda>t e. (True, e)), eth_tx = (\<lambda>f e. e @ [f]), xmit_polls = 2\<rparr>"

interpretation host: usb_net_stack host_tud_on taken handed
  by unfold_locales (simp_all add: host_tud_on_def host_tud_def)

interpretation eth_demo: eth_bridge demo_bridge_api taken handed "\<lambda>e. e"
proof -
  have "usb_net_stack (tudn demo_bridge_api) taken handed" using host.usb_net_stack_axioms by (simp add: demo_bridge_api_def)
  then show "eth_bridge demo_bridge_api taken handed (\<lambda>e. e)"
    by (rule eth_bridge.intro) (unfold_locales, auto simp: demo_bridge_api_def)
qed

definition demo_io :: "(host, u8 list list) bridge_io" where
  "demo_io = \<lparr>eth_frames = [[1, 2]], usb_stack = \<lparr>inbox = [[7]], taken = [], handed = [], off = False\<rparr>, eth_mac = [],
     link_up = True, last_1s = 0, finish = False, ops = Some (BridgeOps 7)\<rparr>"

definition demo_turn :: bridge_turn where
  "demo_turn = \<lparr>t_now = 5, t_new = [[3]], t_late = [], t_finish = False\<rparr>"

lemma demo_room: "room_within demo_bridge_api"
  by (simp add: room_within_def demo_bridge_api_def host_tud_on_def numeral_2_eq_2)


definition gone_host :: host where
  "gone_host = \<lparr>inbox = [], taken = [], handed = [], off = True\<rparr>"

lemma usb_eth_bridge_stop_hangs_witness:
  "usb_eth_bridge_stop demo_drv (demo_bridge_api\<lparr>tudn := host_tud, xmit_polls := 1000\<rparr>) [demo_turn] 7
     (Some \<lparr>prev_usb_intf = None, eth_drv_data = (1, 2)\<rparr>) (demo_io\<lparr>usb_stack := gone_host\<rparr>)
     \<lparr>blocks = {}, usb_state = (None, gone_host), net_callbacks = Some (BridgeOps 7), eth = eth demo_net_sys\<rparr> = (Inl Blocked, Inl Blocked)"
  using usb_eth_bridge_stop_hangs [where gone = off and A = "demo_bridge_api\<lparr>tudn := host_tud\<rparr>" and n = 1000 and r = demo_turn
      and rs = "[]" and io = "demo_io\<lparr>usb_stack := gone_host\<rparr>" and f = "[1, 2]" and fs = "[[3]]"]
  by (simp add: host_tud_def gone_host_def demo_io_def demo_turn_def)

lemma demo_bridge_starts: "\<exists>y s1. usb_eth_bridge_start (demo_drv :: (string list, nat) drv_env) 7 None demo_net_sys = Inr (y, s1)"
proof -
  let ?E = "demo_drv :: (string list, nat) drv_env"
  have "\<exists>h. rhs_hal_eth_init (reg_polls ?E) (bits ?E) (settle_regs ?E) (eth demo_net_sys) = Inr h"
    by (simp add: rhs_hal_eth_init_def demo_drv_def demo_net_sys_def Let_def)
  then show ?thesis
    by (auto simp: usb_eth_bridge_start_def tud_net_dispatch_set_def Let_def split: prod.splits)
qed


end
