(* ===== verification/Net_Client.thy ===== *)
theory Net_Client
  imports Net_Worker Message_Queue Event_Flag
begin

text \<open>
  The calls of the network manager (applications/services/net/net.c) for other threads: each
  puts a message into the queue of the manager's thread, most with a lock on which the caller
  then waits. The queue and the locks are those of the core; the thread takes one message in
  each turn. The lemmas compose them: a call from another thread returns once the thread has
  worked off the queue, and which calls of the thread itself never return.
\<close>

section \<open>The calls\<close>

type_synonym net_msg = "net_event \<times> nat option"

record 'm net_world =
  worker :: "'m net"
  queue :: "net_msg queue_obj"
  locks :: "event_group heap"

text \<open>\<open>lock_at\<close> is the address of the next lock.\<close>

record 'm client_env =
  loop :: "'m net_env"
  queues :: "net_msg queue_api"
  events :: event_api
  lock_at :: "event_group heap \<Rightarrow> nat"

definition new_lock :: "'m client_env \<Rightarrow> ctx \<Rightarrow> 'm net_world \<Rightarrow> (nat \<times> 'm net_world) res" where
  "new_lock C c w = rbind (api_lock_alloc_locked (events C) c) (\<lambda>g.
     let l = lock_at C (locks w) in Inr (l, w\<lparr>locks := (locks w)(l \<mapsto> g)\<rparr>))"

text \<open>The status of the queue is not looked at.\<close>

definition post :: "'m client_env \<Rightarrow> ctx \<Rightarrow> net_msg \<Rightarrow> 'm net_world \<Rightarrow> 'm net_world res" where
  "post C c msg w =
     rbind (rhs_message_queue_put (queues C) c (queue w) (Some msg) RHSWaitForever) (\<lambda>(_, _, q). Inr (w\<lparr>queue := q\<rparr>))"

definition await :: "'m client_env \<Rightarrow> ctx \<Rightarrow> nat \<Rightarrow> 'm net_world \<Rightarrow> 'm net_world res" where
  "await C c l w =
     rbind (hget (locks w) l) (\<lambda>g. rbind (api_lock_wait_unlock_and_free (events C) c g) (\<lambda>_.
     Inr (w\<lparr>locks := (locks w)(l := None)\<rparr>)))"

text \<open>
  \<open>others\<close> is what the other threads do between the message and the wait, and \<open>own\<close> says whether the
  caller is the manager's thread.
\<close>

definition locked_call ::
  "'m client_env \<Rightarrow> ctx \<Rightarrow> ('m net_world \<Rightarrow> 'm net_world res) \<Rightarrow> net_event \<Rightarrow> 'm net_world \<Rightarrow> 'm net_world res" where
  "locked_call C c others e w =
     rbind (new_lock C c w) (\<lambda>(l, w1). rbind (post C c (e, Some l) w1) (\<lambda>w2. rbind (others w2) (await C c l)))"

definition call_of ::
  "'m client_env \<Rightarrow> ctx \<Rightarrow> ('m net_world \<Rightarrow> 'm net_world res) \<Rightarrow> bool \<Rightarrow> net_event \<Rightarrow> 'm net_world \<Rightarrow> 'm net_world res" where
  "call_of C c others own e w = (if \<not> own then locked_call C c others e w else post C c (e, None) w)"

definition net_start_http where
  "net_start_http C c others uri fn cx = locked_call C c others (NetApiEventTypeSetHttp uri fn cx)"

definition net_start_listener where
  "net_start_listener C c others own uri fn cx = call_of C c others own (NetApiEventTypeSetTcp uri fn cx)"

definition net_stop_listener where
  "net_stop_listener C c others own uri = call_of C c others own (NetApiEventTypeRstTcp uri)"

definition net_set_config where
  "net_set_config C c others own ip msk gateway = call_of C c others own (NetApiEventTypeRestart ip msk gateway)"

definition net_stop where
  "net_stop C c = post C c (NetApiEventTypeStop, None)"

section \<open>The command\<close>

text \<open>
  The command of the manager runs in the thread of the command line. \<open>cfg\<close> are the texts of its configuration; the
  reply is what it prints.
\<close>

datatype net_reply = NetStatus u32 u32 u32 | InvalidArgument | InvalidAddress | NetRestarted | AddressChanged u32 u32 u32 u32

fun strchr_blank :: "string \<Rightarrow> string option" where
  "strchr_blank [] = None"
| "strchr_blank (ch # t) = (if ch = CHR '' '' then Some t else strchr_blank t)"

definition net_cli_command ::
  "'m client_env \<Rightarrow> ctx \<Rightarrow> ('m net_world \<Rightarrow> 'm net_world res) \<Rightarrow> string option \<Rightarrow> string \<times> string \<times> string \<Rightarrow> 'm net_world \<Rightarrow>
     (net_reply \<times> (string \<times> string \<times> string) \<times> 'm net_world) res" where
  "net_cli_command C c others args cfg w = (case cfg of (ip, msk, gateway) \<Rightarrow> case args of
     None \<Rightarrow> Inr (NetStatus (if_ip (mgr (worker w))) (if_mask (mgr (worker w))) (if_gw (mgr (worker w))), cfg, w)
   | Some a \<Rightarrow> (case strchr_blank a of
       None \<Rightarrow> if take 9 a = ''--restart'' then
           rbind (net_set_config C c others False ip msk gateway w) (\<lambda>w1. Inr (NetRestarted, cfg, w1))
         else Inr (InvalidArgument, cfg, w)
     | Some t \<Rightarrow>
         if t = [] then
           (if take 9 a = ''--restart'' then
              rbind (net_set_config C c others False ip msk gateway w) (\<lambda>w1. Inr (NetRestarted, cfg, w1))
            else Inr (InvalidArgument, cfg, w))
         else if take 4 a = ''--ip'' then
           (case string_to_ip (Some t) (Some (0, 0, 0, 0)) of
              (r, Some (x, y, z, v)) \<Rightarrow>
                if r = 0 then
                  (case snd (ip_to_string x y z v (Some ip)) of
                     None \<Rightarrow> Inl OutOfBounds
                   | Some ip1 \<Rightarrow> rbind (net_set_config C c others False ip1 msk gateway w) (\<lambda>w1.
                       Inr (AddressChanged x y z v, (ip1, msk, gateway), w1)))
                else Inr (InvalidAddress, cfg, w)
            | (r, None) \<Rightarrow> Inr (InvalidAddress, cfg, w))
         else Inr (InvalidArgument, cfg, w)))"

text \<open>An address that is typed is stored in its plain form and sent to the thread with the rest of the configuration.\<close>

lemma net_cli_sets_address:
  assumes "address_text t (x, y, z, v)"
  shows "net_cli_command C c others (Some (''--ip '' @ t)) (ip, msk, gateway) w =
    rbind (net_set_config C c others False (ip_text x y z v) msk gateway w) (\<lambda>w1.
      Inr (AddressChanged x y z v, (ip_text x y z v, msk, gateway), w1))"
proof -
  have "t \<noteq> []" "x \<le> 255" "y \<le> 255" "z \<le> 255" "v \<le> 255" using assms by (auto simp: address_text_def octet_text_def)
  then have "t \<noteq> []" "\<not> 255 < x" "\<not> 255 < y" "\<not> 255 < z" "\<not> 255 < v" by (simp_all add: not_less)
  then show ?thesis using string_to_ip_complete [OF assms]
    by (simp add: net_cli_command_def ip_to_string_def)
qed

section \<open>Turns of the thread\<close>

fun unlock_all :: "event_api \<Rightarrow> ctx \<Rightarrow> nat list \<Rightarrow> event_group heap \<Rightarrow> event_group heap res" where
  "unlock_all V c [] h = Inr h"
| "unlock_all V c (l # ls) h =
     rbind (hget h l) (\<lambda>g. rbind (api_lock_unlock V c g) (\<lambda>(_, _, g'). unlock_all V c ls (h(l \<mapsto> g'))))"

text \<open>A turn: a poll and at most one message, whose lock is unlocked afterwards.\<close>

definition net_turn :: "'m client_env \<Rightarrow> ctx \<Rightarrow> 'm net_world \<Rightarrow> (bool \<times> 'm net_world) res" where
  "net_turn C c w =
     rbind (rhs_message_queue_get (queues C) c (queue w) True 0) (\<lambda>(st, m, _, q).
     rbind (net_loop (loop C) [if st = RHSStatusOk then m else None] ((worker w)\<lparr>unlocked := []\<rparr>)) (\<lambda>(stopped, n).
     rbind (unlock_all (events C) c (unlocked n) (locks w)) (\<lambda>h.
     Inr (stopped, \<lparr>worker = n, queue = q, locks = h\<rparr>))))"

fun net_turns :: "nat \<Rightarrow> 'm client_env \<Rightarrow> ctx \<Rightarrow> 'm net_world \<Rightarrow> 'm net_world res" where
  "net_turns 0 C c w = Inr w"
| "net_turns (Suc n) C c w =
     rbind (net_turn C c w) (\<lambda>(stopped, w1). if stopped then Inr w1 else net_turns n C c w1)"

section \<open>Lemmas\<close>

definition task_level :: "ctx \<Rightarrow> bool" where
  "task_level c \<longleftrightarrow> \<not> rhs_kernel_is_irq_or_masked c \<and> \<not> RHS_IS_IRQ_MODE c"

text \<open>A lock of a message that waits in the queue is allocated and nobody waits for it in a way that clears it.\<close>

definition lock_ready :: "event_group heap \<Rightarrow> nat option \<Rightarrow> bool" where
  "lock_ready h lk \<longleftrightarrow> (\<forall>l. lk = Some l \<longrightarrow> (\<exists>g. h l = Some g \<and> \<not> clearing_waiter g))"

definition unlocked_by :: "nat option \<Rightarrow> event_group heap \<Rightarrow> event_group heap" where
  "unlocked_by lk h = (case lk of None \<Rightarrow> h | Some l \<Rightarrow>
     h(l := map_option (\<lambda>g. g\<lparr>event_bits := event_bits g OR API_LOCK_EVENT\<rparr>) (h l)))"

lemma lock_ready_unlocked: "lock_ready h k \<Longrightarrow> lock_ready (unlocked_by lk h) k"
  by (auto simp: lock_ready_def unlocked_by_def split: option.split)

definition is_open :: "event_group heap \<Rightarrow> nat \<Rightarrow> bool" where
  "is_open h l \<longleftrightarrow> (\<exists>g. h l = Some g \<and> event_bits g AND API_LOCK_EVENT \<noteq> 0)"

lemma or_open: "(x OR API_LOCK_EVENT) AND API_LOCK_EVENT \<noteq> 0"
proof -
  have "bit ((x OR API_LOCK_EVENT) AND API_LOCK_EVENT) 0" by (simp add: API_LOCK_EVENT_def bit_simps)
  then show ?thesis by (metis bit_0_eq bot_apply bot_bool_def)
qed

lemma is_open_unlocked:
  "is_open h l \<Longrightarrow> is_open (unlocked_by lk h) l"
  "lock_ready h (Some l) \<Longrightarrow> is_open (unlocked_by (Some l) h) l"
  using or_open by (auto simp: is_open_def unlocked_by_def lock_ready_def split: option.split)

lemma put_room:
  assumes "rtos_queue A" and "task_level c" and "\<not> full q"
  shows "rhs_message_queue_put A c q (Some m) t = Inr (RHSStatusOk, False, q\<lparr>items := items q @ [m]\<rparr>)"
  using assms(2) rtos_queue.send_room [OF assms(1,3)] by (simp add: rhs_message_queue_put_def task_level_def)

lemma get_message:
  assumes "rtos_queue A" and "task_level c" and "items q = m # ms"
  shows "rhs_message_queue_get A c q True 0 = Inr (RHSStatusOk, Some m, False, q\<lparr>items := ms\<rparr>)"
  using assms(2) rtos_queue.receive_some [OF assms(1,3)] by (simp add: rhs_message_queue_get_def task_level_def)

lemma unlock_message:
  assumes "rtos_event_group V" and "task_level c" and "lock_ready h lk"
  shows "unlock_all V c (case lk of None \<Rightarrow> [] | Some l \<Rightarrow> [l]) h = Inr (unlocked_by lk h)"
proof (cases lk)
  case (Some l)
  then obtain g where g: "h l = Some g" "\<not> clearing_waiter g" using assms(3) by (auto simp: lock_ready_def)
  then have "api_lock_unlock V c g = Inr (event_bits g OR API_LOCK_EVENT, False, g\<lparr>event_bits := event_bits g OR API_LOCK_EVENT\<rparr>)"
    using assms(2) rtos_event_group.set_bits [OF assms(1) g(2)]
    by (simp add: api_lock_unlock_def rhs_event_flag_set_def task_level_def)
  then show ?thesis using Some g(1) by (simp add: unlocked_by_def)
qed (simp add: unlocked_by_def)

lemma await_open:
  assumes "rtos_event_group V" and "events C = V" and "task_level c" and "is_open (locks w) l"
  shows "await C c l w = Inr (w\<lparr>locks := (locks w)(l := None)\<rparr>)"
proof -
  obtain g where g: "locks w l = Some g" "event_bits g AND API_LOCK_EVENT \<noteq> 0" using assms(4) by (auto simp: is_open_def)
  then have "condition False API_LOCK_EVENT (event_bits g)" by (simp add: condition_def and.commute)
  from rtos_event_group.wait_met [OF assms(1) this, of True RHSWaitForever] g assms(2,3) show ?thesis
    by (simp add: await_def api_lock_wait_unlock_and_free_def api_lock_wait_unlock_def rhs_event_flag_wait_def api_lock_free_def
        rhs_event_flag_free_def task_level_def RHSFlagWaitAny_def RHSFlagNoClear_def RHSFlagWaitAll_def and.commute)
qed

lemma holds_unlocked: "holds E cap k (s\<lparr>unlocked := u\<rparr>) xs = holds E cap k s xs"
  by (simp add: holds_def)

lemma net_turn_message:
  assumes "rtos_queue (queues C)" and "rtos_event_group (events C)" and "task_level c"
    and "items (queue w) = (e, lk) # ms" and "e \<noteq> NetApiEventTypeStop" and "lock_ready (locks w) lk"
    and "holds (loop C) cap (Suc k) (worker w) xs"
  shows "\<exists>n. net_turn C c w = Inr (False, \<lparr>worker = n, queue = (queue w)\<lparr>items := ms\<rparr>, locks = unlocked_by lk (locks w)\<rparr>) \<and>
    (case spec_round (mg (loop C)) (Some (e, lk)) (mgr (worker w), xs) of (m, ys) \<Rightarrow> mgr n = m \<and> holds (loop C) cap k n ys)"
proof -
  let ?s0 = "(worker w)\<lparr>unlocked := [], mgr := mg_mgr_poll (mg (loop C)) (mgr (worker w))\<rparr>"
  have "holds (loop C) cap (Suc k) ?s0 xs" using assms(7) by (simp add: holds_def)
  then have "\<exists>s2. net_handle (loop C) e ?s0 = Inr s2 \<and> unlocked s2 = unlocked ?s0 \<and>
    (case spec_event (mg (loop C)) e (mgr ?s0, xs) of (m, ys) \<Rightarrow> mgr s2 = m \<and> holds (loop C) cap k s2 ys)"
    by (rule net_handle_holds [OF _ assms(5)])
  then obtain s2 where s2: "net_handle (loop C) e ?s0 = Inr s2" "unlocked s2 = unlocked ?s0"
    "case spec_event (mg (loop C)) e (mgr ?s0, xs) of (m, ys) \<Rightarrow> mgr s2 = m \<and> holds (loop C) cap k s2 ys"
    by (elim exE conjE) (rule that)
  have u: "unlocked s2 = []" using s2(2) by simp
  let ?n = "case lk of None \<Rightarrow> s2 | Some l \<Rightarrow> s2\<lparr>unlocked := [l]\<rparr>"
  have "net_loop (loop C) [Some (e, lk)] ((worker w)\<lparr>unlocked := []\<rparr>) = Inr (False, ?n)"
    using assms(5) s2(1) u by (cases lk) (simp_all add: Let_def)
  moreover have "unlocked ?n = (case lk of None \<Rightarrow> [] | Some l \<Rightarrow> [l])" using u by (cases lk) simp_all
  ultimately have "net_turn C c w = Inr (False, \<lparr>worker = ?n, queue = (queue w)\<lparr>items := ms\<rparr>, locks = unlocked_by lk (locks w)\<rparr>)"
    by (simp add: net_turn_def get_message [OF assms(1,3,4)] unlock_message [OF assms(2,3,6)])
  moreover have "case spec_round (mg (loop C)) (Some (e, lk)) (mgr (worker w), xs) of (m, ys) \<Rightarrow> mgr ?n = m \<and> holds (loop C) cap k ?n ys"
    using s2(3) by (cases lk) (simp_all add: spec_round_def holds_unlocked)
  ultimately show ?thesis by (intro exI [of _ ?n] conjI)
qed

text \<open>The thread works off all messages; a lock that one of them has is open at the end.\<close>

definition served :: "event_group heap \<Rightarrow> net_msg list \<Rightarrow> bool" where
  "served h ms \<longleftrightarrow> (\<forall>(e, lk)\<in>set ms. e \<noteq> NetApiEventTypeStop \<and> lock_ready h lk)"

lemma served_Cons [simp]: "served h ((e, lk) # ms) \<longleftrightarrow> e \<noteq> NetApiEventTypeStop \<and> lock_ready h lk \<and> served h ms"
  by (auto simp: served_def)

lemma served_unlocked: "served h ms \<Longrightarrow> served (unlocked_by lk h) ms"
  by (auto simp: served_def lock_ready_unlocked)

lemma net_turns_work_off:
  assumes "rtos_queue (queues C)" and "rtos_event_group (events C)" and "task_level c"
    and "served (locks w) (items (queue w))" and "holds (loop C) cap (length (items (queue w))) (worker w) xs"
  shows "\<exists>w'. net_turns (length (items (queue w))) C c w = Inr w' \<and> items (queue w') = [] \<and>
    (\<forall>l. is_open (locks w) l \<or> Some l \<in> snd ` set (items (queue w)) \<longrightarrow> is_open (locks w') l) \<and>
    (case fold (spec_round (mg (loop C))) (map Some (items (queue w))) (mgr (worker w), xs) of (m, ys) \<Rightarrow>
       mgr (worker w') = m \<and> holds (loop C) cap 0 (worker w') ys)"
  using assms(4,5)
proof (induction "items (queue w)" arbitrary: w xs)
  case Nil
  then show ?case by (cases "items (queue w)") auto
next
  case (Cons x ms)
  obtain e lk where x: "x = (e, lk)" by (cases x)
  have q: "items (queue w) = (e, lk) # ms" using Cons.hyps(2) x by simp
  have sv: "e \<noteq> NetApiEventTypeStop" "lock_ready (locks w) lk" "served (locks w) ms" using Cons.prems(1) q by simp_all
  have h: "holds (loop C) cap (Suc (length ms)) (worker w) xs" using Cons.prems(2) q by simp
  obtain m ys where my: "spec_round (mg (loop C)) (Some (e, lk)) (mgr (worker w), xs) = (m, ys)" by fastforce
  obtain n where n: "net_turn C c w = Inr (False, \<lparr>worker = n, queue = (queue w)\<lparr>items := ms\<rparr>, locks = unlocked_by lk (locks w)\<rparr>)"
    "mgr n = m" "holds (loop C) cap (length ms) n ys"
    using net_turn_message [OF assms(1-3) q sv(1,2) h] my by auto
  let ?w1 = "\<lparr>worker = n, queue = (queue w)\<lparr>items := ms\<rparr>, locks = unlocked_by lk (locks w)\<rparr>"
  have "served (locks ?w1) (items (queue ?w1))" using served_unlocked [OF sv(3)] by simp
  moreover have "holds (loop C) cap (length (items (queue ?w1))) (worker ?w1) ys" using n(3) by simp
  ultimately obtain w' where w': "net_turns (length ms) C c ?w1 = Inr w'" "items (queue w') = []"
    "\<forall>l. is_open (locks ?w1) l \<or> Some l \<in> snd ` set ms \<longrightarrow> is_open (locks w') l"
    "case fold (spec_round (mg (loop C))) (map Some ms) (m, ys) of (m, ys) \<Rightarrow> mgr (worker w') = m \<and> holds (loop C) cap 0 (worker w') ys"
    using Cons.hyps(1) [of ?w1 ys] n(2) by auto
  have "is_open (locks ?w1) l" if "is_open (locks w) l \<or> lk = Some l" for l
    using that is_open_unlocked sv(2) by auto
  then have "\<forall>l. is_open (locks w) l \<or> Some l \<in> snd ` set (items (queue w)) \<longrightarrow> is_open (locks w') l"
    using w'(3) unfolding q by auto
  moreover have "net_turns (length (items (queue w))) C c w = Inr w'" using n(1) w'(1) q by simp
  moreover have "fold (spec_round (mg (loop C))) (map Some (items (queue w))) (mgr (worker w), xs) =
      fold (spec_round (mg (loop C))) (map Some ms) (m, ys)" using q my by simp
  ultimately show ?case using w'(2,4) by (intro exI [of _ w']) simp
qed

section \<open>Properties\<close>


text \<open>C18: Two calls of the manager's thread itself never return, as nobody else takes messages and opens locks: starting an HTTP server always,
  since it waits for a lock that only the thread would open, and starting or removing a listener when the queue is full.\<close>

theorem net_own_call_deadlocks:
  assumes "rtos_queue (queues C)" and "rtos_event_group (events C)" and "task_level c"
    and "\<And>q m. full q \<Longrightarrow> xQueueSendToBack (queues C) q m RHSWaitForever = None"
    and "\<And>g. \<not> condition False API_LOCK_EVENT (event_bits g) \<Longrightarrow> xEventGroupWaitBits (events C) g API_LOCK_EVENT True False RHSWaitForever = None"
  shows "net_start_http C c Inr uri fn cx w = Inl Blocked \<and>
    (full (queue w) \<longrightarrow> net_start_listener C c Inr True uri fn cx w = Inl Blocked \<and> net_stop_listener C c Inr True uri w = Inl Blocked)"
proof -
  let ?l = "lock_at C (locks w)" and ?g = "\<lparr>event_bits = 0, deferred = [], clearing_waiter = False\<rparr>"
  let ?w1 = "w\<lparr>locks := (locks w)(?l \<mapsto> ?g)\<rparr>"
  have p: "full (queue v) \<Longrightarrow> post C c m v = Inl Blocked" for m v
    using assms(3,4) by (simp add: post_def rhs_message_queue_put_def task_level_def)
  have 1: "new_lock C c w = Inr (?l, ?w1)"
    using assms(3) by (simp add: new_lock_def api_lock_alloc_locked_def rhs_event_flag_alloc_def rtos_event_group.create [OF assms(2)]
        task_level_def Let_def)
  have "xEventGroupWaitBits (events C) ?g API_LOCK_EVENT True False RHSWaitForever = None"
    by (rule assms(5)) (simp add: condition_def API_LOCK_EVENT_def)
  then have a: "locks v ?l = Some ?g \<Longrightarrow> await C c ?l v = Inl Blocked" for v
    using assms(3) by (simp add: await_def api_lock_wait_unlock_and_free_def api_lock_wait_unlock_def rhs_event_flag_wait_def
        task_level_def RHSFlagWaitAny_def RHSFlagNoClear_def RHSFlagWaitAll_def)
  have "locked_call C c Inr e w = Inl Blocked" for e
  proof (cases "full (queue w)")
    case True
    then show ?thesis using 1 p [of ?w1] by (simp add: locked_call_def)
  next
    case False
    then have "post C c (e, Some ?l) ?w1 = Inr (?w1\<lparr>queue := (queue w)\<lparr>items := items (queue w) @ [(e, Some ?l)]\<rparr>\<rparr>)"
      using put_room [OF assms(1,3) False] by (simp add: post_def)
    then show ?thesis using 1 by (simp add: locked_call_def a)
  qed
  then show ?thesis using p by (simp add: net_start_http_def net_start_listener_def net_stop_listener_def call_of_def)
qed

section \<open>An example\<close>

definition demo_client :: "string list client_env" where
  "demo_client = \<lparr>loop = quiet_env, queues = list_queue, events = plain_events, lock_at = (\<lambda>h. case first_free 10 h of Some a \<Rightarrow> a | None \<Rightarrow> 0)\<rparr>"

definition demo_world :: "net_msg list \<Rightarrow> string list net_world" where
  "demo_world ms = \<lparr>worker = fresh_net, queue = \<lparr>items = ms, uxLength = 3, uxItemSize = 64\<rparr>, locks = Map.empty\<rparr>"

lemma demo_client_laws:
  "rtos_queue (queues demo_client)" "rtos_event_group (events demo_client)" "task_level task_ctx" "loop demo_client = quiet_env"
  using list_queue.rtos_queue_axioms plain_events.rtos_event_group_axioms by (simp_all add: demo_client_def task_level_def)


lemma net_own_call_deadlocks_witness:
  "net_start_http demo_client task_ctx Inr ''a'' 1 2 (demo_world []) = Inl Blocked"
  by (rule net_own_call_deadlocks [OF demo_client_laws(1-3), THEN conjunct1])
    (simp_all add: demo_client_def list_queue_def alone_def plain_events_def)

end
