(* ===== verification/Speaker.thy ===== *)
theory Speaker
  imports Mutex Complex_Main
begin

text \<open>
  The speaker of hal/rhs_hal_speaker/rhs_hal_speaker.c: a timer whose output drives it, for the
  three chips that have one, and a mutex that gives it to one task at a time. The single
  precision arithmetic and the vendor's timer functions are parameters; the locale
  \<open>single_floats\<close> states what the bounds need of the arithmetic.
\<close>

section \<open>Single precision\<close>

text \<open>\<open>f_to_u32\<close> is the conversion to an integer, without a value where C leaves it undefined; \<open>f_hundredths\<close> a literal.\<close>

record 'f float_api =
  f_of_u32 :: "u32 \<Rightarrow> 'f"
  f_to_u32 :: "'f \<Rightarrow> u32 option"
  f_less :: "'f \<Rightarrow> 'f \<Rightarrow> bool"
  f_sub :: "'f \<Rightarrow> 'f \<Rightarrow> 'f"
  f_mul :: "'f \<Rightarrow> 'f \<Rightarrow> 'f"
  f_div :: "'f \<Rightarrow> 'f \<Rightarrow> 'f"
  f_hundredths :: "nat \<Rightarrow> 'f"

text \<open>
  The laws are those of rounding to the nearest value, as far as the volume needs them: small
  integers are exact, a comparison is exact, the product of a number between 0 and 1 and one
  between 0 and a small integer stays between them, halving such a number does not increase it and
  a conversion rounds down.
\<close>

locale single_floats =
  fixes F :: "'f float_api" and val :: "'f \<Rightarrow> real"
  assumes of_u32: "unat n < 2 ^ 24 \<Longrightarrow> val (f_of_u32 F n) = of_nat (unat n)"
    and less: "f_less F a b \<longleftrightarrow> val a < val b"
    and mul_range: "0 \<le> val a \<Longrightarrow> val a \<le> 1 \<Longrightarrow> 0 \<le> val b \<Longrightarrow> val b \<le> of_nat (unat n) \<Longrightarrow> unat n < 2 ^ 24 \<Longrightarrow>
        0 \<le> val (f_mul F a b) \<and> val (f_mul F a b) \<le> of_nat (unat n)"
    and half: "0 \<le> val a \<Longrightarrow> val a \<le> of_nat (unat n) \<Longrightarrow> unat n < 2 ^ 24 \<Longrightarrow>
        0 \<le> val (f_div F a (f_of_u32 F 2)) \<and> val (f_div F a (f_of_u32 F 2)) \<le> of_nat (unat n) / 2"
    and to_u32: "0 \<le> val a \<Longrightarrow> val a < 2 ^ 24 \<Longrightarrow> \<exists>n. f_to_u32 F a = Some n \<and> of_nat (unat n) \<le> val a"

section \<open>The timer\<close>

datatype chip = STM32F765xx | STM32F103 | STM32G0B1xx

text \<open>The vendor's functions report whether they succeeded.\<close>

record 'h tim_hal =
  HAL_TIM_Base_Init :: "u32 \<Rightarrow> u32 \<Rightarrow> 'h \<Rightarrow> bool \<times> 'h"
  HAL_TIM_ConfigClockSource :: "'h \<Rightarrow> bool \<times> 'h"
  HAL_TIM_PWM_Init :: "'h \<Rightarrow> bool \<times> 'h"
  HAL_TIMEx_MasterConfigSynchronization :: "'h \<Rightarrow> bool \<times> 'h"
  HAL_TIM_PWM_ConfigChannel :: "nat \<Rightarrow> 'h \<Rightarrow> bool \<times> 'h"
  HAL_TIM_MspPostInit :: "'h \<Rightarrow> 'h"
  TIM3_CLK_ENABLE :: "'h \<Rightarrow> 'h"

definition prescaler :: "chip \<Rightarrow> u32" where
  "prescaler c = (case c of STM32F765xx \<Rightarrow> 215 | STM32F103 \<Rightarrow> 71 | STM32G0B1xx \<Rightarrow> 63)"

definition crash_unless :: "bool \<times> 'h \<Rightarrow> 'h res" where
  "crash_unless r = (if fst r then Inr (snd r) else Inl (Crash ''Speaker init failed''))"

definition assert_ok :: "bool \<times> 'h \<Rightarrow> 'h res" where
  "assert_ok r = rhs_assert (fst r) (Inr (snd r))"

definition tim_init_F765 :: "'h tim_hal \<Rightarrow> 'h \<Rightarrow> 'h res" where
  "tim_init_F765 T h =
     rbind (crash_unless (HAL_TIM_Base_Init T (prescaler STM32F765xx) 376 h)) (\<lambda>h.
     rbind (crash_unless (HAL_TIM_ConfigClockSource T h)) (\<lambda>h.
     rbind (crash_unless (HAL_TIM_PWM_Init T h)) (\<lambda>h.
     rbind (crash_unless (HAL_TIM_PWM_ConfigChannel T 1 h)) (\<lambda>h.
     Inr (HAL_TIM_MspPostInit T h)))))"

definition tim_init_F103 :: "'h tim_hal \<Rightarrow> 'h \<Rightarrow> 'h res" where
  "tim_init_F103 T h =
     (let h1 = snd (HAL_TIM_Base_Init T (prescaler STM32F103) 376 (TIM3_CLK_ENABLE T h));
          h2 = snd (HAL_TIM_ConfigClockSource T h1);
          h3 = snd (HAL_TIM_PWM_Init T h2);
          h4 = snd (HAL_TIMEx_MasterConfigSynchronization T h3);
          h5 = snd (HAL_TIM_PWM_ConfigChannel T 2 h4) in
      Inr (HAL_TIM_MspPostInit T h5))"

definition tim_init_G0 :: "'h tim_hal \<Rightarrow> 'h \<Rightarrow> 'h res" where
  "tim_init_G0 T h =
     rbind (assert_ok (HAL_TIM_Base_Init T (prescaler STM32G0B1xx) 376 h)) (\<lambda>h.
     rbind (assert_ok (HAL_TIM_ConfigClockSource T h)) (\<lambda>h.
     rbind (assert_ok (HAL_TIM_PWM_Init T h)) (\<lambda>h.
     rbind (assert_ok (HAL_TIMEx_MasterConfigSynchronization T h)) (\<lambda>h.
     rbind (assert_ok (HAL_TIM_PWM_ConfigChannel T 2 h)) (\<lambda>h.
     Inr (HAL_TIM_MspPostInit T h))))))"

definition tim_init :: "chip \<Rightarrow> 'h tim_hal \<Rightarrow> 'h \<Rightarrow> 'h res" where
  "tim_init c = (case c of STM32F765xx \<Rightarrow> tim_init_F765 | STM32F103 \<Rightarrow> tim_init_F103 | STM32G0B1xx \<Rightarrow> tim_init_G0)"

section \<open>The speaker\<close>

text \<open>The reload and compare registers of the timer and whether its output runs.\<close>

record ('t, 'h) speaker =
  speaker_mutex :: "'t mutex_obj option"
  ARR :: u32
  CCR :: u32
  running :: bool
  tim :: 'h

record ('f, 't, 'h) speaker_env =
  floats :: "'f float_api"
  smx :: "'t mutex_api"
  tim_api :: "'h tim_hal"
  on_chip :: chip
  SystemCoreClock :: u32

definition rhs_hal_speaker_init :: "('f, 't, 'h) speaker_env \<Rightarrow> ctx \<Rightarrow> ('t, 'h) speaker \<Rightarrow> ('t, 'h) speaker res" where
  "rhs_hal_speaker_init E c s =
     rhs_assert (speaker_mutex s = None)
       (rbind (tim_init (on_chip E) (tim_api E) (tim s)) (\<lambda>h.
        rbind (rhs_mutex_alloc (smx E) c RHSMutexTypeNormal) (\<lambda>m.
        Inr (s\<lparr>tim := h, speaker_mutex := Some m, ARR := 376\<rparr>))))"

definition rhs_hal_speaker_deinit :: "('f, 't, 'h) speaker_env \<Rightarrow> ctx \<Rightarrow> ('t, 'h) speaker \<Rightarrow> ('t, 'h) speaker res" where
  "rhs_hal_speaker_deinit E c s =
     rhs_assert (speaker_mutex s \<noteq> None)
       (rbind (rhs_mutex_free c (speaker_mutex s)) (\<lambda>_. Inr (s\<lparr>speaker_mutex := None\<rparr>)))"

definition rhs_hal_speaker_calculate_autoreload :: "('f, 't, 'h) speaker_env \<Rightarrow> 'f \<Rightarrow> u32 res" where
  "rhs_hal_speaker_calculate_autoreload E frequency =
     (let F = floats E in
      case f_to_u32 F (f_sub F (f_div F (f_of_u32 F (SystemCoreClock E div prescaler (on_chip E))) frequency) (f_of_u32 F 1)) of
        None \<Rightarrow> Inl OutOfBounds
      | Some autoreload \<Rightarrow> Inr (if autoreload < 2 then 2 else if autoreload > 65535 then 65535 else autoreload))"

definition clamp_volume :: "'f float_api \<Rightarrow> 'f \<Rightarrow> 'f" where
  "clamp_volume F volume =
     (let v = (if f_less F volume (f_of_u32 F 0) then f_of_u32 F 0 else volume) in
      if f_less F (f_of_u32 F 1) v then f_of_u32 F 1 else v)"

definition rhs_hal_speaker_calculate_compare :: "'f float_api \<Rightarrow> u32 \<Rightarrow> 'f \<Rightarrow> u32 res" where
  "rhs_hal_speaker_calculate_compare F arr volume =
     (let v = clamp_volume F volume;
          cube = f_mul F (f_mul F v v) v in
      case f_to_u32 F (f_div F (f_mul F cube (f_of_u32 F arr)) (f_of_u32 F 2)) of
        None \<Rightarrow> Inl OutOfBounds
      | Some compare_value \<Rightarrow> Inr (if compare_value = 0 then 1 else compare_value))"

definition the_mutex :: "('t, 'h) speaker \<Rightarrow> 't mutex_obj res" where
  "the_mutex s = (case speaker_mutex s of None \<Rightarrow> Inl OutOfBounds | Some m \<Rightarrow> Inr m)"

definition rhs_hal_speaker_acquire ::
  "('f, 't, 'h) speaker_env \<Rightarrow> ctx \<Rightarrow> 't \<Rightarrow> u32 \<Rightarrow> ('t, 'h) speaker \<Rightarrow> (bool \<times> ('t, 'h) speaker) res" where
  "rhs_hal_speaker_acquire E c me timeout s =
     rhs_assert (\<not> RHS_IS_IRQ_MODE c)
       (rbind (the_mutex s) (\<lambda>m.
        rbind (rhs_mutex_acquire (smx E) c me m timeout) (\<lambda>(r, m'). Inr (r = RHSStatusOk, s\<lparr>speaker_mutex := Some m'\<rparr>))))"

definition rhs_hal_speaker_is_mine :: "('f, 't, 'h) speaker_env \<Rightarrow> ctx \<Rightarrow> 't \<Rightarrow> ('t, 'h) speaker \<Rightarrow> bool res" where
  "rhs_hal_speaker_is_mine E c me s =
     (if RHS_IS_IRQ_MODE c then Inr True
      else rbind (the_mutex s) (\<lambda>m. Inr (rhs_mutex_get_owner (smx E) c m = Some me)))"

definition rhs_hal_speaker_stop :: "('t, 'h) speaker \<Rightarrow> ('t, 'h) speaker" where
  "rhs_hal_speaker_stop s = s\<lparr>running := False\<rparr>"

definition rhs_hal_speaker_release :: "('f, 't, 'h) speaker_env \<Rightarrow> ctx \<Rightarrow> 't \<Rightarrow> ('t, 'h) speaker \<Rightarrow> ('t, 'h) speaker res" where
  "rhs_hal_speaker_release E c me s =
     rhs_assert (\<not> RHS_IS_IRQ_MODE c)
       (rbind (rhs_hal_speaker_is_mine E c me s) (\<lambda>mine. rhs_assert mine
         (let s1 = rhs_hal_speaker_stop s in
          rbind (the_mutex s1) (\<lambda>m.
          rbind (rhs_mutex_release (smx E) c me m) (\<lambda>(r, m').
          rhs_assert (r = RHSStatusOk) (Inr (s1\<lparr>speaker_mutex := Some m'\<rparr>)))))))"

definition rhs_hal_speaker_start :: "('f, 't, 'h) speaker_env \<Rightarrow> 'f \<Rightarrow> 'f \<Rightarrow> ('t, 'h) speaker \<Rightarrow> ('t, 'h) speaker res" where
  "rhs_hal_speaker_start E frequency volume s =
     rbind (rhs_hal_speaker_calculate_autoreload E frequency) (\<lambda>period.
     rbind (rhs_hal_speaker_calculate_compare (floats E) period volume) (\<lambda>compare.
     Inr (s\<lparr>ARR := period, CCR := compare, running := True\<rparr>)))"

section \<open>Lemmas\<close>

lemma autoreload_range:
  "rhs_hal_speaker_calculate_autoreload E f = Inr a \<Longrightarrow> 2 \<le> a \<and> a \<le> 65535"
  by (auto simp: rhs_hal_speaker_calculate_autoreload_def Let_def not_less split: option.splits)

context single_floats begin

lemma clamp_range: "0 \<le> val (clamp_volume F v) \<and> val (clamp_volume F v) \<le> 1"
  using of_u32 [of 0] of_u32 [of 1] by (auto simp: clamp_volume_def Let_def less not_less)

lemma compare_range:
  assumes "arr \<le> 65535"
  shows "\<exists>c. rhs_hal_speaker_calculate_compare F arr v = Inr c \<and> 1 \<le> c \<and> unat c \<le> max 1 (unat arr div 2)"
proof -
  let ?v = "clamp_volume F v"
  have one: "unat (1 :: u32) < 2 ^ 24" by simp
  have arr: "unat arr \<le> 65535" using assms by (simp add: word_le_nat_alt)
  then have small: "unat arr < 2 ^ 24" by simp
  have v: "0 \<le> val ?v" "val ?v \<le> 1" "val ?v \<le> of_nat (unat (1 :: u32))" using clamp_range by auto
  have sq: "0 \<le> val (f_mul F ?v ?v)" "val (f_mul F ?v ?v) \<le> 1" using mul_range [OF v(1,2) v(1) v(3) one] by auto
  have cube: "0 \<le> val (f_mul F (f_mul F ?v ?v) ?v)" "val (f_mul F (f_mul F ?v ?v) ?v) \<le> 1"
    using mul_range [OF sq v(1) v(3) one] by auto
  let ?p = "f_mul F (f_mul F (f_mul F ?v ?v) ?v) (f_of_u32 F arr)"
  have p: "0 \<le> val ?p" "val ?p \<le> of_nat (unat arr)"
    using mul_range [OF cube, of "f_of_u32 F arr" arr] of_u32 [OF small] small of_nat_0_le_iff [of "unat arr", where ?'a = real] by auto
  let ?q = "f_div F ?p (f_of_u32 F 2)"
  have q: "0 \<le> val ?q" "val ?q \<le> of_nat (unat arr) / 2" using half [OF p small] by auto
  moreover have "(of_nat (unat arr) :: real) \<le> 65535" using arr by (simp del: of_nat_unat)
  ultimately have "val ?q < 2 ^ 24" by simp
  then obtain n where n: "f_to_u32 F ?q = Some n" "of_nat (unat n) \<le> val ?q" using to_u32 q(1) by blast
  then have "of_nat (unat n) \<le> (of_nat (unat arr) / 2 :: real)" using q(2) by linarith
  then have "unat n \<le> unat arr div 2" by linarith
  moreover have "Suc 0 \<le> unat n" if "n \<noteq> 0" using that by (simp add: Suc_le_eq unat_gt_0)
  ultimately show ?thesis using n(1)
    by (cases "n = 0") (auto simp: rhs_hal_speaker_calculate_compare_def Let_def max_def word_le_nat_alt)
qed

end

section \<open>Properties\<close>

text \<open>C36: Whenever the period of a tone is defined at all, it is between 2 and 65535 and the tone starts; its compare value is at least 1
  and at most half of the period, so the output toggles, whatever volume is asked for.\<close>

theorem speaker_duty:
  assumes "single_floats (floats E) val" and "rhs_hal_speaker_calculate_autoreload E freq = Inr a"
  shows "\<exists>s'. rhs_hal_speaker_start E freq vol s = Inr s' \<and> 2 \<le> ARR s' \<and> ARR s' \<le> 65535 \<and> 1 \<le> CCR s' \<and>
     unat (CCR s') \<le> max 1 (unat (ARR s') div 2) \<and> running s' \<and> speaker_mutex s' = speaker_mutex s"
proof -
  have a: "2 \<le> a" "a \<le> 65535" using autoreload_range [OF assms(2)] by auto
  then show ?thesis using single_floats.compare_range [OF assms(1) a(2), of vol] assms(2)
    by (auto simp: rhs_hal_speaker_start_def)
qed

text \<open>
  Exact arithmetic, for the examples. The conversion truncates, and is undefined outside of the range.
\<close>

definition exact_floats :: "real float_api" where
  "exact_floats = \<lparr>f_of_u32 = (\<lambda>n. of_nat (unat n)),
     f_to_u32 = (\<lambda>x. if 0 \<le> x \<and> x < 2 ^ 32 then Some (of_nat (nat \<lfloor>x\<rfloor>)) else None),
     f_less = (<), f_sub = (-), f_mul = (*), f_div = (/), f_hundredths = (\<lambda>n. of_nat n / 100)\<rparr>"

interpretation exact: single_floats exact_floats "\<lambda>x. x"
proof (unfold_locales, goal_cases)
  case (3 a b n)
  have "a * b \<le> 1 * b" using 3 by (intro mult_right_mono) auto
  then show ?case using 3 by (auto simp: exact_floats_def)
next
  case (4 a n)
  then show ?case by (auto simp: exact_floats_def)
next
  case (5 a)
  obtain k where k: "\<lfloor>a\<rfloor> = int k" using 5(1) by (metis nonneg_int_cases zero_le_floor)
  then have "of_nat k \<le> a" "k < 2 ^ 24" using 5 by (simp_all add: floor_eq_iff)
  moreover from this have "unat (of_nat k :: u32) = k" by (simp add: unat_of_nat)
  ultimately show ?case using 5 k by (auto simp: exact_floats_def simp del: of_nat_unat)
qed (simp_all add: exact_floats_def)

text \<open>
  The period of a tone counts the clock of the timer as if the prescaler divided by its value, while it divides by one more:
  even in exact arithmetic, the tone that sounds has \<open>prescaler + 1\<close> times the clocks per tick and so \<open>prescaler / (prescaler + 1)\<close>
  of its frequency.
\<close>

definition sounding_clocks :: "chip \<Rightarrow> u32 \<Rightarrow> nat" where
  "sounding_clocks c a = (unat (prescaler c) + 1) * (unat a + 1)"

lemma tone_is_flat:
  assumes "floats E = exact_floats" and "0 < f" and "unat (SystemCoreClock E) = unat (prescaler (on_chip E)) * f * n"
    and "3 \<le> n" and "n \<le> 65536"
  shows "\<exists>a. rhs_hal_speaker_calculate_autoreload E (of_nat f) = Inr a \<and> unat a = n - 1 \<and>
    unat (prescaler (on_chip E)) * (f * sounding_clocks (on_chip E) a) = (unat (prescaler (on_chip E)) + 1) * unat (SystemCoreClock E)"
proof -
  let ?P = "prescaler (on_chip E)"
  have P: "0 < unat ?P" by (cases "on_chip E") (simp_all add: prescaler_def)
  have "unat (SystemCoreClock E div ?P) = f * n" using P assms(3) by (simp add: unat_div)
  then have q: "of_nat (unat (SystemCoreClock E div ?P)) / of_nat f - 1 = (of_nat (n - 1) :: real)"
    using assms(2,4) by (simp add: of_nat_diff)
  obtain m where m: "n = Suc m" using assms(4) by (cases n) simp_all
  then have r: "m < 2 ^ 32" "2 \<le> m" "m \<le> 65535" using assms(4,5) by simp_all
  then have u: "unat (of_nat m :: u32) = m" by (simp add: unat_of_nat)
  have "f_to_u32 exact_floats (of_nat m) = Some (of_nat m)" using r(1) by (simp add: exact_floats_def)
  moreover have "\<not> (of_nat m :: u32) < 2" "\<not> 65535 < (of_nat m :: u32)" using u r(2,3) by (simp_all add: word_less_nat_alt)
  moreover have "f_sub exact_floats (f_div exact_floats (f_of_u32 exact_floats (SystemCoreClock E div ?P)) (of_nat f))
      (f_of_u32 exact_floats 1) = of_nat m"
    using q m by (simp add: exact_floats_def)
  ultimately have "rhs_hal_speaker_calculate_autoreload E (of_nat f) = Inr (of_nat m)"
    by (simp add: rhs_hal_speaker_calculate_autoreload_def assms(1))
  then show ?thesis using u assms(3) m by (intro exI [of _ "of_nat m"]) (simp add: sounding_clocks_def algebra_simps)
qed

definition demo_speaker_env :: "(real, nat, unit) speaker_env" where
  "demo_speaker_env = \<lparr>floats = exact_floats, smx = plain_mutex,
     tim_api = \<lparr>HAL_TIM_Base_Init = (\<lambda>_ _ h. (True, h)), HAL_TIM_ConfigClockSource = (\<lambda>h. (True, h)), HAL_TIM_PWM_Init = (\<lambda>h. (True, h)),
       HAL_TIMEx_MasterConfigSynchronization = (\<lambda>h. (True, h)), HAL_TIM_PWM_ConfigChannel = (\<lambda>_ h. (True, h)),
       HAL_TIM_MspPostInit = (\<lambda>h. h), TIM3_CLK_ENABLE = (\<lambda>h. h)\<rparr>,
     on_chip = STM32F765xx, SystemCoreClock = 215000000\<rparr>"

definition demo_speaker :: "(nat, unit) speaker" where
  "demo_speaker = \<lparr>speaker_mutex = Some \<lparr>ucQueueType = 1, holder = None, rec_depth = 0\<rparr>, ARR = 376, CCR = 0, running = False, tim = ()\<rparr>"

lemma speaker_duty_witness:
  "\<exists>s'. rhs_hal_speaker_start demo_speaker_env 1000 5 demo_speaker = Inr s' \<and> 1 \<le> CCR s' \<and> unat (CCR s') \<le> max 1 (unat (ARR s') div 2)"
proof -
  have "rhs_hal_speaker_calculate_autoreload demo_speaker_env 1000 = Inr 999"
    by (simp add: rhs_hal_speaker_calculate_autoreload_def demo_speaker_env_def exact_floats_def prescaler_def)
  moreover have "single_floats (floats demo_speaker_env) (\<lambda>x. x)"
    using exact.single_floats_axioms by (simp add: demo_speaker_env_def)
  ultimately show ?thesis using speaker_duty [of demo_speaker_env "\<lambda>x. x" 1000 999 5 demo_speaker] by auto
qed

end
