(* ===== verification/Notification.thy ===== *)
theory Notification
  imports Speaker Message_Queue Record_Registry
begin

text \<open>
  The notification service (applications/services/notification): a thread that takes sequences of
  messages from its queue and plays them on the speaker, and the notes and sequences that come
  with it. The lemmas say what a sequence does with the speaker and compare the table of notes
  with the equal temperament it is generated from.
\<close>

section \<open>Messages\<close>

text \<open>Frequency and volume of a sound are literals, given in hundredths.\<close>

datatype notif_message = SoundOn nat nat | SoundOff | Delay u32 | DoNotReset

text \<open>The notes of each octave, from c to b.\<close>

definition notes_0 :: "nat list" where "notes_0 = [1635, 1732, 1835, 1945, 2060, 2183, 2312, 2450, 2596, 2750, 2914, 3087]"
definition notes_1 :: "nat list" where "notes_1 = [3270, 3465, 3671, 3889, 4120, 4365, 4625, 4900, 5191, 5500, 5827, 6174]"
definition notes_2 :: "nat list" where "notes_2 = [6541, 6930, 7342, 7778, 8241, 8731, 9250, 9800, 10383, 11000, 11654, 12347]"
definition notes_3 :: "nat list" where "notes_3 = [13081, 13859, 14683, 15556, 16481, 17461, 18500, 19600, 20765, 22000, 23308, 24694]"
definition notes_4 :: "nat list" where "notes_4 = [26163, 27718, 29366, 31113, 32963, 34923, 36999, 39200, 41530, 44000, 46616, 49388]"
definition notes_5 :: "nat list" where "notes_5 = [52325, 55437, 58733, 62225, 65926, 69846, 73999, 78399, 83061, 88000, 93233, 98777]"
definition notes_6 :: "nat list" where "notes_6 = [104650, 110873, 117466, 124451, 131851, 139691, 147998, 156798, 166122, 176000, 186466, 197553]"
definition notes_7 :: "nat list" where "notes_7 = [209300, 221746, 234932, 248902, 263702, 279383, 295996, 313596, 332244, 352000, 372931, 395107]"
definition notes_8 :: "nat list" where "notes_8 = [418601, 443492, 469864, 497803, 527404, 558765, 591991, 627193, 664488, 704000, 745862, 790213]"

definition note_table :: "nat list list" where
  "note_table = [notes_0, notes_1, notes_2, notes_3, notes_4, notes_5, notes_6, notes_7, notes_8]"

definition message_note :: "nat \<Rightarrow> nat \<Rightarrow> notif_message" where
  "message_note octave k = SoundOn (note_table ! octave ! k) 100"

definition message_click :: notif_message where
  "message_click = SoundOn 100 100"

definition sequence_reset_sound :: "notif_message list" where
  "sequence_reset_sound = [SoundOff]"

definition sequence_success :: "notif_message list" where
  "sequence_success = [message_note 5 0, Delay 50, message_note 5 4, Delay 50, message_note 5 7, Delay 50, message_note 6 0, Delay 50, SoundOff]"

definition sequence_error :: "notif_message list" where
  "sequence_error = [message_note 5 0, Delay 100, SoundOff, Delay 100, message_note 5 0, Delay 100, SoundOff]"

definition sequence_imperial_march :: "notif_message list" where
  "sequence_imperial_march = [message_note 4 7, Delay 500, SoundOff, Delay 50, message_note 4 7, Delay 500, SoundOff, Delay 50, message_note 4 7, Delay 500,
     message_note 4 3, Delay 350, message_note 4 10, Delay 150, message_note 4 7, Delay 500, message_note 4 3, Delay 350, message_note 4 10, Delay 150,
     message_note 4 7, Delay 1000, message_note 5 2, Delay 500, SoundOff, Delay 50, message_note 5 2, Delay 500, SoundOff, Delay 50,
     message_note 5 2, Delay 500, message_note 5 3, Delay 350, message_note 4 10, Delay 150, message_note 4 6, Delay 500, message_note 4 3, Delay 350,
     message_note 4 10, Delay 150, message_note 4 7, Delay 1000, SoundOff]"

section \<open>Playing\<close>

datatype sound = Tone u32 u32 | Silence | Pause "delay_call option"

text \<open>\<open>heard\<close> is what has been played. A sequence is the list of its messages before NULL.\<close>

record ('t, 'h) notif_world =
  spk :: "('t, 'h) speaker"
  heard :: "sound list"

record ('f, 't, 'h) notif_env =
  speaker_of :: "('f, 't, 'h) speaker_env"
  ncx :: ctx
  nme :: 't
  nscale :: "u32 \<Rightarrow> u32 \<Rightarrow> u32"
  nhz :: u32

definition notification_sound_on ::
  "('f, 't, 'h) notif_env \<Rightarrow> 'f \<Rightarrow> 'f \<Rightarrow> ('t, 'h) notif_world \<Rightarrow> ('t, 'h) notif_world res" where
  "notification_sound_on E freq volume w =
     rbind (rhs_hal_speaker_is_mine (speaker_of E) (ncx E) (nme E) (spk w)) (\<lambda>mine.
     rbind (if mine then Inr (True, spk w) else rhs_hal_speaker_acquire (speaker_of E) (ncx E) (nme E) 30 (spk w)) (\<lambda>(got, s1).
     if got then
       rbind (rhs_hal_speaker_start (speaker_of E) freq volume s1) (\<lambda>s2.
       Inr (w\<lparr>spk := s2, heard := heard w @ [Tone (ARR s2) (CCR s2)]\<rparr>))
     else Inr (w\<lparr>spk := s1\<rparr>)))"

definition notification_sound_off :: "('f, 't, 'h) notif_env \<Rightarrow> ('t, 'h) notif_world \<Rightarrow> ('t, 'h) notif_world res" where
  "notification_sound_off E w =
     rbind (rhs_hal_speaker_is_mine (speaker_of E) (ncx E) (nme E) (spk w)) (\<lambda>mine.
     if mine then
       rbind (rhs_hal_speaker_release (speaker_of E) (ncx E) (nme E) (spk w)) (\<lambda>s1.
       Inr (w\<lparr>spk := s1, heard := heard w @ [Silence]\<rparr>))
     else Inr w)"

definition play_message ::
  "('f, 't, 'h) notif_env \<Rightarrow> notif_message \<Rightarrow> ('t, 'h) notif_world \<Rightarrow> ('t, 'h) notif_world res" where
  "play_message E m w = (case m of
     SoundOn f v \<Rightarrow> notification_sound_on E (f_hundredths (floats (speaker_of E)) f) (f_hundredths (floats (speaker_of E)) v) w
   | SoundOff \<Rightarrow> notification_sound_off E w
   | Delay n \<Rightarrow> rbind (rhs_delay_ms (nscale E) (nhz E) (ncx E) n) (\<lambda>d. Inr (w\<lparr>heard := heard w @ [Pause d]\<rparr>))
   | DoNotReset \<Rightarrow> Inr w)"

fun notification_process_notification_message ::
  "('f, 't, 'h) notif_env \<Rightarrow> notif_message list \<Rightarrow> ('t, 'h) notif_world \<Rightarrow> ('t, 'h) notif_world res" where
  "notification_process_notification_message E [] w = Inr w"
| "notification_process_notification_message E (m # ms) w =
     rbind (play_message E m w) (notification_process_notification_message E ms)"

section \<open>The service\<close>

type_synonym sequence_queue = "notif_message list queue_obj"

definition notification_message ::
  "notif_message list queue_api \<Rightarrow> ctx \<Rightarrow> sequence_queue \<Rightarrow> notif_message list option \<Rightarrow> sequence_queue res" where
  "notification_message A c q sequence =
     rhs_assert (sequence \<noteq> None)
       (rbind (rhs_message_queue_put A c q sequence RHSWaitForever) (\<lambda>(r, _, q').
        rhs_assert (r = RHSStatusOk) (Inr q')))"

text \<open>The result of \<open>malloc\<close> is not tested: without memory the queue is stored through NULL.\<close>

definition notification_app_alloc ::
  "notif_message list queue_api \<Rightarrow> ctx \<Rightarrow> u32 \<Rightarrow> bool \<Rightarrow> sequence_queue res" where
  "notification_app_alloc A c header heap_ok =
     rbind (rhs_message_queue_alloc A c header 8 8) (\<lambda>(_, q). if heap_ok then Inr q else Inl OutOfBounds)"

definition notification_app_free :: "ctx \<Rightarrow> sequence_queue option \<Rightarrow> unit res" where
  "notification_app_free c q = rhs_message_queue_free c q"

text \<open>The start of the thread up to its loop; \<open>app\<close> is the address of the object.\<close>

definition notification_srv_start where
  "notification_srv_start A E RE header heap_ok app w R =
     rbind (notification_app_alloc A (ncx E) header heap_ok) (\<lambda>q.
     rbind (notification_message A (ncx E) q (Some sequence_success)) (\<lambda>q.
     rbind (notification_sound_off E w) (\<lambda>w.
     rbind (rhs_record_create RE (ncx E) (nme E) R ''notify'' app) (\<lambda>R. Inr (q, w, R)))))"

text \<open>Rounds of the loop.\<close>

fun notification_srv_loop ::
  "nat \<Rightarrow> notif_message list queue_api \<Rightarrow> ('f, 't, 'h) notif_env \<Rightarrow> sequence_queue \<Rightarrow> ('t, 'h) notif_world \<Rightarrow>
     (sequence_queue \<times> ('t, 'h) notif_world) res" where
  "notification_srv_loop 0 A E q w = Inr (q, w)"
| "notification_srv_loop (Suc n) A E q w =
     rbind (rhs_message_queue_get A (ncx E) q True RHSWaitForever) (\<lambda>(r, m, _, q1).
     rhs_assert (r = RHSStatusOk)
       (rbind (case m of None \<Rightarrow> Inr w | Some s \<Rightarrow> notification_process_notification_message E s w) (\<lambda>w1.
        notification_srv_loop n A E q1 w1)))"

section \<open>What a sequence does\<close>

definition tone_of :: "('f, 't, 'h) notif_env \<Rightarrow> nat \<Rightarrow> nat \<Rightarrow> sound option" where
  "tone_of E f v = (let S = speaker_of E; F = floats S in
     case rhs_hal_speaker_calculate_autoreload S (f_hundredths F f) of
       Inl _ \<Rightarrow> None
     | Inr a \<Rightarrow> (case rhs_hal_speaker_calculate_compare F a (f_hundredths F v) of Inl _ \<Rightarrow> None | Inr c \<Rightarrow> Some (Tone a c)))"

definition pause_of :: "('f, 't, 'h) notif_env \<Rightarrow> u32 \<Rightarrow> sound list" where
  "pause_of E n = (case rhs_delay_ms (nscale E) (nhz E) (ncx E) n of Inl _ \<Rightarrow> [] | Inr d \<Rightarrow> [Pause d])"

text \<open>The specification: what is heard, by whether the speaker is held before, and whether it is held afterwards.\<close>

fun performance :: "('f, 't, 'h) notif_env \<Rightarrow> bool \<Rightarrow> notif_message list \<Rightarrow> sound list" where
  "performance E on [] = []"
| "performance E on (SoundOn f v # ms) = (case tone_of E f v of None \<Rightarrow> [] | Some t \<Rightarrow> t # performance E True ms)"
| "performance E on (SoundOff # ms) = (if on then Silence # performance E False ms else performance E False ms)"
| "performance E on (Delay n # ms) = pause_of E n @ performance E on ms"
| "performance E on (DoNotReset # ms) = performance E on ms"

fun ends_on :: "bool \<Rightarrow> notif_message list \<Rightarrow> bool" where
  "ends_on on [] = on"
| "ends_on on (SoundOn f v # ms) = ends_on True ms"
| "ends_on on (SoundOff # ms) = ends_on False ms"
| "ends_on on (Delay n # ms) = ends_on on ms"
| "ends_on on (DoNotReset # ms) = ends_on on ms"

text \<open>The speaker is initialised and either free and silent or held by the service and running.\<close>

definition speaker_is :: "('f, 't, 'h) notif_env \<Rightarrow> bool \<Rightarrow> ('t, 'h) notif_world \<Rightarrow> bool" where
  "speaker_is E on w \<longleftrightarrow> (\<exists>m. speaker_mutex (spk w) = Some m \<and> ucQueueType m = queueQUEUE_TYPE_MUTEX (smx (speaker_of E)) \<and>
     holder m = (if on then Some (nme E) else None) \<and> running (spk w) = on)"

definition thread_level :: "ctx \<Rightarrow> bool" where
  "thread_level c \<longleftrightarrow> \<not> RHS_IS_IRQ_MODE c \<and> \<not> RHS_IS_ISR c \<and> \<not> rhs_kernel_is_irq_or_masked c"

lemma sound_on_plays:
  assumes "rtos_mutex (smx (speaker_of E))" and "thread_level (ncx E)" and "speaker_is E on w" and "tone_of E f v = Some t"
  shows "\<exists>w'. play_message E (SoundOn f v) w = Inr w' \<and> heard w' = heard w @ [t] \<and> speaker_is E True w'"
proof -
  let ?S = "speaker_of E"
  obtain a c where t: "rhs_hal_speaker_calculate_autoreload ?S (f_hundredths (floats ?S) f) = Inr a"
    "rhs_hal_speaker_calculate_compare (floats ?S) a (f_hundredths (floats ?S) v) = Inr c" "t = Tone a c"
    using assms(4) by (auto simp: tone_of_def Let_def split: sum.splits)
  obtain m where m: "speaker_mutex (spk w) = Some m" "ucQueueType m = queueQUEUE_TYPE_MUTEX (smx ?S)"
    "holder m = (if on then Some (nme E) else None)" "running (spk w) = on" using assms(3) by (auto simp: speaker_is_def)
  have irq: "\<not> RHS_IS_IRQ_MODE (ncx E)" using assms(2) by (simp add: thread_level_def)
  have ow: "rhs_mutex_get_owner (smx ?S) (ncx E) m = holder m"
    using rtos_mutex.owner [OF assms(1)] irq by (simp add: rhs_mutex_get_owner_def)
  show ?thesis
  proof (cases on)
    case True
    then show ?thesis using m t irq ow
      by (simp add: play_message_def notification_sound_on_def rhs_hal_speaker_is_mine_def the_mutex_def rhs_hal_speaker_start_def speaker_is_def)
  next
    case False
    then have "mutex_take (smx ?S) (nme E) m 30 = Some (True, m\<lparr>holder := Some (nme E), rec_depth := 1\<rparr>)"
      using rtos_mutex.take_free [OF assms(1)] m(3) by simp
    then show ?thesis using m t irq ow False rtos_mutex.types [OF assms(1)]
      by (simp add: play_message_def notification_sound_on_def rhs_hal_speaker_is_mine_def the_mutex_def rhs_hal_speaker_start_def
          speaker_is_def rhs_hal_speaker_acquire_def rhs_mutex_acquire_def take_status_def)
  qed
qed

lemma sound_off_plays:
  assumes "rtos_mutex (smx (speaker_of E))" and "thread_level (ncx E)" and "speaker_is E on w"
  shows "\<exists>w'. play_message E SoundOff w = Inr w' \<and> heard w' = heard w @ (if on then [Silence] else []) \<and> speaker_is E False w'"
proof -
  let ?S = "speaker_of E"
  obtain m where m: "speaker_mutex (spk w) = Some m" "ucQueueType m = queueQUEUE_TYPE_MUTEX (smx ?S)"
    "holder m = (if on then Some (nme E) else None)" "running (spk w) = on" using assms(3) by (auto simp: speaker_is_def)
  have irq: "\<not> RHS_IS_IRQ_MODE (ncx E)" using assms(2) by (simp add: thread_level_def)
  have ow: "rhs_mutex_get_owner (smx ?S) (ncx E) m = holder m"
    using rtos_mutex.owner [OF assms(1)] irq by (simp add: rhs_mutex_get_owner_def)
  show ?thesis
  proof (cases on)
    case True
    then have "mutex_give (smx ?S) (nme E) m = (True, m\<lparr>holder := None, rec_depth := 0\<rparr>)"
      using rtos_mutex.give [OF assms(1)] m(3) by simp
    then show ?thesis using m irq ow True rtos_mutex.types [OF assms(1)]
      by (simp add: play_message_def notification_sound_off_def rhs_hal_speaker_is_mine_def the_mutex_def rhs_hal_speaker_release_def
          rhs_hal_speaker_stop_def rhs_mutex_release_def speaker_is_def Let_def)
  next
    case False
    then show ?thesis using m irq ow
      by (simp add: play_message_def notification_sound_off_def rhs_hal_speaker_is_mine_def the_mutex_def speaker_is_def)
  qed
qed

lemma delay_plays: "thread_level (ncx E) \<Longrightarrow> \<exists>w'. play_message E (Delay n) w = Inr w' \<and> heard w' = heard w @ pause_of E n \<and> spk w' = spk w"
  by (auto simp: play_message_def pause_of_def rhs_delay_ms_def rhs_delay_tick_def thread_level_def rbind_def Let_def split: sum.splits)

definition audible :: "('f, 't, 'h) notif_env \<Rightarrow> notif_message list \<Rightarrow> bool" where
  "audible E ms \<longleftrightarrow> (\<forall>f v. SoundOn f v \<in> set ms \<longrightarrow> tone_of E f v \<noteq> None)"

lemma audible_Cons: "audible E (m # ms) \<longleftrightarrow> (case m of SoundOn f v \<Rightarrow> tone_of E f v \<noteq> None | _ \<Rightarrow> True) \<and> audible E ms"
  by (auto simp: audible_def split: notif_message.splits)

lemma shipped_sequences_end_off:
  "ms \<in> {sequence_reset_sound, sequence_success, sequence_error, sequence_imperial_march} \<Longrightarrow> \<not> ends_on on ms"
  by (auto simp: sequence_reset_sound_def sequence_success_def sequence_error_def sequence_imperial_march_def message_note_def)

text \<open>While another task holds the speaker past the timeout, a sequence waits out its delays and leaves the speaker alone.\<close>

lemma busy_speaker_untouched:
  assumes "rtos_mutex (smx (speaker_of E))" and "thread_level (ncx E)" and "speaker_mutex (spk w) = Some m"
    and "ucQueueType m = queueQUEUE_TYPE_MUTEX (smx (speaker_of E))" and "holder m = Some h" and "h \<noteq> nme E"
    and "mutex_take (smx (speaker_of E)) (nme E) m 30 = Some (False, m)"
  shows "\<exists>w'. notification_process_notification_message E ms w = Inr w' \<and> spk w' = spk w \<and> set (heard w') \<subseteq> set (heard w) \<union> range Pause"
  using assms(3)
proof (induction ms arbitrary: w)
  case (Cons x ms)
  have irq: "\<not> RHS_IS_IRQ_MODE (ncx E)" using assms(2) by (simp add: thread_level_def)
  have ow: "rhs_mutex_get_owner (smx (speaker_of E)) (ncx E) m \<noteq> Some (nme E)"
    using rtos_mutex.owner [OF assms(1)] irq assms(5,6) by (simp add: rhs_mutex_get_owner_def)
  have "\<exists>w1. play_message E x w = Inr w1 \<and> spk w1 = spk w \<and> set (heard w1) \<subseteq> set (heard w) \<union> range Pause"
  proof (cases x)
    case (SoundOn f v)
    then show ?thesis using Cons.prems irq ow assms(4,7) rtos_mutex.types [OF assms(1)]
      by (simp add: play_message_def notification_sound_on_def rhs_hal_speaker_is_mine_def the_mutex_def
          rhs_hal_speaker_acquire_def rhs_mutex_acquire_def take_status_def)
  next
    case SoundOff
    then show ?thesis using Cons.prems irq ow
      by (auto simp: play_message_def notification_sound_off_def rhs_hal_speaker_is_mine_def the_mutex_def)
  next
    case (Delay n)
    obtain w1 where "play_message E (Delay n) w = Inr w1" "heard w1 = heard w @ pause_of E n" "spk w1 = spk w"
      using delay_plays [OF assms(2)] by blast
    then show ?thesis using Delay by (auto simp: pause_of_def split: sum.splits)
  qed (simp add: play_message_def)
  then obtain w1 where w1: "play_message E x w = Inr w1" "spk w1 = spk w" "set (heard w1) \<subseteq> set (heard w) \<union> range Pause" by blast
  then have "speaker_mutex (spk w1) = Some m" using Cons.prems by simp
  from Cons.IH [OF this] obtain w2 where "notification_process_notification_message E ms w1 = Inr w2" "spk w2 = spk w1"
    "set (heard w2) \<subseteq> set (heard w1) \<union> range Pause" by blast
  then show ?case using w1 by auto
qed simp

section \<open>Properties\<close>


text \<open>\<open>2^(k/12)\<close> in billionths, rounded down, and the check of a note against it.\<close>

definition semitones :: "nat list" where
  "semitones = [1000000000, 1059463094, 1122462048, 1189207115, 1259921049, 1334839854, 1414213562, 1498307076, 1587401051, 1681792830, 1781797436, 1887748625]"

fun rooted :: "nat \<Rightarrow> nat list \<Rightarrow> bool" where
  "rooted k [] = True"
| "rooted k (q # qs) = (q ^ 12 \<le> 2 ^ k * 10 ^ 108 \<and> 2 ^ k * 10 ^ 108 \<le> (q + 1) ^ 12 \<and> rooted (k + 1) qs)"

lemma semitones_rooted: "rooted 0 semitones"
  by (simp add: semitones_def)

lemma rooted_nth: "rooted n qs \<Longrightarrow> k < length qs \<Longrightarrow>
    (qs ! k) ^ 12 \<le> 2 ^ (n + k) * 10 ^ 108 \<and> 2 ^ (n + k) * 10 ^ 108 \<le> (qs ! k + 1) ^ 12"
proof (induction qs arbitrary: n k)
  case (Cons q qs)
  show ?case
  proof (cases k)
    case (Suc j)
    then show ?thesis using Cons.IH [of "n + 1" j] Cons.prems by simp
  qed (use Cons.prems in simp)
qed simp

definition in_tune :: "nat \<Rightarrow> nat \<Rightarrow> nat \<Rightarrow> bool" where
  "in_tune octave q c \<longleftrightarrow> 0 < c \<and> (2 * c - 1) * 10 ^ 14 \<le> 327031958 * q * 2 ^ octave \<and>
     327031958 * (q + 1) * 2 ^ octave \<le> (2 * c + 1) * 10 ^ 14"

lemma octaves_tuned:
  "list_all2 (in_tune 0) semitones notes_0" "list_all2 (in_tune 1) semitones notes_1" "list_all2 (in_tune 2) semitones notes_2"
  "list_all2 (in_tune 3) semitones notes_3" "list_all2 (in_tune 4) semitones notes_4" "list_all2 (in_tune 5) semitones notes_5"
  "list_all2 (in_tune 6) semitones notes_6" "list_all2 (in_tune 7) semitones notes_7" "list_all2 (in_tune 8) semitones notes_8"
  by (simp_all add: semitones_def notes_0_def notes_1_def notes_2_def notes_3_def notes_4_def notes_5_def notes_6_def notes_7_def
      notes_8_def in_tune_def)

lemma table_in_tune:
  assumes "octave < 9" and "k < 12"
  shows "in_tune octave (semitones ! k) (note_table ! octave ! k)"
proof -
  have "octave \<in> {0, 1, 2, 3, 4, 5, 6, 7, 8}" using assms(1) by auto
  then have "list_all2 (in_tune octave) semitones (note_table ! octave)" using octaves_tuned by (auto simp: note_table_def)
  moreover have "length semitones = 12" by (simp add: semitones_def)
  ultimately show ?thesis using assms(2) by (simp add: list_all2_conv_all_nth)
qed

lemma semitone_bounds:
  assumes "k < 12"
  shows "of_nat (semitones ! k) \<le> 10 ^ 9 * (2 powr (of_nat k / 12) :: real) \<and> 10 ^ 9 * 2 powr (of_nat k / 12) \<le> (of_nat (semitones ! k) + 1 :: real)"
proof -
  let ?q = "semitones ! k" and ?x = "2 powr (of_nat k / 12) :: real"
  have l: "length semitones = 12" by (simp add: semitones_def)
  have "?x ^ 12 = ?x powr of_nat 12" by (subst powr_realpow) simp_all
  also have "\<dots> = 2 powr of_nat k" by (simp add: powr_powr)
  finally have x12: "?x ^ 12 = 2 ^ k" by (simp add: powr_realpow)
  have q: "?q ^ 12 \<le> 2 ^ k * 10 ^ 108" "2 ^ k * 10 ^ 108 \<le> (?q + 1) ^ 12"
    using rooted_nth [OF semitones_rooted, of k] assms l by simp_all
  have "of_nat (?q ^ 12) \<le> (of_nat (2 ^ k * 10 ^ 108) :: real)" "of_nat (2 ^ k * 10 ^ 108) \<le> (of_nat ((?q + 1) ^ 12) :: real)"
    using q by (simp_all only: of_nat_le_iff)
  moreover have "(10 ^ 9 * ?x) ^ 12 = of_nat (2 ^ k * 10 ^ 108)" using x12 by (simp add: power_mult_distrib)
  ultimately have "of_nat ?q ^ 12 \<le> (10 ^ 9 * ?x) ^ 12" "(10 ^ 9 * ?x) ^ 12 \<le> (of_nat ?q + 1) ^ 12"
    by (simp_all add: ac_simps)
  then show ?thesis
    using power_mono_iff [of "of_nat ?q" "10 ^ 9 * ?x" 12] power_mono_iff [of "10 ^ 9 * ?x" "of_nat ?q + 1" 12] by simp
qed

text \<open>C38: The table of notes is the equal temperament: note \<open>k\<close> of an octave is \<open>16.3515979 * 2^(octave + k/12)\<close> hertz rounded to hundredths,
  as the script in the comment computes it.\<close>

theorem notes_equal_tempered:
  assumes "octave < 9" and "k < 12"
  shows "\<bar>of_nat (note_table ! octave ! k) / 100 - 16.3515979 * 2 powr (of_nat octave + of_nat k / 12)\<bar> \<le> (0.005 :: real)"
proof -
  let ?c = "note_table ! octave ! k" and ?q = "semitones ! k"
  let ?x = "2 powr (of_nat k / 12) :: real"
  have c: "0 < ?c" "(2 * ?c - 1) * 10 ^ 14 \<le> 327031958 * ?q * 2 ^ octave" "327031958 * (?q + 1) * 2 ^ octave \<le> (2 * ?c + 1) * 10 ^ 14"
    using table_in_tune [OF assms] by (simp_all add: in_tune_def)
  have q: "of_nat ?q \<le> 10 ^ 9 * ?x" "10 ^ 9 * ?x \<le> of_nat ?q + 1" using semitone_bounds [OF assms(2)] by auto
  have "of_nat ((2 * ?c - 1) * 10 ^ 14) \<le> (of_nat (327031958 * ?q * 2 ^ octave) :: real)"
    "of_nat (327031958 * (?q + 1) * 2 ^ octave) \<le> (of_nat ((2 * ?c + 1) * 10 ^ 14) :: real)"
    using c(2,3) by (simp_all only: of_nat_le_iff)
  then have "(2 * of_nat ?c - 1) * 100000000000000 \<le> 327031958 * (2 ^ octave * of_nat ?q :: real)"
    "327031958 * (2 ^ octave * (of_nat ?q + 1) :: real) \<le> (2 * of_nat ?c + 1) * 100000000000000"
    using c(1) by (simp_all add: of_nat_diff algebra_simps)
  moreover have "2 ^ octave * of_nat ?q \<le> 2 ^ octave * (10 ^ 9 * ?x)" "2 ^ octave * (10 ^ 9 * ?x) \<le> 2 ^ octave * (of_nat ?q + 1)"
    using q by (simp_all add: mult_left_mono)
  moreover have "2 ^ octave * (10 ^ 9 * ?x) = 1000000000 * (2 ^ octave * ?x)" by simp
  ultimately have b: "(2 * of_nat ?c - 1) * 100000 \<le> 327031958 * (2 ^ octave * ?x) \<and> 327031958 * (2 ^ octave * ?x) \<le> (2 * of_nat ?c + 1) * 100000"
    by linarith
  have "2 powr (of_nat octave + of_nat k / 12) = 2 ^ octave * ?x" by (simp add: powr_add powr_realpow)
  moreover have "of_nat ?c / 100 - 16.3515979 * (2 ^ octave * ?x) \<le> 0.005 \<and> - (of_nat ?c / 100 - 16.3515979 * (2 ^ octave * ?x)) \<le> 0.005"
    using b by simp
  ultimately show ?thesis by (simp only: abs_le_iff)
qed

section \<open>An example\<close>

definition demo_notif :: "(real, nat, unit) notif_env" where
  "demo_notif = \<lparr>speaker_of = demo_speaker_env, ncx = task_ctx, nme = 1, nscale = (\<lambda>hz n. n), nhz = 1000\<rparr>"

lemma demo_tone: "tone_of demo_notif 52325 100 = Some (Tone 1910 955)"
proof -
  have f: "\<lfloor>(3997907 / 2093 :: real)\<rfloor> = 1910" by (simp add: floor_eq_iff)
  have "rhs_hal_speaker_calculate_autoreload demo_speaker_env (523.25) = Inr 1910"
    using f by (simp add: rhs_hal_speaker_calculate_autoreload_def demo_speaker_env_def exact_floats_def prescaler_def)
  moreover have "rhs_hal_speaker_calculate_compare exact_floats 1910 1 = Inr 955"
    by (simp add: rhs_hal_speaker_calculate_compare_def clamp_volume_def exact_floats_def)
  ultimately show ?thesis by (simp add: tone_of_def demo_notif_def) (simp add: demo_speaker_env_def exact_floats_def)
qed


lemma notes_equal_tempered_witness:
  "note_table ! 4 ! 9 = 44000 \<and> \<bar>of_nat (note_table ! 4 ! 9) / 100 - 16.3515979 * 2 powr (of_nat 4 + of_nat 9 / 12)\<bar> \<le> (0.005 :: real)"
  using notes_equal_tempered [of 4 9] by (simp only: note_table_def notes_4_def) simp

end
