(* ===== verification/Spec2Isabelle.thy ===== *)
theory Spec2Isabelle
  imports Net_Utils Unixtime Modbus_Tcp Semaphore Record_Registry Stream_Buffer Timer Thread Flash Eeprom Rtc Net_Worker Cli Io Can_Open_Device Can_Open_Cli Usb_Bridge_Run Usb_Eth_Bridge Net_Client Notification Memmgr
begin

text \<open>
  Verification development of RHS-BareMetalCore, the C base layer of the BMPLC controllers:
  a wrapper of FreeRTOS (src/core), the drivers of the chip and of the devices around it
  (src/hal, src/drivers) and the services that run as tasks over both
  (src/applications/services).

  How the program's parts interact. The services are threads; they find each other in the
  record registry, send each other messages through message queues and wait for the answer
  with an API lock (an event group). All of core asserts its preconditions with
  \<open>rhs_assert\<close>, which ends in a reset. The drivers take a mutex, talk to the vendor's HAL and
  have their interrupt handlers in one table. The network services hang on the TCP stack's
  event loop, which one thread owns.

  How the model is built. A C function is an Isabelle function of the same name that takes
  the state it touches and returns it changed. Its result type is \<open>'a res\<close>: \<open>Inr\<close> a value, or
  \<open>Inl\<close> a fault, where \<open>AssertFailed\<close> and \<open>Crash\<close> are the asserts and crashes of the source,
  \<open>OutOfBounds\<close> and \<open>DivisionByZero\<close> mark undefined behaviour (an access outside an object, a
  freed or NULL pointer), and \<open>Blocked\<close> an unbounded wait that does not end. A theorem that a
  call is \<open>Inr\<close> therefore says that no assert fails and that memory is used safely. Integers
  have their C width as words. Code outside of src (FreeRTOS, the vendor's HAL and CMSIS, rcan,
  mongoose, M*LIB, the chips themselves) is a parameter: a record of its functions, with a
  locale that states what the code relies on, and an interpretation of the locale on a
  concrete instance, which the witnesses use.

  Theories and sources:
  \<^item> Prelude: faults, arrays, widths, C strings, decimal digits.
  \<^item> Kernel (core/base.h, common.h, kernel.c, critical.c): statuses, the context tests on
    IPSR and PRIMASK, scheduler lock, delays, critical sections. Locales \<open>scheduler\<close>,
    \<open>critical_port\<close>.
  \<^item> Message_Queue, Semaphore, Mutex, Event_Flag (with core/api_lock.h), Stream_Buffer, Timer
    (core, files of these names): each wrapper over its FreeRTOS calls with their locale;
    shown to be a FIFO, a counter, mutual exclusion, the API lock protocol, a byte FIFO, and
    a safe end of a timer against the queue of the timer task.
  \<^item> Thread (core/thread.c): the life cycle with the scrubbing of ended threads and the thread
    flags on a task notification. Thread_List (core/thread_list.c and rhs_thread_enumerate)
    over Heap_List: linked lists in an explicit heap, refined to lists.
  \<^item> Record_Registry (core/record.c): the registry with its mutex and the readiness flags,
    under any interleaving of tasks.
  \<^item> Log (core/log.c): levels, excluded tags, printed lines.
  \<^item> Interrupt (hal/rhs_hal_interrupt): the table of handlers, write by write, and its dispatch.
  \<^item> Can (hal/rhs_hal_can): both channels, over the interrupt table, under any order of calls
    and interrupts. Serial (hal/rhs_hal_serial): the ports RS232 and RS485 over the same table.
  \<^item> Cortex (hal/rhs_hal_cortex): timers on the cycle counter. I2c (hal/rhs_hal_i2c): the bus
    master on the registers of the peripheral. Eeprom (drivers/eeprom) over it.
  \<^item> Mt25ql128aba and Flash (hal/rhs_hal_flash_ex): the commands of the chip, and the driver
    with its mutex, over Paged_Memory, the memory of a chip with pages that wrap.
  \<^item> Unixtime and Rtc (hal/rhs_hal_rtc): the calendar conversions against a reference calendar,
    and the clock.
  \<^item> Net_Utils, Net_Listeners, Net_Worker (applications/services/net): address texts, the list
    of listeners, and the event loop of the net thread, refined to a list of listeners.
    Modbus_Tcp: the server's answer to a request, function code by function code.
    Net_Client: the calls of other threads over the queue and the API lock.
  \<^item> Usb (hal/rhs_hal_usb): the interface that is set and the dispatch of the network callbacks.
    Net_Drivers (applications/services/net/eth_net and usb_cdc_net, hal/rhs_hal_eth): configuration,
    start and stop of the two interfaces with the memory they own. Usb_Eth_Bridge
    (applications/services/net/usb_eth_bridge): the thread between both, and its stop.
  \<^item> Speaker (hal/rhs_hal_speaker) over Mutex, and Notification (applications/services/notification)
    over it: playing sequences, and the table of notes. Memmgr (core/memmgr.c): allocation on a heap
    of blocks.
  \<^item> Cli (applications/services/cli): the line editor, the commands and their table.
  \<^item> Io (hal/rhs_hal_io): the inputs, outputs and keys of the two boards.
  \<^item> Can_Open (applications/services/can_open): the CANopen service, its thread as a machine
    over Can, Message_Queue, Event_Flag and Mutex. Can_Filter and Can_Open_Cli: its commands.
    Can_Open_Device: the object dictionary's addresses and the configuration of nodes.
  \<^item> Usb_Serial_Bridge (applications/services/usb_serial_bridge, hal/rhs_hal_usb): the bridge
    between a virtual COM port and a serial port over Serial, Stream_Buffer, Semaphore, Mutex and
    Thread, its two threads as machines; Usb_Bridge_Run: its runs with interrupts and callbacks.

  Groups of lemmas. Each theory has the lemmas of its operations on every branch, an
  invariant or an abstraction, and then its properties; each property has its number in the
  manifest. Interleavings are inductive step relations (Mutex, Record_Registry, Timer,
  Thread, Can, Usb_Bridge_Run), whose invariants are shown by rule induction; loops of the source are
  structural recursions over what they walk, recursive functions with a measure, or, for
  loops over pointers and for polling, recursions with a bound \<open>n\<close>. The bounds are: the
  length of a list (a walk of a list of at most \<open>n\<close> nodes never runs out, see the lemmas
  of Heap_List), the number of rounds a hardware wait may poll (\<open>spins\<close>, \<open>polls\<close>), for which the
  termination properties show how many are enough from the law of the clock. A wait with
  \<open>RHSWaitForever\<close> for what does not come is \<open>Blocked\<close>.

  Not modelled, with reasons. Initialisation of pins, clocks and registers through the
  vendor's HAL (all HAL_*_MspInit, rhs_hal_gpio.h, the pins and clocks in rhs_hal_usb*.c,
  rhs_hal_i2c_config.c apart from the bus events, hal_rs422.c) writes constants to registers and has no
  result to state. Console output is modelled only where the code decides what is printed.
  The USB descriptors are data for the library tinyusb, and the requests for them return them. The
  loader and the start-up call the initialisers in the order of a list of the build. The random numbers,
  the reset and the unique id are single register accesses.
\<close>

end
